(* ===== verification/SnortPrelude.thy ===== *)
theory SnortPrelude
  imports Main "HOL-Library.Word" "HOL-Library.Signed_Division"
begin

text \<open>
  Shared vocabulary of the development: the machine types of the C code, the fact
  collections the component theories add to, and the generic lemmas on lists, maps and
  words that several components use. Nothing here models a function of the program.
\<close>

unbundle bit_operations_syntax

type_synonym u8 = "8 word"
type_synonym u16 = "16 word"
type_synonym u32 = "32 word"
type_synonym u64 = "64 word"
type_synonym s16 = "16 word"
type_synonym s32 = "32 word"

text \<open>
  An IP address of the build (\<open>SUP_IP6\<close>, \<open>sfip_t\<close> of \<open>sfutil/sf_ip.h\<close>): family, prefix
  length and the sixteen address bytes read as one number.
\<close>

record sfip_t =
  ip_family :: int
  ip_bits :: int
  ip_addr :: "128 word"

subsection \<open>Lists\<close>

lemma set_remove1_distinct: "distinct xs \<Longrightarrow> set (remove1 x xs) = set xs - {x}"
  by (rule set_remove1_eq)

lemma length_remove1_mem: "x \<in> set xs \<Longrightarrow> length (remove1 x xs) = length xs - 1"
  by (simp add: length_remove1)

lemma remove1_hd: "xs \<noteq> [] \<Longrightarrow> hd xs = x \<Longrightarrow> remove1 x xs = tl xs"
  by (cases xs) auto

lemma remove1_last_distinct:
  assumes "distinct xs" and "xs \<noteq> []"
  shows "remove1 (last xs) xs = butlast xs"
proof -
  have "xs = butlast xs @ [last xs]" using assms(2) by simp
  moreover from this assms(1) have "last xs \<notin> set (butlast xs)"
    by (metis distinct_append distinct_butlast not_distinct_conv_prefix append_butlast_last_id)
  ultimately show ?thesis
    by (metis append_Nil2 remove1.simps(2) remove1_append remove1_idem)
qed

lemma map_remove1_inj_on:
  "inj_on f (set xs) \<Longrightarrow> x \<in> set xs \<Longrightarrow> map f (remove1 x xs) = remove1 (f x) (map f xs)"
proof (induction xs)
  case Nil
  then show ?case by simp
next
  case (Cons y ys)
  show ?case
  proof (cases "y = x")
    case True
    then show ?thesis by simp
  next
    case False
    with Cons.prems have "f y \<noteq> f x" by (auto simp: inj_on_def)
    with False Cons show ?thesis by (auto simp: inj_on_def)
  qed
qed

lemma find_Some_mem: "List.find P xs = Some x \<Longrightarrow> x \<in> set xs \<and> P x"
  by (auto simp: find_Some_iff)

lemma find_None_mem: "List.find P xs = None \<longleftrightarrow> (\<forall>x\<in>set xs. \<not> P x)"
  by (auto simp: find_None_iff)

lemma rev_last: "xs \<noteq> [] \<Longrightarrow> rev xs = last xs # rev (butlast xs)"
  by (metis append_butlast_last_id rev_eq_Cons_iff rev_rev_ident)

lemma butlast_subset: "set (butlast xs) \<subseteq> set xs"
  by (auto dest: in_set_butlastD)

lemma drop_take_split: "i \<le> j \<Longrightarrow> take j xs = take i xs @ take (j - i) (drop i xs)"
  by (metis le_add_diff_inverse take_add)

subsection \<open>Words\<close>

lemma unat_and_mask_less:
  fixes h n :: "'a::len word"
  assumes "n \<noteq> 0"
  shows "unat (h AND (n - 1)) < unat n"
proof -
  have "h AND (n - 1) \<le> n - 1" by (rule word_and_le1)
  then have "unat (h AND (n - 1)) \<le> unat (n - 1)" by (simp add: word_le_nat_alt)
  also have "\<dots> < unat n"
    using assms unat_gt_0 [of n] by (simp add: unat_minus_one)
  finally show ?thesis .
qed

lemma unat_exp_2: "n < LENGTH('a) \<Longrightarrow> unat (2 ^ n :: 'a::len word) = 2 ^ n"
proof -
  assume "n < LENGTH('a)"
  then have "unat (of_nat (2 ^ n) :: 'a word) = 2 ^ n"
    by (simp only: unat_of_nat) (simp add: take_bit_eq_mod)
  then show ?thesis by simp
qed

lemma sint_eq_unat:
  fixes w :: "'a::len word"
  assumes "unat w < 2 ^ (LENGTH('a) - 1)"
  shows "sint w = int (unat w)"
proof -
  have "int (unat w) < int (2 ^ (LENGTH('a) - 1))" using assms by (simp only: of_nat_less_iff)
  then have less: "uint w < 2 ^ (LENGTH('a) - 1)" by simp
  have "- (2 ^ (LENGTH('a) - 1)) \<le> uint w" by (rule order_trans [OF _ uint_ge_0]) simp
  then have "signed_take_bit (LENGTH('a) - 1) (uint w) = uint w"
    by (rule signed_take_bit_int_eq_self) (rule less)
  then show ?thesis by (simp only: sint_uint) simp
qed

lemma unat_plus_no_wrap:
  fixes a b :: "'a::len word"
  shows "unat a + unat b < 2 ^ LENGTH('a) \<Longrightarrow> unat (a + b) = unat a + unat b"
  by (simp add: unat_word_ariths)

lemma unat_minus_no_wrap:
  fixes a b :: "'a::len word"
  shows "unat b \<le> unat a \<Longrightarrow> unat (a - b) = unat a - unat b"
  by (simp add: unat_sub word_le_nat_alt)

text \<open>The seconds from \<open>s\<close> to \<open>t\<close> as the code takes them, and signed comparison of counters.\<close>

lemma elapsed_unat:
  fixes t s :: u64
  assumes "unat s \<le> unat t" and "unat t - unat s < 2 ^ 32"
  shows "unat (ucast (t - s) :: u32) = unat t - unat s"
  using assms by (simp add: unsigned_ucast_eq unat_minus_no_wrap take_bit_nat_eq_self)

lemma sless_unat:
  fixes a b :: u32
  assumes "unat a < 2 ^ 31" and "unat b < 2 ^ 31"
  shows "a <s b \<longleftrightarrow> unat a < unat b" and "a \<le>s b \<longleftrightarrow> unat a \<le> unat b"
proof -
  have e: "sint a = int (unat a)" "sint b = int (unat b)" using assms by (simp_all add: sint_eq_unat del: of_nat_unat)
  show "a <s b \<longleftrightarrow> unat a < unat b" by (simp only: word_sless_alt e of_nat_less_iff)
  show "a \<le>s b \<longleftrightarrow> unat a \<le> unat b" by (simp only: word_sle_eq e of_nat_le_iff)
qed

lemma word_less_Suc: "c + 1 \<noteq> 0 \<Longrightarrow> c < c + (1 :: 'a::len word)"
  using inc_less_eq_triv_imp [of c] by (auto simp: not_le [symmetric])

end
