(* ===== verification/KeyedStore.thy ===== *)
theory KeyedStore
  imports SnortPrelude
begin

text \<open>
  The interface between a tracker (the event filters of \<open>sfthd.c\<close>, the rate filters of
  \<open>sfrf.c\<close>) and the table it keeps its per-address state in. A node handle is got from the
  table by key and then read and written through a pointer. \<open>adding_store\<close> states what
  \<open>sfxhash_add\<close> promises its clients, \<open>getting_store\<close> what \<open>sfxhash_get_node\<close> does.
  \<open>SfXHash\<close> interprets both on the model of the hash table.
\<close>

locale keyed_store =
  fixes inv :: "'s \<Rightarrow> bool"
    and lookup :: "'s \<Rightarrow> 'k \<Rightarrow> 'd option"
    and at :: "'s \<Rightarrow> 'n \<Rightarrow> 'k \<Rightarrow> bool"
    and cur :: "'s \<Rightarrow> 'n \<Rightarrow> 'd"
    and wr :: "'s \<Rightarrow> 'n \<Rightarrow> 'd \<Rightarrow> 's"
  assumes at_cur: "inv s \<Longrightarrow> at s n k \<Longrightarrow> lookup s k = Some (cur s n)"
    and wr_inv: "inv s \<Longrightarrow> at s n k \<Longrightarrow> inv (wr s n d)"
    and wr_lookup: "inv s \<Longrightarrow> at s n k \<Longrightarrow> lookup (wr s n d) = (lookup s)(k \<mapsto> d)"
    and wr_at: "inv s \<Longrightarrow> at s n k \<Longrightarrow> at (wr s n d) n k"
begin

lemma wr_cur:
  assumes "inv s" and "at s n k"
  shows "cur (wr s n d) n = d"
proof -
  have "lookup (wr s n d) k = Some (cur (wr s n d) n)"
    by (rule at_cur [OF wr_inv wr_at]) (rule assms)+
  then show ?thesis by (simp add: wr_lookup [OF assms])
qed

lemma wr_same:
  "inv s \<Longrightarrow> at s n k \<Longrightarrow> lookup (wr s n (cur s n)) = lookup s"
  using at_cur by (fastforce simp: wr_lookup)

end

text \<open>
  \<open>add s k d\<close> returns the status and the new table; \<open>hit\<close> is the status for a key that was
  there, whose node is then \<open>node s'\<close>, and \<open>ok\<close> the one for a key that was added.
\<close>

locale adding_store = keyed_store inv lookup at cur wr
  for inv :: "'s \<Rightarrow> bool" and lookup :: "'s \<Rightarrow> 'k \<Rightarrow> 'd option" and at :: "'s \<Rightarrow> 'n \<Rightarrow> 'k \<Rightarrow> bool"
    and cur :: "'s \<Rightarrow> 'n \<Rightarrow> 'd" and wr :: "'s \<Rightarrow> 'n \<Rightarrow> 'd \<Rightarrow> 's" +
  fixes add :: "'s \<Rightarrow> 'k \<Rightarrow> 'd \<Rightarrow> int \<times> 's"
    and node :: "'s \<Rightarrow> 'n"
    and hit ok :: int
  assumes statuses: "hit \<noteq> ok"
    and add_hit: "inv s \<Longrightarrow> lookup s k = Some v \<Longrightarrow> add s k d = (st, s') \<Longrightarrow>
          st = hit \<and> inv s' \<and> lookup s' = lookup s \<and> at s' (node s') k"
    and add_new: "inv s \<Longrightarrow> lookup s k = None \<Longrightarrow> add s k d = (st, s') \<Longrightarrow>
          st \<noteq> hit \<and> inv s' \<and> (st = ok \<longrightarrow> lookup s' k = Some d) \<and>
          (st \<noteq> ok \<longrightarrow> lookup s' k = None) \<and>
          (\<forall>j. j \<noteq> k \<longrightarrow> lookup s' j = lookup s j \<or> lookup s' j = None)"

text \<open>
  The pattern of a tracker: add a fresh datum for the key; when the key was there, read its datum
  through the node and write the updated one back.
\<close>

context adding_store begin

lemma touch_hit:
  assumes "inv s" and "lookup s k = Some v" and "add s k d = (st, s')"
  shows "st = hit" and "cur s' (node s') = v" and "inv (wr s' (node s') v')"
    and "lookup (wr s' (node s') v') = (lookup s)(k \<mapsto> v')"
proof -
  from add_hit [OF assms]
  have a: "st = hit" "inv s'" "lookup s' = lookup s" "at s' (node s') k" by blast+
  show "st = hit" by (rule a(1))
  show "cur s' (node s') = v" using at_cur [OF a(2,4)] a(3) assms(2) by simp
  show "inv (wr s' (node s') v')" by (rule wr_inv [OF a(2,4)])
  show "lookup (wr s' (node s') v') = (lookup s)(k \<mapsto> v')"
    using wr_lookup [OF a(2,4)] a(3) by simp
qed

lemma touch_new:
  assumes "inv s" and "lookup s k = None" and "add s k d = (st, s')"
  shows "st \<noteq> hit" and "inv s'" and "st = ok \<Longrightarrow> lookup s' k = Some d"
    and "st \<noteq> ok \<Longrightarrow> lookup s' k = None"
  using add_new [OF assms] by blast+

end

locale getting_store = keyed_store inv lookup at cur wr
  for inv :: "'s \<Rightarrow> bool" and lookup :: "'s \<Rightarrow> 'k \<Rightarrow> 'd option" and at :: "'s \<Rightarrow> 'n \<Rightarrow> 'k \<Rightarrow> bool"
    and cur :: "'s \<Rightarrow> 'n \<Rightarrow> 'd" and wr :: "'s \<Rightarrow> 'n \<Rightarrow> 'd \<Rightarrow> 's" +
  fixes get :: "'s \<Rightarrow> 'k \<Rightarrow> 'n option \<times> 's"
  assumes get_hit: "inv s \<Longrightarrow> lookup s k = Some v \<Longrightarrow> get s k = (r, s') \<Longrightarrow>
          \<exists>n. r = Some n \<and> inv s' \<and> lookup s' = lookup s \<and> at s' n k"
    and get_new: "inv s \<Longrightarrow> lookup s k = None \<Longrightarrow> get s k = (r, s') \<Longrightarrow>
          inv s' \<and> (\<forall>n. r = Some n \<longrightarrow> at s' n k) \<and> (r = None \<longrightarrow> lookup s' k = None) \<and>
          (\<forall>j. j \<noteq> k \<longrightarrow> lookup s' j = lookup s j \<or> lookup s' j = None)"

end
