(* ===== verification/SfXHash.thy ===== *)
theory SfXHash
  imports KeyedStore
begin

text \<open>
  The hash table every run-time tracker of the program lives in: \<open>src/src/sfutil/sfxhash.c\<close>
  with its memory accounting (\<open>sfmemcap.c\<close>) and default hash (\<open>sfhashfcn.c\<close>).
  A node is named by a number (its address). The two pairs of links of a C node, the row
  chain (\<open>next\<close>/\<open>prev\<close>) and the global ageing chain (\<open>gnext\<close>/\<open>gprev\<close>, also used for
  the free list), are read as lists of node numbers: \<open>xh_table\<close> holds the row chains,
  \<open>xh_glist\<close> the global list from \<open>ghead\<close> to \<open>gtail\<close>, \<open>xh_flist\<close> the free list from
  \<open>fhead\<close> to \<open>ftail\<close>. The contents of a node stay in \<open>xh_nodes\<close> while the node is free,
  as its memory does in C.
\<close>

subsection \<open>Memory accounting (sfmemcap.c)\<close>

record MEMCAP =
  mc_memused :: u64
  mc_memcap :: u64
  mc_nblocks :: u32

definition sfmemcap_init :: "u64 \<Rightarrow> MEMCAP" where
  "sfmemcap_init nbytes = \<lparr>mc_memused = 0, mc_memcap = nbytes, mc_nblocks = 0\<rparr>"

text \<open>The number returned is the size word the C code stores in front of the block (\<open>long\<close>, 8 bytes).\<close>

definition sfmemcap_alloc :: "MEMCAP \<Rightarrow> u64 \<Rightarrow> u64 option \<times> MEMCAP" where
  "sfmemcap_alloc mc nbytes0 =
     (let nbytes = nbytes0 + 8 in
      if mc_memcap mc > 0 \<and> mc_memused mc + nbytes > mc_memcap mc then (None, mc)
      else (Some nbytes,
            mc\<lparr>mc_memused := mc_memused mc + nbytes, mc_nblocks := mc_nblocks mc + 1\<rparr>))"

definition sfmemcap_free :: "MEMCAP \<Rightarrow> u64 \<Rightarrow> MEMCAP" where
  "sfmemcap_free mc q =
     mc\<lparr>mc_memused := mc_memused mc - ucast (ucast q :: u32), mc_nblocks := mc_nblocks mc - 1\<rparr>"

definition sfmemcap_dupmem :: "MEMCAP \<Rightarrow> u8 list \<Rightarrow> u64 \<Rightarrow> (u64 \<times> u8 list) option \<times> MEMCAP" where
  "sfmemcap_dupmem mc src n =
     (case sfmemcap_alloc mc n of
        (None, mc') \<Rightarrow> (None, mc')
      | (Some q, mc') \<Rightarrow> (Some (q, take (unat n) src), mc'))"

subsection \<open>The default hash function (sfhashfcn.c)\<close>

record SFHASHFCN =
  hf_seed :: u32
  hf_scale :: u32
  hf_hardener :: u32

definition sfhashfcn_static :: SFHASHFCN where
  "sfhashfcn_static = \<lparr>hf_seed = 3193, hf_scale = 719, hf_hardener = 133824503\<rparr>"

definition sfhashfcn_hash :: "SFHASHFCN \<Rightarrow> u8 list \<Rightarrow> u32" where
  "sfhashfcn_hash p d =
     fold (\<lambda>b hash. hash * hf_scale p + ucast b) d (hf_seed p) XOR hf_hardener p"

subsection \<open>The table\<close>

definition SFXHASH_NOMEM :: int where "SFXHASH_NOMEM = -2"
definition SFXHASH_ERR :: int where "SFXHASH_ERR = -1"
definition SFXHASH_OK :: int where "SFXHASH_OK = 0"
definition SFXHASH_INTABLE :: int where "SFXHASH_INTABLE = 1"

lemmas sfxhash_status = SFXHASH_NOMEM_def SFXHASH_ERR_def SFXHASH_OK_def SFXHASH_INTABLE_def

record ('k, 'v) SFXHASH_NODE =
  hn_key :: 'k
  hn_data :: "'v option"  \<comment> \<open>\<open>None\<close>: the data pointer is NULL\<close>
  hn_rindex :: nat

record ('k, 'v) SFXHASH =
  xh_hash :: "'k \<Rightarrow> u32"            \<comment> \<open>\<open>sfhashfcn->hash_fcn\<close>\<close>
  xh_keycmp :: "'k \<Rightarrow> 'k \<Rightarrow> int"     \<comment> \<open>\<open>sfhashfcn->keycmp_fcn\<close>, 0 on equal keys\<close>
  xh_keysize :: s32
  xh_datasize :: s32
  xh_table :: "nat list list"
  xh_nrows :: u32
  xh_count :: u32
  xh_crow :: u32
  xh_cnode :: "nat option"
  xh_splay :: int
  xh_max_nodes :: u32
  xh_mc :: MEMCAP
  xh_overhead_bytes :: u32
  xh_overhead_blocks :: u32
  xh_find_fail :: u32
  xh_find_success :: u32
  xh_glist :: "nat list"
  xh_flist :: "nat list"
  xh_recycle_nodes :: bool
  xh_anr_tries :: u32
  xh_anr_count :: u32
  xh_anr_flag :: bool
  xh_anrfree :: "('k \<Rightarrow> 'v option \<Rightarrow> bool) option"  \<comment> \<open>\<open>True\<close>: the user refuses\<close>
  xh_usrfree :: bool                               \<comment> \<open>whether the callback is set\<close>
  xh_freed :: "('k \<times> 'v option) list"             \<comment> \<open>the calls made to it, oldest first\<close>
  xh_zero :: 'v                                    \<comment> \<open>the datum whose bytes are all zero\<close>
  xh_nodes :: "nat \<Rightarrow> ('k, 'v) SFXHASH_NODE"
  xh_blocks :: "nat \<Rightarrow> u64"                       \<comment> \<open>size word of each node's block\<close>
  xh_next :: nat                                   \<comment> \<open>the next fresh address\<close>

definition s_alloc :: "('k, 'v) SFXHASH \<Rightarrow> s32 \<Rightarrow> u64 option \<times> ('k, 'v) SFXHASH" where
  "s_alloc t n = (let (r, mc) = sfmemcap_alloc (xh_mc t) (scast n) in (r, t\<lparr>xh_mc := mc\<rparr>))"

definition s_free :: "('k, 'v) SFXHASH \<Rightarrow> u64 \<Rightarrow> ('k, 'v) SFXHASH" where
  "s_free t q = t\<lparr>xh_mc := sfmemcap_free (xh_mc t) q\<rparr>"

definition sfxhash_nearest_powerof2 :: "s32 \<Rightarrow> s32" where
  "sfxhash_nearest_powerof2 nrows =
     fold (\<lambda>i n. n OR signed_drop_bit i n) [1, 2, 4, 8, 16] (nrows - 1) + 1"

definition sfxhash_calcrows :: "s32 \<Rightarrow> s32" where
  "sfxhash_calcrows num = sfxhash_nearest_powerof2 num"

text \<open>
  \<open>hash\<close> and \<open>keycmp\<close> are the operators \<open>sfhashfcn_new\<close> installs (the hash of the key's bytes
  with a seed drawn at start-up, and \<open>memcmp\<close>); \<open>zero\<close> is the all-zero datum. The result
  is \<open>None\<close> where the C function returns 0.
\<close>

definition sfxhash_new ::
  "('k \<Rightarrow> u32) \<Rightarrow> ('k \<Rightarrow> 'k \<Rightarrow> int) \<Rightarrow> 'v \<Rightarrow> s32 \<Rightarrow> s32 \<Rightarrow> s32 \<Rightarrow> u64 \<Rightarrow> bool \<Rightarrow>
   ('k \<Rightarrow> 'v option \<Rightarrow> bool) option \<Rightarrow> bool \<Rightarrow> bool \<Rightarrow> ('k, 'v) SFXHASH option" where
  "sfxhash_new hash keycmp zero nrows0 keysize datasize maxmem anr_flag anrfree usrfree recycle =
     (let nrows = (if 0 <s nrows0 then sfxhash_nearest_powerof2 nrows0 else - nrows0);
          (r, mc) = sfmemcap_alloc (sfmemcap_init maxmem) (scast (8 * nrows)) in
      case r of None \<Rightarrow> None
      | Some _ \<Rightarrow> Some \<lparr>
          xh_hash = hash, xh_keycmp = keycmp, xh_keysize = keysize, xh_datasize = datasize,
          xh_table = replicate (nat (sint nrows)) [], xh_nrows = nrows, xh_count = 0,
          xh_crow = 0, xh_cnode = None, xh_splay = 1, xh_max_nodes = 0, xh_mc = mc,
          xh_overhead_bytes = ucast (mc_memused mc), xh_overhead_blocks = mc_nblocks mc,
          xh_find_fail = 0, xh_find_success = 0, xh_glist = [], xh_flist = [],
          xh_recycle_nodes = recycle, xh_anr_tries = 0, xh_anr_count = 0,
          xh_anr_flag = anr_flag, xh_anrfree = anrfree, xh_usrfree = usrfree, xh_freed = [],
          xh_zero = zero, xh_nodes = (\<lambda>_. undefined), xh_blocks = (\<lambda>_. 0), xh_next = 0\<rparr>)"

definition sfxhash_set_max_nodes :: "('k, 'v) SFXHASH \<Rightarrow> u32 \<Rightarrow> ('k, 'v) SFXHASH" where
  "sfxhash_set_max_nodes h n = h\<lparr>xh_max_nodes := n\<rparr>"

definition sfxhash_splaymode :: "('k, 'v) SFXHASH \<Rightarrow> int \<Rightarrow> ('k, 'v) SFXHASH" where
  "sfxhash_splaymode t n = t\<lparr>xh_splay := n\<rparr>"

definition sfxhash_set_keyops ::
  "('k, 'v) SFXHASH \<Rightarrow> ('k \<Rightarrow> u32) option \<Rightarrow> ('k \<Rightarrow> 'k \<Rightarrow> int) option \<Rightarrow> int \<times> ('k, 'v) SFXHASH"
where
  "sfxhash_set_keyops h hash keycmp =
     (case (hash, keycmp) of
        (Some f, Some g) \<Rightarrow> (0, h\<lparr>xh_hash := f, xh_keycmp := g\<rparr>)
      | _ \<Rightarrow> (-1, h))"

subsubsection \<open>Links\<close>

definition sfxhash_save_free_node :: "('k, 'v) SFXHASH \<Rightarrow> nat \<Rightarrow> ('k, 'v) SFXHASH" where
  "sfxhash_save_free_node t n = t\<lparr>xh_flist := n # xh_flist t\<rparr>"

definition sfxhash_get_free_node :: "('k, 'v) SFXHASH \<Rightarrow> nat option \<times> ('k, 'v) SFXHASH" where
  "sfxhash_get_free_node t =
     (case xh_flist t of [] \<Rightarrow> (None, t) | n # ns \<Rightarrow> (Some n, t\<lparr>xh_flist := ns\<rparr>))"

definition sfxhash_glink_node :: "('k, 'v) SFXHASH \<Rightarrow> nat \<Rightarrow> ('k, 'v) SFXHASH" where
  "sfxhash_glink_node t n = t\<lparr>xh_glist := n # xh_glist t\<rparr>"

definition sfxhash_gunlink_node :: "('k, 'v) SFXHASH \<Rightarrow> nat \<Rightarrow> ('k, 'v) SFXHASH" where
  "sfxhash_gunlink_node t n = t\<lparr>xh_glist := remove1 n (xh_glist t)\<rparr>"

definition sfxhash_gmovetofront :: "('k, 'v) SFXHASH \<Rightarrow> nat \<Rightarrow> ('k, 'v) SFXHASH" where
  "sfxhash_gmovetofront t n =
     (if xh_glist t \<noteq> [] \<and> hd (xh_glist t) = n then t
      else sfxhash_glink_node (sfxhash_gunlink_node t n) n)"

definition sfxhash_link_node :: "('k, 'v) SFXHASH \<Rightarrow> nat \<Rightarrow> ('k, 'v) SFXHASH" where
  "sfxhash_link_node t n =
     (let r = hn_rindex (xh_nodes t n)
      in t\<lparr>xh_table := (xh_table t)[r := n # xh_table t ! r]\<rparr>)"

text \<open>A node with a predecessor is taken out of the chain; otherwise the head of its row is.\<close>

definition sfxhash_unlink_node :: "('k, 'v) SFXHASH \<Rightarrow> nat \<Rightarrow> ('k, 'v) SFXHASH" where
  "sfxhash_unlink_node t n =
     (let r = hn_rindex (xh_nodes t n); row = xh_table t ! r
      in t\<lparr>xh_table := (xh_table t)[r := if n \<in> set (tl row) then remove1 n row else tl row]\<rparr>)"

definition movetofront :: "('k, 'v) SFXHASH \<Rightarrow> nat \<Rightarrow> ('k, 'v) SFXHASH" where
  "movetofront t n =
     (let row = xh_table t ! hn_rindex (xh_nodes t n);
          t' = (if row \<noteq> [] \<and> hd row = n then t
                else sfxhash_link_node (sfxhash_unlink_node t n) n)
      in sfxhash_gmovetofront t' n)"

subsubsection \<open>Allocation of a node\<close>

text \<open>The walk of \<open>sfxhash_newnode\<close> from \<open>gtail\<close> towards \<open>ghead\<close>, counting the requests.\<close>

fun anr_scan ::
  "('k \<Rightarrow> 'v option \<Rightarrow> bool) option \<Rightarrow> (nat \<Rightarrow> ('k, 'v) SFXHASH_NODE) \<Rightarrow> nat list \<Rightarrow> u32 \<Rightarrow>
   nat option \<times> u32" where
  "anr_scan anrfree nodes [] tries = (None, tries)"
| "anr_scan anrfree nodes (n # ns) tries =
     (case anrfree of
        None \<Rightarrow> (Some n, tries)
      | Some f \<Rightarrow>
          (if f (hn_key (nodes n)) (hn_data (nodes n)) then anr_scan anrfree nodes ns (tries + 1)
           else (Some n, tries + 1)))"

text \<open>
  The node, with the contents its data area has when the caller gets it: zero for memory fresh
  from \<open>SnortAlloc\<close>, what was there before for a recycled node.
\<close>

definition sfxhash_newnode ::
  "('k, 'v) SFXHASH \<Rightarrow> (nat \<times> 'v option) option \<times> ('k, 'v) SFXHASH" where
  "sfxhash_newnode t =
     (case sfxhash_get_free_node t of
        (Some n, t1) \<Rightarrow> (Some (n, hn_data (xh_nodes t1 n)), t1)
      | (None, t1) \<Rightarrow>
          (let (blk, t2) = (if xh_max_nodes t1 = 0 \<or> xh_count t1 < xh_max_nodes t1
                            then s_alloc t1 (56 + xh_keysize t1 + xh_datasize t1)
                            else (None, t1)) in
           case blk of
             Some q \<Rightarrow>
               (Some (xh_next t2, if xh_datasize t2 \<noteq> 0 then Some (xh_zero t2) else None),
                t2\<lparr>xh_blocks := (xh_blocks t2)(xh_next t2 := q), xh_next := xh_next t2 + 1\<rparr>)
           | None \<Rightarrow>
               (if xh_anr_flag t2 \<and> xh_glist t2 \<noteq> []
                then (case anr_scan (xh_anrfree t2) (xh_nodes t2) (rev (xh_glist t2))
                             (xh_anr_tries t2) of
                        (None, k) \<Rightarrow> (None, t2\<lparr>xh_anr_tries := k\<rparr>)
                      | (Some n, k) \<Rightarrow>
                          (let t3 = sfxhash_unlink_node
                                      (sfxhash_gunlink_node (t2\<lparr>xh_anr_tries := k\<rparr>) n) n
                           in (Some (n, hn_data (xh_nodes t3 n)),
                               t3\<lparr>xh_count := xh_count t3 - 1,
                                  xh_anr_count := xh_anr_count t3 + 1\<rparr>)))
                else (None, t2))))"

subsubsection \<open>Lookup and insertion\<close>

definition xh_row :: "('k, 'v) SFXHASH \<Rightarrow> 'k \<Rightarrow> nat" where
  "xh_row t k = unat (xh_hash t k AND (xh_nrows t - 1))"

definition xh_search :: "('k, 'v) SFXHASH \<Rightarrow> 'k \<Rightarrow> nat option" where
  "xh_search t k =
     List.find (\<lambda>n. xh_keycmp t (hn_key (xh_nodes t n)) k = 0) (xh_table t ! xh_row t k)"

definition sfxhash_find_node_row ::
  "('k, 'v) SFXHASH \<Rightarrow> 'k \<Rightarrow> nat option \<times> nat \<times> ('k, 'v) SFXHASH" where
  "sfxhash_find_node_row t k =
     (let index = xh_row t k in
      case xh_search t k of
        Some n \<Rightarrow>
          (let t1 = (if xh_splay t > 0 then movetofront t n else t)
           in (Some n, index, t1\<lparr>xh_find_success := xh_find_success t1 + 1\<rparr>))
      | None \<Rightarrow> (None, index, t\<lparr>xh_find_fail := xh_find_fail t + 1\<rparr>))"

text \<open>The common end of \<open>sfxhash_add\<close> and \<open>sfxhash_get_node\<close>: fill the node in and link it.\<close>

definition xh_insert ::
  "('k, 'v) SFXHASH \<Rightarrow> nat \<Rightarrow> 'k \<Rightarrow> 'v option \<Rightarrow> nat \<Rightarrow> ('k, 'v) SFXHASH" where
  "xh_insert t n key data index =
     (let t1 = t\<lparr>xh_nodes := (xh_nodes t)
                    (n := \<lparr>hn_key = key, hn_data = data, hn_rindex = index\<rparr>)\<rparr>;
          t2 = sfxhash_glink_node (sfxhash_link_node t1 n) n
      in t2\<lparr>xh_count := xh_count t2 + 1\<rparr>)"

definition sfxhash_add ::
  "('k, 'v) SFXHASH \<Rightarrow> 'k \<Rightarrow> 'v option \<Rightarrow> int \<times> ('k, 'v) SFXHASH" where
  "sfxhash_add t key data =
     (case sfxhash_find_node_row t key of
        (Some n, _, t1) \<Rightarrow> (SFXHASH_INTABLE, t1\<lparr>xh_cnode := Some n\<rparr>)
      | (None, index, t1) \<Rightarrow>
          (case sfxhash_newnode t1 of
             (None, t2) \<Rightarrow> (SFXHASH_NOMEM, t2)
           | (Some (n, old), t2) \<Rightarrow>
               (SFXHASH_OK,
                xh_insert t2 n key
                  (if xh_datasize t2 \<noteq> 0
                   then (case data of Some d \<Rightarrow> Some d | None \<Rightarrow> old) else data) index)))"

definition sfxhash_get_node ::
  "('k, 'v) SFXHASH \<Rightarrow> 'k \<Rightarrow> nat option \<times> ('k, 'v) SFXHASH" where
  "sfxhash_get_node t key =
     (case sfxhash_find_node_row t key of
        (Some n, _, t1) \<Rightarrow> (Some n, t1\<lparr>xh_cnode := Some n\<rparr>)
      | (None, index, t1) \<Rightarrow>
          (case sfxhash_newnode t1 of
             (None, t2) \<Rightarrow> (None, t2)
           | (Some (n, old), t2) \<Rightarrow>
               (Some n, xh_insert t2 n key (if xh_datasize t2 \<noteq> 0 then old else None) index)))"

definition sfxhash_find_node :: "('k, 'v) SFXHASH \<Rightarrow> 'k \<Rightarrow> nat option \<times> ('k, 'v) SFXHASH" where
  "sfxhash_find_node t k = (let (n, _, t') = sfxhash_find_node_row t k in (n, t'))"

definition sfxhash_find :: "('k, 'v) SFXHASH \<Rightarrow> 'k \<Rightarrow> 'v option \<times> ('k, 'v) SFXHASH" where
  "sfxhash_find t k =
     (case sfxhash_find_node_row t k of
        (Some n, _, t') \<Rightarrow> (hn_data (xh_nodes t' n), t')
      | (None, _, t') \<Rightarrow> (None, t'))"

definition sfxhash_ghead :: "('k, 'v) SFXHASH \<Rightarrow> nat option" where
  "sfxhash_ghead t = (case xh_glist t of [] \<Rightarrow> None | n # _ \<Rightarrow> Some n)"

definition sfxhash_mru :: "('k, 'v) SFXHASH \<Rightarrow> 'v option" where
  "sfxhash_mru t = (case sfxhash_ghead t of None \<Rightarrow> None | Some n \<Rightarrow> hn_data (xh_nodes t n))"

definition sfxhash_lru_node :: "('k, 'v) SFXHASH \<Rightarrow> nat option" where
  "sfxhash_lru_node t = (if xh_glist t = [] then None else Some (last (xh_glist t)))"

definition sfxhash_lru :: "('k, 'v) SFXHASH \<Rightarrow> 'v option" where
  "sfxhash_lru t = (case sfxhash_lru_node t of None \<Rightarrow> None | Some n \<Rightarrow> hn_data (xh_nodes t n))"

definition sfxhash_maxdepth :: "('k, 'v) SFXHASH \<Rightarrow> nat" where
  "sfxhash_maxdepth t = fold (\<lambda>row m. if length row > m then length row else m) (xh_table t) 0"

subsubsection \<open>Removal\<close>

definition sfxhash_free_node :: "('k, 'v) SFXHASH \<Rightarrow> nat \<Rightarrow> int \<times> ('k, 'v) SFXHASH" where
  "sfxhash_free_node t n =
     (let t1 = sfxhash_gunlink_node (sfxhash_unlink_node t n) n;
          t2 = t1\<lparr>xh_count := xh_count t1 - 1\<rparr>;
          t3 = (if xh_usrfree t2
                then t2\<lparr>xh_freed := xh_freed t2 @
                          [(hn_key (xh_nodes t2 n), hn_data (xh_nodes t2 n))]\<rparr>
                else t2);
          t4 = (if xh_recycle_nodes t3 then sfxhash_save_free_node t3 n
                else s_free t3 (xh_blocks t3 n))
      in (SFXHASH_OK, t4))"

definition sfxhash_remove :: "('k, 'v) SFXHASH \<Rightarrow> 'k \<Rightarrow> int \<times> ('k, 'v) SFXHASH" where
  "sfxhash_remove t k =
     (case xh_search t k of
        Some n \<Rightarrow> sfxhash_free_node t n
      | None \<Rightarrow> (SFXHASH_ERR, t))"

text \<open>The two loops of \<open>sfxhash_make_empty\<close>: the saved \<open>tmp\<close> makes the inner one walk the row as it was.\<close>

definition sfxhash_make_empty :: "('k, 'v) SFXHASH \<Rightarrow> int \<times> ('k, 'v) SFXHASH" where
  "sfxhash_make_empty h =
     (let h1 = fold (\<lambda>row h. fold (\<lambda>n h. snd (sfxhash_free_node h n)) row h) (xh_table h) h
      in (0, h1\<lparr>xh_max_nodes := 0, xh_crow := 0, xh_cnode := None, xh_count := 0,
               xh_glist := [], xh_anr_count := 0, xh_anr_tries := 0,
               xh_find_success := 0, xh_find_fail := 0\<rparr>))"

definition sfxhash_delete_free_list :: "('k, 'v) SFXHASH \<Rightarrow> ('k, 'v) SFXHASH" where
  "sfxhash_delete_free_list t =
     (fold (\<lambda>n t. s_free t (xh_blocks t n)) (xh_flist t) t)\<lparr>xh_flist := []\<rparr>"

subsubsection \<open>Iteration\<close>

fun row_succ :: "nat list \<Rightarrow> nat \<Rightarrow> nat option" where
  "row_succ (a # b # ns) n = (if a = n then Some b else row_succ (b # ns) n)"
| "row_succ _ n = None"

text \<open>The row loop: the first non-empty row at or after \<open>crow\<close>, given the rows that are left.\<close>

fun row_scan :: "nat list list \<Rightarrow> u32 \<Rightarrow> u32 \<times> nat option" where
  "row_scan [] crow = (crow, None)"
| "row_scan (row # rows) crow =
     (case row of n # _ \<Rightarrow> (crow, Some n) | [] \<Rightarrow> row_scan rows (crow + 1))"

definition sfxhash_next :: "('k, 'v) SFXHASH \<Rightarrow> ('k, 'v) SFXHASH" where
  "sfxhash_next t =
     (case xh_cnode t of
        None \<Rightarrow> t
      | Some c \<Rightarrow>
          (case row_succ (xh_table t ! hn_rindex (xh_nodes t c)) c of
             Some n \<Rightarrow> t\<lparr>xh_cnode := Some n\<rparr>
           | None \<Rightarrow>
               (let (crow, n) = row_scan (drop (unat (xh_crow t + 1)) (xh_table t)) (xh_crow t + 1)
                in t\<lparr>xh_crow := crow, xh_cnode := n\<rparr>)))"

definition sfxhash_findfirst :: "('k, 'v) SFXHASH \<Rightarrow> nat option \<times> ('k, 'v) SFXHASH" where
  "sfxhash_findfirst t =
     (let (crow, n) = row_scan (xh_table t) 0;
          t1 = t\<lparr>xh_crow := crow, xh_cnode := n\<rparr>
      in case n of None \<Rightarrow> (None, t1) | Some _ \<Rightarrow> (n, sfxhash_next t1))"

definition sfxhash_findnext :: "('k, 'v) SFXHASH \<Rightarrow> nat option \<times> ('k, 'v) SFXHASH" where
  "sfxhash_findnext t =
     (case xh_cnode t of None \<Rightarrow> (None, t) | Some n \<Rightarrow> (Some n, sfxhash_next t))"

text \<open>A client's write through a node's data pointer.\<close>

definition xh_write :: "('k, 'v) SFXHASH \<Rightarrow> nat \<Rightarrow> 'v \<Rightarrow> ('k, 'v) SFXHASH" where
  "xh_write t n d = t\<lparr>xh_nodes := (xh_nodes t)(n := (xh_nodes t n)\<lparr>hn_data := Some d\<rparr>)\<rparr>"

subsection \<open>The invariant of a table\<close>

text \<open>
  Every row chain holds exactly the nodes of the global list filed under that row, no node
  twice; a node is filed under the row its key hashes to; no two nodes share a key; free nodes
  are not in use; \<open>count\<close> is the number of nodes in use; the key comparison is equality.
\<close>

definition chains_ok ::
  "(nat \<Rightarrow> ('k, 'v) SFXHASH_NODE) \<Rightarrow> nat list \<Rightarrow> nat list list \<Rightarrow> bool" where
  "chains_ok nodes gl tbl \<longleftrightarrow>
     distinct gl \<and>
     (\<forall>r<length tbl. distinct (tbl ! r) \<and> set (tbl ! r) = {n \<in> set gl. hn_rindex (nodes n) = r}) \<and>
     (\<forall>n\<in>set gl. hn_rindex (nodes n) < length tbl)"

definition xh_wf :: "('k, 'v) SFXHASH \<Rightarrow> bool" where
  "xh_wf t \<longleftrightarrow>
     chains_ok (xh_nodes t) (xh_glist t) (xh_table t) \<and>
     distinct (xh_glist t @ xh_flist t) \<and>
     (\<forall>n\<in>set (xh_glist t) \<union> set (xh_flist t). n < xh_next t) \<and>
     xh_nrows t \<noteq> 0 \<and> length (xh_table t) = unat (xh_nrows t) \<and>
     (\<forall>n\<in>set (xh_glist t). hn_rindex (xh_nodes t n) = xh_row t (hn_key (xh_nodes t n))) \<and>
     inj_on (\<lambda>n. hn_key (xh_nodes t n)) (set (xh_glist t)) \<and>
     xh_count t = of_nat (length (xh_glist t)) \<and>
     (\<forall>a b. xh_keycmp t a b = 0 \<longleftrightarrow> a = b)"

text \<open>What a table holds: its keys and data from the most to the least recently used.\<close>

definition xh_entry :: "('k, 'v) SFXHASH \<Rightarrow> nat \<Rightarrow> 'k \<times> 'v option" where
  "xh_entry t n = (hn_key (xh_nodes t n), hn_data (xh_nodes t n))"

definition xh_alist :: "('k, 'v) SFXHASH \<Rightarrow> ('k \<times> 'v option) list" where
  "xh_alist t = map (xh_entry t) (xh_glist t)"

lemma xh_entry_cong: "xh_nodes t' = xh_nodes t \<Longrightarrow> xh_entry t' = xh_entry t"
  by (rule ext) (simp add: xh_entry_def)

definition xh_lookup :: "('k, 'v) SFXHASH \<Rightarrow> 'k \<Rightarrow> 'v option option" where
  "xh_lookup t k = map_of (xh_alist t) k"

lemma chains_okD:
  assumes "chains_ok nodes gl tbl"
  shows "distinct gl"
    and "r < length tbl \<Longrightarrow> distinct (tbl ! r)"
    and "r < length tbl \<Longrightarrow> set (tbl ! r) = {n \<in> set gl. hn_rindex (nodes n) = r}"
    and "n \<in> set gl \<Longrightarrow> hn_rindex (nodes n) < length tbl"
  using assms by (auto simp: chains_ok_def)

lemma chains_ok_link:
  assumes ok: "chains_ok nodes gl tbl" and new: "n \<notin> set gl"
    and r: "hn_rindex (nodes n) = r" "r < length tbl"
  shows "chains_ok nodes (n # gl) (tbl[r := n # tbl ! r])"
  using assms unfolding chains_ok_def by (auto simp: nth_list_update)

lemma unlink_row_eq:
  "distinct row \<Longrightarrow> n \<in> set row \<Longrightarrow> (if n \<in> set (tl row) then remove1 n row else tl row) = remove1 n row"
  by (cases row) auto

lemma chains_ok_unlink:
  assumes ok: "chains_ok nodes gl tbl" and old: "n \<in> set gl" and r: "hn_rindex (nodes n) = r"
  shows "chains_ok nodes (remove1 n gl) (tbl[r := remove1 n (tbl ! r)])"
proof -
  have "r < length tbl" using chains_okD(4) [OF ok old] r by simp
  moreover from this have "distinct (tbl ! r)" by (rule chains_okD(2) [OF ok])
  ultimately show ?thesis
    using assms unfolding chains_ok_def by (auto simp: nth_list_update set_remove1_eq)
qed

lemma chains_ok_perm:
  "chains_ok nodes gl tbl \<Longrightarrow> distinct gl' \<Longrightarrow> set gl' = set gl \<Longrightarrow> chains_ok nodes gl' tbl"
  by (simp add: chains_ok_def)

lemma chains_ok_cong:
  "chains_ok nodes gl tbl \<Longrightarrow> (\<And>n. n \<in> set gl \<Longrightarrow> hn_rindex (nodes' n) = hn_rindex (nodes n)) \<Longrightarrow>
   chains_ok nodes' gl tbl"
  unfolding chains_ok_def by (simp cong: conj_cong Collect_cong)

lemma unlink_node_eq:
  assumes ok: "chains_ok (xh_nodes t) gl (xh_table t)" and n: "n \<in> set gl"
  shows "sfxhash_unlink_node t n =
     t\<lparr>xh_table := (xh_table t)[hn_rindex (xh_nodes t n) :=
                     remove1 n (xh_table t ! hn_rindex (xh_nodes t n))]\<rparr>"
proof -
  let ?r = "hn_rindex (xh_nodes t n)"
  have r: "?r < length (xh_table t)" by (rule chains_okD(4) [OF ok n])
  have "n \<in> set (xh_table t ! ?r)" using chains_okD(3) [OF ok r] n by simp
  then show ?thesis
    using chains_okD(2) [OF ok r] by (simp only: sfxhash_unlink_node_def Let_def unlink_row_eq)
qed

lemma movetofront_eq:
  assumes ok: "chains_ok (xh_nodes t) (xh_glist t) (xh_table t)" and n: "n \<in> set (xh_glist t)"
  obtains tbl where
    "movetofront t n = t\<lparr>xh_table := tbl, xh_glist := n # remove1 n (xh_glist t)\<rparr>"
    and "chains_ok (xh_nodes t) (n # remove1 n (xh_glist t)) tbl"
    and "length tbl = length (xh_table t)"
proof -
  let ?r = "hn_rindex (xh_nodes t n)" and ?gl = "n # remove1 n (xh_glist t)"
  define tbl1 where "tbl1 = (xh_table t)[?r := remove1 n (xh_table t ! ?r)]"
  define tbl where "tbl = (if xh_table t ! ?r \<noteq> [] \<and> hd (xh_table t ! ?r) = n then xh_table t
    else tbl1[?r := n # tbl1 ! ?r])"
  have r: "?r < length (xh_table t)" by (rule chains_okD(4) [OF ok n])
  have gl: "distinct ?gl" "set ?gl = set (xh_glist t)"
    using chains_okD(1) [OF ok] n by (auto simp: set_remove1_eq)
  have "chains_ok (xh_nodes t) ?gl (tbl1[?r := n # tbl1 ! ?r])"
    unfolding tbl1_def
    by (rule chains_ok_link [OF chains_ok_unlink [OF ok n refl]]) (use gl r in simp_all)
  then have c: "chains_ok (xh_nodes t) ?gl tbl"
    unfolding tbl_def using chains_ok_perm [OF ok gl] by simp
  have t': "(if xh_table t ! ?r \<noteq> [] \<and> hd (xh_table t ! ?r) = n then t
       else sfxhash_link_node (sfxhash_unlink_node t n) n) = t\<lparr>xh_table := tbl\<rparr>"
    unfolding tbl_def tbl1_def by (simp add: unlink_node_eq [OF ok n] sfxhash_link_node_def Let_def)
  have g: "sfxhash_gmovetofront (t\<lparr>xh_table := tbl\<rparr>) n = t\<lparr>xh_table := tbl, xh_glist := ?gl\<rparr>"
    using n by (cases "xh_glist t")
      (auto simp: sfxhash_gmovetofront_def sfxhash_glink_node_def sfxhash_gunlink_node_def)
  show thesis
  proof (rule that)
    show "movetofront t n = t\<lparr>xh_table := tbl, xh_glist := ?gl\<rparr>"
      by (simp only: movetofront_def Let_def t' g)
    show "chains_ok (xh_nodes t) ?gl tbl" by (rule c)
    show "length tbl = length (xh_table t)" by (simp add: tbl_def tbl1_def)
  qed
qed

lemma xh_wf_chains: "xh_wf t \<Longrightarrow> chains_ok (xh_nodes t) (xh_glist t) (xh_table t)"
  unfolding xh_wf_def by (elim conjE)

lemma xh_wf_distinct: "xh_wf t \<Longrightarrow> distinct (xh_glist t @ xh_flist t)"
  unfolding xh_wf_def by (elim conjE)

lemma xh_wf_fresh: "xh_wf t \<Longrightarrow> n \<in> set (xh_glist t) \<union> set (xh_flist t) \<Longrightarrow> n < xh_next t"
  unfolding xh_wf_def by (elim conjE) (erule bspec)

lemma xh_wf_nrows:
  assumes "xh_wf t"
  shows "xh_nrows t \<noteq> 0" and "length (xh_table t) = unat (xh_nrows t)"
  using assms by (simp_all add: xh_wf_def)

lemma xh_wf_row:
  "xh_wf t \<Longrightarrow> n \<in> set (xh_glist t) \<Longrightarrow> hn_rindex (xh_nodes t n) = xh_row t (hn_key (xh_nodes t n))"
  unfolding xh_wf_def by (elim conjE) (erule bspec)

lemma xh_wf_inj: "xh_wf t \<Longrightarrow> inj_on (\<lambda>n. hn_key (xh_nodes t n)) (set (xh_glist t))"
  unfolding xh_wf_def by (elim conjE)

lemma xh_wf_count: "xh_wf t \<Longrightarrow> xh_count t = of_nat (length (xh_glist t))"
  unfolding xh_wf_def by (elim conjE)

lemma xh_wf_cmp: "xh_wf t \<Longrightarrow> xh_keycmp t a b = 0 \<longleftrightarrow> a = b"
  unfolding xh_wf_def by (elim conjE) (erule allE)+

lemma xh_row_less: "xh_wf t \<Longrightarrow> xh_row t k < length (xh_table t)"
  unfolding xh_row_def xh_wf_nrows(2) by (rule unat_and_mask_less [OF xh_wf_nrows(1)])

lemma xh_row_cong:
  "xh_hash t' = xh_hash t \<Longrightarrow> xh_nrows t' = xh_nrows t \<Longrightarrow> xh_row t' k = xh_row t k"
  by (simp add: xh_row_def)

lemma xh_row_mem:
  assumes "xh_wf t"
  shows "n \<in> set (xh_table t ! xh_row t k) \<longleftrightarrow>
     n \<in> set (xh_glist t) \<and> hn_rindex (xh_nodes t n) = xh_row t k"
  using chains_okD(3) [OF xh_wf_chains [OF assms] xh_row_less [OF assms]] by simp

text \<open>The search of a row finds the node with the key wherever it is in the table.\<close>

lemma xh_search_SomeD:
  assumes wf: "xh_wf t" and s: "xh_search t k = Some n"
  shows "n \<in> set (xh_glist t) \<and> hn_key (xh_nodes t n) = k"
proof -
  have "n \<in> set (xh_table t ! xh_row t k) \<and> xh_keycmp t (hn_key (xh_nodes t n)) k = 0"
    by (rule find_Some_mem) (rule s [unfolded xh_search_def])
  then show ?thesis by (simp add: xh_row_mem [OF wf] xh_wf_cmp [OF wf])
qed

lemma xh_search_Some:
  assumes wf: "xh_wf t"
  shows "xh_search t k = Some n \<longleftrightarrow> n \<in> set (xh_glist t) \<and> hn_key (xh_nodes t n) = k"
proof
  show "xh_search t k = Some n \<Longrightarrow> n \<in> set (xh_glist t) \<and> hn_key (xh_nodes t n) = k"
    by (rule xh_search_SomeD [OF wf])
next
  assume n: "n \<in> set (xh_glist t) \<and> hn_key (xh_nodes t n) = k"
  then have "n \<in> set (xh_table t ! xh_row t k)"
    by (simp add: xh_row_mem [OF wf] xh_wf_row [OF wf])
  with n have "xh_search t k \<noteq> None"
    unfolding xh_search_def find_None_mem by (auto simp: xh_wf_cmp [OF wf])
  then obtain m where m: "xh_search t k = Some m" by blast
  then have "m \<in> set (xh_glist t) \<and> hn_key (xh_nodes t m) = k" by (rule xh_search_SomeD [OF wf])
  with n have "m = n" using xh_wf_inj [OF wf] by (auto simp: inj_on_def)
  with m show "xh_search t k = Some n" by simp
qed

lemma xh_search_None:
  "xh_wf t \<Longrightarrow> xh_search t k = None \<longleftrightarrow> (\<forall>n\<in>set (xh_glist t). hn_key (xh_nodes t n) \<noteq> k)"
  using xh_search_Some [of t k] by (cases "xh_search t k") auto

lemma xh_alist_keys: "map fst (xh_alist t) = map (\<lambda>n. hn_key (xh_nodes t n)) (xh_glist t)"
  by (simp add: xh_alist_def xh_entry_def)

lemma xh_alist_distinct: "xh_wf t \<Longrightarrow> distinct (map fst (xh_alist t))"
  using xh_wf_inj xh_wf_distinct by (auto simp: xh_alist_keys distinct_map)

lemma xh_lookup_Some:
  assumes wf: "xh_wf t"
  shows "xh_lookup t k = Some d \<longleftrightarrow>
     (\<exists>n\<in>set (xh_glist t). hn_key (xh_nodes t n) = k \<and> hn_data (xh_nodes t n) = d)"
proof -
  have "xh_lookup t k = Some d \<longleftrightarrow> (k, d) \<in> set (xh_alist t)"
    unfolding xh_lookup_def using xh_alist_distinct [OF wf] by simp
  then show ?thesis by (auto simp: xh_alist_def xh_entry_def)
qed

lemma xh_lookup_None:
  assumes wf: "xh_wf t"
  shows "xh_lookup t k = None \<longleftrightarrow> xh_search t k = None"
proof -
  have "xh_lookup t k = None \<longleftrightarrow> k \<notin> set (map fst (xh_alist t))"
    by (simp add: xh_lookup_def map_of_eq_None_iff)
  then show ?thesis by (auto simp: xh_search_None [OF wf] xh_alist_keys)
qed

lemma xh_lookup_search:
  "xh_wf t \<Longrightarrow> xh_search t k = Some n \<Longrightarrow> xh_lookup t k = Some (hn_data (xh_nodes t n))"
  by (auto simp: xh_search_Some xh_lookup_Some)

subsection \<open>Moving a node to the front\<close>

text \<open>The abstract counterpart on the table's contents.\<close>

definition to_front :: "'k \<Rightarrow> ('k \<times> 'd) list \<Rightarrow> ('k \<times> 'd) list" where
  "to_front k al =
     (case map_of al k of None \<Rightarrow> al | Some d \<Rightarrow> (k, d) # filter (\<lambda>(k', _). k' \<noteq> k) al)"

lemma map_of_filter_neq:
  "map_of (filter (\<lambda>(k', _). k' \<noteq> k) al) j = (if j = k then None else map_of al j)"
  by (induction al) auto

lemma map_of_to_front [simp]: "map_of (to_front k al) = map_of al"
  by (rule ext) (auto simp: to_front_def map_of_filter_neq split: option.split)

lemma map_entry_remove1:
  assumes "inj_on (\<lambda>n. fst (f n)) (set gl)" and "distinct gl" and "n \<in> set gl"
  shows "map f (remove1 n gl) = filter (\<lambda>(k', _). k' \<noteq> fst (f n)) (map f gl)"
proof -
  have "remove1 n gl = filter (\<lambda>m. m \<noteq> n) gl"
    using assms(2) by (simp add: distinct_remove1_removeAll removeAll_filter_not_eq) metis
  also have "\<dots> = filter (\<lambda>m. fst (f m) \<noteq> fst (f n)) gl"
    using assms(1,3) by (intro filter_cong) (auto simp: inj_on_def)
  finally show ?thesis
    by (simp add: filter_map o_def case_prod_unfold)
qed

lemma xh_wf_relink:
  assumes wf: "xh_wf t" and ok: "chains_ok (xh_nodes t) gl tbl"
    and gl: "set gl = set (xh_glist t)" and len: "length tbl = length (xh_table t)"
  shows "xh_wf (t\<lparr>xh_table := tbl, xh_glist := gl\<rparr>)"
proof -
  have "length gl = length (xh_glist t)"
    using chains_okD(1) [OF ok] xh_wf_distinct [OF wf] gl by (metis distinct_append distinct_card)
  then show ?thesis
    using wf ok gl len chains_okD(1) [OF ok] unfolding xh_wf_def by (simp add: xh_row_def)
qed

lemma xh_wf_counters:
  "xh_wf (t\<lparr>xh_find_success := a\<rparr>) = xh_wf t" "xh_wf (t\<lparr>xh_find_fail := a\<rparr>) = xh_wf t"
  "xh_wf (t\<lparr>xh_cnode := c\<rparr>) = xh_wf t" "xh_wf (t\<lparr>xh_anr_tries := a\<rparr>) = xh_wf t"
  "xh_wf (t\<lparr>xh_anr_count := a\<rparr>) = xh_wf t" "xh_wf (t\<lparr>xh_mc := m\<rparr>) = xh_wf t"
  "xh_wf (t\<lparr>xh_freed := f\<rparr>) = xh_wf t" "xh_wf (t\<lparr>xh_crow := a\<rparr>) = xh_wf t"
  "xh_wf (t\<lparr>xh_max_nodes := a\<rparr>) = xh_wf t" "xh_wf (t\<lparr>xh_splay := i\<rparr>) = xh_wf t"
  "xh_wf (t\<lparr>xh_blocks := b\<rparr>) = xh_wf t"
  by (simp_all add: xh_wf_def xh_row_def)

lemma movetofront_spec:
  assumes wf: "xh_wf t" and n: "n \<in> set (xh_glist t)"
  obtains tbl where "movetofront t n = t\<lparr>xh_table := tbl, xh_glist := n # remove1 n (xh_glist t)\<rparr>"
    and "xh_wf (movetofront t n)"
    and "xh_alist (movetofront t n) = to_front (hn_key (xh_nodes t n)) (xh_alist t)"
proof -
  let ?k = "hn_key (xh_nodes t n)" and ?gl = "n # remove1 n (xh_glist t)"
  obtain tbl where m: "movetofront t n = t\<lparr>xh_table := tbl, xh_glist := ?gl\<rparr>"
    and c: "chains_ok (xh_nodes t) ?gl tbl" "length tbl = length (xh_table t)"
    by (rule movetofront_eq [OF xh_wf_chains [OF wf] n])
  have gl: "set ?gl = set (xh_glist t)"
    using n xh_wf_distinct [OF wf] by (auto simp: set_remove1_eq)
  have "xh_search t ?k = Some n" using n by (simp add: xh_search_Some [OF wf])
  then have "map_of (xh_alist t) ?k = Some (hn_data (xh_nodes t n))"
    using xh_lookup_search [OF wf] by (simp add: xh_lookup_def)
  moreover have "map (xh_entry t) (remove1 n (xh_glist t)) =
      filter (\<lambda>(k', _). k' \<noteq> ?k) (xh_alist t)"
    using map_entry_remove1 [of "xh_entry t" "xh_glist t" n] xh_wf_inj [OF wf]
      xh_wf_distinct [OF wf] n by (simp add: xh_entry_def xh_alist_def)
  ultimately have "xh_alist (movetofront t n) = to_front ?k (xh_alist t)"
    by (simp add: m to_front_def xh_alist_def xh_entry_cong [of "t\<lparr>xh_table := tbl, xh_glist := ?gl\<rparr>" t])
      (simp add: xh_entry_def)
  then show thesis
    using that m xh_wf_relink [OF wf c(1) gl c(2)] by simp
qed

subsection \<open>Lookup\<close>

text \<open>What a lookup does to the contents: the entry found moves to the front in splay mode.\<close>

definition lru_find :: "bool \<Rightarrow> 'k \<Rightarrow> ('k \<times> 'd) list \<Rightarrow> ('k \<times> 'd) list" where
  "lru_find splay k al = (if splay then to_front k al else al)"

text \<open>The parts of a table that lookups and insertions leave alone.\<close>

definition xh_frame :: "('k, 'v) SFXHASH \<Rightarrow> ('k, 'v) SFXHASH \<Rightarrow> bool" where
  "xh_frame t t' \<longleftrightarrow>
     xh_hash t' = xh_hash t \<and> xh_keycmp t' = xh_keycmp t \<and> xh_keysize t' = xh_keysize t \<and>
     xh_datasize t' = xh_datasize t \<and> xh_nrows t' = xh_nrows t \<and> xh_splay t' = xh_splay t \<and>
     xh_max_nodes t' = xh_max_nodes t \<and> xh_recycle_nodes t' = xh_recycle_nodes t \<and>
     xh_anr_flag t' = xh_anr_flag t \<and> xh_anrfree t' = xh_anrfree t \<and>
     xh_usrfree t' = xh_usrfree t \<and> xh_zero t' = xh_zero t"

lemma xh_frame_refl [simp]: "xh_frame t t"
  by (simp add: xh_frame_def)

lemma xh_frame_trans: "xh_frame t t' \<Longrightarrow> xh_frame t' t'' \<Longrightarrow> xh_frame t t''"
  by (simp add: xh_frame_def)

lemma find_row_hit:
  assumes wf: "xh_wf t" and s: "xh_search t k = Some n"
  obtains t' where "sfxhash_find_node_row t k = (Some n, xh_row t k, t')"
    and "xh_wf t'" and "xh_alist t' = lru_find (xh_splay t > 0) k (xh_alist t)"
    and "xh_nodes t' = xh_nodes t" and "set (xh_glist t') = set (xh_glist t)"
    and "xh_frame t t'" and "xh_mc t' = xh_mc t" and "xh_next t' = xh_next t"
    and "xh_flist t' = xh_flist t" and "xh_freed t' = xh_freed t"
proof -
  have n: "n \<in> set (xh_glist t)" and k: "hn_key (xh_nodes t n) = k"
    using s by (simp_all add: xh_search_Some [OF wf])
  obtain tbl where m: "movetofront t n = t\<lparr>xh_table := tbl, xh_glist := n # remove1 n (xh_glist t)\<rparr>"
    and wf': "xh_wf (movetofront t n)"
    and al: "xh_alist (movetofront t n) = to_front k (xh_alist t)"
    using movetofront_spec [OF wf n] k by metis
  have gl: "set (n # remove1 n (xh_glist t)) = set (xh_glist t)"
    using n xh_wf_distinct [OF wf] by (auto simp: set_remove1_eq)
  define t1 where "t1 = (if xh_splay t > 0 then movetofront t n else t)"
  define t' where "t' = t1\<lparr>xh_find_success := xh_find_success t1 + 1\<rparr>"
  have "xh_alist t' = xh_alist t1" by (simp add: t'_def xh_alist_def xh_entry_def cong: map_cong)
  moreover have "xh_wf t'" using wf wf' by (simp add: t'_def t1_def xh_wf_counters)
  ultimately show thesis
    using al gl by (intro that [of t'])
      (simp_all add: sfxhash_find_node_row_def s t'_def t1_def lru_find_def m xh_frame_def)
qed

lemma find_row_miss:
  "xh_search t k = None \<Longrightarrow>
   sfxhash_find_node_row t k = (None, xh_row t k, t\<lparr>xh_find_fail := xh_find_fail t + 1\<rparr>)"
  by (simp add: sfxhash_find_node_row_def)

subsection \<open>A new node\<close>

lemma xh_wf_take_free:
  assumes wf: "xh_wf t" and f: "xh_flist t = n # ns"
  shows "xh_wf (t\<lparr>xh_flist := ns\<rparr>)"
  using wf unfolding xh_wf_def by (simp add: f xh_row_def)

lemma xh_wf_alloc:
  assumes wf: "xh_wf t"
  shows "xh_wf (t\<lparr>xh_mc := m, xh_blocks := b, xh_next := xh_next t + 1\<rparr>)"
  using wf unfolding xh_wf_def by (simp add: xh_row_def less_SucI)

text \<open>Taking a node out of use: unlinked from both lists and uncounted.\<close>

definition xh_drop :: "('k, 'v) SFXHASH \<Rightarrow> nat \<Rightarrow> ('k, 'v) SFXHASH" where
  "xh_drop t n = t\<lparr>xh_table := (xh_table t)[hn_rindex (xh_nodes t n) :=
                       remove1 n (xh_table t ! hn_rindex (xh_nodes t n))],
                  xh_glist := remove1 n (xh_glist t), xh_count := xh_count t - 1\<rparr>"

lemma xh_wf_drop:
  assumes wf: "xh_wf t" and n: "n \<in> set (xh_glist t)"
  shows "xh_wf (xh_drop t n)"
proof -
  have d: "distinct (xh_glist t @ xh_flist t)" by (rule xh_wf_distinct [OF wf])
  have gl: "set (remove1 n (xh_glist t)) = set (xh_glist t) - {n}"
    using d by (simp add: set_remove1_eq)
  have "xh_count t - 1 = of_nat (length (remove1 n (xh_glist t)))"
    using n xh_wf_count [OF wf] length_pos_if_in_set [OF n]
    by (cases "length (xh_glist t)") (simp_all add: length_remove1)
  moreover have "chains_ok (xh_nodes t) (remove1 n (xh_glist t)) (xh_table (xh_drop t n))"
    unfolding xh_drop_def using chains_ok_unlink [OF xh_wf_chains [OF wf] n refl] by simp
  ultimately show ?thesis
    using wf d unfolding xh_wf_def
    by (simp add: xh_drop_def gl xh_row_def inj_on_diff distinct_remove1) blast
qed

lemma anr_scan_None_free: "anr_scan None nodes (n # ns) k = (Some n, k)"
  by simp

lemma anr_scan_mem: "anr_scan f nodes ns k = (Some n, k') \<Longrightarrow> n \<in> set ns"
  by (induction f nodes ns k rule: anr_scan.induct) (auto split: option.splits if_splits)

lemma anr_scan_allows:
  "anr_scan (Some f) nodes ns k = (Some n, k') \<Longrightarrow> \<not> f (hn_key (nodes n)) (hn_data (nodes n))"
  by (induction "Some f" nodes ns k rule: anr_scan.induct) (auto split: if_splits)

lemma anr_drop_eq:
  assumes wf: "xh_wf t" and n: "n \<in> set (xh_glist t)"
  shows "(let t3 = sfxhash_unlink_node (sfxhash_gunlink_node (t\<lparr>xh_anr_tries := k\<rparr>) n) n
          in t3\<lparr>xh_count := xh_count t3 - 1, xh_anr_count := xh_anr_count t3 + 1\<rparr>) =
         (xh_drop t n)\<lparr>xh_anr_tries := k, xh_anr_count := xh_anr_count t + 1\<rparr>"
proof -
  have "chains_ok (xh_nodes (sfxhash_gunlink_node (t\<lparr>xh_anr_tries := k\<rparr>) n)) (xh_glist t)
      (xh_table (sfxhash_gunlink_node (t\<lparr>xh_anr_tries := k\<rparr>) n))"
    using xh_wf_chains [OF wf] by (simp add: sfxhash_gunlink_node_def)
  from unlink_node_eq [OF this n] show ?thesis
    by (simp add: sfxhash_gunlink_node_def xh_drop_def Let_def)
qed

text \<open>Whether a node can be had without taking one from a user of the table.\<close>

definition xh_room :: "('k, 'v) SFXHASH \<Rightarrow> bool" where
  "xh_room t \<longleftrightarrow> xh_flist t \<noteq> [] \<or>
     ((xh_max_nodes t = 0 \<or> xh_count t < xh_max_nodes t) \<and>
      fst (s_alloc t (56 + xh_keysize t + xh_datasize t)) \<noteq> None)"

text \<open>The four ways \<open>sfxhash_newnode\<close> can end.\<close>

lemma newnode_cases:
  assumes wf: "xh_wf t" and new: "sfxhash_newnode t = (r, t')"
  obtains
    (free) n ns where "xh_flist t = n # ns" "r = Some (n, hn_data (xh_nodes t n))"
      "t' = t\<lparr>xh_flist := ns\<rparr>"
  | (alloc) m b where "xh_flist t = []" "xh_room t"
      "r = Some (xh_next t, if xh_datasize t \<noteq> 0 then Some (xh_zero t) else None)"
      "t' = t\<lparr>xh_mc := m, xh_blocks := b, xh_next := xh_next t + 1\<rparr>"
  | (anr) n k where "\<not> xh_room t" "xh_anr_flag t" "n \<in> set (xh_glist t)"
      "anr_scan (xh_anrfree t) (xh_nodes t) (rev (xh_glist t)) (xh_anr_tries t) = (Some n, k)"
      "r = Some (n, hn_data (xh_nodes t n))"
      "t' = (xh_drop t n)\<lparr>xh_anr_tries := k, xh_anr_count := xh_anr_count t + 1\<rparr>"
  | (none) k where "\<not> xh_room t" "r = None" "t' = t\<lparr>xh_anr_tries := k\<rparr>"
      "xh_anr_flag t \<Longrightarrow> xh_glist t \<noteq> [] \<Longrightarrow> xh_anrfree t \<noteq> None"
proof (cases "xh_flist t")
  case (Cons n ns)
  then show thesis
    using new by (intro free) (auto simp: sfxhash_newnode_def sfxhash_get_free_node_def)
next
  case Nil
  let ?sz = "56 + xh_keysize t + xh_datasize t"
  let ?ok = "xh_max_nodes t = 0 \<or> xh_count t < xh_max_nodes t"
  note nn = new [unfolded sfxhash_newnode_def sfxhash_get_free_node_def]
  obtain blk mc where a: "sfmemcap_alloc (xh_mc t) (scast ?sz) = (blk, mc)" by fastforce
  have mc: "blk = None \<Longrightarrow> mc = xh_mc t"
    using a by (auto simp: sfmemcap_alloc_def Let_def split: if_splits)
  show thesis
  proof (cases "?ok \<and> blk \<noteq> None")
    case True
    then obtain q where q: "blk = Some q" by blast
    with True have "xh_room t" by (simp add: xh_room_def s_alloc_def a)
    with Nil True show thesis
      using nn by (intro alloc) (auto simp: s_alloc_def a q)
  next
    case False
    then have room: "\<not> xh_room t"
      by (auto simp: xh_room_def s_alloc_def a Nil)
    have t2: "(if ?ok then s_alloc t ?sz else (None, t)) = (None, t)"
      using False mc by (auto simp: s_alloc_def a)
    obtain c k where sc: "anr_scan (xh_anrfree t) (xh_nodes t) (rev (xh_glist t)) (xh_anr_tries t) = (c, k)"
      by fastforce
    show thesis
    proof (cases "xh_anr_flag t \<and> xh_glist t \<noteq> []")
      case no: False
      then show thesis using nn t2 room Nil by (intro none [of "xh_anr_tries t"]) auto
    next
      case yes: True
      show thesis
      proof (cases c)
        case None
        have "xh_anrfree t \<noteq> None"
        proof
          assume "xh_anrfree t = None"
          then show False using sc None yes by (cases "rev (xh_glist t)") auto
        qed
        then show thesis using nn t2 room Nil yes sc None by (intro none [of k]) auto
      next
        case (Some n)
        have n: "n \<in> set (xh_glist t)" using anr_scan_mem [OF sc [unfolded Some]] by simp
        have nodes: "xh_nodes (sfxhash_unlink_node (sfxhash_gunlink_node (t\<lparr>xh_anr_tries := k\<rparr>) n) n) = xh_nodes t"
          by (simp add: sfxhash_unlink_node_def sfxhash_gunlink_node_def Let_def)
        show thesis
          using nn t2 room Nil yes sc Some n anr_drop_eq [OF wf n, of k] nodes
          by (intro anr [of n k]) (auto simp: Let_def)
      qed
    qed
  qed
qed

lemma xh_drop_fields [simp]:
  "xh_flist (xh_drop t n) = xh_flist t" "xh_next (xh_drop t n) = xh_next t"
  "xh_nodes (xh_drop t n) = xh_nodes t" "xh_freed (xh_drop t n) = xh_freed t"
  "xh_cnode (xh_drop t n) = xh_cnode t" "xh_glist (xh_drop t n) = remove1 n (xh_glist t)"
  "xh_usrfree (xh_drop t n) = xh_usrfree t" "xh_recycle_nodes (xh_drop t n) = xh_recycle_nodes t"
  "xh_mc (xh_drop t n) = xh_mc t" "xh_blocks (xh_drop t n) = xh_blocks t"
  "xh_frame t (xh_drop t n)"
  by (simp_all add: xh_drop_def xh_frame_def)

lemma xh_alist_drop:
  assumes wf: "xh_wf t" and n: "n \<in> set (xh_glist t)"
  shows "xh_alist (xh_drop t n) = filter (\<lambda>(k', _). k' \<noteq> hn_key (xh_nodes t n)) (xh_alist t)"
proof -
  have "xh_entry (xh_drop t n) = xh_entry t" by (rule xh_entry_cong) (simp add: xh_drop_def)
  then have "xh_alist (xh_drop t n) = map (xh_entry t) (remove1 n (xh_glist t))"
    by (simp add: xh_alist_def)
  also have "\<dots> = filter (\<lambda>(k', _). k' \<noteq> hn_key (xh_nodes t n)) (xh_alist t)"
    using map_entry_remove1 [of "xh_entry t" "xh_glist t" n] xh_wf_inj [OF wf]
      xh_wf_distinct [OF wf] n by (simp add: xh_entry_def xh_alist_def)
  finally show ?thesis .
qed

lemma xh_alist_drop_last:
  assumes wf: "xh_wf t" and n: "xh_glist t \<noteq> []"
  shows "xh_alist (xh_drop t (last (xh_glist t))) = butlast (xh_alist t)"
proof -
  have "xh_entry (xh_drop t (last (xh_glist t))) = xh_entry t"
    by (rule xh_entry_cong) (simp add: xh_drop_def)
  moreover have "remove1 (last (xh_glist t)) (xh_glist t) = butlast (xh_glist t)"
    using xh_wf_distinct [OF wf] n by (simp add: remove1_last_distinct)
  ultimately show ?thesis
    by (simp add: xh_alist_def map_butlast)
qed

text \<open>What is kept from \<open>sfxhash_newnode\<close>: the table stays well-formed and the node it hands out is not in use.\<close>

lemma newnode_spec:
  assumes wf: "xh_wf t" and new: "sfxhash_newnode t = (r, t')"
  shows "xh_wf t'" and "xh_frame t t'" and "xh_nodes t' = xh_nodes t"
    and "set (xh_alist t') \<subseteq> set (xh_alist t)" and "xh_freed t' = xh_freed t"
    and "xh_cnode t' = xh_cnode t"
    and "set (xh_glist t') \<subseteq> set (xh_glist t)"
    and "r = Some (n, d) \<Longrightarrow> n \<notin> set (xh_glist t') \<and> n \<notin> set (xh_flist t') \<and> n < xh_next t'"
proof -
  have al: "xh_alist (u\<lparr>xh_mc := m, xh_blocks := b, xh_next := x\<rparr>) = xh_alist u"
    "xh_alist (u\<lparr>xh_flist := f\<rparr>) = xh_alist u" "xh_alist (u\<lparr>xh_anr_tries := k\<rparr>) = xh_alist u"
    "xh_alist (u\<lparr>xh_anr_tries := k, xh_anr_count := k'\<rparr>) = xh_alist u"
    for u :: "('k, 'v) SFXHASH" and m b x f k k' by (simp_all add: xh_alist_def xh_entry_def cong: map_cong)
  from wf new
  have "xh_wf t' \<and> xh_frame t t' \<and> xh_nodes t' = xh_nodes t \<and>
     set (xh_alist t') \<subseteq> set (xh_alist t) \<and> xh_freed t' = xh_freed t \<and> xh_cnode t' = xh_cnode t \<and>
     set (xh_glist t') \<subseteq> set (xh_glist t) \<and>
     (r = Some (n, d) \<longrightarrow> n \<notin> set (xh_glist t') \<and> n \<notin> set (xh_flist t') \<and> n < xh_next t')"
  proof (cases rule: newnode_cases)
    case (free m ns)
    then show ?thesis
      using xh_wf_take_free [OF wf free(1)] xh_wf_distinct [OF wf] xh_wf_fresh [OF wf, of m]
      by (auto simp: al xh_frame_def)
  next
    case (alloc m b)
    then show ?thesis
      using xh_wf_alloc [OF wf] xh_wf_fresh [OF wf] by (auto simp: al xh_frame_def)
  next
    case (anr m k)
    have "m \<notin> set (xh_flist t)" using anr(3) xh_wf_distinct [OF wf] by auto
    moreover have "m \<notin> set (remove1 m (xh_glist t))"
      using xh_wf_distinct [OF wf] by simp
    moreover have "set (xh_alist (xh_drop t m)) \<subseteq> set (xh_alist t)"
      by (auto simp: xh_alist_drop [OF wf anr(3)])
    ultimately show ?thesis
      using anr(3,5,6) xh_wf_drop [OF wf anr(3)] xh_wf_fresh [OF wf, of m]
        set_remove1_subset [of m "xh_glist t"] xh_drop_fields(11) [of t m, unfolded xh_frame_def]
      by (auto simp: al xh_wf_counters xh_frame_def)
  next
    case (none k)
    then show ?thesis using wf by (simp add: al xh_frame_def xh_wf_counters)
  qed
  then show "xh_wf t'" "xh_frame t t'" "xh_nodes t' = xh_nodes t"
    "set (xh_alist t') \<subseteq> set (xh_alist t)" "xh_freed t' = xh_freed t" "xh_cnode t' = xh_cnode t"
    "set (xh_glist t') \<subseteq> set (xh_glist t)"
    "r = Some (n, d) \<Longrightarrow> n \<notin> set (xh_glist t') \<and> n \<notin> set (xh_flist t') \<and> n < xh_next t'"
    by blast+
qed

subsection \<open>Insertion\<close>

lemma xh_insert_spec:
  assumes wf: "xh_wf t" and n: "n \<notin> set (xh_glist t)" "n \<notin> set (xh_flist t)" "n < xh_next t"
    and new: "k \<notin> fst ` set (xh_alist t)"
  shows "xh_wf (xh_insert t n k d (xh_row t k))"
    and "xh_alist (xh_insert t n k d (xh_row t k)) = (k, d) # xh_alist t"
    and "xh_frame t (xh_insert t n k d (xh_row t k))"
proof -
  let ?t = "xh_insert t n k d (xh_row t k)"
  let ?nodes = "(xh_nodes t)(n := \<lparr>hn_key = k, hn_data = d, hn_rindex = xh_row t k\<rparr>)"
  have t: "?t = t\<lparr>xh_nodes := ?nodes,
      xh_table := (xh_table t)[xh_row t k := n # xh_table t ! xh_row t k],
      xh_glist := n # xh_glist t, xh_count := xh_count t + 1\<rparr>"
    by (simp add: xh_insert_def sfxhash_glink_node_def sfxhash_link_node_def Let_def)
  have "chains_ok ?nodes (xh_glist t) (xh_table t)"
    by (rule chains_ok_cong [OF xh_wf_chains [OF wf]]) (use n in auto)
  then have c: "chains_ok ?nodes (n # xh_glist t) ((xh_table t)[xh_row t k := n # xh_table t ! xh_row t k])"
    by (rule chains_ok_link) (use n xh_row_less [OF wf] in simp_all)
  have fresh: "k \<notin> (\<lambda>n. hn_key (xh_nodes t n)) ` set (xh_glist t)"
    using new by (simp add: xh_alist_def xh_entry_def image_image)
  have "inj_on (\<lambda>m. hn_key (?nodes m)) (insert n (set (xh_glist t)))"
    using xh_wf_inj [OF wf] fresh n(1) by (auto simp: inj_on_def)
  then show "xh_wf ?t"
    using wf c n unfolding t xh_wf_def by (auto simp: xh_row_def add.commute)
  show "xh_alist ?t = (k, d) # xh_alist t"
    using n(1) by (auto simp: t xh_alist_def xh_entry_def)
  show "xh_frame t ?t" by (simp add: t xh_frame_def)
qed

text \<open>
  What \<open>sfxhash_add\<close> does to the contents, as an LRU list: a key that is there moves to the front;
  a new one goes to the front, at the cost of the least recently used entry when there is no room
  and recovery is on.
\<close>

definition lru_add ::
  "bool \<Rightarrow> bool \<Rightarrow> bool \<Rightarrow> 'k \<Rightarrow> 'd \<Rightarrow> ('k \<times> 'd) list \<Rightarrow> int \<times> ('k \<times> 'd) list" where
  "lru_add splay room anr k d al =
     (if map_of al k \<noteq> None then (SFXHASH_INTABLE, lru_find splay k al)
      else if room then (SFXHASH_OK, (k, d) # al)
      else if anr \<and> al \<noteq> [] then (SFXHASH_OK, (k, d) # butlast al)
      else (SFXHASH_NOMEM, al))"

lemma xh_miss_frame:
  assumes wf: "xh_wf t"
  defines "t1 \<equiv> t\<lparr>xh_find_fail := xh_find_fail t + 1\<rparr>"
  shows "xh_wf t1" "xh_alist t1 = xh_alist t" "xh_row t1 = xh_row t" "xh_room t1 = xh_room t"
    "xh_frame t t1" "xh_glist t1 = xh_glist t"
  using wf by (simp_all add: t1_def xh_wf_counters xh_alist_def xh_entry_def xh_row_def xh_room_def
      xh_frame_def s_alloc_def fun_eq_iff case_prod_unfold Let_def cong: map_cong)

lemma newnode_lru:
  assumes wf: "xh_wf t" and new: "sfxhash_newnode t = (r, t')" and f: "xh_anrfree t = None"
  shows "xh_alist t' = (if \<not> xh_room t \<and> xh_anr_flag t then butlast (xh_alist t) else xh_alist t)"
    and "r = None \<longleftrightarrow> \<not> xh_room t \<and> \<not> (xh_anr_flag t \<and> xh_alist t \<noteq> [])"
proof -
  have e: "xh_alist t = [] \<longleftrightarrow> xh_glist t = []" by (simp add: xh_alist_def)
  from wf new
  have "xh_alist t' = (if \<not> xh_room t \<and> xh_anr_flag t then butlast (xh_alist t) else xh_alist t) \<and>
      (r = None \<longleftrightarrow> \<not> xh_room t \<and> \<not> (xh_anr_flag t \<and> xh_alist t \<noteq> []))"
  proof (cases rule: newnode_cases)
    case (free n ns)
    then show ?thesis by (simp add: xh_room_def xh_alist_def xh_entry_def cong: map_cong)
  next
    case (alloc m b)
    then show ?thesis by (simp add: xh_alist_def xh_entry_def cong: map_cong)
  next
    case (anr n k)
    have ne: "xh_glist t \<noteq> []" using anr(3) by auto
    then have "rev (xh_glist t) = last (xh_glist t) # rev (butlast (xh_glist t))" by (rule rev_last)
    then have "anr_scan None (xh_nodes t) (last (xh_glist t) # rev (butlast (xh_glist t)))
        (xh_anr_tries t) = (Some n, k)" using anr(4) f by (simp only:)
    then have "n = last (xh_glist t)" by simp
    then show ?thesis
      using anr ne xh_alist_drop_last [OF wf ne] e
      by (simp add: xh_alist_def xh_entry_def cong: map_cong)
  next
    case (none k)
    then show ?thesis
      using f e by (cases "xh_glist t = []") (auto simp: xh_alist_def xh_entry_def cong: map_cong)
  qed
  then show "xh_alist t' = (if \<not> xh_room t \<and> xh_anr_flag t then butlast (xh_alist t) else xh_alist t)"
    "r = None \<longleftrightarrow> \<not> xh_room t \<and> \<not> (xh_anr_flag t \<and> xh_alist t \<noteq> [])" by blast+
qed

text \<open>The contents after \<open>sfxhash_add\<close> are those \<open>lru_add\<close> gives.\<close>

lemma add_hit:
  assumes wf: "xh_wf t" and s: "xh_search t k = Some n"
  obtains t' where "sfxhash_add t k d = (SFXHASH_INTABLE, t')" "sfxhash_get_node t k = (Some n, t')"
    "xh_wf t'" "xh_alist t' = lru_find (xh_splay t > 0) k (xh_alist t)"
    "xh_nodes t' = xh_nodes t" "set (xh_glist t') = set (xh_glist t)"
    "xh_cnode t' = Some n" "xh_frame t t'" "xh_mc t' = xh_mc t" "xh_freed t' = xh_freed t"
proof -
  obtain t1 where t1: "sfxhash_find_node_row t k = (Some n, xh_row t k, t1)" "xh_wf t1"
    "xh_alist t1 = lru_find (xh_splay t > 0) k (xh_alist t)" "xh_nodes t1 = xh_nodes t"
    "set (xh_glist t1) = set (xh_glist t)" "xh_frame t t1" "xh_mc t1 = xh_mc t"
    "xh_freed t1 = xh_freed t"
    using find_row_hit [OF wf s] by metis
  then have "xh_alist (t1\<lparr>xh_cnode := Some n\<rparr>) = lru_find (xh_splay t > 0) k (xh_alist t)"
    by (simp add: xh_alist_def xh_entry_def cong: map_cong)
  with t1 show thesis
    by (intro that [of "t1\<lparr>xh_cnode := Some n\<rparr>"])
      (simp_all add: sfxhash_add_def sfxhash_get_node_def xh_wf_counters xh_frame_def)
qed

lemma add_miss:
  assumes wf: "xh_wf t" and s: "xh_search t k = None"
    and new: "sfxhash_newnode (t\<lparr>xh_find_fail := xh_find_fail t + 1\<rparr>) = (r, t2)"
  shows "xh_wf t2" and "xh_frame t t2" and "set (xh_alist t2) \<subseteq> set (xh_alist t)"
    and "r = None \<Longrightarrow> sfxhash_add t k d = (SFXHASH_NOMEM, t2)"
    and "r = None \<Longrightarrow> sfxhash_get_node t k = (None, t2)"
    and "r = Some (n, old) \<Longrightarrow> sfxhash_add t k d =
          (SFXHASH_OK, xh_insert t2 n k (if xh_datasize t \<noteq> 0
             then (case d of Some d \<Rightarrow> Some d | None \<Rightarrow> old) else d) (xh_row t2 k))"
    and "r = Some (n, old) \<Longrightarrow> sfxhash_get_node t k =
          (Some n, xh_insert t2 n k (if xh_datasize t \<noteq> 0 then old else None) (xh_row t2 k))"
    and "r = Some (n, old) \<Longrightarrow> xh_wf (xh_insert t2 n k x (xh_row t2 k))"
    and "r = Some (n, old) \<Longrightarrow> xh_alist (xh_insert t2 n k x (xh_row t2 k)) = (k, x) # xh_alist t2"
    and "r = Some (n, old) \<Longrightarrow> xh_frame t (xh_insert t2 n k x (xh_row t2 k))"
proof -
  note m = xh_miss_frame [OF wf]
  note n2 = newnode_spec [OF m(1) new]
  show wf2: "xh_wf t2" by (rule n2(1))
  show f: "xh_frame t t2" by (rule xh_frame_trans [OF m(5) n2(2)])
  show sub: "set (xh_alist t2) \<subseteq> set (xh_alist t)" using n2(4) m(2) by simp
  have ds: "xh_datasize t2 = xh_datasize t" and row: "xh_row t2 k = xh_row t k"
    using f by (simp_all add: xh_frame_def xh_row_def)
  show "r = None \<Longrightarrow> sfxhash_add t k d = (SFXHASH_NOMEM, t2)"
    "r = None \<Longrightarrow> sfxhash_get_node t k = (None, t2)"
    "r = Some (n, old) \<Longrightarrow> sfxhash_add t k d =
          (SFXHASH_OK, xh_insert t2 n k (if xh_datasize t \<noteq> 0
             then (case d of Some d \<Rightarrow> Some d | None \<Rightarrow> old) else d) (xh_row t2 k))"
    "r = Some (n, old) \<Longrightarrow> sfxhash_get_node t k =
          (Some n, xh_insert t2 n k (if xh_datasize t \<noteq> 0 then old else None) (xh_row t2 k))"
    by (simp_all add: sfxhash_add_def sfxhash_get_node_def find_row_miss [OF s] new ds row)
  have "k \<notin> fst ` set (xh_alist t)"
    using s by (auto simp: xh_search_None [OF wf] xh_alist_def xh_entry_def)
  with sub have k: "k \<notin> fst ` set (xh_alist t2)" by blast
  show "r = Some (n, old) \<Longrightarrow> xh_wf (xh_insert t2 n k x (xh_row t2 k))"
    "r = Some (n, old) \<Longrightarrow> xh_alist (xh_insert t2 n k x (xh_row t2 k)) = (k, x) # xh_alist t2"
    "r = Some (n, old) \<Longrightarrow> xh_frame t (xh_insert t2 n k x (xh_row t2 k))"
    using n2(8) xh_insert_spec [OF wf2 _ _ _ k] xh_frame_trans [OF f] by blast+
qed

lemma sfxhash_add_lru_aux:
  assumes wf: "xh_wf t" and f: "xh_anrfree t = None" and ds: "xh_datasize t \<noteq> 0"
    and add: "sfxhash_add t k (Some d) = (st, t')"
  shows "xh_wf t' \<and> (st, xh_alist t') =
     lru_add (xh_splay t > 0) (xh_room t) (xh_anr_flag t) k (Some d) (xh_alist t)"
proof (cases "xh_search t k")
  case (Some n)
  then have "map_of (xh_alist t) k \<noteq> None"
    using xh_lookup_search [OF wf] by (simp add: xh_lookup_def)
  then show ?thesis
    using add_hit [OF wf Some, of "Some d"] add unfolding lru_add_def by (metis prod.inject)
next
  case None
  then have no: "map_of (xh_alist t) k = None"
    using xh_lookup_None [OF wf] by (simp add: xh_lookup_def)
  obtain r t2 where new: "sfxhash_newnode (t\<lparr>xh_find_fail := xh_find_fail t + 1\<rparr>) = (r, t2)"
    by fastforce
  note m = xh_miss_frame [OF wf] and am = add_miss [OF wf None new]
  have al2: "xh_alist t2 = (if \<not> xh_room t \<and> xh_anr_flag t then butlast (xh_alist t) else xh_alist t)"
    and rn: "r = None \<longleftrightarrow> \<not> xh_room t \<and> \<not> (xh_anr_flag t \<and> xh_alist t \<noteq> [])"
    using newnode_lru [OF m(1) new] f m(2,4,5) by (simp_all add: xh_frame_def)
  show ?thesis
  proof (cases r)
    case None
    then show ?thesis using add am(1,4) al2 rn no by (auto simp: lru_add_def)
  next
    case (Some p)
    obtain n old where p: "r = Some (n, old)" using Some by (cases p) auto
    have "st = SFXHASH_OK" and t': "t' = xh_insert t2 n k (Some d) (xh_row t2 k)"
      using add am(6) [OF p] ds by auto
    then show ?thesis using am(8,9) [OF p] al2 rn no p by (auto simp: lru_add_def)
  qed
qed

subsection \<open>Removal\<close>

lemma free_node_spec:
  assumes wf: "xh_wf t" and n: "n \<in> set (xh_glist t)"
  obtains t' where "sfxhash_free_node t n = (SFXHASH_OK, t')" and "xh_wf t'"
    and "xh_alist t' = filter (\<lambda>(k', _). k' \<noteq> hn_key (xh_nodes t n)) (xh_alist t)"
    and "xh_freed t' = xh_freed t @ (if xh_usrfree t then [xh_entry t n] else [])"
    and "xh_frame t t'" and "xh_nodes t' = xh_nodes t" and "xh_glist t' = remove1 n (xh_glist t)"
    and "length (xh_table t') = length (xh_table t)"
    and "\<forall>r<length (xh_table t). set (xh_table t' ! r) = set (xh_table t ! r) - {n}"
proof -
  let ?d = "xh_drop t n"
  define f where "f = xh_freed t @ (if xh_usrfree t then [xh_entry t n] else [])"
  define t' where "t' = (if xh_recycle_nodes t then ?d\<lparr>xh_freed := f, xh_flist := n # xh_flist t\<rparr>
     else ?d\<lparr>xh_freed := f, xh_mc := sfmemcap_free (xh_mc t) (xh_blocks t n)\<rparr>)"
  have wd: "xh_wf ?d" by (rule xh_wf_drop [OF wf n])
  have "sfxhash_gunlink_node (sfxhash_unlink_node t n) n = ?d\<lparr>xh_count := xh_count t\<rparr>"
    by (simp add: unlink_node_eq [OF xh_wf_chains [OF wf] n] sfxhash_gunlink_node_def xh_drop_def)
  then have eq: "sfxhash_free_node t n = (SFXHASH_OK, t')"
    by (simp add: sfxhash_free_node_def Let_def t'_def f_def xh_drop_def sfxhash_save_free_node_def
        s_free_def xh_entry_def)
  have nf: "n \<notin> set (xh_flist t)" and dg: "distinct (xh_glist t)"
    using n xh_wf_distinct [OF wf] by auto
  have "xh_wf (?d\<lparr>xh_freed := f, xh_flist := n # xh_flist t\<rparr>)"
    using wd nf dg xh_wf_fresh [OF wf, of n] n unfolding xh_wf_def by (simp add: xh_row_def)
  then have wf': "xh_wf t'" using wd by (simp add: t'_def xh_wf_counters)
  have "xh_alist t' = xh_alist ?d" by (simp add: t'_def xh_alist_def xh_entry_def cong: map_cong)
  then have al: "xh_alist t' = filter (\<lambda>(k', _). k' \<noteq> hn_key (xh_nodes t n)) (xh_alist t)"
    by (simp add: xh_alist_drop [OF wf n])
  have tbl: "xh_table t' = xh_table ?d" by (simp add: t'_def)
  let ?r = "hn_rindex (xh_nodes t n)"
  have rows: "set (xh_table ?d ! r) = set (xh_table t ! r) - {n}" if r: "r < length (xh_table t)" for r
  proof (cases "r = ?r")
    case True
    then show ?thesis
      using r chains_okD(2) [OF xh_wf_chains [OF wf] r] by (simp add: xh_drop_def set_remove1_eq)
  next
    case False
    then have "n \<notin> set (xh_table t ! r)"
      using chains_okD(3) [OF xh_wf_chains [OF wf] r] by auto
    with False show ?thesis by (simp add: xh_drop_def)
  qed
  show thesis
  proof (rule that [OF eq wf' al])
    show "xh_freed t' = xh_freed t @ (if xh_usrfree t then [xh_entry t n] else [])"
      by (simp add: t'_def f_def)
    show "xh_frame t t'" using xh_drop_fields(11) [of t n] by (simp add: t'_def xh_frame_def)
    show "xh_nodes t' = xh_nodes t" by (simp add: t'_def)
    show "xh_glist t' = remove1 n (xh_glist t)" by (simp add: t'_def)
    show "length (xh_table t') = length (xh_table t)" by (simp add: tbl) (simp add: xh_drop_def)
    show "\<forall>r<length (xh_table t). set (xh_table t' ! r) = set (xh_table t ! r) - {n}"
      using rows by (simp add: tbl)
  qed
qed

lemma sfxhash_remove_aux:
  assumes wf: "xh_wf t" and rm: "sfxhash_remove t k = (st, t')"
  shows "xh_wf t' \<and> xh_lookup t' = (xh_lookup t)(k := None) \<and>
     st = (if xh_lookup t k = None then SFXHASH_ERR else SFXHASH_OK)"
proof (cases "xh_search t k")
  case None
  then show ?thesis
    using rm wf xh_lookup_None [OF wf, of k] by (auto simp: sfxhash_remove_def)
next
  case (Some n)
  then have n: "n \<in> set (xh_glist t)" "hn_key (xh_nodes t n) = k"
    by (simp_all add: xh_search_Some [OF wf])
  obtain t1 where t1: "sfxhash_free_node t n = (SFXHASH_OK, t1)" "xh_wf t1"
    "xh_alist t1 = filter (\<lambda>(k', _). k' \<noteq> hn_key (xh_nodes t n)) (xh_alist t)"
    by (rule free_node_spec [OF wf n(1)])
  have "sfxhash_remove t k = (SFXHASH_OK, t1)" by (simp add: sfxhash_remove_def Some t1(1))
  then have "st = SFXHASH_OK" "t' = t1" using rm by simp_all
  then show ?thesis
    using t1 n(2) xh_lookup_search [OF wf Some]
    by (auto simp: fun_eq_iff xh_lookup_def map_of_filter_neq)
qed

text \<open>Emptying: each row loop takes its nodes out of use, whatever the rows before it did.\<close>

lemma make_empty_row:
  assumes "xh_wf h" and "distinct row" and "set row \<subseteq> set (xh_glist h)"
  shows "xh_wf (fold (\<lambda>n h. snd (sfxhash_free_node h n)) row h) \<and>
     set (xh_glist (fold (\<lambda>n h. snd (sfxhash_free_node h n)) row h)) = set (xh_glist h) - set row"
  using assms
proof (induction row arbitrary: h)
  case Nil
  then show ?case by simp
next
  case (Cons n row)
  have n: "n \<in> set (xh_glist h)" using Cons.prems by simp
  obtain h1 where h1: "sfxhash_free_node h n = (SFXHASH_OK, h1)" "xh_wf h1"
    "xh_glist h1 = remove1 n (xh_glist h)"
    by (rule free_node_spec [OF Cons.prems(1) n])
  have gl: "set (xh_glist h1) = set (xh_glist h) - {n}"
    using h1(3) xh_wf_distinct [OF Cons.prems(1)] by (simp add: set_remove1_eq)
  then have "set row \<subseteq> set (xh_glist h1)" using Cons.prems(2,3) by auto
  from Cons.IH [OF h1(2) _ this] Cons.prems(2) show ?case by (auto simp: h1(1) gl)
qed

lemma make_empty_rows:
  assumes "xh_wf h" and "distinct (concat rows)" and "set (concat rows) \<subseteq> set (xh_glist h)"
  shows "xh_wf (fold (\<lambda>row h. fold (\<lambda>n h. snd (sfxhash_free_node h n)) row h) rows h) \<and>
     set (xh_glist (fold (\<lambda>row h. fold (\<lambda>n h. snd (sfxhash_free_node h n)) row h) rows h)) =
       set (xh_glist h) - set (concat rows)"
  using assms
proof (induction rows arbitrary: h)
  case Nil
  then show ?case by simp
next
  case (Cons row rows)
  let ?h1 = "fold (\<lambda>n h. snd (sfxhash_free_node h n)) row h"
  have r: "xh_wf ?h1 \<and> set (xh_glist ?h1) = set (xh_glist h) - set row"
    using make_empty_row [of h row] Cons.prems by simp
  then have "set (concat rows) \<subseteq> set (xh_glist ?h1)" using Cons.prems(2,3) by auto
  from Cons.IH [OF _ _ this] r Cons.prems(2) show ?case by auto
qed

lemma concat_table:
  assumes wf: "xh_wf t"
  shows "distinct (concat (xh_table t))" and "set (concat (xh_table t)) = set (xh_glist t)"
proof -
  note c = xh_wf_chains [OF wf]
  have row: "set (xh_table t ! r) = {n \<in> set (xh_glist t). hn_rindex (xh_nodes t n) = r}"
    if "r < length (xh_table t)" for r using chains_okD(3) [OF c that] .
  show "set (concat (xh_table t)) = set (xh_glist t)"
  proof
    show "set (concat (xh_table t)) \<subseteq> set (xh_glist t)"
    proof
      fix n assume "n \<in> set (concat (xh_table t))"
      then obtain c where "c \<in> set (xh_table t)" "n \<in> set c" by auto
      then obtain r where "r < length (xh_table t)" "n \<in> set (xh_table t ! r)"
        by (metis in_set_conv_nth)
      then show "n \<in> set (xh_glist t)" using row by simp
    qed
    show "set (xh_glist t) \<subseteq> set (concat (xh_table t))"
    proof
      fix n assume n: "n \<in> set (xh_glist t)"
      let ?r = "hn_rindex (xh_nodes t n)"
      have "?r < length (xh_table t)" by (rule chains_okD(4) [OF c n])
      then show "n \<in> set (concat (xh_table t))"
        using row [of ?r] n by (auto intro!: bexI [of _ "xh_table t ! ?r"])
    qed
  qed
  have disj: "set (xh_table t ! i) \<inter> set (xh_table t ! j) = {}"
    if "i < length (xh_table t)" "j < length (xh_table t)" "i \<noteq> j" for i j
    using that row by auto
  have "distinct (concat tbl)" if "\<forall>i<length tbl. distinct (tbl ! i)"
    "\<forall>i<length tbl. \<forall>j<length tbl. i \<noteq> j \<longrightarrow> set (tbl ! i) \<inter> set (tbl ! j) = {}" for tbl :: "nat list list"
    using that
  proof (induction tbl)
    case Nil
    then show ?case by simp
  next
    case (Cons r tbl)
    have "set r \<inter> set (tbl ! j) = {}" if "j < length tbl" for j
      using Cons.prems(2) that by (metis length_Cons nat.distinct(1) not_less_eq nth_Cons_0 nth_Cons_Suc zero_less_Suc)
    then have "set r \<inter> set (concat tbl) = {}" by (fastforce simp: in_set_conv_nth)
    moreover have "distinct (concat tbl)"
    proof (rule Cons.IH)
      show "\<forall>i<length tbl. distinct (tbl ! i)" using Cons.prems(1) by auto
      show "\<forall>i<length tbl. \<forall>j<length tbl. i \<noteq> j \<longrightarrow> set (tbl ! i) \<inter> set (tbl ! j) = {}"
        using Cons.prems(2) by (metis Suc_less_eq length_Cons nat.inject nth_Cons_Suc)
    qed
    moreover have "distinct r" using Cons.prems(1) by auto
    ultimately show ?case by simp
  qed
  then show "distinct (concat (xh_table t))" using disj chains_okD(2) [OF c] by simp
qed

lemma sfxhash_make_empty_aux:
  assumes wf: "xh_wf t"
  shows "xh_wf (snd (sfxhash_make_empty t)) \<and> xh_alist (snd (sfxhash_make_empty t)) = [] \<and>
     fst (sfxhash_make_empty t) = 0"
proof -
  let ?h = "fold (\<lambda>row h. fold (\<lambda>n h. snd (sfxhash_free_node h n)) row h) (xh_table t) t"
  have h: "xh_wf ?h" "xh_glist ?h = []"
    using make_empty_rows [OF wf concat_table(1) [OF wf]] concat_table(2) [OF wf] by auto
  let ?t = "snd (sfxhash_make_empty t)"
  have t: "?t = ?h\<lparr>xh_max_nodes := 0, xh_crow := 0, xh_cnode := None, xh_count := 0,
               xh_glist := [], xh_anr_count := 0, xh_anr_tries := 0,
               xh_find_success := 0, xh_find_fail := 0\<rparr>"
    by (simp add: sfxhash_make_empty_def Let_def)
  have "xh_wf ?t" using h unfolding t xh_wf_def by (simp add: xh_row_def)
  moreover have "xh_alist ?t = []" by (simp add: t xh_alist_def)
  ultimately show ?thesis by (simp add: sfxhash_make_empty_def Let_def)
qed

subsection \<open>What the table promises its clients\<close>

text \<open>
  A table whose data it manages itself (\<open>datasize\<close> not 0): every node, in use or free, has a
  datum. \<open>xh_get\<close> is the datum stored for a key.
\<close>

definition xh_store_ok :: "('k, 'v) SFXHASH \<Rightarrow> bool" where
  "xh_store_ok t \<longleftrightarrow> xh_wf t \<and> xh_datasize t \<noteq> 0 \<and>
     (\<forall>n\<in>set (xh_glist t) \<union> set (xh_flist t). hn_data (xh_nodes t n) \<noteq> None)"

definition xh_get :: "('k, 'v) SFXHASH \<Rightarrow> 'k \<Rightarrow> 'v option" where
  "xh_get t k = Option.bind (xh_lookup t k) id"

definition xh_at :: "('k, 'v) SFXHASH \<Rightarrow> nat \<Rightarrow> 'k \<Rightarrow> bool" where
  "xh_at t n k \<longleftrightarrow> n \<in> set (xh_glist t) \<and> hn_key (xh_nodes t n) = k"

definition xh_cur :: "('k, 'v) SFXHASH \<Rightarrow> nat \<Rightarrow> 'v" where
  "xh_cur t n = the (hn_data (xh_nodes t n))"

lemma xh_at_search: "xh_wf t \<Longrightarrow> xh_at t n k \<longleftrightarrow> xh_search t k = Some n"
  by (simp add: xh_at_def xh_search_Some)

lemma xh_store_okD:
  assumes "xh_store_ok t"
  shows xh_store_wf: "xh_wf t"
    and xh_store_ds: "xh_datasize t \<noteq> 0"
    and xh_store_data: "n \<in> set (xh_glist t) \<union> set (xh_flist t) \<Longrightarrow> hn_data (xh_nodes t n) \<noteq> None"
  using assms by (auto simp: xh_store_ok_def)

lemma xh_get_at:
  assumes "xh_store_ok t" and "xh_at t n k"
  shows "xh_get t k = Some (xh_cur t n)"
proof -
  have "xh_lookup t k = Some (hn_data (xh_nodes t n))"
    using assms xh_lookup_search xh_at_search xh_store_wf by metis
  moreover have "hn_data (xh_nodes t n) \<noteq> None"
    using assms xh_store_data [OF assms(1), of n] by (simp add: xh_at_def)
  ultimately show ?thesis by (auto simp: xh_get_def xh_cur_def)
qed

lemma xh_get_None:
  assumes ok: "xh_store_ok t"
  shows "xh_get t k = None \<longleftrightarrow> xh_search t k = None"
proof (cases "xh_search t k")
  case None
  then have "xh_lookup t k = None" using xh_lookup_None [OF xh_store_wf [OF ok]] by blast
  with None show ?thesis by (simp add: xh_get_def)
next
  case (Some n)
  then have "xh_at t n k" by (simp add: xh_at_search [OF xh_store_wf [OF ok]])
  then show ?thesis using xh_get_at [OF ok] Some by simp
qed

lemma xh_write_wf:
  assumes "xh_wf t"
  shows "xh_wf (xh_write t n d)"
proof -
  have k: "hn_key (xh_nodes (xh_write t n d) m) = hn_key (xh_nodes t m)"
    "hn_rindex (xh_nodes (xh_write t n d) m) = hn_rindex (xh_nodes t m)" for m
    by (simp_all add: xh_write_def)
  have "chains_ok (xh_nodes (xh_write t n d)) (xh_glist t) (xh_table t)"
    by (rule chains_ok_cong [OF xh_wf_chains [OF assms]]) (rule k(2))
  then show ?thesis
    using assms unfolding xh_wf_def by (simp add: k) (simp add: xh_write_def xh_row_def)
qed

lemma xh_write_ok:
  "xh_store_ok t \<Longrightarrow> xh_store_ok (xh_write t n d)"
  by (auto simp: xh_store_ok_def xh_write_wf) (auto simp: xh_write_def)

lemma xh_write_at: "xh_at (xh_write t n d) m k = xh_at t m k"
  by (simp add: xh_at_def xh_write_def)

lemma xh_write_get:
  assumes ok: "xh_store_ok t" and at: "xh_at t n k"
  shows "xh_get (xh_write t n d) = (xh_get t)(k \<mapsto> d)"
proof
  fix j
  let ?t = "xh_write t n d"
  have ok': "xh_store_ok ?t" by (rule xh_write_ok [OF ok])
  show "xh_get ?t j = ((xh_get t)(k \<mapsto> d)) j"
  proof (cases "xh_search t j")
    case None
    then have "xh_search ?t j = None"
      using xh_at_search [OF xh_store_wf [OF ok]] xh_at_search [OF xh_store_wf [OF ok']]
        xh_write_at by (metis option.exhaust)
    moreover have "j \<noteq> k" using None at by (auto simp: xh_at_search [OF xh_store_wf [OF ok]])
    ultimately have "xh_get ?t j = None" "xh_get t j = None" "j \<noteq> k"
      using None xh_get_None [OF ok'] xh_get_None [OF ok] by blast+
    then show ?thesis by simp
  next
    case (Some m)
    then have m: "xh_at t m j" by (simp add: xh_at_search [OF xh_store_wf [OF ok]])
    then have "xh_get ?t j = Some (xh_cur ?t m)" by (intro xh_get_at [OF ok']) (simp add: xh_write_at)
    moreover have "m = n \<longleftrightarrow> j = k"
      using m at xh_wf_inj [OF xh_store_wf [OF ok]] by (auto simp: xh_at_def inj_on_def)
    ultimately show ?thesis using xh_get_at [OF ok m] by (auto simp: xh_cur_def xh_write_def)
  qed
qed

lemma xh_get_alist:
  "xh_store_ok t \<Longrightarrow> xh_alist t = xh_alist u \<Longrightarrow> xh_get t = xh_get u"
  by (simp add: xh_get_def xh_lookup_def fun_eq_iff)

lemma xh_lookup_subset:
  assumes "xh_wf t" and "xh_wf t2" and "set (xh_alist t2) \<subseteq> set (xh_alist t)"
  shows "xh_lookup t2 j = xh_lookup t j \<or> xh_lookup t2 j = None"
proof (cases "xh_lookup t2 j")
  case (Some d)
  then have "(j, d) \<in> set (xh_alist t)" using assms(3) by (auto simp: xh_lookup_def dest: map_of_SomeD)
  then show ?thesis
    using Some xh_alist_distinct [OF assms(1)] by (simp add: xh_lookup_def)
qed simp

lemma newnode_store:
  assumes ok: "xh_store_ok t" and new: "sfxhash_newnode t = (r, t')"
  shows "xh_store_ok t'" and "r = Some (n, old) \<Longrightarrow> old \<noteq> None"
proof -
  note n = newnode_spec [OF xh_store_wf [OF ok] new]
  from xh_store_wf [OF ok] new
  have "set (xh_flist t') \<subseteq> set (xh_flist t) \<and> (r = Some (n, old) \<longrightarrow> old \<noteq> None)"
    by (cases rule: newnode_cases)
      (use xh_store_data [OF ok] xh_store_ds [OF ok] in \<open>auto simp: xh_drop_def\<close>)
  then show "xh_store_ok t'" "r = Some (n, old) \<Longrightarrow> old \<noteq> None"
    using n(1,2,3,7) ok unfolding xh_store_ok_def xh_frame_def by auto
qed

lemma xh_insert_ok:
  assumes ok: "xh_store_ok t" and wf: "xh_wf (xh_insert t n k (Some d) (xh_row t k))"
  shows "xh_store_ok (xh_insert t n k (Some d) (xh_row t k))"
  using wf xh_store_data [OF ok] xh_store_ds [OF ok] unfolding xh_store_ok_def
  by (auto simp: xh_insert_def sfxhash_glink_node_def sfxhash_link_node_def Let_def)

lemma xh_insert_at: "xh_at (xh_insert t n k d i) n k"
  by (simp add: xh_at_def xh_insert_def sfxhash_glink_node_def sfxhash_link_node_def Let_def)

lemma store_hit:
  assumes ok: "xh_store_ok t" and s: "xh_search t k = Some n"
  obtains t' where "sfxhash_add t k d = (SFXHASH_INTABLE, t')" "sfxhash_get_node t k = (Some n, t')"
    "xh_store_ok t'" "xh_get t' = xh_get t" "xh_at t' n k" "xh_cnode t' = Some n"
proof -
  note wf = xh_store_wf [OF ok]
  obtain t' where t': "sfxhash_add t k d = (SFXHASH_INTABLE, t')" "sfxhash_get_node t k = (Some n, t')"
    "xh_wf t'" "xh_alist t' = lru_find (xh_splay t > 0) k (xh_alist t)"
    "xh_nodes t' = xh_nodes t" "set (xh_glist t') = set (xh_glist t)"
    "xh_cnode t' = Some n" "xh_frame t t'" "xh_flist t' = xh_flist t"
  proof -
    obtain t1 where t1: "sfxhash_find_node_row t k = (Some n, xh_row t k, t1)" "xh_wf t1"
      "xh_alist t1 = lru_find (xh_splay t > 0) k (xh_alist t)" "xh_nodes t1 = xh_nodes t"
      "set (xh_glist t1) = set (xh_glist t)" "xh_frame t t1" "xh_flist t1 = xh_flist t"
      using find_row_hit [OF wf s] by metis
    then have "xh_alist (t1\<lparr>xh_cnode := Some n\<rparr>) = lru_find (xh_splay t > 0) k (xh_alist t)"
      by (simp add: xh_alist_def xh_entry_def cong: map_cong)
    with t1 show thesis
      by (intro that [of "t1\<lparr>xh_cnode := Some n\<rparr>"])
        (simp_all add: sfxhash_add_def sfxhash_get_node_def xh_wf_counters xh_frame_def)
  qed
  have "xh_store_ok t'" using t'(3,5,6,8,9) ok by (simp add: xh_store_ok_def xh_frame_def)
  moreover have "xh_get t' = xh_get t"
    by (simp add: xh_get_def xh_lookup_def t'(4) lru_find_def fun_eq_iff)
  moreover have "xh_at t' n k" using s t'(5,6) by (simp add: xh_at_def xh_search_Some [OF wf])
  ultimately show thesis using that t'(1,2,7) by blast
qed

lemma store_miss:
  assumes ok: "xh_store_ok t" and s: "xh_search t k = None"
  obtains (full) t' where "sfxhash_add t k (Some d) = (SFXHASH_NOMEM, t')"
      "sfxhash_get_node t k = (None, t')" "xh_store_ok t'" "xh_get t' k = None"
      "\<forall>j. xh_get t' j = xh_get t j \<or> xh_get t' j = None"
  | (added) n d' t1 t2 where "sfxhash_add t k (Some d) = (SFXHASH_OK, t1)"
      "sfxhash_get_node t k = (Some n, t2)" "xh_store_ok t1" "xh_store_ok t2"
      "xh_get t1 k = Some d" "xh_get t2 k = Some d'" "xh_at t2 n k" "xh_at t1 n k"
      "\<forall>j. j \<noteq> k \<longrightarrow> xh_get t1 j = xh_get t j \<or> xh_get t1 j = None"
      "\<forall>j. j \<noteq> k \<longrightarrow> xh_get t2 j = xh_get t j \<or> xh_get t2 j = None"
proof -
  note wf = xh_store_wf [OF ok]
  obtain r t2 where new: "sfxhash_newnode (t\<lparr>xh_find_fail := xh_find_fail t + 1\<rparr>) = (r, t2)"
    by fastforce
  note am = add_miss [OF wf s new]
  have ok1: "xh_store_ok (t\<lparr>xh_find_fail := xh_find_fail t + 1\<rparr>)"
    using ok by (simp add: xh_store_ok_def xh_wf_counters)
  note ok2 = newnode_store [OF ok1 new]
  have sub: "xh_get t2 j = xh_get t j \<or> xh_get t2 j = None" for j
    using xh_lookup_subset [OF wf am(1,3), of j] by (auto simp: xh_get_def)
  have none: "xh_get t k = None" using s by (simp add: xh_get_None [OF ok])
  show thesis
  proof (cases r)
    case None
    then show thesis
      using am(4,5) ok2(1) sub none by (intro full [of t2]) (auto, metis)
  next
    case (Some p)
    obtain n old where p: "r = Some (n, old)" using Some by (cases p) auto
    obtain d' where d': "old = Some d'" using ok2(2) [OF p] by blast
    let ?i = "\<lambda>d. xh_insert t2 n k (Some d) (xh_row t2 k)"
    have g: "xh_get (?i x) j = (if j = k then Some x else xh_get t2 j)" for x j
      by (simp add: xh_get_def xh_lookup_def am(9) [OF p])
    have i: "xh_store_ok (?i x)" for x by (rule xh_insert_ok [OF ok2(1) am(8) [OF p]])
    show thesis
      using am(6,7) [OF p] xh_store_ds [OF ok] d' g i sub
      by (intro added [of "?i d" n "?i d'" d']) (auto simp: xh_insert_at)
  qed
qed

interpretation xh_add: adding_store xh_store_ok xh_get xh_at xh_cur xh_write
  "\<lambda>t k d. sfxhash_add t k (Some d)" "\<lambda>t. the (xh_cnode t)" SFXHASH_INTABLE SFXHASH_OK
proof unfold_locales
  fix s :: "('a, 'b) SFXHASH" and k d st s' v
  assume ok: "xh_store_ok s" and add: "sfxhash_add s k (Some d) = (st, s')"
  {
    assume "xh_get s k = Some v"
    then obtain n where "xh_search s k = Some n" using xh_get_None [OF ok, of k] by auto
    from store_hit [OF ok this, where d = "Some d"] add
    show "st = SFXHASH_INTABLE \<and> xh_store_ok s' \<and> xh_get s' = xh_get s \<and> xh_at s' (the (xh_cnode s')) k"
      by (metis option.sel prod.inject)
  next
    assume "xh_get s k = None"
    then have "xh_search s k = None" by (simp add: xh_get_None [OF ok])
    from ok this
    show "st \<noteq> SFXHASH_INTABLE \<and> xh_store_ok s' \<and> (st = SFXHASH_OK \<longrightarrow> xh_get s' k = Some d) \<and>
       (st \<noteq> SFXHASH_OK \<longrightarrow> xh_get s' k = None) \<and>
       (\<forall>j. j \<noteq> k \<longrightarrow> xh_get s' j = xh_get s j \<or> xh_get s' j = None)"
      by (cases rule: store_miss [where d = d]) (use add in \<open>auto simp: sfxhash_status\<close>)
  }
qed (auto simp: xh_get_at xh_write_ok xh_write_get xh_write_at sfxhash_status)

interpretation xh_node: getting_store xh_store_ok xh_get xh_at xh_cur xh_write sfxhash_get_node
proof unfold_locales
  fix s :: "('a, 'b) SFXHASH" and k r s' v
  assume ok: "xh_store_ok s" and get: "sfxhash_get_node s k = (r, s')"
  {
    assume "xh_get s k = Some v"
    then obtain n where "xh_search s k = Some n" using xh_get_None [OF ok, of k] by auto
    from store_hit [OF ok this] get
    show "\<exists>n. r = Some n \<and> xh_store_ok s' \<and> xh_get s' = xh_get s \<and> xh_at s' n k"
      by (metis prod.inject)
  next
    assume "xh_get s k = None"
    then have "xh_search s k = None" by (simp add: xh_get_None [OF ok])
    from ok this
    show "xh_store_ok s' \<and> (\<forall>n. r = Some n \<longrightarrow> xh_at s' n k) \<and> (r = None \<longrightarrow> xh_get s' k = None) \<and>
       (\<forall>j. j \<noteq> k \<longrightarrow> xh_get s' j = xh_get s j \<or> xh_get s' j = None)"
      by (cases rule: store_miss) (use get in auto)
  }
qed

subsection \<open>The number of rows\<close>

text \<open>After the step with shift \<open>k\<close>, a bit is set where one of the \<open>2 * k\<close> bits from it upwards was.\<close>

lemma smear_step:
  fixes m x :: "32 word"
  assumes x: "\<And>i. bit x i \<longleftrightarrow> (\<exists>j<k. bit m (i + j))" and pos: "\<not> bit m 31" and k: "0 < k"
  shows "bit (x OR signed_drop_bit k x) i \<longleftrightarrow> (\<exists>j<2 * k. bit m (i + j))"
proof -
  have high: "\<not> bit m i" if "i \<ge> 31" for i
    using pos bit_imp_le_length [of m i] that by (cases "i = 31") auto
  have "bit (signed_drop_bit k x) i \<longleftrightarrow> (\<exists>j<k. bit m (i + k + j))"
  proof -
    have "\<not> bit x 31" using x high by simp
    then have "bit (signed_drop_bit k x) i \<longleftrightarrow> bit x (k + i)"
      using bit_imp_le_length [of x "k + i"] k
      by (auto simp: bit_signed_drop_bit_iff)
    then show ?thesis using x by (simp add: add.commute)
  qed
  then have "bit (x OR signed_drop_bit k x) i \<longleftrightarrow> (\<exists>j<k. bit m (i + j)) \<or> (\<exists>j<k. bit m (i + k + j))"
    by (simp add: bit_or_iff x)
  also have "\<dots> \<longleftrightarrow> (\<exists>j<2 * k. bit m (i + j))"
  proof
    assume "(\<exists>j<k. bit m (i + j)) \<or> (\<exists>j<k. bit m (i + k + j))"
    then show "\<exists>j<2 * k. bit m (i + j)"
      by (auto simp: add.assoc intro: exI [of _ "_ :: nat"]) (metis add_less_mono mult_2 trans_less_add1 nat_add_left_cancel_less)+
  next
    assume "\<exists>j<2 * k. bit m (i + j)"
    then obtain j where j: "j < 2 * k" "bit m (i + j)" by blast
    show "(\<exists>j<k. bit m (i + j)) \<or> (\<exists>j<k. bit m (i + k + j))"
    proof (cases "j < k")
      case True
      with j show ?thesis by blast
    next
      case False
      then have "j - k < k" "i + k + (j - k) = i + j" using j(1) by auto
      with j(2) show ?thesis by metis
    qed
  qed
  finally show ?thesis .
qed

lemma smear_bits:
  fixes m :: "32 word"
  assumes pos: "\<not> bit m 31"
  shows "bit (fold (\<lambda>i n. n OR signed_drop_bit i n) [1, 2, 4, 8, 16] m) i \<longleftrightarrow> (\<exists>j\<ge>i. bit m j)"
proof -
  note st = smear_step [OF _ pos]
  have 0: "bit m i \<longleftrightarrow> (\<exists>j<1. bit m (i + j))" for i by simp
  note s1 = st [OF 0] note s2 = st [OF s1] note s4 = st [OF s2]
  note s8 = st [OF s4] note s16 = st [OF s8]
  have "bit (fold (\<lambda>i n. n OR signed_drop_bit i n) [1, 2, 4, 8, 16] m) i \<longleftrightarrow>
      (\<exists>j<32. bit m (i + j))"
    using s16 [of i] by simp
  also have "\<dots> \<longleftrightarrow> (\<exists>j\<ge>i. bit m j)"
  proof
    assume "\<exists>j\<ge>i. bit m j"
    then obtain j where j: "i \<le> j" "bit m j" by blast
    then have "j - i < 32" "bit m (i + (j - i))" using bit_imp_le_length [of m j] by auto
    then show "\<exists>j<32. bit m (i + j)" by blast
  next
    assume "\<exists>j<32. bit m (i + j)"
    then show "\<exists>j\<ge>i. bit m j" by (metis le_add1)
  qed
  finally show ?thesis .
qed

lemma nearest_powerof2_aux:
  assumes "0 < unat n" and "unat n \<le> 2 ^ 30"
  shows "\<exists>e\<le>30. unat (sfxhash_nearest_powerof2 n) = 2 ^ e \<and> unat n \<le> 2 ^ e \<and> 2 ^ e < 2 * unat n"
proof -
  let ?m = "n - 1" and ?x = "fold (\<lambda>i n. n OR signed_drop_bit i n) [1, 2, 4, 8, 16] (n - 1)"
  have um: "unat ?m = unat n - 1" using assms(1) by (intro unat_minus_one) auto
  show ?thesis
  proof (cases "?m = 0")
    case True
    then have "n = 1" by simp
    then show ?thesis by (intro exI [of _ 0]) (simp add: sfxhash_nearest_powerof2_def)
  next
    case False
    have less: "unat ?m < 2 ^ 30" using assms um by simp
    have bits: "bit ?m j \<longleftrightarrow> odd (unat ?m div 2 ^ j)" for j
    proof -
      have "bit ?m j \<longleftrightarrow> bit (unat ?m) j" by (simp add: bit_unsigned_iff)
      then show ?thesis by (simp add: bit_iff_odd)
    qed
    then have high: "\<not> bit ?m j" if "j \<ge> 30" for j
    proof -
      have "(2::nat) ^ 30 \<le> 2 ^ j" using that by (rule power_increasing) simp
      then have "unat ?m div 2 ^ j = 0" using less by (intro div_less) simp
      then show ?thesis by (simp add: bits)
    qed
    define h where "h = (GREATEST j. bit ?m j)"
    obtain j0 where "bit ?m j0" using False by (auto simp: bit_eq_iff)
    have b: "j \<le> 30" if "bit ?m j" for j using high that by (meson nle_le)
    have h: "bit ?m h" "\<And>j. bit ?m j \<Longrightarrow> j \<le> h"
      unfolding h_def
      using GreatestI_nat [of "bit ?m", OF \<open>bit ?m j0\<close> b] Greatest_le_nat [of "bit ?m", OF _ b]
      by blast+
    have h30: "h < 30" using high h(1) by (meson not_le)
    have "bit ?x i \<longleftrightarrow> bit (mask (Suc h) :: 32 word) i" for i
    proof -
      have "bit ?x i \<longleftrightarrow> (\<exists>j\<ge>i. bit ?m j)" by (rule smear_bits) (use high in simp)
      also have "\<dots> \<longleftrightarrow> i \<le> h" using h by (meson le_trans)
      also have "\<dots> \<longleftrightarrow> bit (mask (Suc h) :: 32 word) i" using h30 by (auto simp: bit_mask_iff)
      finally show ?thesis .
    qed
    then have x: "?x = mask (Suc h)" by (rule bit_word_eqI)
    have r: "unat (sfxhash_nearest_powerof2 n) = 2 ^ Suc h"
    proof -
      have "sfxhash_nearest_powerof2 n = 2 ^ Suc h"
        unfolding sfxhash_nearest_powerof2_def x by (simp add: mask_eq_exp_minus_1)
      moreover have "unat (2 ^ Suc h :: 32 word) = 2 ^ Suc h"
        using h30 by (intro unat_exp_2) simp
      ultimately show ?thesis by simp
    qed
    have lo: "2 ^ h \<le> unat ?m" using h(1) bits [of h] by (cases "unat ?m < 2 ^ h") auto
    have hi: "unat ?m < 2 ^ Suc h"
    proof (rule ccontr)
      assume "\<not> unat ?m < 2 ^ Suc h"
      then have "unat ?m div 2 ^ Suc h \<noteq> 0" by (simp add: div_eq_0_iff)
      then have "unat (drop_bit (Suc h) ?m) \<noteq> 0"
        using unat_drop_bit_eq [of "Suc h" ?m] drop_bit_eq_div [of "Suc h" "unat ?m"] by metis
      then have "drop_bit (Suc h) ?m \<noteq> 0" by (metis unat_0)
      then obtain j where "bit (drop_bit (Suc h) ?m) j" by (auto simp: bit_eq_iff)
      then have "bit ?m (Suc h + j)" by (simp add: bit_drop_bit_eq)
      then show False using h(2) by fastforce
    qed
    show ?thesis
      using r lo hi h30 um assms(1) by (intro exI [of _ "Suc h"]) auto
  qed
qed

subsection \<open>Tables as they come about\<close>

lemma xh_new_wf:
  assumes new: "sfxhash_new hash keycmp zero nrows ks ds maxmem anr anrfree usr rec = Some t"
    and n: "0 < unat nrows" "unat nrows \<le> 2 ^ 30" and cmp: "\<And>a b. keycmp a b = 0 \<longleftrightarrow> a = b"
  shows "xh_wf t" and "xh_glist t = []" and "xh_flist t = []"
    and "mc_memcap (xh_mc t) = maxmem"
    and "maxmem > 0 \<Longrightarrow> mc_memused (xh_mc t) \<le> maxmem" and "xh_recycle_nodes t = rec"
    and "xh_datasize t = ds" and "xh_anrfree t = anrfree" and "xh_anr_flag t = anr"
proof -
  have s: "0 <s nrows"
  proof -
    have "sint nrows = int (unat nrows)" using n by (intro sint_eq_unat) simp
    then show ?thesis using n(1) by (simp only: word_sless_alt sint_0)
  qed
  let ?r = "sfxhash_nearest_powerof2 nrows"
  obtain e where e: "e \<le> 30" "unat ?r = 2 ^ e"
    using nearest_powerof2_aux [OF n] by blast
  then have "unat ?r \<le> 2 ^ 30" by (simp add: power_increasing del: power_numeral)
  then have "sint ?r = int (unat ?r)" by (intro sint_eq_unat) simp
  then have len: "nat (sint ?r) = unat ?r" by simp
  have nz: "?r \<noteq> 0" using e(2) by (metis power_not_zero unat_0 zero_neq_numeral)
  have t: "xh_nodes t = (\<lambda>_. undefined) \<and> xh_glist t = [] \<and> xh_flist t = [] \<and> xh_nrows t = ?r \<and>
      xh_table t = replicate (unat ?r) [] \<and> xh_count t = 0 \<and> xh_keycmp t = keycmp \<and>
      xh_recycle_nodes t = rec \<and> xh_datasize t = ds \<and> xh_anrfree t = anrfree \<and> xh_anr_flag t = anr \<and>
      mc_memcap (xh_mc t) = maxmem \<and> (maxmem > 0 \<longrightarrow> mc_memused (xh_mc t) \<le> maxmem)"
    using new s len
    by (auto simp: sfxhash_new_def Let_def sfmemcap_alloc_def sfmemcap_init_def
        split: option.splits if_splits)
  show "xh_wf t" using t nz cmp by (simp add: xh_wf_def chains_ok_def)
  show "xh_glist t = []" "xh_flist t = []" "mc_memcap (xh_mc t) = maxmem"
    "maxmem > 0 \<Longrightarrow> mc_memused (xh_mc t) \<le> maxmem" "xh_recycle_nodes t = rec"
    "xh_datasize t = ds" "xh_anrfree t = anrfree" "xh_anr_flag t = anr"
    using t by simp_all
qed

text \<open>One call of a client, and the tables that come about by such calls.\<close>

inductive xh_step :: "('k, 'v) SFXHASH \<Rightarrow> ('k, 'v) SFXHASH \<Rightarrow> bool" where
  add: "xh_step t (snd (sfxhash_add t k d))"
| get_node: "xh_step t (snd (sfxhash_get_node t k))"
| find: "xh_step t (snd (sfxhash_find t k))"
| find_node: "xh_step t (snd (sfxhash_find_node t k))"
| remove: "xh_step t (snd (sfxhash_remove t k))"
| make_empty: "xh_step t (snd (sfxhash_make_empty t))"
| set_max: "xh_step t (sfxhash_set_max_nodes t m)"
| splaymode: "xh_step t (sfxhash_splaymode t i)"
| move: "n \<in> set (xh_glist t) \<Longrightarrow> xh_step t (sfxhash_gmovetofront t n)"
| put: "xh_step t (xh_write t n v)"

inductive_cases xh_stepE: "xh_step t t'"

text \<open>What holds of a table with recycling, as every tracker of the program creates it.\<close>

definition xh_inv :: "('k, 'v) SFXHASH \<Rightarrow> bool" where
  "xh_inv t \<longleftrightarrow> xh_wf t \<and> xh_recycle_nodes t \<and>
     (mc_memcap (xh_mc t) > 0 \<longrightarrow> mc_memused (xh_mc t) \<le> mc_memcap (xh_mc t))"

inductive xh_reachable :: "('k, 'v) SFXHASH \<Rightarrow> bool" where
  new: "sfxhash_new hash keycmp zero nrows ks ds maxmem anr anrfree usr True = Some t \<Longrightarrow>
        0 < unat nrows \<Longrightarrow> unat nrows \<le> 2 ^ 30 \<Longrightarrow> (\<forall>a b. keycmp a b = 0 \<longleftrightarrow> a = b) \<Longrightarrow>
        xh_reachable t"
| step: "xh_reachable t \<Longrightarrow> xh_step t t' \<Longrightarrow> xh_reachable t'"

definition mc_ok :: "MEMCAP \<Rightarrow> MEMCAP \<Rightarrow> bool" where
  "mc_ok m m' \<longleftrightarrow> mc_memcap m' = mc_memcap m \<and>
     (mc_memcap m > 0 \<and> mc_memused m \<le> mc_memcap m \<longrightarrow> mc_memused m' \<le> mc_memcap m)"

lemma mc_ok_refl [simp]: "mc_ok m m"
  by (simp add: mc_ok_def)

lemma mc_ok_trans: "mc_ok a b \<Longrightarrow> mc_ok b c \<Longrightarrow> mc_ok a c"
  by (auto simp: mc_ok_def)

lemma mc_ok_alloc: "mc_ok mc (snd (sfmemcap_alloc mc n))"
  by (auto simp: mc_ok_def sfmemcap_alloc_def Let_def not_less)

lemma newnode_mc: "mc_ok (xh_mc t) (xh_mc (snd (sfxhash_newnode t)))"
proof -
  have u: "xh_mc (sfxhash_unlink_node u n) = xh_mc u" "xh_mc (sfxhash_gunlink_node u n) = xh_mc u"
    for u :: "('k, 'v) SFXHASH" and n
    by (simp_all add: sfxhash_unlink_node_def sfxhash_gunlink_node_def Let_def)
  show ?thesis
    using mc_ok_alloc [of "xh_mc t" "scast (56 + xh_keysize t + xh_datasize t)"]
    by (auto simp: sfxhash_newnode_def sfxhash_get_free_node_def s_alloc_def Let_def u
        split: list.splits option.splits prod.splits if_splits)
qed

lemma add_step:
  assumes wf: "xh_wf t"
  shows "xh_wf (snd (sfxhash_add t k d)) \<and> xh_frame t (snd (sfxhash_add t k d)) \<and>
     mc_ok (xh_mc t) (xh_mc (snd (sfxhash_add t k d)))"
    and "xh_wf (snd (sfxhash_get_node t k)) \<and> xh_frame t (snd (sfxhash_get_node t k)) \<and>
     mc_ok (xh_mc t) (xh_mc (snd (sfxhash_get_node t k)))"
proof -
  have "(xh_wf (snd (sfxhash_add t k d)) \<and> xh_frame t (snd (sfxhash_add t k d)) \<and>
      mc_ok (xh_mc t) (xh_mc (snd (sfxhash_add t k d)))) \<and>
    (xh_wf (snd (sfxhash_get_node t k)) \<and> xh_frame t (snd (sfxhash_get_node t k)) \<and>
     mc_ok (xh_mc t) (xh_mc (snd (sfxhash_get_node t k))))"
  proof (cases "xh_search t k")
    case (Some n)
    show ?thesis by (rule add_hit [OF wf Some, where d = d]) simp
  next
    case None
    obtain r t2 where new: "sfxhash_newnode (t\<lparr>xh_find_fail := xh_find_fail t + 1\<rparr>) = (r, t2)"
      by fastforce
    note am = add_miss [OF wf None new]
    have mc: "mc_ok (xh_mc t) (xh_mc t2)"
      using newnode_mc [of "t\<lparr>xh_find_fail := xh_find_fail t + 1\<rparr>"] by (simp add: new)
    have mci: "xh_mc (xh_insert t2 n k x i) = xh_mc t2" for n x i
      by (simp add: xh_insert_def sfxhash_glink_node_def sfxhash_link_node_def Let_def)
    show ?thesis
    proof (cases r)
      case None
      then show ?thesis using am(1,2,4,5) mc by simp
    next
      case (Some p)
      then show ?thesis using am(6,7,8,10) mc mci by (cases p) simp
    qed
  qed
  then show "xh_wf (snd (sfxhash_add t k d)) \<and> xh_frame t (snd (sfxhash_add t k d)) \<and>
     mc_ok (xh_mc t) (xh_mc (snd (sfxhash_add t k d)))"
    "xh_wf (snd (sfxhash_get_node t k)) \<and> xh_frame t (snd (sfxhash_get_node t k)) \<and>
     mc_ok (xh_mc t) (xh_mc (snd (sfxhash_get_node t k)))" by blast+
qed

lemma find_step:
  assumes wf: "xh_wf t"
  shows "xh_wf (snd (sfxhash_find t k)) \<and> xh_frame t (snd (sfxhash_find t k)) \<and>
      xh_mc (snd (sfxhash_find t k)) = xh_mc t"
    and "snd (sfxhash_find_node t k) = snd (sfxhash_find t k)"
proof -
  show "xh_wf (snd (sfxhash_find t k)) \<and> xh_frame t (snd (sfxhash_find t k)) \<and>
      xh_mc (snd (sfxhash_find t k)) = xh_mc t"
  proof (cases "xh_search t k")
    case (Some n)
    show ?thesis by (rule find_row_hit [OF wf Some]) (simp add: sfxhash_find_def)
  next
    case None
    then show ?thesis using xh_miss_frame [OF wf] by (simp add: sfxhash_find_def find_row_miss)
  qed
  show "snd (sfxhash_find_node t k) = snd (sfxhash_find t k)"
    by (simp add: sfxhash_find_def sfxhash_find_node_def split: prod.split option.split)
qed

lemma free_node_mc:
  "xh_recycle_nodes t \<Longrightarrow> xh_mc (snd (sfxhash_free_node t n)) = xh_mc t \<and>
   xh_recycle_nodes (snd (sfxhash_free_node t n))"
  by (simp add: sfxhash_free_node_def sfxhash_save_free_node_def sfxhash_gunlink_node_def
      sfxhash_unlink_node_def Let_def)

lemma make_empty_mc:
  assumes "xh_recycle_nodes t"
  shows "xh_mc (snd (sfxhash_make_empty t)) = xh_mc t \<and> xh_recycle_nodes (snd (sfxhash_make_empty t))"
proof -
  have row: "xh_mc (fold (\<lambda>n h. snd (sfxhash_free_node h n)) row h) = xh_mc h \<and>
      xh_recycle_nodes (fold (\<lambda>n h. snd (sfxhash_free_node h n)) row h)"
    if "xh_recycle_nodes h" for row and h :: "('a, 'b) SFXHASH"
    using that by (induction row arbitrary: h) (simp_all add: free_node_mc)
  have "xh_mc (fold (\<lambda>row h. fold (\<lambda>n h. snd (sfxhash_free_node h n)) row h) rows h) = xh_mc h \<and>
      xh_recycle_nodes (fold (\<lambda>row h. fold (\<lambda>n h. snd (sfxhash_free_node h n)) row h) rows h)"
    if "xh_recycle_nodes h" for rows and h :: "('a, 'b) SFXHASH"
    using that by (induction rows arbitrary: h) (simp_all add: row)
  then show ?thesis using assms by (simp add: sfxhash_make_empty_def Let_def)
qed

lemma gmovetofront_wf:
  assumes wf: "xh_wf t" and n: "n \<in> set (xh_glist t)"
  shows "xh_wf (sfxhash_gmovetofront t n)"
proof -
  have d: "distinct (n # remove1 n (xh_glist t))" and
    gl: "set (n # remove1 n (xh_glist t)) = set (xh_glist t)"
    using n xh_wf_distinct [OF wf] by (auto simp: set_remove1_eq)
  have "xh_wf (t\<lparr>xh_table := xh_table t, xh_glist := n # remove1 n (xh_glist t)\<rparr>)"
    by (rule xh_wf_relink [OF wf chains_ok_perm [OF xh_wf_chains [OF wf] d gl] gl refl])
  then show ?thesis
    using wf by (simp add: sfxhash_gmovetofront_def sfxhash_glink_node_def sfxhash_gunlink_node_def)
qed

lemma xh_inv_mc:
  "xh_inv t \<Longrightarrow> xh_wf t' \<Longrightarrow> xh_recycle_nodes t' \<Longrightarrow> mc_ok (xh_mc t) (xh_mc t') \<Longrightarrow> xh_inv t'"
  by (auto simp: xh_inv_def mc_ok_def)

lemma xh_step_inv:
  assumes "xh_step t t'" and inv: "xh_inv t"
  shows "xh_inv t'"
proof -
  have wf: "xh_wf t" and rec: "xh_recycle_nodes t" using inv by (simp_all add: xh_inv_def)
  note keep = xh_inv_mc [OF inv]
  from assms(1) show ?thesis
  proof cases
    case (add k d)
    then show ?thesis using add_step(1) [OF wf] rec by (intro keep) (auto simp: xh_frame_def)
  next
    case (get_node k)
    then show ?thesis using add_step(2) [OF wf] rec by (intro keep) (auto simp: xh_frame_def)
  next
    case (find k)
    then show ?thesis using find_step [OF wf] rec by (intro keep) (auto simp: xh_frame_def)
  next
    case (find_node k)
    then show ?thesis using find_step [OF wf] rec by (intro keep) (auto simp: xh_frame_def)
  next
    case (remove k)
    obtain st where "sfxhash_remove t k = (st, t')" using remove by (metis prod.collapse)
    then have "xh_wf t'" using sfxhash_remove_aux [OF wf] by blast
    moreover have "xh_mc t' = xh_mc t \<and> xh_recycle_nodes t'"
      using free_node_mc [OF rec] rec by (simp add: remove sfxhash_remove_def split: option.split)
    ultimately show ?thesis by (intro keep) simp_all
  next
    case make_empty
    then show ?thesis using sfxhash_make_empty_aux [OF wf] make_empty_mc [OF rec] by (intro keep) auto
  next
    case (set_max m)
    then show ?thesis using inv by (simp add: sfxhash_set_max_nodes_def xh_inv_def xh_wf_counters)
  next
    case (splaymode i)
    then show ?thesis using inv by (simp add: sfxhash_splaymode_def xh_inv_def xh_wf_counters)
  next
    case (move n)
    then show ?thesis
      using gmovetofront_wf [OF wf] rec
      by (intro keep) (auto simp: sfxhash_gmovetofront_def sfxhash_glink_node_def sfxhash_gunlink_node_def)
  next
    case (put n v)
    then show ?thesis using xh_write_wf [OF wf] rec by (intro keep) (auto simp: xh_write_def)
  qed
qed

lemma xh_reachable_inv: "xh_reachable t \<Longrightarrow> xh_inv t"
proof (induction rule: xh_reachable.induct)
  case (new hash keycmp zero nrows ks ds maxmem anr anrfree usr t)
  then show ?case using xh_new_wf [OF new(1-3)] by (simp add: xh_inv_def)
next
  case (step t t')
  then show ?case by (blast intro: xh_step_inv)
qed

lemma xh_recovered:
  assumes "xh_wf t" and "xh_anrfree t = None" and "xh_datasize t \<noteq> 0"
    and "\<not> xh_room t" and "xh_anr_flag t" and "xh_alist t = al @ [(k0, d0)]"
    and "k \<notin> fst ` set (xh_alist t)"
  shows "\<exists>n t'. sfxhash_get_node t k = (Some n, t') \<and> xh_alist t' = (k, d0) # al \<and>
     hn_data (xh_nodes t' n) = d0"
proof -
  note wf = assms(1)
  have s: "xh_search t k = None"
  proof -
    have "k \<notin> set (map fst (xh_alist t))" using assms(7) by simp
    then show ?thesis by (auto simp: xh_search_None [OF wf] xh_alist_keys)
  qed
  obtain r t2 where new: "sfxhash_newnode (t\<lparr>xh_find_fail := xh_find_fail t + 1\<rparr>) = (r, t2)"
    by fastforce
  note m = xh_miss_frame [OF wf] and am = add_miss [OF wf s new]
  have al2: "xh_alist t2 = al"
    using newnode_lru(1) [OF m(1) new] m(2,4,5) assms(2,4,5,6) by (simp add: xh_frame_def)
  have gl: "xh_glist t \<noteq> []" and last: "hn_data (xh_nodes t (last (xh_glist t))) = d0"
  proof -
    show ne: "xh_glist t \<noteq> []" using assms(6) by (auto simp: xh_alist_def)
    have "last (xh_alist t) = xh_entry t (last (xh_glist t))" using ne by (simp add: xh_alist_def last_map)
    then show "hn_data (xh_nodes t (last (xh_glist t))) = d0" using assms(6) by (simp add: xh_entry_def)
  qed
  from m(1) new have r: "r = Some (last (xh_glist t), d0)"
  proof (cases rule: newnode_cases)
    case (anr n kk)
    have "anr_scan None (xh_nodes t) (rev (xh_glist t)) (xh_anr_tries t) = (Some n, kk)"
      using anr(4) assms(2) by simp
    then have "n = last (xh_glist t)" by (simp add: rev_last [OF gl])
    then show ?thesis using anr(5) last by simp
  next
    case (free n ns)
    then show ?thesis using assms(4) by (simp add: xh_room_def)
  next
    case (alloc mc b)
    then show ?thesis using assms(4) m(4) by simp
  next
    case (none kk)
    then show ?thesis using assms(2,5) gl by simp
  qed
  let ?t = "xh_insert t2 (last (xh_glist t)) k d0 (xh_row t2 k)"
  have "hn_data (xh_nodes ?t (last (xh_glist t))) = d0"
    by (simp add: xh_insert_def sfxhash_glink_node_def sfxhash_link_node_def Let_def)
  then show ?thesis using am(7,9) [OF r] al2 assms(3) by auto
qed

subsection \<open>Properties\<close>

text \<open>
  A small table for the witnesses: one row, room for two nodes of one byte each, recovery on.
\<close>

definition xh_small :: "(nat, nat) SFXHASH" where
  "xh_small = the (sfxhash_new (\<lambda>k. of_nat k) (\<lambda>a b. if a = b then 0 else 1) 0 1 1 1 148 True None False True)"

lemma xh_small_new:
  "sfxhash_new (\<lambda>k. of_nat k) (\<lambda>a b. if a = b then 0 else 1) 0 1 1 1 148 True None False True =
   Some (xh_small :: (nat, nat) SFXHASH)"
  by (simp add: xh_small_def sfxhash_new_def sfmemcap_alloc_def sfmemcap_init_def Let_def
      sfxhash_nearest_powerof2_def)

lemma xh_small_wf: "xh_wf xh_small"
  by (rule xh_new_wf(1) [OF xh_small_new]) simp_all

lemma xh_small_reachable: "xh_reachable xh_small"
  by (rule xh_reachable.new [OF xh_small_new]) simp_all



text \<open>
  C2: \<open>sfxhash_add\<close> refines insertion into a bounded least-recently-used list. A key that is
  present is only moved to the front (\<open>SFXHASH_INTABLE\<close>), whatever data comes with it; a new key
  goes to the front; when there is no memory and recovery is on, exactly the least recently used
  entry makes place for it; else the call fails with \<open>SFXHASH_NOMEM\<close> and changes nothing.
\<close>

theorem sfxhash_add_lru:
  assumes "xh_wf t" and "xh_anrfree t = None" and "xh_datasize t \<noteq> 0"
    and "sfxhash_add t k (Some d) = (st, t')"
  shows "xh_wf t' \<and> (st, xh_alist t') =
     lru_add (xh_splay t > 0) (xh_room t) (xh_anr_flag t) k (Some d) (xh_alist t)"
  using assms by (rule sfxhash_add_lru_aux)

theorem sfxhash_add_lru_witness:
  "xh_wf (snd (sfxhash_add xh_small 5 (Some 7))) \<and>
   (fst (sfxhash_add xh_small 5 (Some 7)), xh_alist (snd (sfxhash_add xh_small 5 (Some 7)))) =
     lru_add (xh_splay xh_small > 0) (xh_room xh_small) (xh_anr_flag xh_small) 5 (Some 7)
       (xh_alist xh_small)"
  by (rule sfxhash_add_lru [OF xh_small_wf _ _ prod.collapse [symmetric]])
    (use xh_new_wf(7,8) [OF xh_small_new] in simp_all)

text \<open>
  C3: \<open>sfxhash_remove\<close> takes exactly the given key out of the table and reports whether it was there.
\<close>

theorem sfxhash_remove_lookup:
  assumes "xh_wf t" and "sfxhash_remove t k = (st, t')"
  shows "xh_wf t' \<and> xh_lookup t' = (xh_lookup t)(k := None) \<and>
     st = (if xh_lookup t k = None then SFXHASH_ERR else SFXHASH_OK)"
  using assms by (rule sfxhash_remove_aux)

theorem sfxhash_remove_lookup_witness:
  "xh_wf xh_small \<and> xh_lookup xh_small = (xh_lookup xh_small)(5 := None) \<and>
     SFXHASH_ERR = (if xh_lookup xh_small 5 = None then SFXHASH_ERR else SFXHASH_OK)"
proof -
  have "xh_search xh_small 5 = None"
    using xh_new_wf(2) [OF xh_small_new] by (simp add: xh_search_None [OF xh_small_wf])
  then have "sfxhash_remove xh_small 5 = (SFXHASH_ERR, xh_small)" by (simp add: sfxhash_remove_def)
  then show ?thesis by (rule sfxhash_remove_lookup [OF xh_small_wf])
qed

text \<open>
  \<open>sfxhash_make_empty\<close> unlinks every node, whatever the table held: the contents are empty
  afterwards and the table is again well-formed.
\<close>

theorem sfxhash_make_empty_spec:
  assumes "xh_wf t"
  shows "xh_wf (snd (sfxhash_make_empty t)) \<and> xh_alist (snd (sfxhash_make_empty t)) = [] \<and>
     fst (sfxhash_make_empty t) = 0"
  using assms by (rule sfxhash_make_empty_aux)

theorem sfxhash_make_empty_spec_witness:
  "xh_wf (snd (sfxhash_make_empty xh_small)) \<and> xh_alist (snd (sfxhash_make_empty xh_small)) = [] \<and>
     fst (sfxhash_make_empty xh_small) = 0"
  by (rule sfxhash_make_empty_spec [OF xh_small_wf])

text \<open>
  when the table is full and recovery is on, \<open>sfxhash_get_node\<close> for a new key returns the
  node of the least recently used key with that key's datum still in it: the data area of a
  recycled node is not cleared.
\<close>

theorem sfxhash_get_node_stale:
  assumes "xh_wf t" and "xh_anrfree t = None" and "xh_datasize t \<noteq> 0"
    and "\<not> xh_room t" and "xh_anr_flag t" and "xh_alist t = al @ [(k0, d0)]"
    and "k \<notin> fst ` set (xh_alist t)"
  shows "\<exists>n t'. sfxhash_get_node t k = (Some n, t') \<and> xh_alist t' = (k, d0) # al \<and>
     hn_data (xh_nodes t' n) = d0"
  using assms by (rule xh_recovered)

definition xh_full :: "(nat, nat) SFXHASH" where
  "xh_full = snd (sfxhash_add (snd (sfxhash_add xh_small 5 (Some 7))) 6 (Some 8))"

lemma xh_full_reachable: "xh_reachable xh_full"
  unfolding xh_full_def
  by (intro xh_reachable.step [OF _ xh_step.add] xh_small_reachable)

lemmas xh_eval = sfxhash_new_def sfmemcap_alloc_def sfmemcap_init_def sfxhash_nearest_powerof2_def
  sfxhash_add_def sfxhash_find_node_row_def xh_search_def xh_row_def sfxhash_newnode_def
  sfxhash_get_free_node_def s_alloc_def xh_insert_def sfxhash_glink_node_def sfxhash_link_node_def
  movetofront_def sfxhash_gmovetofront_def sfxhash_gunlink_node_def sfxhash_unlink_node_def
  xh_alist_def xh_entry_def xh_room_def Let_def sfxhash_status

definition xh_sample ::
  "u64 \<Rightarrow> nat list \<Rightarrow> (nat \<Rightarrow> (nat, nat) SFXHASH_NODE) \<Rightarrow> (nat \<Rightarrow> u64) \<Rightarrow> (nat, nat) SFXHASH" where
  "xh_sample used ns nodes blk =
     (let n = length ns in
      \<lparr>xh_hash = of_nat, xh_keycmp = (\<lambda>a b. if a = b then 0 else 1), xh_keysize = 1, xh_datasize = 1,
       xh_table = [ns], xh_nrows = 1, xh_count = of_nat n, xh_crow = 0, xh_cnode = None,
       xh_splay = 1, xh_max_nodes = 0,
       xh_mc = \<lparr>mc_memused = used, mc_memcap = 148, mc_nblocks = of_nat (Suc n)\<rparr>,
       xh_overhead_bytes = 16, xh_overhead_blocks = 1, xh_find_fail = of_nat n, xh_find_success = 0,
       xh_glist = ns, xh_flist = [], xh_recycle_nodes = True, xh_anr_tries = 0, xh_anr_count = 0,
       xh_anr_flag = True, xh_anrfree = None, xh_usrfree = False, xh_freed = [], xh_zero = 0,
       xh_nodes = nodes, xh_blocks = blk, xh_next = n\<rparr>)"

lemma xh_small_eq: "xh_small = xh_sample 16 [] (\<lambda>_. undefined) (\<lambda>_. 0)"
  by (simp add: xh_small_def xh_eval xh_sample_def word_sless_alt)

lemma xh_sample_add:
  "snd (sfxhash_add (xh_sample 16 [] nodes blk) 5 (Some 7)) =
     xh_sample 82 [0] (nodes(0 := \<lparr>hn_key = 5, hn_data = Some 7, hn_rindex = 0\<rparr>)) (blk(0 := 66))"
  "hn_key (nodes 0) = 5 \<Longrightarrow> snd (sfxhash_add (xh_sample 82 [0] nodes blk) 6 (Some 8)) =
     xh_sample 148 [1, 0] (nodes(1 := \<lparr>hn_key = 6, hn_data = Some 8, hn_rindex = 0\<rparr>)) (blk(1 := 66))"
  by (simp_all add: xh_eval xh_sample_def)

lemma xh_full_facts:
  "xh_alist xh_full = [(6, Some 8), (5, Some 7)]" "\<not> xh_room xh_full" "xh_anr_flag xh_full"
  "xh_datasize xh_full \<noteq> 0" "xh_anrfree xh_full = None"
  unfolding xh_full_def xh_small_eq
  by (simp_all add: xh_sample_add) (simp_all add: xh_eval xh_sample_def)

theorem sfxhash_get_node_stale_witness:
  "\<exists>n t'. sfxhash_get_node xh_full 9 = (Some n, t') \<and> xh_alist t' = [(9, Some 7), (6, Some 8)] \<and>
     hn_data (xh_nodes t' n) = Some 7"
proof (rule sfxhash_get_node_stale)
  show "xh_wf xh_full" using xh_reachable_inv [OF xh_full_reachable] by (simp add: xh_inv_def)
  show "xh_alist xh_full = [(6, Some 8)] @ [(5, Some 7)]" by (simp add: xh_full_facts)
  show "9 \<notin> fst ` set (xh_alist xh_full)" by (simp add: xh_full_facts)
qed (rule xh_full_facts)+

text \<open>
  the row count of a new table is the least power of two that is at least the number asked for
  (for any number up to \<open>2 ^ 30\<close>), so that masking a hash with \<open>nrows - 1\<close> reaches every row.
\<close>

theorem sfxhash_nearest_powerof2_bounds:
  assumes "0 < unat n" and "unat n \<le> 2 ^ 30"
  shows "\<exists>e\<le>30. unat (sfxhash_nearest_powerof2 n) = 2 ^ e \<and> unat n \<le> 2 ^ e \<and> 2 ^ e < 2 * unat n"
  using assms by (rule nearest_powerof2_aux)

theorem sfxhash_nearest_powerof2_bounds_witness:
  "\<exists>e\<le>30. unat (sfxhash_nearest_powerof2 1000) = 2 ^ e \<and> unat (1000 :: s32) \<le> 2 ^ e \<and>
     2 ^ e < 2 * unat (1000 :: s32)"
  by (rule sfxhash_nearest_powerof2_bounds) simp_all

end
