(* ===== verification/SfThd.thy ===== *)
theory SfThd
  imports SfXHash
begin

text \<open>
  Event filters, suppression and detection filters: \<open>src/src/sfutil/sfthd.c\<close> with its users
  \<open>src/src/sfthreshold.c\<close> and \<open>src/src/detection_filter.c\<close>. The permanent objects (\<open>THD_NODE\<close>) are
  named by numbers in a store, since the array of a policy may hold the same object under every
  generator id; a \<open>SFGHASH\<close> of the configuration is read as the partial map it implements, and
  an \<open>IpAddrSet\<close> as its membership test. Memory from \<open>calloc\<close> is taken to be available. The
  policy id (\<open>getParserPolicy\<close>, \<open>getRuntimePolicy\<close>) is an argument. \<open>None\<close> is the result of a
  call whose behaviour is undefined in C (an access out of bounds or through NULL).
\<close>

subsection \<open>Objects\<close>

definition THD_MAX_GENID :: nat where "THD_MAX_GENID = 8129"
definition THD_NO_THRESHOLD :: s32 where "THD_NO_THRESHOLD = -1"
definition THD_TOO_MANY_THDOBJ :: int where "THD_TOO_MANY_THDOBJ = -15"
definition THD_PRIORITY_SUPPRESS :: int where "THD_PRIORITY_SUPPRESS = 1000000"

datatype thd_type = THD_TYPE_LIMIT | THD_TYPE_THRESHOLD | THD_TYPE_BOTH | THD_TYPE_SUPPRESS | THD_TYPE_DETECT

datatype thd_track = THD_TRK_NONE | THD_TRK_SRC | THD_TRK_DST

record THD_IP_NODE =
  in_count :: u32
  in_prev :: u32
  in_tstart :: u64
  in_tlast :: u64

record THD_IP_NODE_KEY =
  nk_thd_id :: int
  nk_ip :: sfip_t
  nk_policyId :: u32

record THD_IP_GNODE_KEY =
  gk_gen_id :: u32
  gk_sig_id :: u32
  gk_ip :: sfip_t
  gk_policyId :: u32

record THD_NODE =
  td_thd_id :: int
  td_gen_id :: u32
  td_sig_id :: u32
  td_tracking :: thd_track
  td_type :: thd_type
  td_priority :: int
  td_count :: s32
  td_seconds :: u32
  td_filtered :: u64
  td_ip_address :: "(sfip_t \<Rightarrow> bool) option"

record THD_ITEM =
  ti_policyId :: u32
  ti_gen_id :: u32
  ti_sig_id :: u32
  ti_node_list :: "nat list"

record THDX_STRUCT =
  tx_gen_id :: u32
  tx_sig_id :: u32
  tx_type :: thd_type
  tx_tracking :: thd_track
  tx_priority :: int
  tx_count :: s32
  tx_seconds :: u32
  tx_ip_address :: "(sfip_t \<Rightarrow> bool) option"

record ThresholdObjects =
  to_count :: int
  to_sfthd_array :: "nat \<Rightarrow> (u32 \<times> u32 \<rightharpoonup> THD_ITEM) option"  \<comment> \<open>by gen id; key: sig id, policy\<close>
  to_sfthd_garray :: "u32 \<Rightarrow> nat option list option"           \<comment> \<open>by policy; \<open>THD_MAX_GENID\<close> slots\<close>
  to_nodes :: "nat \<Rightarrow> THD_NODE"
  to_next :: nat

type_synonym thd_local = "(THD_IP_NODE_KEY, THD_IP_NODE) SFXHASH"
type_synonym thd_global = "(THD_IP_GNODE_KEY, THD_IP_NODE) SFXHASH"

record THD_STRUCT =
  ts_ip_nodes :: thd_local
  ts_ip_gnodes :: "thd_global option"

subsection \<open>Creation\<close>

definition thd_zero :: THD_IP_NODE where
  "thd_zero = \<lparr>in_count = 0, in_prev = 0, in_tstart = 0, in_tlast = 0\<rparr>"

text \<open>The hash and comparison operators of the table come from \<open>sfhashfcn_new\<close> (see \<open>sfxhash_new\<close>).\<close>

definition sfthd_new_hash ::
  "('k \<Rightarrow> u32) \<Rightarrow> ('k \<Rightarrow> 'k \<Rightarrow> int) \<Rightarrow> u32 \<Rightarrow> u64 \<Rightarrow> u64 \<Rightarrow> ('k, THD_IP_NODE) SFXHASH option" where
  "sfthd_new_hash hash keycmp nbytes0 key data =
     (let size = key + data;
          nbytes = (if ucast nbytes0 < size then ucast size else nbytes0);
          nrows = ucast (ucast nbytes div size)
      in sfxhash_new hash keycmp thd_zero nrows (ucast key) (ucast data) (ucast nbytes) True None False True)"

definition sfthd_local_new ::
  "(THD_IP_NODE_KEY \<Rightarrow> u32) \<Rightarrow> (THD_IP_NODE_KEY \<Rightarrow> THD_IP_NODE_KEY \<Rightarrow> int) \<Rightarrow> u32 \<Rightarrow> thd_local option" where
  "sfthd_local_new hash keycmp bytes = sfthd_new_hash hash keycmp bytes 32 24"

definition sfthd_global_new ::
  "(THD_IP_GNODE_KEY \<Rightarrow> u32) \<Rightarrow> (THD_IP_GNODE_KEY \<Rightarrow> THD_IP_GNODE_KEY \<Rightarrow> int) \<Rightarrow> u32 \<Rightarrow> thd_global option" where
  "sfthd_global_new hash keycmp bytes = sfthd_new_hash hash keycmp bytes 36 24"

definition sfthd_new ::
  "(THD_IP_NODE_KEY \<Rightarrow> u32) \<Rightarrow> (THD_IP_NODE_KEY \<Rightarrow> THD_IP_NODE_KEY \<Rightarrow> int) \<Rightarrow>
   (THD_IP_GNODE_KEY \<Rightarrow> u32) \<Rightarrow> (THD_IP_GNODE_KEY \<Rightarrow> THD_IP_GNODE_KEY \<Rightarrow> int) \<Rightarrow>
   u32 \<Rightarrow> u32 \<Rightarrow> THD_STRUCT option" where
  "sfthd_new lhash lcmp ghash gcmp lbytes gbytes =
     (case sfthd_local_new lhash lcmp lbytes of
        None \<Rightarrow> None
      | Some l \<Rightarrow>
          (if gbytes = 0 then Some \<lparr>ts_ip_nodes = l, ts_ip_gnodes = None\<rparr>
           else case sfthd_global_new ghash gcmp gbytes of
             None \<Rightarrow> None
           | Some g \<Rightarrow> Some \<lparr>ts_ip_nodes = l, ts_ip_gnodes = Some g\<rparr>))"

definition sfthd_objs_new :: ThresholdObjects where
  "sfthd_objs_new =
     \<lparr>to_count = 0, to_sfthd_array = (\<lambda>_. None), to_sfthd_garray = (\<lambda>_. None),
      to_nodes = (\<lambda>_. undefined), to_next = 0\<rparr>"

definition sfthd_create_rule_threshold :: "int \<Rightarrow> thd_track \<Rightarrow> thd_type \<Rightarrow> s32 \<Rightarrow> u32 \<Rightarrow> THD_NODE" where
  "sfthd_create_rule_threshold thd_id tracking type count seconds =
     \<lparr>td_thd_id = thd_id, td_gen_id = 0, td_sig_id = 0, td_tracking = tracking, td_type = type,
      td_priority = 0, td_count = count, td_seconds = seconds, td_filtered = 0, td_ip_address = None\<rparr>"

text \<open>
  The walk of \<open>sfthd_create_threshold_local\<close> over an item's list: before the first object of
  lower priority, else at the tail (an empty list gets the object as its head).
\<close>

fun thd_insert :: "(nat \<Rightarrow> THD_NODE) \<Rightarrow> nat \<Rightarrow> nat list \<Rightarrow> nat list" where
  "thd_insert nodes n [] = [n]"
| "thd_insert nodes n (m # ms) =
     (if td_priority (nodes n) > td_priority (nodes m) then n # m # ms
      else m # thd_insert nodes n ms)"

text \<open>The hash of a generator and the item of a key in it, made when they are not there yet.\<close>

definition thd_gen_hash :: "ThresholdObjects \<Rightarrow> nat \<Rightarrow> u32 \<times> u32 \<rightharpoonup> THD_ITEM" where
  "thd_gen_hash objs g = (case to_sfthd_array objs g of None \<Rightarrow> Map.empty | Some m \<Rightarrow> m)"

definition thd_item_of :: "u32 \<Rightarrow> ThresholdObjects \<Rightarrow> THD_NODE \<Rightarrow> THD_ITEM" where
  "thd_item_of policy_id objs config =
     (case thd_gen_hash objs (unat (td_gen_id config)) (td_sig_id config, policy_id) of
        None \<Rightarrow> \<lparr>ti_policyId = policy_id, ti_gen_id = td_gen_id config,
                 ti_sig_id = td_sig_id config, ti_node_list = []\<rparr>
      | Some i \<Rightarrow> i)"

definition thd_put_item :: "u32 \<Rightarrow> THD_NODE \<Rightarrow> THD_ITEM \<Rightarrow> ThresholdObjects \<Rightarrow> ThresholdObjects" where
  "thd_put_item policy_id config item objs =
     (let g = unat (td_gen_id config)
      in objs\<lparr>to_sfthd_array := (to_sfthd_array objs)
                (g := Some ((thd_gen_hash objs g)((td_sig_id config, policy_id) \<mapsto> item)))\<rparr>)"

text \<open>The copy of the parameters, with the priority kept below that of suppressions.\<close>

definition thd_object :: "THD_NODE \<Rightarrow> THD_NODE" where
  "thd_object config =
     config\<lparr>td_filtered := 0,
            td_priority := (if td_type config = THD_TYPE_SUPPRESS then THD_PRIORITY_SUPPRESS
                            else if td_priority config \<ge> THD_PRIORITY_SUPPRESS
                            then THD_PRIORITY_SUPPRESS - 1 else td_priority config)\<rparr>"

definition sfthd_create_threshold_local ::
  "u32 \<Rightarrow> ThresholdObjects \<Rightarrow> THD_NODE \<Rightarrow> int \<times> ThresholdObjects" where
  "sfthd_create_threshold_local policy_id objs config =
     (if THD_MAX_GENID \<le> unat (td_gen_id config) then (-1, objs)
      else
        (let item = thd_item_of policy_id objs config; o1 = thd_put_item policy_id config item objs
         in if ti_node_list item \<noteq> [] \<and>
               td_type (to_nodes objs (last (ti_node_list item))) \<noteq> THD_TYPE_SUPPRESS \<and>
               td_type config \<noteq> THD_TYPE_SUPPRESS
            then (THD_TOO_MANY_THDOBJ, o1)
            else
              (let n = to_next o1;
                   o2 = o1\<lparr>to_nodes := (to_nodes o1)(n := thd_object config), to_next := n + 1\<rparr>
               in (0, thd_put_item policy_id config
                        (item\<lparr>ti_node_list := thd_insert (to_nodes o2) n (ti_node_list item)\<rparr>) o2))))"

text \<open>
  There is no test of \<open>gen_id\<close> against \<open>THD_MAX_GENID\<close>: a larger one reads and writes past the
  array, which is \<open>None\<close> here.
\<close>

definition sfthd_create_threshold_global ::
  "u32 \<Rightarrow> ThresholdObjects \<Rightarrow> THD_NODE \<Rightarrow> (int \<times> ThresholdObjects) option" where
  "sfthd_create_threshold_global policy_id objs config =
     (let row = (case to_sfthd_garray objs policy_id of
                   None \<Rightarrow> replicate THD_MAX_GENID None | Some r \<Rightarrow> r);
          o1 = objs\<lparr>to_sfthd_garray := (to_sfthd_garray objs)(policy_id := Some row)\<rparr>;
          g = unat (td_gen_id config);
          n = to_next objs;
          o2 = o1\<lparr>to_nodes := (to_nodes o1)(n := config\<lparr>td_filtered := 0\<rparr>), to_next := n + 1\<rparr>
      in if td_gen_id config = 0
         then (if \<exists>s\<in>set row. s \<noteq> None then Some (THD_TOO_MANY_THDOBJ, o1)
               else Some (0, o2\<lparr>to_sfthd_garray := (to_sfthd_garray o2)
                                  (policy_id := Some (replicate THD_MAX_GENID (Some n)))\<rparr>))
         else if length row \<le> g then None
         else if row ! g \<noteq> None then Some (THD_TOO_MANY_THDOBJ, o1)
         else Some (0, o2\<lparr>to_sfthd_garray := (to_sfthd_garray o2)
                            (policy_id := Some (row[g := Some n]))\<rparr>))"

definition sfthd_create_threshold ::
  "u32 \<Rightarrow> ThresholdObjects \<Rightarrow> u32 \<Rightarrow> u32 \<Rightarrow> thd_track \<Rightarrow> thd_type \<Rightarrow> int \<Rightarrow> s32 \<Rightarrow> u32 \<Rightarrow>
   (sfip_t \<Rightarrow> bool) option \<Rightarrow> (int \<times> ThresholdObjects) option" where
  "sfthd_create_threshold policyId objs0 gen_id sig_id tracking type priority count seconds ip_address =
     (let objs1 = objs0\<lparr>to_count := to_count objs0 + 1\<rparr>;
          node = \<lparr>td_thd_id = to_count objs1, td_gen_id = gen_id, td_sig_id = sig_id,
                  td_tracking = tracking, td_type = type, td_priority = priority, td_count = count,
                  td_seconds = seconds, td_filtered = 0, td_ip_address = ip_address\<rparr>;
          objs = (if to_sfthd_garray objs1 policyId = None
                  then objs1\<lparr>to_sfthd_garray := (to_sfthd_garray objs1)
                               (policyId := Some (replicate THD_MAX_GENID None))\<rparr>
                  else objs1)
      in if sig_id = 0 then sfthd_create_threshold_global policyId objs node
         else if gen_id = 0 then Some (-1, objs)
         else Some (sfthd_create_threshold_local policyId objs node))"

subsection \<open>Testing an event\<close>

definition thd_filtered :: "THD_NODE \<Rightarrow> THD_NODE" where
  "thd_filtered p = p\<lparr>td_filtered := td_filtered p + 1\<rparr>"

definition sfthd_test_suppress :: "THD_NODE \<Rightarrow> sfip_t \<Rightarrow> int \<times> THD_NODE" where
  "sfthd_test_suppress p ip =
     (if (case td_ip_address p of None \<Rightarrow> True | Some contains \<Rightarrow> contains ip)
      then (-1, thd_filtered p) else (1, p))"

definition sfthd_test_non_suppress ::
  "THD_NODE \<Rightarrow> THD_IP_NODE \<Rightarrow> u64 \<Rightarrow> int \<times> THD_NODE \<times> THD_IP_NODE" where
  "sfthd_test_non_suppress p ipn curtime =
     (let dt = (ucast (curtime - in_tstart ipn) :: u32) in
      case td_type p of
        THD_TYPE_DETECT \<Rightarrow>
          (let i1 = (if td_seconds p \<le> dt
                     then ipn\<lparr>in_tstart := curtime,
                             in_prev := (if td_seconds p < ucast (curtime - in_tlast ipn) then 0
                                         else in_count ipn - 1),
                             in_count := 1\<rparr>
                     else ipn);
               i2 = i1\<lparr>in_tlast := curtime\<rparr>
           in if td_count p <s in_count i2 \<or> td_count p <s in_prev i2 then (0, p, i2)
              else (-2, thd_filtered p, i2))
      | THD_TYPE_LIMIT \<Rightarrow>
          (let i1 = (if td_seconds p \<le> dt then ipn\<lparr>in_tstart := curtime, in_count := 1\<rparr> else ipn)
           in if in_count i1 \<le>s td_count p then (0, p, i1) else (-2, thd_filtered p, i1))
      | THD_TYPE_THRESHOLD \<Rightarrow>
          (let i1 = (if td_seconds p \<le> dt then ipn\<lparr>in_tstart := curtime, in_count := 1\<rparr> else ipn)
           in if td_count p \<le>s in_count i1 then (0, p, i1\<lparr>in_count := 0, in_tstart := curtime\<rparr>)
              else (-2, thd_filtered p, i1))
      | THD_TYPE_BOTH \<Rightarrow>
          (if td_seconds p \<le> dt
           then (-2, thd_filtered p, ipn\<lparr>in_tstart := curtime, in_count := 1\<rparr>)
           else if td_count p \<le>s in_count ipn
                then (if td_count p <s in_count ipn then (-2, thd_filtered p, ipn) else (0, p, ipn))
                else (-2, thd_filtered p, ipn))
      | THD_TYPE_SUPPRESS \<Rightarrow> (0, p, ipn))"

text \<open>
  The common part of the two tests: count the event of this key and decide. A datum that was just
  added is tested in the caller's own copy (\<open>data\<close>); what the test does to it is not stored.
\<close>

definition thd_count_event ::
  "('k, THD_IP_NODE) SFXHASH \<Rightarrow> THD_NODE \<Rightarrow> 'k \<Rightarrow> u64 \<Rightarrow> int \<times> THD_NODE \<times> ('k, THD_IP_NODE) SFXHASH" where
  "thd_count_event h p key curtime =
     (let data = \<lparr>in_count = 1, in_prev = 0, in_tstart = curtime, in_tlast = curtime\<rparr>;
          (status, h1) = sfxhash_add h key (Some data)
      in if status = SFXHASH_INTABLE
         then (let n = the (xh_cnode h1);
                   ipn = the (hn_data (xh_nodes h1 n));
                   (r, p', ipn') = sfthd_test_non_suppress p (ipn\<lparr>in_count := in_count ipn + 1\<rparr>) curtime
               in (r, p', xh_write h1 n ipn'))
         else if status \<noteq> SFXHASH_OK then (1, p, h1)
         else (let (r, p', _) = sfthd_test_non_suppress p data curtime in (r, p', h1)))"

definition sfthd_test_local ::
  "u32 \<Rightarrow> thd_local \<Rightarrow> THD_NODE \<Rightarrow> sfip_t \<Rightarrow> sfip_t \<Rightarrow> u64 \<Rightarrow> int \<times> THD_NODE \<times> thd_local" where
  "sfthd_test_local policy_id h p sip dip curtime =
     (if td_count p = THD_NO_THRESHOLD then (0, p, h)
      else
        (let ip = (if td_tracking p = THD_TRK_SRC then sip else dip) in
         if td_type p = THD_TYPE_SUPPRESS
         then (let (r, p') = sfthd_test_suppress p ip in (r, p', h))
         else thd_count_event h p
                \<lparr>nk_thd_id = td_thd_id p, nk_ip = ip, nk_policyId = policy_id\<rparr> curtime))"

definition sfthd_test_global ::
  "u32 \<Rightarrow> thd_global option \<Rightarrow> THD_NODE \<Rightarrow> u32 \<Rightarrow> u32 \<Rightarrow> sfip_t \<Rightarrow> sfip_t \<Rightarrow> u64 \<Rightarrow>
   (int \<times> THD_NODE \<times> thd_global option) option" where
  "sfthd_test_global policy_id gh p gen_id sig_id sip dip curtime =
     (let ip = (if td_tracking p = THD_TRK_SRC then sip else dip) in
      if td_type p = THD_TYPE_SUPPRESS
      then (let (r, p') = sfthd_test_suppress p ip in Some (r, p', gh))
      else (case gh of
              None \<Rightarrow> None
            | Some h \<Rightarrow>
                (let (r, p', h') = thd_count_event h p
                       \<lparr>gk_gen_id = td_gen_id p, gk_sig_id = sig_id, gk_ip = ip, gk_policyId = policy_id\<rparr>
                       curtime
                 in Some (r, p', Some h'))))"

definition sfthd_test_rule ::
  "u32 \<Rightarrow> thd_local option \<Rightarrow> THD_NODE option \<Rightarrow> sfip_t \<Rightarrow> sfip_t \<Rightarrow> u64 \<Rightarrow>
   int \<times> THD_NODE option \<times> thd_local option" where
  "sfthd_test_rule policy_id rule_hash node sip dip curtime =
     (case (rule_hash, node) of
        (Some h, Some p) \<Rightarrow>
          (let (status, p', h') = sfthd_test_local policy_id h p sip dip curtime
           in (if status < -1 then 1 else status, Some p', Some h'))
      | _ \<Rightarrow> (0, node, rule_hash))"

text \<open>
  The loop over an item's objects: \<open>Some r\<close> when an object decides (0 log, -1 suppressed,
  1 filtered), \<open>None\<close> when all of them say to keep looking.
\<close>

fun thd_test_list ::
  "u32 \<Rightarrow> nat list \<Rightarrow> (nat \<Rightarrow> THD_NODE) \<Rightarrow> thd_local \<Rightarrow> sfip_t \<Rightarrow> sfip_t \<Rightarrow> u64 \<Rightarrow>
   int option \<times> (nat \<Rightarrow> THD_NODE) \<times> thd_local" where
  "thd_test_list policy_id [] nodes h sip dip curtime = (None, nodes, h)"
| "thd_test_list policy_id (n # ns) nodes h sip dip curtime =
     (let (status, p', h') = sfthd_test_local policy_id h (nodes n) sip dip curtime;
          nodes' = nodes(n := p')
      in if status < 0 then (Some (if status < -1 then 1 else -1), nodes', h')
         else if status = 0 then (Some 0, nodes', h')
         else thd_test_list policy_id ns nodes' h' sip dip curtime)"

definition thd_global_test ::
  "u32 \<Rightarrow> ThresholdObjects \<Rightarrow> THD_STRUCT \<Rightarrow> u32 \<Rightarrow> u32 \<Rightarrow> sfip_t \<Rightarrow> sfip_t \<Rightarrow> u64 \<Rightarrow>
   (int \<times> ThresholdObjects \<times> THD_STRUCT) option" where
  "thd_global_test policy_id objs thd gen_id sig_id sip dip curtime =
     (case Option.bind (to_sfthd_garray objs policy_id) (\<lambda>row. row ! unat gen_id) of
        None \<Rightarrow> Some (0, objs, thd)
      | Some n \<Rightarrow>
          (case sfthd_test_global policy_id (ts_ip_gnodes thd) (to_nodes objs n) gen_id sig_id
                  sip dip curtime of
             None \<Rightarrow> None
           | Some (status, p', gh') \<Rightarrow>
               Some (if status < 0 then (if status < -1 then 1 else -1) else 0,
                     objs\<lparr>to_nodes := (to_nodes objs)(n := p')\<rparr>, thd\<lparr>ts_ip_gnodes := gh'\<rparr>)))"

definition sfthd_test_threshold ::
  "u32 \<Rightarrow> ThresholdObjects \<Rightarrow> THD_STRUCT \<Rightarrow> u32 \<Rightarrow> u32 \<Rightarrow> sfip_t \<Rightarrow> sfip_t \<Rightarrow> u64 \<Rightarrow>
   (int \<times> ThresholdObjects \<times> THD_STRUCT) option" where
  "sfthd_test_threshold policy_id objs thd gen_id sig_id sip dip curtime =
     (if THD_MAX_GENID \<le> unat gen_id then Some (0, objs, thd)
      else
        (case Option.bind (to_sfthd_array objs (unat gen_id)) (\<lambda>m. m (sig_id, policy_id)) of
           None \<Rightarrow> thd_global_test policy_id objs thd gen_id sig_id sip dip curtime
         | Some item \<Rightarrow>
             (let (r, nodes', h') = thd_test_list policy_id (ti_node_list item) (to_nodes objs)
                                     (ts_ip_nodes thd) sip dip curtime;
                  objs' = objs\<lparr>to_nodes := nodes'\<rparr>; thd' = thd\<lparr>ts_ip_nodes := h'\<rparr>
              in case r of
                   Some status \<Rightarrow> Some (status, objs', thd')
                 | None \<Rightarrow> thd_global_test policy_id objs' thd' gen_id sig_id sip dip curtime)))"

subsection \<open>Event filters of a configuration (sfthreshold.c)\<close>

record ThresholdConfig =
  tc_enabled :: bool
  tc_memcap :: s32
  tc_thd_objs :: ThresholdObjects

text \<open>The statics of the file: the run-time tables and the answer kept for the current event.\<close>

record thr_state =
  th_runtime :: "THD_STRUCT option"
  th_checked :: bool
  th_answer :: int

definition ThresholdConfigNew :: ThresholdConfig where
  "ThresholdConfigNew = \<lparr>tc_enabled = True, tc_memcap = 1024 * 1024, tc_thd_objs = sfthd_objs_new\<rparr>"

definition sfthreshold_create ::
  "(THD_IP_NODE_KEY \<Rightarrow> u32) \<Rightarrow> (THD_IP_NODE_KEY \<Rightarrow> THD_IP_NODE_KEY \<Rightarrow> int) \<Rightarrow>
   (THD_IP_GNODE_KEY \<Rightarrow> u32) \<Rightarrow> (THD_IP_GNODE_KEY \<Rightarrow> THD_IP_GNODE_KEY \<Rightarrow> int) \<Rightarrow>
   u32 \<Rightarrow> ThresholdConfig option \<Rightarrow> THDX_STRUCT \<Rightarrow> thr_state \<Rightarrow>
   (int \<times> ThresholdConfig option \<times> thr_state) option" where
  "sfthreshold_create lhash lcmp ghash gcmp policyId config thdx st =
     (case config of
        None \<Rightarrow> Some (-1, None, st)
      | Some tc \<Rightarrow>
          (if \<not> tc_enabled tc then Some (0, Some tc, st)
           else
             (let rt = (case th_runtime st of
                          None \<Rightarrow> sfthd_new lhash lcmp ghash gcmp (tc_memcap tc) (tc_memcap tc)
                        | Some thd \<Rightarrow> Some thd);
                  st1 = st\<lparr>th_runtime := rt\<rparr>
              in if rt = None then Some (-1, Some tc, st1)
                 else (case sfthd_create_threshold policyId (tc_thd_objs tc) (tx_gen_id thdx)
                              (tx_sig_id thdx) (tx_tracking thdx) (tx_type thdx) (tx_priority thdx)
                              (tx_count thdx) (tx_seconds thdx) (tx_ip_address thdx) of
                         None \<Rightarrow> None
                       | Some (r, objs) \<Rightarrow> Some (r, Some (tc\<lparr>tc_thd_objs := objs\<rparr>), st1)))))"

definition sfthreshold_test ::
  "u32 \<Rightarrow> ThresholdConfig option \<Rightarrow> thr_state \<Rightarrow> u32 \<Rightarrow> u32 \<Rightarrow> sfip_t \<Rightarrow> sfip_t \<Rightarrow> u64 \<Rightarrow>
   (int \<times> ThresholdConfig option \<times> thr_state) option" where
  "sfthreshold_test policy_id config st gen_id sig_id sip dip curtime =
     (case config of
        None \<Rightarrow> Some (0, config, st)
      | Some tc \<Rightarrow>
          (if \<not> tc_enabled tc then Some (0, config, st)
           else if th_checked st then Some (th_answer st, config, st)
           else
             (case th_runtime st of
                None \<Rightarrow> Some (0, config, st\<lparr>th_checked := True, th_answer := 0\<rparr>)
              | Some thd \<Rightarrow>
                  (case sfthd_test_threshold policy_id (tc_thd_objs tc) thd gen_id sig_id sip dip curtime of
                     None \<Rightarrow> None
                   | Some (r, objs, thd') \<Rightarrow>
                       Some (r, Some (tc\<lparr>tc_thd_objs := objs\<rparr>),
                             st\<lparr>th_runtime := Some thd', th_checked := True, th_answer := r\<rparr>)))))"

definition sfthreshold_reset :: "thr_state \<Rightarrow> thr_state" where
  "sfthreshold_reset st = st\<lparr>th_checked := False\<rparr>"

definition sfthreshold_reset_active :: "thr_state \<Rightarrow> thr_state" where
  "sfthreshold_reset_active st =
     (case th_runtime st of
        None \<Rightarrow> st
      | Some thd \<Rightarrow>
          st\<lparr>th_runtime := Some (thd\<lparr>
               ts_ip_nodes := snd (sfxhash_make_empty (ts_ip_nodes thd)),
               ts_ip_gnodes := map_option (\<lambda>g. snd (sfxhash_make_empty g)) (ts_ip_gnodes thd)\<rparr>)\<rparr>)"

subsection \<open>Detection filters (detection_filter.c)\<close>

record DetectionFilterConfig =
  df_count :: int
  df_memcap :: s32
  df_enabled :: bool

definition DetectionFilterConfigNew :: DetectionFilterConfig where
  "DetectionFilterConfigNew = \<lparr>df_count = 0, df_memcap = 1024 * 1024, df_enabled = True\<rparr>"

definition detection_filter_create ::
  "(THD_IP_NODE_KEY \<Rightarrow> u32) \<Rightarrow> (THD_IP_NODE_KEY \<Rightarrow> THD_IP_NODE_KEY \<Rightarrow> int) \<Rightarrow>
   DetectionFilterConfig option \<Rightarrow> THDX_STRUCT \<Rightarrow> thd_local option \<Rightarrow>
   THD_NODE option \<times> DetectionFilterConfig option \<times> thd_local option" where
  "detection_filter_create hash keycmp config thdx dhash =
     (case config of
        None \<Rightarrow> (None, config, dhash)
      | Some df \<Rightarrow>
          (if \<not> df_enabled df then (None, config, dhash)
           else
             (let dhash' = (case dhash of
                              None \<Rightarrow> sfthd_local_new hash keycmp (df_memcap df)
                            | Some h \<Rightarrow> Some h)
              in if dhash' = None then (None, config, dhash')
                 else (let df' = df\<lparr>df_count := df_count df + 1\<rparr>
                       in (Some (sfthd_create_rule_threshold (df_count df') (tx_tracking thdx)
                                   (tx_type thdx) (tx_count thdx) (tx_seconds thdx)),
                           Some df', dhash')))))"

definition detection_filter_test ::
  "u32 \<Rightarrow> thd_local option \<Rightarrow> THD_NODE option \<Rightarrow> sfip_t \<Rightarrow> sfip_t \<Rightarrow> u64 \<Rightarrow>
   int \<times> THD_NODE option \<times> thd_local option" where
  "detection_filter_test policy_id dhash pv sip dip curtime =
     (case pv of
        None \<Rightarrow> (0, None, dhash)
      | Some _ \<Rightarrow> sfthd_test_rule policy_id dhash pv sip dip curtime)"

definition detection_filter_reset_active :: "thd_local option \<Rightarrow> thd_local option" where
  "detection_filter_reset_active dhash = map_option (\<lambda>h. snd (sfxhash_make_empty h)) dhash"

subsection \<open>Counting the events of one address\<close>

text \<open>
  \<open>thd_react\<close> is what an object decides from the datum kept for a key, and the datum kept next;
  \<open>thd_count_event_hit\<close> and \<open>thd_count_event_new\<close> say that the table implements it.
\<close>

definition thd_fresh :: "u64 \<Rightarrow> THD_IP_NODE" where
  "thd_fresh t = \<lparr>in_count = 1, in_prev = 0, in_tstart = t, in_tlast = t\<rparr>"

definition thd_react :: "THD_NODE \<Rightarrow> THD_IP_NODE option \<Rightarrow> u64 \<Rightarrow> int \<times> THD_IP_NODE" where
  "thd_react p v t =
     (case v of
        None \<Rightarrow> (fst (sfthd_test_non_suppress p (thd_fresh t) t), thd_fresh t)
      | Some ipn \<Rightarrow>
          (let (r, _, ipn') = sfthd_test_non_suppress p (ipn\<lparr>in_count := in_count ipn + 1\<rparr>) t
           in (r, ipn')))"

text \<open>Only the counter of filtered events of an object ever changes.\<close>

definition thd_same :: "THD_NODE \<Rightarrow> THD_NODE \<Rightarrow> bool" where
  "thd_same p q \<longleftrightarrow> p\<lparr>td_filtered := 0\<rparr> = q\<lparr>td_filtered := 0\<rparr>"

lemma thd_same_refl [simp]: "thd_same p p"
  by (simp add: thd_same_def)

lemma thd_same_fields:
  "thd_same p q \<Longrightarrow> td_thd_id p = td_thd_id q \<and> td_gen_id p = td_gen_id q \<and> td_sig_id p = td_sig_id q \<and>
     td_tracking p = td_tracking q \<and> td_type p = td_type q \<and> td_priority p = td_priority q \<and>
     td_count p = td_count q \<and> td_seconds p = td_seconds q \<and> td_ip_address p = td_ip_address q"
  by (cases p; cases q) (simp add: thd_same_def)

lemma thd_same_filtered [simp]: "thd_same p (thd_filtered p)"
  by (simp add: thd_same_def thd_filtered_def)

lemma thd_same_trans: "thd_same p q \<Longrightarrow> thd_same q r \<Longrightarrow> thd_same p r"
  by (simp add: thd_same_def)

lemma non_suppress_same:
  assumes "sfthd_test_non_suppress p i t = (r, p', i')"
  shows "thd_same p p'"
  using assms by (auto simp: sfthd_test_non_suppress_def Let_def split: thd_type.splits if_splits)

lemma non_suppress_cong:
  assumes "thd_same p q"
  shows "fst (sfthd_test_non_suppress p i t) = fst (sfthd_test_non_suppress q i t)"
    and "snd (snd (sfthd_test_non_suppress p i t)) = snd (snd (sfthd_test_non_suppress q i t))"
  using thd_same_fields [OF assms]
  by (simp_all add: sfthd_test_non_suppress_def Let_def split: thd_type.split)

lemma thd_react_cong: "thd_same p q \<Longrightarrow> thd_react p v t = thd_react q v t"
  by (simp add: thd_react_def non_suppress_cong case_prod_unfold Let_def split: option.split)

lemma thd_count_event_hit:
  assumes ok: "xh_store_ok h" and v: "xh_get h k = Some v"
    and ev: "thd_count_event h p k t = (r, p', h')"
  shows "xh_store_ok h'" and "thd_same p p'" and "r = fst (thd_react p (Some v) t)"
    and "xh_get h' = (xh_get h)(k \<mapsto> snd (thd_react p (Some v) t))"
proof -
  obtain st h1 where add: "sfxhash_add h k (Some (thd_fresh t)) = (st, h1)" by fastforce
  note hit = xh_add.touch_hit [OF ok v add]
  obtain r1 p1 i1 where test: "sfthd_test_non_suppress p (v\<lparr>in_count := in_count v + 1\<rparr>) t = (r1, p1, i1)"
    by (metis prod_cases3)
  have "(r, p', h') = (r1, p1, xh_write h1 (the (xh_cnode h1)) i1)"
    using ev add hit(1) hit(2) [unfolded xh_cur_def] test
    by (simp add: thd_count_event_def Let_def thd_fresh_def)
  then have eq: "r = r1" "p' = p1" "h' = xh_write h1 (the (xh_cnode h1)) i1" by simp_all
  have re: "thd_react p (Some v) t = (r1, i1)" by (simp add: thd_react_def test)
  show "xh_store_ok h'" unfolding eq by (rule hit(3))
  show "thd_same p p'" using non_suppress_same [OF test] by (simp add: eq)
  show "r = fst (thd_react p (Some v) t)" by (simp add: re eq)
  show "xh_get h' = (xh_get h)(k \<mapsto> snd (thd_react p (Some v) t))"
    unfolding re eq using hit(4) by simp
qed

lemma thd_count_event_new:
  assumes ok: "xh_store_ok h" and v: "xh_get h k = None"
    and ev: "thd_count_event h p k t = (r, p', h')"
  shows "xh_store_ok h'" and "thd_same p p'"
    and "xh_get h' k = Some (thd_fresh t) \<and> r = fst (thd_react p None t) \<or>
         xh_get h' k = None \<and> r = 1"
proof -
  obtain st h1 where add: "sfxhash_add h k (Some (thd_fresh t)) = (st, h1)" by fastforce
  note new = xh_add.touch_new [OF ok v add]
  obtain r1 p1 i1 where test: "sfthd_test_non_suppress p (thd_fresh t) t = (r1, p1, i1)"
    by (metis prod_cases3)
  have same: "thd_same p p1" by (rule non_suppress_same [OF test])
  have eq: "(r, p', h') = (if st = SFXHASH_OK then (r1, p1, h1) else (1, p, h1))"
    using ev add new(1) test by (simp add: thd_count_event_def Let_def thd_fresh_def split: if_splits)
  have "xh_store_ok h' \<and> thd_same p p' \<and>
      (xh_get h' k = Some (thd_fresh t) \<and> r = fst (thd_react p None t) \<or> xh_get h' k = None \<and> r = 1)"
    using eq new(2-4) same by (cases "st = SFXHASH_OK") (simp_all add: thd_react_def test)
  then show "xh_store_ok h'" "thd_same p p'"
    "xh_get h' k = Some (thd_fresh t) \<and> r = fst (thd_react p None t) \<or> xh_get h' k = None \<and> r = 1"
    by blast+
qed

text \<open>The decisions of one object on a sequence of events of one address pair.\<close>

fun thd_feed :: "u32 \<Rightarrow> thd_local \<Rightarrow> THD_NODE \<Rightarrow> sfip_t \<Rightarrow> sfip_t \<Rightarrow> u64 list \<Rightarrow> int list" where
  "thd_feed pid h p sip dip [] = []"
| "thd_feed pid h p sip dip (t # ts) =
     (let (r, p', h') = sfthd_test_local pid h p sip dip t in r # thd_feed pid h' p' sip dip ts)"

fun react_feed :: "THD_NODE \<Rightarrow> THD_IP_NODE \<Rightarrow> u64 list \<Rightarrow> int list" where
  "react_feed p v [] = []"
| "react_feed p v (t # ts) =
     fst (thd_react p (Some v) t) # react_feed p (snd (thd_react p (Some v) t)) ts"

definition thd_key :: "u32 \<Rightarrow> THD_NODE \<Rightarrow> sfip_t \<Rightarrow> sfip_t \<Rightarrow> THD_IP_NODE_KEY" where
  "thd_key pid p sip dip = \<lparr>nk_thd_id = td_thd_id p,
     nk_ip = (if td_tracking p = THD_TRK_SRC then sip else dip), nk_policyId = pid\<rparr>"

lemma thd_test_local_count:
  "td_count p \<noteq> THD_NO_THRESHOLD \<Longrightarrow> td_type p \<noteq> THD_TYPE_SUPPRESS \<Longrightarrow>
   sfthd_test_local pid h p sip dip t = thd_count_event h p (thd_key pid p sip dip) t"
  by (simp add: sfthd_test_local_def thd_key_def Let_def)

lemma thd_key_same: "thd_same p q \<Longrightarrow> thd_key pid p = thd_key pid q"
  using thd_same_fields by (fastforce simp: thd_key_def fun_eq_iff)

lemma thd_feed_hit:
  assumes "xh_store_ok h" and "xh_get h (thd_key pid p sip dip) = Some v"
    and "td_count p \<noteq> THD_NO_THRESHOLD" and "td_type p \<noteq> THD_TYPE_SUPPRESS"
    and "thd_same q p"
  shows "thd_feed pid h p sip dip ts = react_feed q v ts"
  using assms
proof (induction ts arbitrary: h p v)
  case Nil
  then show ?case by simp
next
  case (Cons t ts)
  obtain r p' h' where ev: "thd_count_event h p (thd_key pid p sip dip) t = (r, p', h')"
    by (metis prod_cases3)
  note step = thd_count_event_hit [OF Cons.prems(1,2) ev]
  have f: "td_count p' = td_count p" "td_type p' = td_type p"
    using thd_same_fields [OF step(2)] by simp_all
  have "thd_feed pid h' p' sip dip ts = react_feed q (snd (thd_react p (Some v) t)) ts"
  proof (rule Cons.IH [OF step(1)])
    show "xh_get h' (thd_key pid p' sip dip) = Some (snd (thd_react p (Some v) t))"
      using thd_key_same [OF step(2), of pid] by (simp add: step(4))
    show "thd_same q p'" by (rule thd_same_trans [OF Cons.prems(5) step(2)])
  qed (use f Cons.prems(3,4) in simp_all)
  then show ?case
    using Cons.prems(3,4) ev step(3) thd_react_cong [OF Cons.prems(5)]
    by (simp add: thd_test_local_count)
qed

lemma thd_feed_new:
  assumes ok: "xh_store_ok h" and none: "xh_get h (thd_key pid p sip dip) = None"
    and count: "td_count p \<noteq> THD_NO_THRESHOLD" "td_type p \<noteq> THD_TYPE_SUPPRESS"
    and room: "fst (sfxhash_add h (thd_key pid p sip dip) (Some (thd_fresh t))) = SFXHASH_OK"
  shows "thd_feed pid h p sip dip (t # ts) = fst (thd_react p None t) # react_feed p (thd_fresh t) ts"
proof -
  obtain r p' h' where ev: "thd_count_event h p (thd_key pid p sip dip) t = (r, p', h')"
    by (metis prod_cases3)
  note step = thd_count_event_new [OF ok none ev]
  obtain h1 where add: "sfxhash_add h (thd_key pid p sip dip) (Some (thd_fresh t)) = (SFXHASH_OK, h1)"
    using room by (metis prod.collapse)
  obtain r1 p1 i1 where test: "sfthd_test_non_suppress p (thd_fresh t) t = (r1, p1, i1)"
    by (metis prod_cases3)
  have "h' = h1" using ev add test by (simp add: thd_count_event_def thd_fresh_def Let_def sfxhash_status)
  then have "xh_get h' (thd_key pid p sip dip) = Some (thd_fresh t)"
    using xh_add.touch_new(3) [OF ok none add] by simp
  with step(3) have got: "xh_get h' (thd_key pid p' sip dip) = Some (thd_fresh t)"
    and r: "r = fst (thd_react p None t)" using thd_key_same [OF step(2), of pid] by simp_all
  have "td_count p' \<noteq> THD_NO_THRESHOLD" "td_type p' \<noteq> THD_TYPE_SUPPRESS"
    using count thd_same_fields [OF step(2)] by simp_all
  from thd_feed_hit [OF step(1) got this step(2)]
  show ?thesis using ev r count by (simp add: thd_test_local_count)
qed

text \<open>When the event number \<open>i\<close> (from 0) of a window is logged.\<close>

definition window_log :: "thd_type \<Rightarrow> nat \<Rightarrow> nat \<Rightarrow> bool" where
  "window_log ty c i =
     (case ty of THD_TYPE_LIMIT \<Rightarrow> i < c
      | THD_TYPE_THRESHOLD \<Rightarrow> Suc i mod c = 0
      | THD_TYPE_BOTH \<Rightarrow> Suc i = c
      | THD_TYPE_DETECT \<Rightarrow> c \<le> i
      | THD_TYPE_SUPPRESS \<Rightarrow> True)"

text \<open>The datum kept after \<open>i\<close> events of a window that began at \<open>t0\<close>, the last of them at \<open>t\<close>.\<close>

definition window_state :: "THD_NODE \<Rightarrow> u64 \<Rightarrow> nat \<Rightarrow> u64 \<Rightarrow> THD_IP_NODE \<Rightarrow> bool" where
  "window_state p t0 i t v \<longleftrightarrow>
     unat t0 \<le> unat (in_tstart v) \<and> unat (in_tstart v) \<le> unat t \<and> in_prev v = 0 \<and>
     (if td_type p = THD_TYPE_THRESHOLD
      then unat (in_count v) = i mod unat (td_count p) \<or> unat (td_count p) = 1 \<and> unat (in_count v) \<le> 1
      else unat (in_count v) = i)"

lemma Suc_mod_less:
  assumes "i mod c = r" and "0 < (c :: nat)"
  shows "Suc i mod c = (if Suc r = c then 0 else Suc r)"
  using assms by (simp add: mod_Suc)

lemma Suc_dvd_iff:
  assumes "0 < (c :: nat)"
  shows "c dvd Suc i \<longleftrightarrow> Suc (i mod c) = c"
proof -
  have "c dvd Suc i \<longleftrightarrow> Suc i mod c = 0" by (simp add: dvd_eq_mod_eq_0)
  also have "\<dots> \<longleftrightarrow> Suc (i mod c) = c" using assms by (simp add: mod_Suc)
  finally show ?thesis .
qed

lemma window_step:
  assumes st: "window_state p t0 i t' v" and i: "Suc i < 2 ^ 31"
    and c: "0 < unat (td_count p)" "unat (td_count p) < 2 ^ 31"
    and t: "unat t' \<le> unat t" "unat t - unat t0 < unat (td_seconds p)"
  shows "fst (thd_react p (Some v) t) = (if window_log (td_type p) (unat (td_count p)) i then 0 else -2)"
    and "window_state p t0 (Suc i) t (snd (thd_react p (Some v) t))"
proof -
  let ?c = "unat (td_count p)" and ?n = "unat (in_count v)"
  have ts: "unat t0 \<le> unat (in_tstart v)" "unat (in_tstart v) \<le> unat t" "in_prev v = 0"
    using st t(1) by (auto simp: window_state_def)
  have sec: "unat (td_seconds p) < 2 ^ 32" using unsigned_less [of "td_seconds p"] by simp
  have "unat (ucast (t - in_tstart v) :: u32) = unat t - unat (in_tstart v)"
    by (rule elapsed_unat [OF ts(2)]) (use ts t sec in linarith)
  then have dt: "\<not> td_seconds p \<le> ucast (t - in_tstart v)"
    using ts t by (simp add: word_le_nat_alt)
  have n: "?n \<le> i \<or> ?n \<le> 1"
    using st mod_less_eq_dividend [of i ?c] by (auto simp: window_state_def split: if_splits)
  then have n1: "unat (in_count v + 1) = Suc ?n" using i by (subst unat_plus_no_wrap) auto
  then have lt: "unat (in_count v + 1) < 2 ^ 31" using n i by auto
  note cmp = sless_unat [OF lt c(2)] sless_unat [OF c(2) lt]
  have z: "\<not> td_count p <s 0" using c sless_unat(1) [OF c(2), of 0] by simp
  show "fst (thd_react p (Some v) t) = (if window_log (td_type p) ?c i then 0 else -2)"
  proof (cases "td_type p")
    case THD_TYPE_THRESHOLD
    then show ?thesis
      using st c dt Suc_dvd_iff [of ?c i] mod_less_divisor [OF c(1), of i]
      by (auto simp: thd_react_def sfthd_test_non_suppress_def window_log_def window_state_def cmp n1
          dvd_eq_mod_eq_0 [symmetric] Let_def)
  qed (use st c dt z ts in \<open>auto simp: thd_react_def sfthd_test_non_suppress_def window_log_def window_state_def cmp n1\<close>)
  show "window_state p t0 (Suc i) t (snd (thd_react p (Some v) t))"
  proof (cases "td_type p")
    case THD_TYPE_THRESHOLD
    then show ?thesis
      using st c dt ts t(1) Suc_mod_less [of i ?c ?n] mod_less_divisor [OF c(1), of i]
      by (auto simp: thd_react_def sfthd_test_non_suppress_def window_state_def cmp n1 Let_def)
  qed (use st c dt z ts t(1) in \<open>auto simp: thd_react_def sfthd_test_non_suppress_def window_state_def cmp n1 Let_def\<close>)
qed

lemma window_feed:
  assumes "window_state p t0 i t' v" and "i + length ts < 2 ^ 31"
    and "0 < unat (td_count p)" "unat (td_count p) < 2 ^ 31"
    and "sorted (map unat (t' # ts))"
    and "\<forall>t\<in>set ts. unat t - unat t0 < unat (td_seconds p)"
  shows "react_feed p v ts =
     map (\<lambda>j. if window_log (td_type p) (unat (td_count p)) j then 0 else -2) [i..<i + length ts]"
  using assms
proof (induction ts arbitrary: i t' v)
  case Nil
  then show ?case by simp
next
  case (Cons t ts)
  have i: "Suc i < 2 ^ 31" using Cons.prems(2) by simp
  have t: "unat t' \<le> unat t" "unat t - unat t0 < unat (td_seconds p)" using Cons.prems(5,6) by simp_all
  note step = window_step [OF Cons.prems(1) i Cons.prems(3,4) t]
  have "react_feed p (snd (thd_react p (Some v) t)) ts =
     map (\<lambda>j. if window_log (td_type p) (unat (td_count p)) j then 0 else -2) [Suc i..<Suc i + length ts]"
    by (rule Cons.IH [OF step(2)]) (use Cons.prems in simp_all)
  moreover have "[i..<i + length (t # ts)] = i # [Suc i..<Suc i + length ts]"
    by (simp add: upt_conv_Cons del: upt_Suc)
  ultimately show ?case using step(1) by simp
qed

lemma window_first:
  assumes c: "0 < unat (td_count p)" "unat (td_count p) < 2 ^ 31" and s: "0 < unat (td_seconds p)"
  shows "fst (thd_react p None t) = (if window_log (td_type p) (unat (td_count p)) 0 then 0 else -2)"
    and "window_state p t 1 t (thd_fresh t)"
proof -
  have "\<not> td_seconds p \<le> 0" using s by (auto simp: word_le_nat_alt)
  then show "fst (thd_react p None t) = (if window_log (td_type p) (unat (td_count p)) 0 then 0 else -2)"
    using c sless_unat [of 1 "td_count p"] sless_unat [of "td_count p" 1] sless_unat [of "td_count p" 0]
    by (auto simp: thd_react_def sfthd_test_non_suppress_def window_log_def thd_fresh_def mod_Suc
        split: thd_type.split)
  show "window_state p t 1 t (thd_fresh t)"
    using c by (auto simp: window_state_def thd_fresh_def mod_if)
qed

subsection \<open>Events beyond a window\<close>

lemma both_one_step:
  assumes ty: "td_type p = THD_TYPE_BOTH" and c: "td_count p = 1"
    and n: "0 < unat (in_count v)" "Suc (unat (in_count v)) < 2 ^ 31"
  shows "fst (thd_react p (Some v) t) = -2"
    and "0 < unat (in_count (snd (thd_react p (Some v) t)))"
    and "unat (in_count (snd (thd_react p (Some v) t))) \<le> Suc (unat (in_count v))"
proof -
  have n1: "unat (in_count v + 1) = Suc (unat (in_count v))" using n by (subst unat_plus_no_wrap) auto
  have "1 <s in_count v + 1" using sless_unat(1) [of 1 "in_count v + 1"] n n1 by simp
  then show "fst (thd_react p (Some v) t) = -2"
    "0 < unat (in_count (snd (thd_react p (Some v) t)))"
    "unat (in_count (snd (thd_react p (Some v) t))) \<le> Suc (unat (in_count v))"
    using ty c n1 by (auto simp: thd_react_def sfthd_test_non_suppress_def Let_def)
qed

lemma both_one_feed:
  assumes "td_type p = THD_TYPE_BOTH" and "td_count p = 1"
    and "0 < unat (in_count v)" and "unat (in_count v) + length ts < 2 ^ 31"
  shows "react_feed p v ts = replicate (length ts) (-2)"
  using assms(3,4)
proof (induction ts arbitrary: v)
  case Nil
  then show ?case by simp
next
  case (Cons t ts)
  have "Suc (unat (in_count v)) < 2 ^ 31" using Cons.prems(2) by simp
  note step = both_one_step [OF assms(1,2) Cons.prems(1) this, of t]
  have "unat (in_count (snd (thd_react p (Some v) t))) + length ts < 2 ^ 31"
    using step(3) Cons.prems(2) by simp
  from Cons.IH [OF step(2) this] step(1) show ?case by simp
qed

subsection \<open>The configured objects\<close>

text \<open>
  The list of an item: suppressions first, all of the one top priority, then at most one object
  that limits the rate.
\<close>

definition thd_list_ok :: "(nat \<Rightarrow> THD_NODE) \<Rightarrow> nat list \<Rightarrow> bool" where
  "thd_list_ok nodes ns \<longleftrightarrow>
     (\<exists>ss rest. ns = ss @ rest \<and> length rest \<le> 1 \<and>
        (\<forall>n\<in>set ss. td_type (nodes n) = THD_TYPE_SUPPRESS \<and> td_priority (nodes n) = THD_PRIORITY_SUPPRESS) \<and>
        (\<forall>n\<in>set rest. td_type (nodes n) \<noteq> THD_TYPE_SUPPRESS \<and> td_priority (nodes n) < THD_PRIORITY_SUPPRESS))"

definition thd_objs_ok :: "ThresholdObjects \<Rightarrow> bool" where
  "thd_objs_ok objs \<longleftrightarrow>
     (\<forall>g m k item. to_sfthd_array objs g = Some m \<and> m k = Some item \<longrightarrow>
        thd_list_ok (to_nodes objs) (ti_node_list item) \<and> (\<forall>n\<in>set (ti_node_list item). n < to_next objs))"

lemma thd_objs_okD:
  "thd_objs_ok objs \<Longrightarrow> to_sfthd_array objs g = Some m \<Longrightarrow> m k = Some item \<Longrightarrow>
     thd_list_ok (to_nodes objs) (ti_node_list item) \<and> (\<forall>n\<in>set (ti_node_list item). n < to_next objs)"
  unfolding thd_objs_ok_def by blast

lemma thd_list_ok_cong:
  "thd_list_ok nodes ns \<Longrightarrow> \<forall>n\<in>set ns. td_type (nodes' n) = td_type (nodes n) \<and> td_priority (nodes' n) = td_priority (nodes n) \<Longrightarrow>
   thd_list_ok nodes' ns"
  unfolding thd_list_ok_def by (metis Un_iff set_append)

lemma thd_insert_top:
  assumes "\<forall>m\<in>set ss. \<not> td_priority (nodes n) > td_priority (nodes m)"
  shows "thd_insert nodes n (ss @ rest) = ss @ thd_insert nodes n rest"
  using assms by (induction ss) auto

lemma thd_insert_set: "set (thd_insert nodes n ns) = insert n (set ns)"
  by (induction ns) auto

lemma thd_insert_ok:
  assumes ok: "thd_list_ok nodes ns"
    and room: "ns = [] \<or> td_type (nodes (last ns)) = THD_TYPE_SUPPRESS \<or> td_type (nodes n) = THD_TYPE_SUPPRESS"
    and sup: "td_type (nodes n) = THD_TYPE_SUPPRESS \<Longrightarrow> td_priority (nodes n) = THD_PRIORITY_SUPPRESS"
    and lim: "td_type (nodes n) \<noteq> THD_TYPE_SUPPRESS \<Longrightarrow> td_priority (nodes n) < THD_PRIORITY_SUPPRESS"
  shows "thd_list_ok nodes (thd_insert nodes n ns)"
proof -
  obtain s r where ns: "ns = s @ r" "length r \<le> 1"
    and s: "\<forall>n\<in>set s. td_type (nodes n) = THD_TYPE_SUPPRESS \<and> td_priority (nodes n) = THD_PRIORITY_SUPPRESS"
    and r: "\<forall>n\<in>set r. td_type (nodes n) \<noteq> THD_TYPE_SUPPRESS \<and> td_priority (nodes n) < THD_PRIORITY_SUPPRESS"
    using ok unfolding thd_list_ok_def by blast
  have le: "td_priority (nodes n) \<le> THD_PRIORITY_SUPPRESS" using sup lim by force
  have ins: "thd_insert nodes n ns = s @ thd_insert nodes n r"
    unfolding ns(1) by (rule thd_insert_top) (use s le in auto)
  show ?thesis
  proof (cases "td_type (nodes n) = THD_TYPE_SUPPRESS")
    case True
    then have "thd_insert nodes n r = n # r" using r sup by (cases r) auto
    then have "thd_insert nodes n ns = (s @ [n]) @ r" using ins by simp
    with ns(2) s r True sup show ?thesis unfolding thd_list_ok_def
      by (intro exI [of _ "s @ [n]"] exI [of _ r]) auto
  next
    case False
    have "r = []" using room ns r False by (cases r rule: rev_cases) auto
    with ins s lim False show ?thesis unfolding thd_list_ok_def
      by (intro exI [of _ s] exI [of _ "[n]"]) auto
  qed
qed

lemma thd_put_item_array:
  "to_sfthd_array (thd_put_item pid config item objs) = (to_sfthd_array objs)
     (unat (td_gen_id config) := Some ((thd_gen_hash objs (unat (td_gen_id config)))((td_sig_id config, pid) \<mapsto> item)))"
  "to_nodes (thd_put_item pid config item objs) = to_nodes objs"
  "to_next (thd_put_item pid config item objs) = to_next objs"
  "to_sfthd_garray (thd_put_item pid config item objs) = to_sfthd_garray objs"
  by (simp_all add: thd_put_item_def Let_def)

lemma thd_gen_hash_ok:
  assumes "thd_objs_ok objs" and "thd_gen_hash objs g k = Some i"
  shows "thd_list_ok (to_nodes objs) (ti_node_list i) \<and> (\<forall>n\<in>set (ti_node_list i). n < to_next objs)"
  using assms(2) thd_objs_okD [OF assms(1), of g] by (auto simp: thd_gen_hash_def split: option.splits)

lemma thd_item_of_ok:
  assumes "thd_objs_ok objs"
  shows "thd_list_ok (to_nodes objs) (ti_node_list (thd_item_of pid objs config))"
    and "\<forall>n\<in>set (ti_node_list (thd_item_of pid objs config)). n < to_next objs"
proof -
  have e: "thd_list_ok nodes []" for nodes by (simp add: thd_list_ok_def)
  show "thd_list_ok (to_nodes objs) (ti_node_list (thd_item_of pid objs config))"
    "\<forall>n\<in>set (ti_node_list (thd_item_of pid objs config)). n < to_next objs"
    using thd_gen_hash_ok [OF assms] e by (auto simp: thd_item_of_def split: option.split)
qed

lemma thd_put_item_ok:
  assumes ok: "thd_objs_ok objs" and it: "thd_list_ok (to_nodes objs) (ti_node_list item)"
    "\<forall>n\<in>set (ti_node_list item). n < to_next objs"
  shows "thd_objs_ok (thd_put_item pid config item objs)"
  unfolding thd_objs_ok_def thd_put_item_array
  using it thd_gen_hash_ok [OF ok] thd_objs_okD [OF ok] by (auto split: if_splits)

lemma thd_new_node_ok:
  assumes "thd_objs_ok objs"
  shows "thd_objs_ok (objs\<lparr>to_nodes := (to_nodes objs)(to_next objs := node), to_next := to_next objs + 1\<rparr>)"
proof -
  have "thd_list_ok ((to_nodes objs)(to_next objs := node)) ns"
    if "thd_list_ok (to_nodes objs) ns" "\<forall>n\<in>set ns. n < to_next objs" for ns
    by (rule thd_list_ok_cong [OF that(1)]) (use that(2) in auto)
  moreover have "\<forall>n\<in>set ns. n < to_next objs + 1" if "\<forall>n\<in>set ns. n < to_next objs" for ns
    using that by fastforce
  ultimately show ?thesis using thd_objs_okD [OF assms] unfolding thd_objs_ok_def
    by (metis ThresholdObjects.select_convs(2,4,5) ThresholdObjects.surjective ThresholdObjects.update_convs(4,5))
qed

lemma create_local_ok:
  assumes ok: "thd_objs_ok objs"
  shows "thd_objs_ok (snd (sfthd_create_threshold_local pid objs config))"
proof -
  let ?item = "thd_item_of pid objs config" and ?o1 = "thd_put_item pid config (thd_item_of pid objs config) objs"
  let ?n = "to_next ?o1"
  let ?o2 = "?o1\<lparr>to_nodes := (to_nodes ?o1)(?n := thd_object config), to_next := ?n + 1\<rparr>"
  note it = thd_item_of_ok [OF ok, of pid config]
  have ok1: "thd_objs_ok ?o1" by (rule thd_put_item_ok [OF ok it])
  have ok2: "thd_objs_ok ?o2" by (rule thd_new_node_ok [OF ok1])
  have ok3: "thd_objs_ok (thd_put_item pid config
      (?item\<lparr>ti_node_list := thd_insert (to_nodes ?o2) ?n (ti_node_list ?item)\<rparr>) ?o2)"
    if room: "ti_node_list ?item = [] \<or> td_type (to_nodes objs (last (ti_node_list ?item))) = THD_TYPE_SUPPRESS \<or>
              td_type config = THD_TYPE_SUPPRESS"
  proof (rule thd_put_item_ok [OF ok2])
    have lt: "\<forall>n\<in>set (ti_node_list ?item). n < ?n" using it(2) by (simp add: thd_put_item_array)
    have "thd_list_ok (to_nodes ?o2) (ti_node_list ?item)"
      by (rule thd_list_ok_cong [OF it(1)]) (use lt in \<open>auto simp: thd_put_item_array\<close>)
    then have "thd_list_ok (to_nodes ?o2) (thd_insert (to_nodes ?o2) ?n (ti_node_list ?item))"
    proof (rule thd_insert_ok)
      show "ti_node_list ?item = [] \<or> td_type (to_nodes ?o2 (last (ti_node_list ?item))) = THD_TYPE_SUPPRESS \<or>
         td_type (to_nodes ?o2 ?n) = THD_TYPE_SUPPRESS"
      proof (cases "ti_node_list ?item = []")
        case False
        then have "last (ti_node_list ?item) < ?n" using lt last_in_set by blast
        then have "last (ti_node_list ?item) \<noteq> ?n" by simp
        with room False show ?thesis by (auto simp: thd_put_item_array thd_object_def)
      qed simp
    qed (auto simp: thd_object_def)
    then show "thd_list_ok (to_nodes ?o2) (ti_node_list
        (?item\<lparr>ti_node_list := thd_insert (to_nodes ?o2) ?n (ti_node_list ?item)\<rparr>))" by simp
    show "\<forall>n\<in>set (ti_node_list (?item\<lparr>ti_node_list := thd_insert (to_nodes ?o2) ?n (ti_node_list ?item)\<rparr>)).
        n < to_next ?o2"
      using lt by (auto simp: thd_insert_set)
  qed
  show ?thesis
    using ok ok1 ok3 by (simp add: sfthd_create_threshold_local_def Let_def)
qed

lemma thd_objs_ok_nodes:
  assumes "thd_objs_ok objs" and "\<forall>n. thd_same (to_nodes objs n) (nodes n)"
  shows "thd_objs_ok (objs\<lparr>to_nodes := nodes\<rparr>)"
proof -
  have "thd_list_ok nodes ns" if "thd_list_ok (to_nodes objs) ns" for ns
    by (rule thd_list_ok_cong [OF that]) (use assms(2) thd_same_fields in metis)
  then show ?thesis using thd_objs_okD [OF assms(1)] unfolding thd_objs_ok_def by simp blast
qed

lemma thd_objs_ok_frame:
  "to_sfthd_array o' = to_sfthd_array objs \<Longrightarrow> to_nodes o' = to_nodes objs \<Longrightarrow> to_next o' = to_next objs \<Longrightarrow>
   thd_objs_ok o' = thd_objs_ok objs"
  unfolding thd_objs_ok_def by simp

lemma create_global_ok:
  assumes ok: "thd_objs_ok objs" and c: "sfthd_create_threshold_global pid objs config = Some (r, objs')"
  shows "thd_objs_ok objs'"
proof -
  let ?o = "objs\<lparr>to_nodes := (to_nodes objs)(to_next objs := config\<lparr>td_filtered := 0\<rparr>), to_next := to_next objs + 1\<rparr>"
  have ok2: "thd_objs_ok ?o" by (rule thd_new_node_ok [OF ok])
  have "to_sfthd_array objs' = to_sfthd_array objs \<and>
     (to_nodes objs' = to_nodes objs \<and> to_next objs' = to_next objs \<or>
      to_nodes objs' = to_nodes ?o \<and> to_next objs' = to_next ?o)"
    using c by (auto simp: sfthd_create_threshold_global_def Let_def split: if_splits)
  then show ?thesis
    using thd_objs_ok_frame [of objs' objs] thd_objs_ok_frame [of objs' ?o] ok ok2 by auto
qed

lemma create_threshold_ok:
  assumes ok: "thd_objs_ok objs"
    and c: "sfthd_create_threshold pid objs gid sid trk ty prio cnt secs ip = Some (r, objs')"
  shows "thd_objs_ok objs'"
proof -
  define o1 where "o1 = (let o1 = objs\<lparr>to_count := to_count objs + 1\<rparr> in
     if to_sfthd_garray o1 pid = None
     then o1\<lparr>to_sfthd_garray := (to_sfthd_garray o1)(pid := Some (replicate THD_MAX_GENID None))\<rparr> else o1)"
  have ok1: "thd_objs_ok o1"
    using thd_objs_ok_frame [of o1 objs] ok by (simp add: o1_def Let_def)
  define node where "node = \<lparr>td_thd_id = to_count objs + 1, td_gen_id = gid, td_sig_id = sid,
     td_tracking = trk, td_type = ty, td_priority = prio, td_count = cnt, td_seconds = secs,
     td_filtered = 0, td_ip_address = ip\<rparr>"
  have "sfthd_create_threshold pid objs gid sid trk ty prio cnt secs ip =
     (if sid = 0 then sfthd_create_threshold_global pid o1 node
      else if gid = 0 then Some (-1, o1) else Some (sfthd_create_threshold_local pid o1 node))"
    by (simp add: sfthd_create_threshold_def o1_def node_def Let_def)
  then have "(if sid = 0 then sfthd_create_threshold_global pid o1 node
     else if gid = 0 then Some (-1, o1) else Some (sfthd_create_threshold_local pid o1 node)) = Some (r, objs')"
    using c by simp
  then show ?thesis
    using ok1 create_global_ok [OF ok1, of pid node r objs'] create_local_ok [OF ok1, of pid node]
    by (simp split: if_splits)
qed

lemma test_suppress_same: "sfthd_test_suppress p ip = (r, p') \<Longrightarrow> thd_same p p'"
  by (auto simp: sfthd_test_suppress_def split: if_splits)

lemma count_event_same: "thd_count_event h p k t = (r, p', h') \<Longrightarrow> thd_same p p'"
  by (auto simp: thd_count_event_def Let_def dest: non_suppress_same split: prod.splits if_splits)

lemma test_local_same:
  assumes "sfthd_test_local pid h p sip dip t = (r, p', h')"
  shows "thd_same p p'"
  using assms by (auto simp: sfthd_test_local_def Let_def split: if_splits prod.splits
      dest: test_suppress_same count_event_same)

lemma test_global_same:
  assumes "sfthd_test_global pid gh p gid sid sip dip t = Some (r, p', gh')"
  shows "thd_same p p'"
  using assms by (auto simp: sfthd_test_global_def Let_def split: if_splits prod.splits option.splits
      dest: test_suppress_same count_event_same)

lemma test_list_same:
  "thd_test_list pid ns nodes h sip dip t = (r, nodes', h') \<Longrightarrow> thd_same (nodes n) (nodes' n)"
proof (induction ns arbitrary: nodes h)
  case Nil
  then show ?case by simp
next
  case (Cons m ms)
  obtain st p' h1 where l: "sfthd_test_local pid h (nodes m) sip dip t = (st, p', h1)" by (metis prod_cases3)
  have same: "thd_same (nodes n) ((nodes(m := p')) n)" using test_local_same [OF l] by simp
  show ?case
  proof (cases "st > 0")
    case True
    then have "thd_test_list pid ms (nodes(m := p')) h1 sip dip t = (r, nodes', h')"
      using Cons.prems l by simp
    from Cons.IH [OF this] same show ?thesis by (rule thd_same_trans [rotated])
  next
    case False
    then have "nodes' = nodes(m := p')" using Cons.prems l by (auto simp: Let_def split: if_splits)
    with same show ?thesis by simp
  qed
qed

lemma global_test_ok:
  assumes "thd_objs_ok objs" and "thd_global_test pid objs thd gid sid sip dip t = Some (r, objs', thd')"
  shows "thd_objs_ok objs'"
  using assms
  by (auto simp: thd_global_test_def split: option.splits intro!: thd_objs_ok_nodes dest: test_global_same)

lemma test_threshold_ok:
  assumes ok: "thd_objs_ok objs" and c: "sfthd_test_threshold pid objs thd gid sid sip dip t = Some (r, objs', thd')"
  shows "thd_objs_ok objs'"
proof (cases "THD_MAX_GENID \<le> unat gid")
  case True
  then show ?thesis using c ok by (simp add: sfthd_test_threshold_def)
next
  case gid: False
  show ?thesis
  proof (cases "Option.bind (to_sfthd_array objs (unat gid)) (\<lambda>m. m (sid, pid))")
    case None
    then show ?thesis using c gid global_test_ok [OF ok] by (simp add: sfthd_test_threshold_def)
  next
    case (Some item)
    obtain s nodes h where l: "thd_test_list pid (ti_node_list item) (to_nodes objs) (ts_ip_nodes thd) sip dip t = (s, nodes, h)"
      by (metis prod_cases3)
    have ok': "thd_objs_ok (objs\<lparr>to_nodes := nodes\<rparr>)"
      by (rule thd_objs_ok_nodes [OF ok]) (use test_list_same [OF l] in blast)
    show ?thesis
      using c gid Some l ok' global_test_ok [OF ok'] by (auto simp: sfthd_test_threshold_def Let_def split: option.splits)
  qed
qed

text \<open>The configurations the program can have: objects are added and events tested, in any order.\<close>

inductive thd_reachable :: "ThresholdObjects \<Rightarrow> bool" where
  new: "thd_reachable sfthd_objs_new"
| create: "thd_reachable objs \<Longrightarrow>
    sfthd_create_threshold pid objs gid sid trk ty prio cnt secs ip = Some (r, objs') \<Longrightarrow> thd_reachable objs'"
| test: "thd_reachable objs \<Longrightarrow>
    sfthd_test_threshold pid objs thd gid sid sip dip t = Some (r, objs', thd') \<Longrightarrow> thd_reachable objs'"

lemma thd_reachable_ok: "thd_reachable objs \<Longrightarrow> thd_objs_ok objs"
proof (induction rule: thd_reachable.induct)
  case new
  then show ?case by (simp add: thd_objs_ok_def sfthd_objs_new_def)
qed (blast intro: create_threshold_ok test_threshold_ok)+

text \<open>A list that begins with the suppressions is decided by the first that covers the address.\<close>

lemma test_list_suppressed:
  assumes "\<forall>n\<in>set ns. td_type (nodes n) = THD_TYPE_SUPPRESS \<and> td_count (nodes n) \<noteq> THD_NO_THRESHOLD"
    and "\<exists>n\<in>set ns. fst (sfthd_test_suppress (nodes n)
           (if td_tracking (nodes n) = THD_TRK_SRC then sip else dip)) = -1"
  shows "\<exists>nodes'. thd_test_list pid (ns @ rest) nodes h sip dip t = (Some (-1), nodes', h)"
  using assms
proof (induction ns)
  case Nil
  then show ?case by simp
next
  case (Cons m ms)
  let ?ip = "if td_tracking (nodes m) = THD_TRK_SRC then sip else dip"
  obtain st p' where s: "sfthd_test_suppress (nodes m) ?ip = (st, p')" by fastforce
  have st: "st = -1 \<or> st = 1 \<and> p' = nodes m" using s by (auto simp: sfthd_test_suppress_def split: if_splits)
  have l: "sfthd_test_local pid h (nodes m) sip dip t = (st, p', h)"
    using Cons.prems(1) s by (simp add: sfthd_test_local_def Let_def)
  show ?case
  proof (cases "st = -1")
    case True
    then show ?thesis using l by simp
  next
    case False
    then have "thd_test_list pid ((m # ms) @ rest) nodes h sip dip t = thd_test_list pid (ms @ rest) nodes h sip dip t"
      using l st by simp
    moreover have "\<exists>n\<in>set ms. fst (sfthd_test_suppress (nodes n)
        (if td_tracking (nodes n) = THD_TRK_SRC then sip else dip)) = -1"
      using Cons.prems(2) False s by auto
    ultimately show ?thesis using Cons by simp
  qed
qed

subsection \<open>Properties\<close>

text \<open>A table with one row and room for one address, and objects for the witnesses.\<close>

definition thd_sample :: thd_local where
  "thd_sample = \<lparr>xh_hash = (\<lambda>_. 0), xh_keycmp = (\<lambda>a b. if a = b then 0 else 1), xh_keysize = 32,
     xh_datasize = 24, xh_table = [[]], xh_nrows = 1, xh_count = 0, xh_crow = 0, xh_cnode = None,
     xh_splay = 1, xh_max_nodes = 0, xh_mc = \<lparr>mc_memused = 16, mc_memcap = 200, mc_nblocks = 1\<rparr>,
     xh_overhead_bytes = 16, xh_overhead_blocks = 1, xh_find_fail = 0, xh_find_success = 0,
     xh_glist = [], xh_flist = [], xh_recycle_nodes = True, xh_anr_tries = 0, xh_anr_count = 0,
     xh_anr_flag = True, xh_anrfree = None, xh_usrfree = False, xh_freed = [], xh_zero = thd_zero,
     xh_nodes = (\<lambda>_. undefined), xh_blocks = (\<lambda>_. 0), xh_next = 0\<rparr>"

lemma thd_sample_new:
  "sfxhash_new (\<lambda>_. 0) (\<lambda>a b. if a = b then 0 else 1) thd_zero 1 32 24 200 True None False True = Some thd_sample"
  by (simp add: xh_eval thd_sample_def word_sless_alt)

lemma thd_sample_ok: "xh_store_ok thd_sample" and thd_sample_get: "xh_get thd_sample k = None"
proof -
  have "xh_wf thd_sample" by (rule xh_new_wf(1) [OF thd_sample_new]) simp_all
  then show "xh_store_ok thd_sample" by (simp add: xh_store_ok_def thd_sample_def)
  show "xh_get thd_sample k = None" by (simp add: xh_get_def xh_lookup_def xh_alist_def thd_sample_def)
qed

lemma thd_sample_add: "fst (sfxhash_add thd_sample k (Some d)) = SFXHASH_OK"
  by (simp add: thd_sample_def xh_eval)

abbreviation thd_ip :: "128 word \<Rightarrow> sfip_t" where
  "thd_ip a \<equiv> \<lparr>ip_family = 2, ip_bits = 32, ip_addr = a\<rparr>"

text \<open>
  C4: for an object with a positive count, the events of one address within one interval of
  \<open>seconds\<close> from the first are decided as documented: a limit logs the first \<open>count\<close>, a
  threshold every \<open>count\<close>-th, both exactly the \<open>count\<close>-th, and a detection filter all after the
  first \<open>count\<close>. The table is any well-formed one with a place for the address.
\<close>

theorem event_filter_window:
  assumes "xh_store_ok h" and "xh_get h (thd_key pid p sip dip) = None"
    and "fst (sfxhash_add h (thd_key pid p sip dip) (Some (thd_fresh t0))) = SFXHASH_OK"
    and "td_type p \<noteq> THD_TYPE_SUPPRESS" and "0 < unat (td_count p)" and "unat (td_count p) < 2 ^ 31"
    and "0 < unat (td_seconds p)" and "sorted (map unat (t0 # ts))"
    and "\<forall>t\<in>set ts. unat t - unat t0 < unat (td_seconds p)" and "length ts < 2 ^ 31 - 1"
  shows "thd_feed pid h p sip dip (t0 # ts) =
     map (\<lambda>i. if window_log (td_type p) (unat (td_count p)) i then 0 else -2) [0..<Suc (length ts)]"
proof -
  have c: "td_count p \<noteq> THD_NO_THRESHOLD" using assms(6) by (auto simp: THD_NO_THRESHOLD_def unsigned_minus_1_eq_mask mask_eq_exp_minus_1)
  note first = window_first [OF assms(5-7), of t0]
  have "react_feed p (thd_fresh t0) ts =
     map (\<lambda>i. if window_log (td_type p) (unat (td_count p)) i then 0 else -2) [1..<1 + length ts]"
    by (rule window_feed [OF first(2) _ assms(5,6,8,9)]) (use assms(10) in simp)
  then show ?thesis
    using thd_feed_new [OF assms(1,2) c assms(4,3)] first(1) by (simp add: upt_conv_Cons del: upt_Suc)
qed

definition thd_every2 :: THD_NODE where
  "thd_every2 = sfthd_create_rule_threshold 7 THD_TRK_SRC THD_TYPE_THRESHOLD 2 60"

theorem event_filter_window_witness:
  "thd_feed 0 thd_sample thd_every2 (thd_ip 1) (thd_ip 2) [100, 110, 110, 159] = [-2, 0, -2, 0]"
proof (rule trans [OF event_filter_window [OF thd_sample_ok thd_sample_get thd_sample_add]])
  show "map (\<lambda>i. if window_log (td_type thd_every2) (unat (td_count thd_every2)) i then 0 else -2)
      [0..<Suc (length [110, 110, 159 :: u64])] = [-2, 0, -2, 0 :: int]"
    by (simp add: thd_every2_def sfthd_create_rule_threshold_def window_log_def upt_rec)
qed (simp_all add: thd_every2_def sfthd_create_rule_threshold_def)

text \<open>
  C5: an event filter of type both with a count of one never logs an address again once it has
  an entry for it, however many intervals pass: the first event of a new interval is dropped
  before the count is looked at, and the next ones exceed it. (\<open>doc/README.filters\<close> promises one
  alert per interval, and the parser accepts this count.)
\<close>

theorem event_filter_both_one_starves:
  assumes "xh_store_ok h" and "xh_get h (thd_key pid p sip dip) = Some v"
    and "td_type p = THD_TYPE_BOTH" and "td_count p = 1"
    and "0 < unat (in_count v)" and "unat (in_count v) + length ts < 2 ^ 31"
  shows "thd_feed pid h p sip dip ts = replicate (length ts) (-2)"
proof -
  have "td_count p \<noteq> THD_NO_THRESHOLD" "td_type p \<noteq> THD_TYPE_SUPPRESS"
    using assms(3,4) by (auto simp: THD_NO_THRESHOLD_def)
  from thd_feed_hit [OF assms(1,2) this thd_same_refl] both_one_feed [OF assms(3-6)]
  show ?thesis by simp
qed

definition thd_sample_one :: thd_local where
  "thd_sample_one = snd (sfxhash_add thd_sample
     (thd_key 0 (sfthd_create_rule_threshold 7 THD_TRK_SRC THD_TYPE_BOTH 1 60) (thd_ip 1) (thd_ip 2)) (Some (thd_fresh 100)))"

lemma thd_sample_one_ok:
  "xh_store_ok thd_sample_one"
  "xh_get thd_sample_one (thd_key 0 (sfthd_create_rule_threshold 7 THD_TRK_SRC THD_TYPE_BOTH 1 60) (thd_ip 1) (thd_ip 2)) =
     Some (thd_fresh 100)"
proof -
  let ?k = "thd_key 0 (sfthd_create_rule_threshold 7 THD_TRK_SRC THD_TYPE_BOTH 1 60) (thd_ip 1) (thd_ip 2)"
  have "sfxhash_add thd_sample ?k (Some (thd_fresh 100)) = (SFXHASH_OK, thd_sample_one)"
    using thd_sample_add [of ?k "thd_fresh 100"] by (simp add: thd_sample_one_def prod_eq_iff)
  note new = xh_add.touch_new [OF thd_sample_ok thd_sample_get this]
  show "xh_store_ok thd_sample_one" by (rule new(2))
  show "xh_get thd_sample_one ?k = Some (thd_fresh 100)" by (rule new(3)) simp
qed

theorem event_filter_both_one_starves_witness:
  "thd_feed 0 thd_sample_one (sfthd_create_rule_threshold 7 THD_TRK_SRC THD_TYPE_BOTH 1 60) (thd_ip 1) (thd_ip 2)
     [200, 300, 400] = replicate (length [200, 300, 400 :: u64]) (-2)"
  by (rule event_filter_both_one_starves [OF thd_sample_one_ok])
    (simp_all add: sfthd_create_rule_threshold_def thd_fresh_def)


definition thd_suppress_objs :: ThresholdObjects where
  "thd_suppress_objs = snd (the (sfthd_create_threshold 0 sfthd_objs_new 1 5 THD_TRK_DST THD_TYPE_SUPPRESS 0 0 0 None))"


text \<open>
  a rule-wide object (\<open>sig_id\<close> 0) for a generator id of \<open>THD_MAX_GENID\<close> or more makes
  \<open>sfthd_create_threshold\<close> write past the array of the policy, while the same generator id with a
  signature id is refused with -1.
\<close>

theorem global_gen_id_unchecked:
  assumes "THD_MAX_GENID \<le> unat gid" and "sid \<noteq> 0"
  shows "sfthd_create_threshold pid sfthd_objs_new gid 0 trk ty prio cnt secs ip = None \<and>
     (\<exists>objs. sfthd_create_threshold pid sfthd_objs_new gid sid trk ty prio cnt secs ip = Some (-1, objs))"
proof -
  have "gid \<noteq> 0" using assms(1) by (auto simp: THD_MAX_GENID_def)
  then show ?thesis
    using assms by (simp_all add: sfthd_create_threshold_def sfthd_create_threshold_global_def
        sfthd_create_threshold_local_def sfthd_objs_new_def Let_def)
qed

theorem global_gen_id_unchecked_witness:
  "sfthd_create_threshold 0 sfthd_objs_new 100000 0 THD_TRK_SRC THD_TYPE_LIMIT 0 1 60 None = None \<and>
   (\<exists>objs. sfthd_create_threshold 0 sfthd_objs_new 100000 1 THD_TRK_SRC THD_TYPE_LIMIT 0 1 60 None = Some (-1, objs))"
  by (rule global_gen_id_unchecked) (simp_all add: THD_MAX_GENID_def)

text \<open>
  A count of -1 (\<open>THD_NO_THRESHOLD\<close>, documented to turn filtering off) is honoured for an object
  of one signature, but a rule-wide limit with it suppresses every event of an address it counts.
\<close>

lemma no_threshold_global_ignored:
  assumes "td_count p = THD_NO_THRESHOLD" and "td_type p = THD_TYPE_LIMIT"
    and "xh_store_ok g" and "xh_get g \<lparr>gk_gen_id = td_gen_id p, gk_sig_id = sid,
           gk_ip = (if td_tracking p = THD_TRK_SRC then sip else dip), gk_policyId = pid\<rparr> = Some v"
    and "Suc (unat (in_count v)) < 2 ^ 31"
  shows "fst (sfthd_test_local pid h p sip dip t) = 0 \<and>
     (\<exists>p' g'. sfthd_test_global pid (Some g) p gid sid sip dip t = Some (-2, p', Some g'))"
proof -
  let ?k = "\<lparr>gk_gen_id = td_gen_id p, gk_sig_id = sid,
     gk_ip = (if td_tracking p = THD_TRK_SRC then sip else dip), gk_policyId = pid\<rparr>"
  obtain r p' g' where ev: "thd_count_event g p ?k t = (r, p', g')" by (metis prod_cases3)
  have neg: "\<not> x \<le>s -1" if "unat x < 2 ^ 31" for x :: u32
  proof -
    have "sint x = int (unat x)" using that by (simp add: sint_eq_unat del: of_nat_unat)
    then show ?thesis by (simp add: word_sle_eq del: of_nat_unat)
  qed
  have "unat (in_count v + 1) = Suc (unat (in_count v))" using assms(5) by (subst unat_plus_no_wrap) auto
  then have "\<not> in_count v + 1 \<le>s -1" using neg assms(5) by simp
  then have "fst (thd_react p (Some v) t) = -2"
    using assms(1,2) neg [of 1] by (simp add: thd_react_def sfthd_test_non_suppress_def THD_NO_THRESHOLD_def Let_def)
  then have "r = -2" using thd_count_event_hit(3) [OF assms(3,4) ev] by simp
  then show ?thesis using assms(1,2) ev by (simp add: sfthd_test_local_def sfthd_test_global_def Let_def)
qed

text \<open>
  With a memcap of 0 (which the parser accepts) there is no table for rule-wide objects, and the
  first event such an object has to count is looked up through NULL.
\<close>

lemma no_global_table:
  assumes "sfthd_new lhash lcmp ghash gcmp lbytes 0 = Some thd" and "td_type p \<noteq> THD_TYPE_SUPPRESS"
  shows "sfthd_test_global pid (ts_ip_gnodes thd) p gid sid sip dip t = None"
  using assms by (auto simp: sfthd_new_def sfthd_test_global_def split: option.splits)

text \<open>Until \<open>sfthreshold_reset\<close>, an event gets one answer, whatever is asked about it again.\<close>

lemma sfthreshold_test_once:
  assumes "sfthreshold_test pid (Some tc) st gid sid sip dip t = Some (r, config, st')" and "tc_enabled tc"
  shows "sfthreshold_test pid' config st' gid' sid' sip' dip' t' = Some (r, config, st')"
  using assms by (auto simp: sfthreshold_test_def split: if_splits option.splits prod.splits)

end
