(* ===== verification/SfRf.thy ===== *)
theory SfRf
  imports SfXHash
begin

text \<open>
  Rate filters: \<open>src/src/sfutil/sfrf.c\<close> and its front end \<open>src/src/rate_filter.c\<close>, with
  \<open>SFRF_OVER_RATE\<close> defined as in \<open>sfrf.h\<close>. The configuration (\<open>RateFilterConfig\<close>) is static
  while events are tested; the tracking nodes live in \<open>rf_hash\<close>. The \<open>SFGHASH\<close> of a generator id
  is read as the partial map it implements and an \<open>IpAddrSet\<close> as its membership test.
\<close>

subsection \<open>Objects\<close>

definition SFRF_MAX_GENID :: nat where "SFRF_MAX_GENID = 8129"
definition SFRF_NO_REVERT_LIMIT :: nat where "SFRF_NO_REVERT_LIMIT = 1000"
definition GENERATOR_INTERNAL :: u32 where "GENERATOR_INTERNAL = 135"
definition INTERNAL_EVENT_SESSION_ADD :: u32 where "INTERNAL_EVENT_SESSION_ADD = 2"
definition INTERNAL_EVENT_SESSION_DEL :: u32 where "INTERNAL_EVENT_SESSION_DEL = 3"
definition RULE_TYPE__DROP :: int where "RULE_TYPE__DROP = 3"
definition RULE_TYPE__MAX :: int where "RULE_TYPE__MAX = 9"

datatype SFRF_TRACK = SFRF_TRACK_BY_SRC | SFRF_TRACK_BY_DST | SFRF_TRACK_BY_RULE

datatype SFRF_COUNT_OPERATION =
  SFRF_COUNT_NOP | SFRF_COUNT_RESET | SFRF_COUNT_INCREMENT | SFRF_COUNT_DECREMENT

datatype FilterState = FS_NEW | FS_OFF | FS_ON

record tSFRFConfigNode =
  rc_tid :: s32
  rc_gid :: u32
  rc_sid :: u32
  rc_policyId :: u32
  rc_tracking :: SFRF_TRACK
  rc_count :: u32
  rc_seconds :: u32
  rc_newAction :: int
  rc_timeout :: u32
  rc_applyTo :: "(sfip_t \<Rightarrow> bool) option"

record tSFRFSidNode =
  rs_gid :: u32
  rs_sid :: u32
  rs_configNodeList :: "tSFRFConfigNode list"

record tSFRFTrackingNodeKey =
  rk_policyId :: u32
  rk_tid :: s32
  rk_ip :: sfip_t

record tSFRFTrackingNode =
  rn_filterState :: FilterState
  rn_overRate :: bool
  rn_tlast :: u64
  rn_count :: u32
  rn_tstart :: u64
  rn_revertTime :: u64

record RateFilterConfig =
  rf_genHash :: "nat \<Rightarrow> (u32 \<times> u32 \<rightharpoonup> tSFRFSidNode) option"
  rf_count :: s32
  rf_noRevertCount :: u32
  rf_memcap :: s32
  rf_internal_event_mask :: u32

type_synonym rf_table = "(tSFRFTrackingNodeKey, tSFRFTrackingNode) SFXHASH"

definition rf_zero :: tSFRFTrackingNode where
  "rf_zero = \<lparr>rn_filterState = FS_NEW, rn_overRate = False, rn_tlast = 0, rn_count = 0,
              rn_tstart = 0, rn_revertTime = 0\<rparr>"

subsection \<open>Configuration\<close>

text \<open>\<open>SFRF_BYTES\<close> is 32 + 40: the sizes of the key and of the tracking node.\<close>

definition SFRF_New ::
  "(tSFRFTrackingNodeKey \<Rightarrow> u32) \<Rightarrow> (tSFRFTrackingNodeKey \<Rightarrow> tSFRFTrackingNodeKey \<Rightarrow> int) \<Rightarrow>
   u32 \<Rightarrow> rf_table option" where
  "SFRF_New hash keycmp nbytes0 =
     (let nbytes = (if nbytes0 < 72 then 72 else nbytes0)
      in sfxhash_new hash keycmp rf_zero (nbytes div 72) 32 40 (ucast nbytes) True None False True)"

definition SFRF_Flush :: "rf_table option \<Rightarrow> rf_table option" where
  "SFRF_Flush rf_hash = map_option (\<lambda>h. snd (sfxhash_make_empty h)) rf_hash"

text \<open>
  Memory from \<open>calloc\<close> is taken to be available. The branch of a thread id that wraps to 0 frees
  the new node and the item, which stays in the hash: it is \<open>None\<close> here (the item is used after
  it is freed).
\<close>

definition SFRF_ConfigAdd ::
  "(tSFRFTrackingNodeKey \<Rightarrow> u32) \<Rightarrow> (tSFRFTrackingNodeKey \<Rightarrow> tSFRFTrackingNodeKey \<Rightarrow> int) \<Rightarrow>
   u32 \<Rightarrow> RateFilterConfig \<Rightarrow> tSFRFConfigNode option \<Rightarrow> rf_table option \<Rightarrow>
   (int \<times> RateFilterConfig \<times> rf_table option) option" where
  "SFRF_ConfigAdd hash keycmp policy_id config cfgNode rf_hash0 =
     (let rf_hash = (case rf_hash0 of None \<Rightarrow> SFRF_New hash keycmp (rf_memcap config) | Some h \<Rightarrow> Some h) in
      if rf_hash = None then Some (-1, config, rf_hash)
      else case cfgNode of
        None \<Rightarrow> Some (-1, config, rf_hash)
      | Some cfg \<Rightarrow>
          (if rc_sid cfg = 0 \<or> rc_gid cfg = 0 \<or> SFRF_MAX_GENID \<le> unat (rc_gid cfg) \<or> rc_count cfg < 1
           then Some (-1, config, rf_hash)
           else if rc_timeout cfg = 0 \<and> SFRF_NO_REVERT_LIMIT \<le> unat (rf_noRevertCount config)
           then Some (-1, config, rf_hash)
           else
             (let c1 = (if rc_timeout cfg = 0
                        then config\<lparr>rf_noRevertCount := rf_noRevertCount config + 1\<rparr> else config);
                  g = unat (rc_gid cfg);
                  tbl = (case rf_genHash c1 g of None \<Rightarrow> Map.empty | Some m \<Rightarrow> m);
                  key = (rc_sid cfg, policy_id);
                  item = (case tbl key of
                            None \<Rightarrow> \<lparr>rs_gid = rc_gid cfg, rs_sid = rc_sid cfg, rs_configNodeList = []\<rparr>
                          | Some i \<Rightarrow> i);
                  tid = rf_count c1 + 1;
                  item' = item\<lparr>rs_configNodeList := rs_configNodeList item @ [cfg\<lparr>rc_tid := tid\<rparr>]\<rparr>
              in if tid = 0 then None
                 else Some (0, c1\<lparr>rf_count := tid,
                                 rf_genHash := (rf_genHash c1)(g := Some (tbl(key \<mapsto> item')))\<rparr>, rf_hash))))"

definition EventIsInternal :: "u32 \<Rightarrow> bool" where
  "EventIsInternal gid \<longleftrightarrow> gid = GENERATOR_INTERNAL"

definition EnableInternalEvent :: "RateFilterConfig \<Rightarrow> u32 \<Rightarrow> RateFilterConfig" where
  "EnableInternalEvent config sid =
     config\<lparr>rf_internal_event_mask := rf_internal_event_mask config OR push_bit (unat sid) 1\<rparr>"

definition RateFilter_ConfigNew :: RateFilterConfig where
  "RateFilter_ConfigNew = \<lparr>rf_genHash = (\<lambda>_. None), rf_count = 0, rf_noRevertCount = 0,
     rf_memcap = 1024 * 1024, rf_internal_event_mask = 0\<rparr>"

definition RateFilter_Create ::
  "(tSFRFTrackingNodeKey \<Rightarrow> u32) \<Rightarrow> (tSFRFTrackingNodeKey \<Rightarrow> tSFRFTrackingNodeKey \<Rightarrow> int) \<Rightarrow>
   u32 \<Rightarrow> RateFilterConfig option \<Rightarrow> tSFRFConfigNode \<Rightarrow> rf_table option \<Rightarrow>
   (int \<times> RateFilterConfig option \<times> rf_table option) option" where
  "RateFilter_Create hash keycmp policy_id config thdx rf_hash =
     (case config of
        None \<Rightarrow> Some (-1, None, rf_hash)
      | Some c \<Rightarrow>
          (case SFRF_ConfigAdd hash keycmp policy_id c (Some thdx) rf_hash of
             None \<Rightarrow> None
           | Some (error, c1, h1) \<Rightarrow>
               (let c2 = (if error = 0 \<and> EventIsInternal (rc_gid thdx)
                          then (let c' = EnableInternalEvent c1 (rc_sid thdx)
                                in if rc_sid thdx = INTERNAL_EVENT_SESSION_ADD
                                   then EnableInternalEvent c' INTERNAL_EVENT_SESSION_DEL else c')
                          else c1)
                in Some (error, Some c2, h1))))"

subsection \<open>One object\<close>

definition checkSamplingPeriod ::
  "tSFRFConfigNode \<Rightarrow> tSFRFTrackingNode \<Rightarrow> u64 \<Rightarrow> int \<times> tSFRFTrackingNode" where
  "checkSamplingPeriod cfg dyn curTime =
     (if rc_seconds cfg \<noteq> 0
      then (if rc_seconds cfg \<le> ucast (curTime - rn_tstart dyn)
            then (1, dyn\<lparr>rn_tstart := curTime,
                        rn_overRate := (if rc_seconds cfg < ucast (curTime - rn_tlast dyn) then False
                                        else rc_count cfg < rn_count dyn),
                        rn_tlast := curTime, rn_count := 0\<rparr>)
            else (0, dyn\<lparr>rn_tlast := curTime\<rparr>))
      else (0, dyn\<lparr>rn_overRate := (rc_count cfg < rn_count dyn), rn_tlast := curTime\<rparr>))"

definition checkThreshold ::
  "tSFRFConfigNode \<Rightarrow> tSFRFTrackingNode \<Rightarrow> u64 \<Rightarrow> int \<times> tSFRFTrackingNode" where
  "checkThreshold cfg dyn curTime =
     (let over = rc_count cfg < rn_count dyn \<or> rn_overRate dyn;
          expired = rc_timeout cfg \<noteq> 0 \<and> rc_timeout cfg \<le> ucast (curTime - rn_revertTime dyn)
      in if rn_filterState dyn = FS_ON \<and> \<not> expired then (rc_newAction cfg, dyn)
         else if rn_filterState dyn = FS_ON \<and> over
         then (rc_newAction cfg, dyn\<lparr>rn_revertTime := curTime\<rparr>)
         else
           (let d1 = (if rn_filterState dyn = FS_ON then dyn\<lparr>rn_filterState := FS_OFF\<rparr> else dyn)
            in if \<not> over then (-1, d1)
               else (RULE_TYPE__MAX + rc_newAction cfg,
                     d1\<lparr>rn_revertTime := curTime, rn_filterState := FS_ON, rn_overRate := True\<rparr>)))"

definition rf_count_op :: "tSFRFConfigNode \<Rightarrow> SFRF_COUNT_OPERATION \<Rightarrow> u32 \<Rightarrow> u32" where
  "rf_count_op cfg oper n =
     (case oper of
        SFRF_COUNT_INCREMENT \<Rightarrow> (if n + 1 \<noteq> 0 then n + 1 else n)
      | SFRF_COUNT_DECREMENT \<Rightarrow> (if rc_seconds cfg = 0 \<and> n \<noteq> 0 then n - 1 else n)
      | SFRF_COUNT_RESET \<Rightarrow> 0
      | SFRF_COUNT_NOP \<Rightarrow> n)"

text \<open>\<open>SFRF_TestObject\<close> from the tracking node on.\<close>

definition rf_test_node ::
  "tSFRFConfigNode \<Rightarrow> tSFRFTrackingNode \<Rightarrow> u64 \<Rightarrow> SFRF_COUNT_OPERATION \<Rightarrow> int \<times> tSFRFTrackingNode" where
  "rf_test_node cfg dyn curTime oper =
     (let d1 = snd (checkSamplingPeriod cfg dyn curTime);
          d2 = d1\<lparr>rn_count := rf_count_op cfg oper (rn_count d1)\<rparr>;
          (retValue, d3) = checkThreshold cfg d2 curTime
      in (retValue,
          if rc_seconds cfg = 0 \<and> rc_count cfg < rn_count d3 \<and> rc_newAction cfg = RULE_TYPE__DROP
          then d3\<lparr>rn_count := rn_count d3 - 1\<rparr> else d3))"

definition rf_init_node :: "tSFRFTrackingNode \<Rightarrow> u64 \<Rightarrow> tSFRFTrackingNode" where
  "rf_init_node dyn curTime =
     (if rn_filterState dyn = FS_NEW
      then dyn\<lparr>rn_tstart := curTime, rn_tlast := curTime, rn_filterState := FS_OFF\<rparr> else dyn)"

text \<open>The node handed out is read and written through its data pointer.\<close>

definition getSFRFTrackingNode ::
  "u32 \<Rightarrow> rf_table \<Rightarrow> sfip_t \<Rightarrow> s32 \<Rightarrow> u64 \<Rightarrow> nat option \<times> rf_table" where
  "getSFRFTrackingNode policy_id h ip tid curTime =
     (let (hnode, h1) = sfxhash_get_node h \<lparr>rk_policyId = policy_id, rk_tid = tid, rk_ip = ip\<rparr>
      in case hnode of
           None \<Rightarrow> (None, h1)
         | Some n \<Rightarrow>
             (case hn_data (xh_nodes h1 n) of
                None \<Rightarrow> (None, h1)
              | Some dyn \<Rightarrow> (Some n, xh_write h1 n (rf_init_node dyn curTime))))"

definition SFRF_TestObject ::
  "u32 \<Rightarrow> tSFRFConfigNode \<Rightarrow> sfip_t \<Rightarrow> u64 \<Rightarrow> SFRF_COUNT_OPERATION \<Rightarrow> rf_table \<Rightarrow> int \<times> rf_table" where
  "SFRF_TestObject policy_id cfg ip curTime oper h =
     (case getSFRFTrackingNode policy_id h ip (rc_tid cfg) curTime of
        (None, h1) \<Rightarrow> (-1, h1)
      | (Some n, h1) \<Rightarrow>
          (let (retValue, dyn) = rf_test_node cfg (the (hn_data (xh_nodes h1 n))) curTime oper
           in (retValue, xh_write h1 n dyn)))"

subsection \<open>All objects of an event\<close>

definition SFRF_AppliesTo :: "tSFRFConfigNode \<Rightarrow> sfip_t \<Rightarrow> bool" where
  "SFRF_AppliesTo cfg ip = (case rc_applyTo cfg of None \<Rightarrow> True | Some contains \<Rightarrow> contains ip)"

definition ip_cleared :: sfip_t where
  "ip_cleared = \<lparr>ip_family = 0, ip_bits = 0, ip_addr = 0\<rparr>"

text \<open>The body of the loop: the new status is that of the last object that was tested.\<close>

definition rf_test_cfg ::
  "u32 \<Rightarrow> sfip_t \<Rightarrow> sfip_t \<Rightarrow> u64 \<Rightarrow> SFRF_COUNT_OPERATION \<Rightarrow> tSFRFConfigNode \<Rightarrow>
   int \<times> int \<times> rf_table \<Rightarrow> int \<times> int \<times> rf_table" where
  "rf_test_cfg policy_id sip dip curTime oper cfg s =
     (case s of (status, newStatus0, h) \<Rightarrow>
        (let (newStatus, h') =
               (case rc_tracking cfg of
                  SFRF_TRACK_BY_SRC \<Rightarrow>
                    (if SFRF_AppliesTo cfg sip then SFRF_TestObject policy_id cfg sip curTime oper h
                     else (newStatus0, h))
                | SFRF_TRACK_BY_DST \<Rightarrow>
                    (if SFRF_AppliesTo cfg dip then SFRF_TestObject policy_id cfg dip curTime oper h
                     else (newStatus0, h))
                | SFRF_TRACK_BY_RULE \<Rightarrow> SFRF_TestObject policy_id cfg ip_cleared curTime oper h)
         in (if newStatus \<ge> 0 \<and> status = -1 then newStatus else status, newStatus, h')))"

definition rf_test_list ::
  "u32 \<Rightarrow> RateFilterConfig \<Rightarrow> u32 \<Rightarrow> u32 \<Rightarrow> sfip_t \<Rightarrow> sfip_t \<Rightarrow> u64 \<Rightarrow> SFRF_COUNT_OPERATION \<Rightarrow>
   rf_table \<Rightarrow> int \<times> rf_table" where
  "rf_test_list policy_id config gid sid sip dip curTime oper h =
     (case Option.bind (rf_genHash config (unat gid)) (\<lambda>m. m (sid, policy_id)) of
        None \<Rightarrow> (-1, h)
      | Some item \<Rightarrow>
          (let (status, _, h') = fold (rf_test_cfg policy_id sip dip curTime oper)
                                  (rs_configNodeList item) (-1, -1, h)
           in (status, h')))"

text \<open>
  \<open>SFRF_TestThreshold\<close> and \<open>_updateDependentThresholds\<close> call each other: a closed session first
  takes one off the counters of the opened sessions.
\<close>

function SFRF_TestThreshold ::
  "u32 \<Rightarrow> RateFilterConfig \<Rightarrow> u32 \<Rightarrow> u32 \<Rightarrow> sfip_t \<Rightarrow> sfip_t \<Rightarrow> u64 \<Rightarrow> SFRF_COUNT_OPERATION \<Rightarrow>
   rf_table \<Rightarrow> int \<times> rf_table"
  and updateDependentThresholds ::
  "u32 \<Rightarrow> RateFilterConfig \<Rightarrow> u32 \<Rightarrow> u32 \<Rightarrow> sfip_t \<Rightarrow> sfip_t \<Rightarrow> u64 \<Rightarrow> rf_table \<Rightarrow> rf_table" where
  "SFRF_TestThreshold policy_id config gid sid sip dip curTime oper h =
     (if SFRF_MAX_GENID \<le> unat gid then (-1, h)
      else rf_test_list policy_id config gid sid sip dip curTime oper
             (updateDependentThresholds policy_id config gid sid sip dip curTime h))"
| "updateDependentThresholds policy_id config gid sid sip dip curTime h =
     (if gid = GENERATOR_INTERNAL \<and> sid = INTERNAL_EVENT_SESSION_DEL
      then snd (SFRF_TestThreshold policy_id config gid INTERNAL_EVENT_SESSION_ADD sip dip curTime
                  SFRF_COUNT_DECREMENT h)
      else h)"
  by pat_completeness auto

termination
  by (relation "measure (\<lambda>s. case s of
        Inl (_, _, _, sid, _) \<Rightarrow> if sid = INTERNAL_EVENT_SESSION_DEL then 3 else 1
      | Inr (_, _, _, sid, _) \<Rightarrow> if sid = INTERNAL_EVENT_SESSION_DEL then 2 else 0)")
    (auto simp: INTERNAL_EVENT_SESSION_DEL_def INTERNAL_EVENT_SESSION_ADD_def)

declare SFRF_TestThreshold.simps [simp del] updateDependentThresholds.simps [simp del]

record rf_packet =
  rp_iph_valid :: bool
  rp_src :: sfip_t
  rp_dst :: sfip_t
  rp_from_server :: bool
  rp_tv_sec :: u64

definition RateFilter_Test ::
  "u32 \<Rightarrow> RateFilterConfig option \<Rightarrow> u32 \<Rightarrow> u32 \<Rightarrow> rf_packet \<Rightarrow> rf_table \<Rightarrow> int \<times> rf_table" where
  "RateFilter_Test policy_id config gid sid p h =
     (let sip = (if rp_iph_valid p then rp_src p else ip_cleared);
          dip = (if rp_iph_valid p then rp_dst p else ip_cleared)
      in case config of
           None \<Rightarrow> (-1, h)
         | Some c \<Rightarrow>
             (if EventIsInternal gid \<and> rp_from_server p
              then SFRF_TestThreshold policy_id c gid sid dip sip (rp_tv_sec p) SFRF_COUNT_INCREMENT h
              else SFRF_TestThreshold policy_id c gid sid sip dip (rp_tv_sec p) SFRF_COUNT_INCREMENT h))"

definition RateFilter_ResetActive :: "rf_table option \<Rightarrow> rf_table option" where
  "RateFilter_ResetActive rf_hash = SFRF_Flush rf_hash"

subsection \<open>The events of one tracking node\<close>

definition rf_key :: "u32 \<Rightarrow> tSFRFConfigNode \<Rightarrow> sfip_t \<Rightarrow> tSFRFTrackingNodeKey" where
  "rf_key pid cfg ip = \<lparr>rk_policyId = pid, rk_tid = rc_tid cfg, rk_ip = ip\<rparr>"

definition rf_react ::
  "tSFRFConfigNode \<Rightarrow> tSFRFTrackingNode \<Rightarrow> u64 \<times> SFRF_COUNT_OPERATION \<Rightarrow> int \<times> tSFRFTrackingNode" where
  "rf_react cfg v e = rf_test_node cfg (rf_init_node v (fst e)) (fst e) (snd e)"

lemma xh_write_twice: "xh_write (xh_write h n a) n b = xh_write h n b"
  by (cases "xh_nodes h n") (simp add: xh_write_def)

lemma xh_write_data [simp]: "hn_data (xh_nodes (xh_write h n d) n) = Some d"
  by (simp add: xh_write_def)

lemma test_object_hit:
  assumes ok: "xh_store_ok h" and v: "xh_get h (rf_key pid cfg ip) = Some v"
  shows "\<exists>h'. SFRF_TestObject pid cfg ip (fst e) (snd e) h = (fst (rf_react cfg v e), h') \<and> xh_store_ok h' \<and>
     xh_get h' = (xh_get h)(rf_key pid cfg ip \<mapsto> snd (rf_react cfg v e))"
proof -
  obtain r h1 where get: "sfxhash_get_node h (rf_key pid cfg ip) = (r, h1)" by fastforce
  obtain n where n: "r = Some n" "xh_store_ok h1" "xh_get h1 = xh_get h" "xh_at h1 n (rf_key pid cfg ip)"
    using xh_node.get_hit [OF ok v get] by blast
  have "n \<in> set (xh_glist h1)" using n(4) by (simp add: xh_at_def)
  then have "hn_data (xh_nodes h1 n) \<noteq> None" using n(2) by (simp add: xh_store_ok_def)
  moreover have "xh_cur h1 n = v" using xh_add.at_cur [OF n(2,4)] n(3) v by simp
  ultimately have d: "hn_data (xh_nodes h1 n) = Some v" by (auto simp: xh_cur_def)
  obtain a b where r: "rf_react cfg v e = (a, b)" by fastforce
  have "SFRF_TestObject pid cfg ip (fst e) (snd e) h = (a, xh_write h1 n b)"
    using get n(1) d r
    by (simp add: SFRF_TestObject_def getSFRFTrackingNode_def rf_key_def rf_react_def xh_write_twice)
  then show ?thesis
    using xh_add.wr_inv [OF n(2,4)] xh_add.wr_lookup [OF n(2,4)] n(3) r by simp
qed

text \<open>The results of one object on a sequence of timed operations for one address.\<close>

fun rf_feed ::
  "u32 \<Rightarrow> tSFRFConfigNode \<Rightarrow> sfip_t \<Rightarrow> rf_table \<Rightarrow> (u64 \<times> SFRF_COUNT_OPERATION) list \<Rightarrow> int list" where
  "rf_feed pid cfg ip h [] = []"
| "rf_feed pid cfg ip h (e # es) =
     (let (r, h') = SFRF_TestObject pid cfg ip (fst e) (snd e) h in r # rf_feed pid cfg ip h' es)"

fun rf_node_feed ::
  "tSFRFConfigNode \<Rightarrow> tSFRFTrackingNode \<Rightarrow> (u64 \<times> SFRF_COUNT_OPERATION) list \<Rightarrow> int list" where
  "rf_node_feed cfg v [] = []"
| "rf_node_feed cfg v (e # es) = fst (rf_react cfg v e) # rf_node_feed cfg (snd (rf_react cfg v e)) es"

lemma rf_feed_hit:
  "xh_store_ok h \<Longrightarrow> xh_get h (rf_key pid cfg ip) = Some v \<Longrightarrow>
   rf_feed pid cfg ip h es = rf_node_feed cfg v es"
proof (induction es arbitrary: h v)
  case Nil
  then show ?case by simp
next
  case (Cons e es)
  from test_object_hit [OF Cons.prems, of e] obtain h' where
    "SFRF_TestObject pid cfg ip (fst e) (snd e) h = (fst (rf_react cfg v e), h')" "xh_store_ok h'"
    "xh_get h' (rf_key pid cfg ip) = Some (snd (rf_react cfg v e))" by auto
  with Cons.IH show ?case by simp
qed

text \<open>
  Within one sampling period: the node while the count is not exceeded, and from the event that
  exceeds it on.
\<close>

definition rf_period :: "tSFRFConfigNode \<Rightarrow> u64 \<Rightarrow> nat \<Rightarrow> tSFRFTrackingNode \<Rightarrow> bool" where
  "rf_period cfg t0 i v \<longleftrightarrow>
     rn_tstart v = t0 \<and> unat (rn_count v) = i \<and>
     (if i \<le> unat (rc_count cfg) then rn_filterState v = FS_OFF \<and> \<not> rn_overRate v
      else rn_filterState v = FS_ON)"

definition rf_result :: "tSFRFConfigNode \<Rightarrow> nat \<Rightarrow> int" where
  "rf_result cfg i =
     (if i < unat (rc_count cfg) then -1
      else if i = unat (rc_count cfg) then RULE_TYPE__MAX + rc_newAction cfg
      else rc_newAction cfg)"

lemma rf_period_step:
  assumes v: "rf_period cfg t0 i v" and s: "0 < unat (rc_seconds cfg)" and i: "Suc i < 2 ^ 32"
    and t: "unat t0 \<le> unat t" "unat t - unat t0 < unat (rc_seconds cfg)"
  shows "fst (rf_react cfg v (t, SFRF_COUNT_INCREMENT)) = rf_result cfg i"
    and "rf_period cfg t0 (Suc i) (snd (rf_react cfg v (t, SFRF_COUNT_INCREMENT)))"
proof -
  have sec: "unat (rc_seconds cfg) < 2 ^ 32" using unsigned_less [of "rc_seconds cfg"] by simp
  have "unat (ucast (t - t0) :: u32) = unat t - unat t0" by (rule elapsed_unat) (use t sec in linarith)+
  then have dt: "\<not> rc_seconds cfg \<le> ucast (t - rn_tstart v)"
    using t v by (simp add: word_le_nat_alt rf_period_def)
  have nz: "rc_seconds cfg \<noteq> 0" using s by auto
  have n: "unat (rn_count v) = i" using v by (simp add: rf_period_def)
  then have n1: "unat (rn_count v + 1) = Suc i" using i by (subst unat_plus_no_wrap) auto
  then have n0: "rn_count v + 1 \<noteq> 0" by auto
  have st: "rn_filterState v \<noteq> FS_NEW" using v by (auto simp: rf_period_def split: if_splits)
  have over: "rc_count cfg < rn_count v + 1 \<longleftrightarrow> unat (rc_count cfg) \<le> i"
    by (simp add: word_less_nat_alt n1 less_Suc_eq_le)
  note defs = rf_react_def rf_test_node_def rf_init_node_def checkSamplingPeriod_def rf_count_op_def
    checkThreshold_def Let_def rf_result_def
  show "fst (rf_react cfg v (t, SFRF_COUNT_INCREMENT)) = rf_result cfg i"
    using v st nz dt n0 over by (auto simp: defs rf_period_def split: if_splits)
  show "rf_period cfg t0 (Suc i) (snd (rf_react cfg v (t, SFRF_COUNT_INCREMENT)))"
    using v st nz dt n0 n1 over by (auto simp: defs rf_period_def split: if_splits)
qed

lemma rf_period_feed:
  assumes "rf_period cfg t0 i v" and "0 < unat (rc_seconds cfg)" and "i + length ts < 2 ^ 32"
    and "\<forall>t\<in>set ts. unat t0 \<le> unat t \<and> unat t - unat t0 < unat (rc_seconds cfg)"
  shows "rf_node_feed cfg v (map (\<lambda>t. (t, SFRF_COUNT_INCREMENT)) ts) = map (rf_result cfg) [i..<i + length ts]"
  using assms
proof (induction ts arbitrary: i v)
  case Nil
  then show ?case by simp
next
  case (Cons t ts)
  have i: "Suc i < 2 ^ 32" using Cons.prems(3) by simp
  note step = rf_period_step [OF Cons.prems(1,2) i, of t]
  have "rf_node_feed cfg (snd (rf_react cfg v (t, SFRF_COUNT_INCREMENT)))
      (map (\<lambda>t. (t, SFRF_COUNT_INCREMENT)) ts) = map (rf_result cfg) [Suc i..<Suc i + length ts]"
    by (rule Cons.IH [OF step(2)]) (use Cons.prems in simp_all)
  moreover have "[i..<i + length (t # ts)] = i # [Suc i..<Suc i + length ts]"
    by (simp add: upt_conv_Cons del: upt_Suc)
  ultimately show ?case using step(1) Cons.prems(4) by simp
qed

text \<open>Limits on open sessions (\<open>seconds\<close> 0) whose action is to drop.\<close>

lemma rf_stuck_step:
  assumes "rc_seconds cfg = 0" and "rc_newAction cfg = RULE_TYPE__DROP"
    and "rn_filterState v = FS_ON" and "rn_count v = rc_count cfg" and "rc_count cfg + 1 \<noteq> 0"
  shows "fst (rf_react cfg v (t, SFRF_COUNT_INCREMENT)) = RULE_TYPE__DROP"
    and "rn_filterState (snd (rf_react cfg v (t, SFRF_COUNT_INCREMENT))) = FS_ON"
    and "rn_count (snd (rf_react cfg v (t, SFRF_COUNT_INCREMENT))) = rc_count cfg"
proof -
  have "rc_count cfg < rc_count cfg + 1" using assms(5) by (rule word_less_Suc)
  with assms show "fst (rf_react cfg v (t, SFRF_COUNT_INCREMENT)) = RULE_TYPE__DROP"
    "rn_filterState (snd (rf_react cfg v (t, SFRF_COUNT_INCREMENT))) = FS_ON"
    "rn_count (snd (rf_react cfg v (t, SFRF_COUNT_INCREMENT))) = rc_count cfg"
    by (auto simp: rf_react_def rf_test_node_def rf_init_node_def checkSamplingPeriod_def rf_count_op_def
        checkThreshold_def Let_def)
qed

lemma rf_stuck_feed:
  assumes "rc_seconds cfg = 0" and "rc_newAction cfg = RULE_TYPE__DROP" and "rc_count cfg + 1 \<noteq> 0"
    and "rn_filterState v = FS_ON" and "rn_count v = rc_count cfg"
  shows "rf_node_feed cfg v (map (\<lambda>t. (t, SFRF_COUNT_INCREMENT)) ts) = replicate (length ts) RULE_TYPE__DROP"
  using assms(4,5)
proof (induction ts arbitrary: v)
  case Nil
  then show ?case by simp
next
  case (Cons t ts)
  note step = rf_stuck_step [OF assms(1,2) Cons.prems assms(3), of t]
  from Cons.IH [OF step(2,3)] step(1) show ?case by simp
qed

subsection \<open>Properties\<close>

text \<open>A table with one row and no room beyond the one node it holds, for the witnesses.\<close>

definition rf_sample :: "tSFRFTrackingNodeKey \<Rightarrow> tSFRFTrackingNode \<Rightarrow> rf_table" where
  "rf_sample k d = \<lparr>xh_hash = (\<lambda>_. 0), xh_keycmp = (\<lambda>a b. if a = b then 0 else 1), xh_keysize = 32,
     xh_datasize = 40, xh_table = [[0]], xh_nrows = 1, xh_count = 1, xh_crow = 0, xh_cnode = None,
     xh_splay = 1, xh_max_nodes = 0, xh_mc = \<lparr>mc_memused = 152, mc_memcap = 160, mc_nblocks = 2\<rparr>,
     xh_overhead_bytes = 16, xh_overhead_blocks = 1, xh_find_fail = 1, xh_find_success = 0,
     xh_glist = [0], xh_flist = [], xh_recycle_nodes = True, xh_anr_tries = 0, xh_anr_count = 0,
     xh_anr_flag = True, xh_anrfree = None, xh_usrfree = False, xh_freed = [], xh_zero = rf_zero,
     xh_nodes = (\<lambda>_. \<lparr>hn_key = k, hn_data = Some d, hn_rindex = 0\<rparr>), xh_blocks = (\<lambda>_. 136), xh_next = 1\<rparr>"

lemma rf_sample_wf: "xh_wf (rf_sample k d)"
  by (simp add: rf_sample_def xh_wf_def chains_ok_def xh_row_def)

lemma rf_sample_alist: "xh_alist (rf_sample k d) = [(k, Some d)]"
  by (simp add: rf_sample_def xh_alist_def xh_entry_def)

lemma rf_sample_ok: "xh_store_ok (rf_sample k d)" and rf_sample_get: "xh_get (rf_sample k d) k = Some d"
proof -
  show "xh_store_ok (rf_sample k d)" using rf_sample_wf by (simp add: xh_store_ok_def) (simp add: rf_sample_def)
  show "xh_get (rf_sample k d) k = Some d" by (simp add: xh_get_def xh_lookup_def rf_sample_alist)
qed

definition rf_cfg :: "u32 \<Rightarrow> u32 \<Rightarrow> u32 \<Rightarrow> tSFRFConfigNode" where
  "rf_cfg count seconds timeout = \<lparr>rc_tid = 1, rc_gid = 1, rc_sid = 5, rc_policyId = 0,
     rc_tracking = SFRF_TRACK_BY_SRC, rc_count = count, rc_seconds = seconds,
     rc_newAction = RULE_TYPE__DROP, rc_timeout = timeout, rc_applyTo = None\<rparr>"

abbreviation rf_ip :: "128 word \<Rightarrow> sfip_t" where
  "rf_ip a \<equiv> \<lparr>ip_family = 2, ip_bits = 32, ip_addr = a\<rparr>"

text \<open>
  C7: within one sampling period of \<open>seconds\<close>, the events of an address that is not being
  filtered keep their own action up to \<open>count\<close> of them; the next one starts the new action (and
  is reported with \<open>RULE_TYPE__MAX\<close> added), and all later ones get it, whatever the timeout.
\<close>

theorem rate_filter_period:
  assumes "xh_store_ok h" and "xh_get h (rf_key pid cfg ip) = Some v" and "rf_period cfg t0 0 v"
    and "0 < unat (rc_seconds cfg)" and "length ts < 2 ^ 32"
    and "\<forall>t\<in>set ts. unat t0 \<le> unat t \<and> unat t - unat t0 < unat (rc_seconds cfg)"
  shows "rf_feed pid cfg ip h (map (\<lambda>t. (t, SFRF_COUNT_INCREMENT)) ts) = map (rf_result cfg) [0..<length ts]"
  using rf_feed_hit [OF assms(1,2)] rf_period_feed [OF assms(3,4) _ assms(6)] assms(5) by simp

theorem rate_filter_period_witness:
  "rf_feed 0 (rf_cfg 2 60 10) (rf_ip 1)
     (rf_sample (rf_key 0 (rf_cfg 2 60 10) (rf_ip 1)) (rf_zero\<lparr>rn_filterState := FS_OFF, rn_tstart := 100, rn_tlast := 100\<rparr>))
     (map (\<lambda>t. (t, SFRF_COUNT_INCREMENT)) [100, 110, 120, 159]) = [-1, -1, 12, 3]"
proof (rule trans [OF rate_filter_period [OF rf_sample_ok rf_sample_get, where ?t0.0 = 100]])
  show "map (rf_result (rf_cfg 2 60 10)) [0..<length [100, 110, 120, 159 :: u64]] = [-1, -1, 12, 3]"
    by (simp add: rf_result_def rf_cfg_def upt_rec RULE_TYPE__MAX_def RULE_TYPE__DROP_def)
qed (simp_all add: rf_period_def rf_zero_def rf_cfg_def)

text \<open>
  when the table is full, an address that was never seen takes over the tracking node of the
  least recently used one with its state: if that one was being filtered by an object without
  timeout, the very first event of the new address is given the new action. The comment of
  \<open>tSFRFTrackingNode\<close> promises a node initialised to \<open>FS_NEW\<close>.
\<close>

theorem rate_filter_inherits:
  assumes "xh_wf h" and "xh_anrfree h = None" and "xh_datasize h \<noteq> 0" and "\<not> xh_room h" and "xh_anr_flag h"
    and "xh_alist h = al @ [(k0, Some d0)]" and "rn_filterState d0 = FS_ON"
    and "rf_key pid cfg ip \<notin> fst ` set (xh_alist h)" and "rc_timeout cfg = 0"
  shows "fst (SFRF_TestObject pid cfg ip t oper h) = rc_newAction cfg"
proof -
  obtain n h1 where get: "sfxhash_get_node h (rf_key pid cfg ip) = (Some n, h1)" "hn_data (xh_nodes h1 n) = Some d0"
    using xh_recovered [OF assms(1-6,8)] by blast
  have "rf_init_node d0 t = d0" using assms(7) by (simp add: rf_init_node_def)
  then have "fst (SFRF_TestObject pid cfg ip t oper h) = fst (rf_test_node cfg d0 t oper)"
    using get by (simp add: SFRF_TestObject_def getSFRFTrackingNode_def rf_key_def case_prod_unfold Let_def)
  also have "\<dots> = rc_newAction cfg"
    using assms(7,9) by (simp add: rf_test_node_def checkThreshold_def checkSamplingPeriod_def Let_def)
  finally show ?thesis .
qed

theorem rate_filter_inherits_witness:
  "fst (SFRF_TestObject 0 (rf_cfg 100 60 0) (rf_ip 9) 500 SFRF_COUNT_INCREMENT
     (rf_sample (rf_key 0 (rf_cfg 2 60 0) (rf_ip 1)) (rf_zero\<lparr>rn_filterState := FS_ON\<rparr>))) = 3"
  by (rule trans [OF rate_filter_inherits [OF rf_sample_wf, where al = "[]"]])
    (simp_all add: rf_sample_alist, simp_all add: rf_sample_def xh_room_def s_alloc_def sfmemcap_alloc_def
      rf_key_def rf_cfg_def RULE_TYPE__DROP_def Let_def)

text \<open>
  C8: a limit on open sessions (\<open>seconds\<close> 0) with action drop whose count stands at the limit while
  it is active never lets a session through again, at whatever times the attempts come and
  whatever the timeout: each attempt counts, exceeds the limit, is dropped and taken back.
\<close>

theorem rate_filter_stuck:
  assumes "xh_store_ok h" and "xh_get h (rf_key pid cfg ip) = Some v"
    and "rc_seconds cfg = 0" and "rc_newAction cfg = RULE_TYPE__DROP" and "rc_count cfg + 1 \<noteq> 0"
    and "rn_filterState v = FS_ON" and "rn_count v = rc_count cfg"
  shows "rf_feed pid cfg ip h (map (\<lambda>t. (t, SFRF_COUNT_INCREMENT)) ts) = replicate (length ts) RULE_TYPE__DROP"
  using rf_feed_hit [OF assms(1,2)] rf_stuck_feed [OF assms(3-7)] by simp

theorem rate_filter_stuck_witness:
  "rf_feed 0 (rf_cfg 2 0 10) (rf_ip 1)
     (rf_sample (rf_key 0 (rf_cfg 2 0 10) (rf_ip 1)) (rf_zero\<lparr>rn_filterState := FS_ON, rn_count := 2\<rparr>))
     (map (\<lambda>t. (t, SFRF_COUNT_INCREMENT)) [100, 2000, 30000]) = replicate (length [100, 2000, 30000 :: u64]) RULE_TYPE__DROP"
  by (rule rate_filter_stuck [OF rf_sample_ok rf_sample_get]) (simp_all add: rf_cfg_def)

text \<open>
  Such a state is reached with no session open at all: with a limit of two and a timeout of ten
  seconds, two sessions are opened, a third is refused, both are closed, and two attempts are
  dropped by the timeout while they count.
\<close>

fun rf_node_run :: "tSFRFConfigNode \<Rightarrow> tSFRFTrackingNode \<Rightarrow> (u64 \<times> SFRF_COUNT_OPERATION) list \<Rightarrow> tSFRFTrackingNode" where
  "rf_node_run cfg v [] = v"
| "rf_node_run cfg v (e # es) = rf_node_run cfg (snd (rf_react cfg v e)) es"

lemma rf_phantom_steps:
  defines "c \<equiv> rf_cfg 2 0 10"
  defines "s \<equiv> \<lambda>f over last n rev. \<lparr>rn_filterState = f, rn_overRate = over, rn_tlast = last, rn_count = n,
     rn_tstart = 100, rn_revertTime = rev\<rparr>"
  shows "rf_react c rf_zero (100, SFRF_COUNT_INCREMENT) = (-1, s FS_OFF False 100 1 0)"
    and "rf_react c (s FS_OFF False 100 1 0) (101, SFRF_COUNT_INCREMENT) = (-1, s FS_OFF False 101 2 0)"
    and "rf_react c (s FS_OFF False 101 2 0) (102, SFRF_COUNT_INCREMENT) = (12, s FS_ON True 102 2 102)"
    and "rf_react c (s FS_ON True 102 2 102) (103, SFRF_COUNT_DECREMENT) = (3, s FS_ON False 103 1 102)"
    and "rf_react c (s FS_ON False 103 1 102) (104, SFRF_COUNT_DECREMENT) = (3, s FS_ON False 104 0 102)"
    and "rf_react c (s FS_ON False 104 0 102) (105, SFRF_COUNT_INCREMENT) = (3, s FS_ON False 105 1 102)"
    and "rf_react c (s FS_ON False 105 1 102) (106, SFRF_COUNT_INCREMENT) = (3, s FS_ON False 106 2 102)"
  unfolding c_def s_def rf_react_def rf_test_node_def rf_init_node_def checkSamplingPeriod_def rf_count_op_def
    checkThreshold_def rf_cfg_def rf_zero_def RULE_TYPE__MAX_def RULE_TYPE__DROP_def
  by (simp_all add: Let_def) (simp add: word_le_nat_alt)

lemma rf_phantom_sessions:
  defines "es \<equiv> [(100, SFRF_COUNT_INCREMENT), (101, SFRF_COUNT_INCREMENT), (102, SFRF_COUNT_INCREMENT),
     (103, SFRF_COUNT_DECREMENT), (104, SFRF_COUNT_DECREMENT), (105, SFRF_COUNT_INCREMENT), (106, SFRF_COUNT_INCREMENT)]"
  shows "rf_node_feed (rf_cfg 2 0 10) rf_zero es = [-1, -1, 12, 3, 3, 3, 3]"
    and "rn_filterState (rf_node_run (rf_cfg 2 0 10) rf_zero es) = FS_ON"
    and "rn_count (rf_node_run (rf_cfg 2 0 10) rf_zero es) = 2"
  by (simp_all add: es_def rf_phantom_steps)

end
