(* ===== verification/SfEventq.thy ===== *)
theory SfEventq
  imports SnortPrelude
begin

text \<open>
  The event queue of a packet: \<open>src/src/sfutil/sfeventq.c\<close> and its use in
  \<open>src/src/event_queue.c\<close>. The events live in \<open>max_nodes + 1\<close> slots of \<open>event_mem\<close> and are named by
  their slot; \<open>eq_list\<close> is the list of nodes from \<open>head\<close> to \<open>last\<close>, each read as the slot of
  its event. A node's place in \<open>node_mem\<close> is never looked at, so it is left out.
\<close>

subsection \<open>The queue (sfeventq.c)\<close>

record 'e SF_EVENTQ =
  eq_list :: "nat list"
  eq_mem :: "nat \<Rightarrow> 'e"
  eq_reserve :: "nat option"
  eq_max_nodes :: nat
  eq_log_nodes :: nat
  eq_sort :: "('e \<Rightarrow> 'e \<Rightarrow> bool) option"
  eq_cur_nodes :: nat
  eq_cur_events :: nat

text \<open>\<open>zero\<close> is the event whose bytes are all zero.\<close>

definition sfeventq_new ::
  "'e \<Rightarrow> int \<Rightarrow> int \<Rightarrow> int \<Rightarrow> ('e \<Rightarrow> 'e \<Rightarrow> bool) option \<Rightarrow> 'e SF_EVENTQ option" where
  "sfeventq_new zero max_nodes log_nodes event_size srt =
     (if max_nodes \<le> 0 \<or> log_nodes \<le> 0 \<or> event_size \<le> 0 then None
      else Some \<lparr>eq_list = [], eq_mem = (\<lambda>_. zero), eq_reserve = Some (nat max_nodes),
                 eq_max_nodes = nat max_nodes, eq_log_nodes = nat log_nodes, eq_sort = srt,
                 eq_cur_nodes = 0, eq_cur_events = 0\<rparr>)"

definition sfeventq_event_alloc :: "'e SF_EVENTQ \<Rightarrow> nat option \<times> 'e SF_EVENTQ" where
  "sfeventq_event_alloc eq =
     (if eq_max_nodes eq \<le> eq_cur_events eq
      then (case eq_reserve eq of
              None \<Rightarrow> (None, eq)
            | Some event \<Rightarrow> (Some event, eq\<lparr>eq_reserve := None\<rparr>))
      else (Some (eq_cur_events eq), eq\<lparr>eq_cur_events := eq_cur_events eq + 1\<rparr>))"

definition sfeventq_reset :: "'e SF_EVENTQ \<Rightarrow> 'e SF_EVENTQ" where
  "sfeventq_reset eq =
     eq\<lparr>eq_list := [], eq_cur_nodes := 0, eq_cur_events := 0, eq_reserve := Some (eq_max_nodes eq)\<rparr>"

text \<open>Whether there is a node for the event; with the queue full, the last node is taken out for it.\<close>

definition get_eventq_node :: "'e SF_EVENTQ \<Rightarrow> nat \<Rightarrow> bool \<times> 'e SF_EVENTQ" where
  "get_eventq_node eq event =
     (if eq_max_nodes eq \<le> eq_cur_nodes eq
      then (case eq_sort eq of
              None \<Rightarrow> (False, eq)
            | Some srt \<Rightarrow>
                (if \<not> srt (eq_mem eq event) (eq_mem eq (last (eq_list eq)))
                 then (False, eq\<lparr>eq_reserve := Some event\<rparr>)
                 else (True, eq\<lparr>eq_reserve := Some (last (eq_list eq)),
                                eq_list := butlast (eq_list eq)\<rparr>)))
      else (True, eq\<lparr>eq_cur_nodes := eq_cur_nodes eq + 1\<rparr>))"

text \<open>The walk of \<open>sfeventq_add\<close>: before the first node that the event sorts before, else at the end.\<close>

fun eq_insert :: "('e \<Rightarrow> 'e \<Rightarrow> bool) \<Rightarrow> (nat \<Rightarrow> 'e) \<Rightarrow> nat \<Rightarrow> nat list \<Rightarrow> nat list" where
  "eq_insert srt mem event [] = [event]"
| "eq_insert srt mem event (tmp # ns) =
     (if srt (mem event) (mem tmp) then event # tmp # ns else tmp # eq_insert srt mem event ns)"

definition sfeventq_add :: "'e SF_EVENTQ \<Rightarrow> nat option \<Rightarrow> int \<times> 'e SF_EVENTQ" where
  "sfeventq_add eq ev =
     (case ev of
        None \<Rightarrow> (-1, eq)
      | Some event \<Rightarrow>
          (case get_eventq_node eq event of
             (False, eq1) \<Rightarrow> (-1, eq1)
           | (True, eq1) \<Rightarrow>
               (if eq_cur_nodes eq1 = 1 then (0, eq1\<lparr>eq_list := [event]\<rparr>)
                else (case eq_sort eq1 of
                        Some srt \<Rightarrow>
                          (0, eq1\<lparr>eq_list := eq_insert srt (eq_mem eq1) event (eq_list eq1)\<rparr>)
                      | None \<Rightarrow> (0, eq1\<lparr>eq_list := eq_list eq1 @ [event]\<rparr>)))))"

text \<open>The loop of \<open>sfeventq_action\<close>; the action returns whether it failed and a new state.\<close>

fun eq_action_loop ::
  "('e \<Rightarrow> 's \<Rightarrow> bool \<times> 's) \<Rightarrow> nat \<Rightarrow> nat \<Rightarrow> 'e list \<Rightarrow> 's \<Rightarrow> int \<times> 's" where
  "eq_action_loop f log_nodes logged [] s = (1, s)"
| "eq_action_loop f log_nodes logged (e # es) s =
     (if log_nodes \<le> logged then (1, s)
      else (case f e s of
              (True, s') \<Rightarrow> (-1, s')
            | (False, s') \<Rightarrow> eq_action_loop f log_nodes (logged + 1) es s'))"

definition sfeventq_action ::
  "'e SF_EVENTQ \<Rightarrow> ('e \<Rightarrow> 's \<Rightarrow> bool \<times> 's) option \<Rightarrow> 's \<Rightarrow> int \<times> 's" where
  "sfeventq_action eq action_func s =
     (case action_func of
        None \<Rightarrow> (-1, s)
      | Some f \<Rightarrow>
          (if eq_list eq = [] then (0, s)
           else eq_action_loop f (eq_log_nodes eq) 0 (map (eq_mem eq) (eq_list eq)) s))"

subsection \<open>The queues of the program (event_queue.c)\<close>

definition NUM_EVENT_QUEUES :: nat where "NUM_EVENT_QUEUES = 3"

record EventNode =
  en_gid :: u32
  en_sid :: u32
  en_rev :: u32
  en_classification :: u32
  en_priority :: u32
  en_msg :: string
  en_rule_info :: bool   \<comment> \<open>whether there is a rule\<close>

text \<open>
  What the program knows of rules: which events have an option node (OTN), which of these have
  a tree node (RTN) in the policy, and whether missing ones are made
  (\<open>ScAutoGenPreprocDecoderOtns\<close>), with the success of making them.
\<close>

record rule_nodes =
  ru_otn :: "u32 \<Rightarrow> u32 \<Rightarrow> bool"
  ru_rtn :: "u32 \<Rightarrow> u32 \<Rightarrow> bool"
  ru_autogen :: bool
  ru_gen_otn :: "u32 \<Rightarrow> u32 \<Rightarrow> bool"
  ru_gen_rtn :: "u32 \<Rightarrow> u32 \<Rightarrow> bool"

record eventq_state =
  es_qIndex :: nat
  es_qOverflow :: nat
  es_s_events :: nat
  es_queues :: "EventNode SF_EVENTQ list"
  es_log_limit :: nat   \<comment> \<open>\<open>pc.log_limit\<close>\<close>

definition SnortEventqPush :: "eventq_state \<Rightarrow> eventq_state" where
  "SnortEventqPush st =
     (if es_qIndex st < NUM_EVENT_QUEUES - 1 then st\<lparr>es_qIndex := es_qIndex st + 1\<rparr>
      else st\<lparr>es_qOverflow := es_qOverflow st + 1\<rparr>)"

definition SnortEventqPop :: "eventq_state \<Rightarrow> eventq_state" where
  "SnortEventqPop st =
     (if es_qOverflow st > 0 then st\<lparr>es_qOverflow := es_qOverflow st - 1\<rparr>
      else if es_qIndex st > 0 then st\<lparr>es_qIndex := es_qIndex st - 1\<rparr> else st)"

text \<open>
  The test of the build (\<open>PREPROCESSOR_AND_DECODER_RULE_EVENTS\<close>) that an event has its rule nodes:
  \<open>None\<close> when it has not, else the nodes with those that were made.
\<close>

definition event_rule_nodes :: "rule_nodes \<Rightarrow> u32 \<Rightarrow> u32 \<Rightarrow> rule_nodes option" where
  "event_rule_nodes ru gid sid =
     (if \<not> ru_otn ru gid sid
      then (if ru_autogen ru \<and> ru_gen_otn ru gid sid
            then Some (ru\<lparr>ru_otn := (ru_otn ru)(gid := (ru_otn ru gid)(sid := True))\<rparr>)
            else None)
      else if \<not> ru_rtn ru gid sid
      then (if ru_autogen ru \<and> ru_gen_rtn ru gid sid
            then Some (ru\<lparr>ru_rtn := (ru_rtn ru)(gid := (ru_rtn ru gid)(sid := True))\<rparr>)
            else None)
      else Some ru)"

definition SnortEventqAdd ::
  "rule_nodes \<Rightarrow> eventq_state \<Rightarrow> EventNode \<Rightarrow> int \<times> rule_nodes \<times> eventq_state" where
  "SnortEventqAdd ru st en =
     (let q = es_queues st ! es_qIndex st;
          put = (\<lambda>q'. st\<lparr>es_queues := (es_queues st)[es_qIndex st := q']\<rparr>)
      in case sfeventq_event_alloc q of
           (None, q1) \<Rightarrow> (-1, ru, put q1)
         | (Some slot, q1) \<Rightarrow>
             (let q2 = q1\<lparr>eq_mem := (eq_mem q1)(slot := en)\<rparr>
              in case event_rule_nodes ru (en_gid en) (en_sid en) of
                   None \<Rightarrow> (0, ru, put q2)
                 | Some ru' \<Rightarrow>
                     (let (r, q3) = sfeventq_add q2 (Some slot)
                      in if r \<noteq> 0 then (-1, ru', put q3)
                         else (0, ru', (put q3)\<lparr>es_s_events := es_s_events st + 1\<rparr>))))"

definition SnortEventqResetCounts :: "eventq_state \<Rightarrow> eventq_state" where
  "SnortEventqResetCounts st = st\<lparr>es_log_limit := es_log_limit st + es_s_events st, es_s_events := 0\<rparr>"

definition SnortEventqReset :: "eventq_state \<Rightarrow> eventq_state" where
  "SnortEventqReset st =
     SnortEventqResetCounts
       (st\<lparr>es_queues := (es_queues st)
             [es_qIndex st := sfeventq_reset (es_queues st ! es_qIndex st)]\<rparr>)"

record EventQueueConfig =
  ec_max_events :: int
  ec_log_events :: int
  ec_process_all_events :: bool

definition EventQueueConfigNew :: EventQueueConfig where
  "EventQueueConfigNew = \<lparr>ec_max_events = 8, ec_log_events = 3, ec_process_all_events = False\<rparr>"

text \<open>\<open>None\<close> is the fatal error of a configuration that makes no queue. The build has no sort function.\<close>

definition SnortEventqNew :: "EventNode \<Rightarrow> int \<Rightarrow> EventQueueConfig \<Rightarrow> EventNode SF_EVENTQ list option" where
  "SnortEventqNew zero event_size c =
     map_option (replicate NUM_EVENT_QUEUES)
       (sfeventq_new zero (ec_max_events c) (ec_log_events c) event_size None)"

subsection \<open>Ranking\<close>

text \<open>Allocate, fill in and add one event, as the header of \<open>sfeventq.c\<close> says to.\<close>

definition eq_post :: "'e SF_EVENTQ \<Rightarrow> 'e \<Rightarrow> 'e SF_EVENTQ" where
  "eq_post eq e =
     (case sfeventq_event_alloc eq of
        (None, eq1) \<Rightarrow> eq1
      | (Some slot, eq1) \<Rightarrow>
          snd (sfeventq_add (eq1\<lparr>eq_mem := (eq_mem eq1)(slot := e)\<rparr>) (Some slot)))"

definition eq_events :: "'e SF_EVENTQ \<Rightarrow> 'e list" where
  "eq_events eq = map (eq_mem eq) (eq_list eq)"

text \<open>
  No two queued events share a slot; the reserve is free; the free slots are those not yet given
  out and the reserve; \<open>cur_nodes\<close> is the length.
\<close>

definition eq_ok :: "'e SF_EVENTQ \<Rightarrow> bool" where
  "eq_ok eq \<longleftrightarrow>
     distinct (eq_list eq) \<and> eq_cur_nodes eq = length (eq_list eq) \<and>
     length (eq_list eq) \<le> eq_max_nodes eq \<and> 0 < eq_max_nodes eq \<and>
     (case eq_reserve eq of
        Some r \<Rightarrow> r \<notin> set (eq_list eq) \<and> r \<le> eq_max_nodes eq \<and> eq_cur_events eq = length (eq_list eq) \<and>
                  (eq_cur_events eq < eq_max_nodes eq \<longrightarrow>
                     r = eq_max_nodes eq \<and> set (eq_list eq) = {..<eq_cur_events eq}) \<and>
                  set (eq_list eq) \<subseteq> {..eq_max_nodes eq}
      | None \<Rightarrow> eq_sort eq = None \<and> eq_cur_events eq = eq_max_nodes eq \<and>
                length (eq_list eq) = eq_max_nodes eq)"

text \<open>Stable insertion by rank: after the events that are not worse.\<close>

fun rank_insert :: "('e \<Rightarrow> 'e \<Rightarrow> bool) \<Rightarrow> 'e \<Rightarrow> 'e list \<Rightarrow> 'e list" where
  "rank_insert srt e [] = [e]"
| "rank_insert srt e (x # xs) = (if srt e x then e # x # xs else x # rank_insert srt e xs)"

definition rank_all :: "('e \<Rightarrow> 'e \<Rightarrow> bool) \<Rightarrow> 'e list \<Rightarrow> 'e list" where
  "rank_all srt es = fold (rank_insert srt) es []"

definition strict_weak :: "('e \<Rightarrow> 'e \<Rightarrow> bool) \<Rightarrow> bool" where
  "strict_weak srt \<longleftrightarrow>
     (\<forall>a b. srt a b \<longrightarrow> \<not> srt b a) \<and> (\<forall>a b c. srt a c \<longrightarrow> srt a b \<or> srt b c)"

lemma eq_insert_map: "map mem (eq_insert srt mem ev ns) = rank_insert srt (mem ev) (map mem ns)"
  by (induction ns) auto

lemma eq_insert_set [simp]: "set (eq_insert srt mem ev ns) = insert ev (set ns)"
  by (induction ns) auto

lemma eq_insert_length [simp]: "length (eq_insert srt mem ev ns) = Suc (length ns)"
  by (induction ns) auto

lemma eq_insert_distinct [simp]: "distinct (eq_insert srt mem ev ns) \<longleftrightarrow> ev \<notin> set ns \<and> distinct ns"
  by (induction ns) auto

lemma rank_insert_length [simp]: "length (rank_insert srt e xs) = Suc (length xs)"
  by (induction xs) auto

text \<open>The order of a ranked list: no event sorts before an earlier one.\<close>

definition ranked :: "('e \<Rightarrow> 'e \<Rightarrow> bool) \<Rightarrow> 'e list \<Rightarrow> bool" where
  "ranked srt xs \<longleftrightarrow> sorted_wrt (\<lambda>a b. \<not> srt b a) xs"

lemma rank_insert_set [simp]: "set (rank_insert srt e xs) = insert e (set xs)"
  by (induction xs) auto

lemma strict_weak_trans:
  assumes "strict_weak srt" and "srt a b" and "srt b c"
  shows "srt a c"
  using assms unfolding strict_weak_def by blast

lemma rank_insert_ranked:
  assumes "strict_weak srt" and "ranked srt xs"
  shows "ranked srt (rank_insert srt e xs)"
  using assms(2)
proof (induction xs)
  case Nil
  then show ?case by (simp add: ranked_def)
next
  case (Cons x xs)
  have "\<not> srt y e" if "srt e x" "y = x \<or> y \<in> set xs" for y
    using that Cons.prems strict_weak_trans [OF assms(1), of y e x] assms(1)
    by (auto simp: ranked_def strict_weak_def)
  with Cons show ?case by (auto simp: ranked_def)
qed

text \<open>What a bounded queue does: the last of a full one makes place for a better event.\<close>

lemma rank_insert_take:
  assumes sw: "strict_weak srt" and r: "ranked srt xs" and k: "0 < k" "k \<le> length xs"
  shows "take k (rank_insert srt e xs) =
     (if srt e (xs ! (k - 1)) then rank_insert srt e (take (k - 1) xs) else take k xs)"
  using r k
proof (induction xs arbitrary: k)
  case Nil
  then show ?case by simp
next
  case (Cons x xs)
  show ?case
  proof (cases "k = 1")
    case True
    then show ?thesis by simp
  next
    case False
    then obtain j where j: "k = Suc j" "0 < j" "j \<le> length xs" using Cons.prems(2,3) by (cases k) auto
    have r: "ranked srt xs" and le: "\<forall>y\<in>set xs. \<not> srt y x" using Cons.prems(1) by (auto simp: ranked_def)
    have IH: "take j (rank_insert srt e xs) =
        (if srt e (xs ! (j - 1)) then rank_insert srt e (take (j - 1) xs) else take j xs)"
      by (rule Cons.IH [OF r j(2,3)])
    have mem: "xs ! (j - 1) \<in> set xs" using j by simp
    have nth: "(x # xs) ! (k - 1) = xs ! (j - 1)" using j by (simp add: nth_Cons')
    have tk: "take (k - 1) (x # xs) = x # take (j - 1) xs" using j by (simp add: take_Cons')
    show ?thesis
    proof (cases "srt e x")
      case True
      then have "srt e (xs ! (j - 1))" using sw le mem unfolding strict_weak_def by blast
      then show ?thesis using True j nth tk by simp
    next
      case False
      then show ?thesis using IH j nth tk by simp
    qed
  qed
qed

lemma rank_insert_last:
  assumes "ranked srt xs" and "\<forall>x\<in>set xs. \<not> srt e x"
  shows "rank_insert srt e xs = xs @ [e]"
  using assms(2) by (induction xs) auto


subsection \<open>The queue implements ranking\<close>

lemma eq_events_cong: "eq_events eq = map (eq_mem eq) (eq_list eq)"
  by (simp add: eq_events_def)

lemma eq_post_room:
  assumes ok: "eq_ok eq" and room: "eq_cur_events eq < eq_max_nodes eq"
  shows "eq_ok (eq_post eq e)" and "eq_sort (eq_post eq e) = eq_sort eq"
    and "eq_max_nodes (eq_post eq e) = eq_max_nodes eq" and "eq_log_nodes (eq_post eq e) = eq_log_nodes eq"
    and "eq_events (eq_post eq e) =
       (case eq_sort eq of Some srt \<Rightarrow> rank_insert srt e (eq_events eq) | None \<Rightarrow> eq_events eq @ [e])"
proof -
  let ?n = "eq_cur_events eq"
  obtain r where r: "eq_reserve eq = Some r" using ok room by (auto simp: eq_ok_def split: option.splits)
  have f: "r = eq_max_nodes eq" "set (eq_list eq) = {..<?n}" "?n = length (eq_list eq)"
    "eq_cur_nodes eq = ?n" "distinct (eq_list eq)"
    using ok room r by (auto simp: eq_ok_def)
  have fresh: "?n \<notin> set (eq_list eq)" using f(2) by auto
  have keep: "map ((eq_mem eq)(?n := e)) (eq_list eq) = eq_events eq"
    using fresh by (auto simp: eq_events_def)
  let ?l = "case eq_sort eq of Some srt \<Rightarrow> eq_insert srt ((eq_mem eq)(?n := e)) ?n (eq_list eq)
      | None \<Rightarrow> eq_list eq @ [?n]"
  have post: "eq_post eq e = eq\<lparr>eq_list := ?l, eq_mem := (eq_mem eq)(?n := e),
      eq_cur_nodes := ?n + 1, eq_cur_events := ?n + 1\<rparr>"
  proof (cases "?n = 0")
    case True
    then have "eq_list eq = []" using f(3) by simp
    then show ?thesis using room f(4) True
      by (simp add: eq_post_def sfeventq_event_alloc_def sfeventq_add_def get_eventq_node_def split: option.split)
  next
    case False
    then show ?thesis using room f(4)
      by (simp add: eq_post_def sfeventq_event_alloc_def sfeventq_add_def get_eventq_node_def split: option.split)
  qed
  have l: "set ?l = insert ?n (set (eq_list eq))" "length ?l = ?n + 1" "distinct ?l"
    using f fresh by (auto split: option.split)
  show "eq_ok (eq_post eq e)"
    using l f room r unfolding post eq_ok_def by (auto simp: lessThan_Suc)
  show "eq_sort (eq_post eq e) = eq_sort eq" "eq_max_nodes (eq_post eq e) = eq_max_nodes eq"
    "eq_log_nodes (eq_post eq e) = eq_log_nodes eq" by (simp_all add: post)
  show "eq_events (eq_post eq e) =
      (case eq_sort eq of Some srt \<Rightarrow> rank_insert srt e (eq_events eq) | None \<Rightarrow> eq_events eq @ [e])"
    using keep fresh by (simp add: post eq_events_def eq_insert_map split: option.split)
qed

lemma eq_post_full:
  assumes ok: "eq_ok eq" and full: "eq_cur_events eq = eq_max_nodes eq" and s: "eq_sort eq = Some srt"
  shows "eq_ok (eq_post eq e)" and "eq_sort (eq_post eq e) = eq_sort eq"
    and "eq_max_nodes (eq_post eq e) = eq_max_nodes eq" and "eq_log_nodes (eq_post eq e) = eq_log_nodes eq"
    and "eq_events (eq_post eq e) =
       (if srt e (last (eq_events eq)) then rank_insert srt e (butlast (eq_events eq)) else eq_events eq)"
proof -
  obtain r where r: "eq_reserve eq = Some r" using ok s by (auto simp: eq_ok_def split: option.splits)
  have f: "r \<notin> set (eq_list eq)" "r \<le> eq_max_nodes eq" "eq_max_nodes eq = length (eq_list eq)"
    "eq_cur_nodes eq = eq_max_nodes eq" "distinct (eq_list eq)" "0 < eq_max_nodes eq"
    "set (eq_list eq) \<subseteq> {..eq_max_nodes eq}"
    using ok full r by (auto simp: eq_ok_def)
  have ne: "eq_list eq \<noteq> []" using f(3,6) by auto
  let ?mem = "(eq_mem eq)(r := e)" and ?last = "last (eq_list eq)"
  have last: "?last \<in> set (eq_list eq)" using ne by simp
  then have rl: "?last \<noteq> r" using f(1) by auto
  have keep: "map ?mem (eq_list eq) = eq_events eq" "map ?mem (butlast (eq_list eq)) = butlast (eq_events eq)"
    using f(1) by (auto simp: eq_events_def map_butlast dest: in_set_butlastD)
  have le: "last (eq_events eq) = eq_mem eq ?last" using ne by (simp add: eq_events_def last_map)
  have bl: "length (butlast (eq_list eq)) = eq_max_nodes eq - 1" "distinct (butlast (eq_list eq))"
    "?last \<notin> set (butlast (eq_list eq))" "r \<notin> set (butlast (eq_list eq))"
    using f ne by (auto simp: distinct_butlast dest: in_set_butlastD)
      (metis append_butlast_last_id distinct_append disjoint_iff list.set_intros(1))
  have one: "butlast (eq_list eq) = []" if "eq_max_nodes eq = 1"
    using bl(1) that by (metis diff_self_eq_0 length_0_conv)
  have post: "eq_post eq e = (if srt e (eq_mem eq ?last)
      then eq\<lparr>eq_list := eq_insert srt ?mem r (butlast (eq_list eq)), eq_mem := ?mem, eq_reserve := Some ?last\<rparr>
      else eq\<lparr>eq_mem := ?mem, eq_reserve := Some r\<rparr>)"
  proof -
    let ?q = "eq\<lparr>eq_reserve := None, eq_mem := ?mem\<rparr>"
    have a: "sfeventq_event_alloc eq = (Some r, eq\<lparr>eq_reserve := None\<rparr>)"
      by (simp add: sfeventq_event_alloc_def full r)
    have g: "get_eventq_node ?q r = (if srt e (eq_mem eq ?last)
        then (True, ?q\<lparr>eq_reserve := Some ?last, eq_list := butlast (eq_list eq)\<rparr>)
        else (False, ?q\<lparr>eq_reserve := Some r\<rparr>))"
      using rl by (simp add: get_eventq_node_def f(4) s)
    show ?thesis
    proof (cases "srt e (eq_mem eq ?last)")
      case False
      then show ?thesis by (simp add: eq_post_def a sfeventq_add_def g)
    next
      case True
      then show ?thesis
        using one f(4) by (cases "eq_max_nodes eq = 1") (simp_all add: eq_post_def a sfeventq_add_def g s)
    qed
  qed
  have sub: "set (butlast (eq_list eq)) \<subseteq> {..eq_max_nodes eq}" by (rule order_trans [OF butlast_subset f(7)])
  have lm: "?last \<le> eq_max_nodes eq" using last f(7) by auto
  have len: "length (eq_list eq) = eq_max_nodes eq" using f(3) by simp
  have "Suc (eq_max_nodes eq - 1) = eq_max_nodes eq" using f(6) by simp
  then have "eq_ok (eq\<lparr>eq_list := eq_insert srt ?mem r (butlast (eq_list eq)), eq_mem := ?mem, eq_reserve := Some ?last\<rparr>)"
    using bl f(2,4,6) sub lm rl by (simp add: eq_ok_def full)
  moreover have "eq_ok (eq\<lparr>eq_mem := ?mem, eq_reserve := Some r\<rparr>)"
    using f(1,2,4-7) len by (simp add: eq_ok_def full)
  ultimately show "eq_ok (eq_post eq e)" by (simp add: post)
  show "eq_sort (eq_post eq e) = eq_sort eq" "eq_max_nodes (eq_post eq e) = eq_max_nodes eq"
    "eq_log_nodes (eq_post eq e) = eq_log_nodes eq" by (simp_all add: post)
  show "eq_events (eq_post eq e) =
      (if srt e (last (eq_events eq)) then rank_insert srt e (butlast (eq_events eq)) else eq_events eq)"
    unfolding le using keep by (simp add: post eq_events_def eq_insert_map)
qed

lemma eq_ok_cur: "eq_ok eq \<Longrightarrow> eq_cur_events eq \<le> eq_max_nodes eq"
  by (auto simp: eq_ok_def split: option.splits)

lemma eq_ok_events: "eq_ok eq \<Longrightarrow> length (eq_events eq) = eq_cur_events eq"
  by (auto simp: eq_ok_def eq_events_def split: option.splits)

text \<open>Posting events to a ranked queue keeps the best of all events so far.\<close>

lemma eq_post_top:
  assumes sw: "strict_weak srt" and ok: "eq_ok eq" and s: "eq_sort eq = Some srt"
    and ev: "eq_events eq = take (eq_max_nodes eq) xs" and xs: "ranked srt xs"
  shows "eq_events (eq_post eq e) = take (eq_max_nodes eq) (rank_insert srt e xs)"
proof (cases "eq_cur_events eq < eq_max_nodes eq")
  case True
  then have "length (take (eq_max_nodes eq) xs) < eq_max_nodes eq" using eq_ok_events [OF ok] ev by simp
  then have "length xs < eq_max_nodes eq" by simp
  then show ?thesis using eq_post_room(5) [OF ok True] ev s by simp
next
  case False
  let ?k = "eq_max_nodes eq"
  have full: "eq_cur_events eq = ?k" using False eq_ok_cur [OF ok] by simp
  have k: "0 < ?k" using ok by (simp add: eq_ok_def)
  have "length (take ?k xs) = ?k" using eq_ok_events [OF ok] ev full by simp
  then have len: "?k \<le> length xs" by simp
  have "last (eq_events eq) = xs ! (?k - 1)"
    using k len last_conv_nth [of "take ?k xs"] by (cases xs) (simp_all add: ev min_def)
  moreover have "butlast (eq_events eq) = take (?k - 1) xs" using len by (simp add: ev butlast_take)
  ultimately show ?thesis
    using eq_post_full(5) [OF ok full s] rank_insert_take [OF sw xs k len, of e] ev by simp
qed

lemma eq_posts:
  assumes sw: "strict_weak srt" and ok: "eq_ok eq" and s: "eq_sort eq = Some srt"
    and ev: "eq_events eq = take (eq_max_nodes eq) xs" and xs: "ranked srt xs"
  shows "eq_ok (fold (\<lambda>e q. eq_post q e) es eq) \<and>
     eq_log_nodes (fold (\<lambda>e q. eq_post q e) es eq) = eq_log_nodes eq \<and>
     eq_events (fold (\<lambda>e q. eq_post q e) es eq) = take (eq_max_nodes eq) (fold (rank_insert srt) es xs)"
  using assms(2-)
proof (induction es arbitrary: eq xs)
  case Nil
  then show ?case by simp
next
  case (Cons e es)
  note top = eq_post_top [OF sw Cons.prems(1-4), of e]
  have step: "eq_ok (eq_post eq e) \<and> eq_sort (eq_post eq e) = eq_sort eq \<and>
      eq_max_nodes (eq_post eq e) = eq_max_nodes eq \<and> eq_log_nodes (eq_post eq e) = eq_log_nodes eq"
  proof (cases "eq_cur_events eq < eq_max_nodes eq")
    case True
    then show ?thesis using eq_post_room [OF Cons.prems(1)] by simp
  next
    case False
    then show ?thesis using eq_post_full [OF Cons.prems(1) _ Cons.prems(2)] eq_ok_cur [OF Cons.prems(1)] by simp
  qed
  have "eq_events (eq_post eq e) = take (eq_max_nodes (eq_post eq e)) (rank_insert srt e xs)"
    using top step by simp
  from Cons.IH [OF _ _ this rank_insert_ranked [OF sw Cons.prems(4)]] step Cons.prems(2)
  show ?case by simp
qed

lemma eq_action_take:
  "(\<And>e s. fst (f e s) = False) \<Longrightarrow> n \<le> m \<Longrightarrow>
   snd (eq_action_loop f m n es s) = fold (\<lambda>e s. snd (f e s)) (take (m - n) es) s"
proof (induction es arbitrary: n s)
  case Nil
  then show ?case by simp
next
  case (Cons e es)
  obtain s' where fe: "f e s = (False, s')" using Cons.prems(1) [of e s] by (cases "f e s") auto
  show ?case
  proof (cases "n = m")
    case True
    then show ?thesis by simp
  next
    case False
    then have "m - n = Suc (m - Suc n)" using Cons.prems(2) by simp
    then show ?thesis using Cons.IH [OF Cons.prems(1), of "Suc n" s'] Cons.prems(2) False fe by simp
  qed
qed


lemma eq_post_full_unsorted:
  assumes ok: "eq_ok eq" and full: "eq_cur_events eq = eq_max_nodes eq" and s: "eq_sort eq = None"
  shows "eq_ok (eq_post eq e)" and "eq_sort (eq_post eq e) = None"
    and "eq_max_nodes (eq_post eq e) = eq_max_nodes eq" and "eq_events (eq_post eq e) = eq_events eq"
proof -
  have len: "length (eq_list eq) = eq_max_nodes eq" "eq_cur_nodes eq = eq_max_nodes eq"
    using ok full by (auto simp: eq_ok_def split: option.splits)
  have "eq_ok (eq_post eq e) \<and> eq_sort (eq_post eq e) = None \<and>
      eq_max_nodes (eq_post eq e) = eq_max_nodes eq \<and> eq_events (eq_post eq e) = eq_events eq"
  proof (cases "eq_reserve eq")
    case None
    then have "eq_post eq e = eq" using full by (simp add: eq_post_def sfeventq_event_alloc_def)
    then show ?thesis using ok s by simp
  next
    case (Some r)
    then have r: "r \<notin> set (eq_list eq)" using ok by (simp add: eq_ok_def)
    have post: "eq_post eq e = eq\<lparr>eq_reserve := None, eq_mem := (eq_mem eq)(r := e)\<rparr>"
      using full Some s len by (simp add: eq_post_def sfeventq_event_alloc_def sfeventq_add_def get_eventq_node_def)
    have "eq_ok (eq_post eq e)"
      using ok s full len by (simp add: post eq_ok_def)
    moreover have "eq_events (eq_post eq e) = eq_events eq" using r by (auto simp: post eq_events_def)
    ultimately show ?thesis using s by (simp add: post)
  qed
  then show "eq_ok (eq_post eq e)" "eq_sort (eq_post eq e) = None"
    "eq_max_nodes (eq_post eq e) = eq_max_nodes eq" "eq_events (eq_post eq e) = eq_events eq" by blast+
qed

lemma eq_posts_unsorted:
  assumes "eq_ok eq" and "eq_sort eq = None" and "eq_events eq = take (eq_max_nodes eq) xs"
  shows "eq_ok (fold (\<lambda>e q. eq_post q e) es eq) \<and>
     eq_events (fold (\<lambda>e q. eq_post q e) es eq) = take (eq_max_nodes eq) (xs @ es)"
  using assms
proof (induction es arbitrary: eq xs)
  case Nil
  then show ?case by simp
next
  case (Cons e es)
  have step: "eq_ok (eq_post eq e) \<and> eq_sort (eq_post eq e) = None \<and>
      eq_max_nodes (eq_post eq e) = eq_max_nodes eq \<and>
      eq_events (eq_post eq e) = take (eq_max_nodes eq) (xs @ [e])"
  proof (cases "eq_cur_events eq < eq_max_nodes eq")
    case True
    then have "length (take (eq_max_nodes eq) xs) < eq_max_nodes eq"
      using eq_ok_events [OF Cons.prems(1)] Cons.prems(3) by simp
    then have "length xs < eq_max_nodes eq" by simp
    then show ?thesis using eq_post_room [OF Cons.prems(1) True, of e] Cons.prems(2,3) by simp
  next
    case False
    then have full: "eq_cur_events eq = eq_max_nodes eq" using eq_ok_cur [OF Cons.prems(1)] by simp
    then have "length (take (eq_max_nodes eq) xs) = eq_max_nodes eq"
      using eq_ok_events [OF Cons.prems(1)] Cons.prems(3) by simp
    then have "eq_max_nodes eq \<le> length xs" by simp
    then show ?thesis using eq_post_full_unsorted [OF Cons.prems(1) full Cons.prems(2), of e] Cons.prems(3) by simp
  qed
  then have "eq_events (eq_post eq e) = take (eq_max_nodes (eq_post eq e)) (xs @ [e])" by simp
  from Cons.IH [OF _ _ this] step show ?case by simp
qed

lemma eq_new_ok:
  assumes "sfeventq_new zero max_nodes log_nodes event_size srt = Some eq"
  shows "eq_ok eq" and "eq_events eq = []" and "eq_sort eq = srt"
    and "eq_max_nodes eq = nat max_nodes" and "eq_log_nodes eq = nat log_nodes"
  using assms by (auto simp: sfeventq_new_def eq_ok_def eq_events_def split: if_splits)

subsection \<open>Events without a rule\<close>

lemma disabled_add:
  assumes "event_rule_nodes ru (en_gid en) (en_sid en) = None"
    and "sfeventq_event_alloc (es_queues st ! es_qIndex st) = (Some slot, q1)"
  shows "SnortEventqAdd ru st en = (0, ru, st\<lparr>es_queues := (es_queues st)
     [es_qIndex st := q1\<lparr>eq_mem := (eq_mem q1)(slot := en)\<rparr>]\<rparr>)"
  using assms by (simp add: SnortEventqAdd_def)

text \<open>A run of such events: only slots are used up.\<close>

definition eq_used :: "nat \<Rightarrow> nat \<Rightarrow> eventq_state \<Rightarrow> bool" where
  "eq_used m k st \<longleftrightarrow> es_qIndex st < length (es_queues st) \<and>
     (let q = es_queues st ! es_qIndex st
      in eq_max_nodes q = m \<and> eq_list q = [] \<and> eq_cur_events q = min k m \<and> (eq_reserve q = None \<longleftrightarrow> m < k))"

lemma eq_used_step:
  assumes "eq_used m k st" and "k \<le> m" and "event_rule_nodes ru (en_gid en) (en_sid en) = None"
  shows "eq_used m (Suc k) (snd (snd (SnortEventqAdd ru st en))) \<and> fst (snd (SnortEventqAdd ru st en)) = ru"
proof -
  let ?q = "es_queues st ! es_qIndex st"
  obtain r where q: "es_qIndex st < length (es_queues st)" "eq_max_nodes ?q = m" "eq_list ?q = []"
    "eq_cur_events ?q = k" "eq_reserve ?q = Some r"
    using assms(1,2) by (auto simp: eq_used_def Let_def)
  show ?thesis
  proof (cases "k < m")
    case True
    then have "sfeventq_event_alloc ?q = (Some k, ?q\<lparr>eq_cur_events := k + 1\<rparr>)"
      using q by (simp add: sfeventq_event_alloc_def)
    from disabled_add [OF assms(3) this] show ?thesis using q True by (simp add: eq_used_def Let_def)
  next
    case False
    then have "sfeventq_event_alloc ?q = (Some r, ?q\<lparr>eq_reserve := None\<rparr>)"
      using q assms(2) by (simp add: sfeventq_event_alloc_def)
    from disabled_add [OF assms(3) this] show ?thesis
      using q False assms(2) by (simp add: eq_used_def Let_def)
  qed
qed

lemma eq_used_run:
  assumes "eq_used m k st" and "k + length es \<le> Suc m"
    and "\<forall>en\<in>set es. event_rule_nodes ru (en_gid en) (en_sid en) = None"
  shows "eq_used m (k + length es) (fold (\<lambda>en st. snd (snd (SnortEventqAdd ru st en))) es st)"
  using assms
proof (induction es arbitrary: k st)
  case Nil
  then show ?case by simp
next
  case (Cons en es)
  have "k \<le> m" using Cons.prems(2) by simp
  then have "eq_used m (Suc k) (snd (snd (SnortEventqAdd ru st en)))"
    using eq_used_step [OF Cons.prems(1)] Cons.prems(3) by simp
  from Cons.IH [OF this] Cons.prems(2,3) show ?case by simp
qed

subsection \<open>Properties\<close>

text \<open>
  C9: a queue with an order (any strict weak one) holds, after any sequence of events, the best
  \<open>max_nodes\<close> of them, best first and equals in order of arrival; no two share a slot; and
  \<open>sfeventq_action\<close> acts on the first \<open>log_nodes\<close> of these, in that order.
\<close>

theorem eventq_top_ranked:
  assumes "sfeventq_new zero max_nodes log_nodes event_size (Some srt) = Some eq" and "strict_weak srt"
    and "\<And>e s. fst (f e s) = False"
  shows "eq_events (fold (\<lambda>e q. eq_post q e) es eq) = take (nat max_nodes) (rank_all srt es) \<and>
     distinct (eq_list (fold (\<lambda>e q. eq_post q e) es eq)) \<and>
     snd (sfeventq_action (fold (\<lambda>e q. eq_post q e) es eq) (Some f) s) =
       fold (\<lambda>e s. snd (f e s)) (take (nat log_nodes) (take (nat max_nodes) (rank_all srt es))) s"
proof -
  note new = eq_new_ok [OF assms(1)]
  let ?q = "fold (\<lambda>e q. eq_post q e) es eq"
  have q: "eq_ok ?q \<and> eq_log_nodes ?q = eq_log_nodes eq \<and>
      eq_events ?q = take (eq_max_nodes eq) (fold (rank_insert srt) es [])"
    by (rule eq_posts [OF assms(2) new(1,3)]) (simp_all add: new(2) ranked_def)
  have "snd (sfeventq_action ?q (Some f) s) =
      fold (\<lambda>e s. snd (f e s)) (take (eq_log_nodes ?q) (eq_events ?q)) s"
    using eq_action_take [of f 0 "eq_log_nodes ?q", OF assms(3)]
    by (simp add: sfeventq_action_def eq_events_def)
  then show ?thesis using q new(4,5) by (simp add: rank_all_def) (simp add: eq_ok_def)
qed

theorem eventq_top_ranked_witness:
  "eq_events (fold (\<lambda>e q. eq_post q e) [5, 3, 9, 3, 1 :: nat] (the (sfeventq_new 0 3 2 4 (Some (\<lambda>a b. a < b))))) =
     take (nat 3) (rank_all (\<lambda>a b. a < b) [5, 3, 9, 3, 1]) \<and>
   distinct (eq_list (fold (\<lambda>e q. eq_post q e) [5, 3, 9, 3, 1 :: nat] (the (sfeventq_new 0 3 2 4 (Some (\<lambda>a b. a < b)))))) \<and>
   snd (sfeventq_action (fold (\<lambda>e q. eq_post q e) [5, 3, 9, 3, 1 :: nat] (the (sfeventq_new 0 3 2 4 (Some (\<lambda>a b. a < b)))))
      (Some (\<lambda>e s. (False, e # s))) []) =
     fold (\<lambda>e s. snd (False, e # s)) (take (nat 2) (take (nat 3) (rank_all (\<lambda>a b. a < b) [5, 3, 9, 3, 1]))) []"
  by (rule eventq_top_ranked [where zero = 0 and event_size = 4]) (auto simp: sfeventq_new_def strict_weak_def)

text \<open>
  the queues of the build have no order (each action group is presorted): after any sequence
  of events such a queue holds the first \<open>max_nodes\<close> of them in order of arrival, and no two share a slot.
\<close>

theorem eventq_unordered:
  assumes "sfeventq_new zero max_nodes log_nodes event_size None = Some eq"
  shows "eq_events (fold (\<lambda>e q. eq_post q e) es eq) = take (nat max_nodes) es \<and>
     distinct (eq_list (fold (\<lambda>e q. eq_post q e) es eq))"
proof -
  note new = eq_new_ok [OF assms]
  have "eq_ok (fold (\<lambda>e q. eq_post q e) es eq) \<and>
      eq_events (fold (\<lambda>e q. eq_post q e) es eq) = take (eq_max_nodes eq) ([] @ es)"
    by (rule eq_posts_unsorted [OF new(1,3)]) (simp add: new(2))
  then show ?thesis using new(4) by (simp add: eq_ok_def)
qed

theorem eventq_unordered_witness:
  "eq_events (fold (\<lambda>e q. eq_post q e) [5, 3, 9, 3 :: nat] (the (sfeventq_new 0 2 1 4 None))) = take (nat 2) [5, 3, 9, 3] \<and>
   distinct (eq_list (fold (\<lambda>e q. eq_post q e) [5, 3, 9, 3 :: nat] (the (sfeventq_new 0 2 1 4 None))))"
  by (rule eventq_unordered [of 0 2 1 4]) (simp add: sfeventq_new_def)

text \<open>
  events that have no rule node are left out of the queue but keep the slot they were given:
  after \<open>max_events + 1\<close> of them on one packet, every further event is refused, with a rule or
  without, though the queue is empty.
\<close>

theorem disabled_events_starve:
  assumes "es_qIndex st < length (es_queues st)" and "es_queues st ! es_qIndex st = sfeventq_reset q"
    and "length es = Suc (eq_max_nodes q)"
    and "\<forall>en\<in>set es. event_rule_nodes ru (en_gid en) (en_sid en) = None"
  shows "fst (SnortEventqAdd ru (fold (\<lambda>en st. snd (snd (SnortEventqAdd ru st en))) es st) en) = -1 \<and>
     (let st' = fold (\<lambda>en st. snd (snd (SnortEventqAdd ru st en))) es st
      in eq_list (es_queues st' ! es_qIndex st') = [])"
proof -
  have "eq_used (eq_max_nodes q) 0 st" using assms(1,2) by (simp add: eq_used_def sfeventq_reset_def Let_def)
  from eq_used_run [OF this _ assms(4)] assms(3)
  have "eq_used (eq_max_nodes q) (Suc (eq_max_nodes q)) (fold (\<lambda>en st. snd (snd (SnortEventqAdd ru st en))) es st)"
    by simp
  then show ?thesis by (simp add: eq_used_def Let_def SnortEventqAdd_def sfeventq_event_alloc_def)
qed

definition eq_event :: "u32 \<Rightarrow> EventNode" where
  "eq_event sid = \<lparr>en_gid = 116, en_sid = sid, en_rev = 1, en_classification = 0, en_priority = 3,
     en_msg = [], en_rule_info = False\<rparr>"

definition eq_state :: eventq_state where
  "eq_state = \<lparr>es_qIndex = 0, es_qOverflow = 0, es_s_events = 0,
     es_queues = [sfeventq_reset (the (sfeventq_new (eq_event 0) 2 1 48 None))], es_log_limit = 0\<rparr>"

definition eq_rules :: rule_nodes where
  "eq_rules = \<lparr>ru_otn = (\<lambda>_ sid. sid = 7), ru_rtn = (\<lambda>_ _. True), ru_autogen = False,
     ru_gen_otn = (\<lambda>_ _. True), ru_gen_rtn = (\<lambda>_ _. True)\<rparr>"

theorem disabled_events_starve_witness:
  "let st' = fold (\<lambda>en st. snd (snd (SnortEventqAdd eq_rules st en))) [eq_event 1, eq_event 2, eq_event 3] eq_state
   in fst (SnortEventqAdd eq_rules st' (eq_event 7)) = -1 \<and> eq_list (es_queues st' ! es_qIndex st') = []"
  using disabled_events_starve [of eq_state "the (sfeventq_new (eq_event 0) 2 1 48 None)"
      "[eq_event 1, eq_event 2, eq_event 3]" eq_rules "eq_event 7"]
  by (simp add: eq_state_def sfeventq_new_def eq_rules_def eq_event_def event_rule_nodes_def Let_def)

text \<open>Pushes and pops that match leave the index where it was, also past the last queue.\<close>

lemma eventq_push_pop:
  assumes "es_qOverflow st = 0 \<or> es_qIndex st = NUM_EVENT_QUEUES - 1"
  shows "SnortEventqPop (SnortEventqPush st) = st"
  using assms by (auto simp: SnortEventqPop_def SnortEventqPush_def NUM_EVENT_QUEUES_def)

end
