(* ===== verification/Frag3.thy ===== *)
theory Frag3
  imports SnortPrelude
begin

text \<open>
  IP defragmentation: one tracker of \<open>src/src/preprocessors/spp_frag3.c\<close>, from its first fragment
  (\<open>Frag3NewTracker\<close>) over the target-based insertion of further ones (\<open>Frag3Insert\<close>) to the test
  for completeness and the rebuilt payload. The 16- and 32-bit variables of the C code are integers
  with their conversions written out (\<open>u16\<close>, \<open>s16\<close>, \<open>u32\<close>). The doubly linked fragment
  list is a list; while a fragment is inserted it is held in three parts: the nodes up to \<open>left\<close>
  (nearest first), the nodes put in since between \<open>left\<close> and \<open>right\<close>, and those from \<open>right\<close> on.
  Whether a node can be had (\<open>memcap\<close>, the preallocated pool and the pruning of other trackers)
  is an argument, asked for by the ordinal of the node. The statistics counters and the two
  redundant fields \<open>fraglist_tail\<close> and \<open>fraglist_count\<close> are left out.
\<close>

subsection \<open>Data\<close>

definition u16 :: "int \<Rightarrow> int" where "u16 x = x mod 65536"
definition s16 :: "int \<Rightarrow> int" where "s16 x = (x + 32768) mod 65536 - 32768"
definition u32 :: "int \<Rightarrow> int" where "u32 x = x mod 4294967296"

definition IP_MAXPACKET :: int where "IP_MAXPACKET = 65535"
definition FRAG_INSERT_OK :: int where "FRAG_INSERT_OK = 0"
definition FRAG_INSERT_FAILED :: int where "FRAG_INSERT_FAILED = 1"
definition FRAG_INSERT_ATTACK :: int where "FRAG_INSERT_ATTACK = 4"
definition FRAG_INSERT_ANOMALY :: int where "FRAG_INSERT_ANOMALY = 5"
definition FRAG_INSERT_OVERLAP_LIMIT :: int where "FRAG_INSERT_OVERLAP_LIMIT = 7"

lemmas frag_insert_codes = FRAG_INSERT_OK_def FRAG_INSERT_FAILED_def FRAG_INSERT_ATTACK_def
  FRAG_INSERT_ANOMALY_def FRAG_INSERT_OVERLAP_LIMIT_def

datatype frag_flag =
  FRAG_GOT_FIRST | FRAG_GOT_LAST | FRAG_REBUILT | FRAG_BAD | FRAG_NO_BSD_VULN | FRAG_DROP_FRAGMENTS

datatype frag_policy =
  FRAG_POLICY_FIRST | FRAG_POLICY_LINUX | FRAG_POLICY_BSD | FRAG_POLICY_BSD_RIGHT
  | FRAG_POLICY_LAST | FRAG_POLICY_WINDOWS | FRAG_POLICY_SOLARIS

datatype firstlast = FRAG_FIRSTLAST_OK | FRAG_LAST_DUPLICATE | FRAG_LAST_OFFSET_ADJUST

datatype frag3_event =
  AnomIpOpts | AttackTeardrop | TinyFragments | ExcessiveOverlap | AnomShortFrag | AnomOversize
  | AnomZeroFrag | AnomBadsizeLg | AnomBadsizeSm | AnomOverlap | Ipv6BsdIcmpFrag | Ipv6BadFragPkt | DropSession

record Frag3Frag =
  fr_fptr :: "u8 list"
  fr_delta :: int      \<comment> \<open>\<open>data - fptr\<close>\<close>
  fr_size :: int
  fr_offset :: int
  fr_ord :: int
  fr_last :: bool

record Frag3Context =
  cx_anomalies :: bool          \<comment> \<open>\<open>frag3_alerts & FRAG3_DETECT_ANOMALIES\<close>\<close>
  cx_min_fragment_length :: int
  cx_overlap_limit :: int
  cx_frag_timeout :: int
  cx_ip6_alerts :: bool         \<comment> \<open>\<open>ScIdsMode()\<close> and \<open>ScDecoderIpv6BadFragAlerts()\<close>\<close>
  cx_ip6_drops :: bool

record FragPacket =
  pk_frag_offset :: int         \<comment> \<open>in units of eight bytes\<close>
  pk_mf :: bool
  pk_ip_frag_start :: "u8 list"
  pk_ip_frag_len :: int
  pk_ttl :: int
  pk_sec :: int
  pk_usec :: int
  pk_is_ip6 :: bool
  pk_ip6f_nxt :: int
  pk_ip_proto :: int
  pk_ip_dsize :: int
  pk_ip_options_len :: int
  pk_ip_option_count :: int
  pk_ip_options_data :: "u8 list"
  pk_ip_option_codes :: "int list"

record FragTracker =
  ft_protocol :: int
  ft_ttl :: int
  ft_alerted :: bool
  ft_frag_flags :: "frag_flag set"
  ft_frag_bytes :: int
  ft_calculated_size :: int
  ft_frag_pkts :: int
  ft_sec :: int
  ft_usec :: int
  ft_fraglist :: "Frag3Frag list"
  ft_alert_count :: int
  ft_ip_options_len :: int
  ft_ip_option_count :: int
  ft_ip_options_data :: "u8 list option"
  ft_copied_ip_options_len :: int
  ft_copied_ip_option_count :: int
  ft_ordinal :: int
  ft_frag_policy :: frag_policy
  ft_overlap_count :: int

definition fr_end :: "Frag3Frag \<Rightarrow> int" where
  "fr_end f = fr_offset f + fr_size f"

definition frag3_alert :: "Frag3Context \<Rightarrow> frag3_event \<Rightarrow> frag3_event list \<Rightarrow> frag3_event list" where
  "frag3_alert cx e evs = (if cx_anomalies cx then evs @ [e] else evs)"

subsection \<open>First and last fragments, timeout, options\<close>

definition CheckTimeout :: "int \<times> int \<Rightarrow> int \<times> int \<Rightarrow> Frag3Context \<Rightarrow> bool" where
  "CheckTimeout current start cx =
     (let sec = fst current - fst start; usec = snd current - snd start
      in (if usec < 0 then sec - 1 else sec) \<ge> cx_frag_timeout cx)"

definition Frag3DeleteTracker :: "FragTracker \<Rightarrow> FragTracker" where
  "Frag3DeleteTracker ft = ft\<lparr>ft_fraglist := [], ft_ip_options_data := None\<rparr>"

definition Frag3Expire :: "FragPacket \<Rightarrow> FragTracker \<Rightarrow> Frag3Context \<Rightarrow> bool \<times> FragTracker" where
  "Frag3Expire p ft cx =
     (if CheckTimeout (pk_sec p, pk_usec p) (ft_sec ft, ft_usec ft) cx
      then (True, Frag3DeleteTracker ft) else (False, ft))"

definition FragEvent :: "Frag3Context \<Rightarrow> frag3_event \<Rightarrow> frag3_event list \<Rightarrow> frag3_event list" where
  "FragEvent cx e evs =
     (if cx_ip6_alerts cx then evs @ [e] @ (if cx_ip6_drops cx then [DropSession] else []) else evs)"

definition Frag3CheckFirstLast ::
  "FragPacket \<Rightarrow> FragTracker \<Rightarrow> Frag3Context \<Rightarrow> frag3_event list \<Rightarrow>
   firstlast \<times> FragTracker \<times> frag3_event list" where
  "Frag3CheckFirstLast p ft cx evs =
     (let evs1 =
            (if pk_is_ip6 p \<and> pk_frag_offset p = 0 \<and> \<not> pk_mf p
             then (if FRAG_GOT_FIRST \<in> ft_frag_flags ft \<and> FRAG_NO_BSD_VULN \<notin> ft_frag_flags ft
                   then (if pk_ip_dsize p > 100
                         then (if ft_frag_policy ft = FRAG_POLICY_LINUX
                               then FragEvent cx Ipv6BsdIcmpFrag evs else evs)
                         else FragEvent cx Ipv6BadFragPkt evs)
                   else FragEvent cx Ipv6BadFragPkt evs)
             else evs);
          (ret, ft1) =
            (if pk_mf p \<and> pk_frag_offset p = 0
             then (FRAG_FIRSTLAST_OK, ft\<lparr>ft_frag_flags := insert FRAG_GOT_FIRST (ft_frag_flags ft)\<rparr>)
             else if \<not> pk_mf p \<and> pk_frag_offset p > 0
             then
               (let endOfThisFrag = u16 (8 * pk_frag_offset p + u16 (pk_ip_frag_len p));
                    retVal =
                      (if FRAG_GOT_LAST \<in> ft_frag_flags ft
                       then (if ft_calculated_size ft > endOfThisFrag then FRAG_LAST_DUPLICATE
                             else if ft_frag_policy ft = FRAG_POLICY_SOLARIS then FRAG_LAST_OFFSET_ADJUST
                             else FRAG_FIRSTLAST_OK)
                       else FRAG_FIRSTLAST_OK);
                    ft2 = ft\<lparr>ft_frag_flags := insert FRAG_GOT_LAST (ft_frag_flags ft)\<rparr>
                in (retVal,
                    if ft_calculated_size ft2 < endOfThisFrag \<and> retVal \<noteq> FRAG_LAST_OFFSET_ADJUST
                    then ft2\<lparr>ft_calculated_size := endOfThisFrag\<rparr> else ft2))
             else (FRAG_FIRSTLAST_OK, ft));
          ft3 = (if pk_frag_offset p \<noteq> 0
                 then ft1\<lparr>ft_frag_flags := insert FRAG_NO_BSD_VULN (ft_frag_flags ft1)\<rparr> else ft1)
      in (ret, ft3, evs1))"

definition IP_OPTMAX :: nat where "IP_OPTMAX = 40"

definition Frag3HandleIPOptions ::
  "FragTracker \<Rightarrow> FragPacket \<Rightarrow> Frag3Context \<Rightarrow> frag3_event list \<Rightarrow> FragTracker \<times> frag3_event list" where
  "Frag3HandleIPOptions ft p cx evs =
     (if pk_frag_offset p = 0
      then
        (if pk_ip_options_len p \<noteq> 0
         then
           (let ft1 = ft\<lparr>ft_ip_options_len := pk_ip_options_len p, ft_ip_option_count := pk_ip_option_count p\<rparr>
            in case ft_ip_options_data ft1 of
                 Some _ \<Rightarrow>
                   (ft1, if ft_copied_ip_option_count ft1 \<noteq> 0 \<and>
                            ft_copied_ip_option_count ft1 \<noteq> pk_ip_option_count p
                         then frag3_alert cx AnomIpOpts evs else evs)
               | None \<Rightarrow>
                   (ft1\<lparr>ft_ip_options_data := Some (take (nat (pk_ip_options_len p)) (pk_ip_options_data p))\<rparr>, evs))
         else (ft, evs))
      else if ft_copied_ip_option_count ft \<noteq> 0
      then (ft, if ft_copied_ip_option_count ft \<noteq> pk_ip_option_count p
                then frag3_alert cx AnomIpOpts evs else evs)
      else (ft\<lparr>ft_copied_ip_option_count := pk_ip_option_count p\<rparr>,
            fold (\<lambda>code evs. if code mod 256 < 128 then frag3_alert cx AnomIpOpts evs else evs)
              (take (min (nat (pk_ip_option_count p)) IP_OPTMAX) (pk_ip_option_codes p)) evs))"

subsection \<open>Nodes\<close>

text \<open>The locals of \<open>Frag3Insert\<close> that are set once, and those that change.\<close>

record f3par =
  fp_p :: FragPacket
  fp_cx :: Frag3Context
  fp_snaplen :: int
  fp_node_ok :: "int \<Rightarrow> bool"
  fp_orig_offset :: int
  fp_frag_end :: int
  fp_fragLength :: int
  fp_len :: int
  fp_lastfrag :: bool

record f3ins =
  fi_ft :: FragTracker          \<comment> \<open>its list is held in the next three fields\<close>
  fi_left :: "Frag3Frag list"
  fi_mid :: "Frag3Frag list"
  fi_right :: "Frag3Frag list"
  fi_offset :: int
  fi_slide :: int
  fi_trunc :: int
  fi_addthis :: bool
  fi_alerted_overlap :: bool
  fi_events :: "frag3_event list"

definition fi_list :: "f3ins \<Rightarrow> Frag3Frag list" where
  "fi_list s = rev (fi_left s) @ fi_mid s @ fi_right s"

definition fi_event :: "f3par \<Rightarrow> frag3_event \<Rightarrow> f3ins \<Rightarrow> f3ins" where
  "fi_event c e s = s\<lparr>fi_events := frag3_alert (fp_cx c) e (fi_events s)\<rparr>"

definition fi_bytes :: "int \<Rightarrow> f3ins \<Rightarrow> f3ins" where
  "fi_bytes d s = s\<lparr>fi_ft := (fi_ft s)\<lparr>ft_frag_bytes := u32 (ft_frag_bytes (fi_ft s) + d)\<rparr>\<rparr>"

definition fi_overlap :: "f3ins \<Rightarrow> f3ins" where
  "fi_overlap s = s\<lparr>fi_ft := (fi_ft s)\<lparr>ft_overlap_count := u32 (ft_overlap_count (fi_ft s) + 1)\<rparr>\<rparr>"

definition fi_flag :: "frag_flag \<Rightarrow> f3ins \<Rightarrow> f3ins" where
  "fi_flag fl s = s\<lparr>fi_ft := (fi_ft s)\<lparr>ft_frag_flags := insert fl (ft_frag_flags (fi_ft s))\<rparr>\<rparr>"

text \<open>The step \<open>left = right; right = right->next\<close>.\<close>

definition fi_advance :: "f3ins \<Rightarrow> f3ins" where
  "fi_advance s =
     (case fi_right s of
        [] \<Rightarrow> s
      | r # rs \<Rightarrow> s\<lparr>fi_left := r # rev (fi_mid s) @ fi_left s, fi_mid := [], fi_right := rs\<rparr>)"

definition AddFragNode :: "f3par \<Rightarrow> bool \<Rightarrow> f3ins \<Rightarrow> int \<times> f3ins" where
  "AddFragNode c lastfrag s =
     (let newSize = s16 (fp_len c - u16 (fi_slide s) - u16 (fi_trunc s)); ord = ft_ordinal (fi_ft s)
      in if newSize \<le> 0 then (FRAG_INSERT_ANOMALY, s)
         else if \<not> fp_node_ok c ord then (FRAG_INSERT_FAILED, s)
         else
           (let newfrag = \<lparr>fr_fptr = take (nat (fp_fragLength c)) (pk_ip_frag_start (fp_p c)),
                           fr_delta = u16 (fi_slide s), fr_size = newSize, fr_offset = fi_offset s,
                           fr_ord = ord, fr_last = lastfrag\<rparr>
            in (FRAG_INSERT_OK,
                fi_bytes newSize
                  (s\<lparr>fi_ft := (fi_ft s)\<lparr>ft_ordinal := ord + 1\<rparr>, fi_mid := newfrag # fi_mid s\<rparr>))))"

text \<open>The duplicate of \<open>left\<close> becomes \<open>right\<close>.\<close>

definition DupFragNode :: "f3par \<Rightarrow> Frag3Frag \<Rightarrow> f3ins \<Rightarrow> int \<times> f3ins" where
  "DupFragNode c left s =
     (let ord = ft_ordinal (fi_ft s)
      in if \<not> fp_node_ok c ord then (FRAG_INSERT_FAILED, s)
         else (FRAG_INSERT_OK,
               fi_bytes (fr_size left)
                 (s\<lparr>fi_ft := (fi_ft s)\<lparr>ft_ordinal := ord + 1\<rparr>,
                    fi_right := left\<lparr>fr_ord := ord\<rparr> # fi_right s\<rparr>)))"

definition checkTinyFragments :: "f3par \<Rightarrow> int \<Rightarrow> f3ins \<Rightarrow> f3ins" where
  "checkTinyFragments c trimmedLength s =
     (let m = cx_min_fragment_length (fp_cx c)
      in if pk_mf (fp_p c) \<and> m \<noteq> 0 \<and>
            (u16 (pk_ip_frag_len (fp_p c)) \<le> m \<or> u32 trimmedLength \<le> m)
         then fi_event c TinyFragments s else s)"

subsection \<open>Overlap with the fragment to the left\<close>

text \<open>\<open>Inl\<close> is a return from \<open>Frag3Insert\<close> with its code, \<open>Inr\<close> goes on.\<close>

definition fi_teardrop :: "f3par \<Rightarrow> f3ins \<Rightarrow> bool" where
  "fi_teardrop c s \<longleftrightarrow>
     (fp_frag_end c < ft_calculated_size (fi_ft s) \<or>
      FRAG_GOT_LAST \<in> ft_frag_flags (fi_ft s) \<and> fp_frag_end c \<noteq> ft_calculated_size (fi_ft s)) \<and>
     \<not> pk_mf (fp_p c)"

definition fi_attack :: "f3par \<Rightarrow> f3ins \<Rightarrow> int \<times> f3ins" where
  "fi_attack c s = (FRAG_INSERT_ATTACK, fi_flag FRAG_BAD (fi_event c AttackTeardrop s))"

text \<open>The new fragment moves behind \<open>left\<close>.\<close>

definition left_slide :: "f3par \<Rightarrow> int \<Rightarrow> f3ins \<Rightarrow> (int \<times> f3ins) + f3ins" where
  "left_slide c overlap s =
     (let s1 = s\<lparr>fi_offset := u16 (fi_offset s + s16 overlap), fi_slide := s16 overlap\<rparr>
      in if fp_frag_end c \<le> fi_offset s1
         then Inl (FRAG_INSERT_ANOMALY, fi_event c AnomZeroFrag s1) else Inr s1)"

text \<open>The label \<open>left_overlap_last\<close>.\<close>

definition left_dump :: "f3ins \<Rightarrow> f3ins" where
  "left_dump s =
     (case fi_left s of
        [] \<Rightarrow> s
      | l # ls \<Rightarrow> if fr_size l \<le> 0 then s\<lparr>fi_left := ls\<rparr> else s)"

text \<open>The old fragment gives way: split when the new one lies inside it, else cut.\<close>

definition left_last :: "f3par \<Rightarrow> int \<Rightarrow> f3ins \<Rightarrow> (int \<times> f3ins) + f3ins" where
  "left_last c overlap s =
     (case fi_left s of
        [] \<Rightarrow> Inr s
      | l # ls \<Rightarrow>
          (let cut = l\<lparr>fr_size := u16 (fr_size l - s16 overlap)\<rparr>;
               stop = fi_offset s + fp_len c
           in if fr_offset l < fi_offset s \<and> fr_end l > stop
              then
                (case DupFragNode c l s of
                   (ret, s1) \<Rightarrow>
                     (if ret \<noteq> FRAG_INSERT_OK then Inl (ret, s1)
                      else case fi_right s1 of
                        [] \<Rightarrow> Inr s1
                      | r # rs \<Rightarrow>
                          (let s2 = fi_bytes (- s16 overlap) (s1\<lparr>fi_left := cut # ls\<rparr>);
                               d = stop - fr_offset l;
                               r' = r\<lparr>fr_offset := u16 stop, fr_size := u16 (fr_size r - d),
                                      fr_delta := fr_delta r + d\<rparr>
                           in Inr (left_dump (fi_bytes (- d) (s2\<lparr>fi_right := r' # rs\<rparr>))))))
              else Inr (left_dump (fi_bytes (- s16 overlap) (s\<lparr>fi_left := cut # ls\<rparr>)))))"

definition left_overlap :: "f3par \<Rightarrow> f3ins \<Rightarrow> (int \<times> f3ins) + f3ins" where
  "left_overlap c s =
     (case fi_left s of
        [] \<Rightarrow> Inr s
      | l # ls \<Rightarrow>
          (let overlap = fr_end l - fi_offset s in
           if overlap \<le> 0 then Inr s
           else
             (let s1 = fi_overlap s in
              if fi_teardrop c s1 then Inl (fi_attack c s1)
              else
                (case (case ft_frag_policy (fi_ft s1) of
                         FRAG_POLICY_BSD_RIGHT \<Rightarrow>
                           (if fr_end l \<ge> fi_offset s1 + fp_len c
                            then Inr (left_dump (s1\<lparr>fi_offset := u16 (fi_offset s1 + s16 overlap),
                                                    fi_slide := s16 overlap\<rparr>))
                            else left_last c overlap s1)
                       | FRAG_POLICY_LAST \<Rightarrow> left_last c overlap s1
                       | _ \<Rightarrow> left_slide c overlap s1) of
                   Inl r \<Rightarrow> Inl r
                 | Inr s2 \<Rightarrow>
                     (if fp_frag_end c < fi_offset s2
                      then Inl (FRAG_INSERT_ANOMALY, fi_event c AnomBadsizeSm s2)
                      else Inr s2)))))"

subsection \<open>Overlap with the fragments to the right\<close>

definition right_dump :: "f3ins \<Rightarrow> f3ins" where
  "right_dump s =
     (case fi_right s of
        [] \<Rightarrow> s
      | r # rs \<Rightarrow> fi_bytes (- fr_size r) (s\<lparr>fi_right := rs\<rparr>))"

text \<open>A partial overlap is the last one.\<close>

definition right_partial :: "f3par \<Rightarrow> int \<Rightarrow> Frag3Frag \<Rightarrow> Frag3Frag list \<Rightarrow> f3ins \<Rightarrow> f3ins" where
  "right_partial c overlap r rs s0 =
     (let s = fi_overlap s0; policy = ft_frag_policy (fi_ft s) in
      if policy \<in> {FRAG_POLICY_LAST, FRAG_POLICY_LINUX, FRAG_POLICY_BSD}
      then
        (if policy = FRAG_POLICY_BSD \<and> fr_offset r = fi_offset s
         then (let slide = s16 (fr_end r - fi_offset s)
               in s\<lparr>fi_slide := slide, fi_offset := u16 (fi_offset s + slide)\<rparr>)
         else
           (let r' = r\<lparr>fr_offset := u16 (fr_offset r + s16 overlap), fr_delta := fr_delta r + s16 overlap,
                      fr_size := u16 (fr_size r - s16 overlap)\<rparr>
            in fi_bytes (- s16 overlap) (s\<lparr>fi_right := (if fr_size r' \<le> 0 then rs else r' # rs)\<rparr>)))
      else s\<lparr>fi_trunc := s16 overlap\<rparr>)"

text \<open>The walk over the fragments that follow without a gap.\<close>

fun chunk_walk :: "int \<Rightarrow> int \<Rightarrow> Frag3Frag list \<Rightarrow> Frag3Frag list \<Rightarrow> int \<times> Frag3Frag list \<times> Frag3Frag list" where
  "chunk_walk frag_end curr_end left [] = (curr_end, left, [])"
| "chunk_walk frag_end curr_end left (r # rs) =
     (if curr_end = fr_offset r \<and> fr_offset r < frag_end
      then chunk_walk frag_end (u16 (fr_end r)) (r # left) rs
      else (curr_end, left, r # rs))"

text \<open>What is left of the new fragment behind the last one that was met.\<close>

definition chunk_rest :: "f3par \<Rightarrow> int \<Rightarrow> f3ins \<Rightarrow> ((int \<times> f3ins) + f3ins) option" where
  "chunk_rest c curr_end s =
     (if curr_end < fp_frag_end c
      then (case fi_left s of
              [] \<Rightarrow> None
            | l # _ \<Rightarrow> Some (Inr (s\<lparr>fi_slide := s16 (fr_end l - fi_offset s), fi_offset := curr_end,
                                   fi_trunc := 0\<rparr>)))
      else Some (Inr (s\<lparr>fi_addthis := False\<rparr>)))"

text \<open>
  The case \<open>FRAG_POLICY_FIRST\<close> of a full overlap: the new fragment goes in by chunks. The result
  is \<open>None\<close> where \<open>left\<close> is dereferenced though it is NULL.
\<close>

definition right_chunk :: "f3par \<Rightarrow> int \<Rightarrow> Frag3Frag \<Rightarrow> f3ins \<Rightarrow> ((int \<times> f3ins) + f3ins) option" where
  "right_chunk c overlap r s =
     (let s1 = (if fr_offset r = fi_offset s
                then (let slide = s16 (fr_end r - fi_offset s)
                      in fi_advance (s\<lparr>fi_slide := slide, fi_offset := u16 (fi_offset s + slide)\<rparr>))
                else s\<lparr>fi_trunc := s16 overlap\<rparr>)
      in if fp_frag_end c - fi_trunc s1 \<le> fi_offset s1 then Some (Inl (FRAG_INSERT_ANOMALY, s1))
         else
           (case AddFragNode c False
                   (checkTinyFragments c (fp_len c - fi_slide s1 - fi_trunc s1) s1) of
              (ret, s2) \<Rightarrow>
                (if ret \<noteq> FRAG_INSERT_OK then Some (Inl (ret, s2))
                 else
                   (let new = hd (fi_mid s2);
                        near = (case fi_right s2 of
                                  r' # _ \<Rightarrow> u16 (fr_end new) = fr_offset r' \<and> fr_offset r' < fp_frag_end c
                                | [] \<Rightarrow> False);
                        (curr_end, left, right) = chunk_walk (fp_frag_end c) (u16 (fr_end new))
                            (if near then rev (fi_mid s2) @ fi_left s2 else fi_left s2) (fi_right s2);
                        s3 = s2\<lparr>fi_left := left, fi_mid := (if near then [] else fi_mid s2), fi_right := right\<rparr>
                    in case right of
                         r' # _ \<Rightarrow>
                           (if fr_offset r' < fp_frag_end c
                            then
                              (let off = (case left of l # _ \<Rightarrow> u16 (fr_end l) | [] \<Rightarrow> fp_orig_offset c)
                               in Some (Inr (s3\<lparr>fi_offset := off, fi_slide := s16 (off - fp_orig_offset c),
                                               fi_trunc := 0\<rparr>)))
                            else chunk_rest c curr_end s3)
                       | [] \<Rightarrow> chunk_rest c curr_end s3))))"

definition right_full :: "f3par \<Rightarrow> int \<Rightarrow> Frag3Frag \<Rightarrow> f3ins \<Rightarrow> ((int \<times> f3ins) + f3ins) option" where
  "right_full c overlap r s0 =
     (let s = (if \<not> fi_alerted_overlap s0 \<and> cx_anomalies (fp_cx c)
               then fi_overlap (fi_event c AnomOverlap s0)\<lparr>fi_alerted_overlap := True\<rparr> else s0);
          policy = ft_frag_policy (fi_ft s)
      in if policy \<in> {FRAG_POLICY_WINDOWS, FRAG_POLICY_SOLARIS, FRAG_POLICY_BSD}
         then (if fp_frag_end c > fr_end r \<and> fi_offset s < fr_offset r then Some (Inr (right_dump s))
               else if policy \<in> {FRAG_POLICY_SOLARIS, FRAG_POLICY_BSD} \<and>
                       fp_frag_end c = fr_end r \<and> fi_offset s < fr_offset r
               then Some (Inr (right_dump s))
               else right_chunk c overlap r s)
         else if policy = FRAG_POLICY_FIRST then right_chunk c overlap r s
         else Some (Inr (right_dump s)))"

text \<open>One round of the loop on a \<open>right\<close> that begins before the new fragment ends; the flag is \<open>done\<close>.\<close>

definition right_step ::
  "f3par \<Rightarrow> Frag3Frag \<Rightarrow> Frag3Frag list \<Rightarrow> f3ins \<Rightarrow> ((int \<times> f3ins) + (bool \<times> f3ins)) option" where
  "right_step c r rs s0 =
     (let s = s0\<lparr>fi_trunc := 0\<rparr>; overlap = fp_frag_end c - fr_offset r
      in if fi_teardrop c s then Some (Inl (fi_attack c s))
         else if overlap < fr_size r then Some (Inr (True, right_partial c overlap r rs s))
         else (case right_full c overlap r s of
                 None \<Rightarrow> None
               | Some (Inl e) \<Rightarrow> Some (Inl e)
               | Some (Inr s') \<Rightarrow> Some (Inr (False, s'))))"

text \<open>The loop, with fuel for its rounds; \<open>None\<close> also when the fuel is used up.\<close>

fun right_loop :: "nat \<Rightarrow> f3par \<Rightarrow> f3ins \<Rightarrow> ((int \<times> f3ins) + f3ins) option" where
  "right_loop 0 c s = None"
| "right_loop (Suc n) c s =
     (case fi_right s of
        [] \<Rightarrow> Some (Inr s)
      | r # rs \<Rightarrow>
          (if fr_offset r \<ge> fp_frag_end c then Some (Inr s)
           else case right_step c r rs s of
                  None \<Rightarrow> None
                | Some (Inl e) \<Rightarrow> Some (Inl e)
                | Some (Inr (True, s')) \<Rightarrow> Some (Inr s')
                | Some (Inr (False, s')) \<Rightarrow> right_loop n c s'))"

subsection \<open>Insertion\<close>

text \<open>The tracker of a set of fragments that timed out starts afresh.\<close>

definition ft_restart :: "FragPacket \<Rightarrow> FragTracker \<Rightarrow> FragTracker" where
  "ft_restart p ft =
     ft\<lparr>ft_sec := pk_sec p, ft_usec := pk_usec p, ft_ttl := pk_ttl p, ft_calculated_size := 0,
        ft_alerted := False, ft_frag_flags := {}, ft_frag_bytes := 0, ft_frag_pkts := 0,
        ft_alert_count := 0, ft_ip_options_len := 0, ft_ip_option_count := 0, ft_ip_options_data := None,
        ft_copied_ip_options_len := 0, ft_copied_ip_option_count := 0, ft_ordinal := 0\<rparr>"

text \<open>Where the fragment begins and ends: \<open>frag_offset\<close>, \<open>frag_end\<close>, \<open>len\<close> and \<open>lastfrag\<close>.\<close>

definition frag3_bounds ::
  "FragPacket \<Rightarrow> Frag3Context \<Rightarrow> firstlast \<Rightarrow> FragTracker \<Rightarrow> frag3_event list \<Rightarrow>
   int \<times> (int \<times> int \<times> int \<times> bool) \<times> FragTracker \<times> frag3_event list" where
  "frag3_bounds p cx firstLastOk ft evs =
     (let fragLength = s16 (pk_ip_frag_len p);
          frag_offset = (if firstLastOk = FRAG_LAST_OFFSET_ADJUST then u16 (ft_calculated_size ft)
                         else u16 (8 * pk_frag_offset p));
          frag_end = u16 (frag_offset + fragLength)
      in if \<not> pk_mf p
         then (FRAG_INSERT_OK, (frag_offset, frag_end, fragLength, True),
               (if frag_end > ft_calculated_size ft \<and> firstLastOk = FRAG_LAST_OFFSET_ADJUST
                then ft\<lparr>ft_calculated_size := frag_end\<rparr> else ft), evs)
         else
           (let evs1 = (if frag_end mod 8 \<noteq> 0 then frag3_alert cx AnomShortFrag evs else evs);
                frag_end' = frag_end - frag_end mod 8;
                len = s16 (fragLength - (frag_end - frag_end'))
            in if frag_end' > ft_calculated_size ft
               then (if FRAG_GOT_LAST \<in> ft_frag_flags ft
                     then (FRAG_INSERT_ANOMALY, (frag_offset, frag_end', len, False), ft,
                           frag3_alert cx AnomOversize evs1)
                     else (FRAG_INSERT_OK, (frag_offset, frag_end', len, False),
                           ft\<lparr>ft_calculated_size := frag_end'\<rparr>, evs1))
               else (FRAG_INSERT_OK, (frag_offset, frag_end', len, False), ft, evs1)))"

text \<open>The walk over the list: \<open>left\<close> is the last node that begins before the new fragment.\<close>

fun frag3_find :: "int \<Rightarrow> Frag3Frag list \<Rightarrow> Frag3Frag list \<Rightarrow> Frag3Frag list \<times> Frag3Frag list" where
  "frag3_find off left [] = (left, [])"
| "frag3_find off left (r # rs) =
     (if fr_offset r \<ge> off then (left, r # rs) else frag3_find off (r # left) rs)"

definition fi_close :: "int \<times> f3ins \<Rightarrow> int \<times> FragTracker \<times> frag3_event list" where
  "fi_close r = (case r of (ret, s) \<Rightarrow> (ret, (fi_ft s)\<lparr>ft_fraglist := fi_list s\<rparr>, fi_events s))"

text \<open>From the walk on: the overlaps and the new node.\<close>

definition frag3_place :: "nat \<Rightarrow> f3par \<Rightarrow> f3ins \<Rightarrow> (int \<times> f3ins) option" where
  "frag3_place fuel c s =
     (case left_overlap c s of
        Inl r \<Rightarrow> Some r
      | Inr s1 \<Rightarrow>
          (if u16 (fp_fragLength c) > fp_snaplen c then Some (FRAG_INSERT_FAILED, s1)
           else case right_loop fuel c s1 of
             None \<Rightarrow> None
           | Some (Inl r) \<Rightarrow> Some r
           | Some (Inr s2) \<Rightarrow>
               (let s3 = checkTinyFragments c (fp_len c - fi_slide s2 - fi_trunc s2) s2;
                    lim = cx_overlap_limit (fp_cx c)
                in if lim \<noteq> 0 \<and> ft_overlap_count (fi_ft s3) \<ge> lim
                   then Some (FRAG_INSERT_OVERLAP_LIMIT, fi_event c ExcessiveOverlap s3)
                   else if fi_addthis s3 then Some (AddFragNode c (fp_lastfrag c) s3)
                   else Some (FRAG_INSERT_OK, s3))))"

definition Frag3Insert ::
  "nat \<Rightarrow> int \<Rightarrow> (int \<Rightarrow> bool) \<Rightarrow> FragPacket \<Rightarrow> FragTracker \<Rightarrow> Frag3Context \<Rightarrow>
   (int \<times> FragTracker \<times> frag3_event list) option" where
  "Frag3Insert fuel snaplen node_ok p ft0 cx =
     (let (timeout, ft1) = Frag3Expire p ft0 cx;
          ft2 = (if timeout then ft_restart p ft1 else ft1);
          ft3 = (if pk_is_ip6 p \<and> pk_frag_offset p = 0 then ft2\<lparr>ft_protocol := pk_ip6f_nxt p\<rparr> else ft2);
          (firstLastOk, ft4, evs1) = Frag3CheckFirstLast p ft3 cx [];
          (ret, (frag_offset, frag_end, len, lastfrag), ft5, evs2) = frag3_bounds p cx firstLastOk ft4 evs1
      in if ret \<noteq> FRAG_INSERT_OK then Some (ret, ft5, evs2)
         else if frag_end = frag_offset then Some (FRAG_INSERT_ANOMALY, ft5, frag3_alert cx AnomZeroFrag evs2)
         else if ft_calculated_size ft5 > IP_MAXPACKET
         then Some (FRAG_INSERT_ANOMALY, ft5\<lparr>ft_frag_flags := insert FRAG_BAD (ft_frag_flags ft5)\<rparr>,
                    frag3_alert cx AnomBadsizeLg evs2)
         else
           (let (ft6, evs3) = Frag3HandleIPOptions ft5 p cx evs2;
                ft7 = ft6\<lparr>ft_frag_pkts := u32 (ft_frag_pkts ft6 + 1)\<rparr>;
                (left, right) = frag3_find frag_offset [] (ft_fraglist ft7)
            in map_option fi_close
                 (frag3_place fuel
                    \<lparr>fp_p = p, fp_cx = cx, fp_snaplen = snaplen, fp_node_ok = node_ok,
                     fp_orig_offset = u16 (8 * pk_frag_offset p), fp_frag_end = frag_end,
                     fp_fragLength = s16 (pk_ip_frag_len p), fp_len = len, fp_lastfrag = lastfrag\<rparr>
                    \<lparr>fi_ft = ft7, fi_left = left, fi_mid = [], fi_right = right, fi_offset = frag_offset,
                     fi_slide = 0, fi_trunc = 0, fi_addthis = True, fi_alerted_overlap = False,
                     fi_events = evs3\<rparr>)))"

subsection \<open>The first fragment\<close>

text \<open>The tracker that is filled in; \<open>None\<close> where the C function gives up and returns 0.\<close>

definition Frag3NewTracker ::
  "int \<Rightarrow> (int \<Rightarrow> bool) \<Rightarrow> frag_policy \<Rightarrow> FragPacket \<Rightarrow> Frag3Context \<Rightarrow> (FragTracker \<times> frag3_event list) option" where
  "Frag3NewTracker snaplen node_ok policy p cx =
     (let fragLength = u16 (pk_ip_frag_len p) in
      if fragLength > snaplen \<or> \<not> node_ok 0 then None
      else
        (let offset = u16 (8 * pk_frag_offset p);
             frag_end = u16 (offset + fragLength);
             evs = (if pk_mf p \<and> frag_end mod 8 \<noteq> 0 then frag3_alert cx AnomShortFrag [] else []);
             f = \<lparr>fr_fptr = take (nat fragLength) (pk_ip_frag_start p), fr_delta = 0,
                  fr_size = (if pk_mf p then u16 (frag_end - frag_end mod 8 - offset) else fragLength),
                  fr_offset = offset, fr_ord = 0, fr_last = \<not> pk_mf p\<rparr>;
             tmp = \<lparr>ft_protocol = (if pk_is_ip6 p then (if pk_frag_offset p = 0 then pk_ip6f_nxt p else 0)
                                  else pk_ip_proto p),
                    ft_ttl = pk_ttl p, ft_alerted = False, ft_frag_flags = {}, ft_frag_bytes = 0,
                    ft_calculated_size = 0, ft_frag_pkts = 1, ft_sec = pk_sec p, ft_usec = pk_usec p,
                    ft_fraglist = [f], ft_alert_count = 0, ft_ip_options_len = 0, ft_ip_option_count = 0,
                    ft_ip_options_data = None, ft_copied_ip_options_len = 0, ft_copied_ip_option_count = 0,
                    ft_ordinal = 1, ft_frag_policy = policy, ft_overlap_count = 0\<rparr>;
             (_, tmp1, evs1) = Frag3CheckFirstLast p tmp cx evs;
             tmp2 = tmp1\<lparr>ft_frag_bytes := u32 (ft_frag_bytes tmp1 + fragLength)\<rparr>
         in Some (Frag3HandleIPOptions tmp2 p cx evs1)))"

subsection \<open>Completion\<close>

definition Frag3IsComplete :: "FragTracker \<Rightarrow> bool" where
  "Frag3IsComplete ft \<longleftrightarrow>
     FRAG_GOT_FIRST \<in> ft_frag_flags ft \<and> FRAG_GOT_LAST \<in> ft_frag_flags ft \<and>
     ft_frag_bytes ft \<ge> ft_calculated_size ft"

text \<open>
  The loop of \<open>Frag3Rebuild\<close> over the list, into the payload buffer of the pseudo packet (which keeps
  what earlier packets left in it). The flag says whether every copy was in bounds of the buffer;
  \<open>None\<close> is a read past the data of a fragment.
\<close>

definition frag_data :: "Frag3Frag \<Rightarrow> u8 list option" where
  "frag_data f =
     (if 0 \<le> fr_delta f \<and> nat (fr_delta f + fr_size f) \<le> length (fr_fptr f)
      then Some (take (nat (fr_size f)) (drop (nat (fr_delta f)) (fr_fptr f))) else None)"

definition buf_write :: "u8 list \<Rightarrow> nat \<Rightarrow> u8 list \<Rightarrow> u8 list" where
  "buf_write buf off d = take off buf @ d @ drop (off + length d) buf"

fun rebuild_loop :: "int \<Rightarrow> Frag3Frag list \<Rightarrow> u8 list \<Rightarrow> (bool \<times> u8 list) option" where
  "rebuild_loop calc [] buf = Some (True, buf)"
| "rebuild_loop calc (f # fs) buf =
     (if fr_end f > u16 calc then rebuild_loop calc fs buf
      else if fr_size f = 0 then rebuild_loop calc fs buf
      else if length buf < nat (fr_end f) then Some (False, buf)
      else case frag_data f of
             None \<Rightarrow> None
           | Some d \<Rightarrow> rebuild_loop calc fs (buf_write buf (nat (fr_offset f)) d))"

text \<open>
  The options that are copied in front of the payload, for IPv4 only. The result has the options,
  and the first \<open>calculated_size\<close> bytes (\<open>dsize\<close>) of the buffer behind them; \<open>None\<close> also where
  \<open>ip_options_len\<close> is more than what was allocated for \<open>ip_options_data\<close>.
\<close>

definition frag_options :: "bool \<Rightarrow> FragTracker \<Rightarrow> u8 list option" where
  "frag_options ip4 ft = (if ip4 \<and> ft_ip_options_len ft \<noteq> 0 then ft_ip_options_data ft else None)"

definition Frag3Rebuild ::
  "bool \<Rightarrow> FragTracker \<Rightarrow> u8 list \<Rightarrow> ((u8 list \<times> u8 list) option \<times> FragTracker) option" where
  "Frag3Rebuild ip4 ft buf =
     (let done = ft\<lparr>ft_frag_flags := insert FRAG_REBUILT (ft_frag_flags ft)\<rparr>;
          size = nat (u16 (ft_calculated_size ft));
          n = nat (ft_ip_options_len ft);
          walk = (\<lambda>opts buf.
            case rebuild_loop (ft_calculated_size ft) (ft_fraglist ft) buf of
              None \<Rightarrow> None
            | Some (False, _) \<Rightarrow> Some (None, done)
            | Some (True, buf') \<Rightarrow> Some (Some (opts, take size buf'), done))
      in case frag_options ip4 ft of
           None \<Rightarrow> walk [] buf
         | Some d \<Rightarrow>
             (if length buf < n then Some (None, done)
              else if length d < n then None
              else walk (take n d) (drop n buf)))"

end
