(* ===== verification/Frag3Tracker.thy ===== *)
theory Frag3Tracker
  imports Frag3
begin

text \<open>
  What holds of a defragmentation tracker of \<open>Frag3\<close> under the policies that never cut a new
  fragment into chunks (last, linux, bsd-right): the list stays sorted and disjoint through every
  stage of \<open>Frag3Insert\<close>, it refines a map from offsets to bytes, and a complete tracker rebuilds
  the datagram. Concrete runs show where the code falls short of this.
\<close>

subsection \<open>Well-formed trackers\<close>

lemma u16_id [simp]: "0 \<le> x \<Longrightarrow> x < 65536 \<Longrightarrow> u16 x = x"
  by (simp add: u16_def)

lemma s16_id [simp]: "-32768 \<le> x \<Longrightarrow> x < 32768 \<Longrightarrow> s16 x = x"
  by (simp add: s16_def)

lemma u32_id [simp]: "0 \<le> x \<Longrightarrow> x < 4294967296 \<Longrightarrow> u32 x = x"
  by (simp add: u32_def)

definition frag_ok :: "Frag3Frag \<Rightarrow> bool" where
  "frag_ok f \<longleftrightarrow> 0 < fr_size f \<and> fr_size f < 32768 \<and> 0 \<le> fr_offset f \<and> fr_end f \<le> IP_MAXPACKET \<and>
     0 \<le> fr_delta f \<and> fr_delta f + fr_size f \<le> int (length (fr_fptr f))"

definition frags_ok :: "Frag3Frag list \<Rightarrow> bool" where
  "frags_ok fs \<longleftrightarrow> (\<forall>f\<in>set fs. frag_ok f) \<and> sorted_wrt (\<lambda>a b. fr_end a \<le> fr_offset b) fs"

definition frag_sizes :: "Frag3Frag list \<Rightarrow> int" where
  "frag_sizes fs = sum_list (map fr_size fs)"

lemma frag_sizes_simps [simp]:
  "frag_sizes [] = 0" "frag_sizes (f # fs) = fr_size f + frag_sizes fs"
  "frag_sizes (fs @ gs) = frag_sizes fs + frag_sizes gs" "frag_sizes (rev fs) = frag_sizes fs"
  by (simp_all add: frag_sizes_def rev_map [symmetric])

lemma frags_ok_simps [simp]:
  "frags_ok []"
  "frags_ok (f # fs) \<longleftrightarrow> frag_ok f \<and> frags_ok fs \<and> (\<forall>g\<in>set fs. fr_end f \<le> fr_offset g)"
  by (auto simp: frags_ok_def)

lemma frags_ok_append:
  "frags_ok (fs @ gs) \<longleftrightarrow> frags_ok fs \<and> frags_ok gs \<and> (\<forall>f\<in>set fs. \<forall>g\<in>set gs. fr_end f \<le> fr_offset g)"
  by (auto simp: frags_ok_def sorted_wrt_append)

lemma frags_ok_all: "frags_ok fs \<Longrightarrow> f \<in> set fs \<Longrightarrow> frag_ok f"
  by (simp add: frags_ok_def)

lemma frag_sizes_range:
  "frags_ok fs \<Longrightarrow> \<forall>f\<in>set fs. lo \<le> fr_offset f \<Longrightarrow> lo \<le> IP_MAXPACKET \<Longrightarrow>
   0 \<le> frag_sizes fs \<and> lo + frag_sizes fs \<le> IP_MAXPACKET"
proof (induction fs arbitrary: lo)
  case Nil
  then show ?case by simp
next
  case (Cons f fs)
  have "0 \<le> frag_sizes fs \<and> fr_end f + frag_sizes fs \<le> IP_MAXPACKET"
    by (rule Cons.IH) (use Cons.prems in \<open>auto simp: frag_ok_def\<close>)
  then show ?case using Cons.prems by (auto simp: frag_ok_def fr_end_def)
qed

lemma frag_sizes_bound: "frags_ok fs \<Longrightarrow> 0 \<le> frag_sizes fs \<and> frag_sizes fs \<le> 65535"
  using frag_sizes_range [of fs 0] frags_ok_all [of fs] by (auto simp: frag_ok_def IP_MAXPACKET_def)

text \<open>The policies under which the new fragment is never cut into chunks.\<close>

definition whole_policy :: "frag_policy \<Rightarrow> bool" where
  "whole_policy pol \<longleftrightarrow> pol \<in> {FRAG_POLICY_LAST, FRAG_POLICY_LINUX, FRAG_POLICY_BSD_RIGHT}"

text \<open>
  The list is sorted and disjoint, \<open>frag_bytes\<close> counts its bytes, and no fragment ends behind
  \<open>calculated_size\<close> or, if that is behind it, behind \<open>hi\<close>, the end of the first fragment of the tracker:
  \<open>Frag3NewTracker\<close> does not record that one in \<open>calculated_size\<close>. Once the last fragment was seen,
  \<open>calculated_size\<close> is at least the length of the datagram. The two bounds are the pair \<open>hi\<close>.
\<close>

abbreviation ft_top :: "int \<times> int \<Rightarrow> FragTracker \<Rightarrow> int" where
  "ft_top hi ft \<equiv> max (fst hi) (ft_calculated_size ft)"

definition tracker_ok :: "int \<times> int \<Rightarrow> FragTracker \<Rightarrow> bool" where
  "tracker_ok hi ft \<longleftrightarrow> frags_ok (ft_fraglist ft) \<and> ft_frag_bytes ft = frag_sizes (ft_fraglist ft) \<and>
     (\<forall>f\<in>set (ft_fraglist ft). fr_end f \<le> ft_top hi ft) \<and>
     0 \<le> ft_calculated_size ft \<and> ft_calculated_size ft \<le> IP_MAXPACKET \<and>
     whole_policy (ft_frag_policy ft) \<and> (FRAG_GOT_LAST \<in> ft_frag_flags ft \<longrightarrow> snd hi \<le> ft_calculated_size ft)"

text \<open>The byte a list of fragments has for an offset.\<close>

definition frag_has :: "Frag3Frag \<Rightarrow> int \<Rightarrow> bool" where
  "frag_has f x \<longleftrightarrow> fr_offset f \<le> x \<and> x < fr_end f"

definition frag_byte :: "Frag3Frag \<Rightarrow> int \<Rightarrow> u8" where
  "frag_byte f x = fr_fptr f ! nat (fr_delta f + (x - fr_offset f))"

definition frag_at :: "Frag3Frag list \<Rightarrow> int \<Rightarrow> u8 option" where
  "frag_at fs x = map_option (\<lambda>f. frag_byte f x) (List.find (\<lambda>f. frag_has f x) fs)"

lemma frag_at_simps [simp]:
  "frag_at [] x = None"
  "frag_at (f # fs) x = (if frag_has f x then Some (frag_byte f x) else frag_at fs x)"
  by (simp_all add: frag_at_def)

lemma frag_at_append: "frag_at (fs @ gs) x = (case frag_at fs x of None \<Rightarrow> frag_at gs x | Some b \<Rightarrow> Some b)"
  by (induction fs) auto

lemma frag_at_None: "frag_at fs x = None \<longleftrightarrow> (\<forall>f\<in>set fs. \<not> frag_has f x)"
  by (induction fs) auto

lemma frag_at_mem:
  "frags_ok fs \<Longrightarrow> f \<in> set fs \<Longrightarrow> frag_has f x \<Longrightarrow> frag_at fs x = Some (frag_byte f x)"
proof (induction fs)
  case Nil
  then show ?case by simp
next
  case (Cons g gs)
  show ?case
  proof (cases "f = g")
    case True
    then show ?thesis using Cons.prems by simp
  next
    case False
    then have "\<not> frag_has g x" using Cons.prems by (auto simp: frag_has_def)
    then show ?thesis using Cons False by simp
  qed
qed

subsection \<open>A complete tracker has no holes\<close>

lemma frag_cover:
  assumes "frags_ok fs" and "\<forall>f\<in>set fs. lo \<le> fr_offset f \<and> fr_end f \<le> hi"
    and "hi - lo \<le> frag_sizes fs" and "lo \<le> x" and "x < hi"
  shows "\<exists>f\<in>set fs. frag_has f x"
  using assms
proof (induction fs arbitrary: lo)
  case Nil
  then show ?case by simp
next
  case (Cons f fs)
  have rest: "fr_end f + frag_sizes fs \<le> hi"
    using Cons.prems(1,2)
  proof (induction fs arbitrary: f)
    case Nil
    then show ?case by simp
  next
    case (Cons g gs)
    have "fr_end g + frag_sizes gs \<le> hi" by (rule Cons.IH) (use Cons.prems in auto)
    then show ?case using Cons.prems by (auto simp: fr_end_def)
  qed
  have lo: "fr_offset f = lo" using rest Cons.prems(2,3) by (auto simp: fr_end_def)
  show ?case
  proof (cases "x < fr_end f")
    case True
    then show ?thesis using lo Cons.prems(4) by (auto simp: frag_has_def)
  next
    case False
    have "\<exists>g\<in>set fs. frag_has g x"
      by (rule Cons.IH [of "fr_end f"]) (use Cons.prems False lo in \<open>auto simp: fr_end_def\<close>)
    then show ?thesis by auto
  qed
qed

lemma buf_write_nth:
  assumes "off + length d \<le> length buf"
  shows "length (buf_write buf off d) = length buf"
    and "i < length buf \<Longrightarrow> buf_write buf off d ! i = (if off \<le> i \<and> i < off + length d then d ! (i - off) else buf ! i)"
  using assms by (auto simp: buf_write_def nth_append)

lemma frag_data_ok:
  assumes "frag_ok f"
  shows "\<exists>d. frag_data f = Some d \<and> length d = nat (fr_size f) \<and>
     (\<forall>i<length d. d ! i = frag_byte f (fr_offset f + int i))"
proof -
  have f: "0 \<le> fr_delta f" "0 < fr_size f" "fr_delta f + fr_size f \<le> int (length (fr_fptr f))"
    using assms by (auto simp: frag_ok_def)
  then have le: "nat (fr_delta f + fr_size f) \<le> length (fr_fptr f)" by simp
  let ?d = "take (nat (fr_size f)) (drop (nat (fr_delta f)) (fr_fptr f))"
  have "length ?d = nat (fr_size f)" using f by auto
  moreover have "?d ! i = frag_byte f (fr_offset f + int i)" if "i < nat (fr_size f)" for i
    using that f by (simp add: frag_byte_def nat_add_distrib)
  ultimately show ?thesis using f(1) le by (auto simp: frag_data_def)
qed

lemma rebuild_loop_ok:
  assumes "frags_ok fs" and "\<forall>f\<in>set fs. fr_end f \<le> calc" and "calc \<le> IP_MAXPACKET"
    and "nat calc \<le> length buf"
  shows "\<exists>buf'. rebuild_loop calc fs buf = Some (True, buf') \<and> length buf' = length buf \<and>
     (\<forall>i<length buf. buf' ! i = (case frag_at fs (int i) of Some b \<Rightarrow> b | None \<Rightarrow> buf ! i))"
  using assms
proof (induction fs arbitrary: buf)
  case Nil
  then show ?case by simp
next
  case (Cons f fs)
  have f: "frag_ok f" and le: "fr_end f \<le> calc" using Cons.prems by auto
  have fo: "0 < fr_size f" "0 \<le> fr_offset f" using f by (auto simp: frag_ok_def)
  have "0 \<le> calc" using le fo by (simp add: fr_end_def)
  then have calc: "u16 calc = calc" using Cons.prems(3) by (simp add: IP_MAXPACKET_def)
  obtain d where d: "frag_data f = Some d" "length d = nat (fr_size f)"
    "\<forall>i<length d. d ! i = frag_byte f (fr_offset f + int i)" using frag_data_ok [OF f] by blast
  let ?buf = "buf_write buf (nat (fr_offset f)) d"
  have fits: "nat (fr_offset f) + length d \<le> length buf"
    using d(2) fo le Cons.prems(4) by (simp add: fr_end_def)
  note w = buf_write_nth [OF fits]
  have step: "rebuild_loop calc (f # fs) buf = rebuild_loop calc fs ?buf"
    using calc le fo fits d(1,2) by (auto simp: fr_end_def)
  have "nat calc \<le> length ?buf" using w(1) Cons.prems(4) by simp
  then obtain buf' where buf': "rebuild_loop calc fs ?buf = Some (True, buf')" "length buf' = length ?buf"
    "\<forall>i<length ?buf. buf' ! i = (case frag_at fs (int i) of Some b \<Rightarrow> b | None \<Rightarrow> ?buf ! i)"
    using Cons.IH [of ?buf] Cons.prems by auto
  have "buf' ! i = (case frag_at (f # fs) (int i) of Some b \<Rightarrow> b | None \<Rightarrow> buf ! i)" if i: "i < length buf" for i
  proof (cases "frag_has f (int i)")
    case True
    then have none: "frag_at fs (int i) = None"
      using Cons.prems(1) by (auto simp: frag_at_None frag_has_def)
    have "nat (fr_offset f) \<le> i" "i < nat (fr_offset f) + length d"
      using True d(2) fo by (auto simp: frag_has_def fr_end_def)
    then have "?buf ! i = frag_byte f (int i)"
      using w(2) [OF i] d(3) fo by (simp add: of_nat_diff)
    then show ?thesis using buf'(3) none True i w(1) by simp
  next
    case False
    then have "\<not> (nat (fr_offset f) \<le> i \<and> i < nat (fr_offset f) + length d)"
      using d(2) fo by (auto simp: frag_has_def fr_end_def)
    then have "?buf ! i = buf ! i" using w(2) [OF i] by auto
    then show ?thesis using buf'(3) False i w(1) by (simp split: option.split)
  qed
  then show ?case using step buf' w(1) by auto
qed

subsection \<open>The insertion keeps a tracker well formed\<close>

definition cut_front :: "int \<Rightarrow> Frag3Frag \<Rightarrow> Frag3Frag" where
  "cut_front d f = f\<lparr>fr_offset := fr_offset f + d, fr_delta := fr_delta f + d, fr_size := fr_size f - d\<rparr>"

definition cut_back :: "int \<Rightarrow> Frag3Frag \<Rightarrow> Frag3Frag" where
  "cut_back d f = f\<lparr>fr_size := fr_size f - d\<rparr>"

lemma cut_simps [simp]:
  "fr_offset (cut_front d f) = fr_offset f + d" "fr_end (cut_front d f) = fr_end f"
  "fr_size (cut_front d f) = fr_size f - d"
  "fr_offset (cut_back d f) = fr_offset f" "fr_end (cut_back d f) = fr_end f - d"
  "fr_size (cut_back d f) = fr_size f - d"
  by (simp_all add: cut_front_def cut_back_def fr_end_def)

lemma cut_ok:
  assumes "frag_ok f" and "0 \<le> d" and "d < fr_size f"
  shows "frag_ok (cut_front d f)" and "frag_ok (cut_back d f)"
  using assms by (auto simp: frag_ok_def cut_front_def cut_back_def fr_end_def)

lemma cut_has [simp]:
  "0 \<le> d \<Longrightarrow> frag_has (cut_front d f) x \<longleftrightarrow> frag_has f x \<and> fr_offset f + d \<le> x"
  "0 \<le> d \<Longrightarrow> frag_has (cut_back d f) x \<longleftrightarrow> frag_has f x \<and> x < fr_end f - d"
  by (auto simp: frag_has_def)

lemma cut_byte [simp]: "frag_byte (cut_front d f) x = frag_byte f x" "frag_byte (cut_back d f) x = frag_byte f x"
  by (simp_all add: frag_byte_def cut_front_def cut_back_def algebra_simps)

lemma ord_simps [simp]:
  "fr_end (f\<lparr>fr_ord := n\<rparr>) = fr_end f" "frag_byte (f\<lparr>fr_ord := n\<rparr>) x = frag_byte f x"
  "frag_has (f\<lparr>fr_ord := n\<rparr>) x = frag_has f x" "frag_ok (f\<lparr>fr_ord := n\<rparr>) = frag_ok f"
  by (simp_all add: fr_end_def frag_byte_def frag_has_def frag_ok_def)

definition fi_tracker :: "f3ins \<Rightarrow> FragTracker" where
  "fi_tracker s = (fi_ft s)\<lparr>ft_fraglist := fi_list s\<rparr>"

lemmas fi_updates = fi_event_def fi_bytes_def fi_overlap_def fi_flag_def

text \<open>The locals that are set once: the new fragment is \<open>[frag_end - len, frag_end)\<close>.\<close>

definition f3par_ok :: "f3par \<Rightarrow> bool" where
  "f3par_ok c \<longleftrightarrow> 0 < fp_len c \<and> fp_len c \<le> fp_fragLength c \<and> fp_fragLength c < 32768 \<and>
     fp_fragLength c \<le> int (length (pk_ip_frag_start (fp_p c))) \<and>
     fp_len c \<le> fp_frag_end c \<and> fp_frag_end c \<le> IP_MAXPACKET"

definition fi_common :: "int \<times> int \<Rightarrow> f3par \<Rightarrow> f3ins \<Rightarrow> bool" where
  "fi_common hi c s \<longleftrightarrow> tracker_ok hi (fi_tracker s) \<and> fi_mid s = [] \<and> fp_frag_end c \<le> ft_calculated_size (fi_ft s) \<and>
     fi_addthis s \<and> fi_offset s = fp_frag_end c - fp_len c + fi_slide s \<and> 0 \<le> fi_slide s \<and>
     fi_offset s \<le> fp_frag_end c"

text \<open>Before the loop, and behind it.\<close>

definition fi_ready :: "int \<times> int \<Rightarrow> f3par \<Rightarrow> f3ins \<Rightarrow> bool" where
  "fi_ready hi c s \<longleftrightarrow> fi_common hi c s \<and> (\<forall>l\<in>set (fi_left s). fr_end l \<le> fi_offset s) \<and>
     (\<forall>r\<in>set (fi_right s). fi_offset s \<le> fr_offset r)"

definition fi_after :: "int \<times> int \<Rightarrow> f3par \<Rightarrow> f3ins \<Rightarrow> bool" where
  "fi_after hi c s \<longleftrightarrow> fi_common hi c s \<and> (\<forall>l\<in>set (fi_left s). fr_end l \<le> fi_offset s) \<and>
     0 \<le> fi_trunc s \<and> fi_offset s \<le> fp_frag_end c - fi_trunc s \<and>
     (\<forall>r\<in>set (fi_right s). fp_frag_end c - fi_trunc s \<le> fr_offset r)"

lemma frag_at_rev_left:
  "fi_mid s = [] \<Longrightarrow> fi_list s = rev (fi_left s) @ fi_right s"
  by (simp add: fi_list_def)

lemma tracker_bytes:
  assumes "tracker_ok hi (fi_tracker s)" and "frags_ok (fi_list s')"
    and "frag_sizes (fi_list s') = frag_sizes (fi_list s) + d"
    and "\<forall>f\<in>set (fi_list s'). fr_end f \<le> ft_top hi (fi_ft s)"
    and "ft_frag_bytes (fi_ft s') = u32 (ft_frag_bytes (fi_ft s) + d)"
    and "ft_calculated_size (fi_ft s') = ft_calculated_size (fi_ft s)"
    and "ft_frag_policy (fi_ft s') = ft_frag_policy (fi_ft s)"
    and "ft_frag_flags (fi_ft s') = ft_frag_flags (fi_ft s)"
  shows "tracker_ok hi (fi_tracker s')"
proof -
  have "u32 (ft_frag_bytes (fi_ft s) + d) = u32 (frag_sizes (fi_list s'))"
    using assms(1,3) by (simp add: tracker_ok_def fi_tracker_def)
  also have "\<dots> = frag_sizes (fi_list s')" using frag_sizes_bound [OF assms(2)] by simp
  finally show ?thesis using assms by (simp add: tracker_ok_def fi_tracker_def)
qed

lemma tracker_keep:
  assumes "tracker_ok hi (fi_tracker s)" and "fi_list s' = fi_list s"
    and "ft_frag_bytes (fi_ft s') = ft_frag_bytes (fi_ft s)"
    and "ft_calculated_size (fi_ft s') = ft_calculated_size (fi_ft s)"
    and "ft_frag_policy (fi_ft s') = ft_frag_policy (fi_ft s)"
    and "ft_frag_flags (fi_ft s') = ft_frag_flags (fi_ft s)"
  shows "tracker_ok hi (fi_tracker s')"
  using assms by (simp add: tracker_ok_def fi_tracker_def)

lemma fi_commonD:
  assumes "fi_common hi c s"
  shows "tracker_ok hi (fi_tracker s)" "frags_ok (rev (fi_left s) @ fi_right s)" "fi_list s = rev (fi_left s) @ fi_right s"
    "\<forall>f\<in>set (fi_left s) \<union> set (fi_right s). fr_end f \<le> ft_top hi (fi_ft s)"
  using assms by (auto simp: fi_common_def tracker_ok_def fi_tracker_def fi_list_def)

subsubsection \<open>One round of the loop\<close>

lemma right_partial_cut:
  assumes c: "f3par_ok c" and s: "fi_ready hi c s" "fi_trunc s = 0" and r: "fi_right s = r # rs"
    and lap: "fr_offset r < fp_frag_end c" "fp_frag_end c - fr_offset r < fr_size r"
    and pol: "ft_frag_policy (fi_ft s) \<in> {FRAG_POLICY_LAST, FRAG_POLICY_LINUX}"
  defines "d \<equiv> fp_frag_end c - fr_offset r"
  shows "right_partial c d r rs s = fi_bytes (- d) (fi_overlap (s\<lparr>fi_right := cut_front d r # rs\<rparr>))" (is ?eq)
    and "fi_after hi c (right_partial c d r rs s)"
    and "\<not> (fi_offset s \<le> x \<and> x < fp_frag_end c) \<Longrightarrow>
      frag_at (fi_list (right_partial c d r rs s)) x = frag_at (fi_list s) x"
proof -
  have com: "fi_common hi c s" using s by (simp add: fi_ready_def)
  note cd = fi_commonD [OF com]
  have rok: "frag_ok r" using cd(2) r by (auto simp: frags_ok_append)
  have num: "0 < d" "d < fr_size r" "s16 d = d" "fr_offset r + d = fp_frag_end c" "0 \<le> fr_offset r"
    "u16 (fp_frag_end c) = fp_frag_end c" "u16 (fr_size r - d) = fr_size r - d"
    using c lap rok by (auto simp: f3par_ok_def frag_ok_def IP_MAXPACKET_def d_def)
  show eq: ?eq
    using pol num by (auto simp: right_partial_def fi_updates Let_def cut_front_def)
  let ?s = "fi_bytes (- d) (fi_overlap (s\<lparr>fi_right := cut_front d r # rs\<rparr>))"
  have list: "fi_list ?s = rev (fi_left s) @ cut_front d r # rs"
    using com by (simp add: fi_updates fi_list_def fi_common_def)
  have cok: "frag_ok (cut_front d r)" using cut_ok(1) [OF rok] num by simp
  have "frags_ok (fi_list ?s)"
    using cd(2) r cok num by (auto simp: list frags_ok_append)
  then have "tracker_ok hi (fi_tracker ?s)"
    by (rule tracker_bytes [OF cd(1), where d = "- d"])
      (use cd r list in \<open>auto simp: fi_updates\<close>)
  then show "fi_after hi c (right_partial c d r rs s)"
    unfolding eq using s r num c cd(2)
    by (auto simp: fi_after_def fi_ready_def fi_common_def fi_updates frags_ok_append fr_end_def d_def)
  show "frag_at (fi_list (right_partial c d r rs s)) x = frag_at (fi_list s) x"
    if x: "\<not> (fi_offset s \<le> x \<and> x < fp_frag_end c)"
  proof -
    have "fi_offset s \<le> fr_offset r" using s r by (auto simp: fi_ready_def)
    then show ?thesis
      unfolding eq list cd(3) r using x num by (auto simp: frag_at_append frag_has_def split: option.split)
  qed
qed

lemma right_partial_trunc:
  assumes c: "f3par_ok c" and s: "fi_ready hi c s" "fi_trunc s = 0" and r: "fi_right s = r # rs"
    and lap: "fr_offset r < fp_frag_end c" "fp_frag_end c - fr_offset r < fr_size r"
    and pol: "ft_frag_policy (fi_ft s) = FRAG_POLICY_BSD_RIGHT"
  defines "d \<equiv> fp_frag_end c - fr_offset r"
  shows "right_partial c d r rs s = (fi_overlap s)\<lparr>fi_trunc := d\<rparr>" (is ?eq)
    and "fi_after hi c (right_partial c d r rs s)"
proof -
  have com: "fi_common hi c s" using s by (simp add: fi_ready_def)
  note cd = fi_commonD [OF com]
  have rok: "frag_ok r" using cd(2) r by (auto simp: frags_ok_append)
  have num: "0 < d" "d < fr_size r" "s16 d = d" "fp_frag_end c - d = fr_offset r"
    using c lap rok by (auto simp: f3par_ok_def frag_ok_def IP_MAXPACKET_def d_def)
  show eq: ?eq using pol num by (auto simp: right_partial_def fi_updates Let_def)
  have "tracker_ok hi (fi_tracker ((fi_overlap s)\<lparr>fi_trunc := d\<rparr>))"
    by (rule tracker_keep [OF cd(1)]) (simp_all add: fi_updates fi_list_def)
  then show "fi_after hi c (right_partial c d r rs s)"
    unfolding eq using s r num cd(2) rok
    by (auto simp: fi_after_def fi_ready_def fi_common_def fi_updates frags_ok_append fr_end_def frag_ok_def)
qed

lemma right_dump_ready:
  assumes s: "fi_ready hi c s" and r: "fi_right s = r # rs" and full: "fr_end r \<le> fp_frag_end c"
  shows "fi_ready hi c (right_dump s)" and "fi_right (right_dump s) = rs" and "fi_offset (right_dump s) = fi_offset s"
    and "ft_frag_policy (fi_ft (right_dump s)) = ft_frag_policy (fi_ft s)"
    and "\<not> (fi_offset s \<le> x \<and> x < fr_end r) \<Longrightarrow>
      frag_at (fi_list (right_dump s)) x = frag_at (fi_list s) x"
proof -
  have com: "fi_common hi c s" using s by (simp add: fi_ready_def)
  note cd = fi_commonD [OF com]
  have eq: "right_dump s = fi_bytes (- fr_size r) (s\<lparr>fi_right := rs\<rparr>)" by (simp add: right_dump_def r)
  let ?s = "fi_bytes (- fr_size r) (s\<lparr>fi_right := rs\<rparr>)"
  have list: "fi_list ?s = rev (fi_left s) @ rs"
    using com by (simp add: fi_updates fi_list_def fi_common_def)
  have "tracker_ok hi (fi_tracker ?s)"
    by (rule tracker_bytes [OF cd(1), where d = "- fr_size r"])
      (use cd r list in \<open>auto simp: fi_updates frags_ok_append\<close>)
  then show "fi_ready hi c (right_dump s)"
    unfolding eq using s r by (auto simp: fi_ready_def fi_common_def fi_updates)
  show "fi_right (right_dump s) = rs" "fi_offset (right_dump s) = fi_offset s"
    "ft_frag_policy (fi_ft (right_dump s)) = ft_frag_policy (fi_ft s)"
    by (simp_all add: eq fi_updates)
  show "frag_at (fi_list (right_dump s)) x = frag_at (fi_list s) x"
    if x: "\<not> (fi_offset s \<le> x \<and> x < fr_end r)"
  proof -
    have "fi_offset s \<le> fr_offset r" using s r by (auto simp: fi_ready_def)
    then show ?thesis
      unfolding eq list cd(3) r using x full by (auto simp: frag_at_append frag_has_def split: option.split)
  qed
qed

lemma fi_list_updates [simp]:
  "fi_list (fi_event c e s) = fi_list s" "fi_list (fi_overlap s) = fi_list s" "fi_list (fi_flag fl s) = fi_list s"
  "fi_list (fi_alerted_overlap_update g s) = fi_list s" "fi_list (fi_trunc_update h s) = fi_list s"
  by (simp_all add: fi_updates fi_list_def)

lemma fi_ready_updates [simp]:
  "fi_ready hi c (fi_event k e s) = fi_ready hi c s" "fi_ready hi c (fi_overlap s) = fi_ready hi c s"
  "fi_ready hi c (fi_alerted_overlap_update g s) = fi_ready hi c s" "fi_ready hi c (fi_trunc_update h s) = fi_ready hi c s"
  by (simp_all add: fi_ready_def fi_common_def fi_updates fi_tracker_def tracker_ok_def fi_list_def)

lemma fi_updates_sel [simp]:
  "fi_right (fi_event k e s) = fi_right s" "fi_right (fi_overlap s) = fi_right s"
  "fi_offset (fi_event k e s) = fi_offset s" "fi_offset (fi_overlap s) = fi_offset s"
  "ft_frag_policy (fi_ft (fi_event k e s)) = ft_frag_policy (fi_ft s)"
  "ft_frag_policy (fi_ft (fi_overlap s)) = ft_frag_policy (fi_ft s)"
  "fi_trunc (fi_event k e s) = fi_trunc s" "fi_trunc (fi_overlap s) = fi_trunc s"
  by (simp_all add: fi_updates)

lemma fi_attack_ok:
  "tracker_ok hi (fi_tracker s) \<Longrightarrow> \<exists>s'. fi_attack c s = (FRAG_INSERT_ATTACK, s') \<and> tracker_ok hi (fi_tracker s')"
  by (simp add: fi_attack_def fi_tracker_def tracker_ok_def fi_updates fi_list_def)

text \<open>The old fragments that keep their bytes against a new one at \<open>[lo, hi)\<close>.\<close>

definition frag_stays :: "frag_policy \<Rightarrow> int \<Rightarrow> int \<Rightarrow> Frag3Frag \<Rightarrow> bool" where
  "frag_stays pol lo hi f \<longleftrightarrow>
     pol = FRAG_POLICY_LINUX \<and> fr_offset f < lo \<or>
     pol = FRAG_POLICY_BSD_RIGHT \<and> lo \<le> fr_offset f \<and> hi < fr_end f"

definition right_result :: "int \<times> int \<Rightarrow> f3par \<Rightarrow> f3ins \<Rightarrow> f3ins \<Rightarrow> bool" where
  "right_result hi c s s' \<longleftrightarrow>
     fi_after hi c s' \<and> fi_offset s' = fi_offset s \<and> ft_frag_policy (fi_ft s') = ft_frag_policy (fi_ft s) \<and>
     (\<forall>x. \<not> (fi_offset s \<le> x \<and> x < fp_frag_end c - fi_trunc s') \<longrightarrow>
          frag_at (fi_list s') x = frag_at (fi_list s) x) \<and>
     (if fi_trunc s' = 0
      then ft_frag_policy (fi_ft s) = FRAG_POLICY_BSD_RIGHT \<longrightarrow>
             (\<forall>r\<in>set (fi_right s). \<not> (fr_offset r < fp_frag_end c \<and> fp_frag_end c < fr_end r))
      else ft_frag_policy (fi_ft s) = FRAG_POLICY_BSD_RIGHT \<and>
             (\<exists>r\<in>set (fi_right s). fr_offset r = fp_frag_end c - fi_trunc s' \<and> fp_frag_end c < fr_end r))"

lemma right_partial_result:
  assumes c: "f3par_ok c" and s: "fi_ready hi c s" "fi_trunc s = 0" and r: "fi_right s = r # rs"
    and lap: "fr_offset r < fp_frag_end c" "fp_frag_end c - fr_offset r < fr_size r"
    and pol: "whole_policy (ft_frag_policy (fi_ft s))"
  shows "right_result hi c s (right_partial c (fp_frag_end c - fr_offset r) r rs s)"
proof (cases "ft_frag_policy (fi_ft s) = FRAG_POLICY_BSD_RIGHT")
  case True
  note t = right_partial_trunc [OF c s r lap True]
  show ?thesis using t(2) True lap r unfolding right_result_def t(1)
    by (auto simp: fr_end_def)
next
  case False
  then have "ft_frag_policy (fi_ft s) \<in> {FRAG_POLICY_LAST, FRAG_POLICY_LINUX}"
    using pol by (auto simp: whole_policy_def)
  note t = right_partial_cut [OF c s r lap this]
  have "fi_trunc (right_partial c (fp_frag_end c - fr_offset r) r rs s) = 0"
    unfolding t(1) using s(2) by (simp add: fi_updates)
  moreover have "fi_offset (right_partial c (fp_frag_end c - fr_offset r) r rs s) = fi_offset s"
    "ft_frag_policy (fi_ft (right_partial c (fp_frag_end c - fr_offset r) r rs s)) = ft_frag_policy (fi_ft s)"
    unfolding t(1) by (simp_all add: fi_updates)
  ultimately show ?thesis using t(2,3) False by (simp add: right_result_def)
qed

lemma right_full_dump:
  assumes "whole_policy (ft_frag_policy (fi_ft s))"
  shows "\<exists>s1. right_full c overlap r s = Some (Inr (right_dump s1)) \<and> fi_right s1 = fi_right s \<and>
     fi_offset s1 = fi_offset s \<and> ft_frag_policy (fi_ft s1) = ft_frag_policy (fi_ft s) \<and>
     fi_list s1 = fi_list s \<and> fi_trunc s1 = fi_trunc s \<and> (fi_ready hi c s \<longrightarrow> fi_ready hi c s1)"
  using assms by (auto simp: right_full_def whole_policy_def Let_def)

definition loop_result :: "int \<times> int \<Rightarrow> f3par \<Rightarrow> f3ins \<Rightarrow> ((int \<times> f3ins) + f3ins) option \<Rightarrow> bool" where
  "loop_result hi c s res \<longleftrightarrow>
     (case res of
        None \<Rightarrow> False
      | Some (Inl (e, s')) \<Rightarrow> e \<noteq> FRAG_INSERT_OK \<and> tracker_ok hi (fi_tracker s')
      | Some (Inr s') \<Rightarrow> right_result hi c s s')"

lemma right_result_none:
  assumes "fi_ready hi c s" and "fi_trunc s = 0" and "\<forall>r\<in>set (fi_right s). fp_frag_end c \<le> fr_offset r"
  shows "right_result hi c s s"
  using assms by (auto simp: right_result_def fi_after_def fi_ready_def fi_common_def)

lemma right_loop_result:
  assumes c: "f3par_ok c"
  shows "length (fi_right s) < n \<Longrightarrow> fi_ready hi c s \<Longrightarrow> fi_trunc s = 0 \<Longrightarrow>
    whole_policy (ft_frag_policy (fi_ft s)) \<Longrightarrow> loop_result hi c s (right_loop n c s)"
proof (induction n arbitrary: s)
  case 0
  then show ?case by simp
next
  case (Suc n)
  have com: "fi_common hi c s" using Suc.prems by (simp add: fi_ready_def)
  note cd = fi_commonD [OF com]
  show ?case
  proof (cases "fi_right s")
    case Nil
    then show ?thesis using right_result_none [of hi c s] Suc.prems by (simp add: loop_result_def)
  next
    case (Cons r rs)
    show ?thesis
    proof (cases "fr_offset r \<ge> fp_frag_end c")
      case True
      have "\<forall>q\<in>set (fi_right s). fp_frag_end c \<le> fr_offset q"
        using cd(2) True Cons by (auto simp: frags_ok_append frag_ok_def fr_end_def)
      then show ?thesis using right_result_none [of hi c s] Suc.prems True Cons by (simp add: loop_result_def)
    next
      case beg: False
      have s0: "s\<lparr>fi_trunc := 0\<rparr> = s" using Suc.prems(3) by simp
      have unf: "right_loop (Suc n) c s =
        (case right_step c r rs s of
           None \<Rightarrow> None
         | Some (Inl e) \<Rightarrow> Some (Inl e)
         | Some (Inr (True, s')) \<Rightarrow> Some (Inr s')
         | Some (Inr (False, s')) \<Rightarrow> right_loop n c s')" using Cons beg by simp
      consider (attack) "fi_teardrop c s" | (part) "\<not> fi_teardrop c s" "fp_frag_end c - fr_offset r < fr_size r"
        | (full) "\<not> fi_teardrop c s" "\<not> fp_frag_end c - fr_offset r < fr_size r" by blast
      then show ?thesis
      proof cases
        case attack
        then show ?thesis using fi_attack_ok [OF cd(1), of c]
          unfolding unf by (auto simp: right_step_def s0 loop_result_def frag_insert_codes)
      next
        case part
        then have "right_step c r rs s = Some (Inr (True, right_partial c (fp_frag_end c - fr_offset r) r rs s))"
          by (simp add: right_step_def s0)
        then show ?thesis
          using right_partial_result [OF c Suc.prems(2,3) Cons _ part(2) Suc.prems(4)] beg
          unfolding unf by (simp add: loop_result_def)
      next
        case full
        obtain s1 where s1: "right_full c (fp_frag_end c - fr_offset r) r s = Some (Inr (right_dump s1))"
          "fi_right s1 = r # rs" "fi_offset s1 = fi_offset s" "ft_frag_policy (fi_ft s1) = ft_frag_policy (fi_ft s)"
          "fi_list s1 = fi_list s" "fi_trunc s1 = 0" "fi_ready hi c s1"
          using right_full_dump [OF Suc.prems(4), of c "fp_frag_end c - fr_offset r" r hi] Suc.prems(2,3) Cons by auto
        have e: "fr_end r \<le> fp_frag_end c" using full(2) by (simp add: fr_end_def)
        note d = right_dump_ready [OF s1(7,2) e]
        have t: "fi_trunc (right_dump s1) = 0" using s1(2,6) by (simp add: right_dump_def fi_updates)
        have "loop_result hi c (right_dump s1) (right_loop n c (right_dump s1))"
          by (rule Suc.IH) (use Suc.prems Cons d t s1 in simp_all)
        moreover have "right_step c r rs s = Some (Inr (False, right_dump s1))"
          using full s1(1) by (simp add: right_step_def s0)
        moreover have "right_result hi c s s'" if rr: "right_result hi c (right_dump s1) s'" for s'
        proof -
          have tr: "0 \<le> fi_trunc s'" using rr by (simp add: right_result_def fi_after_def)
          have "fr_end r \<le> fp_frag_end c - fi_trunc s'"
          proof (cases "fi_trunc s' = 0")
            case False
            then obtain q where "q \<in> set rs" "fr_offset q = fp_frag_end c - fi_trunc s'"
              using rr d(2) by (auto simp: right_result_def)
            then show ?thesis using cd(2) Cons by (auto simp: frags_ok_append)
          qed (use e in simp)
          then have "frag_at (fi_list s') x = frag_at (fi_list s) x"
            if x: "\<not> (fi_offset s \<le> x \<and> x < fp_frag_end c - fi_trunc s')" for x
using rr d(3) d(5) [of x] s1(3,5) x
            by (auto simp: right_result_def)
          then show ?thesis
            using rr d s1(3,4,5) e Cons by (simp add: right_result_def split: if_splits)
        qed
        ultimately show ?thesis
          unfolding unf by (auto simp: loop_result_def split: option.splits sum.splits)
      qed
    qed
  qed
qed

subsubsection \<open>The overlap to the left\<close>

lemma u32_add [simp]: "u32 (u32 x + y) = u32 (x + y)" "u32 (u32 x - y) = u32 (x - y)"
  by (simp_all add: u32_def mod_add_left_eq mod_diff_left_eq)

definition fi_start :: "int \<times> int \<Rightarrow> f3par \<Rightarrow> f3ins \<Rightarrow> bool" where
  "fi_start hi c s \<longleftrightarrow> fi_common hi c s \<and> fi_slide s = 0 \<and> fi_trunc s = 0 \<and>
     (\<forall>l\<in>set (fi_left s). fr_offset l < fi_offset s) \<and> (\<forall>r\<in>set (fi_right s). fi_offset s \<le> fr_offset r)"

definition left_result :: "int \<times> int \<Rightarrow> f3par \<Rightarrow> f3ins \<Rightarrow> f3ins \<Rightarrow> bool" where
  "left_result hi c s s' \<longleftrightarrow>
     fi_ready hi c s' \<and> fi_trunc s' = 0 \<and> ft_frag_policy (fi_ft s') = ft_frag_policy (fi_ft s) \<and>
     length (fi_right s') \<le> length (fi_list s) \<and>
     (\<forall>x. \<not> (fi_offset s' \<le> x \<and> x < fp_frag_end c) \<longrightarrow> frag_at (fi_list s') x = frag_at (fi_list s) x) \<and>
     (\<forall>r. fr_offset r < fp_frag_end c \<longrightarrow> r \<in> set (fi_right s') \<longleftrightarrow> r \<in> set (fi_right s)) \<and>
     (if ft_frag_policy (fi_ft s) = FRAG_POLICY_LINUX
      then fi_offset s \<le> fi_offset s' \<and>
        (\<forall>x. fi_offset s \<le> x \<longrightarrow> (\<exists>l\<in>set (fi_left s). frag_has l x) \<longleftrightarrow> x < fi_offset s')
      else fi_offset s' = fi_offset s \<or>
        ft_frag_policy (fi_ft s) = FRAG_POLICY_BSD_RIGHT \<and> fi_offset s' = fp_frag_end c)"

definition left_outcome :: "int \<times> int \<Rightarrow> f3par \<Rightarrow> f3ins \<Rightarrow> (int \<times> f3ins) + f3ins \<Rightarrow> bool" where
  "left_outcome hi c s res \<longleftrightarrow>
     (case res of Inl (e, s') \<Rightarrow> e \<noteq> FRAG_INSERT_OK \<and> tracker_ok hi (fi_tracker s') | Inr s' \<Rightarrow> left_result hi c s s')"

lemma fi_start_updates [simp]:
  "fi_start hi c (fi_event k e s) = fi_start hi c s" "fi_start hi c (fi_overlap s) = fi_start hi c s"
  by (simp_all add: fi_start_def fi_common_def fi_updates fi_tracker_def tracker_ok_def fi_list_def)

lemma left_result_none:
  assumes s: "fi_start hi c s" and l: "\<forall>l\<in>set (fi_left s). fr_end l \<le> fi_offset s"
  shows "left_result hi c s s"
  using assms by (fastforce simp: left_result_def fi_start_def fi_ready_def fi_list_def frag_has_def)

lemma left_dump_pos: "fi_left s = l # ls \<Longrightarrow> 0 < fr_size l \<Longrightarrow> left_dump s = s"
  by (simp add: left_dump_def)

definition left_meets :: "int \<times> int \<Rightarrow> f3par \<Rightarrow> f3ins \<Rightarrow> Frag3Frag \<Rightarrow> Frag3Frag list \<Rightarrow> int \<Rightarrow> bool" where
  "left_meets hi c s l ls d \<longleftrightarrow>
     f3par_ok c \<and> fi_start hi c s \<and> fi_left s = l # ls \<and> d = fr_end l - fi_offset s \<and> 0 < d"

lemma left_num:
  assumes m: "left_meets hi c s l ls d"
  shows "frag_ok l" "d < fr_size l" "s16 d = d" "u16 (fr_size l - d) = fr_size l - d"
    "u16 (fi_offset s + d) = fr_end l" "fi_offset s + fp_len c = fp_frag_end c"
    "\<forall>q\<in>set ls. fr_end q \<le> fr_offset l" "\<forall>q\<in>set (fi_right s). fr_end l \<le> fr_offset q"
    "fr_offset l < fi_offset s" "u16 (fp_frag_end c) = fp_frag_end c" "fi_offset s \<le> fp_frag_end c"
proof -
  have s: "fi_start hi c s" "fi_left s = l # ls" "d = fr_end l - fi_offset s" "0 < d"
    using m by (auto simp: left_meets_def)
  have com: "fi_common hi c s" using s by (simp add: fi_start_def)
  note cd = fi_commonD [OF com]
  show rok: "frag_ok l" using cd(2) s by (auto simp: frags_ok_append)
  show "fr_offset l < fi_offset s" using s by (auto simp: fi_start_def)
  then show lt: "d < fr_size l" using s(3) by (simp add: fr_end_def)
  show "s16 d = d" "u16 (fr_size l - d) = fr_size l - d"
    using lt s(4) rok by (auto simp: frag_ok_def)
  have "0 \<le> fr_end l" "fr_end l < 65536" using rok by (auto simp: frag_ok_def fr_end_def IP_MAXPACKET_def)
  then show "u16 (fi_offset s + d) = fr_end l" using s(3) by simp
  show "fi_offset s + fp_len c = fp_frag_end c" "fi_offset s \<le> fp_frag_end c"
    using s(1) com by (auto simp: fi_start_def fi_common_def)
  show "\<forall>q\<in>set ls. fr_end q \<le> fr_offset l" "\<forall>q\<in>set (fi_right s). fr_end l \<le> fr_offset q"
    using cd(2) s(2) by (auto simp: frags_ok_append)
  show "u16 (fp_frag_end c) = fp_frag_end c" using m by (auto simp: left_meets_def f3par_ok_def IP_MAXPACKET_def)
qed

lemma left_slide_result:
  assumes m: "left_meets hi c s l ls d"
    and pol: "ft_frag_policy (fi_ft s) = FRAG_POLICY_LINUX"
  shows "left_outcome hi c s (left_slide c d s)"
proof -
  note n = left_num [OF m]
  have s: "fi_start hi c s" "fi_left s = l # ls" "d = fr_end l - fi_offset s" "0 < d"
    using m by (auto simp: left_meets_def)
  have com: "fi_common hi c s" using s by (simp add: fi_start_def)
  note cd = fi_commonD [OF com]
  let ?s = "s\<lparr>fi_offset := fr_end l, fi_slide := d\<rparr>"
  have eq: "left_slide c d s =
      (if fp_frag_end c \<le> fr_end l then Inl (FRAG_INSERT_ANOMALY, fi_event c AnomZeroFrag ?s) else Inr ?s)"
    using n by (simp add: left_slide_def)
  have tr: "tracker_ok hi (fi_tracker ?s)" "tracker_ok hi (fi_tracker (fi_event c AnomZeroFrag ?s))"
    by (rule tracker_keep [OF cd(1)]; simp add: fi_updates fi_list_def)+
  have lst: "fi_list ?s = fi_list s" by (simp add: fi_list_def)
  have "left_result hi c s ?s" if "fr_end l < fp_frag_end c"
  proof -
    have "fi_ready hi c ?s"
      using that tr n s com by (auto simp: fi_ready_def fi_common_def)
    moreover have "(\<exists>q\<in>set (fi_left s). frag_has q x) \<longleftrightarrow> x < fr_end l" if "fi_offset s \<le> x" for x
      using that n s by (auto simp: frag_has_def)
    ultimately show ?thesis
      using s pol lst by (auto simp: left_result_def fi_start_def fi_list_def)
  qed
  then show ?thesis using tr by (auto simp: left_outcome_def eq frag_insert_codes)
qed

lemma left_last_result:
  assumes m: "left_meets hi c s l ls d"
    and pol: "ft_frag_policy (fi_ft s) \<noteq> FRAG_POLICY_LINUX"
  shows "left_outcome hi c s (left_last c d s)"
proof -
  note n = left_num [OF m]
  have s: "fi_start hi c s" "fi_left s = l # ls" "d = fr_end l - fi_offset s" "0 < d"
    using m by (auto simp: left_meets_def)
  have com: "fi_common hi c s" using s by (simp add: fi_start_def)
  note cd = fi_commonD [OF com]
  have mid: "fi_mid s = []" using com by (simp add: fi_common_def)
  have cut: "l\<lparr>fr_size := u16 (fr_size l - s16 d)\<rparr> = cut_back d l" using n by (simp add: cut_back_def)
  have ck: "frag_ok (cut_back d l)" using cut_ok(2) [OF n(1)] n s by simp
  show ?thesis
  proof (cases "fr_end l > fp_frag_end c")
    case False
    let ?s = "fi_bytes (- d) (s\<lparr>fi_left := cut_back d l # ls\<rparr>)"
    have eq: "left_last c d s = Inr ?s"
      unfolding left_last_def s(2) using n s False cut
      by (simp add: Let_def left_dump_pos [of _ "cut_back d l"] fi_updates)
    have lst: "fi_list ?s = rev ls @ cut_back d l # fi_right s" by (simp add: fi_updates fi_list_def mid)
    have "tracker_ok hi (fi_tracker ?s)"
      by (rule tracker_bytes [OF cd(1), where d = "- d"])
        (use cd s lst ck n in \<open>auto simp: fi_updates frags_ok_append\<close>)
    then have rdy: "fi_ready hi c ?s"
      using n s com by (auto simp: fi_ready_def fi_common_def fi_start_def fi_updates)
    have at: "frag_at (fi_list ?s) x = frag_at (fi_list s) x" if "\<not> (fi_offset s \<le> x \<and> x < fp_frag_end c)" for x
      unfolding lst cd(3) s(2) using that s False by (auto simp: frag_at_append frag_has_def split: option.split)
    have "left_result hi c s ?s"
      using rdy at s pol by (auto simp: left_result_def fi_start_def fi_updates fi_list_def)
    then show ?thesis by (simp add: eq left_outcome_def)
  next
    case True
    show ?thesis
    proof (cases "fp_node_ok c (ft_ordinal (fi_ft s))")
      case False
      have "left_last c d s = Inl (FRAG_INSERT_FAILED, s)"
        unfolding left_last_def s(2) using n True False by (simp add: DupFragNode_def frag_insert_codes)
      then show ?thesis using cd(1) by (simp add: left_outcome_def frag_insert_codes)
    next
      case node: True
      define e where "e = fp_frag_end c - fr_offset l"
      have e: "0 < e" "e < fr_size l" "fr_offset l + e = fp_frag_end c" "u16 (fr_size l - e) = fr_size l - e"
        using n True s by (auto simp: e_def fr_end_def frag_ok_def)
      let ?r = "cut_front e (l\<lparr>fr_ord := ft_ordinal (fi_ft s)\<rparr>)"
      let ?s = "s\<lparr>fi_left := cut_back d l # ls, fi_right := ?r # fi_right s,
        fi_ft := (fi_ft s)\<lparr>ft_ordinal := ft_ordinal (fi_ft s) + 1,
                           ft_frag_bytes := u32 (ft_frag_bytes (fi_ft s) + (fr_size l - d - e))\<rparr>\<rparr>"
      have eq: "left_last c d s = Inr ?s"
      proof -
        have u: "fp_frag_end c - fr_offset l = e" "l\<lparr>fr_size := fr_size l - d\<rparr> = cut_back d l"
          by (simp_all add: e_def cut_back_def)
        show ?thesis
          unfolding left_last_def s(2) using n(2,3,4,6,9,10) s(4) True node e(4) u
          by (simp add: Let_def DupFragNode_def frag_insert_codes left_dump_pos [of _ "cut_back d l"]
              fi_bytes_def cut_front_def add_diff_eq)
      qed
      have r: "frag_ok ?r" "fr_end ?r = fr_end l" "fr_offset ?r = fp_frag_end c" "fr_size ?r = fr_size l - e"
        "\<And>x. frag_byte ?r x = frag_byte l x" "\<And>x. frag_has ?r x \<longleftrightarrow> frag_has l x \<and> fp_frag_end c \<le> x"
        using cut_ok(1) [of "l\<lparr>fr_ord := ft_ordinal (fi_ft s)\<rparr>" e] n(1) e by auto
      have lst: "fi_list ?s = rev ls @ cut_back d l # ?r # fi_right s" by (simp add: fi_list_def mid)
      have ld: "fr_end l - d = fi_offset s" using s(3) by simp
      have "frags_ok (fi_list ?s)"
        unfolding lst using cd(2) s(2,4) ld ck r(1,2,3) n by (auto simp: frags_ok_append)
      then have "tracker_ok hi (fi_tracker ?s)"
        by (rule tracker_bytes [OF cd(1), where d = "fr_size l - d - e"])
          (use cd(3,4) s(2,4) r(2,4) in \<open>auto simp: lst\<close>)
      then have rdy: "fi_ready hi c ?s"
        using n s(1,2,4) ld com r(3) True by (auto simp: fi_ready_def fi_common_def fi_start_def)
      have at: "frag_at (fi_list ?s) x = frag_at (fi_list s) x" if "\<not> (fi_offset s \<le> x \<and> x < fp_frag_end c)" for x
        unfolding lst cd(3) s(2) using that s(4) ld n r(5,6) by (auto simp: frag_at_append frag_has_def split: option.split)
      have "left_result hi c s ?s"
        using rdy at s(1,2) pol r(3) by (auto simp: left_result_def fi_start_def fi_list_def)
      then show ?thesis by (simp add: eq left_outcome_def)
    qed
  qed
qed

lemma left_result_overlap [simp]: "left_result hi c (fi_overlap s) s' = left_result hi c s s'"
proof -
  have "fi_left (fi_overlap s) = fi_left s" by (simp add: fi_updates)
  then show ?thesis by (simp add: left_result_def)
qed

lemma left_slide_full:
  assumes m: "left_meets hi c s l ls d" and e: "fr_end l = fp_frag_end c"
    and pol: "ft_frag_policy (fi_ft s) = FRAG_POLICY_BSD_RIGHT"
  shows "left_result hi c s (s\<lparr>fi_offset := fr_end l, fi_slide := d\<rparr>)"
proof -
  note n = left_num [OF m]
  have s: "fi_start hi c s" "fi_left s = l # ls" "d = fr_end l - fi_offset s" "0 < d"
    using m by (auto simp: left_meets_def)
  have com: "fi_common hi c s" using s by (simp add: fi_start_def)
  let ?s = "s\<lparr>fi_offset := fr_end l, fi_slide := d\<rparr>"
  have "tracker_ok hi (fi_tracker ?s)"
    by (rule tracker_keep [OF fi_commonD(1) [OF com]]) (simp_all add: fi_list_def)
  then have "fi_ready hi c ?s" using n s com e by (auto simp: fi_ready_def fi_common_def)
  then show ?thesis using s(1,2) pol e by (auto simp: left_result_def fi_start_def fi_list_def)
qed

lemma left_overlap_result:
  assumes c: "f3par_ok c" and s: "fi_start hi c s" and pol: "whole_policy (ft_frag_policy (fi_ft s))"
  shows "left_outcome hi c s (left_overlap c s)"
proof -
  have com: "fi_common hi c s" using s by (simp add: fi_start_def)
  note cd = fi_commonD [OF com]
  show ?thesis
  proof (cases "fi_left s")
    case Nil
    then show ?thesis using left_result_none [OF s] by (simp add: left_overlap_def left_outcome_def)
  next
    case (Cons l ls)
    show ?thesis
    proof (cases "fr_end l \<le> fi_offset s")
      case True
      have "\<forall>q\<in>set (fi_left s). fr_end q \<le> fi_offset s"
        using True cd(2) Cons by (auto simp: frags_ok_append frag_ok_def fr_end_def)
      then show ?thesis using left_result_none [OF s] True Cons
        by (simp add: left_overlap_def left_outcome_def)
    next
      case False
      define d where "d = fr_end l - fi_offset s"
      let ?s = "fi_overlap s"
      have m: "left_meets hi c ?s l ls d" using c s Cons False
        by (simp add: left_meets_def d_def) (simp add: fi_updates)
      note n = left_num [OF m]
      have move: "left_outcome hi c s res" if "left_outcome hi c ?s res" for res
        using that by (auto simp: left_outcome_def split: sum.splits)
      have eq: "left_overlap c s =
        (if fi_teardrop c ?s then Inl (fi_attack c ?s)
         else (case (case ft_frag_policy (fi_ft ?s) of
                         FRAG_POLICY_BSD_RIGHT \<Rightarrow>
                           (if fr_end l \<ge> fi_offset ?s + fp_len c
                            then Inr (left_dump (?s\<lparr>fi_offset := u16 (fi_offset ?s + s16 d), fi_slide := s16 d\<rparr>))
                            else left_last c d ?s)
                       | FRAG_POLICY_LAST \<Rightarrow> left_last c d ?s
                       | _ \<Rightarrow> left_slide c d ?s) of
                   Inl r \<Rightarrow> Inl r
                 | Inr s2 \<Rightarrow> if fp_frag_end c < fi_offset s2
                      then Inl (FRAG_INSERT_ANOMALY, fi_event c AnomBadsizeSm s2) else Inr s2))"
      proof -
        have "fr_end l - fi_offset s = d" "\<not> d \<le> 0" using False by (simp_all add: d_def)
        then show ?thesis using Cons False by (simp add: left_overlap_def Let_def)
      qed
      have post: "left_outcome hi c ?s (case res of Inl r \<Rightarrow> Inl r
          | Inr s2 \<Rightarrow> if fp_frag_end c < fi_offset s2
                     then Inl (FRAG_INSERT_ANOMALY, fi_event c AnomBadsizeSm s2) else Inr s2)"
        if "left_outcome hi c ?s res" for res
        using that by (auto simp: left_outcome_def left_result_def fi_ready_def fi_common_def split: sum.splits)
      have tr: "tracker_ok hi (fi_tracker ?s)" using m by (simp add: left_meets_def fi_start_def fi_common_def)
      show ?thesis
      proof (cases "fi_teardrop c ?s")
        case True
        then have "left_outcome hi c ?s (left_overlap c s)"
          using fi_attack_ok [OF tr, of c] unfolding eq by (auto simp: left_outcome_def frag_insert_codes)
        then show ?thesis by (rule move)
      next
        case tear: False
        consider (last) "ft_frag_policy (fi_ft s) = FRAG_POLICY_LAST" | (linux) "ft_frag_policy (fi_ft s) = FRAG_POLICY_LINUX"
          | (right) "ft_frag_policy (fi_ft s) = FRAG_POLICY_BSD_RIGHT" using pol by (auto simp: whole_policy_def)
        then have "left_outcome hi c ?s (left_overlap c s)"
        proof cases
          case last
          then show ?thesis unfolding eq using tear post [OF left_last_result [OF m]] by simp
        next
          case linux
          then show ?thesis unfolding eq using tear post [OF left_slide_result [OF m]] by simp
        next
          case right
          show ?thesis
          proof (cases "fr_end l \<ge> fp_frag_end c")
            case False
            then show ?thesis unfolding eq using right tear post [OF left_last_result [OF m]] n by simp
          next
            case True
            let ?t = "?s\<lparr>fi_offset := fr_end l, fi_slide := d\<rparr>"
            have dump: "left_dump ?t = ?t"
              using m n(1) by (intro left_dump_pos [of _ l ls]) (auto simp: left_meets_def frag_ok_def)
            have "left_overlap c s =
                (if fp_frag_end c < fr_end l then Inl (FRAG_INSERT_ANOMALY, fi_event c AnomBadsizeSm ?t) else Inr ?t)"
              unfolding eq using right tear n True dump by simp
            moreover have "tracker_ok hi (fi_tracker (fi_event c AnomBadsizeSm ?t))"
              by (rule tracker_keep [OF tr]) (simp_all add: fi_updates fi_list_def)
            moreover have "left_result hi c ?s ?t" if "fr_end l = fp_frag_end c"
              by (rule left_slide_full [OF m that]) (simp add: right)
            ultimately show ?thesis using True by (auto simp: left_outcome_def frag_insert_codes)
          qed
        qed
        then show ?thesis by (rule move)
      qed
    qed
  qed
qed
subsubsection \<open>The new node\<close>

definition fp_byte :: "f3par \<Rightarrow> int \<Rightarrow> u8" where
  "fp_byte c x = pk_ip_frag_start (fp_p c) ! nat (x - (fp_frag_end c - fp_len c))"

definition add_outcome :: "int \<times> int \<Rightarrow> f3par \<Rightarrow> f3ins \<Rightarrow> int \<times> f3ins \<Rightarrow> bool" where
  "add_outcome hi c s res \<longleftrightarrow>
     tracker_ok hi (fi_tracker (snd res)) \<and>
     (fst res = FRAG_INSERT_OK \<longrightarrow> fi_offset s < fp_frag_end c - fi_trunc s \<and>
        (\<forall>x. frag_at (fi_list (snd res)) x =
           (if fi_offset s \<le> x \<and> x < fp_frag_end c - fi_trunc s then Some (fp_byte c x)
            else frag_at (fi_list s) x)))"

lemma AddFragNode_outcome:
  assumes c: "f3par_ok c" and s: "fi_after hi c s"
  shows "add_outcome hi c s (AddFragNode c lf s)"
proof -
  have com: "fi_common hi c s" using s by (simp add: fi_after_def)
  note cd = fi_commonD [OF com]
  have mid: "fi_mid s = []" "fi_offset s = fp_frag_end c - fp_len c + fi_slide s" "0 \<le> fi_slide s"
    "fp_frag_end c \<le> ft_calculated_size (fi_ft s)"
    using com by (auto simp: fi_common_def)
  have aft: "0 \<le> fi_trunc s" "fi_offset s \<le> fp_frag_end c - fi_trunc s"
    using s by (auto simp: fi_after_def)
  have cb: "0 < fp_len c" "fp_len c \<le> fp_fragLength c" "fp_fragLength c < 32768"
    "fp_fragLength c \<le> int (length (pk_ip_frag_start (fp_p c)))" "fp_len c \<le> fp_frag_end c" "fp_frag_end c \<le> 65535"
    using c by (auto simp: f3par_ok_def IP_MAXPACKET_def)
  define n where "n = fp_frag_end c - fi_trunc s - fi_offset s"
  have n: "0 \<le> n" "n < 32768" "n = fp_len c - fi_slide s - fi_trunc s"
    using mid aft cb by (auto simp: n_def)
  have sl: "u16 (fi_slide s) = fi_slide s" "u16 (fi_trunc s) = fi_trunc s"
    using mid aft cb by auto
  have size: "s16 (fp_len c - fi_slide s - fi_trunc s) = n" using n by simp
  show ?thesis
  proof (cases "n = 0 \<or> \<not> fp_node_ok c (ft_ordinal (fi_ft s))")
    case True
    then have "\<exists>e. AddFragNode c lf s = (e, s) \<and> e \<noteq> FRAG_INSERT_OK"
      using n(1) by (auto simp: AddFragNode_def sl size Let_def frag_insert_codes)
    then show ?thesis using cd(1) by (auto simp: add_outcome_def)
  next
    case False
    let ?n = "\<lparr>fr_fptr = take (nat (fp_fragLength c)) (pk_ip_frag_start (fp_p c)),
               fr_delta = fi_slide s, fr_size = n, fr_offset = fi_offset s,
               fr_ord = ft_ordinal (fi_ft s), fr_last = lf\<rparr>"
    let ?s = "s\<lparr>fi_ft := (fi_ft s)\<lparr>ft_ordinal := ft_ordinal (fi_ft s) + 1,
                                  ft_frag_bytes := u32 (ft_frag_bytes (fi_ft s) + n)\<rparr>, fi_mid := [?n]\<rparr>"
    have eq: "AddFragNode c lf s = (FRAG_INSERT_OK, ?s)"
      using False n(1) by (simp add: AddFragNode_def size sl fi_bytes_def mid(1) Let_def)
    have new: "frag_ok ?n" "fr_end ?n = fp_frag_end c - fi_trunc s" "fr_offset ?n = fi_offset s" "fr_size ?n = n"
      using False n mid aft cb by (auto simp: frag_ok_def fr_end_def IP_MAXPACKET_def n_def)
    have byte: "frag_byte ?n x = fp_byte c x" if "fi_offset s \<le> x" "x < fp_frag_end c - fi_trunc s" for x
    proof -
      have lt: "nat (x - (fp_frag_end c - fp_len c)) < nat (fp_fragLength c)"
        using that aft(1) mid cb by simp
      have e: "fi_slide s + (x - fi_offset s) = x - (fp_frag_end c - fp_len c)"
        using mid(2) by simp
      show ?thesis by (simp add: frag_byte_def fp_byte_def e nth_take [OF lt])
    qed
    have lst: "fi_list ?s = rev (fi_left s) @ ?n # fi_right s" by (simp add: fi_list_def)
    have lr: "\<forall>l\<in>set (fi_left s). fr_end l \<le> fi_offset s"
      "\<forall>r\<in>set (fi_right s). fp_frag_end c - fi_trunc s \<le> fr_offset r"
      using s by (auto simp: fi_after_def)
    have "frags_ok (fi_list ?s)"
      unfolding lst using cd(2) new(1,2,3) lr by (auto simp: frags_ok_append)
    then have "tracker_ok hi (fi_tracker ?s)"
    proof (rule tracker_bytes [OF cd(1), where d = n])
      show "\<forall>f\<in>set (fi_list ?s). fr_end f \<le> ft_top hi (fi_ft s)"
        unfolding lst using cd(4) new(2) aft(1) mid(4) by auto
    qed (simp_all add: lst cd(3))
    moreover have "frag_at (fi_list ?s) x =
        (if fi_offset s \<le> x \<and> x < fp_frag_end c - fi_trunc s then Some (fp_byte c x) else frag_at (fi_list s) x)" for x
    proof (cases "fi_offset s \<le> x \<and> x < fp_frag_end c - fi_trunc s")
      case True
      then have "frag_has ?n x" using new(2,3) by (simp add: frag_has_def)
      moreover have "frag_at (rev (fi_left s)) x = None"
        using lr(1) True by (auto simp: frag_at_None frag_has_def)
      ultimately show ?thesis unfolding lst using byte True by (simp add: frag_at_append)
    next
      case False
      then have "\<not> frag_has ?n x" using new(2,3) by (auto simp: frag_has_def)
      then show ?thesis unfolding lst cd(3) using False by (auto simp: frag_at_append split: option.split)
    qed
    moreover have "fi_offset s < fp_frag_end c - fi_trunc s" using False n(1) by (simp add: n_def)
    ultimately show ?thesis by (simp add: eq add_outcome_def)
  qed
qed

subsubsection \<open>The whole insertion\<close>

definition place_outcome :: "int \<times> int \<Rightarrow> f3par \<Rightarrow> f3ins \<Rightarrow> int \<times> f3ins \<Rightarrow> bool" where
  "place_outcome hi c s res \<longleftrightarrow>
     tracker_ok hi (fi_tracker (snd res)) \<and>
     (fst res = FRAG_INSERT_OK \<longrightarrow>
        (\<forall>x. frag_at (fi_list (snd res)) x =
           (if fi_offset s \<le> x \<and> x < fp_frag_end c \<and>
               \<not> (\<exists>f\<in>set (fi_list s). frag_stays (ft_frag_policy (fi_ft s)) (fi_offset s) (fp_frag_end c) f \<and> frag_has f x)
            then Some (fp_byte c x) else frag_at (fi_list s) x)))"

lemma frags_unique:
  "frags_ok fs \<Longrightarrow> f \<in> set fs \<Longrightarrow> g \<in> set fs \<Longrightarrow> frag_has f x \<Longrightarrow> frag_has g x \<Longrightarrow> f = g"
proof (induction fs)
  case Nil
  then show ?case by simp
next
  case (Cons h hs)
  then show ?case by (fastforce simp: frag_has_def)
qed

text \<open>Which part of \<open>[lo, hi)\<close> the new fragment gets, in terms of where the two searches stop.\<close>

lemma place_range:
  assumes s: "fi_start hi c s" and l: "left_result hi c s s1" and r: "right_result hi c s1 s2"
    and lt: "fi_offset s2 < fp_frag_end c - fi_trunc s2" and x: "fi_offset s \<le> x" "x < fp_frag_end c"
  shows "(fi_offset s2 \<le> x \<and> x < fp_frag_end c - fi_trunc s2) \<longleftrightarrow>
     \<not> (\<exists>f\<in>set (fi_list s). frag_stays (ft_frag_policy (fi_ft s)) (fi_offset s) (fp_frag_end c) f \<and> frag_has f x)"
proof -
  have com: "fi_common hi c s" using s by (simp add: fi_start_def)
  note cd = fi_commonD [OF com]
  have pol: "ft_frag_policy (fi_ft s1) = ft_frag_policy (fi_ft s)" and off: "fi_offset s2 = fi_offset s1"
    and tr0: "0 \<le> fi_trunc s2"
    using l r by (auto simp: left_result_def right_result_def fi_after_def)
  have rs: "r \<in> set (fi_right s1) \<longleftrightarrow> r \<in> set (fi_right s)" if "fr_offset r < fp_frag_end c" for r
    using l that by (simp add: left_result_def)
  have parts: "\<forall>q\<in>set (fi_left s). fr_offset q < fi_offset s" "\<forall>q\<in>set (fi_right s). fi_offset s \<le> fr_offset q"
    using s by (auto simp: fi_start_def)
  consider (linux) "ft_frag_policy (fi_ft s) = FRAG_POLICY_LINUX" | (right) "ft_frag_policy (fi_ft s) = FRAG_POLICY_BSD_RIGHT"
    | (other) "ft_frag_policy (fi_ft s) \<notin> {FRAG_POLICY_LINUX, FRAG_POLICY_BSD_RIGHT}" by blast
  then show ?thesis
  proof cases
    case linux
    have "fi_trunc s2 = 0" using r pol linux by (auto simp: right_result_def split: if_splits)
    moreover have "(\<exists>q\<in>set (fi_left s). frag_has q x) \<longleftrightarrow> x < fi_offset s1"
      using l linux x(1) by (simp add: left_result_def)
    ultimately show ?thesis using linux parts x off cd(3) by (fastforce simp: frag_stays_def)
  next
    case other
    have "fi_trunc s2 = 0" using r pol other by (auto simp: right_result_def split: if_splits)
    moreover have "fi_offset s1 = fi_offset s" using l other by (auto simp: left_result_def)
    ultimately show ?thesis using other x off by (simp add: frag_stays_def)
  next
    case right
    have o: "fi_offset s1 = fi_offset s" using l right lt off tr0 by (auto simp: left_result_def)
    have ok: "frags_ok (fi_list s)" using cd(2,3) by simp
    show ?thesis
    proof (cases "fi_trunc s2 = 0")
      case True
      then have "\<forall>q\<in>set (fi_right s1). \<not> (fr_offset q < fp_frag_end c \<and> fp_frag_end c < fr_end q)"
        using r pol right by (simp add: right_result_def)
      then show ?thesis using True right o off x parts rs cd(3)
        by (auto simp: frag_stays_def frag_has_def)
    next
      case False
      then obtain q where q: "q \<in> set (fi_right s1)" "fr_offset q = fp_frag_end c - fi_trunc s2" "fp_frag_end c < fr_end q"
        using r by (auto simp: right_result_def)
      have qlt: "fr_offset q < fp_frag_end c" using False tr0 q(2) by simp
      then have qs: "q \<in> set (fi_right s)" using rs q(1) by simp
      have uniq: "f = q" if "f \<in> set (fi_list s)" "fi_offset s \<le> fr_offset f" "fp_frag_end c < fr_end f" "frag_has f x" for f
      proof (rule frags_unique [OF ok that(1)])
        show "q \<in> set (fi_list s)" using qs cd(3) by simp
        show "frag_has f (fp_frag_end c)" "frag_has q (fp_frag_end c)"
          using that x q(3) qlt by (auto simp: frag_has_def)
      qed
      show ?thesis
      proof (cases "x < fr_offset q")
        case True
        then have "\<not> frag_has q x" by (simp add: frag_has_def)
        then show ?thesis using uniq right True q(2) o off x by (auto simp: frag_stays_def)
      next
        case F: False
        have "frag_stays (ft_frag_policy (fi_ft s)) (fi_offset s) (fp_frag_end c) q" "frag_has q x" "q \<in> set (fi_list s)"
          using right q(3) qs parts F x cd(3) by (auto simp: frag_stays_def frag_has_def)
        then show ?thesis using F q(2) by auto
      qed
    qed
  qed
qed

lemma place_content:
  assumes s: "fi_start hi c s" and l: "left_result hi c s s1" and r: "right_result hi c s1 s2"
    and x: "\<not> (fi_offset s2 \<le> x \<and> x < fp_frag_end c - fi_trunc s2)"
  shows "frag_at (fi_list s2) x = frag_at (fi_list s) x"
proof -
  have off: "fi_offset s2 = fi_offset s1" using r by (simp add: right_result_def)
  have s21: "frag_at (fi_list s2) x = frag_at (fi_list s1) x" using r x off by (simp add: right_result_def)
  show ?thesis
  proof (cases "fi_offset s1 \<le> x \<and> x < fp_frag_end c")
    case False
    then show ?thesis using l s21 by (simp add: left_result_def)
  next
    case True
    then have tr: "fi_trunc s2 \<noteq> 0" using x off by auto
    then obtain q where q: "q \<in> set (fi_right s1)" "fr_offset q = fp_frag_end c - fi_trunc s2" "fp_frag_end c < fr_end q"
      using r by (auto simp: right_result_def)
    have "0 \<le> fi_trunc s2" using r by (simp add: right_result_def fi_after_def)
    then have "q \<in> set (fi_right s)" using l q(1,2) tr by (auto simp: left_result_def)
    moreover have "fi_common hi c s" "fi_common hi c s1"
      using s l by (auto simp: fi_start_def left_result_def fi_ready_def)
    moreover have "frag_has q x" using True x off q(2,3) by (auto simp: frag_has_def)
    ultimately have "frag_at (fi_list s) x = Some (frag_byte q x)" "frag_at (fi_list s1) x = Some (frag_byte q x)"
      using q(1) fi_commonD(2,3) [of hi c s] fi_commonD(2,3) [of hi c s1] by (auto intro!: frag_at_mem)
    then show ?thesis using s21 by simp
  qed
qed

lemma checkTiny_after [simp]:
  "fi_after hi c (checkTinyFragments k n s) = fi_after hi c s" "fi_list (checkTinyFragments k n s) = fi_list s"
  "fi_offset (checkTinyFragments k n s) = fi_offset s" "fi_trunc (checkTinyFragments k n s) = fi_trunc s"
  "fi_addthis (checkTinyFragments k n s) = fi_addthis s"
  "fi_tracker (checkTinyFragments k n s) = fi_tracker s"
  by (simp_all add: checkTinyFragments_def Let_def fi_after_def fi_common_def fi_updates fi_tracker_def fi_list_def)

lemma frag3_place_outcome:
  assumes c: "f3par_ok c" and s: "fi_start hi c s" and pol: "whole_policy (ft_frag_policy (fi_ft s))"
    and fuel: "length (fi_list s) < fuel"
  shows "\<exists>res. frag3_place fuel c s = Some res \<and> place_outcome hi c s res"
proof (cases "left_overlap c s")
  case (Inl r)
  then show ?thesis using left_overlap_result [OF c s pol]
    by (auto simp: frag3_place_def left_outcome_def place_outcome_def split: prod.splits)
next
  case (Inr s1)
  then have l: "left_result hi c s s1" using left_overlap_result [OF c s pol] by (simp add: left_outcome_def)
  then have s1: "fi_ready hi c s1" "fi_trunc s1 = 0" "ft_frag_policy (fi_ft s1) = ft_frag_policy (fi_ft s)"
    "length (fi_right s1) \<le> length (fi_list s)"
    by (simp_all add: left_result_def)
  have lr: "loop_result hi c s1 (right_loop fuel c s1)"
    by (rule right_loop_result [OF c]) (use s1 fuel pol in simp_all)
  have tr1: "tracker_ok hi (fi_tracker s1)" using s1(1) by (simp add: fi_ready_def fi_common_def)
  show ?thesis
  proof (cases "u16 (fp_fragLength c) > fp_snaplen c")
    case True
    then show ?thesis using Inr tr1 by (simp add: frag3_place_def place_outcome_def frag_insert_codes)
  next
    case snap: False
    show ?thesis
    proof (cases "right_loop fuel c s1")
      case None
      then show ?thesis using lr by (simp add: loop_result_def)
    next
      case (Some q)
      show ?thesis
      proof (cases q)
        case (Inl r)
        then show ?thesis using lr Some \<open>left_overlap c s = Inr s1\<close> snap
          by (auto simp: frag3_place_def place_outcome_def loop_result_def split: prod.splits)
      next
        case (Inr s2)
        then have r: "right_result hi c s1 s2" using lr Some by (simp add: loop_result_def)
        then have aft: "fi_after hi c s2" by (simp add: right_result_def)
        then have add: "fi_addthis s2" and tr2: "tracker_ok hi (fi_tracker s2)"
          by (simp_all add: fi_after_def fi_common_def)
        let ?s3 = "checkTinyFragments c (fp_len c - fi_slide s2 - fi_trunc s2) s2"
        let ?lim = "cx_overlap_limit (fp_cx c)"
        have unf: "frag3_place fuel c s =
            (if ?lim \<noteq> 0 \<and> ft_overlap_count (fi_ft ?s3) \<ge> ?lim
             then Some (FRAG_INSERT_OVERLAP_LIMIT, fi_event c ExcessiveOverlap ?s3)
             else Some (AddFragNode c (fp_lastfrag c) ?s3))"
          using \<open>left_overlap c s = Inr s1\<close> snap Some Inr add by (simp add: frag3_place_def Let_def)
        have "tracker_ok hi (fi_tracker (fi_event c ExcessiveOverlap ?s3))"
          using tr2 by (simp add: fi_updates fi_tracker_def tracker_ok_def checkTinyFragments_def Let_def fi_list_def)
        moreover have "add_outcome hi c ?s3 (AddFragNode c (fp_lastfrag c) ?s3)"
          by (rule AddFragNode_outcome [OF c]) (simp add: aft)
        moreover have "place_outcome hi c s res" if a: "add_outcome hi c ?s3 res" for res
        proof -
          have "frag_at (fi_list (snd res)) x =
           (if fi_offset s \<le> x \<and> x < fp_frag_end c \<and>
               \<not> (\<exists>f\<in>set (fi_list s). frag_stays (ft_frag_policy (fi_ft s)) (fi_offset s) (fp_frag_end c) f \<and> frag_has f x)
            then Some (fp_byte c x) else frag_at (fi_list s) x)" if ok: "fst res = FRAG_INSERT_OK" for x
          proof -
            have lt: "fi_offset s2 < fp_frag_end c - fi_trunc s2"
              and new: "frag_at (fi_list (snd res)) x =
                (if fi_offset s2 \<le> x \<and> x < fp_frag_end c - fi_trunc s2 then Some (fp_byte c x) else frag_at (fi_list s2) x)"
              using a ok by (simp_all add: add_outcome_def)
            have ge: "fi_offset s \<le> fi_offset s2" "0 \<le> fi_trunc s2"
              using l r s by (auto simp: left_result_def right_result_def fi_after_def fi_start_def fi_common_def split: if_splits)
            show ?thesis
            proof (cases "fi_offset s \<le> x \<and> x < fp_frag_end c")
              case True
              then show ?thesis using new place_range [OF s l r lt, of x] place_content [OF s l r, of x] by auto
            next
              case False
              then have "\<not> (fi_offset s2 \<le> x \<and> x < fp_frag_end c - fi_trunc s2)" using ge by auto
              then show ?thesis using new place_content [OF s l r, of x] False by auto
            qed
          qed
          then show ?thesis using a by (simp add: place_outcome_def add_outcome_def)
        qed
        ultimately have "place_outcome hi c s (FRAG_INSERT_OVERLAP_LIMIT, fi_event c ExcessiveOverlap ?s3)"
          and "place_outcome hi c s (AddFragNode c (fp_lastfrag c) ?s3)"
          by (simp_all add: place_outcome_def frag_insert_codes)
        then show ?thesis unfolding unf by (simp del: split_paired_Ex)
      qed
    qed
  qed
qed

lemma frag3_find_split:
  assumes "frag3_find off left xs = (l, r)" and "frags_ok xs" and "\<forall>f\<in>set left. fr_offset f < off"
  shows "rev l @ r = rev left @ xs \<and> (\<forall>f\<in>set l. fr_offset f < off) \<and> (\<forall>f\<in>set r. off \<le> fr_offset f)"
  using assms
proof (induction off left xs rule: frag3_find.induct)
  case (1 off left)
  then show ?case by simp
next
  case (2 off left f fs)
  show ?case
  proof (cases "fr_offset f \<ge> off")
    case True
    moreover have "off \<le> fr_offset g" if "g \<in> set fs" for g
    proof -
      have "fr_offset f \<le> fr_end f" "fr_end f \<le> fr_offset g" using 2(3) that by (auto simp: frag_ok_def fr_end_def)
      then show ?thesis using True by simp
    qed
    ultimately show ?thesis using 2(2,3,4) by auto
  next
    case False
    then show ?thesis using 2 by auto
  qed
qed

text \<open>The fragments the decoder lets through.\<close>

definition frag_pkt_ok :: "FragPacket \<Rightarrow> bool" where
  "frag_pkt_ok p \<longleftrightarrow> 0 \<le> pk_frag_offset p \<and> pk_frag_offset p \<le> 8191 \<and> 0 \<le> pk_ip_frag_len p \<and>
     pk_ip_frag_len p < 32768 \<and> pk_ip_frag_len p \<le> int (length (pk_ip_frag_start p)) \<and>
     8 * pk_frag_offset p + pk_ip_frag_len p \<le> IP_MAXPACKET \<and> (pk_mf p \<or> 0 < pk_frag_offset p)"

definition pk_begin :: "FragPacket \<Rightarrow> int" where "pk_begin p = 8 * pk_frag_offset p"

text \<open>A fragment that is not the last one counts up to a multiple of eight.\<close>

definition pk_end :: "FragPacket \<Rightarrow> int" where
  "pk_end p = (let e = 8 * pk_frag_offset p + pk_ip_frag_len p in if pk_mf p then e - e mod 8 else e)"

definition pk_byte :: "FragPacket \<Rightarrow> int \<Rightarrow> u8" where
  "pk_byte p x = pk_ip_frag_start p ! nat (x - pk_begin p)"

lemma Frag3CheckFirstLast_keep:
  assumes "frag_pkt_ok p" and "ft_frag_policy ft \<noteq> FRAG_POLICY_SOLARIS" and "tracker_ok hi ft"
    and last: "\<not> pk_mf p \<Longrightarrow> snd hi \<le> pk_end p"
    and eq: "Frag3CheckFirstLast p ft cx evs = (ret, ft', evs')"
  shows "ret \<noteq> FRAG_LAST_OFFSET_ADJUST" "tracker_ok hi ft'" "ft_fraglist ft' = ft_fraglist ft"
    "ft_frag_policy ft' = ft_frag_policy ft" "\<not> pk_mf p \<Longrightarrow> pk_end p \<le> ft_calculated_size ft'"
proof -
  have u: "u16 (8 * pk_frag_offset p + u16 (pk_ip_frag_len p)) = 8 * pk_frag_offset p + pk_ip_frag_len p"
    using assms(1) by (auto simp: frag_pkt_ok_def IP_MAXPACKET_def)
  show "ret \<noteq> FRAG_LAST_OFFSET_ADJUST"
    using eq assms(2) unfolding Frag3CheckFirstLast_def by (auto simp: Let_def split: if_splits)
  show "ft_fraglist ft' = ft_fraglist ft" "ft_frag_policy ft' = ft_frag_policy ft"
    using eq unfolding Frag3CheckFirstLast_def by (auto simp: Let_def split: if_splits)
  show "\<not> pk_mf p \<Longrightarrow> pk_end p \<le> ft_calculated_size ft'"
    using eq assms(1,2) unfolding Frag3CheckFirstLast_def u
    by (auto simp: Let_def pk_end_def frag_pkt_ok_def split: if_splits)
  show "tracker_ok hi ft'"
    using eq assms(1,3) last unfolding Frag3CheckFirstLast_def u
    by (auto simp: Let_def tracker_ok_def frag_pkt_ok_def pk_end_def split: if_splits) (fastforce+)
qed

lemma frag3_bounds_keep:
  assumes p: "frag_pkt_ok p" and fl: "fl \<noteq> FRAG_LAST_OFFSET_ADJUST" and ft: "tracker_ok hi ft"
    and last: "\<not> pk_mf p \<Longrightarrow> pk_end p \<le> ft_calculated_size ft"
    and eq: "frag3_bounds p cx fl ft evs = (ret, (off, e, len, lf), ft', evs')"
  shows "off = pk_begin p" "e = pk_end p" "len = pk_end p - pk_begin p"
    "tracker_ok hi ft'" "ft_fraglist ft' = ft_fraglist ft" "ft_frag_policy ft' = ft_frag_policy ft"
    "ret = FRAG_INSERT_OK \<Longrightarrow> pk_end p \<le> ft_calculated_size ft'" "pk_end p \<le> IP_MAXPACKET"
    "pk_end p - pk_begin p \<le> pk_ip_frag_len p"
proof -
  let ?e = "8 * pk_frag_offset p + pk_ip_frag_len p"
  have num: "u16 (8 * pk_frag_offset p) = 8 * pk_frag_offset p" "s16 (pk_ip_frag_len p) = pk_ip_frag_len p"
    "u16 ?e = ?e" "0 \<le> pk_ip_frag_len p" "?e \<le> 65535" "0 \<le> pk_frag_offset p"
    using p by (auto simp: frag_pkt_ok_def IP_MAXPACKET_def)
  show le: "pk_end p \<le> IP_MAXPACKET" "pk_end p - pk_begin p \<le> pk_ip_frag_len p"
    using num by (auto simp: pk_end_def pk_begin_def Let_def IP_MAXPACKET_def)
  have "?e mod 8 = pk_ip_frag_len p mod 8" by simp
  then have s: "s16 (pk_ip_frag_len p - ?e mod 8) = pk_ip_frag_len p - ?e mod 8"
    using p by (intro s16_id) (auto simp: frag_pkt_ok_def)
  have eb: "pk_end p = (if pk_mf p then ?e - ?e mod 8 else ?e)" "pk_begin p = 8 * pk_frag_offset p"
    by (simp_all add: pk_end_def pk_begin_def Let_def)
  have B: "frag3_bounds p cx fl ft evs =
     (if \<not> pk_mf p then (FRAG_INSERT_OK, (pk_begin p, pk_end p, pk_ip_frag_len p, True), ft, evs)
      else
        (let evs1 = (if ?e mod 8 \<noteq> 0 then frag3_alert cx AnomShortFrag evs else evs)
         in if pk_end p > ft_calculated_size ft
            then (if FRAG_GOT_LAST \<in> ft_frag_flags ft
                  then (FRAG_INSERT_ANOMALY, (pk_begin p, pk_end p, pk_end p - pk_begin p, False), ft,
                        frag3_alert cx AnomOversize evs1)
                  else (FRAG_INSERT_OK, (pk_begin p, pk_end p, pk_end p - pk_begin p, False),
                        ft\<lparr>ft_calculated_size := pk_end p\<rparr>, evs1))
            else (FRAG_INSERT_OK, (pk_begin p, pk_end p, pk_end p - pk_begin p, False), ft, evs1)))"
    using fl s by (simp add: frag3_bounds_def num eb Let_def)
  have grow: "tracker_ok hi (ft\<lparr>ft_calculated_size := pk_end p\<rparr>)" if "ft_calculated_size ft < pk_end p"
    using ft that le(1) by (fastforce simp: tracker_ok_def)
  have nb: "\<not> pk_mf p \<Longrightarrow> pk_end p - pk_begin p = pk_ip_frag_len p" using eb by simp
  show "off = pk_begin p" "e = pk_end p" "len = pk_end p - pk_begin p"
    "tracker_ok hi ft'" "ft_fraglist ft' = ft_fraglist ft" "ft_frag_policy ft' = ft_frag_policy ft"
    "ret = FRAG_INSERT_OK \<Longrightarrow> pk_end p \<le> ft_calculated_size ft'"
    using eq grow ft last nb unfolding B by (auto simp: Let_def frag_insert_codes split: if_splits)
qed

lemma Frag3HandleIPOptions_keep:
  assumes "Frag3HandleIPOptions ft p cx evs = (ft', evs')"
  shows "ft_fraglist ft' = ft_fraglist ft" "ft_frag_policy ft' = ft_frag_policy ft"
    "ft_calculated_size ft' = ft_calculated_size ft" "ft_frag_bytes ft' = ft_frag_bytes ft"
    "ft_frag_flags ft' = ft_frag_flags ft"
  using assms by (auto simp: Frag3HandleIPOptions_def Let_def split: if_splits option.splits)

lemma Frag3Expire_keep:
  assumes "Frag3Expire p ft cx = (t, ft')" and "tracker_ok hi ft"
  shows "tracker_ok hi (if t then ft_restart p ft' else ft')"
    and "ft_frag_policy (if t then ft_restart p ft' else ft') = ft_frag_policy ft"
    and "ft_fraglist (if t then ft_restart p ft' else ft') = (if t then [] else ft_fraglist ft)"
  using assms by (auto simp: Frag3Expire_def ft_restart_def Frag3DeleteTracker_def tracker_ok_def IP_MAXPACKET_def
      split: if_splits)

text \<open>What the list holds when the insertion starts: nothing once the tracker timed out.\<close>

definition ft_live :: "FragPacket \<Rightarrow> FragTracker \<Rightarrow> Frag3Context \<Rightarrow> Frag3Frag list" where
  "ft_live p ft cx = (if fst (Frag3Expire p ft cx) then [] else ft_fraglist ft)"

definition insert_outcome :: "int \<times> int \<Rightarrow> FragPacket \<Rightarrow> FragTracker \<Rightarrow> Frag3Context \<Rightarrow> int \<times> FragTracker \<times> frag3_event list \<Rightarrow> bool" where
  "insert_outcome hi p ft cx res \<longleftrightarrow>
     (case res of (ret, ft', evs) \<Rightarrow>
        tracker_ok hi ft' \<and>
        (ret = FRAG_INSERT_OK \<longrightarrow>
           (\<forall>x. frag_at (ft_fraglist ft') x =
              (if pk_begin p \<le> x \<and> x < pk_end p \<and>
                  \<not> (\<exists>f\<in>set (ft_live p ft cx). frag_stays (ft_frag_policy ft) (pk_begin p) (pk_end p) f \<and> frag_has f x)
               then Some (pk_byte p x) else frag_at (ft_live p ft cx) x))))"

theorem Frag3Insert_outcome:
  assumes p: "frag_pkt_ok p" and ft: "tracker_ok hi ft" and pol: "whole_policy (ft_frag_policy ft)"
    and last: "\<not> pk_mf p \<Longrightarrow> snd hi \<le> pk_end p" and fuel: "length (ft_fraglist ft) < fuel"
  shows "\<exists>res. Frag3Insert fuel snaplen node_ok p ft cx = Some res \<and> insert_outcome hi p ft cx res"
proof -
  obtain t ft1 where x1: "Frag3Expire p ft cx = (t, ft1)" by (cases "Frag3Expire p ft cx")
  define ft2 where "ft2 = (if t then ft_restart p ft1 else ft1)"
  note k2 = Frag3Expire_keep [OF x1 ft, folded ft2_def]
  define ft3 where "ft3 = (if pk_is_ip6 p \<and> pk_frag_offset p = 0 then ft2\<lparr>ft_protocol := pk_ip6f_nxt p\<rparr> else ft2)"
  have k3: "tracker_ok hi ft3" "ft_frag_policy ft3 = ft_frag_policy ft" "ft_fraglist ft3 = ft_live p ft cx"
    using k2 x1 by (simp_all add: ft3_def tracker_ok_def ft_live_def)
  obtain fl ft4 evs1 where x4: "Frag3CheckFirstLast p ft3 cx [] = (fl, ft4, evs1)"
    by (cases "Frag3CheckFirstLast p ft3 cx []")
  have sol: "ft_frag_policy ft3 \<noteq> FRAG_POLICY_SOLARIS" using pol k3(2) by (auto simp: whole_policy_def)
  note k4 = Frag3CheckFirstLast_keep [OF p sol k3(1) last x4]
  obtain ret off e len lf ft5 evs2 where x5: "frag3_bounds p cx fl ft4 evs1 = (ret, (off, e, len, lf), ft5, evs2)"
    by (cases "frag3_bounds p cx fl ft4 evs1") auto
  note k5 = frag3_bounds_keep [OF p k4(1,2,5) x5]
  obtain ft6 evs3 where x6: "Frag3HandleIPOptions ft5 p cx evs2 = (ft6, evs3)"
    by (cases "Frag3HandleIPOptions ft5 p cx evs2")
  note k6 = Frag3HandleIPOptions_keep [OF x6]
  have cs: "ft_calculated_size ft5 \<le> IP_MAXPACKET" using k5(4) by (simp add: tracker_ok_def)
  define ft7 where "ft7 = ft6\<lparr>ft_frag_pkts := u32 (ft_frag_pkts ft6 + 1)\<rparr>"
  obtain left right where x7: "frag3_find off [] (ft_fraglist ft7) = (left, right)"
    by (cases "frag3_find off [] (ft_fraglist ft7)")
  define c where "c = \<lparr>fp_p = p, fp_cx = cx, fp_snaplen = snaplen, fp_node_ok = node_ok,
      fp_orig_offset = u16 (8 * pk_frag_offset p), fp_frag_end = e,
      fp_fragLength = s16 (pk_ip_frag_len p), fp_len = len, fp_lastfrag = lf\<rparr>"
  define s where "s = \<lparr>fi_ft = ft7, fi_left = left, fi_mid = [], fi_right = right, fi_offset = off,
      fi_slide = 0, fi_trunc = 0, fi_addthis = True, fi_alerted_overlap = False, fi_events = evs3\<rparr>"
  have ins: "Frag3Insert fuel snaplen node_ok p ft cx =
      (if ret \<noteq> FRAG_INSERT_OK then Some (ret, ft5, evs2)
       else if e = off then Some (FRAG_INSERT_ANOMALY, ft5, frag3_alert cx AnomZeroFrag evs2)
       else map_option fi_close (frag3_place fuel c s))"
    unfolding Frag3Insert_def x1 Let_def prod.case ft2_def [symmetric]
    unfolding ft3_def [symmetric] x4 prod.case x5
    unfolding prod.case x6
    unfolding prod.case ft7_def [symmetric] x7
    unfolding prod.case c_def [symmetric] s_def [symmetric]
    using cs by simp
  show ?thesis
  proof (cases "ret \<noteq> FRAG_INSERT_OK \<or> e = off")
    case True
    then show ?thesis using k5(4) by (auto simp: ins insert_outcome_def frag_insert_codes)
  next
    case False
    have f7: "ft_fraglist ft7 = ft_live p ft cx" "ft_frag_policy ft7 = ft_frag_policy ft"
      "tracker_ok hi ft7" "ft_calculated_size ft7 = ft_calculated_size ft5"
      using k3 k4 k5 k6 by (simp_all add: ft7_def tracker_ok_def)
    have fok: "frags_ok (ft_fraglist ft7)" using f7(3) by (simp add: tracker_ok_def)
    note spl = frag3_find_split [OF x7 fok, simplified]
    have lst: "fi_list s = ft_live p ft cx" using spl f7(1) by (simp add: s_def fi_list_def)
    have nonneg: "0 \<le> pk_begin p" "pk_begin p \<le> pk_end p"
      using p zmod_le_nonneg_dividend [of "pk_ip_frag_len p" 8]
      by (auto simp: frag_pkt_ok_def pk_begin_def pk_end_def Let_def)
    have cok: "f3par_ok c"
      using p k5 False nonneg by (auto simp: f3par_ok_def c_def frag_pkt_ok_def)
    have sok: "fi_start hi c s"
      using spl f7 k5 False lst nonneg
      by (simp add: fi_start_def fi_common_def s_def c_def fi_tracker_def tracker_ok_def)
    obtain res where res: "frag3_place fuel c s = Some res" "place_outcome hi c s res"
    proof -
      have "whole_policy (ft_frag_policy (fi_ft s))" using pol f7(2) by (simp add: s_def)
      moreover have "length (fi_list s) < fuel" using fuel lst by (simp add: ft_live_def split: if_splits)
      ultimately show ?thesis using frag3_place_outcome [OF cok sok] that by blast
    qed
    have sel: "fi_offset s = pk_begin p" "ft_frag_policy (fi_ft s) = ft_frag_policy ft" "fp_frag_end c = pk_end p"
      "fp_byte c x = pk_byte p x" for x
      using f7(2) k5(1,2,3) by (simp_all add: s_def c_def fp_byte_def pk_byte_def)
    have "insert_outcome hi p ft cx (fi_close res)"
      using res(2) unfolding place_outcome_def sel lst
      by (cases res) (simp add: insert_outcome_def fi_close_def fi_tracker_def)
    then show ?thesis using res(1) False by (simp add: ins del: split_paired_Ex)
  qed
qed

subsection \<open>Runs of a tracker\<close>

text \<open>
  The trackers that come about from a first fragment and insertions, each of which returns what
  \<open>Q\<close> allows; \<open>hi\<close> is the end of the first fragment, and no last fragment ends before \<open>n\<close>. The first fragment has whole units of eight
  bytes (the length \<open>Frag3NewTracker\<close> counts is the unaligned one).
\<close>

inductive frag3_run :: "(FragPacket \<Rightarrow> int \<Rightarrow> bool) \<Rightarrow> int \<Rightarrow> int \<Rightarrow> FragTracker \<Rightarrow> bool"
  for Q :: "FragPacket \<Rightarrow> int \<Rightarrow> bool" and n :: int where
  new: "\<lbrakk>frag_pkt_ok p; \<not> pk_mf p \<longrightarrow> n \<le> pk_end p; 0 < pk_ip_frag_len p; pk_end p = pk_begin p + pk_ip_frag_len p; whole_policy pol;
    Q p FRAG_INSERT_OK; Frag3NewTracker snaplen node_ok pol p cx = Some (ft, evs)\<rbrakk> \<Longrightarrow> frag3_run Q n (pk_end p) ft"
| ins: "\<lbrakk>frag3_run Q n hi ft; frag_pkt_ok p; \<not> pk_mf p \<longrightarrow> n \<le> pk_end p; length (ft_fraglist ft) < fuel;
    Frag3Insert fuel snaplen node_ok p ft cx = Some (ret, ft', evs); Q p ret\<rbrakk> \<Longrightarrow> frag3_run Q n hi ft'"

lemma Frag3CheckFirstLast_fields:
  assumes "frag_pkt_ok p" and "ft_frag_policy ft \<noteq> FRAG_POLICY_SOLARIS"
    and eq: "Frag3CheckFirstLast p ft cx evs = (ret, ft', evs')"
  shows "ft_fraglist ft' = ft_fraglist ft" "ft_frag_policy ft' = ft_frag_policy ft"
    "ft_frag_bytes ft' = ft_frag_bytes ft"
    "FRAG_GOT_LAST \<in> ft_frag_flags ft' \<longleftrightarrow> FRAG_GOT_LAST \<in> ft_frag_flags ft \<or> \<not> pk_mf p"
    "ft_calculated_size ft' = (if pk_mf p then ft_calculated_size ft else max (ft_calculated_size ft) (pk_end p))"
proof -
  have u: "u16 (8 * pk_frag_offset p + u16 (pk_ip_frag_len p)) = 8 * pk_frag_offset p + pk_ip_frag_len p"
    using assms(1) by (auto simp: frag_pkt_ok_def IP_MAXPACKET_def)
  show "ft_fraglist ft' = ft_fraglist ft" "ft_frag_policy ft' = ft_frag_policy ft"
    "ft_frag_bytes ft' = ft_frag_bytes ft"
    using eq unfolding Frag3CheckFirstLast_def by (auto simp: Let_def split: if_splits)
  show "FRAG_GOT_LAST \<in> ft_frag_flags ft' \<longleftrightarrow> FRAG_GOT_LAST \<in> ft_frag_flags ft \<or> \<not> pk_mf p"
    using eq assms(1) unfolding Frag3CheckFirstLast_def by (auto simp: Let_def frag_pkt_ok_def split: if_splits)
  show "ft_calculated_size ft' = (if pk_mf p then ft_calculated_size ft else max (ft_calculated_size ft) (pk_end p))"
    using eq assms(1,2) unfolding Frag3CheckFirstLast_def u
    by (auto simp: Let_def pk_end_def frag_pkt_ok_def max_def split: if_splits)
qed

lemma Frag3NewTracker_ok:
  assumes p: "frag_pkt_ok p" "0 < pk_ip_frag_len p" "pk_end p = pk_begin p + pk_ip_frag_len p"
    and last: "\<not> pk_mf p \<longrightarrow> n \<le> pk_end p"
    and pol: "whole_policy pol" and new: "Frag3NewTracker snaplen node_ok pol p cx = Some (ft, evs)"
  shows "tracker_ok (pk_end p, n) ft"
    and "frag_at (ft_fraglist ft) x = (if pk_begin p \<le> x \<and> x < pk_end p then Some (pk_byte p x) else None)"
proof -
  let ?f = "\<lparr>fr_fptr = take (nat (pk_ip_frag_len p)) (pk_ip_frag_start p), fr_delta = 0,
             fr_size = pk_ip_frag_len p, fr_offset = pk_begin p, fr_ord = 0, fr_last = \<not> pk_mf p\<rparr>"
  have num: "u16 (pk_ip_frag_len p) = pk_ip_frag_len p" "u16 (8 * pk_frag_offset p) = pk_begin p"
    "u16 (pk_end p) = pk_end p" "pk_end p - pk_begin p = pk_ip_frag_len p" "pk_end p \<le> IP_MAXPACKET" "0 \<le> pk_end p"
    using p by (auto simp: frag_pkt_ok_def pk_begin_def IP_MAXPACKET_def)
  have al: "pk_mf p \<Longrightarrow> pk_end p mod 8 = 0"
  proof -
    assume "pk_mf p"
    then have "(pk_begin p + pk_ip_frag_len p) mod 8 = 0"
      using p(3) by (simp add: pk_end_def pk_begin_def Let_def)
    then show ?thesis using p(3) by simp
  qed
  let ?evs = "if pk_mf p \<and> pk_end p mod 8 \<noteq> 0 then frag3_alert cx AnomShortFrag [] else []"
  let ?tmp = "\<lparr>ft_protocol = (if pk_is_ip6 p then (if pk_frag_offset p = 0 then pk_ip6f_nxt p else 0)
                             else pk_ip_proto p),
               ft_ttl = pk_ttl p, ft_alerted = False, ft_frag_flags = {}, ft_frag_bytes = 0,
               ft_calculated_size = 0, ft_frag_pkts = 1, ft_sec = pk_sec p, ft_usec = pk_usec p,
               ft_fraglist = [?f], ft_alert_count = 0, ft_ip_options_len = 0, ft_ip_option_count = 0,
               ft_ip_options_data = None, ft_copied_ip_options_len = 0, ft_copied_ip_option_count = 0,
               ft_ordinal = 1, ft_frag_policy = pol, ft_overlap_count = 0\<rparr>"
  obtain r tmp1 evs1 where cfl: "Frag3CheckFirstLast p ?tmp cx ?evs = (r, tmp1, evs1)"
    by (cases "Frag3CheckFirstLast p ?tmp cx ?evs")
  have f: "\<lparr>fr_fptr = take (nat (pk_ip_frag_len p)) (pk_ip_frag_start p), fr_delta = 0,
      fr_size = (if pk_mf p then u16 (pk_end p - pk_end p mod 8 - pk_begin p) else pk_ip_frag_len p),
      fr_offset = pk_begin p, fr_ord = 0, fr_last = \<not> pk_mf p\<rparr> = ?f"
    using al num by auto
  have "Frag3HandleIPOptions (tmp1\<lparr>ft_frag_bytes := u32 (ft_frag_bytes tmp1 + pk_ip_frag_len p)\<rparr>) p cx evs1 = (ft, evs)"
    using new unfolding Frag3NewTracker_def num p(3) [symmetric] Let_def f cfl
    by (simp split: if_splits)
  note opt = Frag3HandleIPOptions_keep [OF this]
  have sol: "ft_frag_policy ?tmp \<noteq> FRAG_POLICY_SOLARIS" using pol by (auto simp: whole_policy_def)
  note fl = Frag3CheckFirstLast_fields [OF p(1) sol cfl, simplified]
  have fok: "frag_ok ?f" "fr_end ?f = pk_end p"
    using p num by (auto simp: frag_ok_def fr_end_def frag_pkt_ok_def pk_begin_def)
  have list: "ft_fraglist ft = [?f]" using opt fl by simp
  have "u32 (pk_ip_frag_len p) = pk_ip_frag_len p" using p by (simp add: frag_pkt_ok_def)
  then show "tracker_ok (pk_end p, n) ft"
    using opt fl list fok pol num last by (auto simp: tracker_ok_def)
  show "frag_at (ft_fraglist ft) x = (if pk_begin p \<le> x \<and> x < pk_end p then Some (pk_byte p x) else None)"
    unfolding list using num(4) p by (auto simp: frag_has_def fr_end_def frag_byte_def pk_byte_def)
qed

lemma frag3_run_ok: "frag3_run Q n hi ft \<Longrightarrow> tracker_ok (hi, n) ft"
proof (induction rule: frag3_run.induct)
  case (new p pol snaplen node_ok cx ft evs)
  then show ?case by (intro Frag3NewTracker_ok(1))
next
  case (ins hi ft p fuel snaplen node_ok cx ret ft' evs)
  then have "whole_policy (ft_frag_policy ft)" by (simp add: tracker_ok_def)
  then show ?case
    using Frag3Insert_outcome [OF ins.hyps(2) ins.IH _ _ ins.hyps(4), of snaplen node_ok cx] ins.hyps(3,5)
    by (simp add: insert_outcome_def)
qed

text \<open>A fragment of the datagram \<open>D\<close> that was taken in without complaint.\<close>

definition carries :: "u8 list \<Rightarrow> FragPacket \<Rightarrow> int \<Rightarrow> bool" where
  "carries D p ret \<longleftrightarrow> ret = FRAG_INSERT_OK \<and> pk_end p \<le> int (length D) \<and>
     (\<forall>x. pk_begin p \<le> x \<and> x < pk_end p \<longrightarrow> pk_byte p x = D ! nat x)"

lemma frag3_run_carries:
  "frag3_run (carries D) n hi ft \<Longrightarrow> frag_at (ft_fraglist ft) x = Some b \<Longrightarrow> x < int (length D) \<and> b = D ! nat x"
proof (induction arbitrary: b rule: frag3_run.induct)
  case (new p pol snaplen node_ok cx ft evs)
  have "frag_at (ft_fraglist ft) x = (if pk_begin p \<le> x \<and> x < pk_end p then Some (pk_byte p x) else None)"
    using new.hyps by (intro Frag3NewTracker_ok(2) [where n = n])
  then show ?case using new.hyps new.prems by (auto simp: carries_def split: if_splits)
next
  case (ins hi ft p fuel snaplen node_ok cx ret ft' evs)
  have ok: "tracker_ok (hi, n) ft" using ins.hyps(1) by (rule frag3_run_ok)
  then have "whole_policy (ft_frag_policy ft)" by (simp add: tracker_ok_def)
  then have "frag_at (ft_fraglist ft') x =
      (if pk_begin p \<le> x \<and> x < pk_end p \<and>
          \<not> (\<exists>f\<in>set (ft_live p ft cx). frag_stays (ft_frag_policy ft) (pk_begin p) (pk_end p) f \<and> frag_has f x)
       then Some (pk_byte p x) else frag_at (ft_live p ft cx) x)"
    using Frag3Insert_outcome [OF ins.hyps(2) ok _ _ ins.hyps(4), of snaplen node_ok cx] ins.hyps(3,5,6)
    by (simp add: insert_outcome_def carries_def)
  then show ?case using ins.IH [of b] ins.hyps(6) ins.prems
    by (auto simp: carries_def ft_live_def split: if_splits)
qed

lemma frag3_complete_covers:
  assumes ok: "tracker_ok hi ft" and le: "fst hi \<le> ft_calculated_size ft" and "Frag3IsComplete ft"
    and x: "0 \<le> x" "x < ft_calculated_size ft"
  shows "\<exists>b. frag_at (ft_fraglist ft) x = Some b"
proof -
  have "\<exists>f\<in>set (ft_fraglist ft). frag_has f x"
    by (rule frag_cover [where lo = 0 and hi = "ft_calculated_size ft"])
      (use assms in \<open>auto simp: tracker_ok_def Frag3IsComplete_def frags_ok_def frag_ok_def max_def\<close>)
  then show ?thesis using frag_at_None [of "ft_fraglist ft" x] by auto
qed

lemma Frag3Rebuild_complete:
  assumes ok: "tracker_ok hi ft" and le: "fst hi \<le> ft_calculated_size ft" and fin: "Frag3IsComplete ft"
    and buf: "nat (ft_calculated_size ft) \<le> length buf" and opt: "frag_options ip4 ft = None"
  shows "\<exists>d. Frag3Rebuild ip4 ft buf = Some (Some ([], d), ft\<lparr>ft_frag_flags := insert FRAG_REBUILT (ft_frag_flags ft)\<rparr>) \<and>
     map Some d = map (\<lambda>i. frag_at (ft_fraglist ft) (int i)) [0 ..< nat (ft_calculated_size ft)]"
proof -
  let ?n = "nat (ft_calculated_size ft)"
  have t: "frags_ok (ft_fraglist ft)" "\<forall>f\<in>set (ft_fraglist ft). fr_end f \<le> ft_calculated_size ft"
    "ft_calculated_size ft \<le> IP_MAXPACKET" "0 \<le> ft_calculated_size ft"
    using ok le by (auto simp: tracker_ok_def max_def)
  obtain b where b: "rebuild_loop (ft_calculated_size ft) (ft_fraglist ft) buf = Some (True, b)"
    "length b = length buf"
    "\<forall>i<length buf. b ! i = (case frag_at (ft_fraglist ft) (int i) of Some b \<Rightarrow> b | None \<Rightarrow> buf ! i)"
    using rebuild_loop_ok [OF t(1,2,3) buf] by blast
  have u: "u16 (ft_calculated_size ft) = ft_calculated_size ft" using t by (simp add: IP_MAXPACKET_def)
  have "map Some (take ?n b) = map (\<lambda>i. frag_at (ft_fraglist ft) (int i)) [0 ..< ?n]"
  proof (rule nth_equalityI)
    show "length (map Some (take ?n b)) = length (map (\<lambda>i. frag_at (ft_fraglist ft) (int i)) [0 ..< ?n])"
      using b(2) buf by simp
  next
    fix i
    assume i: "i < length (map Some (take ?n b))"
    then have "int i < ft_calculated_size ft" "i < length buf" using b(2) buf by auto
    moreover from this obtain y where "frag_at (ft_fraglist ft) (int i) = Some y"
      using frag3_complete_covers [OF ok le fin, of "int i"] by auto
    ultimately show "map Some (take ?n b) ! i = map (\<lambda>i. frag_at (ft_fraglist ft) (int i)) [0 ..< ?n] ! i"
      using i b(3) by simp
  qed
  then show ?thesis using b(1) u opt by (simp add: Frag3Rebuild_def Let_def)
qed

subsection \<open>Properties\<close>

text \<open>Concrete packets, for the witnesses.\<close>

definition frag_pkt :: "int \<Rightarrow> bool \<Rightarrow> u8 list \<Rightarrow> FragPacket" where
  "frag_pkt off mf d = \<lparr>pk_frag_offset = off, pk_mf = mf, pk_ip_frag_start = d, pk_ip_frag_len = int (length d),
     pk_ttl = 64, pk_sec = 0, pk_usec = 0, pk_is_ip6 = False, pk_ip6f_nxt = 0, pk_ip_proto = 17, pk_ip_dsize = 0,
     pk_ip_options_len = 0, pk_ip_option_count = 0, pk_ip_options_data = [], pk_ip_option_codes = []\<rparr>"

definition frag_cx :: Frag3Context where
  "frag_cx = \<lparr>cx_anomalies = False, cx_min_fragment_length = 0, cx_overlap_limit = 0, cx_frag_timeout = 60,
     cx_ip6_alerts = False, cx_ip6_drops = False\<rparr>"

definition frag_first :: "frag_policy \<Rightarrow> FragPacket \<Rightarrow> (FragTracker \<times> frag3_event list) option" where
  "frag_first pol p = Frag3NewTracker 1500 (\<lambda>_. True) pol p frag_cx"

definition frag_next :: "FragPacket \<Rightarrow> FragTracker \<Rightarrow> (int \<times> FragTracker \<times> frag3_event list) option" where
  "frag_next p ft = Frag3Insert 20 1500 (\<lambda>_. True) p ft frag_cx"

fun frag_feed :: "FragPacket list \<Rightarrow> FragTracker \<Rightarrow> FragTracker option" where
  "frag_feed [] ft = Some ft"
| "frag_feed (p # ps) ft = (case frag_next p ft of Some (_, ft', _) \<Rightarrow> frag_feed ps ft' | None \<Rightarrow> None)"

definition frag_run :: "frag_policy \<Rightarrow> FragPacket list \<Rightarrow> FragTracker option" where
  "frag_run pol ps = (case ps of [] \<Rightarrow> None | p # ps \<Rightarrow> Option.bind (frag_first pol p) (\<lambda>r. frag_feed ps (fst r)))"

definition frag_shape :: "FragTracker \<Rightarrow> (int \<times> int \<times> int) list" where
  "frag_shape ft = map (\<lambda>f. (fr_offset f, fr_size f, fr_delta f)) (ft_fraglist ft)"

definition w_bytes :: "nat \<Rightarrow> nat \<Rightarrow> u8 list" where
  "w_bytes a n = map (\<lambda>i. of_nat (a + i)) [0 ..< n]"

definition w_last :: FragTracker where
  "w_last = fst (the (frag_first FRAG_POLICY_LINUX (frag_pkt 2 False (w_bytes 16 8))))"

definition w_both :: FragTracker where
  "w_both = fst (snd (the (frag_next (frag_pkt 0 True (w_bytes 0 16)) w_last)))"

lemma w_last_run: "frag_first FRAG_POLICY_LINUX (frag_pkt 2 False (w_bytes 16 8)) = Some (w_last, [])"
  unfolding w_last_def by code_simp

lemma w_both_run: "frag_next (frag_pkt 0 True (w_bytes 0 16)) w_last = Some (FRAG_INSERT_OK, w_both, [])"
  unfolding w_last_def w_both_def by code_simp

lemma w_fuel: "length (ft_fraglist w_last) < 20"
  unfolding w_last_def by code_simp

lemma w_pkts:
  "frag_pkt_ok (frag_pkt 2 False (w_bytes 16 8))" "frag_pkt_ok (frag_pkt 0 True (w_bytes 0 16))"
  "pk_end (frag_pkt 2 False (w_bytes 16 8)) = 24" "pk_begin (frag_pkt 2 False (w_bytes 16 8)) = 16"
  "pk_end (frag_pkt 0 True (w_bytes 0 16)) = 16" "pk_begin (frag_pkt 0 True (w_bytes 0 16)) = 0"
  by (simp_all add: frag_pkt_ok_def frag_pkt_def pk_end_def pk_begin_def w_bytes_def IP_MAXPACKET_def)

lemma carries_list [code]:
  "carries D p ret \<longleftrightarrow> ret = FRAG_INSERT_OK \<and> pk_end p \<le> int (length D) \<and>
     list_all (\<lambda>x. pk_byte p x = D ! nat x) [pk_begin p .. pk_end p - 1]"
  by (auto simp: carries_def list_all_iff)

lemma w_carries:
  "carries (w_bytes 0 24) (frag_pkt 2 False (w_bytes 16 8)) FRAG_INSERT_OK"
  "carries (w_bytes 0 24) (frag_pkt 0 True (w_bytes 0 16)) FRAG_INSERT_OK"
  by code_simp+

lemma w_run_last: "frag3_run (carries (w_bytes 0 24)) 24 24 w_last"
proof -
  have "frag3_run (carries (w_bytes 0 24)) 24 (pk_end (frag_pkt 2 False (w_bytes 16 8))) w_last"
    by (rule frag3_run.new [OF _ _ _ _ _ _ w_last_run [unfolded frag_first_def]])
      (use w_pkts w_carries in \<open>simp_all add: whole_policy_def frag_pkt_def w_bytes_def\<close>)
  then show ?thesis by (simp add: w_pkts)
qed

lemma w_run_both: "frag3_run (carries (w_bytes 0 24)) 24 24 w_both"
  by (rule frag3_run.ins [OF w_run_last _ _ w_fuel w_both_run [unfolded frag_next_def]])
    (use w_pkts w_carries in \<open>simp_all add: frag_pkt_def\<close>)







text \<open>
  C10: fragments of one datagram, in any order, duplicated and overlapping at will, are put together
  to that datagram: when \<open>Frag3IsComplete\<close> says so after fragments that were all taken in, the
  rebuilt payload is the datagram, whatever the buffer held before. The assumption on
  \<open>calculated_size\<close> excludes the trackers whose first fragment it does not cover yet.
\<close>

theorem frag3_reassembles:
  assumes run: "frag3_run (carries D) (int (length D)) hi ft" and fin: "Frag3IsComplete ft"
    and first: "hi \<le> ft_calculated_size ft" and buf: "length D \<le> length buf" and opt: "frag_options ip4 ft = None"
  shows "Frag3Rebuild ip4 ft buf = Some (Some ([], D), ft\<lparr>ft_frag_flags := insert FRAG_REBUILT (ft_frag_flags ft)\<rparr>)"
proof -
  have ok: "tracker_ok (hi, int (length D)) ft" by (rule frag3_run_ok [OF run])
  let ?n = "nat (ft_calculated_size ft)"
  have le: "fst (hi, int (length D)) \<le> ft_calculated_size ft" using first by simp
  have ge: "length D \<le> ?n" using ok fin by (auto simp: tracker_ok_def Frag3IsComplete_def)
  have "\<not> length D < ?n"
  proof
    assume "length D < ?n"
    then have "int (length D) < ft_calculated_size ft" by (simp add: zless_nat_eq_int_zless)
    then obtain b where "frag_at (ft_fraglist ft) (int (length D)) = Some b"
      using frag3_complete_covers [OF ok le fin, of "int (length D)"] by auto
    then show False using frag3_run_carries [OF run] by fastforce
  qed
  then have n: "?n = length D" using ge by simp
  obtain d where d: "Frag3Rebuild ip4 ft buf = Some (Some ([], d), ft\<lparr>ft_frag_flags := insert FRAG_REBUILT (ft_frag_flags ft)\<rparr>)"
    "map Some d = map (\<lambda>i. frag_at (ft_fraglist ft) (int i)) [0 ..< length D]"
    using Frag3Rebuild_complete [OF ok le fin, of buf ip4] buf opt n by auto
  have "length d = length D" using arg_cong [OF d(2), of length] by simp
  moreover have "d ! i = D ! i" if "i < length D" for i
  proof -
    have "Some (d ! i) = frag_at (ft_fraglist ft) (int i)"
      using arg_cong [OF d(2), of "\<lambda>l. l ! i"] that \<open>length d = length D\<close> by simp
    then show ?thesis using frag3_run_carries [OF run, of "int i" "d ! i"] by simp
  qed
  ultimately have "d = D" by (simp add: nth_equalityI)
  then show ?thesis using d(1) by simp
qed


theorem frag3_reassembles_witness:
  "Frag3Rebuild True w_both (replicate 32 0) =
     Some (Some ([], w_bytes 0 24), w_both\<lparr>ft_frag_flags := insert FRAG_REBUILT (ft_frag_flags w_both)\<rparr>)"
proof (rule frag3_reassembles)
  have "length (w_bytes 0 24) = 24" by (simp add: w_bytes_def)
  then show "frag3_run (carries (w_bytes 0 24)) (int (length (w_bytes 0 24))) 24 w_both"
    "length (w_bytes 0 24) \<le> length (replicate 32 (0 :: u8))"
    using w_run_both by simp_all
  show "Frag3IsComplete w_both" unfolding w_both_def w_last_def by code_simp
  show "frag_options True w_both = None" unfolding w_both_def w_last_def by code_simp
  show "24 \<le> ft_calculated_size w_both" unfolding w_both_def w_last_def by code_simp
qed



text \<open>
  C16: the options of the first fragment with offset 0 are copied, but \<open>ip_options_len\<close> is taken
  from every such fragment: after a second one with more option bytes, rebuilding the IPv4 packet reads
  past the bytes allocated for the options.
\<close>

theorem frag3_options_overread:
  assumes "ft_ip_options_data ft = Some d" and "pk_frag_offset p = 0"
    and "int (length d) < pk_ip_options_len p" and "pk_ip_options_len p \<le> int (length buf)"
  shows "Frag3Rebuild True (fst (Frag3HandleIPOptions ft p cx evs)) buf = None"
proof -
  have "length d < nat (pk_ip_options_len p)" "\<not> length buf < nat (pk_ip_options_len p)"
    using assms(3,4) by (simp_all add: zless_nat_eq_int_zless nat_le_iff)
  then show ?thesis using assms by (simp add: Frag3HandleIPOptions_def Frag3Rebuild_def frag_options_def Let_def)
qed

theorem frag3_options_overread_witness:
  "Frag3Rebuild True
     (fst (Frag3HandleIPOptions (w_both\<lparr>ft_ip_options_len := 4, ft_ip_options_data := Some [1, 1, 1, 0]\<rparr>)
       (frag_pkt 0 True (w_bytes 0 16)\<lparr>pk_ip_options_len := 8, pk_ip_options_data := [1, 1, 1, 1, 1, 1, 1, 0]\<rparr>)
       frag_cx [])) (replicate 32 0) = None"
  by (rule frag3_options_overread [where d = "[1, 1, 1, 0]"]) (simp_all add: frag_pkt_def)

end
