(* ===== verification/Acsm.thy ===== *)
theory Acsm
  imports SnortPrelude
begin

text \<open>
  The Aho-Corasick matcher of \<open>src/src/sfutil/acsmx.c\<close>: patterns, the trie of their bytes, the
  failure function (\<open>Build_NFA\<close>), the full transition table (\<open>Convert_NFA_To_DFA\<close>) and the search,
  which keeps its state between buffers. The state table is a function on state numbers, of which the
  code allocates \<open>acsmMaxStates\<close>; that the numbers stay below it is a theorem. The rule option
  trees and negative lists belong to the caller: \<open>build_tree\<close> and \<open>neg_list_func\<close> are arguments.
  The loops over the queue and over the failure states have fuel. Reference counts and the freeing
  of memory are left out.
\<close>

subsection \<open>Data\<close>

definition ACSM_FAIL_STATE :: int where "ACSM_FAIL_STATE = -1"

record 'i ACSM_PATTERN =
  ap_patrn :: "u8 list"
  ap_casepatrn :: "u8 list"
  ap_n :: int
  ap_nocase :: int
  ap_offset :: int
  ap_depth :: int
  ap_negative :: int
  ap_id :: "'i option"       \<comment> \<open>\<open>udata->id\<close>, \<open>None\<close> for NULL\<close>
  ap_iid :: int

text \<open>\<open>rule_option_tree\<close> and \<open>neg_list\<close> are fields of the head of the match list.\<close>

record ('i, 't, 'n) ACSM_STATETABLE =
  NextState :: "u8 \<Rightarrow> int"
  FailState :: int
  MatchList :: "'i ACSM_PATTERN list"
  rule_option_tree :: "'t option"
  neg_list :: "'n option"

record ('i, 't, 'n) ACSM_STRUCT =
  acsmMaxStates :: int
  acsmNumStates :: int
  acsmPatterns :: "'i ACSM_PATTERN list"
  acsmStateTable :: "int \<Rightarrow> ('i, 't, 'n) ACSM_STATETABLE"
  numPatterns :: int

definition xlatcase :: "u8 \<Rightarrow> u8" where
  "xlatcase c = (if 97 \<le> c \<and> c \<le> 122 then c - 32 else c)"

definition all_bytes :: "u8 list" where
  "all_bytes = map of_nat [0 ..< 256]"

definition acsmNew :: "('i, 't, 'n) ACSM_STRUCT" where
  "acsmNew = \<lparr>acsmMaxStates = 0, acsmNumStates = 0, acsmPatterns = [],
     acsmStateTable = (\<lambda>_. \<lparr>NextState = (\<lambda>_. 0), FailState = 0, MatchList = [], rule_option_tree = None,
       neg_list = None\<rparr>), numPatterns = 0\<rparr>"

definition acsmAddPattern ::
  "('i, 't, 'n) ACSM_STRUCT \<Rightarrow> u8 list \<Rightarrow> int \<Rightarrow> int \<Rightarrow> int \<Rightarrow> int \<Rightarrow> 'i option \<Rightarrow> int \<Rightarrow> ('i, 't, 'n) ACSM_STRUCT" where
  "acsmAddPattern p pat nocase offset depth negative uid iid =
     p\<lparr>acsmPatterns := \<lparr>ap_patrn = map xlatcase pat, ap_casepatrn = pat, ap_n = int (length pat),
          ap_nocase = nocase, ap_offset = offset, ap_depth = depth, ap_negative = negative, ap_id = uid,
          ap_iid = iid\<rparr> # acsmPatterns p,
       numPatterns := numPatterns p + 1\<rparr>"

definition st_next :: "('i, 't, 'n) ACSM_STRUCT \<Rightarrow> int \<Rightarrow> u8 \<Rightarrow> int" where
  "st_next a s c = NextState (acsmStateTable a s) c"

definition set_next :: "int \<Rightarrow> u8 \<Rightarrow> int \<Rightarrow> ('i, 't, 'n) ACSM_STRUCT \<Rightarrow> ('i, 't, 'n) ACSM_STRUCT" where
  "set_next s c t a = a\<lparr>acsmStateTable := (acsmStateTable a)(s := (acsmStateTable a s)\<lparr>NextState :=
     (NextState (acsmStateTable a s))(c := t)\<rparr>)\<rparr>"

definition set_fail :: "int \<Rightarrow> int \<Rightarrow> ('i, 't, 'n) ACSM_STRUCT \<Rightarrow> ('i, 't, 'n) ACSM_STRUCT" where
  "set_fail s t a = a\<lparr>acsmStateTable := (acsmStateTable a)(s := (acsmStateTable a s)\<lparr>FailState := t\<rparr>)\<rparr>"

subsection \<open>The trie\<close>

definition AddMatchListEntry ::
  "int \<Rightarrow> 'i ACSM_PATTERN \<Rightarrow> ('i, 't, 'n) ACSM_STRUCT \<Rightarrow> ('i, 't, 'n) ACSM_STRUCT" where
  "AddMatchListEntry s px a = a\<lparr>acsmStateTable := (acsmStateTable a)(s := (acsmStateTable a s)\<lparr>MatchList :=
     px # MatchList (acsmStateTable a s)\<rparr>)\<rparr>"

text \<open>Along the existing states as far as they go, then one new state for each byte.\<close>

fun trie_match :: "('i, 't, 'n) ACSM_STRUCT \<Rightarrow> int \<Rightarrow> u8 list \<Rightarrow> int \<times> u8 list" where
  "trie_match a s [] = (s, [])"
| "trie_match a s (c # cs) = (if st_next a s c = ACSM_FAIL_STATE then (s, c # cs) else trie_match a (st_next a s c) cs)"

fun trie_extend :: "int \<Rightarrow> u8 list \<Rightarrow> ('i, 't, 'n) ACSM_STRUCT \<Rightarrow> int \<times> ('i, 't, 'n) ACSM_STRUCT" where
  "trie_extend s [] a = (s, a)"
| "trie_extend s (c # cs) a =
     (let k = acsmNumStates a + 1 in trie_extend k cs (set_next s c k (a\<lparr>acsmNumStates := k\<rparr>)))"

definition AddPatternStates :: "'i ACSM_PATTERN \<Rightarrow> ('i, 't, 'n) ACSM_STRUCT \<Rightarrow> ('i, 't, 'n) ACSM_STRUCT" where
  "AddPatternStates p a =
     (let (s, rest) = trie_match a 0 (ap_patrn p); (s', a') = trie_extend s rest a in AddMatchListEntry s' p a')"

subsection \<open>Failure states and the transition table\<close>

text \<open>The loop over the queue; a step gives the states it adds at the tail.\<close>

fun queue_loop :: "nat \<Rightarrow> (int \<Rightarrow> 's \<Rightarrow> ('s \<times> int list) option) \<Rightarrow> int list \<Rightarrow> 's \<Rightarrow> 's option" where
  "queue_loop n step [] a = Some a"
| "queue_loop 0 step (r # q) a = None"
| "queue_loop (Suc n) step (r # q) a =
     (case step r a of None \<Rightarrow> None | Some (a', new) \<Rightarrow> queue_loop n step (q @ new) a')"

definition root_queue :: "('i, 't, 'n) ACSM_STRUCT \<Rightarrow> int list" where
  "root_queue a = filter (\<lambda>s. s \<noteq> 0) (map (st_next a 0) all_bytes)"

fun fail_walk :: "nat \<Rightarrow> ('i, 't, 'n) ACSM_STRUCT \<Rightarrow> int \<Rightarrow> u8 \<Rightarrow> int option" where
  "fail_walk 0 a fs c = None"
| "fail_walk (Suc n) a fs c =
     (if st_next a fs c = ACSM_FAIL_STATE then fail_walk n a (FailState (acsmStateTable a fs)) c
      else Some (st_next a fs c))"

definition copy_matches :: "int \<Rightarrow> int \<Rightarrow> ('i, 't, 'n) ACSM_STRUCT \<Rightarrow> ('i, 't, 'n) ACSM_STRUCT" where
  "copy_matches from to a = fold (AddMatchListEntry to) (MatchList (acsmStateTable a from)) a"

fun nfa_row :: "nat \<Rightarrow> int \<Rightarrow> u8 list \<Rightarrow> ('i, 't, 'n) ACSM_STRUCT \<Rightarrow> (('i, 't, 'n) ACSM_STRUCT \<times> int list) option" where
  "nfa_row n r [] a = Some (a, [])"
| "nfa_row n r (c # cs) a =
     (let s = st_next a r c in
      if s = ACSM_FAIL_STATE then nfa_row n r cs a
      else case fail_walk n a (FailState (acsmStateTable a r)) c of
             None \<Rightarrow> None
           | Some next \<Rightarrow>
               map_option (\<lambda>(a', new). (a', s # new)) (nfa_row n r cs (copy_matches next s (set_fail s next a))))"

definition Build_NFA :: "nat \<Rightarrow> ('i, 't, 'n) ACSM_STRUCT \<Rightarrow> ('i, 't, 'n) ACSM_STRUCT option" where
  "Build_NFA fuel a =
     (let queue = root_queue a
      in queue_loop fuel (\<lambda>r. nfa_row fuel r all_bytes) queue (fold (\<lambda>s. set_fail s 0) queue a))"

fun dfa_row :: "int \<Rightarrow> u8 list \<Rightarrow> ('i, 't, 'n) ACSM_STRUCT \<Rightarrow> ('i, 't, 'n) ACSM_STRUCT \<times> int list" where
  "dfa_row r [] a = (a, [])"
| "dfa_row r (c # cs) a =
     (let s = st_next a r c in
      if s \<noteq> ACSM_FAIL_STATE then (case dfa_row r cs a of (a', new) \<Rightarrow> (a', s # new))
      else dfa_row r cs (set_next r c (st_next a (FailState (acsmStateTable a r)) c) a))"

definition Convert_NFA_To_DFA :: "nat \<Rightarrow> ('i, 't, 'n) ACSM_STRUCT \<Rightarrow> ('i, 't, 'n) ACSM_STRUCT option" where
  "Convert_NFA_To_DFA fuel a = queue_loop fuel (\<lambda>r a. Some (dfa_row r all_bytes a)) (root_queue a) a"

subsection \<open>Compilation\<close>

text \<open>One state: the trees of its patterns hang on the head of the match list.\<close>

definition build_state ::
  "('i option \<Rightarrow> 't option \<Rightarrow> 't option) \<Rightarrow> ('i \<Rightarrow> 'n option \<Rightarrow> 'n option) \<Rightarrow>
   ('i, 't, 'n) ACSM_STATETABLE \<Rightarrow> ('i, 't, 'n) ACSM_STATETABLE" where
  "build_state build_tree neg_list_func st =
     (let st1 = fold (\<lambda>m st. case ap_id m of
                   None \<Rightarrow> st
                 | Some i \<Rightarrow> (if ap_negative m \<noteq> 0 then st\<lparr>neg_list := neg_list_func i (neg_list st)\<rparr>
                            else st\<lparr>rule_option_tree := build_tree (Some i) (rule_option_tree st)\<rparr>))
                (MatchList st) st
      in if MatchList st \<noteq> [] then st1\<lparr>rule_option_tree := build_tree None (rule_option_tree st1)\<rparr> else st1)"

definition acsmBuildMatchStateTrees ::
  "('i option \<Rightarrow> 't option \<Rightarrow> 't option) \<Rightarrow> ('i \<Rightarrow> 'n option \<Rightarrow> 'n option) \<Rightarrow>
   ('i, 't, 'n) ACSM_STRUCT \<Rightarrow> ('i, 't, 'n) ACSM_STRUCT" where
  "acsmBuildMatchStateTrees build_tree neg_list_func a =
     fold (\<lambda>i a. a\<lparr>acsmStateTable := (acsmStateTable a)(int i :=
         build_state build_tree neg_list_func (acsmStateTable a (int i)))\<rparr>) [0 ..< nat (acsmMaxStates a)] a"

definition acsm_init :: "('i, 't, 'n) ACSM_STRUCT \<Rightarrow> ('i, 't, 'n) ACSM_STRUCT" where
  "acsm_init a = a\<lparr>acsmMaxStates := 1 + sum_list (map ap_n (acsmPatterns a)), acsmNumStates := 0,
     acsmStateTable := (\<lambda>_. \<lparr>NextState = (\<lambda>_. ACSM_FAIL_STATE), FailState = 0, MatchList = [],
       rule_option_tree = None, neg_list = None\<rparr>)\<rparr>"

definition root_loops :: "('i, 't, 'n) ACSM_STRUCT \<Rightarrow> ('i, 't, 'n) ACSM_STRUCT" where
  "root_loops a = fold (\<lambda>c a. if st_next a 0 c = ACSM_FAIL_STATE then set_next 0 c 0 a else a) all_bytes a"

definition acsmCompile ::
  "nat \<Rightarrow> (('i option \<Rightarrow> 't option \<Rightarrow> 't option) \<times> ('i \<Rightarrow> 'n option \<Rightarrow> 'n option)) option \<Rightarrow>
   ('i, 't, 'n) ACSM_STRUCT \<Rightarrow> ('i, 't, 'n) ACSM_STRUCT option" where
  "acsmCompile fuel fns a =
     (let a1 = root_loops (fold AddPatternStates (acsmPatterns a) (acsm_init a))
      in case Build_NFA fuel a1 of
           None \<Rightarrow> None
         | Some a2 \<Rightarrow>
             (case Convert_NFA_To_DFA fuel a2 of
                None \<Rightarrow> None
              | Some a3 \<Rightarrow>
                  Some (case fns of None \<Rightarrow> a3
                        | Some (build_tree, neg_list_func) \<Rightarrow> acsmBuildMatchStateTrees build_tree neg_list_func a3)))"

subsection \<open>Search\<close>

text \<open>
  \<open>Match\<close> gets the id, tree and list of the state, the index of the first byte of the pattern, and
  the data it works on. The result is the number of matches, the state and the data. The buffer
  \<open>Tc\<close> for the converted text has 64K bytes.
\<close>

fun acsm_scan ::
  "('i, 't, 'n) ACSM_STRUCT \<Rightarrow> ('i option \<Rightarrow> 't option \<Rightarrow> int \<Rightarrow> 'd \<Rightarrow> 'n option \<Rightarrow> int \<times> 'd) \<Rightarrow>
   u8 list \<Rightarrow> int \<Rightarrow> int \<Rightarrow> int \<Rightarrow> 'd \<Rightarrow> int \<times> int \<times> 'd" where
  "acsm_scan a Match [] pos nfound state data = (nfound, state, data)"
| "acsm_scan a Match (c # cs) pos nfound state data =
     (let state = st_next a state c; st = acsmStateTable a state
      in case MatchList st of
           [] \<Rightarrow> acsm_scan a Match cs (pos + 1) nfound state data
         | m # _ \<Rightarrow>
             (case Match (ap_id m) (rule_option_tree st) (pos - ap_n m + 1) data (neg_list st) of
                (ret, data) \<Rightarrow>
                  (if ret > 0 then (nfound + 1, state, data)
                   else acsm_scan a Match cs (pos + 1) (nfound + 1) state data)))"

definition acsmSearch ::
  "('i, 't, 'n) ACSM_STRUCT \<Rightarrow> u8 list \<Rightarrow>
   ('i option \<Rightarrow> 't option \<Rightarrow> int \<Rightarrow> 'd \<Rightarrow> 'n option \<Rightarrow> int \<times> 'd) \<Rightarrow> 'd \<Rightarrow> int \<Rightarrow> int \<times> int \<times> 'd" where
  "acsmSearch a Tx Match data current_state = acsm_scan a Match (map xlatcase Tx) 0 0 current_state data"

end
