(* ===== verification/AcsmTrie.thy ===== *)
theory AcsmTrie
  imports Acsm "HOL-Library.Sublist"
begin

text \<open>
  The states of the matcher of \<open>Acsm\<close> are the prefixes of the patterns: their paths, the longest
  suffix of a text that is one, and the proof that adding the patterns builds the trie of these paths.
  The locale \<open>bfs_tree\<close> is the contract of the two loops over the queue: a loop whose step hands
  on the children of a tree node visits every node once, after all nodes that are less deep.
\<close>

subsection \<open>The longest suffix that is a path\<close>

fun lsuf :: "u8 list set \<Rightarrow> u8 list \<Rightarrow> u8 list" where
  "lsuf Q [] = []"
| "lsuf Q (c # w) = (if c # w \<in> Q then c # w else lsuf Q w)"

definition prefix_closed :: "u8 list set \<Rightarrow> bool" where
  "prefix_closed Q \<longleftrightarrow> [] \<in> Q \<and> (\<forall>w c. w @ [c] \<in> Q \<longrightarrow> w \<in> Q)"

lemma lsuf_id: "w \<in> Q \<Longrightarrow> lsuf Q w = w"
  by (cases w) auto

lemma lsuf_mem: "[] \<in> Q \<Longrightarrow> lsuf Q w \<in> Q"
  by (induction w) auto

lemma lsuf_suffix: "suffix (lsuf Q w) w"
  by (induction w) (auto simp: suffix_ConsI)

lemma lsuf_length: "length (lsuf Q w) \<le> length w"
  using lsuf_suffix [of Q w] by (rule suffix_length_le)

lemma lsuf_max: "q \<in> Q \<Longrightarrow> suffix q w \<Longrightarrow> suffix q (lsuf Q w)"
  by (induction w) (auto simp: suffix_Cons)

lemma lsuf_suffix_iff: "q \<in> Q \<Longrightarrow> suffix q (lsuf Q w) \<longleftrightarrow> suffix q w"
  using lsuf_max lsuf_suffix suffix_order.trans by blast

lemma lsuf_tl: "w \<notin> Q \<Longrightarrow> [] \<in> Q \<Longrightarrow> lsuf Q w = lsuf Q (tl w)"
  by (cases w) auto

lemma lsuf_snoc:
  assumes Q: "prefix_closed Q"
  shows "lsuf Q (w @ [c]) = lsuf Q (lsuf Q w @ [c])"
proof (induction w)
  case Nil
  then show ?case by simp
next
  case (Cons x w)
  show ?case
  proof (cases "x # w \<in> Q")
    case True
    then show ?thesis by simp
  next
    case False
    then have "(x # w) @ [c] \<notin> Q" using Q unfolding prefix_closed_def by blast
    then show ?thesis using Cons False by simp
  qed
qed

lemma prefix_closed_two: "prefix_closed Q \<Longrightarrow> u @ [c, d] \<in> Q \<Longrightarrow> u @ [c] \<in> Q"
  unfolding prefix_closed_def by (metis append.assoc append_Cons append_Nil)

lemma prefix_closed_take: "prefix_closed Q \<Longrightarrow> w \<in> Q \<Longrightarrow> take n w \<in> Q"
proof (induction "length w - n" arbitrary: n)
  case 0
  then show ?case by simp
next
  case (Suc k)
  then have "take (Suc n) w \<in> Q" by simp
  moreover have "take (Suc n) w = take n w @ [w ! n]" using Suc.hyps(2) by (simp add: take_Suc_conv_app_nth)
  ultimately show ?case using Suc.prems(1) unfolding prefix_closed_def by metis
qed

subsection \<open>The paths of the states\<close>

text \<open>The new states of a pattern are its prefixes that are no path yet, the shortest first.\<close>

definition add_word :: "u8 list list \<Rightarrow> u8 list \<Rightarrow> u8 list list" where
  "add_word ps w = ps @ filter (\<lambda>u. u \<notin> set ps) (map (\<lambda>k. take k w) [0 ..< Suc (length w)])"

definition acsm_paths :: "u8 list list \<Rightarrow> u8 list list" where
  "acsm_paths ws = fold (\<lambda>w ps. add_word ps w) ws [[]]"

definition paths_ok :: "u8 list list \<Rightarrow> bool" where
  "paths_ok ps \<longleftrightarrow> ps \<noteq> [] \<and> ps ! 0 = [] \<and> distinct ps \<and> prefix_closed (set ps)"

lemma set_add_word: "set (add_word ps w) = set ps \<union> {take k w | k. k \<le> length w}"
  by (auto simp: add_word_def less_Suc_eq_le image_iff simp del: upt_Suc)

lemma add_word_ok:
  assumes "paths_ok ps"
  shows "paths_ok (add_word ps w)"
proof -
  have "inj_on (\<lambda>k. take k w) {0 ..< Suc (length w)}"
  proof (rule inj_onI)
    fix j k
    assume "j \<in> {0 ..< Suc (length w)}" "k \<in> {0 ..< Suc (length w)}" "take j w = take k w"
    then have "length (take j w) = length (take k w)" "j \<le> length w" "k \<le> length w" by simp_all
    then show "j = k" by simp
  qed
  then have "distinct (map (\<lambda>k. take k w) [0 ..< Suc (length w)])" by (simp only: distinct_map distinct_upt set_upt simp_thms)
  then have "distinct (add_word ps w)"
    using assms by (auto simp: paths_ok_def add_word_def distinct_filter simp del: upt_Suc)
  moreover have closed: "u \<in> set (add_word ps w)" if m: "u @ [c] \<in> set (add_word ps w)" for u c
  proof -
    consider "u @ [c] \<in> set ps" | k where "k \<le> length w" "u @ [c] = take k w"
      using m unfolding set_add_word by blast
    then show ?thesis
    proof cases
      case 1
      then show ?thesis using assms by (auto simp: paths_ok_def prefix_closed_def set_add_word)
    next
      case 2
      then have "u = take (k - 1) w"
        by (metis butlast_snoc butlast_take)
      then show ?thesis using 2(1) by (auto simp: set_add_word intro!: exI [of _ "k - 1"])
    qed
  qed
  moreover have "add_word ps w \<noteq> []" "add_word ps w ! 0 = []"
    using assms by (simp_all add: paths_ok_def add_word_def nth_append del: upt_Suc)
  moreover have "[] \<in> set (add_word ps w)"
    using assms by (simp add: paths_ok_def prefix_closed_def set_add_word)
  ultimately show ?thesis unfolding paths_ok_def prefix_closed_def by blast
qed

lemma acsm_paths_fold_ok: "paths_ok ps \<Longrightarrow> paths_ok (fold (\<lambda>w ps. add_word ps w) ws ps)"
  by (induction ws arbitrary: ps) (auto simp: add_word_ok)

lemma acsm_paths_ok: "paths_ok (acsm_paths ws)"
  unfolding acsm_paths_def by (rule acsm_paths_fold_ok) (simp add: paths_ok_def prefix_closed_def)

lemma acsm_paths_fold_mem: "w \<in> set ws \<or> w \<in> set ps \<Longrightarrow> w \<in> set (fold (\<lambda>w ps. add_word ps w) ws ps)"
proof (induction ws arbitrary: ps)
  case Nil
  then show ?case by simp
next
  case (Cons v ws)
  have "v \<in> set (add_word ps v)" by (auto simp: set_add_word intro: exI [of _ "length v"])
  then have "w \<in> set ws \<or> w \<in> set (add_word ps v)" using Cons.prems by (auto simp: set_add_word)
  then show ?case using Cons.IH by simp
qed

lemma acsm_paths_mem: "w \<in> set ws \<Longrightarrow> w \<in> set (acsm_paths ws)"
  unfolding acsm_paths_def by (rule acsm_paths_fold_mem) simp

subsection \<open>State numbers\<close>

fun pos :: "'a list \<Rightarrow> 'a \<Rightarrow> nat" where
  "pos [] w = 0"
| "pos (x # xs) w = (if x = w then 0 else Suc (pos xs w))"

lemma pos_less: "w \<in> set xs \<Longrightarrow> pos xs w < length xs"
  by (induction xs) auto

lemma nth_pos: "w \<in> set xs \<Longrightarrow> xs ! pos xs w = w"
  by (induction xs) auto

lemma pos_nth: "distinct xs \<Longrightarrow> i < length xs \<Longrightarrow> pos xs (xs ! i) = i"
  by (induction xs arbitrary: i) (auto simp: nth_Cons split: nat.split)

lemma pos_append: "pos (xs @ ys) w = (if w \<in> set xs then pos xs w else length xs + pos ys w)"
  by (induction xs) auto

definition sid :: "u8 list list \<Rightarrow> u8 list \<Rightarrow> int" where
  "sid ps w = (if w \<in> set ps then int (pos ps w) else ACSM_FAIL_STATE)"

definition path :: "u8 list list \<Rightarrow> int \<Rightarrow> u8 list" where
  "path ps s = ps ! nat s"

definition states :: "u8 list list \<Rightarrow> int set" where
  "states ps = {0 ..< int (length ps)}"

lemma path_sid [simp]: "w \<in> set ps \<Longrightarrow> path ps (sid ps w) = w"
  by (simp add: path_def sid_def nth_pos)

lemma sid_path: "distinct ps \<Longrightarrow> s \<in> states ps \<Longrightarrow> sid ps (path ps s) = s"
  by (auto simp: path_def sid_def states_def pos_nth nat_less_iff)

lemma path_mem: "s \<in> states ps \<Longrightarrow> path ps s \<in> set ps"
  by (auto simp: path_def states_def nat_less_iff)

lemma sid_states: "w \<in> set ps \<Longrightarrow> sid ps w \<in> states ps"
  by (simp add: sid_def states_def pos_less)

lemma sid_nil: "paths_ok ps \<Longrightarrow> sid ps [] = 0"
  by (cases ps) (auto simp: paths_ok_def sid_def)

lemma path_0: "paths_ok ps \<Longrightarrow> path ps 0 = []"
  by (simp add: paths_ok_def path_def)

lemma sid_fail: "sid ps w = ACSM_FAIL_STATE \<longleftrightarrow> w \<notin> set ps"
  by (auto simp: sid_def ACSM_FAIL_STATE_def)

lemma sid_inj: "w \<in> set ps \<Longrightarrow> sid ps w = sid ps v \<longleftrightarrow> w = v"
  by (metis path_sid sid_fail)


subsection \<open>Building the trie\<close>

definition own :: "'i ACSM_PATTERN set \<Rightarrow> u8 list \<Rightarrow> 'i ACSM_PATTERN set" where
  "own pats w = {p \<in> pats. ap_patrn p = w}"

definition trie_rep :: "u8 list list \<Rightarrow> 'i ACSM_PATTERN set \<Rightarrow> ('i, 't, 'n) ACSM_STRUCT \<Rightarrow> bool" where
  "trie_rep ps pats a \<longleftrightarrow> paths_ok ps \<and> acsmNumStates a = int (length ps) - 1 \<and>
     (\<forall>s \<in> states ps. \<forall>c. st_next a s c = sid ps (path ps s @ [c])) \<and>
     (\<forall>s \<in> states ps. set (MatchList (acsmStateTable a s)) = own pats (path ps s)) \<and>
     (\<forall>s. s \<notin> states ps \<longrightarrow> (\<forall>c. st_next a s c = ACSM_FAIL_STATE) \<and> MatchList (acsmStateTable a s) = [])"

lemma trie_match_rep:
  assumes rep: "trie_rep ps pats a" and "u \<in> set ps"
  shows "\<exists>k \<le> length w. trie_match a (sid ps u) w = (sid ps (u @ take k w), drop k w) \<and>
     (\<forall>j \<le> k. u @ take j w \<in> set ps) \<and> (k < length w \<longrightarrow> u @ take (Suc k) w \<notin> set ps)"
  using assms(2)
proof (induction w arbitrary: u)
  case Nil
  then show ?case by simp
next
  case (Cons c w)
  have next': "st_next a (sid ps u) c = sid ps (u @ [c])"
    using rep sid_states [OF Cons.prems] Cons.prems by (simp add: trie_rep_def)
  show ?case
  proof (cases "u @ [c] \<in> set ps")
    case True
    obtain k where k: "k \<le> length w" "trie_match a (sid ps (u @ [c])) w = (sid ps ((u @ [c]) @ take k w), drop k w)"
      "\<forall>j \<le> k. (u @ [c]) @ take j w \<in> set ps" "k < length w \<longrightarrow> (u @ [c]) @ take (Suc k) w \<notin> set ps"
      using Cons.IH [OF True] by blast
    have "u @ take j (c # w) \<in> set ps" if "j \<le> Suc k" for j
      using that k(3) Cons.prems by (cases j) auto
    then show ?thesis using k True next' by (intro exI [of _ "Suc k"]) (auto simp: sid_fail)
  next
    case False
    then show ?thesis using next' Cons.prems by (intro exI [of _ 0]) (auto simp: sid_fail)
  qed
qed

text \<open>One new state.\<close>

lemma trie_rep_snoc:
  assumes rep: "trie_rep ps pats a" and u: "u \<in> set ps" and new: "u @ [c] \<notin> set ps"
    and own: "own pats (u @ [c]) = {}"
  defines "k \<equiv> acsmNumStates a + 1"
  shows "trie_rep (ps @ [u @ [c]]) pats (set_next (sid ps u) c k (a\<lparr>acsmNumStates := k\<rparr>))"
    and "k = sid (ps @ [u @ [c]]) (u @ [c])"
proof -
  let ?ps = "ps @ [u @ [c]]"
  let ?a = "set_next (sid ps u) c k (a\<lparr>acsmNumStates := k\<rparr>)"
  have ok: "paths_ok ps" and N: "k = int (length ps)" using rep by (auto simp: trie_rep_def k_def)
  have pk: "paths_ok ?ps"
    using ok new u by (auto simp: paths_ok_def prefix_closed_def nth_append)
  show kk: "k = sid ?ps (u @ [c])" using N new by (simp add: sid_def pos_append)
  have sid_new: "sid ?ps w = (if w = u @ [c] then k else sid ps w)" for w
    using N new by (auto simp: sid_def pos_append)
  have st: "states ?ps = insert k (states ps)" "k \<notin> states ps" using N by (auto simp: states_def)
  have path: "path ?ps s = path ps s" if "s \<in> states ps" for s
    using that by (auto simp: path_def states_def nth_append nat_less_iff)
  have pathk: "path ?ps k = u @ [c]" using N by (simp add: path_def)
  have no: "\<not> (u @ [c]) @ [d] \<in> set ps" for d
    using ok new unfolding paths_ok_def prefix_closed_def by blast
  then have nof: "sid ps (u @ [c, d]) = ACSM_FAIL_STATE" for d by (simp add: sid_fail)
  have nx: "st_next ?a s d = (if s = sid ps u \<and> d = c then k else st_next a s d)" for s d
    by (simp add: st_next_def set_next_def)
  have su: "sid ps u \<in> states ps" by (rule sid_states [OF u])
  have eqk: "path ps s @ [d] = u @ [c] \<longleftrightarrow> s = sid ps u \<and> d = c" if "s \<in> states ps" for s d
    using that u sid_path [of ps s] ok by (auto simp: paths_ok_def)
  have nxt: "st_next ?a s d = sid ?ps (path ?ps s @ [d])" if "s \<in> states ?ps" for s d
  proof (cases "s = k")
    case True
    have "st_next a k d = ACSM_FAIL_STATE" using rep st(2) by (simp add: trie_rep_def)
    then show ?thesis using True nx su st(2) pathk nof sid_new by auto
  next
    case False
    then have s: "s \<in> states ps" using that st(1) by simp
    then have "st_next a s d = sid ps (path ps s @ [d])" using rep by (simp add: trie_rep_def)
    then show ?thesis using nx path [OF s] eqk [OF s] sid_new by simp
  qed
  have ml: "MatchList (acsmStateTable ?a s) = MatchList (acsmStateTable a s)" for s
    by (simp add: set_next_def)
  have "set (MatchList (acsmStateTable ?a s)) = own pats (path ?ps s)" if "s \<in> states ?ps" for s
  proof (cases "s = k")
    case True
    then show ?thesis using rep st(2) own pathk ml by (simp add: trie_rep_def)
  next
    case False
    then have s: "s \<in> states ps" using that st(1) by simp
    then show ?thesis using rep ml path [OF s] by (simp add: trie_rep_def)
  qed
  moreover have "(\<forall>d. st_next ?a s d = ACSM_FAIL_STATE) \<and> MatchList (acsmStateTable ?a s) = []" if "s \<notin> states ?ps" for s
    using that rep st(1) su nx ml by (auto simp: trie_rep_def)
  ultimately show "trie_rep ?ps pats ?a"
    using pk nxt N unfolding trie_rep_def by (simp add: set_next_def)
qed


lemma trie_extend_rep:
  assumes "trie_rep ps pats a" and "u \<in> set ps" and "w \<noteq> [] \<Longrightarrow> u @ [hd w] \<notin> set ps"
    and "\<And>j. 0 < j \<Longrightarrow> j \<le> length w \<Longrightarrow> own pats (u @ take j w) = {}"
  shows "\<exists>a'. trie_extend (sid ps u) w a = (sid (ps @ map (\<lambda>j. u @ take (Suc j) w) [0 ..< length w]) (u @ w), a') \<and>
     trie_rep (ps @ map (\<lambda>j. u @ take (Suc j) w) [0 ..< length w]) pats a'"
  using assms
proof (induction w arbitrary: ps u a)
  case Nil
  then show ?case by simp
next
  case (Cons c w)
  let ?ps = "ps @ [u @ [c]]"
  have new: "u @ [c] \<notin> set ps" using Cons.prems(3) by simp
  have own: "own pats (u @ [c]) = {}" using Cons.prems(4) [of 1] by simp
  note n = trie_rep_snoc [OF Cons.prems(1,2) new own]
  let ?k = "acsmNumStates a + 1"
  have "u @ [c] \<in> set ?ps" by simp
  moreover have "(u @ [c]) @ [d] \<notin> set ?ps" for d
    using Cons.prems(1) new prefix_closed_two [of "set ps" u c d] by (auto simp: trie_rep_def paths_ok_def)
  moreover have "own pats ((u @ [c]) @ take j w) = {}" if "0 < j" "j \<le> length w" for j
    using Cons.prems(4) [of "Suc j"] that by simp
  ultimately obtain a' where a': "trie_extend (sid ?ps (u @ [c])) w (set_next (sid ps u) c ?k (a\<lparr>acsmNumStates := ?k\<rparr>)) =
      (sid (?ps @ map (\<lambda>j. (u @ [c]) @ take (Suc j) w) [0 ..< length w]) ((u @ [c]) @ w), a')"
    "trie_rep (?ps @ map (\<lambda>j. (u @ [c]) @ take (Suc j) w) [0 ..< length w]) pats a'"
    using Cons.IH [OF n(1)] by blast
  have "map (\<lambda>j. u @ take (Suc j) (c # w)) [0 ..< length (c # w)] =
      [u @ [c]] @ map (\<lambda>j. (u @ [c]) @ take (Suc j) w) [0 ..< length w]"
    by (simp only: length_Cons upt_conv_Cons [OF zero_less_Suc] map_Suc_upt [symmetric]) (simp add: comp_def)
  then show ?case using a' n(2) by (simp add: Let_def)
qed

lemma trie_rep_match:
  assumes rep: "trie_rep ps pats a" and w: "ap_patrn p \<in> set ps"
  shows "trie_rep ps (insert p pats) (AddMatchListEntry (sid ps (ap_patrn p)) p a)"
proof -
  have s: "sid ps (ap_patrn p) \<in> states ps" by (rule sid_states [OF w])
  let ?s = "sid ps (ap_patrn p)"
  let ?a = "AddMatchListEntry ?s p a"
  have nx: "st_next ?a t c = st_next a t c" for t c by (simp add: AddMatchListEntry_def st_next_def)
  have "set (MatchList (acsmStateTable ?a t)) = own (insert p pats) (path ps t)" if t: "t \<in> states ps" for t
  proof (cases "t = ?s")
    case True
    then show ?thesis using rep s w by (auto simp: trie_rep_def AddMatchListEntry_def own_def)
  next
    case False
    then have "ap_patrn p \<noteq> path ps t" using t sid_path [of ps t] rep by (auto simp: trie_rep_def paths_ok_def)
    then show ?thesis using False rep t by (auto simp: trie_rep_def AddMatchListEntry_def own_def)
  qed
  moreover have "MatchList (acsmStateTable ?a t) = []" if "t \<notin> states ps" for t
    using that rep s by (auto simp: trie_rep_def AddMatchListEntry_def)
  ultimately show ?thesis using rep unfolding trie_rep_def nx by (simp add: AddMatchListEntry_def)
qed

lemma AddPatternStates_rep:
  assumes rep: "trie_rep ps pats a" and pats: "\<forall>q \<in> pats. ap_patrn q \<in> set ps"
  shows "trie_rep (add_word ps (ap_patrn p)) (insert p pats) (AddPatternStates p a)"
proof -
  let ?w = "ap_patrn p"
  have ok: "paths_ok ps" using rep by (simp add: trie_rep_def)
  then have nil: "[] \<in> set ps" by (simp add: paths_ok_def prefix_closed_def)
  obtain k where k: "k \<le> length ?w" "trie_match a (sid ps []) ?w = (sid ps (take k ?w), drop k ?w)"
    "\<forall>j \<le> k. take j ?w \<in> set ps" "k < length ?w \<longrightarrow> take (Suc k) ?w \<notin> set ps"
    using trie_match_rep [OF rep nil, of ?w] by auto
  have out: "take j ?w \<notin> set ps" if "k < j" "j \<le> length ?w" for j
  proof
    assume "take j ?w \<in> set ps"
    then have "take (Suc k) (take j ?w) \<in> set ps"
      using ok prefix_closed_take [of "set ps" "take j ?w" "Suc k"] by (simp add: paths_ok_def)
    then show False using that k(4) by (simp add: min_def)
  qed
  have own: "own pats (take k ?w @ take j (drop k ?w)) = {}" if "0 < j" "j \<le> length (drop k ?w)" for j
  proof -
    have "take k ?w @ take j (drop k ?w) = take (k + j) ?w" by (simp add: take_add)
    then show ?thesis using out [of "k + j"] that pats by (auto simp: own_def)
  qed
  let ?new = "map (\<lambda>j. take k ?w @ take (Suc j) (drop k ?w)) [0 ..< length (drop k ?w)]"
  have hd: "take k ?w @ [hd (drop k ?w)] \<notin> set ps" if "drop k ?w \<noteq> []"
    using out [of "Suc k"] that by (simp add: take_Suc_conv_app_nth hd_drop_conv_nth)
  obtain a' where a': "trie_extend (sid ps (take k ?w)) (drop k ?w) a =
      (sid (ps @ ?new) (take k ?w @ drop k ?w), a')" "trie_rep (ps @ ?new) pats a'"
    using trie_extend_rep [OF rep _ hd own] k(3) by blast
  have "filter (\<lambda>u. u \<notin> set ps) (map (\<lambda>k. take k ?w) [0 ..< Suc (length ?w)]) = ?new"
  proof -
    have "[0 ..< Suc (length ?w)] = [0 ..< Suc k] @ [Suc k ..< Suc (length ?w)]"
      using k(1) by (metis upt_add_eq_append le_add_diff_inverse Suc_le_mono zero_le)
    moreover have "filter (\<lambda>u. u \<notin> set ps) (map (\<lambda>k. take k ?w) [0 ..< Suc k]) = []"
      using k(3) by (auto simp: filter_empty_conv less_Suc_eq_le simp del: upt_Suc)
    moreover have "filter (\<lambda>u. u \<notin> set ps) (map (\<lambda>k. take k ?w) [Suc k ..< Suc (length ?w)]) =
        map (\<lambda>k. take k ?w) [Suc k ..< Suc (length ?w)]"
      using out by (auto simp: filter_id_conv less_Suc_eq_le simp del: upt_Suc)
    moreover have "map (\<lambda>k. take k ?w) [Suc k ..< Suc (length ?w)] = ?new"
      by (rule nth_equalityI) (use k(1) in \<open>auto simp: take_add [symmetric] simp del: upt_Suc\<close>)
    ultimately show ?thesis by (simp only: map_append filter_append append_Nil)
  qed
  then have ps: "add_word ps ?w = ps @ ?new" by (simp only: add_word_def)
  have "?w \<in> set (ps @ ?new)"
    unfolding ps [symmetric] set_add_word by (auto intro!: exI [of _ "length ?w"])
  then have "trie_rep (ps @ ?new) (insert p pats) (AddMatchListEntry (sid (ps @ ?new) ?w) p a')"
    by (rule trie_rep_match [OF a'(2)])
  then show ?thesis
    using k(2) a'(1) sid_nil [OF ok] by (simp add: AddPatternStates_def ps)
qed


lemma trie_fold_rep:
  assumes "trie_rep ps pats a" and "\<forall>q \<in> pats. ap_patrn q \<in> set ps"
  shows "trie_rep (fold (\<lambda>w ps. add_word ps w) (map ap_patrn pl) ps) (set pl \<union> pats) (fold AddPatternStates pl a)"
  using assms
proof (induction pl arbitrary: ps pats a)
  case Nil
  then show ?case by simp
next
  case (Cons p pl)
  have "ap_patrn p \<in> set (add_word ps (ap_patrn p))"
    by (auto simp: set_add_word intro: exI [of _ "length (ap_patrn p)"])
  then have "\<forall>q \<in> insert p pats. ap_patrn q \<in> set (add_word ps (ap_patrn p))"
    using Cons.prems(2) by (auto simp: set_add_word)
  from Cons.IH [OF AddPatternStates_rep [OF Cons.prems] this] show ?case by simp
qed

lemma acsm_init_rep: "trie_rep [[]] {} (acsm_init a)"
  by (auto simp: trie_rep_def acsm_init_def paths_ok_def prefix_closed_def st_next_def states_def sid_def path_def
      own_def ACSM_FAIL_STATE_def)

lemma trie_rep_all:
  "trie_rep (acsm_paths (map ap_patrn pl)) (set pl) (fold AddPatternStates pl (acsm_init a))"
  using trie_fold_rep [OF acsm_init_rep, of pl a] by (simp add: acsm_paths_def)

lemma set_all_bytes: "c \<in> set all_bytes"
proof -
  have "c = of_nat (unat c)" "unat c < 256" using unsigned_less [of c] by simp_all
  then show ?thesis unfolding all_bytes_def set_map set_upt by (metis atLeastLessThan_iff image_eqI zero_le)
qed

lemma distinct_all_bytes: "distinct all_bytes"
  unfolding all_bytes_def distinct_map
proof (intro conjI inj_onI)
  fix i j :: nat
  assume "i \<in> set [0 ..< 256]" "j \<in> set [0 ..< 256]" and eq: "of_nat i = (of_nat j :: u8)"
  then have "i < 256" "j < 256" by simp_all
  moreover have "unat (of_nat i :: u8) = unat (of_nat j :: u8)" by (simp only: eq)
  ultimately show "i = j" by (simp add: unsigned_of_nat take_bit_eq_mod)
qed simp

text \<open>The goto function: the root has a transition for every byte.\<close>

definition goto :: "u8 list list \<Rightarrow> int \<Rightarrow> u8 \<Rightarrow> int" where
  "goto ps s c = (if s = 0 \<and> [c] \<notin> set ps then 0 else sid ps (path ps s @ [c]))"

definition goto_rep :: "u8 list list \<Rightarrow> 'i ACSM_PATTERN set \<Rightarrow> ('i, 't, 'n) ACSM_STRUCT \<Rightarrow> bool" where
  "goto_rep ps pats a \<longleftrightarrow> paths_ok ps \<and> acsmNumStates a = int (length ps) - 1 \<and>
     (\<forall>s \<in> states ps. \<forall>c. st_next a s c = goto ps s c) \<and>
     (\<forall>s \<in> states ps. set (MatchList (acsmStateTable a s)) = own pats (path ps s))"

lemma root_loops_fold:
  "(\<forall>s c. st_next (fold (\<lambda>c a. if st_next a 0 c = ACSM_FAIL_STATE then set_next 0 c 0 a else a) cs a) s c =
     (if s = 0 \<and> c \<in> set cs \<and> st_next a 0 c = ACSM_FAIL_STATE then 0 else st_next a s c)) \<and>
   acsmNumStates (fold (\<lambda>c a. if st_next a 0 c = ACSM_FAIL_STATE then set_next 0 c 0 a else a) cs a) = acsmNumStates a \<and>
   (\<forall>s. MatchList (acsmStateTable (fold (\<lambda>c a. if st_next a 0 c = ACSM_FAIL_STATE then set_next 0 c 0 a else a) cs a) s) =
     MatchList (acsmStateTable a s))"
proof (induction cs arbitrary: a)
  case Nil
  then show ?case by simp
next
  case (Cons d cs)
  have nx: "st_next (if st_next a 0 d = ACSM_FAIL_STATE then set_next 0 d 0 a else a) s c =
      (if s = 0 \<and> c = d \<and> st_next a 0 c = ACSM_FAIL_STATE then 0 else st_next a s c)" for s c
    by (auto simp: st_next_def set_next_def)
  have zero: "(0 :: int) \<noteq> ACSM_FAIL_STATE" by (simp add: ACSM_FAIL_STATE_def)
  have rest: "acsmNumStates (if st_next a 0 d = ACSM_FAIL_STATE then set_next 0 d 0 a else a) = acsmNumStates a"
    "MatchList (acsmStateTable (if st_next a 0 d = ACSM_FAIL_STATE then set_next 0 d 0 a else a) s) =
      MatchList (acsmStateTable a s)" for s
    by (simp_all add: set_next_def)
  show ?case
    using Cons.IH [of "if st_next a 0 d = ACSM_FAIL_STATE then set_next 0 d 0 a else a"] zero
    unfolding fold_simps nx rest by auto
qed

lemma root_loops_rep:
  assumes rep: "trie_rep ps pats a"
  shows "goto_rep ps pats (root_loops a)"
proof -
  have ok: "paths_ok ps" using rep by (simp add: trie_rep_def)
  then have z: "0 \<in> states ps" "path ps 0 = []" by (auto simp: paths_ok_def states_def path_def)
  have "st_next (root_loops a) s c = goto ps s c" if "s \<in> states ps" for s c
    using root_loops_fold [of all_bytes a] that rep z set_all_bytes
    by (auto simp: root_loops_def goto_def trie_rep_def sid_fail)
  then show ?thesis using root_loops_fold [of all_bytes a] rep
    by (simp add: root_loops_def goto_rep_def trie_rep_def)
qed

subsection \<open>The queue visits every state once, by depth\<close>

locale bfs_tree =
  fixes root :: int and V :: "int set" and ch :: "int \<Rightarrow> int list" and dep :: "int \<Rightarrow> nat"
  assumes fin: "finite V" and root: "root \<notin> V"
    and ch_mem: "r \<in> insert root V \<Longrightarrow> s \<in> set (ch r) \<Longrightarrow> s \<in> V"
    and ch_dep: "r \<in> insert root V \<Longrightarrow> s \<in> set (ch r) \<Longrightarrow> dep s = Suc (dep r)"
    and ch_distinct: "r \<in> insert root V \<Longrightarrow> distinct (ch r)"
    and ch_parent: "r \<in> insert root V \<Longrightarrow> r' \<in> insert root V \<Longrightarrow> s \<in> set (ch r) \<Longrightarrow> s \<in> set (ch r') \<Longrightarrow> r = r'"
    and ch_all: "s \<in> V \<Longrightarrow> \<exists>r \<in> insert root V. s \<in> set (ch r)"
begin

definition at :: "int set \<Rightarrow> int list \<Rightarrow> bool" where
  "at don q \<longleftrightarrow> distinct q \<and> set q \<subseteq> V \<and> don \<subseteq> V \<and> set q \<inter> don = {} \<and>
     (\<forall>r \<in> insert root V. \<forall>s \<in> set (ch r). s \<in> don \<union> set q \<longleftrightarrow> r \<in> insert root don) \<and>
     sorted (map dep q) \<and> (\<forall>s \<in> set q. dep s \<le> Suc (dep (hd q)))"

lemma at_start: "at {} (ch root)"
proof -
  have d: "dep s = Suc (dep root)" if "s \<in> set (ch root)" for s using ch_dep [of root s] that by simp
  have "dep s \<le> Suc (dep (hd (ch root)))" if "s \<in> set (ch root)" for s
    using d [OF that] d [of "hd (ch root)"] that by (cases "ch root") auto
  moreover have "sorted (map dep (ch root))"
    using d by (simp add: sorted_map sorted_wrt_iff_nth_less)
  moreover have "r = root" if "r \<in> insert root V" "s \<in> set (ch r)" "s \<in> set (ch root)" for r s
    using ch_parent [OF that(1) _ that(2,3)] by simp
  ultimately show ?thesis
    using ch_mem [of root] ch_distinct [of root] by (auto simp: at_def)
qed

lemma at_shallow:
  assumes "at don (r # q)"
  shows "v \<in> V \<Longrightarrow> dep v < dep r \<Longrightarrow> v \<in> don"
proof (induction "dep v" arbitrary: v rule: less_induct)
  case less
  obtain p where p: "p \<in> insert root V" "v \<in> set (ch p)" using ch_all [OF less.prems(1)] by blast
  have "p \<in> insert root don"
  proof (cases "p = root")
    case False
    then show ?thesis using less.hyps [of p] less.prems(2) p ch_dep [OF p] by auto
  qed simp
  then have "v \<in> don \<union> set (r # q)" using assms p unfolding at_def by blast
  moreover have "dep r \<le> dep s" if "s \<in> set (r # q)" for s
    using assms that by (auto simp: at_def)
  ultimately show ?case using less.prems(2) by fastforce
qed

lemma at_step:
  assumes at: "at don (r # q)"
  shows "at (insert r don) (q @ ch r)"
proof -
  have r: "r \<in> V" "r \<notin> don" "r \<notin> set q" using at by (auto simp: at_def)
  have kids: "s \<in> don \<union> set (r # q) \<longleftrightarrow> p \<in> insert root don" if "p \<in> insert root V" "s \<in> set (ch p)" for p s
  proof -
    have "\<forall>p \<in> insert root V. \<forall>s \<in> set (ch p). s \<in> don \<union> set (r # q) \<longleftrightarrow> p \<in> insert root don"
      using at unfolding at_def by (elim conjE)
    then show ?thesis using that by blast
  qed
  have new: "s \<notin> don \<union> set (r # q)" if "s \<in> set (ch r)" for s
    using kids [of r s] that r root by auto
  have dq: "dep r \<le> dep s \<and> dep s \<le> Suc (dep r)" if "s \<in> set q" for s
    using at that by (auto simp: at_def)
  have dc: "dep s = Suc (dep r)" if "s \<in> set (ch r)" for s
    using ch_dep [of r s] r that by simp
  have all: "dep r \<le> dep s \<and> dep s \<le> Suc (dep r)" if "s \<in> set (q @ ch r)" for s
    using that dq dc by auto
  have par: "s \<in> insert r don \<union> set (q @ ch r) \<longleftrightarrow> p \<in> insert root (insert r don)"
    if p: "p \<in> insert root V" "s \<in> set (ch p)" for p s
  proof (cases "p = r")
    case True
    then show ?thesis using p by simp
  next
    case False
    then have "s \<notin> set (ch r)" using ch_parent [of p r s] p r by auto
    moreover have "s \<in> don \<union> set (r # q) \<longleftrightarrow> p \<in> insert root don" using kids p by simp
    ultimately show ?thesis using False by auto
  qed
  have srt: "sorted (map dep (q @ ch r))"
  proof -
    have "sorted (map dep q)" using at by (simp add: at_def)
    moreover have "sorted (map dep (ch r))" using dc by (simp add: sorted_map sorted_wrt_iff_nth_less)
    moreover have "\<forall>x \<in> set q. \<forall>y \<in> set (ch r). dep x \<le> dep y" using dq dc by auto
    ultimately show ?thesis by (simp add: sorted_append)
  qed
  have top: "dep s \<le> Suc (dep (hd (q @ ch r)))" if "s \<in> set (q @ ch r)" for s
  proof -
    have "hd (q @ ch r) \<in> set (q @ ch r)" using that by (intro list.set_sel(1)) auto
    then show ?thesis using all [OF that] all [of "hd (q @ ch r)"] by simp
  qed
  have q: "distinct q" "set q \<subseteq> V" "don \<subseteq> V" "set q \<inter> don = {}" using at by (auto simp: at_def)
  have "distinct (q @ ch r)" using q(1) new ch_distinct [of r] r by auto
  moreover have "set (q @ ch r) \<subseteq> V" using q(2) ch_mem [of r] r by auto
  moreover have "insert r don \<subseteq> V" using q(3) r by simp
  moreover have "set (q @ ch r) \<inter> insert r don = {}" using q(4) new r by auto
  ultimately show ?thesis unfolding at_def using par srt top by simp
qed

lemma at_end: "at don [] \<Longrightarrow> don = V"
proof -
  assume at: "at don []"
  have "v \<in> don" if "v \<in> V" for v
    using that
  proof (induction "dep v" arbitrary: v rule: less_induct)
    case less
    obtain p where p: "p \<in> insert root V" "v \<in> set (ch p)" using ch_all [OF less.prems] by blast
    have "p \<in> insert root don" using less.hyps [of p] p ch_dep [OF p] by (cases "p = root") auto
    then show ?case using at p by (auto simp: at_def)
  qed
  then show ?thesis using at by (auto simp: at_def)
qed

lemma loop_run:
  assumes step: "\<And>don r a. don \<subseteq> V \<Longrightarrow> r \<in> V \<Longrightarrow> r \<notin> don \<Longrightarrow> \<forall>v \<in> V. dep v < dep r \<longrightarrow> v \<in> don \<Longrightarrow>
      \<forall>v \<in> V. dep v \<le> dep r \<longrightarrow> (\<exists>p \<in> insert root don. v \<in> set (ch p)) \<Longrightarrow> I don a \<Longrightarrow>
      \<exists>a'. step r a = Some (a', ch r) \<and> I (insert r don) a'"
  shows "at don q \<Longrightarrow> I don a \<Longrightarrow> card V \<le> n + card don \<Longrightarrow> \<exists>a'. queue_loop n step q a = Some a' \<and> I V a'"
proof (induction n arbitrary: don q a)
  case 0
  have "don \<subseteq> V" using 0 by (simp add: at_def)
  then have "don = V" using 0 fin by (simp add: card_seteq)
  then have "q = []" using 0 by (cases q) (auto simp: at_def)
  then show ?case using 0 \<open>don = V\<close> by auto
next
  case (Suc n)
  show ?case
  proof (cases q)
    case Nil
    then show ?thesis using Suc.prems at_end by auto
  next
    case (Cons r q')
    have at: "at don (r # q')" using Suc.prems Cons by simp
    then have r: "don \<subseteq> V" "r \<in> V" "r \<notin> don" by (auto simp: at_def)
    have sh: "\<forall>v \<in> V. dep v < dep r \<longrightarrow> v \<in> don" using at_shallow [OF at] by blast
    have par: "\<exists>p \<in> insert root don. v \<in> set (ch p)" if v: "v \<in> V" "dep v \<le> dep r" for v
    proof -
      obtain p where p: "p \<in> insert root V" "v \<in> set (ch p)" using ch_all [OF v(1)] by blast
      then have "p \<in> insert root don" using sh ch_dep [OF p] v(2) by auto
      then show ?thesis using p by blast
    qed
    obtain a' where a': "step r a = Some (a', ch r)" "I (insert r don) a'"
      using step [OF r sh] par Suc.prems(2) by blast
    have "card (insert r don) = Suc (card don)" using r fin by (simp add: finite_subset)
    then have "\<exists>a''. queue_loop n step (q' @ ch r) a' = Some a'' \<and> I V a''"
      using Suc.IH [OF at_step [OF at] a'(2)] Suc.prems(3) by simp
    then show ?thesis using Cons a'(1) by simp
  qed
qed

end

end
