(* ===== verification/AcsmDfa.thy ===== *)
theory AcsmDfa
  imports AcsmTrie
begin

text \<open>
  The failure states, the transition table and the search of \<open>Acsm\<close>: each is what the longest
  suffix that is a path says, and so the compiled machine reports exactly the patterns that a
  comparison at every position finds.
\<close>

subsection \<open>The trie as a tree\<close>

definition inner :: "u8 list list \<Rightarrow> int set" where
  "inner ps = states ps - {0}"

definition kids :: "u8 list list \<Rightarrow> int \<Rightarrow> u8 list \<Rightarrow> int list" where
  "kids ps r cs = map (\<lambda>c. sid ps (path ps r @ [c])) (filter (\<lambda>c. path ps r @ [c] \<in> set ps) cs)"

definition depth :: "u8 list list \<Rightarrow> int \<Rightarrow> nat" where
  "depth ps s = length (path ps s)"

lemma kids_mem:
  "s \<in> set (kids ps r cs) \<longleftrightarrow> (\<exists>c \<in> set cs. path ps r @ [c] \<in> set ps \<and> s = sid ps (path ps r @ [c]))"
  by (auto simp: kids_def)

lemma kids_path: "s \<in> set (kids ps r cs) \<Longrightarrow> \<exists>c \<in> set cs. path ps s = path ps r @ [c] \<and> path ps s \<in> set ps"
  by (auto simp: kids_mem)

lemma states_0: "paths_ok ps \<Longrightarrow> 0 \<in> states ps"
  by (auto simp: paths_ok_def states_def)

lemma inner_path: "paths_ok ps \<Longrightarrow> s \<in> states ps \<Longrightarrow> s \<in> inner ps \<longleftrightarrow> path ps s \<noteq> []"
  using sid_path [of ps s] sid_nil [of ps] path_0 [of ps] by (auto simp: inner_def paths_ok_def)

lemma trie_bfs:
  assumes ok: "paths_ok ps"
  shows "bfs_tree 0 (inner ps) (\<lambda>r. kids ps r all_bytes) (depth ps)"
proof
  have dis: "distinct ps" using ok by (simp add: paths_ok_def)
  have st: "r \<in> states ps" if "r \<in> insert 0 (inner ps)" for r
    using that states_0 [OF ok] by (auto simp: inner_def)
  show "finite (inner ps)" by (simp add: inner_def states_def)
  show "0 \<notin> inner ps" by (simp add: inner_def)
  fix r s
  assume r: "r \<in> insert 0 (inner ps)"
  show "distinct (kids ps r all_bytes)"
    unfolding kids_def distinct_map
    by (auto intro!: distinct_filter distinct_all_bytes inj_onI simp: sid_inj)
  assume s: "s \<in> set (kids ps r all_bytes)"
  obtain c where c: "path ps s = path ps r @ [c]" "path ps r @ [c] \<in> set ps" "s = sid ps (path ps r @ [c])"
    using s by (auto simp: kids_mem)
  have ss: "s \<in> states ps" unfolding c(3) by (rule sid_states [OF c(2)])
  then show "s \<in> inner ps" using inner_path [OF ok] c(1) by simp
  show "depth ps s = Suc (depth ps r)" using c(1) by (simp add: depth_def)
  fix r'
  assume r': "r' \<in> insert 0 (inner ps)" and s': "s \<in> set (kids ps r' all_bytes)"
  obtain d where "path ps s = path ps r' @ [d]" using kids_path [OF s'] by auto
  then have "path ps r = path ps r'" using c(1) by simp
  then have "sid ps (path ps r) = sid ps (path ps r')" by (rule arg_cong)
  then show "r = r'" unfolding sid_path [OF dis st [OF r]] sid_path [OF dis st [OF r']] .
next
  fix s
  assume s: "s \<in> inner ps"
  then have ss: "s \<in> states ps" by (simp add: inner_def)
  then have "path ps s \<noteq> []" using s inner_path [OF ok] by simp
  then obtain u c where u: "path ps s = u @ [c]" by (cases "path ps s" rule: rev_cases) auto
  have mem: "u @ [c] \<in> set ps" using path_mem [OF ss] u by simp
  then have "u \<in> set ps" using ok by (auto simp: paths_ok_def prefix_closed_def)
  then have "sid ps u \<in> insert 0 (inner ps)" "path ps (sid ps u) = u"
    using sid_states [of u ps] by (auto simp: inner_def)
  moreover have "s = sid ps (u @ [c])" using sid_path [of ps s] ss u ok by (simp add: paths_ok_def)
  ultimately show "\<exists>r \<in> insert 0 (inner ps). s \<in> set (kids ps r all_bytes)"
    using mem set_all_bytes [of c] by (intro bexI [of _ "sid ps u"]) (auto simp: kids_mem)
qed

interpretation trie: bfs_tree 0 "inner (acsm_paths ws)" "\<lambda>r. kids (acsm_paths ws) r all_bytes" "depth (acsm_paths ws)"
  for ws
  by (rule trie_bfs [OF acsm_paths_ok])

subsection \<open>The failure function\<close>

definition hit :: "'i ACSM_PATTERN set \<Rightarrow> u8 list \<Rightarrow> 'i ACSM_PATTERN set" where
  "hit pats w = {p \<in> pats. suffix (ap_patrn p) w}"

definition pats_ok :: "u8 list list \<Rightarrow> 'i ACSM_PATTERN set \<Rightarrow> bool" where
  "pats_ok ps pats \<longleftrightarrow> (\<forall>p \<in> pats. ap_patrn p \<noteq> [] \<and> ap_patrn p \<in> set ps)"

lemma hit_lsuf: "pats_ok ps pats \<Longrightarrow> hit pats (lsuf (set ps) w) = hit pats w"
  by (auto simp: hit_def pats_ok_def lsuf_suffix_iff)

lemma hit_nil: "pats_ok ps pats \<Longrightarrow> hit pats [] = {}"
  by (auto simp: hit_def pats_ok_def)

lemma hit_step: "pats_ok ps pats \<Longrightarrow> w \<noteq> [] \<Longrightarrow> hit pats w = own pats w \<union> hit pats (tl w)"
  by (cases w) (auto simp: hit_def own_def suffix_Cons pats_ok_def)

definition fail_of :: "u8 list list \<Rightarrow> int \<Rightarrow> int" where
  "fail_of ps s = sid ps (lsuf (set ps) (tl (path ps s)))"

definition nfa_inv :: "u8 list list \<Rightarrow> 'i ACSM_PATTERN set \<Rightarrow> int set \<Rightarrow> ('i, 't, 'n) ACSM_STRUCT \<Rightarrow> bool" where
  "nfa_inv ps pats A a \<longleftrightarrow> acsmNumStates a = int (length ps) - 1 \<and>
     (\<forall>s \<in> states ps. \<forall>c. st_next a s c = goto ps s c) \<and>
     (\<forall>s \<in> states ps. if s \<in> A
        then FailState (acsmStateTable a s) = fail_of ps s \<and> set (MatchList (acsmStateTable a s)) = hit pats (path ps s)
        else set (MatchList (acsmStateTable a s)) = own pats (path ps s))"

lemma copy_matches_eq:
  assumes "from \<noteq> to"
  shows "acsmStateTable (copy_matches from to a) = (acsmStateTable a)(to := (acsmStateTable a to)\<lparr>MatchList :=
     rev (MatchList (acsmStateTable a from)) @ MatchList (acsmStateTable a to)\<rparr>)"
    and "acsmNumStates (copy_matches from to a) = acsmNumStates a"
proof -
  have "acsmStateTable (fold (AddMatchListEntry to) ms a) = (acsmStateTable a)(to := (acsmStateTable a to)\<lparr>MatchList :=
     rev ms @ MatchList (acsmStateTable a to)\<rparr>) \<and> acsmNumStates (fold (AddMatchListEntry to) ms a) = acsmNumStates a" for ms
    by (induction ms arbitrary: a) (simp_all add: AddMatchListEntry_def)
  then show "acsmStateTable (copy_matches from to a) = (acsmStateTable a)(to := (acsmStateTable a to)\<lparr>MatchList :=
     rev (MatchList (acsmStateTable a from)) @ MatchList (acsmStateTable a to)\<rparr>)"
    "acsmNumStates (copy_matches from to a) = acsmNumStates a"
    by (simp_all add: copy_matches_def)
qed

lemma lsuf_shift:
  assumes ok: "paths_ok ps" and "w @ [c] \<notin> set ps" and "w \<noteq> []"
  shows "lsuf (set ps) (w @ [c]) = lsuf (set ps) (lsuf (set ps) (tl w) @ [c])"
proof -
  have "lsuf (set ps) (w @ [c]) = lsuf (set ps) (tl w @ [c])"
    using assms lsuf_tl [of "w @ [c]" "set ps"] by (simp add: paths_ok_def prefix_closed_def)
  then show ?thesis using ok lsuf_snoc [of "set ps" "tl w" c] by (simp add: paths_ok_def)
qed

lemma fail_walk_run:
  assumes ok: "paths_ok ps" and inv: "nfa_inv ps pats A a"
    and all: "\<forall>v \<in> inner ps. depth ps v \<le> d \<longrightarrow> v \<in> A"
  shows "w \<in> set ps \<Longrightarrow> length w \<le> d \<Longrightarrow> length w < n \<Longrightarrow>
    fail_walk n a (sid ps w) c = Some (sid ps (lsuf (set ps) (w @ [c])))"
proof (induction n arbitrary: w)
  case 0
  then show ?case by simp
next
  case (Suc n)
  have nil: "[] \<in> set ps" using ok by (simp add: paths_ok_def prefix_closed_def)
  have s: "sid ps w \<in> states ps" by (rule sid_states [OF Suc.prems(1)])
  have nx: "st_next a (sid ps w) c = goto ps (sid ps w) c" using inv s by (simp add: nfa_inv_def)
  show ?case
  proof (cases "w @ [c] \<in> set ps")
    case True
    then have "goto ps (sid ps w) c = sid ps (w @ [c])"
      using Suc.prems(1) sid_nil [OF ok] sid_inj [OF Suc.prems(1), of "[]"] by (auto simp: goto_def)
    then show ?thesis using nx True lsuf_id [OF True] by (simp add: sid_fail)
  next
    case False
    show ?thesis
    proof (cases "w = []")
      case True
      then have "goto ps (sid ps w) c = 0" using False sid_nil [OF ok] by (simp add: goto_def)
      then show ?thesis using nx True False sid_nil [OF ok] by (simp add: ACSM_FAIL_STATE_def)
    next
      case wne: False
      have inn: "sid ps w \<in> inner ps" using inner_path [OF ok s] Suc.prems(1) wne by simp
      then have nz: "sid ps w \<noteq> 0" by (simp add: inner_def)
      have g: "goto ps (sid ps w) c = ACSM_FAIL_STATE"
        using nz Suc.prems(1) False by (simp add: goto_def sid_fail)
      have "sid ps w \<in> A" using all inn Suc.prems(1,2) by (simp add: depth_def)
      then have f: "FailState (acsmStateTable a (sid ps w)) = sid ps (lsuf (set ps) (tl w))"
        using inv s Suc.prems(1) by (auto simp: nfa_inv_def fail_of_def)
      have "length (lsuf (set ps) (tl w)) < length w"
        using lsuf_length [of "set ps" "tl w"] wne by (cases w) auto
      then have "fail_walk n a (sid ps (lsuf (set ps) (tl w))) c =
          Some (sid ps (lsuf (set ps) (lsuf (set ps) (tl w) @ [c])))"
        using Suc.prems by (intro Suc.IH lsuf_mem [OF nil]) auto
      then show ?thesis using nx g f lsuf_shift [OF ok False wne] by simp
    qed
  qed
qed


lemma goto_kid: "r \<in> inner ps \<Longrightarrow> goto ps r c = sid ps (path ps r @ [c])"
  by (simp add: goto_def inner_def)

lemma nfa_row_run:
  assumes ok: "paths_ok ps" and pats: "pats_ok ps pats" and r: "r \<in> inner ps" and fuel: "length ps < n"
  shows "nfa_inv ps pats A a \<Longrightarrow> (\<forall>v \<in> inner ps. depth ps v \<le> depth ps r \<longrightarrow> v \<in> A) \<Longrightarrow> distinct cs \<Longrightarrow>
    (\<forall>s \<in> set (kids ps r cs). s \<notin> A) \<Longrightarrow>
    \<exists>a'. nfa_row n r cs a = Some (a', kids ps r cs) \<and> nfa_inv ps pats (A \<union> set (kids ps r cs)) a'"
proof (induction cs arbitrary: A a)
  case Nil
  then show ?case by (simp add: kids_def)
next
  case (Cons c cs)
  have rs: "r \<in> states ps" using r by (simp add: inner_def)
  have nx: "st_next a r c = sid ps (path ps r @ [c])"
    using Cons.prems(1) rs goto_kid [OF r] by (simp add: nfa_inv_def)
  show ?case
  proof (cases "path ps r @ [c] \<in> set ps")
    case False
    then have "kids ps r (c # cs) = kids ps r cs" by (simp add: kids_def)
    then show ?thesis using Cons.IH [OF Cons.prems(1,2)] Cons.prems(3,4) nx False by (simp add: sid_fail)
  next
    case True
    let ?s = "sid ps (path ps r @ [c])"
    let ?v = "lsuf (set ps) (tl (path ps r) @ [c])"
    have nil: "[] \<in> set ps" using ok by (simp add: paths_ok_def prefix_closed_def)
    have kids: "kids ps r (c # cs) = ?s # kids ps r cs" using True by (simp add: kids_def)
    have ss: "?s \<in> states ps" by (rule sid_states [OF True])
    have rne: "path ps r \<noteq> []" using r inner_path [OF ok rs] by simp
    have sA: "?s \<notin> A" using Cons.prems(4) kids by simp
    have rA: "r \<in> A" using Cons.prems(2) r by simp
    have fr: "FailState (acsmStateTable a r) = sid ps (lsuf (set ps) (tl (path ps r)))"
      using Cons.prems(1) rs rA by (auto simp: nfa_inv_def fail_of_def)
    have ps_len: "length (path ps r) \<le> length ps"
    proof -
      have "inj_on (\<lambda>k. take k (path ps r)) {0 ..< Suc (length (path ps r))}"
        by (rule inj_onI) (metis atLeastLessThan_iff length_take less_Suc_eq_le min.absorb2)
      moreover have "(\<lambda>k. take k (path ps r)) ` {0 ..< Suc (length (path ps r))} \<subseteq> set ps"
        using prefix_closed_take [of "set ps" "path ps r"] path_mem [OF rs] ok by (auto simp: paths_ok_def)
      ultimately have "card {0 ..< Suc (length (path ps r))} \<le> card (set ps)"
        by (intro card_inj_on_le) auto
      then show ?thesis using card_length [of ps] by simp
    qed
    have "length (lsuf (set ps) (tl (path ps r))) \<le> length (tl (path ps r))" by (rule lsuf_length)
    then have len: "length (lsuf (set ps) (tl (path ps r))) \<le> depth ps r" "length (lsuf (set ps) (tl (path ps r))) < n"
      using ps_len fuel by (auto simp: depth_def)
    have "fail_walk n a (sid ps (lsuf (set ps) (tl (path ps r)))) c =
        Some (sid ps (lsuf (set ps) (lsuf (set ps) (tl (path ps r)) @ [c])))"
      by (rule fail_walk_run [OF ok Cons.prems(1,2) lsuf_mem [OF nil] len])
    then have fw: "fail_walk n a (FailState (acsmStateTable a r)) c = Some (sid ps ?v)"
      using fr lsuf_snoc [of "set ps" "tl (path ps r)" c] ok by (simp add: paths_ok_def)
    have v: "?v \<in> set ps" by (rule lsuf_mem [OF nil])
    have vlen: "length ?v \<le> length (path ps r)" using lsuf_length [of "set ps" "tl (path ps r) @ [c]"] rne by simp
    then have vne: "sid ps ?v \<noteq> ?s" using sid_inj [OF v, of "path ps r @ [c]"] by auto
    have vs: "sid ps ?v \<in> states ps" by (rule sid_states [OF v])
    have mv: "set (MatchList (acsmStateTable a (sid ps ?v))) = hit pats ?v"
    proof (cases "?v = []")
      case True
      then have "set (MatchList (acsmStateTable a (sid ps ?v))) \<subseteq> own pats [] \<union> hit pats []"
        using Cons.prems(1) vs v path_sid [OF v] by (auto simp: nfa_inv_def split: if_splits)
      moreover have "own pats [] = {}" using pats by (auto simp: own_def pats_ok_def)
      ultimately show ?thesis using True by (simp add: hit_nil [OF pats])
    next
      case False
      then have "sid ps ?v \<in> inner ps" using inner_path [OF ok vs] v by simp
      then have "sid ps ?v \<in> A" using Cons.prems(2) vlen v by (simp add: depth_def)
      then show ?thesis using Cons.prems(1) vs v by (auto simp: nfa_inv_def)
    qed
    have ms: "set (MatchList (acsmStateTable a ?s)) = own pats (path ps r @ [c])"
      using Cons.prems(1) ss sA True by (auto simp: nfa_inv_def)
    let ?b = "copy_matches (sid ps ?v) ?s (set_fail ?s (sid ps ?v) a)"
    note cp = copy_matches_eq [OF vne]
    have tl: "tl (path ps r @ [c]) = tl (path ps r) @ [c]" using rne by simp
    have hitv: "hit pats ?v = hit pats (tl (path ps r @ [c]))" using hit_lsuf [OF pats] tl by metis
    have "nfa_inv ps pats (insert ?s A) ?b"
      unfolding nfa_inv_def
    proof (intro conjI ballI allI)
      show "acsmNumStates ?b = int (length ps) - 1"
        unfolding cp(2) using Cons.prems(1) by (simp add: nfa_inv_def set_fail_def)
    next
      fix t d
      assume "t \<in> states ps"
      moreover have "st_next ?b t d = st_next a t d" by (simp add: st_next_def cp(1) set_fail_def)
      ultimately show "st_next ?b t d = goto ps t d" using Cons.prems(1) by (simp add: nfa_inv_def)
    next
      fix t
      assume t: "t \<in> states ps"
      show "if t \<in> insert ?s A
        then FailState (acsmStateTable ?b t) = fail_of ps t \<and> set (MatchList (acsmStateTable ?b t)) = hit pats (path ps t)
        else set (MatchList (acsmStateTable ?b t)) = own pats (path ps t)"
      proof (cases "t = ?s")
        case t': True
        have "FailState (acsmStateTable ?b ?s) = fail_of ps ?s"
          using True by (simp add: cp(1) set_fail_def fail_of_def tl)
        moreover have "set (MatchList (acsmStateTable ?b ?s)) = hit pats (path ps ?s)"
          using True mv ms vne hitv hit_step [OF pats, of "path ps r @ [c]"]
          by (auto simp: cp(1) set_fail_def)
        ultimately show ?thesis using t' by simp
      next
        case False
        then show ?thesis using Cons.prems(1) t by (auto simp: nfa_inv_def cp(1) set_fail_def)
      qed
    qed
    moreover have "\<forall>t \<in> set (kids ps r cs). t \<notin> insert ?s A"
      using Cons.prems(3,4) kids True by (auto simp: kids_mem sid_inj)
    ultimately obtain a' where a': "nfa_row n r cs ?b = Some (a', kids ps r cs)"
      "nfa_inv ps pats (insert ?s A \<union> set (kids ps r cs)) a'"
      using Cons.IH [of "insert ?s A" ?b] Cons.prems(2,3) by auto
    have "nfa_row n r (c # cs) a = Some (a', ?s # kids ps r cs)"
      using nx True fw a'(1) by (simp add: Let_def sid_fail)
    moreover have "insert ?s A \<union> set (kids ps r cs) = A \<union> set (?s # kids ps r cs)" by auto
    ultimately show ?thesis using a'(2) unfolding kids by simp
  qed
qed


definition assigned :: "u8 list list \<Rightarrow> int set \<Rightarrow> int set" where
  "assigned ps don = {s. \<exists>r \<in> insert 0 don. s \<in> set (kids ps r all_bytes)}"

lemma root_queue_kids:
  assumes ok: "paths_ok ps" and st: "\<forall>c. st_next a 0 c = goto ps 0 c"
  shows "root_queue a = kids ps 0 all_bytes"
proof -
  have "filter (\<lambda>s. s \<noteq> 0) (map (st_next a 0) cs) = kids ps 0 cs" for cs
  proof (induction cs)
    case Nil
    then show ?case by (simp add: kids_def)
  next
    case (Cons c cs)
    have "sid ps [c] \<noteq> 0" if "[c] \<in> set ps" using that sid_inj [of "[c]" ps "[]"] sid_nil [OF ok] by auto
    then show ?case using Cons st path_0 [OF ok] by (simp add: kids_def goto_def)
  qed
  then show ?thesis by (simp add: root_queue_def)
qed

lemma set_fail_fold:
  "acsmNumStates (fold (\<lambda>s. set_fail s 0) ss a) = acsmNumStates a \<and>
   st_next (fold (\<lambda>s. set_fail s 0) ss a) t c = st_next a t c \<and>
   MatchList (acsmStateTable (fold (\<lambda>s. set_fail s 0) ss a) t) = MatchList (acsmStateTable a t) \<and>
   FailState (acsmStateTable (fold (\<lambda>s. set_fail s 0) ss a) t) =
     (if t \<in> set ss then 0 else FailState (acsmStateTable a t))"
  by (induction ss arbitrary: a) (auto simp: set_fail_def st_next_def)

lemma card_inner: "paths_ok ps \<Longrightarrow> card (inner ps) < length ps"
  using states_0 [of ps] by (auto simp: inner_def states_def card_Diff_singleton paths_ok_def)

lemma Build_NFA_run:
  fixes a :: "('i, 't, 'n) ACSM_STRUCT"
  assumes rep: "goto_rep (acsm_paths ws) pats a" and pats: "pats_ok (acsm_paths ws) pats"
    and fuel: "length (acsm_paths ws) < n"
  shows "\<exists>a'. Build_NFA n a = Some a' \<and> nfa_inv (acsm_paths ws) pats (inner (acsm_paths ws)) a'"
proof -
  let ?ps = "acsm_paths ws"
  have ok: "paths_ok ?ps" by (rule acsm_paths_ok)
  define I :: "int set \<Rightarrow> ('i, 't, 'n) ACSM_STRUCT \<Rightarrow> bool" where "I = (\<lambda>don. nfa_inv ?ps pats (assigned ?ps don))"
  have q: "root_queue a = kids ?ps 0 all_bytes"
    by (rule root_queue_kids [OF ok]) (use rep states_0 [OF ok] in \<open>simp add: goto_rep_def\<close>)
  let ?a = "fold (\<lambda>s. set_fail s 0) (kids ?ps 0 all_bytes) a"
  have init: "I {} ?a"
    unfolding I_def nfa_inv_def
  proof (intro conjI ballI allI)
    show "acsmNumStates ?a = int (length ?ps) - 1" using rep set_fail_fold [of _ a] by (simp add: goto_rep_def)
  next
    fix s c
    assume "s \<in> states ?ps"
    then show "st_next ?a s c = goto ?ps s c" using rep set_fail_fold [of _ a] by (simp add: goto_rep_def)
  next
    fix s
    assume s: "s \<in> states ?ps"
    have ml: "set (MatchList (acsmStateTable ?a s)) = own pats (path ?ps s)"
      using rep s set_fail_fold [of _ a] by (simp add: goto_rep_def)
    have "fail_of ?ps s = 0 \<and> hit pats (path ?ps s) = own pats (path ?ps s)" if sa: "s \<in> assigned ?ps {}"
    proof -
      obtain c where c: "path ?ps s = [c]" using sa path_0 [OF ok] by (auto simp: assigned_def kids_mem)
      then show ?thesis using sid_nil [OF ok] hit_step [OF pats, of "[c]"] hit_nil [OF pats] by (simp add: fail_of_def)
    qed
    moreover have "FailState (acsmStateTable ?a s) = 0" if "s \<in> assigned ?ps {}"
      using that set_fail_fold [of "kids ?ps 0 all_bytes" a] by (simp add: assigned_def)
    ultimately show "if s \<in> assigned ?ps {}
        then FailState (acsmStateTable ?a s) = fail_of ?ps s \<and> set (MatchList (acsmStateTable ?a s)) = hit pats (path ?ps s)
        else set (MatchList (acsmStateTable ?a s)) = own pats (path ?ps s)"
      using ml by simp
  qed
  have step: "\<exists>a'. nfa_row n r all_bytes b = Some (a', kids ?ps r all_bytes) \<and> I (insert r don) a'"
    if "don \<subseteq> inner ?ps" "r \<in> inner ?ps" "r \<notin> don"
      and "\<forall>v \<in> inner ?ps. depth ?ps v \<le> depth ?ps r \<longrightarrow> (\<exists>p \<in> insert 0 don. v \<in> set (kids ?ps p all_bytes))"
      and inv: "I don b" for don r b
  proof -
    have new: "\<forall>s \<in> set (kids ?ps r all_bytes). s \<notin> assigned ?ps don"
    proof (rule ballI, rule notI)
      fix s
      assume s: "s \<in> set (kids ?ps r all_bytes)" and "s \<in> assigned ?ps don"
      then obtain p where "p \<in> insert 0 don" "s \<in> set (kids ?ps p all_bytes)" by (auto simp: assigned_def)
      then have "p = r" using trie.ch_parent [of p ws r s] s that(1,2) by auto
      then show False using \<open>p \<in> insert 0 don\<close> that(2,3) by (auto simp: inner_def)
    qed
    have "\<forall>v \<in> inner ?ps. depth ?ps v \<le> depth ?ps r \<longrightarrow> v \<in> assigned ?ps don"
      using that(4) by (auto simp: assigned_def)
    moreover have "assigned ?ps don \<union> set (kids ?ps r all_bytes) = assigned ?ps (insert r don)"
      by (auto simp: assigned_def)
    ultimately show ?thesis
      using nfa_row_run [OF ok pats that(2) fuel inv [unfolded I_def] _ distinct_all_bytes new] by (simp add: I_def)
  qed
  have "\<exists>a'. queue_loop n (\<lambda>r. nfa_row n r all_bytes) (kids ?ps 0 all_bytes) ?a = Some a' \<and> I (inner ?ps) a'"
    by (rule trie.loop_run [where don = "{}"]) (use step trie.at_start init card_inner [OF ok] fuel in auto)
  moreover have "s \<in> assigned ?ps (inner ?ps) \<longleftrightarrow> s \<in> inner ?ps" for s
    using trie.ch_all [of s ws] trie.ch_mem [of _ ws s] by (auto simp: assigned_def)
  then have "assigned ?ps (inner ?ps) = inner ?ps" by blast
  ultimately show ?thesis by (simp add: Build_NFA_def Let_def q I_def)
qed


subsection \<open>The transition table\<close>

definition delta :: "u8 list list \<Rightarrow> int \<Rightarrow> u8 \<Rightarrow> int" where
  "delta ps s c = sid ps (lsuf (set ps) (path ps s @ [c]))"

definition dfa_inv :: "u8 list list \<Rightarrow> 'i ACSM_PATTERN set \<Rightarrow> int set \<Rightarrow> ('i, 't, 'n) ACSM_STRUCT \<Rightarrow> bool" where
  "dfa_inv ps pats don a \<longleftrightarrow> acsmNumStates a = int (length ps) - 1 \<and>
     (\<forall>s \<in> states ps. \<forall>c. st_next a s c = (if s \<in> insert 0 don then delta ps s c else goto ps s c)) \<and>
     (\<forall>s \<in> inner ps. FailState (acsmStateTable a s) = fail_of ps s) \<and>
     (\<forall>s \<in> states ps. set (MatchList (acsmStateTable a s)) = hit pats (path ps s))"

lemma goto_root: "paths_ok ps \<Longrightarrow> goto ps 0 c = delta ps 0 c"
  using path_0 [of ps] sid_nil [of ps] by (simp add: goto_def delta_def)

text \<open>A row while it is worked on: the bytes not in \<open>cs\<close> are done.\<close>

lemma dfa_row_run:
  assumes ok: "paths_ok ps" and r: "r \<in> inner ps"
    and fl: "\<forall>c. st_next b (fail_of ps r) c = delta ps (fail_of ps r) c" and ne: "fail_of ps r \<noteq> r"
  shows "\<lbrakk>\<forall>c. st_next a r c = (if c \<in> set cs then goto ps r c else delta ps r c);
      \<forall>s c. s \<noteq> r \<longrightarrow> st_next a s c = st_next b s c; acsmNumStates a = acsmNumStates b;
      \<forall>s. FailState (acsmStateTable a s) = FailState (acsmStateTable b s) \<and>
          MatchList (acsmStateTable a s) = MatchList (acsmStateTable b s);
      FailState (acsmStateTable b r) = fail_of ps r; distinct cs\<rbrakk> \<Longrightarrow>
    \<exists>a'. dfa_row r cs a = (a', kids ps r cs) \<and> (\<forall>c. st_next a' r c = delta ps r c) \<and>
      (\<forall>s c. s \<noteq> r \<longrightarrow> st_next a' s c = st_next b s c) \<and> acsmNumStates a' = acsmNumStates b \<and>
      (\<forall>s. FailState (acsmStateTable a' s) = FailState (acsmStateTable b s) \<and>
          MatchList (acsmStateTable a' s) = MatchList (acsmStateTable b s))"
proof (induction cs arbitrary: a)
  case Nil
  then show ?case by (simp add: kids_def)
next
  case (Cons c cs)
  have nx: "st_next a r c = sid ps (path ps r @ [c])" using Cons.prems(1) goto_kid [OF r] by simp
  show ?case
  proof (cases "path ps r @ [c] \<in> set ps")
    case True
    then have "goto ps r c = delta ps r c" using goto_kid [OF r] lsuf_id [OF True] by (simp add: delta_def)
    then have "\<forall>d. st_next a r d = (if d \<in> set cs then goto ps r d else delta ps r d)"
      using Cons.prems(1) by auto
    from Cons.IH [OF this Cons.prems(2-5)] show ?thesis
      using Cons.prems(6) nx True by (auto simp: kids_def sid_fail Let_def)
  next
    case False
    let ?t = "st_next a (FailState (acsmStateTable a r)) c"
    have rs: "r \<in> states ps" and rne: "path ps r \<noteq> []"
      using r inner_path [OF ok, of r] by (auto simp: inner_def)
    have nil: "[] \<in> set ps" using ok by (simp add: paths_ok_def prefix_closed_def)
    have "?t = delta ps (fail_of ps r) c" using Cons.prems(2,4,5) fl ne by simp
    also have "\<dots> = delta ps r c"
      using lsuf_shift [OF ok False rne] lsuf_mem [OF nil] by (simp add: delta_def fail_of_def)
    finally have t: "?t = delta ps r c" .
    let ?a = "set_next r c ?t a"
    have "\<forall>d. st_next ?a r d = (if d \<in> set cs then goto ps r d else delta ps r d)"
    proof
      fix d
      show "st_next ?a r d = (if d \<in> set cs then goto ps r d else delta ps r d)"
      proof (cases "d = c")
        case True
        then show ?thesis using t Cons.prems(6) by (simp add: st_next_def set_next_def)
      next
        case False
        then have "st_next ?a r d = st_next a r d" by (simp add: st_next_def set_next_def)
        then show ?thesis using Cons.prems(1) False by simp
      qed
    qed
    moreover have "st_next ?a s d = st_next b s d" if "s \<noteq> r" for s d
    proof -
      have "st_next ?a s d = st_next a s d" using that by (simp add: st_next_def set_next_def)
      then show ?thesis using Cons.prems(2) that by simp
    qed
    moreover have "acsmNumStates ?a = acsmNumStates b" using Cons.prems(3) by (simp add: set_next_def)
    moreover have "FailState (acsmStateTable ?a s) = FailState (acsmStateTable b s) \<and>
        MatchList (acsmStateTable ?a s) = MatchList (acsmStateTable b s)" for s
      using Cons.prems(4) by (simp add: set_next_def)
    ultimately obtain a' where "dfa_row r cs ?a = (a', kids ps r cs)" "\<forall>c. st_next a' r c = delta ps r c"
      "\<forall>s c. s \<noteq> r \<longrightarrow> st_next a' s c = st_next b s c" "acsmNumStates a' = acsmNumStates b"
      "\<forall>s. FailState (acsmStateTable a' s) = FailState (acsmStateTable b s) \<and>
          MatchList (acsmStateTable a' s) = MatchList (acsmStateTable b s)"
      using Cons.IH [of ?a] Cons.prems(5,6) by auto
    moreover have "kids ps r (c # cs) = kids ps r cs" using False by (simp add: kids_def)
    moreover have "dfa_row r (c # cs) a = dfa_row r cs ?a" using nx False by (simp add: Let_def sid_fail)
    ultimately show ?thesis by simp
  qed
qed

lemma Convert_run:
  fixes a :: "('i, 't, 'n) ACSM_STRUCT"
  assumes inv: "nfa_inv (acsm_paths ws) pats (inner (acsm_paths ws)) a" and pats: "pats_ok (acsm_paths ws) pats"
    and fuel: "length (acsm_paths ws) < n"
  shows "\<exists>a'. Convert_NFA_To_DFA n a = Some a' \<and> dfa_inv (acsm_paths ws) pats (inner (acsm_paths ws)) a'"
proof -
  let ?ps = "acsm_paths ws"
  have ok: "paths_ok ?ps" by (rule acsm_paths_ok)
  have z: "0 \<in> states ?ps" "0 \<notin> inner ?ps" "path ?ps 0 = []"
    using states_0 [OF ok] path_0 [OF ok] by (auto simp: inner_def)
  have q: "root_queue a = kids ?ps 0 all_bytes"
    by (rule root_queue_kids [OF ok]) (use inv z in \<open>simp add: nfa_inv_def\<close>)
  have root: "own pats [] = hit pats []" using hit_nil [OF pats] pats by (auto simp: own_def pats_ok_def)
  have init: "dfa_inv ?ps pats {} a"
  proof -
    have "set (MatchList (acsmStateTable a s)) = hit pats (path ?ps s)" if "s \<in> states ?ps" for s
    proof (cases "s = 0")
      case True
      then show ?thesis using inv z root by (auto simp: nfa_inv_def)
    next
      case False
      then have "s \<in> inner ?ps" using that by (simp add: inner_def)
      then show ?thesis using inv that by (auto simp: nfa_inv_def)
    qed
    moreover have "FailState (acsmStateTable a s) = fail_of ?ps s" if "s \<in> inner ?ps" for s
      using inv that by (auto simp: nfa_inv_def inner_def)
    ultimately show ?thesis using inv goto_root [OF ok] by (simp add: dfa_inv_def nfa_inv_def)
  qed
  have step: "\<exists>b'. Some (dfa_row r all_bytes b) = Some (b', kids ?ps r all_bytes) \<and> dfa_inv ?ps pats (insert r don) b'"
    if "don \<subseteq> inner ?ps" "r \<in> inner ?ps" "r \<notin> don" and sh: "\<forall>v \<in> inner ?ps. depth ?ps v < depth ?ps r \<longrightarrow> v \<in> don"
      and inv: "dfa_inv ?ps pats don b" for don r and b :: "('i, 't, 'n) ACSM_STRUCT"
  proof -
    let ?f = "fail_of ?ps r" and ?w = "lsuf (set ?ps) (tl (path ?ps r))"
    have rs: "r \<in> states ?ps" "path ?ps r \<noteq> []" using that(2) inner_path [OF ok, of r] by (auto simp: inner_def)
    have nil: "[] \<in> set ?ps" using ok by (simp add: paths_ok_def prefix_closed_def)
    have w: "?w \<in> set ?ps" by (rule lsuf_mem [OF nil])
    have "length ?w \<le> length (tl (path ?ps r))" by (rule lsuf_length)
    moreover have "length (tl (path ?ps r)) < length (path ?ps r)" using rs(2) by (cases "path ?ps r") auto
    ultimately have lt: "depth ?ps ?f < depth ?ps r" using w by (simp add: depth_def fail_of_def)
    then have ne: "?f \<noteq> r" by auto
    have fs: "?f \<in> states ?ps" unfolding fail_of_def by (rule sid_states [OF w])
    then have "?f \<in> insert 0 don" using sh lt by (auto simp: inner_def)
    then have fl: "\<forall>c. st_next b ?f c = delta ?ps ?f c" using inv fs by (simp add: dfa_inv_def)
    have r0: "r \<noteq> 0" using that(2) by (simp add: inner_def)
    have "\<exists>b'. dfa_row r all_bytes b = (b', kids ?ps r all_bytes) \<and> (\<forall>c. st_next b' r c = delta ?ps r c) \<and>
      (\<forall>s c. s \<noteq> r \<longrightarrow> st_next b' s c = st_next b s c) \<and> acsmNumStates b' = acsmNumStates b \<and>
      (\<forall>s. FailState (acsmStateTable b' s) = FailState (acsmStateTable b s) \<and>
          MatchList (acsmStateTable b' s) = MatchList (acsmStateTable b s))"
      by (rule dfa_row_run [OF ok that(2) fl ne])
        (use inv rs(1) that(2,3) r0 set_all_bytes distinct_all_bytes in \<open>simp_all add: dfa_inv_def\<close>)
    then obtain b' where b': "dfa_row r all_bytes b = (b', kids ?ps r all_bytes)" "\<forall>c. st_next b' r c = delta ?ps r c"
      "\<forall>s c. s \<noteq> r \<longrightarrow> st_next b' s c = st_next b s c" "acsmNumStates b' = acsmNumStates b"
      "\<forall>s. FailState (acsmStateTable b' s) = FailState (acsmStateTable b s) \<and>
          MatchList (acsmStateTable b' s) = MatchList (acsmStateTable b s)" by blast
    have "st_next b' s c = (if s \<in> insert 0 (insert r don) then delta ?ps s c else goto ?ps s c)" if "s \<in> states ?ps" for s c
      using b'(2,3) inv that by (cases "s = r") (auto simp: dfa_inv_def)
    then have "dfa_inv ?ps pats (insert r don) b'" using b'(4,5) inv by (simp add: dfa_inv_def)
    then show ?thesis using b'(1) by simp
  qed
  have "\<exists>a'. queue_loop n (\<lambda>r a. Some (dfa_row r all_bytes a)) (kids ?ps 0 all_bytes) a = Some a' \<and>
      dfa_inv ?ps pats (inner ?ps) a'"
    by (rule trie.loop_run [where don = "{}" and I = "dfa_inv ?ps pats"])
      (use step trie.at_start init card_inner [OF ok] fuel in auto)
  then show ?thesis by (simp add: Convert_NFA_To_DFA_def q)
qed

subsection \<open>Compilation\<close>

lemma build_state_same:
  fixes st :: "('i, 't, 'n) ACSM_STATETABLE"
  shows "NextState (build_state bt nl st) = NextState st" "MatchList (build_state bt nl st) = MatchList st"
proof -
  have "NextState (fold (\<lambda>m st. case ap_id m of
                   None \<Rightarrow> st
                 | Some i \<Rightarrow> (if ap_negative m \<noteq> 0 then st\<lparr>neg_list := nl i (neg_list st)\<rparr>
                            else st\<lparr>rule_option_tree := bt (Some i) (rule_option_tree st)\<rparr>)) ms st) = NextState st \<and>
    MatchList (fold (\<lambda>m st. case ap_id m of
                   None \<Rightarrow> st
                 | Some i \<Rightarrow> (if ap_negative m \<noteq> 0 then st\<lparr>neg_list := nl i (neg_list st)\<rparr>
                            else st\<lparr>rule_option_tree := bt (Some i) (rule_option_tree st)\<rparr>)) ms st) = MatchList st" for ms :: "'i ACSM_PATTERN list"
    by (induction ms arbitrary: st) (auto split: option.split)
  then show "NextState (build_state bt nl st) = NextState st" "MatchList (build_state bt nl st) = MatchList st"
    by (simp_all add: build_state_def Let_def)
qed

lemma build_trees_same:
  fixes a :: "('i, 't, 'n) ACSM_STRUCT"
  shows "st_next (acsmBuildMatchStateTrees bt nl a) s c = st_next a s c"
  "MatchList (acsmStateTable (acsmBuildMatchStateTrees bt nl a) s) = MatchList (acsmStateTable a s)"
  "acsmNumStates (acsmBuildMatchStateTrees bt nl a) = acsmNumStates a"
proof -
  let ?g = "\<lambda>i (a :: ('i, 't, 'n) ACSM_STRUCT). a\<lparr>acsmStateTable := (acsmStateTable a)(int i :=
         build_state bt nl (acsmStateTable a (int i)))\<rparr>"
  have "st_next (fold ?g is a) s c = st_next a s c \<and>
      MatchList (acsmStateTable (fold ?g is a) s) = MatchList (acsmStateTable a s) \<and>
      acsmNumStates (fold ?g is a) = acsmNumStates a" for "is"
    by (induction "is" arbitrary: a) (auto simp: st_next_def build_state_same)
  then show "st_next (acsmBuildMatchStateTrees bt nl a) s c = st_next a s c"
    "MatchList (acsmStateTable (acsmBuildMatchStateTrees bt nl a) s) = MatchList (acsmStateTable a s)"
    "acsmNumStates (acsmBuildMatchStateTrees bt nl a) = acsmNumStates a"
    by (simp_all add: acsmBuildMatchStateTrees_def)
qed

lemma length_add_word: "paths_ok ps \<Longrightarrow> length (add_word ps w) \<le> length ps + length w"
proof -
  assume ok: "paths_ok ps"
  then have nil: "[] \<in> set ps" by (simp add: paths_ok_def prefix_closed_def)
  have "[0 ..< Suc (length w)] = 0 # [1 ..< Suc (length w)]" by (simp add: upt_conv_Cons del: upt_Suc)
  then have "filter (\<lambda>u. u \<notin> set ps) (map (\<lambda>k. take k w) [0 ..< Suc (length w)]) =
      filter (\<lambda>u. u \<notin> set ps) (map (\<lambda>k. take k w) [1 ..< Suc (length w)])"
    using nil by (simp del: upt_Suc)
  then have "length (filter (\<lambda>u. u \<notin> set ps) (map (\<lambda>k. take k w) [0 ..< Suc (length w)])) \<le>
      length (map (\<lambda>k. take k w) [1 ..< Suc (length w)])"
    by (simp only: length_filter_le)
  then show ?thesis by (simp add: add_word_def del: upt_Suc)
qed

lemma length_acsm_paths: "length (acsm_paths ws) \<le> Suc (sum_list (map length ws))"
proof -
  have "length (fold (\<lambda>w ps. add_word ps w) ws ps) \<le> length ps + sum_list (map length ws)" if "paths_ok ps" for ps
    using that
  proof (induction ws arbitrary: ps)
    case Nil
    then show ?case by simp
  next
    case (Cons w ws)
    then show ?case using Cons.IH [OF add_word_ok [OF Cons.prems, of w]] length_add_word [OF Cons.prems, of w] by simp
  qed
  from this [of "[[]]"] show ?thesis by (simp add: acsm_paths_def paths_ok_def prefix_closed_def)
qed

definition acsm_pats_ok :: "('i, 't, 'n) ACSM_STRUCT \<Rightarrow> bool" where
  "acsm_pats_ok a \<longleftrightarrow> (\<forall>p \<in> set (acsmPatterns a). ap_patrn p \<noteq> [] \<and> ap_n p = int (length (ap_patrn p)))"

definition acsm_fuel :: "('i, 't, 'n) ACSM_STRUCT \<Rightarrow> nat" where
  "acsm_fuel a = 2 + nat (sum_list (map ap_n (acsmPatterns a)))"

definition acsm_words :: "('i, 't, 'n) ACSM_STRUCT \<Rightarrow> u8 list list" where
  "acsm_words a = map ap_patrn (acsmPatterns a)"

lemma acsm_fuel_length:
  assumes "acsm_pats_ok a"
  shows "length (acsm_paths (acsm_words a)) < acsm_fuel a"
    and "int (length (acsm_paths (acsm_words a))) \<le> 1 + sum_list (map ap_n (acsmPatterns a))"
proof -
  have "sum_list (map ap_n ps) = int (sum_list (map length (map ap_patrn ps)))"
    if "\<forall>p \<in> set ps. ap_n p = int (length (ap_patrn p))" for ps :: "'a ACSM_PATTERN list"
    using that by (induction ps) auto
  then have "sum_list (map ap_n (acsmPatterns a)) = int (sum_list (map length (acsm_words a)))"
    using assms by (simp add: acsm_pats_ok_def acsm_words_def)
  then show "length (acsm_paths (acsm_words a)) < acsm_fuel a"
    "int (length (acsm_paths (acsm_words a))) \<le> 1 + sum_list (map ap_n (acsmPatterns a))"
    using length_acsm_paths [of "acsm_words a"] by (simp_all add: acsm_fuel_def)
qed

text \<open>What the compiled machine is: its transitions and match lists, by the paths of its states.\<close>

definition acsm_done :: "u8 list list \<Rightarrow> 'i ACSM_PATTERN set \<Rightarrow> ('i, 't, 'n) ACSM_STRUCT \<Rightarrow> bool" where
  "acsm_done ps pats a \<longleftrightarrow> acsmNumStates a = int (length ps) - 1 \<and>
     (\<forall>s \<in> states ps. \<forall>c. st_next a s c = delta ps s c) \<and>
     (\<forall>s \<in> states ps. set (MatchList (acsmStateTable a s)) = hit pats (path ps s))"

lemma acsmCompile_run:
  fixes a :: "('i, 't, 'n) ACSM_STRUCT"
  assumes ok: "acsm_pats_ok a" and fuel: "length (acsm_paths (acsm_words a)) < n"
  shows "\<exists>a'. acsmCompile n fns a = Some a' \<and> acsm_done (acsm_paths (acsm_words a)) (set (acsmPatterns a)) a'"
proof -
  let ?ps = "acsm_paths (acsm_words a)" and ?pats = "set (acsmPatterns a)"
  let ?a1 = "root_loops (fold AddPatternStates (acsmPatterns a) (acsm_init a))"
  have pk: "pats_ok ?ps ?pats"
    using ok acsm_paths_mem [of _ "acsm_words a"] by (auto simp: pats_ok_def acsm_pats_ok_def acsm_words_def)
  have "goto_rep ?ps ?pats ?a1"
    using root_loops_rep [OF trie_rep_all, of "acsmPatterns a" a] by (simp add: acsm_words_def)
  from Build_NFA_run [OF this pk fuel] obtain a2 where a2: "Build_NFA n ?a1 = Some a2"
    "nfa_inv ?ps ?pats (inner ?ps) a2" by blast
  from Convert_run [OF a2(2) pk fuel] obtain a3 where a3: "Convert_NFA_To_DFA n a2 = Some a3"
    "dfa_inv ?ps ?pats (inner ?ps) a3" by blast
  have "insert 0 (inner ?ps) = states ?ps" using states_0 [OF acsm_paths_ok] by (auto simp: inner_def)
  then have "acsm_done ?ps ?pats a3" using a3(2) by (auto simp: acsm_done_def dfa_inv_def)
  moreover have "acsm_done ?ps ?pats (acsmBuildMatchStateTrees bt nl a3)" if "acsm_done ?ps ?pats a3" for bt nl
    using that by (simp add: acsm_done_def build_trees_same)
  ultimately show ?thesis using a2(1) a3(1)
    by (cases fns) (auto simp: acsmCompile_def Let_def)
qed

subsection \<open>Search\<close>

text \<open>The state after a text.\<close>

definition acsm_state :: "('i, 't, 'n) ACSM_STRUCT \<Rightarrow> u8 list \<Rightarrow> int" where
  "acsm_state a w = fold (\<lambda>c s. st_next a s (xlatcase c)) w 0"

lemma acsm_state_snoc [simp]: "acsm_state a (w @ [c]) = st_next a (acsm_state a w) (xlatcase c)"
  by (simp add: acsm_state_def)

lemma acsm_state_path:
  assumes ok: "paths_ok ps" and don: "acsm_done ps pats a"
  shows "acsm_state a w = sid ps (lsuf (set ps) (map xlatcase w))"
proof (induction w rule: rev_induct)
  case Nil
  then show ?case using sid_nil [OF ok] by (simp add: acsm_state_def)
next
  case (snoc c w)
  have nil: "[] \<in> set ps" using ok by (simp add: paths_ok_def prefix_closed_def)
  have mem: "lsuf (set ps) (map xlatcase w) \<in> set ps" by (rule lsuf_mem [OF nil])
  have "acsm_state a (w @ [c]) = delta ps (sid ps (lsuf (set ps) (map xlatcase w))) (xlatcase c)"
    using don snoc sid_states [OF mem] by (simp add: acsm_done_def)
  also have "\<dots> = sid ps (lsuf (set ps) (map xlatcase (w @ [c])))"
    using mem ok lsuf_snoc [of "set ps" "map xlatcase w" "xlatcase c"] by (simp add: delta_def paths_ok_def)
  finally show ?case .
qed

lemma acsm_state_hit:
  assumes ok: "paths_ok ps" and don: "acsm_done ps pats a" and pats: "pats_ok ps pats"
  shows "set (MatchList (acsmStateTable a (acsm_state a w))) = hit pats (map xlatcase w)"
proof -
  have nil: "[] \<in> set ps" using ok by (simp add: paths_ok_def prefix_closed_def)
  have mem: "lsuf (set ps) (map xlatcase w) \<in> set ps" by (rule lsuf_mem [OF nil])
  show ?thesis
    using don sid_states [OF mem] mem hit_lsuf [OF pats, of "map xlatcase w"]
    by (simp add: acsm_state_path [OF ok don] acsm_done_def)
qed

text \<open>
  The search that compares every pattern at every position: \<open>call\<close> is what is done for the text up
  to a position where some pattern ends.
\<close>

fun naive_search ::
  "'i ACSM_PATTERN set \<Rightarrow> (u8 list \<Rightarrow> int \<Rightarrow> 'd \<Rightarrow> int \<times> 'd) \<Rightarrow> u8 list \<Rightarrow> u8 list \<Rightarrow> int \<Rightarrow> int \<Rightarrow> 'd \<Rightarrow>
   int \<times> u8 list \<times> 'd" where
  "naive_search pats call w [] ix nfound data = (nfound, w, data)"
| "naive_search pats call w (c # cs) ix nfound data =
     (if \<exists>p \<in> pats. suffix (ap_patrn p) (map xlatcase (w @ [c]))
      then (case call (w @ [c]) ix data of (ret, data) \<Rightarrow>
              if ret > 0 then (nfound + 1, w @ [c], data)
              else naive_search pats call (w @ [c]) cs (ix + 1) (nfound + 1) data)
      else naive_search pats call (w @ [c]) cs (ix + 1) nfound data)"

text \<open>The call of \<open>Match\<close> for a text: the id, tree and list come from the entry at the head.\<close>

definition match_call ::
  "('i, 't, 'n) ACSM_STRUCT \<Rightarrow> ('i option \<Rightarrow> 't option \<Rightarrow> int \<Rightarrow> 'd \<Rightarrow> 'n option \<Rightarrow> int \<times> 'd) \<Rightarrow>
   u8 list \<Rightarrow> int \<Rightarrow> 'd \<Rightarrow> int \<times> 'd" where
  "match_call a Match w ix data =
     (let st = acsmStateTable a (acsm_state a w); m = hd (MatchList st)
      in Match (ap_id m) (rule_option_tree st) (ix - ap_n m + 1) data (neg_list st))"

lemma acsm_scan_naive:
  assumes "\<And>w. set (MatchList (acsmStateTable a (acsm_state a w))) = hit pats (map xlatcase w)"
  shows "acsm_scan a Match (map xlatcase t) ix nfound (acsm_state a w) data =
    (case naive_search pats (match_call a Match) w t ix nfound data of (n, w', d) \<Rightarrow> (n, acsm_state a w', d))"
proof (induction t arbitrary: ix nfound w data)
  case Nil
  then show ?case by simp
next
  case (Cons c t)
  have st: "st_next a (acsm_state a w) (xlatcase c) = acsm_state a (w @ [c])" by simp
  show ?case
  proof (cases "MatchList (acsmStateTable a (acsm_state a (w @ [c])))")
    case Nil
    then have "\<not> (\<exists>p \<in> pats. suffix (ap_patrn p) (map xlatcase (w @ [c])))"
      using assms [of "w @ [c]"] by (auto simp: hit_def)
    then show ?thesis using Nil Cons.IH [of "ix + 1" nfound "w @ [c]" data] by (simp add: Let_def del: map_append)
  next
    case M: (Cons m ms)
    then have "\<exists>p \<in> pats. suffix (ap_patrn p) (map xlatcase (w @ [c]))"
      using assms [of "w @ [c]"] by (auto simp: hit_def)
    then show ?thesis using M Cons.IH [of "ix + 1" "nfound + 1" "w @ [c]"]
      by (auto simp: Let_def match_call_def simp del: map_append split: prod.split)
  qed
qed


subsection \<open>Properties\<close>

lemma acsmAddPattern_ok:
  "acsm_pats_ok a \<Longrightarrow> pat \<noteq> [] \<Longrightarrow> acsm_pats_ok (acsmAddPattern a pat nocase offset dpth negative uid iid)"
  by (auto simp: acsm_pats_ok_def acsmAddPattern_def)

lemma acsmNew_ok: "acsm_pats_ok acsmNew"
  by (simp add: acsm_pats_ok_def acsmNew_def)

lemma acsm_words_ok:
  assumes "acsm_pats_ok a"
  shows "pats_ok (acsm_paths (acsm_words a)) (set (acsmPatterns a))"
  using assms acsm_paths_mem [of _ "acsm_words a"] by (auto simp: pats_ok_def acsm_pats_ok_def acsm_words_def)

lemma acsmCompile_done:
  assumes "acsm_pats_ok a" and "acsm_fuel a \<le> fuel" and "acsmCompile fuel fns a = Some m"
  shows "acsm_done (acsm_paths (acsm_words a)) (set (acsmPatterns a)) m"
  using acsmCompile_run [OF assms(1), of fuel fns] acsm_fuel_length(1) [OF assms(1)] assms(2,3) by auto

text \<open>Two patterns, one of them a suffix of the other, for the witnesses.\<close>

definition acsm_sample :: "(nat, nat list, nat list) ACSM_STRUCT" where
  "acsm_sample = acsmAddPattern (acsmAddPattern acsmNew [0x68, 0x65] 1 0 0 0 (Some 1) 1) [0x73, 0x68, 0x65] 1 0 0 0 (Some 2) 2"

lemma acsm_sample_ok: "acsm_pats_ok acsm_sample"
  unfolding acsm_sample_def by (intro acsmAddPattern_ok acsmNew_ok) simp_all

lemma acsm_sample_compile:
  "acsmCompile (acsm_fuel acsm_sample) None acsm_sample = Some (the (acsmCompile (acsm_fuel acsm_sample) None acsm_sample))"
  using acsmCompile_run [OF acsm_sample_ok acsm_fuel_length(1) [OF acsm_sample_ok], of None] by auto

text \<open>
  C19: compiling any non-empty patterns succeeds (the loops over the queue and the failure states
  end), the states stay below the number that is allocated, and every transition of the table leads to
  one of them.
\<close>

theorem acsm_compile_total:
  assumes "acsm_pats_ok a"
  shows "\<exists>m. acsmCompile (acsm_fuel a) fns a = Some m \<and> acsmNumStates m < 1 + sum_list (map ap_n (acsmPatterns a)) \<and>
     (\<forall>s c. 0 \<le> s \<and> s \<le> acsmNumStates m \<longrightarrow> 0 \<le> st_next m s c \<and> st_next m s c \<le> acsmNumStates m)"
proof -
  let ?ps = "acsm_paths (acsm_words a)"
  have ok: "paths_ok ?ps" by (rule acsm_paths_ok)
  have nil: "[] \<in> set ?ps" using ok by (simp add: paths_ok_def prefix_closed_def)
  obtain m where m: "acsmCompile (acsm_fuel a) fns a = Some m" "acsm_done ?ps (set (acsmPatterns a)) m"
    using acsmCompile_run [OF assms acsm_fuel_length(1) [OF assms]] by blast
  have N: "acsmNumStates m = int (length ?ps) - 1" using m(2) by (simp add: acsm_done_def)
  have "0 \<le> st_next m s c \<and> st_next m s c \<le> acsmNumStates m" if "0 \<le> s \<and> s \<le> acsmNumStates m" for s c
  proof -
    have "s \<in> states ?ps" using that N by (simp add: states_def)
    then have "st_next m s c = delta ?ps s c" using m(2) by (simp add: acsm_done_def)
    also have "\<dots> \<in> states ?ps" unfolding delta_def by (rule sid_states [OF lsuf_mem [OF nil]])
    finally show ?thesis using N by (simp add: states_def)
  qed
  then show ?thesis using m(1) N acsm_fuel_length(2) [OF assms] by auto
qed

theorem acsm_compile_total_witness:
  "\<exists>m. acsmCompile (acsm_fuel acsm_sample) None acsm_sample = Some m \<and>
     acsmNumStates m < 1 + sum_list (map ap_n (acsmPatterns acsm_sample)) \<and>
     (\<forall>s c. 0 \<le> s \<and> s \<le> acsmNumStates m \<longrightarrow> 0 \<le> st_next m s c \<and> st_next m s c \<le> acsmNumStates m)"
  by (rule acsm_compile_total [OF acsm_sample_ok])

text \<open>
  C18: after any text the match list of the state holds exactly the patterns that end there, that is
  those that are a suffix of the text in upper case.
\<close>

theorem acsm_matches_exact:
  assumes "acsm_pats_ok a" and "acsm_fuel a \<le> fuel" and "acsmCompile fuel fns a = Some m"
  shows "set (MatchList (acsmStateTable m (acsm_state m w))) =
     {p \<in> set (acsmPatterns a). suffix (ap_patrn p) (map xlatcase w)}"
  using acsm_state_hit [OF acsm_paths_ok acsmCompile_done [OF assms] acsm_words_ok [OF assms(1)]]
  by (simp add: hit_def)

theorem acsm_matches_exact_witness:
  "set (MatchList (acsmStateTable (the (acsmCompile (acsm_fuel acsm_sample) None acsm_sample))
       (acsm_state (the (acsmCompile (acsm_fuel acsm_sample) None acsm_sample)) [0x75, 0x53, 0x48, 0x65]))) =
     {p \<in> set (acsmPatterns acsm_sample). suffix (ap_patrn p) (map xlatcase [0x75, 0x53, 0x48, 0x65])}"
  by (rule acsm_matches_exact [OF acsm_sample_ok _ acsm_sample_compile]) simp

text \<open>
  C17: the search of a buffer, from the state the buffers before it left, is the search that compares
  every pattern at every position of the whole text: the same matches are reported with the same data,
  it stops at the same one when \<open>Match\<close> asks for it, and it leaves the state of the text up to there.
\<close>

theorem acsm_search_exact:
  assumes "acsm_pats_ok a" and "acsm_fuel a \<le> fuel" and "acsmCompile fuel fns a = Some m"
  shows "acsmSearch m t Match data (acsm_state m t0) =
     (case naive_search (set (acsmPatterns a)) (match_call m Match) t0 t 0 0 data of
        (n, w, d) \<Rightarrow> (n, acsm_state m w, d))"
  unfolding acsmSearch_def
  by (rule acsm_scan_naive [OF acsm_state_hit [OF acsm_paths_ok acsmCompile_done [OF assms] acsm_words_ok [OF assms(1)]]])

theorem acsm_search_exact_witness:
  "acsmSearch (the (acsmCompile (acsm_fuel acsm_sample) None acsm_sample)) [0x48, 0x65, 0x20] (\<lambda>i t n d l. (0, (i, n) # d)) []
      (acsm_state (the (acsmCompile (acsm_fuel acsm_sample) None acsm_sample)) [0x75, 0x53]) =
     (case naive_search (set (acsmPatterns acsm_sample))
         (match_call (the (acsmCompile (acsm_fuel acsm_sample) None acsm_sample)) (\<lambda>i t n d l. (0, (i, n) # d)))
         [0x75, 0x53] [0x48, 0x65, 0x20] 0 0 [] of
        (n, w, d) \<Rightarrow> (n, acsm_state (the (acsmCompile (acsm_fuel acsm_sample) None acsm_sample)) w, d))"
  by (rule acsm_search_exact [OF acsm_sample_ok _ acsm_sample_compile]) simp

end
