(* ===== verification/MailDecode.thy ===== *)
theory MailDecode
  imports SnortPrelude
begin

text \<open>
  The decoders of mail attachments: base64 (\<open>sfutil/sf_base64decode.c\<close>), quoted-printable and
  uuencode (\<open>sfutil/sf_email_attach_decode.c\<close>), the header unfolding and line-end stripping
  they run first (\<open>sfutil/util_unfold.c\<close>), and the \<open>base64_decode\<close> rule option.

  A function that fills an output buffer from its start returns the list of the bytes it writes;
  the buffers of a decoder state are lists of their full length, and writing bytes past the end of
  one makes it longer, so that staying inside is a fact about lengths. A packet is the list of its
  bytes from \<open>start\<close> to \<open>end\<close>.
\<close>

abbreviation LF :: u8 where "LF \<equiv> 10"
abbreviation CR :: u8 where "CR \<equiv> 13"
abbreviation TAB :: u8 where "TAB \<equiv> 9"
abbreviation SP :: u8 where "SP \<equiv> 32"
abbreviation EQ :: u8 where "EQ \<equiv> 61"

section \<open>Unfolding and stripping\<close>

text \<open>
  The loop of \<open>sf_unfold_header\<close>. \<open>hf\<close> is \<open>httpheaderfolding\<close>, \<open>fp\<close> is \<open>folding_present\<close>, \<open>sp\<close> the
  count of folded spaces, \<open>n\<close> the counter compared with \<open>outbuf_size\<close>.
\<close>

fun unfold_loop :: "nat \<Rightarrow> bool \<Rightarrow> u8 list \<Rightarrow> nat \<Rightarrow> bool \<Rightarrow> nat \<Rightarrow> nat \<Rightarrow> u8 list \<Rightarrow> nat \<times> nat \<times> u8 list" where
  "unfold_loop osz trim [] hf fp sp n out = (sp, n, out)"
| "unfold_loop osz trim (c # cs) hf fp sp n out =
     (if \<not> n < osz then (sp, n, out)
      else if c = SP \<or> c = TAB then
        (let sp = (if fp then sp + 1 else sp)
         in if hf \<noteq> 0 then unfold_loop osz trim cs 0 True (sp + 1) n out
            else unfold_loop osz trim cs hf fp sp n (if trim then out else out @ [c]))
      else if c = LF \<and> hf \<noteq> 1 then unfold_loop osz trim cs 1 fp sp n out
      else if c = CR \<and> hf = 0 then unfold_loop osz trim cs 2 fp sp n out
      else if hf = 0 then unfold_loop osz trim cs hf fp sp (n + 1) (out @ [c])
      else (sp, n, out))"

text \<open>
  The bytes written from the start of \<open>outbuf\<close> (\<open>output_bytes\<close> is their number), the index of the
  final NUL and the count \<open>folded\<close>.
\<close>

definition sf_unfold_header :: "u8 list \<Rightarrow> nat \<Rightarrow> bool \<Rightarrow> u8 list \<times> int \<times> nat" where
  "sf_unfold_header inbuf outbuf_size trim_spaces =
     (case unfold_loop outbuf_size trim_spaces inbuf 0 False 0 0 [] of
        (spaces, n, out) \<Rightarrow> (out, if n < outbuf_size then int (length out) else int outbuf_size - 1, spaces))"

definition sf_strip_CRLF :: "u8 list \<Rightarrow> nat \<Rightarrow> u8 list" where
  "sf_strip_CRLF inbuf outbuf_size = take outbuf_size (filter (\<lambda>c. c \<noteq> LF \<and> c \<noteq> CR) inbuf)"

text \<open>White space is taken off the end of the output when a line end follows it.\<close>

definition is_lws :: "u8 \<Rightarrow> bool" where
  "is_lws c = (c = SP \<or> c = TAB)"

fun lws_loop :: "nat \<Rightarrow> u8 list \<Rightarrow> bool \<Rightarrow> u8 list \<Rightarrow> u8 list" where
  "lws_loop osz [] lws out = out"
| "lws_loop osz (c # cs) lws out =
     (if \<not> length out < osz then out
      else if c \<noteq> LF \<and> c \<noteq> CR then lws_loop osz cs (is_lws c) (out @ [c])
      else lws_loop osz cs False ((if lws then rev (dropWhile is_lws (rev out)) else out) @ [c]))"

definition sf_strip_LWS :: "u8 list \<Rightarrow> nat \<Rightarrow> u8 list" where
  "sf_strip_LWS inbuf outbuf_size = lws_loop outbuf_size inbuf False []"

section \<open>Base64\<close>

text \<open>The lookup table: 99 for the padding, 100 for a byte that is no base64 digit.\<close>

definition sf_decode64tab :: "u8 \<Rightarrow> u8" where
  "sf_decode64tab c =
     (if c = 43 then 62 else if c = 47 then 63
      else if 48 \<le> c \<and> c \<le> 57 then c + 4
      else if c = EQ then 99
      else if 65 \<le> c \<and> c \<le> 90 then c - 65
      else if 97 \<le> c \<and> c \<le> 122 then c - 71
      else 100)"

text \<open>
  One group of four: the output and whether the loop goes on. A full buffer is only noticed at the
  second and third byte.
\<close>

definition b64_group :: "nat \<Rightarrow> u8 list \<Rightarrow> u8 list \<Rightarrow> u8 list \<times> bool" where
  "b64_group osz g out =
     (let a = sf_decode64tab (g ! 0); b = sf_decode64tab (g ! 1);
          c = sf_decode64tab (g ! 2); d = sf_decode64tab (g ! 3);
          out = (if length out < osz then out @ [push_bit 2 a OR drop_bit 4 b] else out)
      in if g ! 2 \<noteq> EQ \<and> length out < osz
         then let out = out @ [push_bit 4 b OR drop_bit 2 c]
              in if g ! 3 \<noteq> EQ \<and> length out < osz
                 then (out @ [push_bit 6 c OR d], True)
                 else (out, False)
         else (out, False))"

fun b64_loop :: "nat \<Rightarrow> nat \<Rightarrow> u8 list \<Rightarrow> nat \<Rightarrow> u8 list \<Rightarrow> u8 list \<Rightarrow> int \<times> u8 list" where
  "b64_loop osz mx [] n g out = (0, out)"
| "b64_loop osz mx (ch # cs) n g out =
     (if \<not> n < mx then (0, out)
      else if sf_decode64tab ch = 100 then b64_loop osz mx cs n g out
      else let g = g @ [ch]; n = n + 1
           in if n mod 4 \<noteq> 0 then b64_loop osz mx cs n g out
              else if g ! 0 = EQ \<or> g ! 1 = EQ then (- 1, out)
              else case b64_group osz g out of
                     (out, True) \<Rightarrow> b64_loop osz mx cs n [] out
                   | (out, False) \<Rightarrow> (0, out))"

definition sf_base64decode :: "u8 list \<Rightarrow> nat \<Rightarrow> int \<times> u8 list" where
  "sf_base64decode inbuf outbuf_size =
     b64_loop outbuf_size ((outbuf_size div 3) * 4 + 4) inbuf 0 [] []"

section \<open>Quoted-printable\<close>

definition isxdigit :: "u8 \<Rightarrow> bool" where
  "isxdigit c = (48 \<le> c \<and> c \<le> 57 \<or> 65 \<le> c \<and> c \<le> 70 \<or> 97 \<le> c \<and> c \<le> 102)"

definition hex_value :: "u8 \<Rightarrow> u8" where
  "hex_value c = (if c \<le> 57 then c - 48 else if c \<le> 70 then c - 55 else c - 87)"

text \<open>
  The bytes not read and the output. \<open>strtoul\<close> on two hexadecimal digits reads both, so the error
  return behind it is never taken.
\<close>

fun qp_loop :: "nat \<Rightarrow> u8 list \<Rightarrow> u8 list \<Rightarrow> u8 list \<times> u8 list" where
  "qp_loop dlen [] out = ([], out)"
| "qp_loop dlen (ch # cs) out =
     (if \<not> length out < dlen then (ch # cs, out)
      else if ch \<noteq> EQ then qp_loop dlen cs (out @ [ch])
      else case cs of
             [] \<Rightarrow> ([ch], out)
           | ch1 # rest \<Rightarrow>
               if ch1 = LF then qp_loop dlen rest out
               else (case rest of
                       [] \<Rightarrow> (ch # cs, out)
                     | ch2 # rest2 \<Rightarrow>
                         if ch1 = CR \<and> ch2 = LF then qp_loop dlen rest2 out
                         else if isxdigit ch1 \<and> isxdigit ch2
                         then qp_loop dlen rest2 (out @ [push_bit 4 (hex_value ch1) OR hex_value ch2])
                         else qp_loop dlen cs (out @ [ch])))"

text \<open>The return code, \<open>bytes_read\<close> and the bytes copied. The buffers are not NULL.\<close>

definition sf_qpdecode :: "u8 list \<Rightarrow> nat \<Rightarrow> int \<times> nat \<times> u8 list" where
  "sf_qpdecode src dlen =
     (if src = [] \<or> dlen = 0 then (- 1, 0, [])
      else case qp_loop dlen src [] of (rest, out) \<Rightarrow> (0, length src - length rest, out))"

section \<open>Uuencode\<close>

definition UU_DECODE_CHAR :: "u8 \<Rightarrow> u8" where
  "UU_DECODE_CHAR c = (c - 0x20) AND 0x3f"

text \<open>\<open>SnortStrnStr\<close> of \<open>util.c\<close>: the index of the first occurrence in the first \<open>slen\<close> bytes.\<close>

fun strn_scan :: "u8 \<Rightarrow> u8 list \<Rightarrow> u8 list \<Rightarrow> nat \<Rightarrow> nat \<Rightarrow> nat option" where
  "strn_scan ch needle [] slen i = None"
| "strn_scan ch needle (nc # s) slen i =
     (if nc = 0 \<or> slen - 1 = 0 then None
      else if nc \<noteq> ch then strn_scan ch needle s (slen - 1) (i + 1)
      else if slen - 1 < length needle then None
      else if take (length needle) s = needle then Some i
      else strn_scan ch needle s (slen - 1) (i + 1))"

definition SnortStrnStr :: "u8 list \<Rightarrow> nat \<Rightarrow> u8 list \<Rightarrow> nat option" where
  "SnortStrnStr s slen searchstr =
     (if slen = 0 \<or> s = [] \<or> s ! 0 = 0 then None
      else case searchstr of [] \<Rightarrow> Some 0 | ch # needle \<Rightarrow> strn_scan ch needle s slen 0)"

text \<open>
  The line decoder reads up to one byte behind the source; \<open>past out\<close> is that byte after the bytes
  \<open>out\<close> have been written to the destination.
\<close>

definition uu_read :: "u8 list \<Rightarrow> (u8 list \<Rightarrow> u8) \<Rightarrow> u8 list \<Rightarrow> nat \<Rightarrow> u8" where
  "uu_read src past out i = (if i < length src then src ! i else past out)"

function (sequential) uu_line :: "(u8 list \<Rightarrow> nat \<Rightarrow> u8) \<Rightarrow> nat \<Rightarrow> nat \<Rightarrow> u8 list \<Rightarrow> nat \<times> u8 list" where
  "uu_line rd 0 ptr out = (ptr, out)"
| "uu_line rd len ptr out =
     (let ch = (\<lambda>out i. UU_DECODE_CHAR (rd out (ptr + i)));
          out = out @ [push_bit 2 (ch out 0) OR drop_bit 4 (ch out 1)]
      in if len - 1 = 0 then (ptr + 1, out)
         else let out = out @ [push_bit 4 (ch out 1) OR drop_bit 2 (ch out 2)]
         in if len - 2 = 0 then (ptr + 2, out)
            else let out = out @ [push_bit 6 (ch out 2) OR ch out 3]
            in uu_line rd (len - 4) (ptr + 4) out)"
  by pat_completeness auto
termination by (relation "measure (\<lambda>(rd, len, ptr, out). len)") auto

lemma uu_line_ptr: "p \<le> fst (uu_line rd len p out)"
proof (induction rd len p out rule: uu_line.induct)
  case (1 rd p out)
  show ?case by simp
next
  case (2 rd l p out)
  then show ?case by (fastforce simp: Let_def intro: order_trans [of p "p + 4"])
qed

text \<open>The main loop from \<open>ptr\<close>: the final \<open>ptr\<close>, whether the end was found, and the output.\<close>

function uu_loop :: "u8 list \<Rightarrow> (u8 list \<Rightarrow> u8) \<Rightarrow> nat \<Rightarrow> nat \<Rightarrow> bool \<Rightarrow> u8 list \<Rightarrow> nat \<times> bool \<times> u8 list" where
  "uu_loop src past dlen ptr sol out =
     (if \<not> (ptr < length src \<and> length out < dlen) then (ptr, False, out)
      else if src ! ptr = LF then uu_loop src past dlen (ptr + 1) True out
      else if sol then
        (let len = unat (UU_DECODE_CHAR (src ! ptr))
         in if len = 0 then (ptr, False, out)
            else if len = 5 \<and> src ! ptr = 101 then (ptr, True, out)
            else let len = min len (dlen - length out) * 4 div 3
                 in if length src - (ptr + 1) < len then (ptr, False, out)
                    else let r = uu_line (uu_read src past) len (ptr + 1) out
                         in uu_loop src past dlen (fst r) False (snd r))
      else uu_loop src past dlen (ptr + 1) False out)"
  by pat_completeness auto
termination
proof (relation "measure (\<lambda>(src, past, dlen, ptr, sol, out). length src - ptr)", goal_cases)
  case (3 src past dlen ptr sol out x xa r)
  then show ?case using uu_line_ptr [of "ptr + 1" "uu_read src past" xa out] by (simp add: diff_less_mono2 Suc_le_eq)
qed auto

declare uu_loop.simps [simp del]

text \<open>
  The return code, \<open>bytes_read\<close>, the bytes copied, \<open>begin_found\<close> and \<open>end_found\<close>. On the error
  return the callers' \<open>bytes_read\<close> is still the 0 they start with.
\<close>

definition sf_uudecode ::
  "u8 list \<Rightarrow> (u8 list \<Rightarrow> u8) \<Rightarrow> nat \<Rightarrow> u8 \<Rightarrow> u8 \<Rightarrow> int \<times> nat \<times> u8 list \<times> u8 \<times> u8" where
  "sf_uudecode src past dlen begin_found end_found =
     (if src = [] \<or> dlen = 0 then (- 1, 0, [], begin_found, end_found)
      else let decode = (\<lambda>ptr begin_found. case uu_loop src past dlen ptr True [] of
                 (ptr, e, out) \<Rightarrow> let end_found = (if e then 1 else end_found)
                                 in (0, if end_found \<noteq> 0 then length src else ptr, out, begin_found, end_found))
           in if begin_found \<noteq> 0 then decode 0 begin_found
              else if length src < 5 then (0, 0, [], begin_found, end_found)
              else case SnortStrnStr src 5 (map (\<lambda>c. of_nat (of_char c)) ''begin'') of
                     None \<Rightarrow> (- 1, 0, [], begin_found, end_found)
                   | Some sod \<Rightarrow>
                       (case SnortStrnStr (drop sod src) (length src - sod) [LF] of
                          None \<Rightarrow> (0, length src, [], 1, end_found)
                        | Some p \<Rightarrow> decode (sod + p) 1))"

section \<open>The decoder of a session\<close>

datatype DecodeType = DECODE_NONE | DECODE_B64 | DECODE_QP | DECODE_UU | DECODE_BITENC | DECODE_ALL

text \<open>A depth of 0 means unlimited, a negative one that the encoding is not decoded.\<close>

record Base64_DecodeState =
  encode_bytes_read :: u32
  decode_bytes_read :: u32
  encode_depth :: int
  decode_depth :: int

type_synonym QP_DecodeState = Base64_DecodeState

record UU_DecodeState = Base64_DecodeState +
  begin_found :: u8
  end_found :: u8

record BitEnc_DecodeState =
  be_bytes_read :: u32
  be_depth :: int

text \<open>
  The two buffers lie in one block the session gets from a pool. \<open>prev_encoded_buf\<close> points into
  \<open>encodeBuf\<close> and is the index there; \<open>decodePtr\<close> points to \<open>decodeBuf\<close> or to the packet.
\<close>

datatype decode_ptr = P_NULL | P_decodeBuf | P_packet "u8 list"

record Email_DecodeState =
  decode_type :: DecodeType
  decode_present :: u8
  prev_encoded_bytes :: nat
  prev_encoded_buf :: "nat option"
  decoded_bytes :: nat
  encodeBuf :: "u8 list option"
  decodeBuf :: "u8 list option"
  decodePtr :: decode_ptr
  b64_state :: Base64_DecodeState
  qp_state :: QP_DecodeState
  uu_state :: UU_DecodeState
  bitenc_state :: BitEnc_DecodeState

abbreviation DECODE_SUCCESS :: int where "DECODE_SUCCESS \<equiv> 0"
abbreviation DECODE_FAIL :: int where "DECODE_FAIL \<equiv> - 1"
abbreviation MAX_BUF :: nat where "MAX_BUF \<equiv> 65535"

definition ClearPrevEncodeBuf :: "Email_DecodeState \<Rightarrow> Email_DecodeState" where
  "ClearPrevEncodeBuf ds = ds\<lparr>prev_encoded_bytes := 0, prev_encoded_buf := None\<rparr>"

definition ResetDecodedBytes :: "Email_DecodeState \<Rightarrow> Email_DecodeState" where
  "ResetDecodedBytes ds = ds\<lparr>decodePtr := P_NULL, decoded_bytes := 0, decode_present := 0\<rparr>"

definition ResetEmailDecodeState :: "Email_DecodeState \<Rightarrow> Email_DecodeState" where
  "ResetEmailDecodeState ds =
     ClearPrevEncodeBuf (ResetDecodedBytes (ds\<lparr>uu_state := (uu_state ds)\<lparr>begin_found := 0, end_found := 0\<rparr>\<rparr>))"

definition ClearEmailDecodeState :: "Email_DecodeState \<Rightarrow> Email_DecodeState" where
  "ClearEmailDecodeState ds = ResetEmailDecodeState (ds\<lparr>decode_type := DECODE_NONE\<rparr>)"

definition SetEmailDecodeState ::
  "u8 list \<Rightarrow> nat \<Rightarrow> int \<Rightarrow> int \<Rightarrow> int \<Rightarrow> int \<Rightarrow> Email_DecodeState" where
  "SetEmailDecodeState data max_depth b64_depth qp_depth uu_depth bitenc_depth =
     (let max_depth = (if max_depth mod 8 \<noteq> 0 then max_depth + (8 - max_depth mod 8) else max_depth)
      in \<lparr>decode_type = DECODE_NONE, decode_present = 0, prev_encoded_bytes = 0, prev_encoded_buf = None,
          decoded_bytes = 0, encodeBuf = Some (take max_depth data), decodeBuf = Some (drop max_depth data),
          decodePtr = P_decodeBuf,
          b64_state = \<lparr>encode_bytes_read = 0, decode_bytes_read = 0, encode_depth = b64_depth, decode_depth = b64_depth\<rparr>,
          qp_state = \<lparr>encode_bytes_read = 0, decode_bytes_read = 0, encode_depth = qp_depth, decode_depth = qp_depth\<rparr>,
          uu_state = \<lparr>encode_bytes_read = 0, decode_bytes_read = 0, encode_depth = uu_depth, decode_depth = uu_depth,
                      begin_found = 0, end_found = 0\<rparr>,
          bitenc_state = \<lparr>be_bytes_read = 0, be_depth = bitenc_depth\<rparr>\<rparr>)"

text \<open>
  What the decoders share: the room left for encoded and for decoded bytes (\<open>None\<close> when the encoding
  is not decoded), and the copy of the bytes kept from the packet before to the start of the buffer.
\<close>

definition decode_room :: "'a Base64_DecodeState_scheme \<Rightarrow> (nat \<times> nat) option" where
  "decode_room st =
     (if encode_depth st = 0 then Some (MAX_BUF, MAX_BUF)
      else if encode_depth st < 0 then None
      else Some (unat (word_of_int (encode_depth st) - encode_bytes_read st),
                 unat (word_of_int (decode_depth st) - decode_bytes_read st)))"

definition write_at :: "nat \<Rightarrow> u8 list \<Rightarrow> u8 list \<Rightarrow> u8 list" where
  "write_at off bs buf = take off buf @ bs @ drop (off + length bs) buf"

definition carry_prev :: "nat \<Rightarrow> u8 list \<Rightarrow> Email_DecodeState \<Rightarrow> nat \<times> u8 list \<times> Email_DecodeState" where
  "carry_prev encode_avail buf ds =
     (if prev_encoded_bytes ds = 0 then (0, buf, ds)
      else let p = min (prev_encoded_bytes ds) encode_avail
           in case prev_encoded_buf ds of
                None \<Rightarrow> (0, buf, ds\<lparr>prev_encoded_bytes := p\<rparr>)
              | Some off \<Rightarrow> (p, write_at 0 (take p (drop off buf)) buf, ds\<lparr>prev_encoded_bytes := 0\<rparr>))"

definition count_bytes :: "nat \<Rightarrow> nat \<Rightarrow> 'a Base64_DecodeState_scheme \<Rightarrow> 'a Base64_DecodeState_scheme" where
  "count_bytes e d st = st\<lparr>encode_bytes_read := encode_bytes_read st + of_nat e,
     decode_bytes_read := decode_bytes_read st + of_nat d\<rparr>"

definition Base64Decode :: "u8 list \<Rightarrow> Email_DecodeState \<Rightarrow> int \<times> Email_DecodeState" where
  "Base64Decode pkt ds =
     (case decode_room (b64_state ds) of
        None \<Rightarrow> (DECODE_FAIL, ds)
      | Some (encode_avail, decode_avail) \<Rightarrow>
          (case (encodeBuf ds, decodeBuf ds) of
             (Some encode_buf, Some decode_buf) \<Rightarrow>
               (if encode_avail = 0 \<or> decode_avail = 0 then (DECODE_FAIL, ResetEmailDecodeState ds)
                else case carry_prev encode_avail encode_buf ds of
                  (prev_bytes, encode_buf, ds) \<Rightarrow>
                    let encode_avail = encode_avail - prev_bytes;
                        stripped = sf_strip_CRLF pkt encode_avail;
                        encode_buf = write_at prev_bytes stripped encode_buf;
                        tot = length stripped + prev_bytes;
                        i = tot mod 4;
                        act_encode_size = tot - i;
                        ds = (if i \<noteq> 0 then ds\<lparr>prev_encoded_bytes := i, prev_encoded_buf := Some act_encode_size\<rparr> else ds)
                    in case sf_base64decode (take act_encode_size encode_buf) decode_avail of
                         (ret, out) \<Rightarrow>
                           let ds = ds\<lparr>encodeBuf := Some encode_buf, decodeBuf := Some (write_at 0 out decode_buf)\<rparr>
                           in if ret \<noteq> 0 \<or> out = [] \<and> encode_avail = 0
                              then (DECODE_FAIL, ResetEmailDecodeState ds)
                              else (DECODE_SUCCESS,
                                    ds\<lparr>decode_present := 1, decodePtr := P_decodeBuf, decoded_bytes := length out,
                                       b64_state := count_bytes act_encode_size (length out) (b64_state ds)\<rparr>))
           | _ \<Rightarrow> (DECODE_FAIL, ResetEmailDecodeState ds)))"

text \<open>Quoted-printable and uuencode keep what their loops have not read.\<close>

definition keep_rest :: "nat \<Rightarrow> nat \<Rightarrow> Email_DecodeState \<Rightarrow> Email_DecodeState" where
  "keep_rest act_encode_size bytes_read ds =
     (if bytes_read < act_encode_size
      then ds\<lparr>prev_encoded_bytes := act_encode_size - bytes_read, prev_encoded_buf := Some bytes_read\<rparr> else ds)"

definition QPDecode :: "u8 list \<Rightarrow> Email_DecodeState \<Rightarrow> int \<times> Email_DecodeState" where
  "QPDecode pkt ds =
     (case decode_room (qp_state ds) of
        None \<Rightarrow> (DECODE_FAIL, ds)
      | Some (encode_avail, decode_avail) \<Rightarrow>
          (case (encodeBuf ds, decodeBuf ds) of
             (Some encode_buf, Some decode_buf) \<Rightarrow>
               (if encode_avail = 0 \<or> decode_avail = 0 then (DECODE_FAIL, ResetEmailDecodeState ds)
                else case carry_prev encode_avail encode_buf ds of
                  (prev_bytes, encode_buf, ds) \<Rightarrow>
                    let encode_avail = encode_avail - prev_bytes;
                        stripped = sf_strip_LWS pkt encode_avail;
                        encode_buf = write_at prev_bytes stripped encode_buf;
                        tot = length stripped + prev_bytes
                    in case sf_qpdecode (take tot encode_buf) decode_avail of
                         (ret, bytes_read, out) \<Rightarrow>
                           let ds = ds\<lparr>encodeBuf := Some encode_buf, decodeBuf := Some (write_at 0 out decode_buf)\<rparr>
                           in if ret \<noteq> 0 \<or> out = [] \<and> encode_avail = 0
                              then (DECODE_FAIL, ResetEmailDecodeState ds)
                              else (DECODE_SUCCESS,
                                    (keep_rest tot bytes_read ds)\<lparr>decode_present := 1, decodePtr := P_decodeBuf,
                                       decoded_bytes := length out,
                                       qp_state := count_bytes (min bytes_read tot) (length out) (qp_state ds)\<rparr>))
           | _ \<Rightarrow> (DECODE_FAIL, ResetEmailDecodeState ds)))"

text \<open>
  The byte behind the uuencoded data is the next one of \<open>encodeBuf\<close>, or the first one of
  \<open>decodeBuf\<close>, which lies behind it.
\<close>

definition uu_past :: "nat \<Rightarrow> u8 list \<Rightarrow> u8 list \<Rightarrow> u8 list \<Rightarrow> u8" where
  "uu_past tot encode_buf decode_buf out =
     (if tot < length encode_buf then encode_buf ! tot else hd (write_at 0 out decode_buf))"

definition clear_begin :: "Email_DecodeState \<Rightarrow> Email_DecodeState" where
  "clear_begin ds = ds\<lparr>uu_state := (uu_state ds)\<lparr>begin_found := 0\<rparr>\<rparr>"

text \<open>\<open>SafeMemcpy\<close> refuses to copy no bytes; its bounds hold.\<close>

definition UUDecode :: "u8 list \<Rightarrow> Email_DecodeState \<Rightarrow> int \<times> Email_DecodeState" where
  "UUDecode pkt ds =
     (case decode_room (uu_state ds) of
        None \<Rightarrow> (DECODE_FAIL, clear_begin ds)
      | Some (encode_avail, decode_avail) \<Rightarrow>
          (case (encodeBuf ds, decodeBuf ds) of
             (Some encode_buf, Some decode_buf) \<Rightarrow>
               (if encode_avail = 0 \<or> decode_avail = 0 then (DECODE_FAIL, ResetEmailDecodeState (clear_begin ds))
                else case carry_prev encode_avail encode_buf ds of
                  (prev_bytes, encode_buf, ds) \<Rightarrow>
                    let encode_avail = encode_avail - prev_bytes;
                        copied = take encode_avail pkt;
                        encode_buf = write_at prev_bytes copied encode_buf;
                        tot = length copied + prev_bytes
                    in if copied = [] \<and> encode_avail > 0
                    then (DECODE_FAIL, ResetEmailDecodeState (ds\<lparr>encodeBuf := Some encode_buf\<rparr>))
                    else case sf_uudecode (take tot encode_buf) (uu_past tot encode_buf decode_buf) decode_avail
                              (begin_found (uu_state ds)) (end_found (uu_state ds)) of
                         (ret, bytes_read, out, bf, ef) \<Rightarrow>
                           let ds = ds\<lparr>encodeBuf := Some encode_buf, decodeBuf := Some (write_at 0 out decode_buf),
                                 uu_state := (uu_state ds)\<lparr>begin_found := bf, end_found := ef\<rparr>\<rparr>
                           in if ret \<noteq> 0 \<or> out = [] \<and> encode_avail = 0
                              then (DECODE_FAIL, ResetEmailDecodeState ds)
                              else
                                let ds = (if ef \<noteq> 0
                                      then ds\<lparr>uu_state := (uu_state ds)\<lparr>begin_found := 0, end_found := 0\<rparr>, decode_type := DECODE_NONE\<rparr>
                                      else ds)
                                in (DECODE_SUCCESS,
                                    (keep_rest tot bytes_read ds)\<lparr>decode_present := 1, decodePtr := P_decodeBuf,
                                       decoded_bytes := length out,
                                       uu_state := count_bytes (min bytes_read tot) (length out) (uu_state ds)\<rparr>))
           | _ \<Rightarrow> (DECODE_FAIL, ResetEmailDecodeState (clear_begin ds))))"

definition BitEncExtract :: "u8 list \<Rightarrow> Email_DecodeState \<Rightarrow> int \<times> Email_DecodeState" where
  "BitEncExtract pkt ds =
     (let ds = ClearPrevEncodeBuf ds; st = bitenc_state ds
      in if be_depth st < 0 then (DECODE_FAIL, ds)
         else let bytes_avail = (if be_depth st = 0 then MAX_BUF else unat (word_of_int (be_depth st) - be_bytes_read st))
              in if bytes_avail = 0 then (DECODE_FAIL, ResetEmailDecodeState ds)
                 else let act_size = min (length pkt) bytes_avail
                      in (DECODE_SUCCESS,
                          ds\<lparr>decode_present := 1, decodePtr := P_packet pkt, decoded_bytes := act_size,
                             bitenc_state := st\<lparr>be_bytes_read := be_bytes_read st + of_nat act_size\<rparr>\<rparr>))"

definition EmailDecode :: "u8 list \<Rightarrow> Email_DecodeState \<Rightarrow> int \<times> Email_DecodeState" where
  "EmailDecode pkt ds =
     (case decode_type ds of
        DECODE_B64 \<Rightarrow> Base64Decode pkt ds
      | DECODE_QP \<Rightarrow> QPDecode pkt ds
      | DECODE_UU \<Rightarrow> UUDecode pkt ds
      | DECODE_BITENC \<Rightarrow> BitEncExtract pkt ds
      | _ \<Rightarrow> (DECODE_FAIL, ds))"

text \<open>The decoded bytes a caller reads through \<open>decodePtr\<close>.\<close>

definition decoded_data :: "Email_DecodeState \<Rightarrow> u8 list" where
  "decoded_data ds =
     (case decodePtr ds of
        P_NULL \<Rightarrow> []
      | P_decodeBuf \<Rightarrow> (case decodeBuf ds of None \<Rightarrow> [] | Some buf \<Rightarrow> take (decoded_bytes ds) buf)
      | P_packet pkt \<Rightarrow> take (decoded_bytes ds) pkt)"

section \<open>The rule option base64_decode\<close>

record Base64DecodeData =
  bd_bytes_to_decode :: u32
  bd_offset :: u32
  bd_flags :: u8

abbreviation BASE64DECODE_RELATIVE_FLAG :: u8 where "BASE64DECODE_RELATIVE_FLAG \<equiv> 1"
abbreviation DECODE_BLEN :: nat where "DECODE_BLEN \<equiv> 65535"

text \<open>
  \<open>mem\<close> is the memory from \<open>p->data\<close> on, of which \<open>dsize\<close> bytes are the payload; \<open>doe_ptr\<close> is an
  index into it, kept in range by the other rule options. The result is the match and the bytes in
  \<open>base64_decode_buf\<close>. The data pointer and the option are not NULL.
\<close>

definition Base64DecodeEval ::
  "Base64DecodeData \<Rightarrow> nat option \<Rightarrow> nat \<Rightarrow> (nat \<Rightarrow> u8) \<Rightarrow> bool \<times> u8 list" where
  "Base64DecodeEval idx doe_ptr dsize mem =
     (if dsize = 0 then (False, [])
      else let start = (if bd_flags idx AND BASE64DECODE_RELATIVE_FLAG \<noteq> 0
                        then (case doe_ptr of None \<Rightarrow> 0 | Some d \<Rightarrow> d) else 0) + unat (bd_offset idx)
           in if dsize < start then (False, [])
              else let buf = fst (sf_unfold_header (map (\<lambda>i. mem (start + i)) [0 ..< dsize]) DECODE_BLEN False);
                       buf = (if bd_bytes_to_decode idx \<noteq> 0 \<and> unat (bd_bytes_to_decode idx) < length buf
                              then take (unat (bd_bytes_to_decode idx)) buf else buf)
                   in case sf_base64decode buf DECODE_BLEN of (ret, out) \<Rightarrow> (ret = 0, out))"

end
