(* ===== verification/MailStream.thy ===== *)
theory MailStream
  imports MailDecode
begin

text \<open>
  What holds of the attachment decoders of \<open>MailDecode\<close>: base64 is inverted however the packets cut
  it, every decoder stays inside the buffers of its session (the locale \<open>session_decoder\<close> states
  this contract, each decoder is an interpretation of it), and the two places where a length is not
  respected, in \<open>sf_unfold_header\<close> and in the option \<open>base64_decode\<close>.
\<close>

section \<open>Base64\<close>

definition b64_digit :: "u8 \<Rightarrow> u8" where
  "b64_digit v = (if v < 26 then v + 65 else if v < 52 then v + 71 else if v < 62 then v - 4
     else if v = 62 then 43 else 47)"

text \<open>The four sextets of three bytes.\<close>

definition six0 :: "u8 \<Rightarrow> u8" where "six0 a = drop_bit 2 a"
definition six1 :: "u8 \<Rightarrow> u8 \<Rightarrow> u8" where "six1 a b = push_bit 4 (a AND 3) OR drop_bit 4 b"
definition six2 :: "u8 \<Rightarrow> u8 \<Rightarrow> u8" where "six2 b c = push_bit 2 (b AND 15) OR drop_bit 6 c"
definition six3 :: "u8 \<Rightarrow> u8" where "six3 c = c AND 63"

fun encode64 :: "u8 list \<Rightarrow> u8 list" where
  "encode64 [] = []"
| "encode64 [a] = [b64_digit (six0 a), b64_digit (six1 a 0), EQ, EQ]"
| "encode64 [a, b] = [b64_digit (six0 a), b64_digit (six1 a b), b64_digit (six2 b 0), EQ]"
| "encode64 (a # b # c # cs) =
     b64_digit (six0 a) # b64_digit (six1 a b) # b64_digit (six2 b c) # b64_digit (six3 c) # encode64 cs"

lemma less_64_cases: "(v :: u8) < 64 \<Longrightarrow> v \<in> set (map of_nat [0 ..< 64])"
  by (auto simp: image_iff word_less_nat_alt intro!: bexI [of _ "unat v"])

lemma b64_digit_table:
  assumes "v < 64"
  shows "sf_decode64tab (b64_digit v) = v" and "b64_digit v \<noteq> EQ" and "b64_digit v \<noteq> LF" and "b64_digit v \<noteq> CR"
    and "v \<noteq> 100"
proof -
  have *: "\<forall>v\<in>set (map of_nat [0 ..< 64]). sf_decode64tab (b64_digit v) = v \<and> b64_digit v \<noteq> EQ \<and>
      b64_digit v \<noteq> LF \<and> b64_digit v \<noteq> CR \<and> v \<noteq> 100"
    by code_simp
  with less_64_cases [OF assms] show "sf_decode64tab (b64_digit v) = v" "b64_digit v \<noteq> EQ"
    "b64_digit v \<noteq> LF" "b64_digit v \<noteq> CR" "v \<noteq> 100" by blast+
qed

lemma u8_masks: "(3 :: u8) = mask 2" "(15 :: u8) = mask 4" "(63 :: u8) = mask 6"
  by (simp_all add: mask_eq_exp_minus_1)

lemma u8_eqI:
  fixes v w :: u8
  assumes "bit v 0 = bit w 0" "bit v 1 = bit w 1" "bit v 2 = bit w 2" "bit v 3 = bit w 3"
    "bit v 4 = bit w 4" "bit v 5 = bit w 5" "bit v 6 = bit w 6" "bit v 7 = bit w 7"
  shows "v = w"
proof (rule bit_word_eqI)
  fix n assume "n < LENGTH(8)"
  then have "n = 0 \<or> n = 1 \<or> n = 2 \<or> n = 3 \<or> n = 4 \<or> n = 5 \<or> n = 6 \<or> n = 7" by (simp; presburger)
  then show "bit v n = bit w n" using assms by fast
qed

lemma less_64_bits:
  assumes "\<not> bit (w :: u8) 6" and "\<not> bit w 7"
  shows "w < 64"
proof -
  have "w = w AND mask 6" by (rule u8_eqI) (simp_all add: bit_simps assms)
  then have "w \<le> mask 6" by (metis word_and_le1)
  also have "mask 6 < (64 :: u8)" by (simp add: mask_eq_exp_minus_1)
  finally show ?thesis .
qed

lemma six_less: "six0 a < 64" "six1 a b < 64" "six2 b c < 64" "six3 c < 64"
  unfolding six0_def six1_def six2_def six3_def u8_masks
  by (rule less_64_bits; simp add: bit_simps impossible_bit)+

lemma six_decode:
  "push_bit 2 (six0 a) OR drop_bit 4 (six1 a b) = a"
  "push_bit 4 (six1 a b) OR drop_bit 2 (six2 b c) = b"
  "push_bit 6 (six2 b c) OR six3 c = c"
  unfolding six0_def six1_def six2_def six3_def u8_masks
  by (rule u8_eqI; simp add: bit_simps impossible_bit)+

lemmas six_table = six_decode b64_digit_table [OF six_less(1)] b64_digit_table [OF six_less(2)]
  b64_digit_table [OF six_less(3)] b64_digit_table [OF six_less(4)]

lemma table_EQ: "sf_decode64tab EQ = 99"
  by (simp add: sf_decode64tab_def)

lemma take_drop_34:
  "take (4 + n) (w # x # y # z # cs) = w # x # y # z # take n cs" "drop (4 + n) (w # x # y # z # cs) = drop n cs"
  "take (3 + n) (x # y # z # cs) = x # y # z # take n cs" "drop (3 + n) (x # y # z # cs) = drop n cs"
  by (simp_all add: numeral_eq_Suc)

lemma length_encode64: "length (encode64 d) = 4 * ((length d + 2) div 3)"
proof (induction d rule: encode64.induct)
  case (4 a b c cs)
  have "(length cs + 5) div 3 = (length cs + 2) div 3 + 1" by presburger
  with 4 show ?case by (simp add: algebra_simps)
qed simp_all

lemma drop_encode64: "drop (4 * k) (encode64 d) = encode64 (drop (3 * k) d)"
proof (induction d arbitrary: k rule: encode64.induct)
  case (4 a b c cs)
  then show ?case by (cases k) (simp_all add: take_drop_34)
qed (case_tac k; simp)+

lemma take_encode64: "take (4 * k) (encode64 d) = encode64 (take (3 * k) d)"
proof (induction d arbitrary: k rule: encode64.induct)
  case (4 a b c cs)
  then show ?case by (cases k) (simp_all add: take_drop_34)
qed (case_tac k; simp)+

lemma encode64_digits: "c \<in> set (encode64 d) \<Longrightarrow> sf_decode64tab c \<noteq> 100 \<and> c \<noteq> LF \<and> c \<noteq> CR"
  by (induction d rule: encode64.induct) (auto simp: six_table table_EQ)

lemma b64_collect:
  "n mod 4 \<noteq> 3 \<Longrightarrow> n < mx \<Longrightarrow> sf_decode64tab c \<noteq> 100 \<Longrightarrow>
   b64_loop osz mx (c # cs) n g out = b64_loop osz mx cs (n + 1) (g @ [c]) out"
proof -
  assume "n mod 4 \<noteq> 3" "n < mx" "sf_decode64tab c \<noteq> 100"
  moreover from this have "(n + 1) mod 4 \<noteq> 0" by presburger
  ultimately show ?thesis by (simp add: Let_def)
qed

lemma b64_full:
  "n mod 4 = 3 \<Longrightarrow> n < mx \<Longrightarrow> sf_decode64tab c \<noteq> 100 \<Longrightarrow>
   b64_loop osz mx (c # cs) n g out =
    (if (g @ [c]) ! 0 = EQ \<or> (g @ [c]) ! 1 = EQ then (- 1, out)
     else case b64_group osz (g @ [c]) out of
            (out, True) \<Rightarrow> b64_loop osz mx cs (Suc n) [] out
          | (out, False) \<Rightarrow> (0, out))"
proof -
  assume "n mod 4 = 3" "n < mx" "sf_decode64tab c \<noteq> 100"
  moreover from this have "(n + 1) mod 4 = 0" by presburger
  ultimately show ?thesis by (simp add: Let_def)
qed

lemma b64_loop4:
  assumes "n mod 4 = 0" and "n + 4 \<le> mx" and "\<forall>c\<in>{w, x, y, z}. sf_decode64tab c \<noteq> 100"
  shows "b64_loop osz mx (w # x # y # z # cs) n [] out =
    (if w = EQ \<or> x = EQ then (- 1, out)
     else case b64_group osz [w, x, y, z] out of
            (out, True) \<Rightarrow> b64_loop osz mx cs (Suc (Suc (Suc (Suc n)))) [] out
          | (out, False) \<Rightarrow> (0, out))"
proof -
  have m: "n mod 4 \<noteq> 3" "Suc n mod 4 \<noteq> 3" "Suc (Suc n) mod 4 \<noteq> 3" "Suc (Suc (Suc n)) mod 4 = 3"
    using assms(1) by presburger+
  show ?thesis using assms(2,3) m by (simp add: b64_collect b64_full del: b64_loop.simps cong: if_cong)
qed

declare b64_loop.simps(2) [simp del]

lemma b64_loop_encode:
  "n mod 4 = 0 \<Longrightarrow> length out + length d \<le> osz \<Longrightarrow> n + length (encode64 d) \<le> mx \<Longrightarrow>
   b64_loop osz mx (encode64 d) n [] out = (0, out @ d)"
proof (induction d arbitrary: n out rule: encode64.induct)
  case 1
  then show ?case by simp
next
  case (2 a)
  then show ?case
    by (simp add: b64_loop4 six_table table_EQ b64_group_def Let_def)
next
  case (3 a b)
  then show ?case
    by (simp add: b64_loop4 six_table table_EQ b64_group_def Let_def)
next
  case (4 a b c cs)
  then show ?case
    by (simp add: b64_loop4 six_table b64_group_def Let_def)
qed

lemma sf_base64decode_encode: "length d \<le> osz \<Longrightarrow> sf_base64decode (encode64 d) osz = (0, d)"
proof -
  assume l: "length d \<le> osz"
  then have "(length d + 2) div 3 \<le> (osz + 3) div 3" by (intro div_le_mono) simp
  also have "\<dots> = osz div 3 + 1" by simp
  finally have "length (encode64 d) \<le> osz div 3 * 4 + 4" by (simp add: length_encode64 del: add_2_eq_Suc')
  with l show ?thesis by (simp add: sf_base64decode_def b64_loop_encode)
qed

section \<open>The state of a session\<close>

text \<open>Bytes read within the depths, buffers as long as the depths.\<close>

definition room_ok :: "nat \<Rightarrow> nat \<Rightarrow> 'a Base64_DecodeState_scheme \<Rightarrow> bool" where
  "room_ok le ld st \<longleftrightarrow>
     decode_depth st = encode_depth st \<and> encode_depth st < 2 ^ 31 \<and>
     (encode_depth st = 0 \<longrightarrow> MAX_BUF \<le> le \<and> MAX_BUF \<le> ld) \<and>
     (0 < encode_depth st \<longrightarrow> encode_depth st \<le> int le \<and> encode_depth st \<le> int ld \<and>
        int (unat (encode_bytes_read st)) \<le> encode_depth st \<and> int (unat (decode_bytes_read st)) \<le> encode_depth st)"

definition mail_wf :: "nat \<Rightarrow> nat \<Rightarrow> Email_DecodeState \<Rightarrow> bool" where
  "mail_wf le ld ds \<longleftrightarrow>
     (\<exists>eb. encodeBuf ds = Some eb \<and> length eb = le) \<and>
     (\<exists>db. decodeBuf ds = Some db \<and> length db = ld) \<and>
     room_ok le ld (b64_state ds) \<and> room_ok le ld (qp_state ds) \<and> room_ok le ld (uu_state ds) \<and>
     (prev_encoded_bytes ds \<noteq> 0 \<longrightarrow>
        (\<exists>off. prev_encoded_buf ds = Some off \<and> off + prev_encoded_bytes ds \<le> le)) \<and>
     (decodePtr ds = P_decodeBuf \<longrightarrow> decoded_bytes ds \<le> ld) \<and>
     (\<forall>pkt. decodePtr ds = P_packet pkt \<longrightarrow> decoded_bytes ds \<le> length pkt) \<and>
     (decodePtr ds = P_NULL \<longrightarrow> decoded_bytes ds = 0)"

lemma length_write_at: "off + length bs \<le> length buf \<Longrightarrow> length (write_at off bs buf) = length buf"
  by (simp add: write_at_def)

lemma take_write_at: "off + length bs \<le> length buf \<Longrightarrow> take (off + length bs) (write_at off bs buf) = take off buf @ bs"
  by (simp add: write_at_def)

lemma unat_room:
  fixes r :: u32
  assumes "0 \<le> n" and "n < 2 ^ 31" and "int (unat r) \<le> n"
  shows "int (unat (word_of_int n - r)) = n - int (unat r)"
proof -
  have w: "unat (word_of_int n :: u32) = nat n"
    using assms(1,2) by (simp add: unat_eq_nat_uint uint_word_of_int)
  have "unat (word_of_int n - r) = unat (word_of_int n :: u32) - unat r"
    using assms(1,3) by (intro unat_minus_no_wrap) (simp add: w le_nat_iff del: of_nat_unat)
  then show ?thesis using assms by (simp add: w of_nat_diff le_nat_iff del: of_nat_unat)
qed

lemma decode_room_bounds:
  assumes "room_ok le ld st" and "decode_room st = Some (ea, da)"
  shows "ea \<le> le" and "da \<le> ld"
    and "encode_depth st = 0 \<Longrightarrow> ea = MAX_BUF \<and> da = MAX_BUF"
    and "encode_depth st \<noteq> 0 \<Longrightarrow> int ea = encode_depth st - int (unat (encode_bytes_read st))"
    and "encode_depth st \<noteq> 0 \<Longrightarrow> int da = encode_depth st - int (unat (decode_bytes_read st))"
proof -
  show z: "encode_depth st = 0 \<Longrightarrow> ea = MAX_BUF \<and> da = MAX_BUF"
    using assms by (simp add: decode_room_def)
  show e: "encode_depth st \<noteq> 0 \<Longrightarrow> int ea = encode_depth st - int (unat (encode_bytes_read st))"
    using assms by (auto simp: decode_room_def room_ok_def unat_room split: if_splits simp del: of_nat_unat)
  show d: "encode_depth st \<noteq> 0 \<Longrightarrow> int da = encode_depth st - int (unat (decode_bytes_read st))"
    using assms by (auto simp: decode_room_def room_ok_def unat_room split: if_splits simp del: of_nat_unat)
  have p: "encode_depth st \<noteq> 0 \<Longrightarrow> 0 < encode_depth st"
    using assms(2) by (auto simp: decode_room_def split: if_splits)
  show "ea \<le> le" using assms(1) z e p by (cases "encode_depth st = 0") (auto simp: room_ok_def simp del: of_nat_unat)
  show "da \<le> ld" using assms(1) z d p by (cases "encode_depth st = 0") (auto simp: room_ok_def simp del: of_nat_unat)
qed

lemma count_read:
  fixes r :: u32
  assumes "int (unat r) + int e < 4294967296"
  shows "unat (r + of_nat e) = unat r + e"
proof -
  have "e < 4294967296" using assms by linarith
  then have "unat (of_nat e :: u32) = e" by (simp add: unat_of_nat take_bit_nat_eq_self)
  with assms show ?thesis by (subst unat_plus_no_wrap) (simp_all del: of_nat_unat)
qed

lemma room_ok_count:
  assumes "room_ok le ld st" and "decode_room st = Some (ea, da)" and "e \<le> ea" and "d \<le> da"
  shows "room_ok le ld (count_bytes e d st)"
proof (cases "encode_depth st = 0")
  case True
  with assms(1) show ?thesis by (simp add: room_ok_def count_bytes_def)
next
  case False
  note b = decode_room_bounds [OF assms(1,2)]
  from assms(1) have l: "encode_depth st < 2147483648" by (simp add: room_ok_def)
  have "unat (encode_bytes_read st + of_nat e) = unat (encode_bytes_read st) + e"
    using b(4) [OF False] assms(3) l by (intro count_read) linarith
  moreover have "unat (decode_bytes_read st + of_nat d) = unat (decode_bytes_read st) + d"
    using b(5) [OF False] assms(4) l by (intro count_read) linarith
  ultimately show ?thesis using assms(1,3,4) b(4,5) False
    by (simp add: room_ok_def count_bytes_def del: of_nat_unat)
qed

lemma carry_prev_ok:
  assumes wf: "mail_wf le ld ds" and eb: "encodeBuf ds = Some eb"
    and c: "carry_prev ea eb ds = (p, eb', ds')"
  shows "p = min (prev_encoded_bytes ds) ea" and "length eb' = le" and "ds' = ds\<lparr>prev_encoded_bytes := 0\<rparr>"
    and "take p eb' = take p (drop (the (prev_encoded_buf ds)) eb)"
proof -
  have l: "length eb = le" using wf eb by (auto simp: mail_wf_def)
  have "p = min (prev_encoded_bytes ds) ea \<and> length eb' = le \<and> ds' = ds\<lparr>prev_encoded_bytes := 0\<rparr> \<and>
      take p eb' = take p (drop (the (prev_encoded_buf ds)) eb)"
  proof (cases "prev_encoded_bytes ds = 0")
    case True
    with c l show ?thesis by (auto simp: carry_prev_def)
  next
    case False
    with wf obtain off where "prev_encoded_buf ds = Some off" "off + prev_encoded_bytes ds \<le> le"
      by (auto simp: mail_wf_def)
    with c l False show ?thesis
      by (auto simp: carry_prev_def Let_def length_write_at write_at_def min_def)
  qed
  then show "p = min (prev_encoded_bytes ds) ea" "length eb' = le" "ds' = ds\<lparr>prev_encoded_bytes := 0\<rparr>"
    "take p eb' = take p (drop (the (prev_encoded_buf ds)) eb)" by blast+
qed

section \<open>Bounds of the decoding loops\<close>

lemma b64_group_length: "length out \<le> osz \<Longrightarrow> b64_group osz g out = (out', k) \<Longrightarrow> length out' \<le> osz"
  by (auto simp: b64_group_def Let_def split: if_splits)

lemma b64_loop_length: "length out \<le> osz \<Longrightarrow> length (snd (b64_loop osz mx cs n g out)) \<le> osz"
proof (induction cs arbitrary: n g out)
  case (Cons c cs)
  then show ?case
    by (auto simp: b64_loop.simps Let_def dest: b64_group_length split: prod.split bool.split)
qed simp

lemma base64_out: "sf_base64decode cs osz = (ret, out) \<Longrightarrow> length out \<le> osz"
  using b64_loop_length [of "[]" osz "osz div 3 * 4 + 4" cs 0 "[]"] by (simp add: sf_base64decode_def)

lemma strip_CRLF_length: "length (sf_strip_CRLF cs osz) \<le> osz"
  by (simp add: sf_strip_CRLF_def)

lemma lws_loop_length: "length out \<le> osz \<Longrightarrow> length (lws_loop osz cs lws out) \<le> osz"
proof (induction osz cs lws out rule: lws_loop.induct)
  case (2 osz c cs lws out)
  have "length (dropWhile is_lws (rev out)) \<le> length out" by (metis length_dropWhile_le length_rev)
  with 2 show ?case by (auto simp: not_less)
qed simp

lemma strip_LWS_length: "length (sf_strip_LWS cs osz) \<le> osz"
  by (simp add: sf_strip_LWS_def lws_loop_length)

lemma qp_loop_bounds:
  "length out \<le> osz \<Longrightarrow> length (snd (qp_loop osz cs out)) \<le> osz \<and> length (fst (qp_loop osz cs out)) \<le> length cs"
proof (induction osz cs out rule: qp_loop.induct)
  case (2 osz c cs out)
  show ?case
  proof (cases "length out < osz \<and> c = EQ")
    case False
    with 2 show ?thesis by auto
  next
    case t: True
    show ?thesis
    proof (cases cs)
      case Nil
      with t show ?thesis by simp
    next
      case c1: (Cons c1 rest)
      show ?thesis
      proof (cases "c1 = LF")
        case True
        with 2(2) [OF _ _ c1] 2(6) t c1 show ?thesis by simp
      next
        case f: False
        show ?thesis
        proof (cases rest)
          case Nil
          with t c1 f 2(6) show ?thesis by simp
        next
          case c2: (Cons c2 rest2)
          with t c1 f 2(3,4) [OF _ _ c1 f c2] 2(5) [OF _ _ c1 f c2] 2(6) show ?thesis by auto
        qed
      qed
    qed
  qed
qed simp

lemma qp_out: "sf_qpdecode cs osz = (ret, n, out) \<Longrightarrow> length out \<le> osz \<and> n \<le> length cs"
  using qp_loop_bounds [of "[]" osz cs] by (auto simp: sf_qpdecode_def split: if_splits prod.splits)

text \<open>A line with \<open>l\<close> decoded bytes takes \<open>l * 4 div 3\<close> encoded ones.\<close>

lemma uu_line_four: "\<exists>out'. length out' = length out + 3 \<and> uu_line rd (k + 4) p out = uu_line rd k (p + 4) out'"
proof -
  let ?c = "\<lambda>out i. UU_DECODE_CHAR (rd out (p + i))"
  let ?o1 = "out @ [push_bit 2 (?c out 0) OR drop_bit 4 (?c out 1)]"
  let ?o2 = "?o1 @ [push_bit 4 (?c ?o1 1) OR drop_bit 2 (?c ?o1 2)]"
  let ?o3 = "?o2 @ [push_bit 6 (?c ?o2 2) OR ?c ?o2 3]"
  have "uu_line rd (Suc (k + 3)) p out = uu_line rd k (p + 4) ?o3" unfolding uu_line.simps(2) by (simp add: Let_def)
  then show ?thesis by (intro exI [of _ ?o3]) (simp add: eval_nat_numeral)
qed

lemma uu_line_bounds:
  "len mod 4 \<noteq> 3 \<Longrightarrow>
   fst (uu_line rd len p out) = p + len \<and> length (snd (uu_line rd len p out)) = length out + (len - len div 4)"
proof (induction len arbitrary: p out rule: less_induct)
  case (less len)
  show ?case
  proof (cases "len < 4")
    case True
    with less.prems have "len = 0 \<or> len = Suc 0 \<or> len = Suc (Suc 0)" by presburger
    then show ?thesis by (auto simp: Let_def)
  next
    case False
    then obtain k where k: "len = k + 4" by (metis add.commute le_Suc_ex not_less)
    with less.prems have m: "k mod 4 \<noteq> 3" by simp
    have d: "(k + 4) div 4 = k div 4 + 1" "k div 4 \<le> k" by simp_all
    obtain out' where o: "length out' = length out + 3" "uu_line rd (k + 4) p out = uu_line rd k (p + 4) out'"
      using uu_line_four by blast
    show ?thesis using less.IH [of k "p + 4" out'] m d unfolding k o(2) by (simp add: o(1))
  qed
qed

lemma uu_line_size: "(l * 4 div 3) mod 4 \<noteq> (3 :: nat)" "l * 4 div 3 - (l * 4 div 3) div 4 = (l :: nat)"
proof -
  obtain q r where l: "l = 3 * q + r" "r < 3" by (metis mult_div_mod_eq mod_less_divisor zero_less_numeral)
  then have "r = 0 \<or> r = 1 \<or> r = 2" by linarith
  then have d: "l * 4 div 3 = 4 * q + r" using l(1) by auto
  show "(l * 4 div 3) mod 4 \<noteq> 3" using l(2) unfolding d by simp
  show "l * 4 div 3 - (l * 4 div 3) div 4 = l" using l unfolding d by simp
qed

lemma uu_loop_bounds:
  "length out \<le> dlen \<Longrightarrow> p \<le> length src \<Longrightarrow>
   length (snd (snd (uu_loop src past dlen p sol out))) \<le> dlen \<and> fst (uu_loop src past dlen p sol out) \<le> length src"
proof (induction src past dlen p sol out rule: uu_loop.induct)
  case (1 src past dlen p sol out)
  let ?u = "unat (UU_DECODE_CHAR (src ! p))"
  let ?L = "min ?u (dlen - length out)"
  let ?r = "uu_line (uu_read src past) (?L * 4 div 3) (p + 1) out"
  let ?R = "uu_loop src past dlen p sol out"
  have r: "fst ?r = p + 1 + ?L * 4 div 3" "length (snd ?r) = length out + ?L"
    using uu_line_bounds [OF uu_line_size(1)] by (simp_all add: uu_line_size(2))
  consider "?R = (p, False, out)" | "?R = (p, True, out)"
    | "p < length src \<and> length out < dlen" "src ! p = LF" "?R = uu_loop src past dlen (p + 1) True out"
    | "p < length src \<and> length out < dlen" "src ! p \<noteq> LF" "\<not> sol" "?R = uu_loop src past dlen (p + 1) False out"
    | "p < length src \<and> length out < dlen" "src ! p \<noteq> LF" "sol" "?u \<noteq> 0" "\<not> (?u = 5 \<and> src ! p = 101)"
      "\<not> length src - (p + 1) < ?L * 4 div 3" "?R = uu_loop src past dlen (fst ?r) False (snd ?r)"
    using uu_loop.simps [of src past dlen p sol out] unfolding Let_def by (metis (no_types))
  then show ?case
  proof cases
    case 5
    have "?L \<le> dlen - length out" by simp
    then have "length (snd ?r) \<le> dlen" "fst ?r \<le> length src" using 5(1,6) r by linarith+
    then show ?thesis unfolding 5(7) using 5 by (intro 1(2) [OF _ _ _ refl _ _ refl _ refl]) auto
  qed (use 1(1,3-5) in simp_all)
qed

lemma strn_scan_bound: "strn_scan ch w s k i = Some j \<Longrightarrow> i \<le> j \<and> j < i + length s"
  by (induction ch w s k i rule: strn_scan.induct) (fastforce split: if_splits)+

lemma uu_out:
  "sf_uudecode src past dlen bf ef = (ret, n, out, bf', ef') \<Longrightarrow> length out \<le> dlen \<and> n \<le> length src"
proof -
  assume r: "sf_uudecode src past dlen bf ef = (ret, n, out, bf', ef')"
  have loop: "length out \<le> dlen \<and> q \<le> length src"
    if q: "uu_loop src past dlen p True [] = (q, e, out)" "p \<le> length src" for p q e out
    using uu_loop_bounds [of "[]" dlen p src past True] q by simp
  have scan: "i < length s" if l: "SnortStrnStr s k w = Some i" for s k w i
    using l strn_scan_bound by (fastforce simp: SnortStrnStr_def split: if_splits list.splits)
  show ?thesis
    using r loop scan by (fastforce simp: sf_uudecode_def Let_def split: if_splits option.splits prod.splits)
qed

section \<open>Every decoder keeps the state of the session\<close>

text \<open>The updates the decoders make.\<close>

lemma mail_wf_updates:
  assumes "mail_wf le ld ds"
  shows "mail_wf le ld (ResetEmailDecodeState ds)"
    and "length eb = le \<Longrightarrow> mail_wf le ld (ds\<lparr>encodeBuf := Some eb\<rparr>)"
    and "length db = ld \<Longrightarrow> mail_wf le ld (ds\<lparr>decodeBuf := Some db\<rparr>)"
    and "mail_wf le ld (ds\<lparr>prev_encoded_bytes := 0\<rparr>)"
    and "off + q \<le> le \<Longrightarrow> mail_wf le ld (ds\<lparr>prev_encoded_bytes := q, prev_encoded_buf := Some off\<rparr>)"
    and "n \<le> ld \<Longrightarrow> mail_wf le ld (ds\<lparr>decode_present := pr, decodePtr := P_decodeBuf, decoded_bytes := n\<rparr>)"
    and "mail_wf le ld (ds\<lparr>decode_type := t\<rparr>)"
    and "mail_wf le ld (ClearPrevEncodeBuf ds)"
    and "mail_wf le ld (ResetDecodedBytes ds)"
    and "room_ok le ld b \<Longrightarrow> mail_wf le ld (ds\<lparr>b64_state := b\<rparr>)"
    and "room_ok le ld b \<Longrightarrow> mail_wf le ld (ds\<lparr>qp_state := b\<rparr>)"
    and "room_ok le ld u \<Longrightarrow> mail_wf le ld (ds\<lparr>uu_state := u\<rparr>)"
    and "mail_wf le ld (ds\<lparr>bitenc_state := be\<rparr>)"
  using assms
  by (simp_all add: mail_wf_def ResetEmailDecodeState_def ClearPrevEncodeBuf_def ResetDecodedBytes_def room_ok_def)

lemma mail_wf_buffers:
  "mail_wf le ld ds \<Longrightarrow> length eb = le \<Longrightarrow> length db = ld \<Longrightarrow> mail_wf le ld (ds\<lparr>encodeBuf := Some eb, decodeBuf := Some db\<rparr>)"
  using mail_wf_updates(3) [OF mail_wf_updates(2)] by fastforce

text \<open>What a successful call leaves.\<close>

definition decoded_state :: "nat \<Rightarrow> Email_DecodeState \<Rightarrow> Email_DecodeState" where
  "decoded_state n ds = ds\<lparr>decode_present := 1, decodePtr := P_decodeBuf, decoded_bytes := n\<rparr>"

lemma Base64Decode_eq:
  assumes "decode_room (b64_state ds) = Some (ea, da)" and "ea \<noteq> 0" and "da \<noteq> 0"
    and "encodeBuf ds = Some eb" and "decodeBuf ds = Some db" and "carry_prev ea eb ds = (p, eb', ds\<lparr>prev_encoded_bytes := 0\<rparr>)"
    and "s = sf_strip_CRLF pkt (ea - p)" and "t = length s + p"
    and "sf_base64decode (take (t - t mod 4) (write_at p s eb')) da = (ret, out)"
    and "ds1 = (if t mod 4 \<noteq> 0 then ds\<lparr>prev_encoded_bytes := t mod 4, prev_encoded_buf := Some (t - t mod 4)\<rparr>
                else ds\<lparr>prev_encoded_bytes := 0\<rparr>)"
    and "ds2 = ds1\<lparr>encodeBuf := Some (write_at p s eb'), decodeBuf := Some (write_at 0 out db)\<rparr>"
  shows "Base64Decode pkt ds =
    (if ret \<noteq> 0 \<or> out = [] \<and> ea - p = 0 then (DECODE_FAIL, ResetEmailDecodeState ds2)
     else (DECODE_SUCCESS,
           decoded_state (length out) (ds2\<lparr>b64_state := count_bytes (t - t mod 4) (length out) (b64_state ds)\<rparr>)))"
proof -
  have d: "sf_base64decode (take (length s + p - (length s + p) mod 4) (write_at p s eb')) da = (ret, out)"
    using assms(8,9) by simp
  show ?thesis
    unfolding Base64Decode_def assms(1,4-6) option.case prod.case Let_def
    unfolding assms(7) [symmetric] d prod.case assms(8,10,11) decoded_state_def
    using assms(2,3) by (cases "(length s + p) mod 4 = 0") simp_all
qed

lemma Base64Decode_wf:
  assumes wf: "mail_wf le ld ds"
  shows "mail_wf le ld (snd (Base64Decode pkt ds))"
proof (cases "decode_room (b64_state ds)")
  case None
  with wf show ?thesis by (simp add: Base64Decode_def)
next
  case (Some r)
  obtain ea da where r: "decode_room (b64_state ds) = Some (ea, da)" using Some by (cases r) simp
  obtain eb db where b: "encodeBuf ds = Some eb" "length eb = le" "decodeBuf ds = Some db" "length db = ld"
    using wf by (auto simp: mail_wf_def)
  have ok: "room_ok le ld (b64_state ds)" using wf by (simp add: mail_wf_def)
  note rb = decode_room_bounds [OF ok r]
  show ?thesis
  proof (cases "ea = 0 \<or> da = 0")
    case True
    with wf r b show ?thesis by (auto simp: Base64Decode_def mail_wf_updates)
  next
    case False
    obtain p eb' ds' where c: "carry_prev ea eb ds = (p, eb', ds')" by (metis prod_cases3)
    note cp = carry_prev_ok [OF wf b(1) c]
    define s where "s = sf_strip_CRLF pkt (ea - p)"
    define t where "t = length s + p"
    obtain ret out where d: "sf_base64decode (take (t - t mod 4) (write_at p s eb')) da = (ret, out)" by fastforce
    have len: "length s \<le> ea - p" "p \<le> ea" using cp(1) by (simp_all add: s_def strip_CRLF_length)
    have l1: "length (write_at p s eb') = le" using len cp(2) rb(1) by (subst length_write_at) auto
    have l2: "length (write_at 0 out db) = ld" "length out \<le> ld" "length out \<le> da"
      using base64_out [OF d] rb(2) b(4) by (simp_all add: length_write_at)
    have cnt: "room_ok le ld (count_bytes (t - t mod 4) (length out) (b64_state ds))"
      using len l2(3) by (intro room_ok_count [OF ok r]) (auto simp: t_def)
    have q: "t - t mod 4 + t mod 4 \<le> le" using len rb(1) by (simp add: t_def)
    note eq = Base64Decode_eq [OF r _ _ b(1,3) c [unfolded cp(3)] s_def t_def d refl refl]
    have w: "mail_wf le ld (if t mod 4 \<noteq> 0 then ds\<lparr>prev_encoded_bytes := t mod 4, prev_encoded_buf := Some (t - t mod 4)\<rparr>
                else ds\<lparr>prev_encoded_bytes := 0\<rparr>)"
      using mail_wf_updates(4,5) [OF wf] q by simp
    show ?thesis
      using False mail_wf_buffers [OF w l1 l2(1)] cnt l2(2)
      by (simp add: eq decoded_state_def mail_wf_updates)
  qed
qed

lemma keep_rest_wf: "mail_wf le ld ds \<Longrightarrow> t \<le> le \<Longrightarrow> mail_wf le ld (keep_rest t n ds)"
  by (simp add: keep_rest_def mail_wf_updates)

lemma QPDecode_eq:
  assumes "decode_room (qp_state ds) = Some (ea, da)" and "ea \<noteq> 0" and "da \<noteq> 0"
    and "encodeBuf ds = Some eb" and "decodeBuf ds = Some db" and "carry_prev ea eb ds = (p, eb', ds\<lparr>prev_encoded_bytes := 0\<rparr>)"
    and "s = sf_strip_LWS pkt (ea - p)" and "t = length s + p"
    and "sf_qpdecode (take t (write_at p s eb')) da = (ret, n, out)"
    and "ds2 = ds\<lparr>prev_encoded_bytes := 0, encodeBuf := Some (write_at p s eb'), decodeBuf := Some (write_at 0 out db)\<rparr>"
  shows "QPDecode pkt ds =
    (if ret \<noteq> 0 \<or> out = [] \<and> ea - p = 0 then (DECODE_FAIL, ResetEmailDecodeState ds2)
     else (DECODE_SUCCESS,
           decoded_state (length out) (keep_rest t n (ds2\<lparr>qp_state := count_bytes (min n t) (length out) (qp_state ds)\<rparr>))))"
proof -
  have d: "sf_qpdecode (take (length s + p) (write_at p s eb')) da = (ret, n, out)"
    using assms(8,9) by simp
  show ?thesis
    unfolding QPDecode_def assms(1,4-6) option.case prod.case Let_def
    unfolding assms(7) [symmetric] d prod.case assms(8,10) decoded_state_def keep_rest_def
    using assms(2,3) by simp
qed

lemma QPDecode_wf:
  assumes wf: "mail_wf le ld ds"
  shows "mail_wf le ld (snd (QPDecode pkt ds))"
proof (cases "decode_room (qp_state ds)")
  case None
  with wf show ?thesis by (simp add: QPDecode_def)
next
  case (Some r)
  obtain ea da where r: "decode_room (qp_state ds) = Some (ea, da)" using Some by (cases r) simp
  obtain eb db where b: "encodeBuf ds = Some eb" "length eb = le" "decodeBuf ds = Some db" "length db = ld"
    using wf by (auto simp: mail_wf_def)
  have ok: "room_ok le ld (qp_state ds)" using wf by (simp add: mail_wf_def)
  note rb = decode_room_bounds [OF ok r]
  show ?thesis
  proof (cases "ea = 0 \<or> da = 0")
    case True
    with wf r b show ?thesis by (auto simp: QPDecode_def mail_wf_updates)
  next
    case False
    obtain p eb' ds' where c: "carry_prev ea eb ds = (p, eb', ds')" by (metis prod_cases3)
    note cp = carry_prev_ok [OF wf b(1) c]
    define s where "s = sf_strip_LWS pkt (ea - p)"
    define t where "t = length s + p"
    obtain ret n out where d: "sf_qpdecode (take t (write_at p s eb')) da = (ret, n, out)" by (metis prod_cases3)
    have len: "length s \<le> ea - p" "p \<le> ea" using cp(1) by (simp_all add: s_def strip_LWS_length)
    have l1: "length (write_at p s eb') = le" using len cp(2) rb(1) by (subst length_write_at) auto
    have l2: "length (write_at 0 out db) = ld" "length out \<le> ld" "length out \<le> da"
      using qp_out [OF d] rb(2) b(4) by (simp_all add: length_write_at)
    have cnt: "room_ok le ld (count_bytes (min n t) (length out) (qp_state ds))"
      using len l2(3) by (intro room_ok_count [OF ok r]) (auto simp: t_def)
    have q: "t \<le> le" using len rb(1) by (simp add: t_def)
    note eq = QPDecode_eq [OF r _ _ b(1,3) c [unfolded cp(3)] s_def t_def d refl]
    show ?thesis
      using False mail_wf_buffers [OF mail_wf_updates(4) [OF wf] l1 l2(1)] cnt l2(2) q
      by (simp add: eq decoded_state_def mail_wf_updates keep_rest_wf)
  qed
qed

lemma uu_begin_room: "room_ok le ld u \<Longrightarrow> room_ok le ld (u\<lparr>begin_found := x, end_found := y\<rparr>)"
  "room_ok le ld u \<Longrightarrow> room_ok le ld (u\<lparr>begin_found := x\<rparr>)"
  by (simp_all add: room_ok_def)

lemma count_bytes_begin:
  "count_bytes e d (u\<lparr>begin_found := x, end_found := y\<rparr>) = (count_bytes e d u)\<lparr>begin_found := x, end_found := y\<rparr>"
  by (simp add: count_bytes_def)

lemma UUDecode_wf:
  assumes wf: "mail_wf le ld ds"
  shows "mail_wf le ld (snd (UUDecode pkt ds))"
proof (cases "decode_room (uu_state ds)")
  case None
  with wf show ?thesis by (simp add: UUDecode_def clear_begin_def mail_wf_updates(12) uu_begin_room mail_wf_def)
next
  case (Some r)
  obtain ea da where r: "decode_room (uu_state ds) = Some (ea, da)" using Some by (cases r) simp
  obtain eb db where b: "encodeBuf ds = Some eb" "length eb = le" "decodeBuf ds = Some db" "length db = ld"
    using wf by (auto simp: mail_wf_def)
  have ok: "room_ok le ld (uu_state ds)" using wf by (simp add: mail_wf_def)
  note rb = decode_room_bounds [OF ok r]
  show ?thesis
  proof (cases "ea = 0 \<or> da = 0")
    case True
    with wf r b ok show ?thesis by (auto simp: UUDecode_def clear_begin_def mail_wf_updates uu_begin_room)
  next
    case False
    obtain p eb' ds' where c: "carry_prev ea eb ds = (p, eb', ds')" by (metis prod_cases3)
    note cp = carry_prev_ok [OF wf b(1) c]
    define s where "s = take (ea - p) pkt"
    define t where "t = length s + p"
    define eb2 where "eb2 = write_at p s eb'"
    obtain ret n out bf ef where d:
      "sf_uudecode (take t eb2) (uu_past t eb2 db) da (begin_found (uu_state ds)) (end_found (uu_state ds)) = (ret, n, out, bf, ef)"
      by (metis prod_cases5)
    have len: "length s \<le> ea - p" "p \<le> ea" using cp(1) by (simp_all add: s_def)
    have l1: "length eb2 = le" unfolding eb2_def using len cp(2) rb(1) by (subst length_write_at) auto
    have l2: "length (write_at 0 out db) = ld" "length out \<le> ld" "length out \<le> da"
      using uu_out [OF d] rb(2) b(4) by (simp_all add: length_write_at)
    have cnt: "room_ok le ld (count_bytes (min n t) (length out) (uu_state ds))"
      using len l2(3) by (intro room_ok_count [OF ok r]) (auto simp: t_def)
    have q: "t \<le> le" using len rb(1) by (simp add: t_def)
    have w0: "mail_wf le ld (ds\<lparr>prev_encoded_bytes := 0\<rparr>)" by (rule mail_wf_updates(4) [OF wf])
    have w1: "mail_wf le ld (ds\<lparr>prev_encoded_bytes := 0, encodeBuf := Some eb2\<rparr>)" by (rule mail_wf_updates(2) [OF w0 l1])
    have w2: "mail_wf le ld (ds\<lparr>prev_encoded_bytes := 0, encodeBuf := Some eb2, decodeBuf := Some (write_at 0 out db)\<rparr>)"
      by (rule mail_wf_buffers [OF w0 l1 l2(1)])
    show ?thesis
      unfolding UUDecode_def r b c cp(3) option.case prod.case Let_def s_def [symmetric] t_def [symmetric] eb2_def [symmetric]
      using False w1 w2 cnt l2(2) q ok d
      by (auto simp: count_bytes_begin keep_rest_wf mail_wf_updates uu_begin_room)
  qed
qed

lemma BitEncExtract_wf:
  assumes wf: "mail_wf le ld ds"
  shows "mail_wf le ld (snd (BitEncExtract pkt ds))"
proof -
  have w: "mail_wf le ld (ClearPrevEncodeBuf ds)" by (rule mail_wf_updates(8) [OF wf])
  have "n \<le> length pkt \<Longrightarrow> mail_wf le ld
      ((ClearPrevEncodeBuf ds)\<lparr>decode_present := 1, decodePtr := P_packet pkt, decoded_bytes := n, bitenc_state := b\<rparr>)" for n b
    using w by (simp add: mail_wf_def)
  with w show ?thesis by (simp add: BitEncExtract_def Let_def mail_wf_updates(1))
qed

text \<open>The contract of a decoder, and what follows for a whole session.\<close>

locale session_decoder =
  fixes decoder :: "u8 list \<Rightarrow> Email_DecodeState \<Rightarrow> int \<times> Email_DecodeState"
  assumes decoder_wf: "mail_wf le ld ds \<Longrightarrow> mail_wf le ld (snd (decoder pkt ds))"
begin

lemma decoder_buffers:
  "mail_wf le ld ds \<Longrightarrow> \<exists>eb db. encodeBuf (snd (decoder pkt ds)) = Some eb \<and> length eb = le \<and>
     decodeBuf (snd (decoder pkt ds)) = Some db \<and> length db = ld"
  using decoder_wf [of le ld ds pkt] by (auto simp: mail_wf_def)

lemma session_wf: "mail_wf le ld ds \<Longrightarrow> mail_wf le ld (fold (\<lambda>pkt ds. snd (decoder pkt ds)) pkts ds)"
  by (induction pkts arbitrary: ds) (simp_all add: decoder_wf)

end

interpretation b64: session_decoder Base64Decode
  by unfold_locales (rule Base64Decode_wf)

interpretation qp: session_decoder QPDecode
  by unfold_locales (rule QPDecode_wf)

interpretation uu: session_decoder UUDecode
  by unfold_locales (rule UUDecode_wf)

interpretation bitenc: session_decoder BitEncExtract
  by unfold_locales (rule BitEncExtract_wf)

interpretation email: session_decoder EmailDecode
  by unfold_locales
    (auto simp: EmailDecode_def b64.decoder_wf qp.decoder_wf uu.decoder_wf bitenc.decoder_wf split: DecodeType.split)

text \<open>What a mail preprocessor does to the state of a session.\<close>

datatype mail_event = Set_type DecodeType | Attachment "u8 list" | Reset_decoded | Reset_state | Clear_state

fun mail_step :: "mail_event \<Rightarrow> Email_DecodeState \<Rightarrow> Email_DecodeState" where
  "mail_step (Set_type t) ds = ds\<lparr>decode_type := t\<rparr>"
| "mail_step (Attachment pkt) ds = snd (EmailDecode pkt ds)"
| "mail_step Reset_decoded ds = ResetDecodedBytes ds"
| "mail_step Reset_state ds = ResetEmailDecodeState ds"
| "mail_step Clear_state ds = ClearEmailDecodeState ds"

lemma mail_step_wf: "mail_wf le ld ds \<Longrightarrow> mail_wf le ld (mail_step e ds)"
  by (cases e) (simp_all add: mail_wf_updates email.decoder_wf ClearEmailDecodeState_def)

lemma mail_steps_wf: "mail_wf le ld ds \<Longrightarrow> mail_wf le ld (fold mail_step es ds)"
  by (induction es arbitrary: ds) (simp_all add: mail_step_wf)

definition round8 :: "nat \<Rightarrow> nat" where
  "round8 n = (if n mod 8 \<noteq> 0 then n + (8 - n mod 8) else n)"

lemma round8_ge: "n \<le> round8 n"
  using mod_less_divisor [of 8 n] by (auto simp: round8_def)

definition depth_fits :: "nat \<Rightarrow> int \<Rightarrow> bool" where
  "depth_fits md d \<longleftrightarrow> - 1 \<le> d \<and> d \<le> int md \<and> (d = 0 \<longrightarrow> md = MAX_BUF)"

lemma SetEmailDecodeState_wf:
  assumes "md \<le> MAX_BUF" and "length data = 2 * round8 md"
    and "depth_fits md b" and "depth_fits md q" and "depth_fits md u"
  shows "mail_wf (round8 md) (round8 md) (SetEmailDecodeState data md b q u be)"
proof -
  have e: "(if md mod 8 \<noteq> 0 then md + (8 - md mod 8) else md) = round8 md" by (simp add: round8_def)
  have "length (take (round8 md) data) = round8 md" "length (drop (round8 md) data) = round8 md"
    using assms(2) by simp_all
  with assms(1,3-5) round8_ge [of md] show ?thesis
    unfolding SetEmailDecodeState_def Let_def e
    by (auto simp: mail_wf_def room_ok_def depth_fits_def)
qed

text \<open>
  C21: The decoders stay inside the session's buffers. For a state set up with the depths the
  configuration allows, whatever sequence of packets, changes of encoding and resets follows,
  the two buffers keep their lengths (a byte written past the end of one would make it longer),
  the bytes kept for the next packet lie inside the encode buffer, and the decoded bytes that
  \<open>decodePtr\<close> offers lie inside the decode buffer or the packet.
\<close>

theorem mail_decode_in_bounds:
  assumes "md \<le> 65535" and "length data = 2 * round8 md"
    and "depth_fits md b" and "depth_fits md q" and "depth_fits md u"
    and "ds = fold mail_step es (SetEmailDecodeState data md b q u be)"
  shows "(\<exists>eb db. encodeBuf ds = Some eb \<and> length eb = round8 md \<and> decodeBuf ds = Some db \<and> length db = round8 md) \<and>
    (prev_encoded_bytes ds = 0 \<or>
      (\<exists>off. prev_encoded_buf ds = Some off \<and> off + prev_encoded_bytes ds \<le> round8 md)) \<and>
    length (decoded_data ds) = decoded_bytes ds"
proof -
  have "mail_wf (round8 md) (round8 md) ds"
    unfolding assms(6) by (intro mail_steps_wf SetEmailDecodeState_wf assms(1-5))
  then show ?thesis by (auto simp: mail_wf_def decoded_data_def split: decode_ptr.split)
qed

section \<open>Base64 over packets\<close>

text \<open>
  \<open>k\<close> groups of the encoded stream of \<open>d\<close> are decoded and the next \<open>r\<close> characters are kept.
\<close>

definition b64_stream :: "nat \<Rightarrow> nat \<Rightarrow> u8 list \<Rightarrow> nat \<Rightarrow> nat \<Rightarrow> Email_DecodeState \<Rightarrow> bool" where
  "b64_stream le ld d k r ds \<longleftrightarrow>
     mail_wf le ld ds \<and> decode_type ds = DECODE_B64 \<and> prev_encoded_bytes ds = r \<and> r < 4 \<and>
     4 * k + r \<le> length (encode64 d) \<and>
     take r (drop (the (prev_encoded_buf ds)) (the (encodeBuf ds))) = take r (drop (4 * k) (encode64 d)) \<and>
     (encode_depth (b64_state ds) = 0 \<or>
      int (length (encode64 d)) < encode_depth (b64_state ds) \<and>
      unat (encode_bytes_read (b64_state ds)) = 4 * k \<and> unat (decode_bytes_read (b64_state ds)) = min (3 * k) (length d))"

lemma length_le_encode64: "length d \<le> length (encode64 d)"
  by (induction d rule: encode64.induct) simp_all

lemma b64_stream_room:
  assumes inv: "b64_stream le ld d k r ds" and t: "4 * k + t \<le> length (encode64 d)" "r \<le> t" "t \<le> MAX_BUF"
  obtains ea da where "decode_room (b64_state ds) = Some (ea, da)" "t \<le> ea" "r < ea" "da \<noteq> 0"
    "\<And>q. 4 * q \<le> t \<Longrightarrow> length (take (3 * q) (drop (3 * k) d)) \<le> da"
proof -
  have ok: "room_ok le ld (b64_state ds)" "r < 4" using inv by (simp_all add: b64_stream_def mail_wf_def)
  show ?thesis
  proof (cases "encode_depth (b64_state ds) = 0")
    case True
    then have "decode_room (b64_state ds) = Some (MAX_BUF, MAX_BUF)" by (simp add: decode_room_def)
    with t ok(2) show ?thesis by (intro that [of MAX_BUF MAX_BUF]) auto
  next
    case False
    with inv have D: "int (length (encode64 d)) < encode_depth (b64_state ds)"
      "unat (encode_bytes_read (b64_state ds)) = 4 * k" "unat (decode_bytes_read (b64_state ds)) = min (3 * k) (length d)"
      by (auto simp: b64_stream_def)
    then obtain ea da where r: "decode_room (b64_state ds) = Some (ea, da)" by (auto simp: decode_room_def)
    note b = decode_room_bounds(4,5) [OF ok(1) r False]
    have "length (encode64 d) < ea + 4 * k" using b(1) D(1) unfolding D(2) by linarith
    moreover have "length (encode64 d) < da + min (3 * k) (length d)" using b(2) D(1) unfolding D(3) by linarith
    ultimately show ?thesis using r t length_le_encode64 [of d] by (intro that [of ea da]) auto
  qed
qed

lemma b64_stream_step:
  assumes inv: "b64_stream le ld d k r ds"
    and f: "f = filter (\<lambda>c. c \<noteq> LF \<and> c \<noteq> CR) pkt" "f = take (length f) (drop (4 * k + r) (encode64 d))"
    and t: "t = length f + r" "4 * k + t \<le> length (encode64 d)" "t \<le> MAX_BUF"
    and res: "EmailDecode pkt ds = (ret, ds')"
  shows "ret = DECODE_SUCCESS \<and> decoded_data ds' = take (3 * (t div 4)) (drop (3 * k) d) \<and>
    b64_stream le ld d (k + t div 4) (t mod 4) ds'"
proof -
  let ?E = "encode64 d" and ?q = "t div 4"
  have wf: "mail_wf le ld ds" and ty: "decode_type ds = DECODE_B64" and r: "prev_encoded_bytes ds = r" "r < 4"
    and kept: "take r (drop (the (prev_encoded_buf ds)) (the (encodeBuf ds))) = take r (drop (4 * k) ?E)"
    using inv by (simp_all add: b64_stream_def)
  have ok: "room_ok le ld (b64_state ds)" using wf by (simp add: mail_wf_def)
  have rt: "r \<le> t" using t(1) by simp
  obtain ea da where room: "decode_room (b64_state ds) = Some (ea, da)" "t \<le> ea" "r < ea" "da \<noteq> 0"
    and fits: "\<And>q. 4 * q \<le> t \<Longrightarrow> length (take (3 * q) (drop (3 * k) d)) \<le> da"
    using b64_stream_room [OF inv t(2) rt t(3)] by blast
  obtain eb db where b: "encodeBuf ds = Some eb" "decodeBuf ds = Some db" "length eb = le" "length db = ld"
    using wf by (auto simp: mail_wf_def)
  obtain p eb' ds0 where c: "carry_prev ea eb ds = (p, eb', ds0)" by (metis prod_cases3)
  note cp = carry_prev_ok [OF wf b(1) c]
  have p: "p = r" using cp(1) r(1) room(3) by simp
  have s: "f = sf_strip_CRLF pkt (ea - p)" using t(1) room(2) by (simp add: sf_strip_CRLF_def f(1) [symmetric] p)
  have tp: "t = length f + p" using t(1) p by simp
  have le: "r + length f \<le> length eb'" using cp(2) decode_room_bounds(1) [OF ok room(1)] room(2) t(1) by simp
  have buf: "take t (write_at p f eb') = take t (drop (4 * k) ?E)"
  proof -
    have "take (r + length f) (write_at r f eb') = take r eb' @ f" by (rule take_write_at [OF le])
    also have "take r eb' = take r (drop (4 * k) ?E)" using cp(4) kept b(1) p by simp
    also have "take r (drop (4 * k) ?E) @ f = take (r + length f) (drop (4 * k) ?E)"
      by (subst f(2)) (simp add: take_add add.commute)
    finally show ?thesis by (simp add: t(1) p add.commute)
  qed
  have t4: "t - t mod 4 = 4 * ?q" by (metis minus_mod_eq_mult_div)
  have "take (t - t mod 4) (write_at p f eb') = take (4 * ?q) (drop (4 * k) ?E)"
    using arg_cong [OF buf, of "take (4 * ?q)"] by (simp add: t4 min_def)
  then have enc: "take (t - t mod 4) (write_at p f eb') = encode64 (take (3 * ?q) (drop (3 * k) d))"
    by (simp add: drop_encode64 take_encode64)
  define out where "out = take (3 * ?q) (drop (3 * k) d)"
  have dec: "sf_base64decode (take (t - t mod 4) (write_at p f eb')) da = (0, out)"
    unfolding enc out_def by (rule sf_base64decode_encode) (rule fits, simp)
  note eq = Base64Decode_eq [OF room(1) _ room(4) b(1,2) c [unfolded cp(3)] s tp dec refl refl]
  define ds1 where "ds1 = (if t mod 4 \<noteq> 0 then ds\<lparr>prev_encoded_bytes := t mod 4, prev_encoded_buf := Some (t - t mod 4)\<rparr>
                else ds\<lparr>prev_encoded_bytes := 0\<rparr>)"
  define ds2 where "ds2 = ds1\<lparr>encodeBuf := Some (write_at p f eb'), decodeBuf := Some (write_at 0 out db)\<rparr>"
  have "EmailDecode pkt ds = (DECODE_SUCCESS, decoded_state (length out)
      (ds2\<lparr>b64_state := count_bytes (t - t mod 4) (length out) (b64_state ds)\<rparr>))"
    using eq room(3) p unfolding ds1_def [symmetric] ds2_def [symmetric] by (simp add: EmailDecode_def ty)
  then have ret: "ret = DECODE_SUCCESS" and ds': "ds' = decoded_state (length out)
      (ds2\<lparr>b64_state := count_bytes (t - t mod 4) (length out) (b64_state ds)\<rparr>)"
    using res by simp_all
  have out_le: "length out \<le> da" unfolding out_def by (rule fits) simp
  then have "take (length out) (write_at 0 out db) = out" by (simp add: write_at_def)
  then have data: "decoded_data ds' = out"
    by (simp add: ds' decoded_state_def decoded_data_def ds2_def)
  have wf': "mail_wf le ld ds'" using email.decoder_wf [OF wf, of pkt] res by simp
  have rest: "take (t mod 4) (drop (the (prev_encoded_buf ds')) (the (encodeBuf ds'))) =
      take (t mod 4) (drop (4 * (k + ?q)) ?E)"
  proof (cases "t mod 4 = 0")
    case False
    then have "the (prev_encoded_buf ds') = 4 * ?q" "the (encodeBuf ds') = write_at p f eb'"
      using t4 by (simp_all add: ds' decoded_state_def ds2_def ds1_def)
    moreover have "take (t mod 4) (drop (4 * ?q) w) = drop (4 * ?q) (take t w)" for w :: "u8 list"
      by (simp add: drop_take flip: t4)
    ultimately show ?thesis by (simp add: buf algebra_simps) (simp add: drop_take algebra_simps flip: t4)
  qed simp
  have cnt: "encode_depth (b64_state ds') = 0 \<or>
      int (length ?E) < encode_depth (b64_state ds') \<and>
      unat (encode_bytes_read (b64_state ds')) = 4 * (k + ?q) \<and>
      unat (decode_bytes_read (b64_state ds')) = min (3 * (k + ?q)) (length d)"
  proof (cases "encode_depth (b64_state ds) = 0")
    case True
    then show ?thesis by (simp add: ds' decoded_state_def ds2_def count_bytes_def)
  next
    case False
    with inv have D: "int (length ?E) < encode_depth (b64_state ds)"
      "unat (encode_bytes_read (b64_state ds)) = 4 * k" "unat (decode_bytes_read (b64_state ds)) = min (3 * k) (length d)"
      by (auto simp: b64_stream_def)
    have small: "encode_depth (b64_state ds) < 2147483648" using ok by (simp add: room_ok_def)
    have "unat (encode_bytes_read (b64_state ds) + of_nat (t - t mod 4)) = 4 * (k + ?q)"
      using D(1) small t(2) unfolding t4 by (subst count_read; simp add: D(2) del: of_nat_unat)
    moreover have "unat (decode_bytes_read (b64_state ds) + of_nat (length out)) = min (3 * (k + ?q)) (length d)"
      using D(1) small length_le_encode64 [of d] by (subst count_read; simp add: D(3) out_def del: of_nat_unat)
    ultimately show ?thesis using D(1) False by (simp add: ds' decoded_state_def ds2_def count_bytes_def)
  qed
  have prev: "prev_encoded_bytes ds' = t mod 4" "decode_type ds' = DECODE_B64"
    using ty by (simp_all add: ds' decoded_state_def ds2_def ds1_def)
  have "4 * (k + ?q) + t mod 4 \<le> length ?E" using t(2) by simp
  with wf' rest cnt prev show ?thesis unfolding b64_stream_def data ret out_def by simp
qed

fun mail_run :: "u8 list list \<Rightarrow> Email_DecodeState \<Rightarrow> (int \<times> u8 list) list" where
  "mail_run [] ds = []"
| "mail_run (pkt # pkts) ds = (case EmailDecode pkt ds of (ret, ds) \<Rightarrow> (ret, decoded_data ds) # mail_run pkts ds)"

abbreviation no_CRLF :: "u8 list \<Rightarrow> u8 list" where
  "no_CRLF pkt \<equiv> filter (\<lambda>c. c \<noteq> LF \<and> c \<noteq> CR) pkt"

lemma b64_stream_run:
  assumes "b64_stream le ld d k r ds" and "concat (map no_CRLF pkts) = drop (4 * k + r) (encode64 d)"
    and "\<forall>pkt\<in>set pkts. length pkt \<le> 65532"
  shows "concat (map snd (mail_run pkts ds)) = drop (3 * k) d \<and> set (map fst (mail_run pkts ds)) \<subseteq> {DECODE_SUCCESS}"
  using assms
proof (induction pkts arbitrary: k r ds)
  case Nil
  then have "4 * k + r = 4 * ((length d + 2) div 3)" "r < 4" by (auto simp: b64_stream_def length_encode64)
  then have "k = (length d + 2) div 3" by linarith
  then show ?case by simp
next
  case (Cons pkt pkts)
  let ?E = "encode64 d" and ?f = "no_CRLF pkt"
  define t where "t = length ?f + r"
  have split: "?f @ concat (map no_CRLF pkts) = drop (4 * k + r) ?E" using Cons.prems(2) by simp
  have f: "?f = take (length ?f) (drop (4 * k + r) ?E)" by (simp flip: split)
  have "length ?f + length (concat (map no_CRLF pkts)) = length ?E - (4 * k + r)"
    using arg_cong [OF split, of length] by simp
  moreover have b: "4 * k + r \<le> length ?E" "r < 4" using Cons.prems(1) by (simp_all add: b64_stream_def)
  ultimately have t: "4 * k + t \<le> length ?E" by (simp add: t_def)
  have "length ?f \<le> length pkt" by simp
  also have "\<dots> \<le> 65532" using Cons.prems(3) by simp
  finally have m: "t \<le> MAX_BUF" using b(2) by (simp add: t_def)
  obtain ret ds' where res: "EmailDecode pkt ds = (ret, ds')" by fastforce
  note st = b64_stream_step [OF Cons.prems(1) refl f t_def t m res]
  have "concat (map no_CRLF pkts) = drop (length ?f) (drop (4 * k + r) ?E)" by (simp flip: split)
  also have "\<dots> = drop (4 * (k + t div 4) + t mod 4) ?E" by (simp add: t_def algebra_simps)
  finally have "concat (map snd (mail_run pkts ds')) = drop (3 * (k + t div 4)) d \<and>
      set (map fst (mail_run pkts ds')) \<subseteq> {DECODE_SUCCESS}"
    using st Cons.prems(3) by (intro Cons.IH) auto
  moreover have "take (3 * (t div 4)) (drop (3 * k) d) @ drop (3 * (k + t div 4)) d = drop (3 * k) d"
    by (metis add_mult_distrib2 append_take_drop_id drop_drop add.commute)
  ultimately show ?case using st by (simp add: res)
qed

text \<open>
  C20: Base64 over packets. However the encoding of some data is cut into packets (in the middle of
  a group, with line ends anywhere), every packet is decoded successfully and the decoded pieces
  put together are the data, if no limit is set and the packets have at most 65532 bytes, or the
  encoding is shorter than the limit.
\<close>

theorem base64_stream_roundtrip:
  assumes "concat (map no_CRLF pkts) = encode64 d" and "\<forall>pkt\<in>set pkts. length pkt \<le> 65532"
    and "b = 0 \<or> int (length (encode64 d)) < b"
    and "md \<le> 65535" and "length data = 2 * round8 md"
    and "depth_fits md b" and "depth_fits md q" and "depth_fits md u"
    and "ds = (SetEmailDecodeState data md b q u be)\<lparr>decode_type := DECODE_B64\<rparr>"
  shows "concat (map snd (mail_run pkts ds)) = d \<and> set (map fst (mail_run pkts ds)) \<subseteq> {DECODE_SUCCESS}"
proof -
  have "mail_wf (round8 md) (round8 md) ds"
    unfolding assms(9) by (intro mail_wf_updates SetEmailDecodeState_wf assms(4-8))
  then have "b64_stream (round8 md) (round8 md) d 0 0 ds"
    using assms(3) by (simp add: assms(9) b64_stream_def SetEmailDecodeState_def Let_def)
  from b64_stream_run [OF this, of pkts] show ?thesis using assms(1,2) by simp
qed

lemma base64_stream_roundtrip_witness:
  "concat (map snd (mail_run [[83, 71, 13], [10, 86, 115, 98], [71, 56, 61]]
     ((SetEmailDecodeState (replicate 32 0) 16 16 (- 1) (- 1) (- 1))\<lparr>decode_type := DECODE_B64\<rparr>))) =
   [72, 101, 108, 108, 111]"
proof -
  have e: "concat (map no_CRLF [[83, 71, 13], [10, 86, 115, 98], [71, 56, 61]]) = encode64 [72, 101, 108, 108, 111]"
    by code_simp
  have l: "length (encode64 [72, 101, 108, 108, 111]) = 8" by (simp add: length_encode64)
  show ?thesis
    using base64_stream_roundtrip [OF e _ _ _ _ _ _ _ refl, of 16 16 "replicate 32 0" "- 1" "- 1" "- 1"]
    by (simp add: l round8_def depth_fits_def)
qed

lemma mail_decode_in_bounds_witness:
  "length (decoded_data (fold mail_step [Set_type DECODE_B64, Attachment [83, 71, 86, 115]]
     (SetEmailDecodeState (replicate 32 0) 16 16 (- 1) (- 1) (- 1)))) =
   decoded_bytes (fold mail_step [Set_type DECODE_B64, Attachment [83, 71, 86, 115]]
     (SetEmailDecodeState (replicate 32 0) 16 16 (- 1) (- 1) (- 1)))"
  by (rule mail_decode_in_bounds [where md = 16 and b = 16 and q = "- 1" and u = "- 1" and data = "replicate 32 0",
      OF _ _ _ _ _ refl, THEN conjunct2, THEN conjunct2])
    (simp_all add: round8_def depth_fits_def)

section \<open>Header unfolding\<close>

definition unfold_ok :: "nat \<Rightarrow> bool \<Rightarrow> nat \<times> u8 list \<Rightarrow> bool" where
  "unfold_ok osz trim r \<longleftrightarrow> length (filter (\<lambda>c. \<not> is_lws c) (snd r)) = fst r \<and> fst r \<le> osz \<and> (trim \<longrightarrow> length (snd r) = fst r)"

lemma unfold_counts:
  "unfold_ok osz trim (n, out) \<Longrightarrow> unfold_ok osz trim (snd (unfold_loop osz trim cs hf fp sp n out))"
proof (induction cs arbitrary: hf fp sp n out trim)
  case (Cons c cs)
  have "is_lws c \<Longrightarrow> \<not> trim \<Longrightarrow> unfold_ok osz trim (n, out @ [c])"
    using Cons.prems by (simp add: unfold_ok_def)
  moreover have "\<not> is_lws c \<Longrightarrow> n < osz \<Longrightarrow> unfold_ok osz trim (n + 1, out @ [c])"
    using Cons.prems by (simp add: unfold_ok_def)
  ultimately show ?case using Cons.prems by (auto simp: Let_def is_lws_def intro!: Cons.IH)
qed simp

lemma unfold_white:
  "0 < osz \<Longrightarrow> unfold_loop osz False (replicate k SP) 0 False sp 0 out = (sp, 0, out @ replicate k SP)"
  by (induction k arbitrary: out) (simp_all add: Let_def)

text \<open>
  C22: The bound of \<open>sf_unfold_header\<close>. The loop only counts the bytes that are no white space: they
  fit the output buffer, and all the output does when spaces are trimmed. When spaces are kept, a
  run of them is copied whole, however small the buffer is, and the NUL is put behind it.
\<close>

theorem unfold_header_bounds:
  "length (filter (\<lambda>c. \<not> is_lws c) (fst (sf_unfold_header cs osz trim))) \<le> osz \<and>
   length (fst (sf_unfold_header cs osz True)) \<le> osz \<and>
   sf_unfold_header (replicate k SP) (Suc osz') False = (replicate k SP, int k, 0)"
proof -
  obtain sp n out where r: "unfold_loop osz trim cs 0 False 0 0 [] = (sp, n, out)" by (metis prod_cases3)
  obtain sp2 n2 out2 where r2: "unfold_loop osz True cs 0 False 0 0 [] = (sp2, n2, out2)" by (metis prod_cases3)
  show ?thesis
    using unfold_counts [of osz trim 0 "[]" cs 0 False 0] unfold_counts [of osz True 0 "[]" cs 0 False 0]
    by (simp add: sf_unfold_header_def r r2 unfold_white unfold_ok_def)
qed

section \<open>The rule option base64_decode\<close>

lemma unfold_plain:
  "\<forall>c\<in>set cs. c \<noteq> SP \<and> c \<noteq> TAB \<and> c \<noteq> LF \<and> c \<noteq> CR \<Longrightarrow> n + length cs \<le> osz \<Longrightarrow>
   unfold_loop osz trim cs 0 fp sp n out = (sp, n + length cs, out @ cs)"
  by (induction cs arbitrary: n out) simp_all

lemma encode64_plain: "c \<in> set (encode64 d) \<Longrightarrow> c \<noteq> SP \<and> c \<noteq> TAB \<and> c \<noteq> LF \<and> c \<noteq> CR"
  using encode64_digits [of c d] by (auto simp: sf_decode64tab_def)

text \<open>
  The option \<open>base64_decode\<close> reads behind the payload. The number of bytes it unfolds is the
  whole payload size, whatever offset it starts from. With the offset at the end of the payload,
  everything decoded lies behind it: for any payload, if the memory there holds an encoding of that
  size, the option matches and delivers the decoding.
\<close>

theorem base64_option_overread:
  assumes "dsize = length (encode64 d)" and "0 < dsize" and "dsize \<le> 65535"
    and "\<forall>i<dsize. mem (dsize + i) = encode64 d ! i"
    and "unat (bd_offset idx) = dsize" and "bd_flags idx = 0" and "bd_bytes_to_decode idx = 0"
  shows "Base64DecodeEval idx doe_ptr dsize mem = (True, d)"
proof -
  have m: "map (\<lambda>i. mem (dsize + i)) [0 ..< dsize] = encode64 d"
    using assms(1,4) by (intro nth_equalityI) simp_all
  have "unfold_loop DECODE_BLEN False (encode64 d) 0 False 0 0 [] = (0, length (encode64 d), encode64 d)"
    using unfold_plain [of "encode64 d" 0 DECODE_BLEN False False 0 "[]"] encode64_plain [of _ d] assms(1,3) by simp
  then have "fst (sf_unfold_header (encode64 d) DECODE_BLEN False) = encode64 d"
    by (simp add: sf_unfold_header_def)
  moreover have "sf_base64decode (encode64 d) DECODE_BLEN = (0, d)"
    using length_le_encode64 [of d] assms(1,3) by (intro sf_base64decode_encode) simp
  ultimately show ?thesis using assms(2,5-7) by (simp add: Base64DecodeEval_def Let_def m)
qed

lemma base64_option_overread_witness:
  "Base64DecodeEval \<lparr>bd_bytes_to_decode = 0, bd_offset = 4, bd_flags = 0\<rparr> None 4
     (\<lambda>i. if i < 4 then 0 else if i = 4 then 81 else if i = 5 then 85 else if i = 6 then 74 else 68) =
   (True, [65, 66, 67])"
proof (rule base64_option_overread)
  have e: "encode64 [65, 66, 67] = [81, 85, 74, 68]" by code_simp
  then show "4 = length (encode64 [65, 66, 67])" by simp
  show "\<forall>i<4. (if 4 + i < 4 then 0 else if 4 + i = 4 then 81 else if 4 + i = 5 then 85 else if 4 + i = 6 then 74 else 68) =
      encode64 [65, 66, 67] ! i"
  proof (intro allI impI)
    fix i :: nat assume "i < 4"
    then have "i = 0 \<or> i = 1 \<or> i = 2 \<or> i = 3" by linarith
    then show "(if 4 + i < 4 then 0 else if 4 + i = 4 then 81 else if 4 + i = 5 then 85 else if 4 + i = 6 then 74 else 68) =
        encode64 [65, 66, 67] ! i"
      by (elim disjE) (simp_all add: e del: encode64.simps)
  qed
qed simp_all

end
