(* ===== verification/Decode.thy ===== *)
theory Decode
  imports SnortPrelude
begin

text \<open>
  The packet decoders of \<open>decode.c\<close>, first part: the packet record, reading the captured bytes,
  checksums, options, the alert tests and the transport layer.

  \<open>p->pkt\<close> is address 0 and every pointer of the C code into the packet is an offset. A decoder
  works on a window, the offset \<open>off\<close> and the number \<open>len\<close> of bytes it was given (\<open>pkt\<close> and \<open>len\<close> in
  the code). Every read of the code is one of \<open>rd8\<close>, \<open>rd16\<close>, \<open>rd32\<close>, \<open>rdbytes\<close>: it gives the bytes
  when they lie in the window and otherwise ends the decoding with \<open>Overread\<close>. Lengths are natural
  numbers: no subtraction of the code goes below zero unless one of its reads has left the window.
  Counters and messages are left out, and of the drop actions only their events remain.
\<close>

datatype site = S_Eth | S_Vlan | S_MPLS | S_PPPoE | S_PPP | S_IP | S_IPOpt | S_IPTests | S_TCP | S_TCPOpt
  | S_UDP | S_ICMP | S_ICMPSeq | S_Orig | S_Orig6 | S_IP6 | S_IP6Ext | S_HopOpt | S_ICMP6 | S_Teredo
  | S_ESP | S_GRE | S_GTP | S_PGM | S_IGMP | S_Link

datatype fault = Overread site | Null_pointer site | Out_of_fuel

datatype proto_id = PROTO_ETH | PROTO_VLAN | PROTO_MPLS | PROTO_PPPOE | PROTO_PPP_ENCAP | PROTO_ARP
  | PROTO_IP4 | PROTO_IP6 | PROTO_IP6_HOP_OPTS | PROTO_IP6_DST_OPTS | PROTO_TCP | PROTO_UDP
  | PROTO_ICMP4 | PROTO_ICMP6 | PROTO_GRE | PROTO_GTP

record Layer =
  ly_proto :: proto_id
  ly_start :: nat
  ly_length :: nat

record Options =
  op_code :: u8
  op_len :: nat
  op_data :: "nat option"

record IP6Option =
  ex_type :: u8
  ex_data :: nat

text \<open>The copies \<open>inner_ip4h\<close> and \<open>inner_ip6h\<close> of the innermost headers, in host order.\<close>

record IP4Hdr =
  h4_len :: nat
  h4_id :: nat
  h4_proto :: u8
  h4_src :: "u8 list"
  h4_dst :: "u8 list"

record IP6Hdr =
  h6_len :: nat
  h6_next :: u8
  h6_src :: "u8 list"
  h6_dst :: "u8 list"

record MplsHdr =
  mh_label :: nat
  mh_exp :: nat
  mh_bos :: nat
  mh_ttl :: nat

datatype ip_family = NO_IP | AF_INET | AF_INET6

record Packet =
  pkt_mem :: "nat \<Rightarrow> u8"
  caplen :: nat
  eh :: "nat option"
  vh :: "nat option"
  ehllc :: "nat option"
  ehllcother :: "nat option"
  pppoeh :: "nat option"
  ah :: "nat option"
  greh :: "nat option"
  mpls :: "nat option"
  mplsHdr :: MplsHdr
  iph :: "nat option"
  inner_iph :: "nat option"
  outer_iph :: "nat option"
  orig_iph :: "nat option"
  tcph :: "nat option"
  orig_tcph :: "nat option"
  udph :: "nat option"
  inner_udph :: "nat option"
  outer_udph :: "nat option"
  orig_udph :: "nat option"
  icmph :: "nat option"
  icmp6h :: "nat option"
  orig_icmph :: "nat option"
  data :: "nat option"
  dsize :: nat
  ip_data :: "nat option"
  ip_dsize :: nat
  outer_ip_data :: "nat option"
  outer_ip_dsize :: nat
  actual_ip_len :: nat
  ip_frag_start :: "nat option"
  ip_frag_len :: nat
  frag_flag :: bool
  frag_offset :: nat
  mf :: bool
  df :: bool
  rf :: bool
  ip_options_data :: "nat option"
  ip_options_len :: nat
  ip_options :: "nat \<Rightarrow> Options"
  ip_option_count :: nat
  tcp_options_data :: "nat option"
  tcp_options_len :: nat
  tcp_options :: "nat \<Rightarrow> Options"
  tcp_option_count :: nat
  ip6_extensions :: "nat \<Rightarrow> IP6Option"
  ip6_extension_count :: nat
  ip6_frag_index :: nat
  ip4h :: "IP4Hdr option"
  ip6h :: "IP6Hdr option"
  family :: ip_family
  encapsulated :: bool
  GTPencapsulated :: bool
  unsure_encap :: bool
  ignore_port :: bool
  bit_teredo :: bool
  bit_gtp :: bool
  proto_bits :: u16
  error_flags :: u8
  sp :: nat
  dp :: nat
  orig_sp :: nat
  orig_dp :: nat
  layers :: "Layer list"
  dec_events :: "nat list"

text \<open>
  \<open>family\<close> etc. are as in \<open>decode.h\<close>; \<open>unsure_encap\<close> and \<open>ignore_port\<close> are bits of \<open>packet_flags\<close>,
  \<open>bit_teredo\<close> and \<open>bit_gtp\<close> bits of \<open>proto_bits\<close>, \<open>layers\<close> the first \<open>next_layer\<close> entries of the array,
  and \<open>dec_events\<close> the ids queued for this packet.
\<close>

text \<open>The configuration the decoders look at; an alert of the array \<open>decodeRulesArray\<close> is enabled or not.\<close>

record DecodeConf =
  ids_mode :: bool
  event_enabled :: "nat \<Rightarrow> bool"
  oversized_alerts :: bool
  tcpopt_alerts :: bool
  tcp_checksums :: bool
  udp_checksums :: bool
  ip_checksums :: bool
  icmp_checksums :: bool
  esp_decoding :: bool
  gtp_decoding :: bool
  gtp_port :: "nat \<Rightarrow> bool"
  deep_teredo :: bool
  ignore_tcp_port :: "nat \<Rightarrow> bool"
  ignore_udp_port :: "nat \<Rightarrow> bool"
  syn_multicast :: "u8 list \<Rightarrow> bool"
  mpls_multicast :: bool
  mpls_stack_depth :: "nat option"
  mpls_payload :: int

text \<open>The ids of the alerts (\<open>generators.h\<close>).\<close>

abbreviation (input) DECODE_ARP_TRUNCATED :: nat where "DECODE_ARP_TRUNCATED \<equiv> 109"
abbreviation (input) DECODE_BAD_FRAGBITS :: nat where "DECODE_BAD_FRAGBITS \<equiv> 405"
abbreviation (input) DECODE_BAD_MPLS :: nat where "DECODE_BAD_MPLS \<equiv> 170"
abbreviation (input) DECODE_BAD_MPLS_LABEL0 :: nat where "DECODE_BAD_MPLS_LABEL0 \<equiv> 171"
abbreviation (input) DECODE_BAD_MPLS_LABEL1 :: nat where "DECODE_BAD_MPLS_LABEL1 \<equiv> 172"
abbreviation (input) DECODE_BAD_MPLS_LABEL2 :: nat where "DECODE_BAD_MPLS_LABEL2 \<equiv> 173"
abbreviation (input) DECODE_BAD_MPLS_LABEL3 :: nat where "DECODE_BAD_MPLS_LABEL3 \<equiv> 174"
abbreviation (input) DECODE_BAD_PPPOE :: nat where "DECODE_BAD_PPPOE \<equiv> 120"
abbreviation (input) DECODE_BAD_TRAFFIC_LOOPBACK :: nat where "DECODE_BAD_TRAFFIC_LOOPBACK \<equiv> 150"
abbreviation (input) DECODE_BAD_TRAFFIC_SAME_SRCDST :: nat where "DECODE_BAD_TRAFFIC_SAME_SRCDST \<equiv> 151"
abbreviation (input) DECODE_BAD_VLAN :: nat where "DECODE_BAD_VLAN \<equiv> 130"
abbreviation (input) DECODE_BAD_VLAN_ETHLLC :: nat where "DECODE_BAD_VLAN_ETHLLC \<equiv> 131"
abbreviation (input) DECODE_BAD_VLAN_OTHER :: nat where "DECODE_BAD_VLAN_OTHER \<equiv> 132"
abbreviation (input) DECODE_DOS_NAPTHA :: nat where "DECODE_DOS_NAPTHA \<equiv> 402"
abbreviation (input) DECODE_ESP_HEADER_TRUNC :: nat where "DECODE_ESP_HEADER_TRUNC \<equiv> 294"
abbreviation (input) DECODE_ETH_HDR_TRUNC :: nat where "DECODE_ETH_HDR_TRUNC \<equiv> 424"
abbreviation (input) DECODE_GRE_DGRAM_LT_GREHDR :: nat where "DECODE_GRE_DGRAM_LT_GREHDR \<equiv> 160"
abbreviation (input) DECODE_GRE_INVALID_HEADER :: nat where "DECODE_GRE_INVALID_HEADER \<equiv> 163"
abbreviation (input) DECODE_GRE_INVALID_VERSION :: nat where "DECODE_GRE_INVALID_VERSION \<equiv> 162"
abbreviation (input) DECODE_GRE_TRANS_DGRAM_LT_TRANSHDR :: nat where "DECODE_GRE_TRANS_DGRAM_LT_TRANSHDR \<equiv> 165"
abbreviation (input) DECODE_GRE_V1_INVALID_HEADER :: nat where "DECODE_GRE_V1_INVALID_HEADER \<equiv> 164"
abbreviation (input) DECODE_GTP_BAD_LEN :: nat where "DECODE_GTP_BAD_LEN \<equiv> 298"
abbreviation (input) DECODE_GTP_MULTIPLE_ENCAPSULATION :: nat where "DECODE_GTP_MULTIPLE_ENCAPSULATION \<equiv> 297"
abbreviation (input) DECODE_ICMP4_DST_BROADCAST :: nat where "DECODE_ICMP4_DST_BROADCAST \<equiv> 416"
abbreviation (input) DECODE_ICMP4_DST_MULTICAST :: nat where "DECODE_ICMP4_DST_MULTICAST \<equiv> 415"
abbreviation (input) DECODE_ICMP4_HDR_TRUNC :: nat where "DECODE_ICMP4_HDR_TRUNC \<equiv> 426"
abbreviation (input) DECODE_ICMP4_TYPE_OTHER :: nat where "DECODE_ICMP4_TYPE_OTHER \<equiv> 418"
abbreviation (input) DECODE_ICMP6_DST_MULTICAST :: nat where "DECODE_ICMP6_DST_MULTICAST \<equiv> 432"
abbreviation (input) DECODE_ICMP6_HDR_TRUNC :: nat where "DECODE_ICMP6_HDR_TRUNC \<equiv> 427"
abbreviation (input) DECODE_ICMP6_TYPE_OTHER :: nat where "DECODE_ICMP6_TYPE_OTHER \<equiv> 431"
abbreviation (input) DECODE_ICMPV6_ADVERT_BAD_CODE :: nat where "DECODE_ICMPV6_ADVERT_BAD_CODE \<equiv> 288"
abbreviation (input) DECODE_ICMPV6_ADVERT_BAD_REACHABLE :: nat where "DECODE_ICMPV6_ADVERT_BAD_REACHABLE \<equiv> 290"
abbreviation (input) DECODE_ICMPV6_SOLICITATION_BAD_CODE :: nat where "DECODE_ICMPV6_SOLICITATION_BAD_CODE \<equiv> 287"
abbreviation (input) DECODE_ICMPV6_SOLICITATION_BAD_RESERVED :: nat where "DECODE_ICMPV6_SOLICITATION_BAD_RESERVED \<equiv> 289"
abbreviation (input) DECODE_ICMPV6_TOO_BIG_BAD_MTU :: nat where "DECODE_ICMPV6_TOO_BIG_BAD_MTU \<equiv> 285"
abbreviation (input) DECODE_ICMPV6_UNREACHABLE_BAD_CODE :: nat where "DECODE_ICMPV6_UNREACHABLE_BAD_CODE \<equiv> 286"
abbreviation (input) DECODE_ICMP_BROADSCAN_SMURF_SCANNER :: nat where "DECODE_ICMP_BROADSCAN_SMURF_SCANNER \<equiv> 440"
abbreviation (input) DECODE_ICMP_DGRAM_LT_ADDRHDR :: nat where "DECODE_ICMP_DGRAM_LT_ADDRHDR \<equiv> 107"
abbreviation (input) DECODE_ICMP_DGRAM_LT_ICMPHDR :: nat where "DECODE_ICMP_DGRAM_LT_ICMPHDR \<equiv> 105"
abbreviation (input) DECODE_ICMP_DGRAM_LT_TIMESTAMPHDR :: nat where "DECODE_ICMP_DGRAM_LT_TIMESTAMPHDR \<equiv> 106"
abbreviation (input) DECODE_ICMP_DOS_ATTEMPT :: nat where "DECODE_ICMP_DOS_ATTEMPT \<equiv> 452"
abbreviation (input) DECODE_ICMP_DST_UNREACH_ADMIN_PROHIBITED :: nat where "DECODE_ICMP_DST_UNREACH_ADMIN_PROHIBITED \<equiv> 441"
abbreviation (input) DECODE_ICMP_DST_UNREACH_DST_HOST_PROHIBITED :: nat where "DECODE_ICMP_DST_UNREACH_DST_HOST_PROHIBITED \<equiv> 442"
abbreviation (input) DECODE_ICMP_DST_UNREACH_DST_NET_PROHIBITED :: nat where "DECODE_ICMP_DST_UNREACH_DST_NET_PROHIBITED \<equiv> 443"
abbreviation (input) DECODE_ICMP_ICMPENUM :: nat where "DECODE_ICMP_ICMPENUM \<equiv> 435"
abbreviation (input) DECODE_ICMP_ORIG_DGRAM_LT_ORIG_IP :: nat where "DECODE_ICMP_ORIG_DGRAM_LT_ORIG_IP \<equiv> 252"
abbreviation (input) DECODE_ICMP_ORIG_IP_TRUNCATED :: nat where "DECODE_ICMP_ORIG_IP_TRUNCATED \<equiv> 250"
abbreviation (input) DECODE_ICMP_ORIG_IP_VER_MISMATCH :: nat where "DECODE_ICMP_ORIG_IP_VER_MISMATCH \<equiv> 251"
abbreviation (input) DECODE_ICMP_ORIG_IP_WITH_FRAGOFFSET :: nat where "DECODE_ICMP_ORIG_IP_WITH_FRAGOFFSET \<equiv> 255"
abbreviation (input) DECODE_ICMP_ORIG_PAYLOAD_GT_576 :: nat where "DECODE_ICMP_ORIG_PAYLOAD_GT_576 \<equiv> 254"
abbreviation (input) DECODE_ICMP_ORIG_PAYLOAD_LT_64 :: nat where "DECODE_ICMP_ORIG_PAYLOAD_LT_64 \<equiv> 253"
abbreviation (input) DECODE_ICMP_PATH_MTU_DOS :: nat where "DECODE_ICMP_PATH_MTU_DOS \<equiv> 451"
abbreviation (input) DECODE_ICMP_PING_NMAP :: nat where "DECODE_ICMP_PING_NMAP \<equiv> 434"
abbreviation (input) DECODE_ICMP_REDIRECT_HOST :: nat where "DECODE_ICMP_REDIRECT_HOST \<equiv> 436"
abbreviation (input) DECODE_ICMP_REDIRECT_NET :: nat where "DECODE_ICMP_REDIRECT_NET \<equiv> 437"
abbreviation (input) DECODE_ICMP_SOURCE_QUENCH :: nat where "DECODE_ICMP_SOURCE_QUENCH \<equiv> 439"
abbreviation (input) DECODE_ICMP_TRACEROUTE_IPOPTS :: nat where "DECODE_ICMP_TRACEROUTE_IPOPTS \<equiv> 438"
abbreviation (input) DECODE_IGMP_OPTIONS_DOS :: nat where "DECODE_IGMP_OPTIONS_DOS \<equiv> 455"
abbreviation (input) DECODE_IP4_DF_OFFSET :: nat where "DECODE_IP4_DF_OFFSET \<equiv> 430"
abbreviation (input) DECODE_IP4_DST_BROADCAST :: nat where "DECODE_IP4_DST_BROADCAST \<equiv> 414"
abbreviation (input) DECODE_IP4_DST_RESERVED :: nat where "DECODE_IP4_DST_RESERVED \<equiv> 412"
abbreviation (input) DECODE_IP4_DST_THIS_NET :: nat where "DECODE_IP4_DST_THIS_NET \<equiv> 409"
abbreviation (input) DECODE_IP4_HDR_TRUNC :: nat where "DECODE_IP4_HDR_TRUNC \<equiv> 425"
abbreviation (input) DECODE_IP4_LEN_OFFSET :: nat where "DECODE_IP4_LEN_OFFSET \<equiv> 407"
abbreviation (input) DECODE_IP4_SRC_BROADCAST :: nat where "DECODE_IP4_SRC_BROADCAST \<equiv> 413"
abbreviation (input) DECODE_IP4_SRC_MULTICAST :: nat where "DECODE_IP4_SRC_MULTICAST \<equiv> 410"
abbreviation (input) DECODE_IP4_SRC_RESERVED :: nat where "DECODE_IP4_SRC_RESERVED \<equiv> 411"
abbreviation (input) DECODE_IP4_SRC_THIS_NET :: nat where "DECODE_IP4_SRC_THIS_NET \<equiv> 408"
abbreviation (input) DECODE_IP6_EXCESS_EXT_HDR :: nat where "DECODE_IP6_EXCESS_EXT_HDR \<equiv> 456"
abbreviation (input) DECODE_IPV4OPT_BADLEN :: nat where "DECODE_IPV4OPT_BADLEN \<equiv> 4"
abbreviation (input) DECODE_IPV4OPT_TRUNCATED :: nat where "DECODE_IPV4OPT_TRUNCATED \<equiv> 5"
abbreviation (input) DECODE_IPV4_DGRAM_GT_CAPLEN :: nat where "DECODE_IPV4_DGRAM_GT_CAPLEN \<equiv> 6"
abbreviation (input) DECODE_IPV4_DGRAM_LT_IPHDR :: nat where "DECODE_IPV4_DGRAM_LT_IPHDR \<equiv> 3"
abbreviation (input) DECODE_IPV4_INVALID_HEADER_LEN :: nat where "DECODE_IPV4_INVALID_HEADER_LEN \<equiv> 2"
abbreviation (input) DECODE_IPV6_BAD_NEXT_HEADER :: nat where "DECODE_IPV6_BAD_NEXT_HEADER \<equiv> 281"
abbreviation (input) DECODE_IPV6_BAD_OPT_LEN :: nat where "DECODE_IPV6_BAD_OPT_LEN \<equiv> 295"
abbreviation (input) DECODE_IPV6_BAD_OPT_TYPE :: nat where "DECODE_IPV6_BAD_OPT_TYPE \<equiv> 279"
abbreviation (input) DECODE_IPV6_DGRAM_GT_CAPLEN :: nat where "DECODE_IPV6_DGRAM_GT_CAPLEN \<equiv> 275"
abbreviation (input) DECODE_IPV6_DSTOPTS_WITH_ROUTING :: nat where "DECODE_IPV6_DSTOPTS_WITH_ROUTING \<equiv> 292"
abbreviation (input) DECODE_IPV6_IS_NOT :: nat where "DECODE_IPV6_IS_NOT \<equiv> 271"
abbreviation (input) DECODE_IPV6_ROUTE_AND_HOPBYHOP :: nat where "DECODE_IPV6_ROUTE_AND_HOPBYHOP \<equiv> 282"
abbreviation (input) DECODE_IPV6_TRUNCATED :: nat where "DECODE_IPV6_TRUNCATED \<equiv> 273"
abbreviation (input) DECODE_IPV6_TRUNCATED_EXT :: nat where "DECODE_IPV6_TRUNCATED_EXT \<equiv> 272"
abbreviation (input) DECODE_IPV6_TUNNELED_IPV4_TRUNCATED :: nat where "DECODE_IPV6_TUNNELED_IPV4_TRUNCATED \<equiv> 291"
abbreviation (input) DECODE_IPV6_TWO_ROUTE_HEADERS :: nat where "DECODE_IPV6_TWO_ROUTE_HEADERS \<equiv> 283"
abbreviation (input) DECODE_IPV6_UNORDERED_EXTENSIONS :: nat where "DECODE_IPV6_UNORDERED_EXTENSIONS \<equiv> 296"
abbreviation (input) DECODE_IP_BAD_PROTO :: nat where "DECODE_IP_BAD_PROTO \<equiv> 450"
abbreviation (input) DECODE_IP_MULTIPLE_ENCAPSULATION :: nat where "DECODE_IP_MULTIPLE_ENCAPSULATION \<equiv> 293"
abbreviation (input) DECODE_IP_OPTION_SET :: nat where "DECODE_IP_OPTION_SET \<equiv> 444"
abbreviation (input) DECODE_IP_RESERVED_FRAG_BIT :: nat where "DECODE_IP_RESERVED_FRAG_BIT \<equiv> 448"
abbreviation (input) DECODE_IP_UNASSIGNED_PROTO :: nat where "DECODE_IP_UNASSIGNED_PROTO \<equiv> 449"
abbreviation (input) DECODE_MPLS_LABEL_STACK :: nat where "DECODE_MPLS_LABEL_STACK \<equiv> 176"
abbreviation (input) DECODE_MPLS_RESERVED_LABEL :: nat where "DECODE_MPLS_RESERVED_LABEL \<equiv> 175"
abbreviation (input) DECODE_NOT_IPV4_DGRAM :: nat where "DECODE_NOT_IPV4_DGRAM \<equiv> 1"
abbreviation (input) DECODE_PGM_NAK_OVERFLOW :: nat where "DECODE_PGM_NAK_OVERFLOW \<equiv> 454"
abbreviation (input) DECODE_SYN_TO_MULTICAST :: nat where "DECODE_SYN_TO_MULTICAST \<equiv> 403"
abbreviation (input) DECODE_TCPOPT_BADLEN :: nat where "DECODE_TCPOPT_BADLEN \<equiv> 54"
abbreviation (input) DECODE_TCPOPT_EXPERIMENT :: nat where "DECODE_TCPOPT_EXPERIMENT \<equiv> 58"
abbreviation (input) DECODE_TCPOPT_OBSOLETE :: nat where "DECODE_TCPOPT_OBSOLETE \<equiv> 57"
abbreviation (input) DECODE_TCPOPT_TRUNCATED :: nat where "DECODE_TCPOPT_TRUNCATED \<equiv> 55"
abbreviation (input) DECODE_TCPOPT_TTCP :: nat where "DECODE_TCPOPT_TTCP \<equiv> 56"
abbreviation (input) DECODE_TCPOPT_WSCALE_INVALID :: nat where "DECODE_TCPOPT_WSCALE_INVALID \<equiv> 59"
abbreviation (input) DECODE_TCP_BAD_URP :: nat where "DECODE_TCP_BAD_URP \<equiv> 419"
abbreviation (input) DECODE_TCP_DGRAM_LT_TCPHDR :: nat where "DECODE_TCP_DGRAM_LT_TCPHDR \<equiv> 45"
abbreviation (input) DECODE_TCP_INVALID_OFFSET :: nat where "DECODE_TCP_INVALID_OFFSET \<equiv> 46"
abbreviation (input) DECODE_TCP_LARGE_OFFSET :: nat where "DECODE_TCP_LARGE_OFFSET \<equiv> 47"
abbreviation (input) DECODE_TCP_MUST_ACK :: nat where "DECODE_TCP_MUST_ACK \<equiv> 422"
abbreviation (input) DECODE_TCP_NMAP_XMAS :: nat where "DECODE_TCP_NMAP_XMAS \<equiv> 401"
abbreviation (input) DECODE_TCP_NO_SYN_ACK_RST :: nat where "DECODE_TCP_NO_SYN_ACK_RST \<equiv> 423"
abbreviation (input) DECODE_TCP_PORT_ZERO :: nat where "DECODE_TCP_PORT_ZERO \<equiv> 446"
abbreviation (input) DECODE_TCP_SHAFT_SYNFLOOD :: nat where "DECODE_TCP_SHAFT_SYNFLOOD \<equiv> 433"
abbreviation (input) DECODE_TCP_SYN_FIN :: nat where "DECODE_TCP_SYN_FIN \<equiv> 420"
abbreviation (input) DECODE_TCP_SYN_RST :: nat where "DECODE_TCP_SYN_RST \<equiv> 421"
abbreviation (input) DECODE_TCP_XMAS :: nat where "DECODE_TCP_XMAS \<equiv> 400"
abbreviation (input) DECODE_UDP_DGRAM_INVALID_LENGTH :: nat where "DECODE_UDP_DGRAM_INVALID_LENGTH \<equiv> 96"
abbreviation (input) DECODE_UDP_DGRAM_LONG_PACKET :: nat where "DECODE_UDP_DGRAM_LONG_PACKET \<equiv> 98"
abbreviation (input) DECODE_UDP_DGRAM_LT_UDPHDR :: nat where "DECODE_UDP_DGRAM_LT_UDPHDR \<equiv> 95"
abbreviation (input) DECODE_UDP_DGRAM_SHORT_PACKET :: nat where "DECODE_UDP_DGRAM_SHORT_PACKET \<equiv> 97"
abbreviation (input) DECODE_UDP_IPV6_ZERO_CHECKSUM :: nat where "DECODE_UDP_IPV6_ZERO_CHECKSUM \<equiv> 406"
abbreviation (input) DECODE_UDP_LARGE_PACKET :: nat where "DECODE_UDP_LARGE_PACKET \<equiv> 445"
abbreviation (input) DECODE_UDP_PORT_ZERO :: nat where "DECODE_UDP_PORT_ZERO \<equiv> 447"

section \<open>Results and reads\<close>

definition rbind :: "fault + 'a \<Rightarrow> ('a \<Rightarrow> fault + 'b) \<Rightarrow> fault + 'b" where
  "rbind m f = (case m of Inl e \<Rightarrow> Inl e | Inr x \<Rightarrow> f x)"

definition rd8 :: "site \<Rightarrow> Packet \<Rightarrow> nat \<Rightarrow> nat \<Rightarrow> nat \<Rightarrow> (u8 \<Rightarrow> fault + 'a) \<Rightarrow> fault + 'a" where
  "rd8 s p off len i k = (if i < len then k (pkt_mem p (off + i)) else Inl (Overread s))"

definition be16 :: "u8 \<Rightarrow> u8 \<Rightarrow> nat" where
  "be16 a b = 256 * unat a + unat b"

text \<open>Numbers of the packet are big endian (\<open>ntohs\<close>, \<open>ntohl\<close>).\<close>

definition rd16 :: "site \<Rightarrow> Packet \<Rightarrow> nat \<Rightarrow> nat \<Rightarrow> nat \<Rightarrow> (nat \<Rightarrow> fault + 'a) \<Rightarrow> fault + 'a" where
  "rd16 s p off len i k =
     (if i + 2 \<le> len then k (be16 (pkt_mem p (off + i)) (pkt_mem p (off + i + 1))) else Inl (Overread s))"

definition rd32 :: "site \<Rightarrow> Packet \<Rightarrow> nat \<Rightarrow> nat \<Rightarrow> nat \<Rightarrow> (nat \<Rightarrow> fault + 'a) \<Rightarrow> fault + 'a" where
  "rd32 s p off len i k =
     (if i + 4 \<le> len
      then k (65536 * be16 (pkt_mem p (off + i)) (pkt_mem p (off + i + 1)) +
              be16 (pkt_mem p (off + i + 2)) (pkt_mem p (off + i + 3)))
      else Inl (Overread s))"

definition rdbytes :: "site \<Rightarrow> Packet \<Rightarrow> nat \<Rightarrow> nat \<Rightarrow> nat \<Rightarrow> nat \<Rightarrow> (u8 list \<Rightarrow> fault + 'a) \<Rightarrow> fault + 'a" where
  "rdbytes s p off len i n k =
     (if i + n \<le> len then k (map (\<lambda>j. pkt_mem p (off + i + j)) [0 ..< n]) else Inl (Overread s))"

definition deref :: "site \<Rightarrow> 'b option \<Rightarrow> ('b \<Rightarrow> fault + 'a) \<Rightarrow> fault + 'a" where
  "deref s q k = (case q of None \<Rightarrow> Inl (Null_pointer s) | Some x \<Rightarrow> k x)"

section \<open>Events and layers\<close>

definition DecoderEvent :: "DecodeConf \<Rightarrow> nat \<Rightarrow> Packet \<Rightarrow> Packet" where
  "DecoderEvent cf sid p = (if ids_mode cf then p\<lparr>dec_events := dec_events p @ [sid]\<rparr> else p)"

definition DecoderEventDrop :: "DecodeConf \<Rightarrow> nat \<Rightarrow> bool \<Rightarrow> Packet \<Rightarrow> Packet" where
  "DecoderEventDrop cf sid event_flag p =
     (if ids_mode cf \<and> event_flag then p\<lparr>dec_events := dec_events p @ [sid]\<rparr> else p)"

text \<open>An event under \<open>Event_Enabled\<close> and a condition.\<close>

definition event_if :: "DecodeConf \<Rightarrow> nat \<Rightarrow> bool \<Rightarrow> Packet \<Rightarrow> Packet" where
  "event_if cf sid b p = (if event_enabled cf sid \<and> b then DecoderEvent cf sid p else p)"

definition DecoderAlertEncapsulated :: "DecodeConf \<Rightarrow> nat \<Rightarrow> nat \<Rightarrow> nat \<Rightarrow> Packet \<Rightarrow> Packet" where
  "DecoderAlertEncapsulated cf sid off len p =
     (DecoderEvent cf sid p)\<lparr>data := Some off, dsize := len mod 65536, greh := None\<rparr>"

abbreviation (input) LAYER_MAX :: nat where "LAYER_MAX \<equiv> 32"

definition PushLayer :: "proto_id \<Rightarrow> nat \<Rightarrow> nat \<Rightarrow> Packet \<Rightarrow> Packet" where
  "PushLayer t hdr len p =
     (if length (layers p) < LAYER_MAX
      then p\<lparr>layers := layers p @ [\<lparr>ly_proto = t, ly_start = hdr, ly_length = len mod 65536\<rparr>]\<rparr> else p)"

section \<open>Checksums\<close>

text \<open>The sums of little-endian words of \<open>checksum.h\<close>; their unrolled loops add the same words.\<close>

fun sum16 :: "u8 list \<Rightarrow> u32" where
  "sum16 [] = 0"
| "sum16 [a] = ucast a"
| "sum16 (a # b # cs) = ucast a + 256 * ucast b + sum16 cs"

definition chksum_fold :: "u32 \<Rightarrow> u16" where
  "chksum_fold c = (let c = drop_bit 16 c + (c AND 0xffff); c = c + drop_bit 16 c in NOT (ucast c))"

definition in_chksum :: "u8 list \<Rightarrow> u8 list \<Rightarrow> u16" where
  "in_chksum pseudo d = chksum_fold (sum16 pseudo + sum16 d)"

definition htons :: "nat \<Rightarrow> u8 list" where
  "htons n = [of_nat (n div 256), of_nat n]"

text \<open>The pseudo header of either family.\<close>

definition pseudo_header :: "site \<Rightarrow> nat \<Rightarrow> Packet \<Rightarrow> (u8 list \<Rightarrow> fault + 'a) \<Rightarrow> fault + 'a" where
  "pseudo_header s len p k =
     (if family p = AF_INET
      then deref s (ip4h p) (\<lambda>h. k (h4_src h @ h4_dst h @ [0, h4_proto h] @ htons len))
      else deref s (ip6h p) (\<lambda>h. k (h6_src h @ h6_dst h @ [0, h6_next h] @ htons len)))"

section \<open>Options\<close>

abbreviation (input) TCP_OPT_TRUNC :: int where "TCP_OPT_TRUNC \<equiv> - 1"
abbreviation (input) TCP_OPT_BADLEN :: int where "TCP_OPT_BADLEN \<equiv> - 2"
abbreviation (input) IP_OPTMAX :: nat where "IP_OPTMAX \<equiv> 40"
abbreviation (input) TCP_OPTLENMAX :: nat where "TCP_OPTLENMAX \<equiv> 40"

text \<open>
  The option at index \<open>i\<close> of the \<open>o_len\<close> option bytes at \<open>start\<close>; \<open>len_ptr\<close> is NULL for the last byte.
  The continuation gets the code, the option and \<open>byte_skip\<close>.
\<close>

definition OptLenValidate ::
  "site \<Rightarrow> Packet \<Rightarrow> nat \<Rightarrow> nat \<Rightarrow> nat \<Rightarrow> int \<Rightarrow> Options \<Rightarrow>
   (int \<Rightarrow> Options \<Rightarrow> nat \<Rightarrow> fault + 'a) \<Rightarrow> fault + 'a" where
  "OptLenValidate s p start o_len i expected_len opt k =
     (if \<not> i + 1 < o_len then k TCP_OPT_TRUNC opt 0
      else rd8 s p start o_len (i + 1) (\<lambda>l.
        let ok = k 0 (opt\<lparr>op_len := unat l - 2, op_data := (if l = 2 then None else Some (start + i + 2))\<rparr>) (unat l)
        in if l = 0 \<or> expected_len = 0 \<or> expected_len = 1 then k TCP_OPT_BADLEN opt 0
           else if expected_len > 1 then
             (if int i + expected_len > int o_len then k TCP_OPT_TRUNC opt 0
              else if int (unat l) \<noteq> expected_len then k TCP_OPT_BADLEN opt 0
              else ok)
           else (if l < 2 then k TCP_OPT_BADLEN opt 0
                 else if i + unat l > o_len then k TCP_OPT_TRUNC opt 0
                 else ok)))"

abbreviation (input) TCPOPT_EOL :: u8 where "TCPOPT_EOL \<equiv> 0"
abbreviation (input) TCPOPT_NOP :: u8 where "TCPOPT_NOP \<equiv> 1"
abbreviation (input) TCPOPT_WSCALE :: u8 where "TCPOPT_WSCALE \<equiv> 3"
abbreviation (input) TCPOPT_SACK :: u8 where "TCPOPT_SACK \<equiv> 5"

text \<open>The cases of the switch: the length expected and what the option counts as.\<close>

datatype opt_class = O_plain | O_experimental | O_obsolete | O_ttcp

definition tcp_opt_class :: "u8 \<Rightarrow> int \<times> opt_class" where
  "tcp_opt_class c =
     (if c = 2 then (4, O_plain)
      else if c = 4 then (2, O_plain)
      else if c = TCPOPT_WSCALE then (3, O_plain)
      else if c = 6 \<or> c = 7 then (6, O_obsolete)
      else if c = 19 then (18, O_experimental)
      else if c = TCPOPT_SACK then (- 1, O_plain)
      else if c = 13 then (6, O_ttcp)
      else if c = 11 \<or> c = 12 then (6, O_plain)
      else if c = 18 then (3, O_experimental)
      else if c = 8 then (10, O_plain)
      else if c = 16 \<or> c = 17 \<or> c = 25 then (- 1, O_obsolete)
      else (- 1, O_experimental))"

definition set_tcp_opt :: "nat \<Rightarrow> Options \<Rightarrow> Packet \<Rightarrow> Packet" where
  "set_tcp_opt n opt p = p\<lparr>tcp_options := (tcp_options p)(n := opt)\<rparr>"

definition tcp_opts_done :: "DecodeConf \<Rightarrow> nat \<Rightarrow> opt_class set \<Rightarrow> Packet \<Rightarrow> Packet" where
  "tcp_opts_done cf n found p =
     (let p = p\<lparr>tcp_option_count := n\<rparr>
      in if O_experimental \<in> found then DecoderEvent cf DECODE_TCPOPT_EXPERIMENT p
         else if O_obsolete \<in> found then DecoderEvent cf DECODE_TCPOPT_OBSOLETE p
         else if O_ttcp \<in> found then DecoderEvent cf DECODE_TCPOPT_TTCP p
         else p)"

definition tcp_opt_bad :: "DecodeConf \<Rightarrow> int \<Rightarrow> nat \<Rightarrow> Packet \<Rightarrow> Packet" where
  "tcp_opt_bad cf code n p =
     (let p = (if code = TCP_OPT_BADLEN then DecoderEvent cf DECODE_TCPOPT_BADLEN p
               else if code = TCP_OPT_TRUNC then DecoderEvent cf DECODE_TCPOPT_TRUNCATED p else p)
      in p\<lparr>tcp_option_count := n\<rparr>)"

text \<open>
  \<open>room\<close> is what is left of \<open>TCP_OPTLENMAX - opt_count\<close>. The entry of the option keeps what an
  earlier packet left in it where the code does not set it.
\<close>

fun tcp_opt_loop ::
  "DecodeConf \<Rightarrow> nat \<Rightarrow> nat \<Rightarrow> nat \<Rightarrow> nat \<Rightarrow> nat \<Rightarrow> opt_class set \<Rightarrow> Packet \<Rightarrow> fault + Packet" where
  "tcp_opt_loop cf 0 start o_len i n found p = Inr (tcp_opts_done cf n found p)"
| "tcp_opt_loop cf (Suc room) start o_len i n found p =
     (if \<not> i < o_len then Inr (tcp_opts_done cf n found p)
      else rd8 S_TCPOpt p start o_len i (\<lambda>c.
        let opt = (tcp_options p n)\<lparr>op_code := c\<rparr>
        in if c = TCPOPT_EOL \<or> c = TCPOPT_NOP then
             (let p = set_tcp_opt n (opt\<lparr>op_len := 0, op_data := None\<rparr>) p
              in if c = TCPOPT_EOL then Inr (tcp_opts_done cf (n + 1) found p)
                 else tcp_opt_loop cf room start o_len (i + 1) (n + 1) found p)
           else case tcp_opt_class c of (expected, cls) \<Rightarrow>
             OptLenValidate S_TCPOpt p start o_len i expected opt (\<lambda>code opt skip.
               let p = set_tcp_opt n opt p;
                   code = (if c = TCPOPT_SACK \<and> op_data opt = None then TCP_OPT_BADLEN else code);
                   found = insert cls found
               in if code < 0 then Inr (tcp_opt_bad cf code n p)
                  else if c = TCPOPT_WSCALE then
                    deref S_TCPOpt (op_data opt) (\<lambda>d. rd8 S_TCPOpt p 0 (caplen p) d (\<lambda>v.
                      tcp_opt_loop cf room start o_len (i + skip) (n + 1) found
                        (if 14 < v \<and> tcpopt_alerts cf then DecoderEvent cf DECODE_TCPOPT_WSCALE_INVALID p else p)))
                  else tcp_opt_loop cf room start o_len (i + skip) (n + 1) found p)))"

definition DecodeTCPOptions :: "DecodeConf \<Rightarrow> nat \<Rightarrow> nat \<Rightarrow> Packet \<Rightarrow> fault + Packet" where
  "DecodeTCPOptions cf start o_len p =
     (if o_len > TCP_OPTLENMAX then Inr (p\<lparr>tcph := None\<rparr>)
      else tcp_opt_loop cf TCP_OPTLENMAX start o_len 0 0 {} p)"

abbreviation (input) IPOPT_EOL :: u8 where "IPOPT_EOL \<equiv> 0"
abbreviation (input) IPOPT_NOP :: u8 where "IPOPT_NOP \<equiv> 1"
abbreviation (input) IPOPT_RR :: u8 where "IPOPT_RR \<equiv> 7"
abbreviation (input) IPOPT_TS :: u8 where "IPOPT_TS \<equiv> 68"

definition set_ip_opt :: "nat \<Rightarrow> Options \<Rightarrow> Packet \<Rightarrow> Packet" where
  "set_ip_opt n opt p = p\<lparr>ip_options := (ip_options p)(n := opt)\<rparr>"

text \<open>After the end-of-list option the loop goes on over the rest without counting.\<close>

fun ip_opt_loop :: "DecodeConf \<Rightarrow> nat \<Rightarrow> nat \<Rightarrow> nat \<Rightarrow> nat \<Rightarrow> nat \<Rightarrow> bool \<Rightarrow> Packet \<Rightarrow> fault + Packet" where
  "ip_opt_loop cf fuel start o_len i n fin p =
     (if \<not> (i < o_len \<and> n < IP_OPTMAX) then Inr (p\<lparr>ip_option_count := n\<rparr>)
      else case fuel of 0 \<Rightarrow> Inl Out_of_fuel | Suc fuel \<Rightarrow>
        rd8 S_IPOpt p start o_len i (\<lambda>c.
          let opt = (ip_options p n)\<lparr>op_code := c\<rparr>
          in if c = IPOPT_NOP \<or> c = IPOPT_EOL then
               (let p = set_ip_opt n (opt\<lparr>op_len := 0, op_data := None\<rparr>) p; fin = (fin \<or> c = IPOPT_EOL)
                in ip_opt_loop cf fuel start o_len (i + 1) (if fin then n else n + 1) fin p)
             else OptLenValidate S_IPOpt p start o_len i (- 1) opt (\<lambda>code opt skip.
               let p = set_ip_opt n opt p
               in if code < 0 then
                    Inr (if code = TCP_OPT_BADLEN then DecoderEvent cf DECODE_IPV4OPT_BADLEN p
                         else if code = TCP_OPT_TRUNC then DecoderEvent cf DECODE_IPV4OPT_TRUNCATED p else p)
                  else ip_opt_loop cf fuel start o_len (i + skip) (if fin then n else n + 1) fin p)))"

definition DecodeIPOptions :: "DecodeConf \<Rightarrow> nat \<Rightarrow> nat \<Rightarrow> Packet \<Rightarrow> fault + Packet" where
  "DecodeIPOptions cf start o_len p = ip_opt_loop cf o_len start o_len 0 0 False p"

section \<open>Alert tests\<close>

definition swab16 :: "nat \<Rightarrow> nat" where
  "swab16 n = 256 * (n mod 256) + n div 256"

text \<open>\<open>(uint16_t)(a - b)\<close>.\<close>

definition sub16 :: "nat \<Rightarrow> nat \<Rightarrow> nat" where
  "sub16 a b = (a + 65536 - b) mod 65536"

text \<open>The macros that go through \<open>iph_api\<close> (\<open>sf_iph.c\<close>). \<open>GET_IPH_ID\<close> is in network order.\<close>

definition GET_IPH_PROTO :: "site \<Rightarrow> Packet \<Rightarrow> (u8 \<Rightarrow> fault + 'a) \<Rightarrow> fault + 'a" where
  "GET_IPH_PROTO s p k =
     (if family p = AF_INET6 then deref s (ip6h p) (\<lambda>h. k (h6_next h)) else deref s (ip4h p) (\<lambda>h. k (h4_proto h)))"

definition GET_IPH_LEN :: "site \<Rightarrow> Packet \<Rightarrow> (nat \<Rightarrow> fault + 'a) \<Rightarrow> fault + 'a" where
  "GET_IPH_LEN s p k =
     (if family p = AF_INET6 then deref s (ip6h p) (\<lambda>h. k (h6_len h)) else deref s (ip4h p) (\<lambda>h. k (h4_len h)))"

definition GET_IPH_HLEN :: "site \<Rightarrow> Packet \<Rightarrow> (nat \<Rightarrow> fault + 'a) \<Rightarrow> fault + 'a" where
  "GET_IPH_HLEN s p k =
     (if family p = AF_INET6 then k 10
      else deref s (iph p) (\<lambda>h. rd8 s p 0 (caplen p) h (\<lambda>v. k (unat v mod 16))))"

definition GET_DST_IP :: "site \<Rightarrow> Packet \<Rightarrow> (u8 list \<Rightarrow> fault + 'a) \<Rightarrow> fault + 'a" where
  "GET_DST_IP s p k =
     (if family p = AF_INET6 then deref s (ip6h p) (\<lambda>h. k (h6_dst h)) else deref s (ip4h p) (\<lambda>h. k (h4_dst h)))"

definition GET_IPH_ID :: "site \<Rightarrow> Packet \<Rightarrow> (nat \<Rightarrow> fault + 'a) \<Rightarrow> fault + 'a" where
  "GET_IPH_ID s p k =
     (if family p = AF_INET6 then
        (if ip6_extension_count p = 0 then k 0
         else rdbytes s p 0 (caplen p) (ex_data (ip6_extensions p (ip6_frag_index p)) + 4) 4
                (\<lambda>b. k (unat (b ! 0) + 256 * unat (b ! 1) + 65536 * unat (b ! 2) + 16777216 * unat (b ! 3))))
      else deref s (ip4h p) (\<lambda>h. k (swab16 (h4_id h))))"

definition IP4AddrTests :: "DecodeConf \<Rightarrow> nat \<Rightarrow> nat \<Rightarrow> Packet \<Rightarrow> fault + Packet" where
  "IP4AddrTests cf off len p =
     rdbytes S_IP p off len 12 4 (\<lambda>src. rdbytes S_IP p off len 16 4 (\<lambda>dst.
       let p = (if src = dst then DecoderEvent cf DECODE_BAD_TRAFFIC_SAME_SRCDST p else p);
           p = event_if cf DECODE_IP4_SRC_BROADCAST (src = [255, 255, 255, 255]) p;
           p = event_if cf DECODE_IP4_DST_BROADCAST (dst = [255, 255, 255, 255]) p;
           s = src ! 0; d = dst ! 0;
           p = (if s = 0x7f \<or> d = 0x7f then DecoderEvent cf DECODE_BAD_TRAFFIC_LOOPBACK p else p);
           p = event_if cf DECODE_IP4_SRC_THIS_NET (s = 0) p;
           p = event_if cf DECODE_IP4_DST_THIS_NET (d = 0) p;
           s = drop_bit 4 s; d = drop_bit 4 d;
           p = event_if cf DECODE_IP4_SRC_MULTICAST (s = 0x0e) p;
           p = event_if cf DECODE_IP4_SRC_RESERVED (s = 0x0f) p;
           p = event_if cf DECODE_IP4_DST_RESERVED (d = 0x0f) p
       in Inr p))"

definition ICMP4AddrTests :: "DecodeConf \<Rightarrow> Packet \<Rightarrow> fault + Packet" where
  "ICMP4AddrTests cf p =
     GET_DST_IP S_ICMP p (\<lambda>dst.
       Inr (event_if cf DECODE_ICMP4_DST_MULTICAST (drop_bit 4 (dst ! 0) = 0x0e)
             (event_if cf DECODE_ICMP4_DST_BROADCAST (take 4 dst = [255, 255, 255, 255]) p)))"

text \<open>The tests on the record route and timestamp options; the loop index \<open>i\<close> counts up to \<open>ip_option_count\<close>.\<close>

definition dos_option :: "DecodeConf \<Rightarrow> Options \<Rightarrow> Packet \<Rightarrow> fault + Packet" where
  "dos_option cf opt p =
     (case op_data opt of None \<Rightarrow> Inr p
      | Some d \<Rightarrow>
          if op_code opt = IPOPT_RR then
            (if op_len opt < 1 then Inr p
             else rd8 S_IPTests p 0 (caplen p) d (\<lambda>pointer.
               if unat pointer \<ge> op_len opt + 2 then Inr p
               else Inr (if (op_len opt + 3 - unat pointer) mod 4 \<noteq> 0 then DecoderEvent cf DECODE_ICMP_DOS_ATTEMPT p else p)))
          else if op_code opt = IPOPT_TS then
            (if op_len opt < 2 then Inr p
             else rd8 S_IPTests p 0 (caplen p) d (\<lambda>pointer.
               if unat pointer \<ge> op_len opt + 2 then Inr p
               else let p = (if (op_len opt + 3 - unat pointer) mod 4 \<noteq> 0 then DecoderEvent cf DECODE_ICMP_DOS_ATTEMPT p else p)
                    in rd8 S_IPTests p 0 (caplen p) (d + 1) (\<lambda>flags.
                         Inr (if flags AND 1 \<noteq> 0 \<and> (op_len opt + 3 - unat pointer) mod 8 \<noteq> 0
                              then DecoderEvent cf DECODE_ICMP_DOS_ATTEMPT p else p))))
          else Inr p)"

fun dos_options :: "DecodeConf \<Rightarrow> nat list \<Rightarrow> Packet \<Rightarrow> fault + Packet" where
  "dos_options cf [] p = Inr p"
| "dos_options cf (i # is) p = rbind (dos_option cf (ip_options p i) p) (dos_options cf is)"

definition IPMiscTests :: "DecodeConf \<Rightarrow> Packet \<Rightarrow> fault + Packet" where
  "IPMiscTests cf p =
     rbind (if event_enabled cf DECODE_ICMP_DOS_ATTEMPT then dos_options cf [0 ..< ip_option_count p] p else Inr p)
       (\<lambda>p. Inr (event_if cf DECODE_IP_RESERVED_FRAG_BIT (rf p) (event_if cf DECODE_IP_OPTION_SET (ip_option_count p > 0) p)))"

abbreviation (input) ICMP_ECHOREPLY :: u8 where "ICMP_ECHOREPLY \<equiv> 0"
abbreviation (input) ICMP_DEST_UNREACH :: u8 where "ICMP_DEST_UNREACH \<equiv> 3"
abbreviation (input) ICMP_SOURCE_QUENCH :: u8 where "ICMP_SOURCE_QUENCH \<equiv> 4"
abbreviation (input) ICMP_REDIRECT :: u8 where "ICMP_REDIRECT \<equiv> 5"
abbreviation (input) ICMP_ECHO :: u8 where "ICMP_ECHO \<equiv> 8"

text \<open>\<open>seq\<close> is \<open>s_icmp_seq\<close> in network order, read only where the code reads it.\<close>

definition icmp_seq :: "bool \<Rightarrow> site \<Rightarrow> nat \<Rightarrow> nat \<Rightarrow> Packet \<Rightarrow> (nat \<Rightarrow> fault + 'a) \<Rightarrow> fault + 'a" where
  "icmp_seq b s off len p k = (if b then rd16 s p off len 6 (\<lambda>n. k (swab16 n)) else k 0)"

definition ICMP4MiscTests :: "DecodeConf \<Rightarrow> nat \<Rightarrow> nat \<Rightarrow> Packet \<Rightarrow> fault + Packet" where
  "ICMP4MiscTests cf off len p =
     rd8 S_ICMP p off len 0 (\<lambda>ty. rd8 S_ICMP p off len 1 (\<lambda>code.
     let p = event_if cf DECODE_ICMP_PING_NMAP (dsize p = 0 \<and> ty = ICMP_ECHO) p
     in icmp_seq (event_enabled cf DECODE_ICMP_ICMPENUM \<and> dsize p = 0) S_ICMPSeq off len p (\<lambda>seq.
     let p = event_if cf DECODE_ICMP_ICMPENUM (dsize p = 0 \<and> seq = 666) p;
         p = event_if cf DECODE_ICMP_REDIRECT_HOST (code = 1 \<and> ty = ICMP_REDIRECT) p;
         p = event_if cf DECODE_ICMP_REDIRECT_NET (ty = ICMP_REDIRECT \<and> code = 0) p;
         p = (if ty = ICMP_ECHOREPLY
              then fold (\<lambda>i. event_if cf DECODE_ICMP_TRACEROUTE_IPOPTS (op_code (ip_options p i) = IPOPT_RR)) [0 ..< ip_option_count p] p
              else p);
         p = event_if cf DECODE_ICMP_SOURCE_QUENCH (ty = ICMP_SOURCE_QUENCH \<and> code = 0) p
     in icmp_seq (event_enabled cf DECODE_ICMP_BROADSCAN_SMURF_SCANNER \<and> dsize p = 4 \<and> ty = ICMP_ECHO) S_ICMP off len p (\<lambda>seq.
     let p = event_if cf DECODE_ICMP_BROADSCAN_SMURF_SCANNER (dsize p = 4 \<and> ty = ICMP_ECHO \<and> seq = 0 \<and> code = 0) p;
         p = event_if cf DECODE_ICMP_DST_UNREACH_ADMIN_PROHIBITED (ty = ICMP_DEST_UNREACH \<and> code = 13) p;
         p = event_if cf DECODE_ICMP_DST_UNREACH_DST_HOST_PROHIBITED (ty = ICMP_DEST_UNREACH \<and> code = 10) p;
         p = event_if cf DECODE_ICMP_DST_UNREACH_DST_NET_PROHIBITED (ty = ICMP_DEST_UNREACH \<and> code = 9) p
     in Inr p))))"

section \<open>TCP\<close>

abbreviation (input) TH_FIN :: u8 where "TH_FIN \<equiv> 1"
abbreviation (input) TH_SYN :: u8 where "TH_SYN \<equiv> 2"
abbreviation (input) TH_RST :: u8 where "TH_RST \<equiv> 4"
abbreviation (input) TH_PUSH :: u8 where "TH_PUSH \<equiv> 8"
abbreviation (input) TH_ACK :: u8 where "TH_ACK \<equiv> 16"
abbreviation (input) TH_URG :: u8 where "TH_URG \<equiv> 32"

abbreviation (input) PKT_ERR_CKSUM_IP :: u8 where "PKT_ERR_CKSUM_IP \<equiv> 1"
abbreviation (input) PKT_ERR_CKSUM_TCP :: u8 where "PKT_ERR_CKSUM_TCP \<equiv> 2"
abbreviation (input) PKT_ERR_CKSUM_UDP :: u8 where "PKT_ERR_CKSUM_UDP \<equiv> 4"
abbreviation (input) PKT_ERR_CKSUM_ICMP :: u8 where "PKT_ERR_CKSUM_ICMP \<equiv> 8"

abbreviation (input) PROTO_BIT__IP :: u16 where "PROTO_BIT__IP \<equiv> 1"
abbreviation (input) PROTO_BIT__ARP :: u16 where "PROTO_BIT__ARP \<equiv> 2"
abbreviation (input) PROTO_BIT__TCP :: u16 where "PROTO_BIT__TCP \<equiv> 4"
abbreviation (input) PROTO_BIT__UDP :: u16 where "PROTO_BIT__UDP \<equiv> 8"
abbreviation (input) PROTO_BIT__ICMP :: u16 where "PROTO_BIT__ICMP \<equiv> 16"

definition TCP_ISFLAGSET :: "u8 \<Rightarrow> u8 \<Rightarrow> bool" where
  "TCP_ISFLAGSET fl flags = (fl AND flags = flags)"

definition add_bits :: "u16 \<Rightarrow> Packet \<Rightarrow> Packet" where
  "add_bits b p = p\<lparr>proto_bits := proto_bits p OR b\<rparr>"

definition add_error :: "u8 \<Rightarrow> Packet \<Rightarrow> Packet" where
  "add_error b p = p\<lparr>error_flags := error_flags p OR b\<rparr>"

definition TCPMiscTests :: "DecodeConf \<Rightarrow> u8 \<Rightarrow> nat \<Rightarrow> Packet \<Rightarrow> Packet" where
  "TCPMiscTests cf fl seq p =
     event_if cf DECODE_TCP_PORT_ZERO (sp p = 0 \<or> dp p = 0)
       (event_if cf DECODE_TCP_SHAFT_SYNFLOOD (fl AND 63 = TH_SYN \<and> seq = 674711609) p)"

text \<open>The checksum: go on with the packet, or stop because the encapsulation is unsure.\<close>

definition tcp_checksum :: "DecodeConf \<Rightarrow> nat \<Rightarrow> nat \<Rightarrow> Packet \<Rightarrow> (Packet \<Rightarrow> fault + Packet) \<Rightarrow> fault + Packet" where
  "tcp_checksum cf off len p k =
     (if \<not> tcp_checksums cf then k p
      else pseudo_header S_TCP len p (\<lambda>ph. rdbytes S_TCP p off len 0 len (\<lambda>d.
        if in_chksum ph d = 0 then k p
        else if unsure_encap p then Inr (p\<lparr>tcph := None\<rparr>)
        else k (add_error PKT_ERR_CKSUM_TCP p))))"

text \<open>The alerts on the flags. \<open>th_seq\<close> and the IP id are compared in network order with \<open>6060842\<close> and \<open>413\<close>.\<close>

definition tcp_flag_events :: "DecodeConf \<Rightarrow> u8 \<Rightarrow> u8 list \<Rightarrow> Packet \<Rightarrow> fault + Packet" where
  "tcp_flag_events cf fl seq p =
     (let p = (if (event_enabled cf DECODE_TCP_XMAS \<or> event_enabled cf DECODE_TCP_NMAP_XMAS) \<and>
                  TCP_ISFLAGSET fl (TH_FIN OR TH_PUSH OR TH_URG)
               then (if TCP_ISFLAGSET fl (TH_SYN OR TH_ACK OR TH_RST) then DecoderEvent cf DECODE_TCP_XMAS p
                     else DecoderEvent cf DECODE_TCP_NMAP_XMAS p)
               else p)
      in rbind
          (if TCP_ISFLAGSET fl TH_SYN then
             rbind (if fl = TH_SYN \<and> event_enabled cf DECODE_DOS_NAPTHA \<and> seq = [0x2a, 0x7b, 0x5c, 0]
                    then GET_IPH_ID S_TCP p (\<lambda>n. Inr (if n = 413 then DecoderEvent cf DECODE_DOS_NAPTHA p else p))
                    else Inr p)
               (\<lambda>p. rbind (if event_enabled cf DECODE_SYN_TO_MULTICAST
                         then GET_DST_IP S_TCP p (\<lambda>dst. Inr (if syn_multicast cf dst then DecoderEvent cf DECODE_SYN_TO_MULTICAST p else p))
                         else Inr p)
                    (\<lambda>p. Inr (event_if cf DECODE_TCP_SYN_FIN (fl AND TH_FIN \<noteq> 0) (event_if cf DECODE_TCP_SYN_RST (fl AND TH_RST \<noteq> 0) p))))
           else Inr (event_if cf DECODE_TCP_NO_SYN_ACK_RST (fl AND (TH_ACK OR TH_RST) = 0) p))
          (\<lambda>p. Inr (event_if cf DECODE_TCP_MUST_ACK (fl AND (TH_FIN OR TH_PUSH OR TH_URG) \<noteq> 0 \<and> fl AND TH_ACK = 0) p)))"

abbreviation (input) TCP_HEADER_LEN :: nat where "TCP_HEADER_LEN \<equiv> 20"

definition DecodeTCP :: "DecodeConf \<Rightarrow> nat \<Rightarrow> nat \<Rightarrow> Packet \<Rightarrow> fault + Packet" where
  "DecodeTCP cf off len p =
     (if len < TCP_HEADER_LEN then Inr ((DecoderEvent cf DECODE_TCP_DGRAM_LT_TCPHDR p)\<lparr>tcph := None\<rparr>)
      else let p = p\<lparr>tcph := Some off\<rparr> in
      rd8 S_TCP p off len 12 (\<lambda>offx2.
      let hlen = unat offx2 div 16 * 4 in
      if hlen < TCP_HEADER_LEN then Inr ((DecoderEvent cf DECODE_TCP_INVALID_OFFSET p)\<lparr>tcph := None\<rparr>)
      else if hlen > len then
        Inr ((DecoderEventDrop cf DECODE_TCP_LARGE_OFFSET (oversized_alerts cf) p)\<lparr>tcph := None\<rparr>)
      else tcp_checksum cf off len p (\<lambda>p.
      rd8 S_TCP p off len 13 (\<lambda>fl.
      rdbytes S_TCP p off len 4 4 (\<lambda>seq.
      rbind (tcp_flag_events cf fl seq p) (\<lambda>p.
      rd16 S_TCP p off len 0 (\<lambda>sport.
      rd16 S_TCP p off len 2 (\<lambda>dport.
      let p = PushLayer PROTO_TCP off hlen (p\<lparr>sp := sport, dp := dport\<rparr>);
          p = p\<lparr>tcp_options_len := hlen - TCP_HEADER_LEN\<rparr>
      in rbind (if tcp_options_len p > 0
                then DecodeTCPOptions cf (off + TCP_HEADER_LEN) (hlen - TCP_HEADER_LEN)
                       (p\<lparr>tcp_options_data := Some (off + TCP_HEADER_LEN)\<rparr>)
                else Inr (p\<lparr>tcp_option_count := 0\<rparr>)) (\<lambda>p.
      let p = p\<lparr>data := Some (off + hlen), dsize := (if hlen < len then (len - hlen) mod 65536 else 0)\<rparr>
      in rd16 S_TCP p off len 18 (\<lambda>urp.
      let p = event_if cf DECODE_TCP_BAD_URP (fl AND TH_URG \<noteq> 0 \<and> (dsize p = 0 \<or> urp > dsize p)) p;
          p = add_bits PROTO_BIT__TCP p
      in if ignore_tcp_port cf (sp p) \<or> ignore_tcp_port cf (dp p) then Inr (p\<lparr>ignore_port := True\<rparr>)
         else rd32 S_TCP p off len 4 (\<lambda>s. Inr (TCPMiscTests cf fl s p))))))))))))"

end
