(* ===== verification/Ip6Tests.thy ===== *)
theory Ip6Tests
  imports Decode
begin

text \<open>
  The alerts on the addresses of an IPv6 header (\<open>IPV6MiscTests\<close> and \<open>CheckIPV6Multicast\<close> of
  \<open>decode.c\<close>). An address is the list of its sixteen bytes; \<open>addr_word a i\<close> is
  \<open>ntohl(a.u6_addr32[i])\<close>. The addresses built from a header have 128 bits, for which
  \<open>sfip_contains\<close> compares all of them.
\<close>

abbreviation (input) DECODE_IPV6_DST_ZERO :: nat where "DECODE_IPV6_DST_ZERO \<equiv> 276"
abbreviation (input) DECODE_IPV6_SRC_MULTICAST :: nat where "DECODE_IPV6_SRC_MULTICAST \<equiv> 277"
abbreviation (input) DECODE_IPV6_DST_RESERVED_MULTICAST :: nat where "DECODE_IPV6_DST_RESERVED_MULTICAST \<equiv> 278"
abbreviation (input) DECODE_IPV6_BAD_MULTICAST_SCOPE :: nat where "DECODE_IPV6_BAD_MULTICAST_SCOPE \<equiv> 280"
abbreviation (input) DECODE_IPV6_ISATAP_SPOOF :: nat where "DECODE_IPV6_ISATAP_SPOOF \<equiv> 453"

abbreviation (input) IP6_MULTICAST :: u8 where "IP6_MULTICAST \<equiv> 0xFF"
abbreviation (input) SCOPE_INTERFACE :: u8 where "SCOPE_INTERFACE \<equiv> 1"
abbreviation (input) SCOPE_LINK :: u8 where "SCOPE_LINK \<equiv> 2"
abbreviation (input) SCOPE_SITE :: u8 where "SCOPE_SITE \<equiv> 5"

definition addr_word :: "u8 list \<Rightarrow> nat \<Rightarrow> nat" where
  "addr_word a i = 65536 * be16 (a ! (4 * i)) (a ! (4 * i + 1)) + be16 (a ! (4 * i + 2)) (a ! (4 * i + 3))"

section \<open>The assigned multicast addresses\<close>

text \<open>One definition for each branch on the scope byte; \<open>w\<close> is the last word of the address.\<close>

definition assigned_node :: "nat \<Rightarrow> bool" where
  "assigned_node w = (w \<in> {0x1, 0x2, 0xFB})"

definition assigned_link :: "u8 list \<Rightarrow> nat \<Rightarrow> bool" where
  "assigned_link a w =
     (w \<in> {0x1, 0x2, 0x4, 0x5, 0x6, 0x7, 0x8, 0x9, 0xA, 0xB, 0xC, 0xD, 0xE, 0xF, 0x12, 0x16, 0x6A, 0x6B,
           0x6C, 0x6D, 0x6E, 0x6F, 0xFB, 0x10001, 0x10002, 0x10003, 0x10004} \<or>
      a ! 11 = 1 \<and> a ! 12 = 0xFF \<or> a ! 11 = 2 \<and> a ! 12 = 0xFF)"

definition assigned_site :: "nat \<Rightarrow> bool" where
  "assigned_site w = (w \<in> {0x2, 0xFB, 0x10003, 0x10004})"

definition assigned_variable :: "nat \<Rightarrow> bool" where
  "assigned_variable w =
     (w \<in> {0xC, 0xFB, 0x181, 0x182, 0x183, 0x184, 0x18C, 0x201, 0x202, 0x204, 0x300, 0x27FFE, 0x27FFF} \<or>
      0x100 \<le> w \<and> w \<le> 0x136 \<or> 0x140 \<le> w \<and> w \<le> 0x14F \<or> 0x20000 \<le> w \<and> w \<le> 0x27FFD \<or>
      0x11000 \<le> w \<and> w \<le> 0x113FF \<or> 0x28000 \<le> w \<and> w \<le> 0x2FFFF)"

definition assigned_ssm :: "nat \<Rightarrow> bool" where
  "assigned_ssm w = (0x40000001 \<le> w \<and> w \<le> 0x7FFFFFFF \<or> 0x80000000 \<le> w \<and> w \<le> 0xFFFFFFFF)"

text \<open>The chain of branches on the second byte, once the middle of the address is known to be zero.\<close>

definition multicast_assigned :: "u8 list \<Rightarrow> bool" where
  "multicast_assigned a =
     (let s = a ! 1; w = addr_word a 3
      in if s = SCOPE_INTERFACE then list_all (\<lambda>i. a ! i = 0) [2 ..< 14] \<and> assigned_node w
         else if s = SCOPE_LINK then assigned_link a w
         else if s = SCOPE_SITE then assigned_site w
         else if s AND 0xF0 = 0 then assigned_variable w
         else if s AND 0xF0 = 3 then assigned_ssm w
         else False)"

definition CheckIPV6Multicast :: "DecodeConf \<Rightarrow> IP6Hdr \<Rightarrow> Packet \<Rightarrow> Packet" where
  "CheckIPV6Multicast cf h p =
     (let dst = h6_dst h;
          p = (if h6_src h ! 0 = IP6_MULTICAST then DecoderEvent cf DECODE_IPV6_SRC_MULTICAST p else p)
      in if dst ! 0 \<noteq> IP6_MULTICAST then p
         else let p = (if dst ! 1 AND 0x0F \<in> {0x00, 0x01, 0x02, 0x04, 0x05, 0x08, 0x0E} then p
                       else DecoderEvent cf DECODE_IPV6_BAD_MULTICAST_SCOPE p)
         in if \<not> list_all (\<lambda>i. dst ! i = 0) [2 ..< 11] \<or> \<not> multicast_assigned dst
            then DecoderEvent cf DECODE_IPV6_DST_RESERVED_MULTICAST p else p)"

section \<open>The other tests\<close>

definition sfip_is_loopback :: "u8 list \<Rightarrow> bool" where
  "sfip_is_loopback a =
     (if addr_word a 0 \<noteq> 0 \<or> addr_word a 1 \<noteq> 0 then False
      else if addr_word a 2 = 0 then a ! 12 = 0x7f \<or> addr_word a 3 = 1
      else if addr_word a 2 = 0xffff then a ! 12 = 0x7f
      else False)"

definition sfip_is_set :: "u8 list \<Rightarrow> bool" where
  "sfip_is_set a = (addr_word a 0 \<noteq> 0 \<or> addr_word a 1 \<noteq> 0 \<or> addr_word a 2 \<noteq> 0 \<or> addr_word a 3 \<noteq> 0)"

text \<open>The interface identifier of ISATAP, with the two bits that may vary (\<open>& 0xFCFFFFFF\<close>) left out.\<close>

definition isatap_spoof :: "IP6Hdr \<Rightarrow> IP4Hdr option \<Rightarrow> bool" where
  "isatap_spoof h q =
     (case q of None \<Rightarrow> False
      | Some h4 \<Rightarrow> h4_proto h4 = 41 \<and> (let a = h6_src h in
          a ! 8 AND 0xFC = 0 \<and> a ! 9 = 0 \<and> a ! 10 = 0x5E \<and> a ! 11 = 0xFE \<and> h4_src h4 \<noteq> drop 12 a))"

definition IPV6MiscTests :: "DecodeConf \<Rightarrow> IP6Hdr \<Rightarrow> Packet \<Rightarrow> Packet" where
  "IPV6MiscTests cf h p =
     (let p = (if h6_src h = h6_dst h then DecoderEvent cf DECODE_BAD_TRAFFIC_SAME_SRCDST p else p);
          p = (if sfip_is_loopback (h6_src h) \<or> sfip_is_loopback (h6_dst h) then DecoderEvent cf DECODE_BAD_TRAFFIC_LOOPBACK p else p);
          p = (if sfip_is_set (h6_dst h) then p else DecoderEvent cf DECODE_IPV6_DST_ZERO p);
          p = CheckIPV6Multicast cf h p
      in event_if cf DECODE_IPV6_ISATAP_SPOOF (isatap_spoof h (ip4h p)) p)"

text \<open>The tests only add events.\<close>

lemma DecoderEvent_appends: "\<exists>es. DecoderEvent cf ev p = p\<lparr>dec_events := dec_events p @ es\<rparr>"
  unfolding DecoderEvent_def by (rule exI [of _ "if ids_mode cf then [ev] else []"]) simp

definition only_events :: "Packet \<Rightarrow> Packet \<Rightarrow> bool" where
  "only_events p q = (\<exists>es. q = p\<lparr>dec_events := es\<rparr>)"

lemma only_events_refl: "only_events p p"
  unfolding only_events_def by (rule exI [of _ "dec_events p"]) simp

lemma only_events_trans: "only_events p q \<Longrightarrow> only_events q r \<Longrightarrow> only_events p r"
  unfolding only_events_def by auto

lemma only_events_event: "only_events p q \<Longrightarrow> only_events p (DecoderEvent cf ev q)"
  unfolding only_events_def DecoderEvent_def by auto

lemma only_events_if: "only_events p a \<Longrightarrow> only_events p b \<Longrightarrow> only_events p (if c then a else b)"
  by simp

lemma CheckIPV6Multicast_events: "only_events p q \<Longrightarrow> only_events p (CheckIPV6Multicast cf h q)"
  unfolding CheckIPV6Multicast_def Let_def by (intro only_events_if only_events_event)

lemma IPV6MiscTests_events: "only_events p (IPV6MiscTests cf h p)"
  unfolding IPV6MiscTests_def Let_def event_if_def
  by (intro only_events_if only_events_event CheckIPV6Multicast_events only_events_refl)

lemma ssm_is_reserved: "a ! 1 AND 0xF0 = 0x30 \<Longrightarrow> \<not> multicast_assigned a"
  by (auto simp: multicast_assigned_def Let_def)

end
