(* ===== verification/DecodeLayers.thy ===== *)
theory DecodeLayers
  imports Ip6Tests
begin

text \<open>
  The packet decoders of \<open>decode.c\<close>, second part: the network and encapsulation layers, down from
  \<open>DecodeEthPkt\<close>. The decoders call each other; each is a definition with the decoder to call next
  as its argument \<open>rec\<close>, and \<open>decode\<close> ties the knot with a bound on the depth. The build is the one
  with IPv6, GRE, MPLS and the non-Ethernet decoders. The evaluation of the protocol-only rules is
  left out.
\<close>

datatype decoder = D_IP | D_IPV6 | D_IP6EXT u8 | D_IP6OPT u8 | D_UDP | D_ESP | D_GRE | D_TEREDO | D_GTP
  | D_VLAN | D_MPLS | D_ETH_MPLS | D_TRANSBR | D_PPPOE | D_PPP

type_synonym decode_rec = "decoder \<Rightarrow> nat \<Rightarrow> nat \<Rightarrow> Packet \<Rightarrow> fault + Packet"

abbreviation (input) ETHERNET_HEADER_LEN :: nat where "ETHERNET_HEADER_LEN \<equiv> 14"
abbreviation (input) ETHERNET_TYPE_IP :: nat where "ETHERNET_TYPE_IP \<equiv> 0x0800"
abbreviation (input) ETHERNET_TYPE_ARP :: nat where "ETHERNET_TYPE_ARP \<equiv> 0x0806"
abbreviation (input) ETHERNET_TYPE_REVARP :: nat where "ETHERNET_TYPE_REVARP \<equiv> 0x8035"
abbreviation (input) ETHERNET_TYPE_IPV6 :: nat where "ETHERNET_TYPE_IPV6 \<equiv> 0x86dd"
abbreviation (input) ETHERNET_TYPE_PPPoE_DISC :: nat where "ETHERNET_TYPE_PPPoE_DISC \<equiv> 0x8863"
abbreviation (input) ETHERNET_TYPE_PPPoE_SESS :: nat where "ETHERNET_TYPE_PPPoE_SESS \<equiv> 0x8864"
abbreviation (input) ETHERNET_TYPE_8021Q :: nat where "ETHERNET_TYPE_8021Q \<equiv> 0x8100"
abbreviation (input) ETHERNET_TYPE_MPLS_UNICAST :: nat where "ETHERNET_TYPE_MPLS_UNICAST \<equiv> 0x8847"
abbreviation (input) ETHERNET_TYPE_MPLS_MULTICAST :: nat where "ETHERNET_TYPE_MPLS_MULTICAST \<equiv> 0x8848"

abbreviation (input) ETHERNET_TYPE_IPX :: nat where "ETHERNET_TYPE_IPX \<equiv> 0x8137"
abbreviation (input) ETHERNET_TYPE_LOOP :: nat where "ETHERNET_TYPE_LOOP \<equiv> 0x9000"
abbreviation (input) GRE_TYPE_TRANS_BRIDGING :: nat where "GRE_TYPE_TRANS_BRIDGING \<equiv> 0x6558"
abbreviation (input) GRE_TYPE_PPP :: nat where "GRE_TYPE_PPP \<equiv> 0x880B"

abbreviation (input) IPPROTO_HOPOPTS :: u8 where "IPPROTO_HOPOPTS \<equiv> 0"
abbreviation (input) IPPROTO_ICMP :: u8 where "IPPROTO_ICMP \<equiv> 1"
abbreviation (input) IPPROTO_IGMP :: u8 where "IPPROTO_IGMP \<equiv> 2"
abbreviation (input) IPPROTO_IPIP :: u8 where "IPPROTO_IPIP \<equiv> 4"
abbreviation (input) IPPROTO_TCP :: u8 where "IPPROTO_TCP \<equiv> 6"
abbreviation (input) IPPROTO_UDP :: u8 where "IPPROTO_UDP \<equiv> 17"
abbreviation (input) IPPROTO_IPV6 :: u8 where "IPPROTO_IPV6 \<equiv> 41"
abbreviation (input) IPPROTO_ROUTING :: u8 where "IPPROTO_ROUTING \<equiv> 43"
abbreviation (input) IPPROTO_FRAGMENT :: u8 where "IPPROTO_FRAGMENT \<equiv> 44"
abbreviation (input) IPPROTO_GRE :: u8 where "IPPROTO_GRE \<equiv> 47"
abbreviation (input) IPPROTO_ESP :: u8 where "IPPROTO_ESP \<equiv> 50"
abbreviation (input) IPPROTO_AH :: u8 where "IPPROTO_AH \<equiv> 51"
abbreviation (input) IPPROTO_ICMPV6 :: u8 where "IPPROTO_ICMPV6 \<equiv> 58"
abbreviation (input) IPPROTO_NONE :: u8 where "IPPROTO_NONE \<equiv> 59"
abbreviation (input) IPPROTO_DSTOPTS :: u8 where "IPPROTO_DSTOPTS \<equiv> 60"
abbreviation (input) IPPROTO_PGM :: u8 where "IPPROTO_PGM \<equiv> 113"

section \<open>ARP\<close>

definition DecodeARP :: "DecodeConf \<Rightarrow> nat \<Rightarrow> nat \<Rightarrow> Packet \<Rightarrow> fault + Packet" where
  "DecodeARP cf off len p =
     (let p = p\<lparr>ah := Some off\<rparr> in
      if len < 28 then Inr (DecoderEvent cf DECODE_ARP_TRUNCATED p)
      else Inr (PushLayer PROTO_ARP off 28 (add_bits PROTO_BIT__ARP p)))"

section \<open>UDP and what it carries\<close>

definition PopUdp :: "Packet \<Rightarrow> Packet" where
  "PopUdp p = (let p = p\<lparr>udph := outer_udph p, outer_udph := None\<rparr>
               in if dsize p = 0 then p\<lparr>dsize := ip_dsize p\<rparr> else p)"

definition UDPMiscTests :: "DecodeConf \<Rightarrow> Packet \<Rightarrow> Packet" where
  "UDPMiscTests cf p =
     event_if cf DECODE_UDP_PORT_ZERO (sp p = 0 \<or> dp p = 0) (event_if cf DECODE_UDP_LARGE_PACKET (dsize p > 4000) p)"

text \<open>The length of the datagram: of the header, or of the fragment it starts.\<close>

definition udp_length :: "nat \<Rightarrow> nat \<Rightarrow> Packet \<Rightarrow> (nat \<Rightarrow> fault + 'a) \<Rightarrow> fault + 'a" where
  "udp_length off len p k =
     (if \<not> frag_flag p then rd16 S_UDP p off len 4 k
      else if family p = AF_INET6
      then GET_IPH_LEN S_UDP p (\<lambda>n. k (sub16 n (sub16 off (ex_data (ip6_extensions p 0)))))
      else GET_IPH_LEN S_UDP p (\<lambda>n. GET_IPH_HLEN S_UDP p (\<lambda>h. k (sub16 n (h * 4)))))"

definition udp_checksum :: "DecodeConf \<Rightarrow> nat \<Rightarrow> nat \<Rightarrow> nat \<Rightarrow> Packet \<Rightarrow> (Packet \<Rightarrow> fault + Packet) \<Rightarrow> fault + Packet" where
  "udp_checksum cf off len uhlen p k =
     (let bad = (\<lambda>p. if unsure_encap p then Inr (PopUdp p) else k (add_error PKT_ERR_CKSUM_UDP p));
          check = (\<lambda>ph. rdbytes S_UDP p off len 0 uhlen (\<lambda>d. if in_chksum ph d \<noteq> 0 then bad p else k p))
      in if \<not> udp_checksums cf then k p
         else rd16 S_UDP p off len 6 (\<lambda>chk. rd16 S_UDP p off len 4 (\<lambda>uh_len.
           pseudo_header S_UDP (if family p = AF_INET then uh_len else len) p (\<lambda>ph.
           if family p = AF_INET then (if \<not> frag_flag p \<and> chk \<noteq> 0 then check ph else k p)
           else if chk = 0 then bad (DecoderEvent cf DECODE_UDP_IPV6_ZERO_CHECKSUM p)
           else if \<not> frag_flag p then check ph
           else k p))))"

abbreviation (input) UDP_HEADER_LEN :: nat where "UDP_HEADER_LEN \<equiv> 8"
abbreviation (input) TEREDO_PORT :: nat where "TEREDO_PORT \<equiv> 3544"

definition DecodeUDP :: "decode_rec \<Rightarrow> DecodeConf \<Rightarrow> nat \<Rightarrow> nat \<Rightarrow> Packet \<Rightarrow> fault + Packet" where
  "DecodeUDP rec cf off len p =
     (let p = (if bit_teredo p \<or> bit_gtp p then p\<lparr>outer_udph := udph p\<rparr> else p) in
      if len < UDP_HEADER_LEN then Inr (PopUdp (DecoderEvent cf DECODE_UDP_DGRAM_LT_UDPHDR p))
      else let p = p\<lparr>inner_udph := Some off, udph := Some off\<rparr> in
      udp_length off len p (\<lambda>uhlen.
      if uhlen < UDP_HEADER_LEN then Inr (PopUdp (DecoderEvent cf DECODE_UDP_DGRAM_INVALID_LENGTH p))
      else if uhlen > len then
        Inr (PopUdp (DecoderEventDrop cf DECODE_UDP_DGRAM_SHORT_PACKET (oversized_alerts cf) p))
      else if uhlen < len then Inr (PopUdp (DecoderEvent cf DECODE_UDP_DGRAM_LONG_PACKET p))
      else udp_checksum cf off len uhlen p (\<lambda>p.
      rd16 S_UDP p off len 0 (\<lambda>sport. rd16 S_UDP p off len 2 (\<lambda>dport.
      let p = PushLayer PROTO_UDP off UDP_HEADER_LEN (p\<lparr>sp := sport, dp := dport\<rparr>);
          p = add_bits PROTO_BIT__UDP (p\<lparr>data := Some (off + UDP_HEADER_LEN), dsize := uhlen - UDP_HEADER_LEN\<rparr>)
      in if ignore_udp_port cf (sp p) \<or> ignore_udp_port cf (dp p) then Inr (p\<lparr>ignore_port := True\<rparr>)
         else let p = UDPMiscTests cf p in
         rbind (if (sp p = TEREDO_PORT \<or> dp p = TEREDO_PORT \<or> deep_teredo cf) \<and> \<not> frag_flag p
                then rec D_TEREDO (off + UDP_HEADER_LEN) (len - UDP_HEADER_LEN) p else Inr p)
           (\<lambda>p. if gtp_decoding cf \<and> (gtp_port cf (sp p) \<or> gtp_port cf (dp p)) \<and> \<not> frag_flag p
                then rec D_GTP (off + UDP_HEADER_LEN) (len - UDP_HEADER_LEN) p else Inr p))))))"

abbreviation (input) TEREDO_AUTH_MIN :: nat where "TEREDO_AUTH_MIN \<equiv> 13"

text \<open>The second part of \<open>DecodeTeredo\<close>, after an authentication indicator was skipped or not.\<close>

definition teredo_origin :: "decode_rec \<Rightarrow> DecodeConf \<Rightarrow> nat \<Rightarrow> nat \<Rightarrow> Packet \<Rightarrow> fault + Packet" where
  "teredo_origin rec cf off len p =
     (let inner = (\<lambda>off len.
        rd8 S_Teredo p off len 0 (\<lambda>v.
          if unat v div 16 = 6 then
            rbind (rec D_IPV6 off len
                    (p\<lparr>bit_teredo := True,
                      unsure_encap := (unsure_encap p \<or> deep_teredo cf \<and> sp p \<noteq> TEREDO_PORT \<and> dp p \<noteq> TEREDO_PORT)\<rparr>))
              (\<lambda>p. Inr (p\<lparr>unsure_encap := False\<rparr>))
          else Inr p))
      in rd16 S_Teredo p off len 0 (\<lambda>ind.
           if ind = 0 then (if len < 8 then Inr p else inner (off + 8) (len - 8)) else inner off len))"

definition DecodeTeredo :: "decode_rec \<Rightarrow> DecodeConf \<Rightarrow> nat \<Rightarrow> nat \<Rightarrow> Packet \<Rightarrow> fault + Packet" where
  "DecodeTeredo rec cf off len p =
     (if len < 2 then Inr p
      else rd16 S_Teredo p off len 0 (\<lambda>ind.
        if ind = 1 then
          (if len < TEREDO_AUTH_MIN then Inr p
           else rd8 S_Teredo p off len 2 (\<lambda>cid. rd8 S_Teredo p off len 3 (\<lambda>auth.
             let n = TEREDO_AUTH_MIN + unat cid + unat auth
             in if len < n then Inr p else teredo_origin rec cf (off + n) (len - n) p)))
        else teredo_origin rec cf off len p))"

text \<open>The extension headers of GTP: the header length, or \<open>None\<close> when they do not fit.\<close>

fun gtp_ext :: "nat \<Rightarrow> nat \<Rightarrow> nat \<Rightarrow> Packet \<Rightarrow> nat \<Rightarrow> (nat option \<Rightarrow> fault + 'a) \<Rightarrow> fault + 'a" where
  "gtp_ext fuel off len p header_len k =
     rd8 S_GTP p off len (header_len - 1) (\<lambda>next_hdr_type.
       if next_hdr_type = 0 then k (Some header_len)
       else case fuel of 0 \<Rightarrow> Inl Out_of_fuel | Suc fuel \<Rightarrow>
         if len < header_len + 4 then k None
         else rd8 S_GTP p off len header_len (\<lambda>ext_hdr_len.
           if ext_hdr_len = 0 then k None
           else let header_len = header_len + unat ext_hdr_len * 4
                in if len < header_len then k None else gtp_ext fuel off len p header_len k))"

definition DecodeGTP :: "decode_rec \<Rightarrow> DecodeConf \<Rightarrow> nat \<Rightarrow> nat \<Rightarrow> Packet \<Rightarrow> fault + Packet" where
  "DecodeGTP rec cf off len p =
     (let bad = (\<lambda>p. Inr (DecoderEvent cf DECODE_GTP_BAD_LEN p));
          inner = (\<lambda>p header_len.
            let p = PushLayer PROTO_GTP off header_len p; l = len - header_len
            in if l > 0 then
                 rd8 S_GTP p off len header_len (\<lambda>v.
                   rbind (if v AND 0xf0 = 0x40 then rec D_IP (off + header_len) l p
                          else if v AND 0xf0 = 0x60 then rec D_IPV6 (off + header_len) l p
                          else Inr p)
                     (\<lambda>p. Inr (p\<lparr>unsure_encap := False\<rparr>)))
               else Inr p)
      in if GTPencapsulated p then Inr (DecoderAlertEncapsulated cf DECODE_GTP_MULTIPLE_ENCAPSULATION off len p)
         else let p = p\<lparr>GTPencapsulated := True\<rparr> in
         if len < 8 then Inr p
         else rd8 S_GTP p off len 1 (\<lambda>ty. rd8 S_GTP p off len 0 (\<lambda>flag. rd16 S_GTP p off len 2 (\<lambda>hlength.
           if ty \<noteq> 255 \<or> flag AND 0x10 = 0 then Inr p
           else let version = unat flag div 32
           in if version = 0 then
                (if len < 20 then bad p
                 else let p = p\<lparr>bit_gtp := True\<rparr> in if len \<noteq> hlength + 20 then bad p else inner p 20)
              else if version = 1 then
                (let checked = (\<lambda>header_len. let p = p\<lparr>bit_gtp := True\<rparr>
                              in if len \<noteq> hlength + 8 then bad p else inner p header_len)
                 in if flag AND 0x07 \<noteq> 0 then
                      (if len < 12 then bad p
                       else gtp_ext len off len p 12 (\<lambda>h. case h of None \<Rightarrow> bad p | Some h \<Rightarrow> checked h))
                    else checked 8)
              else Inr p))))"

section \<open>ICMP\<close>

definition set_orig_ports :: "nat \<Rightarrow> nat \<Rightarrow> Packet \<Rightarrow> Packet" where
  "set_orig_ports s d p = p\<lparr>orig_sp := s, orig_dp := d\<rparr>"

text \<open>The transport header of the original datagram at index \<open>h\<close> of the window.\<close>

definition orig_transport :: "site \<Rightarrow> u8 \<Rightarrow> nat \<Rightarrow> nat \<Rightarrow> nat \<Rightarrow> Packet \<Rightarrow> fault + Packet" where
  "orig_transport s proto off len h p =
     (if proto = IPPROTO_TCP \<or> proto = IPPROTO_UDP then
        rd16 s p off len h (\<lambda>sport. rd16 s p off len (h + 2) (\<lambda>dport.
          Inr (set_orig_ports sport dport
                (if proto = IPPROTO_TCP then p\<lparr>orig_tcph := Some (off + h)\<rparr> else p\<lparr>orig_udph := Some (off + h)\<rparr>))))
      else if proto = IPPROTO_ICMP then Inr (p\<lparr>orig_icmph := Some (off + h)\<rparr>)
      else Inr p)"

definition DecodeICMPEmbeddedIP :: "DecodeConf \<Rightarrow> nat \<Rightarrow> nat \<Rightarrow> Packet \<Rightarrow> fault + Packet" where
  "DecodeICMPEmbeddedIP cf off len p =
     (if len < 20 then Inr ((DecoderEvent cf DECODE_ICMP_ORIG_IP_TRUNCATED p)\<lparr>orig_iph := None\<rparr>)
      else rd16 S_Orig p off len 2 (\<lambda>ip_len. rd8 S_Orig p off len 0 (\<lambda>verhl.
      let p = p\<lparr>actual_ip_len := ip_len, orig_iph := Some off\<rparr> in
      if unat verhl div 16 \<noteq> 4 \<and> family p \<noteq> AF_INET6 then
        Inr ((DecoderEvent cf DECODE_ICMP_ORIG_IP_VER_MISMATCH p)\<lparr>orig_iph := None\<rparr>)
      else let hlen = unat verhl mod 16 * 4 in
      if len < hlen then Inr ((DecoderEvent cf DECODE_ICMP_ORIG_DGRAM_LT_ORIG_IP p)\<lparr>orig_iph := None\<rparr>)
      else rd16 S_Orig p off len 6 (\<lambda>ip_off.
      if ip_off mod 8192 = 0 then
        (if len - hlen < 8 then Inr (DecoderEvent cf DECODE_ICMP_ORIG_PAYLOAD_LT_64 p)
         else GET_IPH_LEN S_Orig p (\<lambda>n.
           let p = (if n > 576 then DecoderEvent cf DECODE_ICMP_ORIG_PAYLOAD_GT_576 p else p)
           in rd8 S_Orig p off len 9 (\<lambda>proto. orig_transport S_Orig proto off len hlen p)))
      else Inr (DecoderEvent cf DECODE_ICMP_ORIG_IP_WITH_FRAGOFFSET p)))))"

abbreviation (input) ICMP_HEADER_LEN :: nat where "ICMP_HEADER_LEN \<equiv> 4"

definition icmp_min_len :: "u8 \<Rightarrow> (nat \<times> nat) option" where
  "icmp_min_len ty =
     (if ty \<in> {0, 3, 4, 5, 8, 9, 10, 11, 12, 15, 16} then Some (8, DECODE_ICMP_DGRAM_LT_ICMPHDR)
      else if ty = 13 \<or> ty = 14 then Some (20, DECODE_ICMP_DGRAM_LT_TIMESTAMPHDR)
      else if ty = 17 \<or> ty = 18 then Some (12, DECODE_ICMP_DGRAM_LT_ADDRHDR)
      else None)"

definition icmp_checksum :: "DecodeConf \<Rightarrow> (Packet \<Rightarrow> (u8 list \<Rightarrow> fault + Packet) \<Rightarrow> fault + Packet) \<Rightarrow> nat \<Rightarrow> nat \<Rightarrow>
    Packet \<Rightarrow> (Packet \<Rightarrow> fault + Packet) \<Rightarrow> fault + Packet" where
  "icmp_checksum cf pseudo off len p k =
     (if \<not> icmp_checksums cf then k p
      else pseudo p (\<lambda>ph. rdbytes S_ICMP p off len 0 len (\<lambda>d.
        k (if in_chksum ph d \<noteq> 0 then add_error PKT_ERR_CKSUM_ICMP p else p))))"

text \<open>\<open>p->data\<close> and \<open>p->dsize\<close> move past the four bytes after the ICMP header.\<close>

definition icmp_skip4 :: "nat \<Rightarrow> Packet \<Rightarrow> Packet" where
  "icmp_skip4 off p = p\<lparr>dsize := sub16 (dsize p) 4, data := Some (off + 8)\<rparr>"

definition DecodeICMP :: "DecodeConf \<Rightarrow> nat \<Rightarrow> nat \<Rightarrow> Packet \<Rightarrow> fault + Packet" where
  "DecodeICMP cf off len p =
     (if len < ICMP_HEADER_LEN then Inr ((event_if cf DECODE_ICMP4_HDR_TRUNC True p)\<lparr>icmph := None\<rparr>)
      else rd8 S_ICMP p off len 0 (\<lambda>ty.
      let p = p\<lparr>icmph := Some off\<rparr>;
          short = (case icmp_min_len ty of None \<Rightarrow> None | Some (n, ev) \<Rightarrow> if len < n then Some ev else None)
      in case short of Some ev \<Rightarrow> Inr ((DecoderEvent cf ev p)\<lparr>icmph := None\<rparr>)
      | None \<Rightarrow>
      let p = event_if cf DECODE_ICMP4_TYPE_OTHER (icmp_min_len ty = None) p in
      icmp_checksum cf (\<lambda>p k. k []) off len p (\<lambda>p.
      let p = p\<lparr>dsize := (len - ICMP_HEADER_LEN) mod 65536, data := Some (off + ICMP_HEADER_LEN)\<rparr> in
      rd8 S_ICMP p off len 1 (\<lambda>code.
      rbind
        (if ty = ICMP_ECHO \<or> ty = ICMP_ECHOREPLY then
           rbind (if ty = ICMP_ECHO then ICMP4AddrTests cf p else Inr p)
             (\<lambda>p. Inr (PushLayer PROTO_ICMP4 off 8 (icmp_skip4 off p)))
         else if ty \<in> {ICMP_DEST_UNREACH, ICMP_SOURCE_QUENCH, ICMP_REDIRECT, 11, 12} then
           rbind (if ty = ICMP_DEST_UNREACH \<and> code = 4
                  then rd16 S_ICMP p off len 6 (\<lambda>mtu. Inr (event_if cf DECODE_ICMP_PATH_MTU_DOS (mtu < 576) p))
                  else Inr p)
             (\<lambda>p. let p = PushLayer PROTO_ICMP4 off 8 (icmp_skip4 off p)
                 in DecodeICMPEmbeddedIP cf (off + 8) (dsize p) p)
         else Inr (PushLayer PROTO_ICMP4 off ICMP_HEADER_LEN p))
        (\<lambda>p. rbind (ICMP4MiscTests cf off len p) (\<lambda>p. Inr (add_bits PROTO_BIT__ICMP p)))))))"

definition DecodeICMPEmbeddedIP6 :: "DecodeConf \<Rightarrow> nat \<Rightarrow> nat \<Rightarrow> Packet \<Rightarrow> fault + Packet" where
  "DecodeICMPEmbeddedIP6 cf off len p =
     (if len < 40 then Inr (DecoderEvent cf DECODE_ICMP_ORIG_IP_TRUNCATED p)
      else rd8 S_Orig6 p off len 0 (\<lambda>vfc.
        if unat vfc div 16 \<noteq> 6 then Inr (DecoderEvent cf DECODE_ICMP_ORIG_IP_VER_MISMATCH p)
        else rd16 S_Orig6 p off len 4 (\<lambda>plen. rd8 S_Orig6 p off len 6 (\<lambda>nxt.
          orig_transport S_Orig6 nxt off len 40 (p\<lparr>actual_ip_len := (plen + 40) mod 65536\<rparr>)))))"

definition DecodeICMP6 :: "DecodeConf \<Rightarrow> nat \<Rightarrow> nat \<Rightarrow> Packet \<Rightarrow> fault + Packet" where
  "DecodeICMP6 cf off len p =
     (if len < 4 then Inr (event_if cf DECODE_ICMP6_HDR_TRUNC True p)
      else icmp_checksum cf (\<lambda>p k. if family p = AF_INET then k [] else pseudo_header S_ICMP6 len p k) off len
             (p\<lparr>icmph := Some off\<rparr>) (\<lambda>p.
      let p = p\<lparr>dsize := (len - 4) mod 65536, data := Some (off + 4)\<rparr>;
          trunc = Inr ((DecoderEvent cf DECODE_ICMP_DGRAM_LT_ICMPHDR p)\<lparr>icmp6h := None\<rparr>);
          p6 = p\<lparr>icmp6h := Some off\<rparr>;
          fin = (\<lambda>p. Inr (add_bits PROTO_BIT__ICMP p))
      in rd8 S_ICMP6 p off len 0 (\<lambda>ty. rd8 S_ICMP6 p off len 1 (\<lambda>code.
      if ty = 128 \<or> ty = 129 then
        (if dsize p < 4 then trunc
         else let p = icmp_skip4 off p6
              in rbind (if event_enabled cf DECODE_ICMP6_DST_MULTICAST
                        then deref S_ICMP6 (ip6h p) (\<lambda>h. Inr (if h6_dst h ! 0 = 0xff then DecoderEvent cf DECODE_ICMP6_DST_MULTICAST p else p))
                        else Inr p)
                   (\<lambda>p. fin (PushLayer PROTO_ICMP6 off 8 p)))
      else if ty = 2 then
        (if dsize p < 8 then trunc
         else let p = icmp_skip4 off p6
              in rd32 S_ICMP6 p off len 4 (\<lambda>mtu.
                   let p = PushLayer PROTO_ICMP6 off 8 (if mtu < 1280 then DecoderEvent cf DECODE_ICMPV6_TOO_BIG_BAD_MTU p else p)
                   in rbind (DecodeICMPEmbeddedIP6 cf (off + 8) (dsize p) p) fin))
      else if ty = 1 \<or> ty = 3 \<or> ty = 4 then
        (if dsize p < 4 then trunc
         else let p = icmp_skip4 off p6;
                  p = PushLayer PROTO_ICMP6 off 8 (if ty = 1 \<and> code = 2 then DecoderEvent cf DECODE_ICMPV6_UNREACHABLE_BAD_CODE p else p)
              in rbind (DecodeICMPEmbeddedIP6 cf (off + 8) (dsize p) p) fin)
      else if ty = 134 then
        (if dsize p < 12 then trunc
         else rd32 S_ICMP6 p off len 8 (\<lambda>reachable.
                let p = (if code \<noteq> 0 then DecoderEvent cf DECODE_ICMPV6_ADVERT_BAD_CODE p6 else p6);
                    p = (if reachable > 3600000 then DecoderEvent cf DECODE_ICMPV6_ADVERT_BAD_REACHABLE p else p)
                in fin (PushLayer PROTO_ICMP6 off 4 p)))
      else if ty = 133 then
        (if dsize p < 4 then trunc
         else rd32 S_ICMP6 p off len 4 (\<lambda>reserved.
                let p = (if code \<noteq> 0 then DecoderEvent cf DECODE_ICMPV6_SOLICITATION_BAD_CODE p6 else p6);
                    p = (if reserved \<noteq> 0 then DecoderEvent cf DECODE_ICMPV6_SOLICITATION_BAD_RESERVED p else p)
                in fin (PushLayer PROTO_ICMP6 off 4 p)))
      else fin (PushLayer PROTO_ICMP6 off 4 (event_if cf DECODE_ICMP6_TYPE_OTHER True p))))))"

section \<open>IPv6\<close>

abbreviation (input) IP6_HDR_LEN :: nat where "IP6_HDR_LEN \<equiv> 40"
abbreviation (input) IP6_EXTMAX :: nat where "IP6_EXTMAX \<equiv> 8"

definition teredo_prefix :: "u8 list \<Rightarrow> bool" where
  "teredo_prefix a = (take 4 a = [0x20, 0x01, 0, 0] \<or> take 8 a = [0xfe, 0x80, 0, 0, 0, 0, 0, 0])"

definition CheckTeredoPrefix :: "u8 list \<Rightarrow> u8 list \<Rightarrow> bool" where
  "CheckTeredoPrefix src dst = (teredo_prefix src \<or> teredo_prefix dst)"

text \<open>The label \<open>decodeipv6_fail\<close>.\<close>

definition ipv6_fail :: "Packet \<Rightarrow> fault + Packet" where
  "ipv6_fail p = Inr (if bit_teredo p then p\<lparr>bit_teredo := False\<rparr> else p)"

definition set_encapsulated :: "Packet \<Rightarrow> Packet" where
  "set_encapsulated p = p\<lparr>encapsulated := True, outer_iph := iph p, outer_ip_data := ip_data p, outer_ip_dsize := ip_dsize p\<rparr>"

definition DecodeIPV6 :: "decode_rec \<Rightarrow> DecodeConf \<Rightarrow> nat \<Rightarrow> nat \<Rightarrow> Packet \<Rightarrow> fault + Packet" where
  "DecodeIPV6 rec cf off len p =
     (let sure = (\<lambda>ev p. if unsure_encap p then p else DecoderEvent cf ev p) in
      if len < IP6_HDR_LEN then ipv6_fail (sure DECODE_IPV6_TRUNCATED p)
      else rd8 S_IP6 p off len 0 (\<lambda>vfc.
      if unat vfc div 16 \<noteq> 6 then ipv6_fail (sure DECODE_IPV6_IS_NOT p)
      else if family p \<noteq> NO_IP \<and> encapsulated p then
        ipv6_fail (DecoderAlertEncapsulated cf DECODE_IP_MULTIPLE_ENCAPSULATION off len p)
      else let p = (if family p \<noteq> NO_IP then set_encapsulated p else p) in
      rd16 S_IP6 p off len 4 (\<lambda>plen.
      if plen + IP6_HDR_LEN > len then
        ipv6_fail (if unsure_encap p then p else DecoderEventDrop cf DECODE_IPV6_DGRAM_GT_CAPLEN (oversized_alerts cf) p)
      else rdbytes S_IP6 p off len 8 16 (\<lambda>src. rdbytes S_IP6 p off len 24 16 (\<lambda>dst.
      if bit_teredo p \<and> \<not> CheckTeredoPrefix src dst then ipv6_fail p
      else rd8 S_IP6 p off len 6 (\<lambda>nxt.
      let h = \<lparr>h6_len = plen, h6_next = nxt, h6_src = src, h6_dst = dst\<rparr>;
          p = p\<lparr>inner_iph := Some off, iph := Some off, family := AF_INET6, ip6h := Some h\<rparr>;
          p = (if encapsulated p then p\<lparr>ip_options_data := None, ip_options_len := 0\<rparr> else p);
          p = p\<lparr>ip_option_count := 0, actual_ip_len := plen, ip_data := Some (off + IP6_HDR_LEN), ip_dsize := plen\<rparr>
      in rec (D_IP6EXT nxt) (off + IP6_HDR_LEN) plen (IPV6MiscTests cf h (PushLayer PROTO_IP6 off IP6_HDR_LEN p))))))))"

definition IPV6ExtensionOrder :: "u8 \<Rightarrow> nat" where
  "IPV6ExtensionOrder t =
     (if t = IPPROTO_HOPOPTS then 1 else if t = IPPROTO_DSTOPTS then 2 else if t = IPPROTO_ROUTING then 3
      else if t = IPPROTO_FRAGMENT then 4 else if t = IPPROTO_AH then 5 else if t = IPPROTO_ESP then 6 else 7)"

fun ext_order_loop :: "DecodeConf \<Rightarrow> nat list \<Rightarrow> bool \<Rightarrow> nat \<Rightarrow> Packet \<Rightarrow> Packet" where
  "ext_order_loop cf [] routing_seen cur p = p"
| "ext_order_loop cf (i # is) routing_seen cur p =
     (let t = ex_type (ip6_extensions p i); nxt = IPV6ExtensionOrder t; routing_seen = (routing_seen \<or> t = IPPROTO_ROUTING)
      in ext_order_loop cf is routing_seen nxt
           (if nxt \<le> cur \<and> (\<not> routing_seen \<or> t \<noteq> IPPROTO_DSTOPTS \<or> i + 1 \<noteq> ip6_extension_count p)
            then DecoderEvent cf DECODE_IPV6_UNORDERED_EXTENSIONS p else p))"

definition CheckIPv6ExtensionOrder :: "DecodeConf \<Rightarrow> Packet \<Rightarrow> Packet" where
  "CheckIPv6ExtensionOrder cf p =
     (if event_enabled cf DECODE_IPV6_UNORDERED_EXTENSIONS
      then ext_order_loop cf [1 ..< ip6_extension_count p] False (IPV6ExtensionOrder (ex_type (ip6_extensions p 0))) p
      else p)"

definition DecodeIPV6Extensions :: "decode_rec \<Rightarrow> DecodeConf \<Rightarrow> u8 \<Rightarrow> nat \<Rightarrow> nat \<Rightarrow> Packet \<Rightarrow> fault + Packet" where
  "DecodeIPV6Extensions rec cf nxt off len p =
     deref S_IP6Ext (ip6h p) (\<lambda>h.
     let p = p\<lparr>ip6h := Some (h\<lparr>h6_next := nxt\<rparr>)\<rparr>;
         p = (if ids_mode cf then add_bits PROTO_BIT__IP p else p);
         q = CheckIPv6ExtensionOrder cf p
     in if nxt = IPPROTO_TCP then DecodeTCP cf off len q
        else if nxt = IPPROTO_UDP then rec D_UDP off len q
        else if nxt = IPPROTO_ICMPV6 then DecodeICMP6 cf off len q
        else if nxt = IPPROTO_NONE then Inr (q\<lparr>dsize := 0\<rparr>)
        else if nxt \<in> {IPPROTO_HOPOPTS, IPPROTO_DSTOPTS, IPPROTO_ROUTING, IPPROTO_FRAGMENT, IPPROTO_AH}
        then rec (D_IP6OPT nxt) off len p
        else if nxt = IPPROTO_GRE then rec D_GRE off len q
        else if nxt = IPPROTO_IPIP then rec D_IP off len q
        else if nxt = IPPROTO_IPV6 then rec D_IPV6 off len q
        else if nxt = IPPROTO_ESP then (if esp_decoding cf then rec D_ESP off len q else Inr q)
        else Inr ((DecoderEvent cf DECODE_IPV6_BAD_NEXT_HEADER p)\<lparr>data := Some off, dsize := len mod 65536\<rparr>))"

text \<open>
  The options of a hop-by-hop or destination header: whether they are good. The loop runs to the end
  the header gives itself, \<open>total_octets\<close>, though the packet may end before.
\<close>

fun hop_loop :: "DecodeConf \<Rightarrow> nat \<Rightarrow> nat \<Rightarrow> nat \<Rightarrow> nat \<Rightarrow> nat \<Rightarrow> Packet \<Rightarrow> fault + bool \<times> Packet" where
  "hop_loop cf fuel off len total_octets i p =
     (if \<not> i < total_octets then Inr (True, p)
      else case fuel of 0 \<Rightarrow> Inl Out_of_fuel | Suc fuel \<Rightarrow>
        rd8 S_HopOpt p off len i (\<lambda>type.
          if type = 0 then hop_loop cf fuel off len total_octets (i + 1) p
          else if type \<in> {0x01, 0xC2, 0x05, 0x04, 0x06, 0x07, 0xC9, 0x8A} then
            rd8 S_HopOpt p off len (i + 1) (\<lambda>oplen.
              if i + 1 + unat oplen + 1 > total_octets then Inr (False, DecoderEvent cf DECODE_IPV6_BAD_OPT_LEN p)
              else hop_loop cf fuel off len total_octets (i + 1 + unat oplen + 1) p)
          else Inr (False, DecoderEvent cf DECODE_IPV6_BAD_OPT_TYPE p)))"

definition CheckIPV6HopOptions :: "DecodeConf \<Rightarrow> nat \<Rightarrow> nat \<Rightarrow> Packet \<Rightarrow> fault + bool \<times> Packet" where
  "CheckIPV6HopOptions cf off len p =
     rd8 S_HopOpt p off len 1 (\<lambda>elen.
       let total_octets = unat elen * 8 + 8; p = (if len < total_octets then DecoderEvent cf DECODE_IPV6_TRUNCATED_EXT p else p)
       in hop_loop cf total_octets off len total_octets 2 p)"

definition DecodeIPV6Options :: "decode_rec \<Rightarrow> DecodeConf \<Rightarrow> u8 \<Rightarrow> nat \<Rightarrow> nat \<Rightarrow> Packet \<Rightarrow> fault + Packet" where
  "DecodeIPV6Options rec cf ty off len p =
     (if len < 8 then Inr (DecoderEvent cf DECODE_IPV6_TRUNCATED_EXT p)
      else if ip6_extension_count p \<ge> IP6_EXTMAX then Inr (DecoderEvent cf DECODE_IP6_EXCESS_EXT_HDR p)
      else let n = ip6_extension_count p;
               p = p\<lparr>ip6_extensions := (ip6_extensions p)(n := \<lparr>ex_type = ty, ex_data = off\<rparr>)\<rparr>
      in rd8 S_IP6Ext p off len 0 (\<lambda>nxt. rd8 S_IP6Ext p off len 1 (\<lambda>elen.
      let h8 = 8 + unat elen * 8;
          checked = (\<lambda>t p. rbind (CheckIPV6HopOptions cf off len p)
                      (\<lambda>(good, p). Inr (if good then PushLayer t off h8 p else p)));
          continue = (\<lambda>hdrlen p.
            let p = p\<lparr>ip6_extension_count := n + 1\<rparr>
            in if hdrlen > len then Inr (DecoderEvent cf DECODE_IPV6_TRUNCATED_EXT p)
               else rec (D_IP6EXT nxt) (off + hdrlen) (len - hdrlen) p)
      in if ty = IPPROTO_HOPOPTS then rbind (checked PROTO_IP6_HOP_OPTS p) (continue h8)
         else if ty = IPPROTO_DSTOPTS then
           rbind (checked PROTO_IP6_DST_OPTS
                   (if nxt = IPPROTO_ROUTING then DecoderEvent cf DECODE_IPV6_DSTOPTS_WITH_ROUTING p else p)) (continue h8)
         else if ty = IPPROTO_ROUTING then
           continue h8 (if nxt = IPPROTO_HOPOPTS then DecoderEvent cf DECODE_IPV6_ROUTE_AND_HOPBYHOP p
                        else if nxt = IPPROTO_ROUTING then DecoderEvent cf DECODE_IPV6_TWO_ROUTE_HEADERS p else p)
         else if ty = IPPROTO_FRAGMENT then
           rd8 S_IP6Ext p off len 1 (\<lambda>res. rd16 S_IP6Ext p off len 2 (\<lambda>offlg.
             let p = p\<lparr>ip6_frag_index := n, ip_frag_start := Some (off + 8), frag_flag := True, df := False, rf := (res \<noteq> 0),
                        mf := odd offlg, frag_offset := offlg div 8, ip_frag_len := (len - 8) mod 65536\<rparr>
             in if frag_offset p > 0 \<or> nxt \<noteq> IPPROTO_UDP then Inr (p\<lparr>ip6_extension_count := n + 1\<rparr>)
                else continue 8 p))
         else if ty = IPPROTO_AH then continue (8 + unat elen * 4) p
         else continue h8 p)))"

section \<open>IPv4\<close>

abbreviation (input) IP_HEADER_LEN :: nat where "IP_HEADER_LEN \<equiv> 20"

text \<open>
  \<open>in_chksum_ip\<close> counts the remaining length down in fours until it is zero: with a length that is no
  multiple of four the loop runs out of the buffer.
\<close>

definition in_chksum_ip :: "site \<Rightarrow> Packet \<Rightarrow> nat \<Rightarrow> nat \<Rightarrow> nat \<Rightarrow> (u16 \<Rightarrow> fault + 'a) \<Rightarrow> fault + 'a" where
  "in_chksum_ip s p off len n k =
     (if n < 20 \<or> n mod 4 \<noteq> 0 then Inl (Overread s) else rdbytes s p off len 0 n (\<lambda>d. k (in_chksum [] d)))"

text \<open>\<open>pgm_nak_detect\<close> on the payload at \<open>d\<close> and \<open>CheckPGMVuln\<close>.\<close>

definition CheckPGMVuln :: "DecodeConf \<Rightarrow> nat \<Rightarrow> nat \<Rightarrow> Packet \<Rightarrow> fault + Packet" where
  "CheckPGMVuln cf d n p =
     (if n \<le> 44 then Inr p
      else rd8 S_PGM p d n 4 (\<lambda>ty. rd8 S_PGM p d n 36 (\<lambda>opt. rd8 S_PGM p d n 37 (\<lambda>olen. rd16 S_PGM p d n 6 (\<lambda>sum.
        if ty \<noteq> 8 \<or> opt \<noteq> 2 \<or> \<not> n - 36 > unat olen then Inr p
        else if sum \<noteq> 0 then
          in_chksum_ip S_PGM p d n n (\<lambda>c. Inr (if c \<noteq> 0 then p else DecoderEvent cf DECODE_PGM_NAK_OVERFLOW p))
        else Inr (DecoderEvent cf DECODE_PGM_NAK_OVERFLOW p))))))"

definition igmp_options :: "DecodeConf \<Rightarrow> Packet \<Rightarrow> Packet" where
  "igmp_options cf p =
     (let opts = map (ip_options p) [0 ..< ip_option_count p]
      in if (\<exists>opt\<in>set opts. op_code opt = 148) then p
         else if (\<exists>opt\<in>set opts. op_len opt = 1) then DecoderEvent cf DECODE_IGMP_OPTIONS_DOS p else p)"

definition CheckIGMPVuln :: "DecodeConf \<Rightarrow> nat \<Rightarrow> nat \<Rightarrow> Packet \<Rightarrow> fault + Packet" where
  "CheckIGMPVuln cf d n p =
     (if n < 1 then Inr p
      else rd8 S_IGMP p d n 0 (\<lambda>v.
        if v \<noteq> 0x11 then Inr p
        else case ip_options_data p of
          None \<Rightarrow> Inr (igmp_options cf p)
        | Some d' \<Rightarrow>
            if ip_options_len p \<ge> 2 then
              rd8 S_IGMP p 0 (caplen p) d' (\<lambda>a. rd8 S_IGMP p 0 (caplen p) (d' + 1) (\<lambda>b.
                Inr (if a = 0 \<and> b = 0 then DecoderEvent cf DECODE_IGMP_OPTIONS_DOS p else igmp_options cf p)))
            else Inr (igmp_options cf p)))"

definition ip_fail :: "Packet \<Rightarrow> fault + Packet" where
  "ip_fail p = Inr (p\<lparr>iph := None, family := NO_IP\<rparr>)"

text \<open>The payload pointer and size; then the next protocol, by the protocol byte.\<close>

definition ip_payload :: "nat \<Rightarrow> nat \<Rightarrow> Packet \<Rightarrow> Packet" where
  "ip_payload off len p = p\<lparr>data := Some off, dsize := len mod 65536\<rparr>"

definition ip_next :: "decode_rec \<Rightarrow> DecodeConf \<Rightarrow> u8 \<Rightarrow> nat \<Rightarrow> nat \<Rightarrow> Packet \<Rightarrow> fault + Packet" where
  "ip_next rec cf proto off len p =
     (if proto = IPPROTO_TCP then DecodeTCP cf off len p
      else if proto = IPPROTO_UDP then rec D_UDP off len p
      else if proto = IPPROTO_ICMP then DecodeICMP cf off len p
      else if proto = IPPROTO_IPV6 then
        rec D_IPV6 off len (if len < 40 then DecoderEvent cf DECODE_IPV6_TUNNELED_IPV4_TRUNCATED p else p)
      else if proto = IPPROTO_GRE then rec D_GRE off len p
      else if proto = IPPROTO_IPIP then rec D_IP off len p
      else if proto = IPPROTO_ESP then (if esp_decoding cf then rec D_ESP off len p else Inr p)
      else if proto \<in> {53, 55, 77, 103} then Inr (ip_payload off len (event_if cf DECODE_IP_BAD_PROTO True p))
      else if proto = IPPROTO_PGM then
        (if event_enabled cf DECODE_PGM_NAK_OVERFLOW then CheckPGMVuln cf off (len mod 65536) (ip_payload off len p)
         else Inr (ip_payload off len p))
      else if proto = IPPROTO_IGMP then
        (if event_enabled cf DECODE_IGMP_OPTIONS_DOS then CheckIGMPVuln cf off (len mod 65536) (ip_payload off len p)
         else Inr (ip_payload off len p))
      else GET_IPH_PROTO S_IP p (\<lambda>v. Inr (ip_payload off len (event_if cf DECODE_IP_UNASSIGNED_PROTO (143 \<le> v) p))))"

text \<open>The fields of the fragment word.\<close>

definition set_frag :: "DecodeConf \<Rightarrow> nat \<Rightarrow> nat \<Rightarrow> nat \<Rightarrow> Packet \<Rightarrow> Packet" where
  "set_frag cf w start len p =
     (let p = p\<lparr>rf := odd (w div 32768), df := odd (w div 16384), mf := odd (w div 8192), frag_offset := w mod 8192\<rparr>;
          p = event_if cf DECODE_IP4_DF_OFFSET (df p \<and> frag_offset p > 0) p;
          p = event_if cf DECODE_IP4_LEN_OFFSET (frag_offset p + actual_ip_len p > 65535) p;
          p = (if frag_offset p > 0 \<or> mf p
               then p\<lparr>frag_flag := True, ip_frag_start := Some start, ip_frag_len := len mod 65536\<rparr>
               else p\<lparr>frag_flag := False\<rparr>)
      in event_if cf DECODE_BAD_FRAGBITS (mf p \<and> df p) p)"

definition ip_checksum :: "DecodeConf \<Rightarrow> nat \<Rightarrow> nat \<Rightarrow> nat \<Rightarrow> Packet \<Rightarrow> (Packet \<Rightarrow> fault + Packet) \<Rightarrow> fault + Packet" where
  "ip_checksum cf off len hlen p k =
     (if \<not> ip_checksums cf then k p
      else in_chksum_ip S_IP p off len hlen (\<lambda>c. k (if c \<noteq> 0 then add_error PKT_ERR_CKSUM_IP p else p)))"

definition DecodeIP :: "decode_rec \<Rightarrow> DecodeConf \<Rightarrow> nat \<Rightarrow> nat \<Rightarrow> Packet \<Rightarrow> fault + Packet" where
  "DecodeIP rec cf off len p =
     (if len < IP_HEADER_LEN then
        ip_fail (event_if cf DECODE_IP4_HDR_TRUNC (\<not> unsure_encap p) p)
      else if family p \<noteq> NO_IP \<and> encapsulated p then
        Inr (DecoderAlertEncapsulated cf DECODE_IP_MULTIPLE_ENCAPSULATION off len p)
      else let p = (if family p \<noteq> NO_IP then set_encapsulated p else p);
               p = p\<lparr>inner_iph := Some off, iph := Some off\<rparr>
      in rd8 S_IP p off len 0 (\<lambda>verhl.
      if unat verhl div 16 \<noteq> 4 then
        ip_fail (if unsure_encap p then p else DecoderEvent cf DECODE_NOT_IPV4_DGRAM p)
      else rd16 S_IP p off len 2 (\<lambda>ip_len. rd16 S_IP p off len 4 (\<lambda>ip_id. rd16 S_IP p off len 6 (\<lambda>ip_off.
      rd8 S_IP p off len 9 (\<lambda>proto. rdbytes S_IP p off len 12 4 (\<lambda>src. rdbytes S_IP p off len 16 4 (\<lambda>dst.
      let p = p\<lparr>family := AF_INET, actual_ip_len := ip_len,
                 ip4h := Some \<lparr>h4_len = ip_len, h4_id = ip_id, h4_proto = proto, h4_src = src, h4_dst = dst\<rparr>\<rparr>;
          hlen = unat verhl mod 16 * 4
      in if hlen < IP_HEADER_LEN then ip_fail (DecoderEvent cf DECODE_IPV4_INVALID_HEADER_LEN p)
      else if ip_len > len then
        ip_fail (DecoderEventDrop cf DECODE_IPV4_DGRAM_GT_CAPLEN (oversized_alerts cf) p)
      else if ip_len < hlen then ip_fail (DecoderEvent cf DECODE_IPV4_DGRAM_LT_IPHDR p)
      else rbind (if ids_mode cf then IP4AddrTests cf off len p else Inr p) (\<lambda>p.
      ip_checksum cf off len hlen p (\<lambda>p.
      let p = PushLayer PROTO_IP4 off hlen p;
          p = p\<lparr>ip_options_len := hlen - IP_HEADER_LEN\<rparr>
      in rbind (if ip_options_len p > 0
                then DecodeIPOptions cf (off + IP_HEADER_LEN) (hlen - IP_HEADER_LEN) (p\<lparr>ip_options_data := Some (off + IP_HEADER_LEN)\<rparr>)
                else Inr (let p = (if encapsulated p then p\<lparr>ip_options_data := None, ip_options_len := 0\<rparr> else p)
                          in p\<lparr>ip_option_count := 0\<rparr>)) (\<lambda>p.
      let l = ip_len - hlen;
          p = set_frag cf ip_off (off + hlen) l (p\<lparr>actual_ip_len := ip_len\<rparr>);
          p = p\<lparr>ip_data := Some (off + hlen), ip_dsize := l\<rparr>;
          p = (if ids_mode cf then add_bits PROTO_BIT__IP p else p)
      in rbind (IPMiscTests cf p) (\<lambda>p.
      if \<not> frag_flag p \<or> frag_offset p = 0 \<and> proto = IPPROTO_UDP then ip_next rec cf proto (off + hlen) l p
      else Inr (ip_payload (off + hlen) l p)))))))))))))"

section \<open>ESP and GRE\<close>

definition DecodeESP :: "decode_rec \<Rightarrow> DecodeConf \<Rightarrow> nat \<Rightarrow> nat \<Rightarrow> Packet \<Rightarrow> fault + Packet" where
  "DecodeESP rec cf off len p =
     (if len < 22 then Inr ((DecoderEvent cf DECODE_ESP_HEADER_TRUNC p)\<lparr>data := Some off, dsize := len mod 65536\<rparr>)
      else let esp_payload = off + 8; n = len - 22 in
      rd8 S_ESP p off len (8 + n) (\<lambda>pad_length. rd8 S_ESP p off len (8 + n + 1) (\<lambda>next_header.
      if \<not> unat pad_length < n then Inr (p\<lparr>data := Some esp_payload, dsize := n mod 65536\<rparr>)
      else let n = n - unat pad_length; p = p\<lparr>unsure_encap := True\<rparr>
      in rbind (if next_header = IPPROTO_IPIP then rec D_IP esp_payload n p
                else if next_header = IPPROTO_IPV6 then rec D_IPV6 esp_payload n p
                else if next_header = IPPROTO_TCP then DecodeTCP cf esp_payload n p
                else if next_header = IPPROTO_UDP then rec D_UDP esp_payload n p
                else if next_header = IPPROTO_ICMP then DecodeICMP cf esp_payload n p
                else if next_header = IPPROTO_GRE then rec D_GRE esp_payload n p
                else Inr (p\<lparr>data := Some esp_payload, dsize := n mod 65536\<rparr>))
           (\<lambda>p. Inr (p\<lparr>unsure_encap := False\<rparr>)))))"

text \<open>The source route entries of GRE, from \<open>hlen\<close> on; the result is \<open>hlen\<close> after the walk.\<close>

fun gre_route :: "nat \<Rightarrow> nat \<Rightarrow> nat \<Rightarrow> Packet \<Rightarrow> nat \<Rightarrow> (nat \<Rightarrow> fault + 'a) \<Rightarrow> fault + 'a" where
  "gre_route fuel off len p hlen k =
     (if hlen + 4 > len then k (hlen + 4)
      else case fuel of 0 \<Rightarrow> Inl Out_of_fuel | Suc fuel \<Rightarrow>
        rd16 S_GRE p off len hlen (\<lambda>addrfamily. rd8 S_GRE p off len (hlen + 3) (\<lambda>sre_length.
          if addrfamily = 0 \<and> sre_length = 0 then k (hlen + 4)
          else gre_route fuel off len p (hlen + 4 + unat sre_length) k)))"

definition gre_payload :: "decode_rec \<Rightarrow> DecodeConf \<Rightarrow> nat \<Rightarrow> nat \<Rightarrow> nat \<Rightarrow> Packet \<Rightarrow> fault + Packet" where
  "gre_payload rec cf ty off len p =
     (if ty = ETHERNET_TYPE_IP then rec D_IP off len p
      else if ty = GRE_TYPE_TRANS_BRIDGING then rec D_TRANSBR off len p
      else if ty = ETHERNET_TYPE_ARP \<or> ty = ETHERNET_TYPE_REVARP then DecodeARP cf off len (p\<lparr>iph := None, family := NO_IP\<rparr>)
      else if ty = ETHERNET_TYPE_IPV6 then rec D_IPV6 off len p
      else if ty = GRE_TYPE_PPP then rec D_PPP off len p
      else if ty = ETHERNET_TYPE_IPX \<or> ty = ETHERNET_TYPE_LOOP then Inr p
      else if ty = ETHERNET_TYPE_8021Q then rec D_VLAN off len p
      else Inr (p\<lparr>data := Some off, dsize := len mod 65536\<rparr>))"

definition DecodeGRE :: "decode_rec \<Rightarrow> DecodeConf \<Rightarrow> nat \<Rightarrow> nat \<Rightarrow> Packet \<Rightarrow> fault + Packet" where
  "DecodeGRE rec cf off len p =
     (let alert = (\<lambda>ev p. Inr (DecoderAlertEncapsulated cf ev off len p)) in
      if len < 4 then alert DECODE_GRE_DGRAM_LT_GREHDR p
      else if encapsulated p then alert DECODE_IP_MULTIPLE_ENCAPSULATION p
      else let p = p\<lparr>greh := Some off\<rparr> in
      rd8 S_GRE p off len 0 (\<lambda>fl. rd8 S_GRE p off len 1 (\<lambda>ver. rd16 S_GRE p off len 2 (\<lambda>ty.
      let fin = (\<lambda>hlen.
            if hlen > len then alert DECODE_GRE_DGRAM_LT_GREHDR p
            else gre_payload rec cf ty (off + hlen) (len - hlen) (PushLayer PROTO_GRE off hlen p));
          key = (if fl AND 0x20 \<noteq> 0 then 4 else 0);
          sq = (if fl AND 0x10 \<noteq> 0 then 4 else 0)
      in if ver AND 7 = 0 then
           (if fl AND 7 \<noteq> 0 \<or> ver AND 0xF8 \<noteq> 0 then alert DECODE_GRE_INVALID_HEADER p
            else let hlen = 4 + (if fl AND 0x80 \<noteq> 0 \<or> fl AND 0x40 \<noteq> 0 then 4 else 0) + key + sq
            in if fl AND 0x40 \<noteq> 0 then gre_route len off len p hlen fin else fin hlen)
         else if ver AND 7 = 1 then
           (if fl AND 0x80 \<noteq> 0 \<or> fl AND 0x40 \<noteq> 0 \<or> fl AND 8 \<noteq> 0 \<or> fl AND 7 \<noteq> 0 \<or> ver AND 0x78 \<noteq> 0
            then alert DECODE_GRE_V1_INVALID_HEADER p
            else if ty \<noteq> GRE_TYPE_PPP then alert DECODE_GRE_V1_INVALID_HEADER p
            else if fl AND 0x20 = 0 then alert DECODE_GRE_V1_INVALID_HEADER p
            else fin (4 + 4 + sq + (if ver AND 0x80 \<noteq> 0 then 4 else 0)))
         else alert DECODE_GRE_INVALID_VERSION p))))"

section \<open>The link layer\<close>

definition no_ip :: "Packet \<Rightarrow> Packet" where
  "no_ip p = p\<lparr>iph := None, family := NO_IP\<rparr>"

definition DecodeTransBridging :: "decode_rec \<Rightarrow> DecodeConf \<Rightarrow> nat \<Rightarrow> nat \<Rightarrow> Packet \<Rightarrow> fault + Packet" where
  "DecodeTransBridging rec cf off len p =
     (if len < ETHERNET_HEADER_LEN then Inr (DecoderAlertEncapsulated cf DECODE_GRE_TRANS_DGRAM_LT_TRANSHDR off len p)
      else let p = PushLayer PROTO_ETH off ETHERNET_HEADER_LEN (p\<lparr>eh := Some off\<rparr>); d = off + ETHERNET_HEADER_LEN; n = len - ETHERNET_HEADER_LEN
      in rd16 S_Eth p off len 12 (\<lambda>ty.
        if ty = ETHERNET_TYPE_IP then rec D_IP d n p
        else if ty = ETHERNET_TYPE_ARP \<or> ty = ETHERNET_TYPE_REVARP then DecodeARP cf d n p
        else if ty = ETHERNET_TYPE_IPV6 then rec D_IPV6 d n p
        else if ty = ETHERNET_TYPE_IPX \<or> ty = ETHERNET_TYPE_LOOP then Inr p
        else if ty = ETHERNET_TYPE_8021Q then rec D_VLAN d n p
        else Inr (p\<lparr>data := Some d, dsize := n mod 65536\<rparr>)))"

abbreviation (input) MPLS_PAYLOADTYPE_IPV4 :: int where "MPLS_PAYLOADTYPE_IPV4 \<equiv> 1"
abbreviation (input) MPLS_PAYLOADTYPE_ETHERNET :: int where "MPLS_PAYLOADTYPE_ETHERNET \<equiv> 2"
abbreviation (input) MPLS_PAYLOADTYPE_IPV6 :: int where "MPLS_PAYLOADTYPE_IPV6 \<equiv> 3"
abbreviation (input) MPLS_PAYLOADTYPE_ERROR :: int where "MPLS_PAYLOADTYPE_ERROR \<equiv> - 1"

definition checkMplsHdr :: "DecodeConf \<Rightarrow> nat \<Rightarrow> bool \<Rightarrow> Packet \<Rightarrow> int \<times> Packet" where
  "checkMplsHdr cf label bos p =
     (let (iRet, p) =
        (if label = 0 \<or> label = 2 then
           (if bos then
              (if label = 0 then MPLS_PAYLOADTYPE_IPV4 else MPLS_PAYLOADTYPE_IPV6,
               if label = 2 \<and> mpls_payload cf \<noteq> MPLS_PAYLOADTYPE_IPV6 then DecoderEvent cf DECODE_BAD_MPLS_LABEL2 p
               else if label = 0 \<and> mpls_payload cf \<noteq> MPLS_PAYLOADTYPE_IPV4 then DecoderEvent cf DECODE_BAD_MPLS_LABEL0 p
               else p)
            else (0, p))
         else if label = 1 then
           (if \<not> bos then (0, p) else (MPLS_PAYLOADTYPE_ERROR, no_ip (DecoderEvent cf DECODE_BAD_MPLS_LABEL1 p)))
         else if label = 3 then (MPLS_PAYLOADTYPE_ERROR, no_ip (DecoderEvent cf DECODE_BAD_MPLS_LABEL3 p))
         else if 4 \<le> label \<and> label \<le> 15 then (0, DecoderEvent cf DECODE_MPLS_RESERVED_LABEL p)
         else (0, p))
      in (if iRet = 0 then mpls_payload cf else iRet, p))"

text \<open>
  The label stack, \<open>i\<close> the distance of \<open>tmpMplsHdr\<close> from \<open>pkt\<close>. The check of \<open>len\<close> does not move with it, so
  a stack that goes on past the window is read on. The result is the end of the stack and the payload
  type, or \<open>None\<close> for the early returns.
\<close>

fun mpls_loop :: "DecodeConf \<Rightarrow> nat \<Rightarrow> nat \<Rightarrow> nat \<Rightarrow> nat \<Rightarrow> u8 \<Rightarrow> int \<Rightarrow> Packet \<Rightarrow> fault + (nat \<times> int) option \<times> Packet" where
  "mpls_loop cf fuel off len i chainLen iRet p =
     (if len < 4 then Inr (None, no_ip (DecoderEvent cf DECODE_BAD_MPLS p))
      else rd32 S_MPLS p off len i (\<lambda>h.
        let ttl = h mod 256; bos = odd (h div 256); exp = 2 * (h div 512 mod 8); label = h div 4096;
            (iRet, p) = (if label < 16 then checkMplsHdr cf label bos p else (iRet, p))
        in if label < 16 \<and> iRet < 0 then Inr (None, p)
           else let p = (if bos then p\<lparr>mplsHdr := \<lparr>mh_label = label, mh_exp = exp, mh_bos = 1, mh_ttl = ttl\<rparr>, mpls := Some (off + i)\<rparr> else p);
                    iRet = (if bos \<and> iRet = 0 then mpls_payload cf else iRet)
           in if (case mpls_stack_depth cf of None \<Rightarrow> False | Some d \<Rightarrow> unat chainLen \<ge> d)
              then Inr (None, no_ip (DecoderEvent cf DECODE_MPLS_LABEL_STACK p))
              else if bos then Inr (Some (i + 4, iRet), p)
              else case fuel of 0 \<Rightarrow> Inl Out_of_fuel
                   | Suc fuel \<Rightarrow> mpls_loop cf fuel off len (i + 4)
                       (if mpls_stack_depth cf = None then chainLen else chainLen + 1) iRet p))"

definition DecodeMPLS :: "decode_rec \<Rightarrow> DecodeConf \<Rightarrow> nat \<Rightarrow> nat \<Rightarrow> Packet \<Rightarrow> fault + Packet" where
  "DecodeMPLS rec cf off len p =
     rbind (mpls_loop cf len off len 0 0 0 (p\<lparr>mpls := None\<rparr>)) (\<lambda>(r, p).
       case r of None \<Rightarrow> Inr p
       | Some (mlen, iRet) \<Rightarrow>
           let p = PushLayer PROTO_MPLS off mlen p
           in if iRet = MPLS_PAYLOADTYPE_IPV4 then rec D_IP (off + mlen) (len - mlen) p
              else if iRet = MPLS_PAYLOADTYPE_IPV6 then rec D_IPV6 (off + mlen) (len - mlen) p
              else if iRet = MPLS_PAYLOADTYPE_ETHERNET then rec D_ETH_MPLS (off + mlen) (len - mlen) p
              else Inr p)"

text \<open>The Ethernet types, with the alert on MPLS multicast where MPLS is looked at; the rest is only counted.\<close>

definition ether_next :: "decode_rec \<Rightarrow> DecodeConf \<Rightarrow> (Packet \<Rightarrow> Packet) option \<Rightarrow> nat \<Rightarrow> nat \<Rightarrow> nat \<Rightarrow> Packet \<Rightarrow> fault + Packet" where
  "ether_next rec cf multicast ty off len p =
     (if ty = ETHERNET_TYPE_IP then rec D_IP off len p
      else if ty = ETHERNET_TYPE_ARP \<or> ty = ETHERNET_TYPE_REVARP then DecodeARP cf off len p
      else if ty = ETHERNET_TYPE_IPV6 then rec D_IPV6 off len p
      else if ty = ETHERNET_TYPE_PPPoE_DISC \<or> ty = ETHERNET_TYPE_PPPoE_SESS then rec D_PPPOE off len p
      else if ty = ETHERNET_TYPE_8021Q then rec D_VLAN off len p
      else case multicast of None \<Rightarrow> Inr p
        | Some alert \<Rightarrow>
            if ty = ETHERNET_TYPE_MPLS_MULTICAST then rec D_MPLS off len (if mpls_multicast cf then p else alert p)
            else if ty = ETHERNET_TYPE_MPLS_UNICAST then rec D_MPLS off len p
            else Inr p)"

text \<open>It goes on at \<open>p->pkt + ETHERNET_HEADER_LEN\<close>, the address 14, not behind its own header.\<close>

definition DecodeEthOverMPLS :: "decode_rec \<Rightarrow> DecodeConf \<Rightarrow> nat \<Rightarrow> nat \<Rightarrow> Packet \<Rightarrow> fault + Packet" where
  "DecodeEthOverMPLS rec cf off len p =
     (if len < ETHERNET_HEADER_LEN then Inr (p\<lparr>iph := None\<rparr>)
      else let p = PushLayer PROTO_ETH off ETHERNET_HEADER_LEN (p\<lparr>eh := Some off\<rparr>)
      in rd16 S_Eth p off len 12 (\<lambda>ty. ether_next rec cf None ty ETHERNET_HEADER_LEN (len - ETHERNET_HEADER_LEN) p))"

abbreviation (input) LEN_VLAN_LLC_OTHER :: nat where "LEN_VLAN_LLC_OTHER \<equiv> 12"
abbreviation (input) ETHERNET_MAX_LEN_ENCAP :: nat where "ETHERNET_MAX_LEN_ENCAP \<equiv> 1518"

text \<open>
  With an LLC header it goes on at \<open>p->pkt + LEN_VLAN_LLC_OTHER\<close>, the address 12. Without one the alert
  on MPLS multicast is queued in any run mode.
\<close>

definition DecodeVlan :: "decode_rec \<Rightarrow> DecodeConf \<Rightarrow> nat \<Rightarrow> nat \<Rightarrow> Packet \<Rightarrow> fault + Packet" where
  "DecodeVlan rec cf off len p =
     (if len < 4 then Inr (no_ip (DecoderEvent cf DECODE_BAD_VLAN p))
      else let p = p\<lparr>vh := Some off\<rparr> in
      rd16 S_Vlan p off len 2 (\<lambda>vth_proto.
      if vth_proto \<le> ETHERNET_MAX_LEN_ENCAP then
        (if len < 6 then Inr (no_ip (DecoderEvent cf DECODE_BAD_VLAN_ETHLLC p))
         else let p = p\<lparr>ehllc := Some (off + 4)\<rparr> in
         rd8 S_Vlan p off len 4 (\<lambda>dsap. rd8 S_Vlan p off len 5 (\<lambda>ssap.
         if dsap = 0xaa \<and> ssap = 0xaa then
           (if len < LEN_VLAN_LLC_OTHER then Inr (no_ip (DecoderEvent cf DECODE_BAD_VLAN_OTHER p))
            else let p = PushLayer PROTO_VLAN off 4 (p\<lparr>ehllcother := Some (off + 6)\<rparr>)
            in rd16 S_Vlan p off len 10 (\<lambda>ty.
                 ether_next rec cf (Some (DecoderEvent cf DECODE_BAD_MPLS)) ty LEN_VLAN_LLC_OTHER (len - LEN_VLAN_LLC_OTHER) p))
         else Inr p)))
      else ether_next rec cf (Some (\<lambda>p. p\<lparr>dec_events := dec_events p @ [DECODE_BAD_MPLS]\<rparr>)) vth_proto (off + 4) (len - 4)
             (PushLayer PROTO_VLAN off 4 p)))"

definition DecodePPPoEPkt :: "decode_rec \<Rightarrow> DecodeConf \<Rightarrow> nat \<Rightarrow> nat \<Rightarrow> Packet \<Rightarrow> fault + Packet" where
  "DecodePPPoEPkt rec cf off len p =
     (if len < 6 then Inr (DecoderEvent cf DECODE_BAD_PPPOE p)
      else let p = p\<lparr>pppoeh := Some off\<rparr> in
      deref S_PPPoE (eh p) (\<lambda>e. rd16 S_PPPoE p 0 (caplen p) (e + 12) (\<lambda>ty.
        if ty = ETHERNET_TYPE_PPPoE_SESS then rec D_PPP (off + 6) (len - 6) (PushLayer PROTO_PPPOE off 6 p)
        else Inr p)))"

definition DecodePppPktEncapsulated :: "decode_rec \<Rightarrow> nat \<Rightarrow> nat \<Rightarrow> Packet \<Rightarrow> fault + Packet" where
  "DecodePppPktEncapsulated rec off len p =
     (if len < 2 then Inr p
      else rd8 S_PPP p off len 0 (\<lambda>b. rd16 S_PPP p off len 0 (\<lambda>w.
        let hlen = (if b AND 1 \<noteq> 0 then 1 else 2); protocol = (if b AND 1 \<noteq> 0 then unat b else w);
            ip = (\<lambda>p. rec D_IP (off + hlen) (len - hlen) (PushLayer PROTO_PPP_ENCAP off hlen p))
        in if protocol = 0x2f then
             (if len < hlen + IP_HEADER_LEN then Inr p
              else ip (p\<lparr>pkt_mem := (pkt_mem p)(off + hlen + 9 := IPPROTO_TCP)\<rparr>))
           else if protocol = 0x21 then ip p
           else if protocol = 0x2b then Inr (PushLayer PROTO_PPP_ENCAP off hlen p)
           else Inr p)))"

section \<open>The decoders together\<close>

text \<open>\<open>decode cf n\<close> is every decoder with at most \<open>n\<close> calls nested.\<close>

fun decode :: "DecodeConf \<Rightarrow> nat \<Rightarrow> decode_rec" where
  "decode cf 0 d off len p = Inl Out_of_fuel"
| "decode cf (Suc n) d off len p =
     (case d of
        D_IP \<Rightarrow> DecodeIP (decode cf n) cf off len p
      | D_IPV6 \<Rightarrow> DecodeIPV6 (decode cf n) cf off len p
      | D_IP6EXT nxt \<Rightarrow> DecodeIPV6Extensions (decode cf n) cf nxt off len p
      | D_IP6OPT ty \<Rightarrow> DecodeIPV6Options (decode cf n) cf ty off len p
      | D_UDP \<Rightarrow> DecodeUDP (decode cf n) cf off len p
      | D_ESP \<Rightarrow> DecodeESP (decode cf n) cf off len p
      | D_GRE \<Rightarrow> DecodeGRE (decode cf n) cf off len p
      | D_TEREDO \<Rightarrow> DecodeTeredo (decode cf n) cf off len p
      | D_GTP \<Rightarrow> DecodeGTP (decode cf n) cf off len p
      | D_VLAN \<Rightarrow> DecodeVlan (decode cf n) cf off len p
      | D_MPLS \<Rightarrow> DecodeMPLS (decode cf n) cf off len p
      | D_ETH_MPLS \<Rightarrow> DecodeEthOverMPLS (decode cf n) cf off len p
      | D_TRANSBR \<Rightarrow> DecodeTransBridging (decode cf n) cf off len p
      | D_PPPOE \<Rightarrow> DecodePPPoEPkt (decode cf n) cf off len p
      | D_PPP \<Rightarrow> DecodePppPktEncapsulated (decode cf n) off len p)"

text \<open>
  \<open>memset(p, 0, PKT_ZERO_LEN)\<close>, \<open>p->pkth\<close> and \<open>p->pkt\<close>: the arrays of options keep what the packet before
  left in them.
\<close>

definition packet_init :: "(nat \<Rightarrow> u8) \<Rightarrow> nat \<Rightarrow> Packet \<Rightarrow> Packet" where
  "packet_init mem cap old = \<lparr>pkt_mem = mem, caplen = cap, eh = None, vh = None, ehllc = None, ehllcother = None,
     pppoeh = None, ah = None, greh = None, mpls = None, mplsHdr = \<lparr>mh_label = 0, mh_exp = 0, mh_bos = 0, mh_ttl = 0\<rparr>,
     iph = None, inner_iph = None, outer_iph = None, orig_iph = None, tcph = None, orig_tcph = None, udph = None,
     inner_udph = None, outer_udph = None, orig_udph = None, icmph = None, icmp6h = None, orig_icmph = None,
     data = None, dsize = 0, ip_data = None, ip_dsize = 0, outer_ip_data = None, outer_ip_dsize = 0,
     actual_ip_len = 0, ip_frag_start = None, ip_frag_len = 0, frag_flag = False, frag_offset = 0,
     mf = False, df = False, rf = False, ip_options_data = None, ip_options_len = 0,
     ip_options = ip_options old, ip_option_count = 0, tcp_options_data = None, tcp_options_len = 0,
     tcp_options = tcp_options old, tcp_option_count = 0, ip6_extensions = ip6_extensions old, ip6_extension_count = 0,
     ip6_frag_index = 0, ip4h = None, ip6h = None, family = NO_IP, encapsulated = False, GTPencapsulated = False,
     unsure_encap = False, ignore_port = False, bit_teredo = False, bit_gtp = False, proto_bits = 0, error_flags = 0,
     sp = 0, dp = 0, orig_sp = 0, orig_dp = 0, layers = [], dec_events = []\<rparr>"

definition DecodeEthPkt :: "decode_rec \<Rightarrow> DecodeConf \<Rightarrow> (nat \<Rightarrow> u8) \<Rightarrow> nat \<Rightarrow> Packet \<Rightarrow> fault + Packet" where
  "DecodeEthPkt rec cf mem cap_len old =
     (let p = packet_init mem cap_len old in
      if cap_len < ETHERNET_HEADER_LEN then Inr (event_if cf DECODE_ETH_HDR_TRUNC True p)
      else let p = PushLayer PROTO_ETH 0 ETHERNET_HEADER_LEN (p\<lparr>eh := Some 0\<rparr>)
      in rd16 S_Eth p 0 cap_len 12 (\<lambda>ty.
           ether_next rec cf (Some (DecoderEvent cf DECODE_BAD_MPLS)) ty ETHERNET_HEADER_LEN (cap_len - ETHERNET_HEADER_LEN) p))"

text \<open>A depth that is enough for every frame (shown in \<open>DecodeProofs\<close>).\<close>

definition decode_frame :: "DecodeConf \<Rightarrow> (nat \<Rightarrow> u8) \<Rightarrow> nat \<Rightarrow> Packet \<Rightarrow> fault + Packet" where
  "decode_frame cf mem cap_len old = DecodeEthPkt (decode cf (3 * cap_len + 3)) cf mem cap_len old"

end
