(* ===== verification/LinkLayers.thy ===== *)
theory LinkLayers
  imports DecodeLayers
begin

text \<open>
  The decoders of the other link layers (\<open>decode.c\<close>) and their selection by the data link type
  (\<open>SetPktProcessor\<close> in \<open>snort.c\<close>). Each of them looks at its own header and goes on with one of the
  decoders of \<open>DecodeLayers\<close> in tail position: \<open>Enter d off len p\<close> is that call, with the length as
  the code computes it in 32 bits. The pointers to the link headers, fields of the C \<open>Packet\<close> that only
  these decoders set, are a record of their own. The host is little endian with \<open>AF_INET\<close> 2 and
  \<open>AF_INET6\<close> 10; \<open>verbose\<close> is \<open>ScLogVerbose()\<close>.
\<close>

record LinkHdrs =
  wifih :: "nat option"
  trh :: "nat option"
  trhllc :: "nat option"
  trhmr :: "nat option"
  fddihdr :: "nat option"
  fddisaps :: "nat option"
  fddisna :: "nat option"
  fddiiparp :: "nat option"
  fddiother :: "nat option"
  sllh :: "nat option"
  pf1h :: "nat option"
  pf2h :: "nat option"
  pf3h :: "nat option"
  eplh :: "nat option"
  eapolk :: "nat option"
  eaph :: "nat option"
  eaptype :: "nat option"

definition no_link :: LinkHdrs where
  "no_link = \<lparr>wifih = None, trh = None, trhllc = None, trhmr = None, fddihdr = None, fddisaps = None, fddisna = None,
     fddiiparp = None, fddiother = None, sllh = None, pf1h = None, pf2h = None, pf3h = None, eplh = None, eapolk = None,
     eaph = None, eaptype = None\<rparr>"

datatype link_end = Stop Packet | Enter decoder nat nat Packet

type_synonym link_res = "fault + LinkHdrs \<times> link_end"

text \<open>\<open>a - b\<close> on \<open>uint32_t\<close>.\<close>

definition sub32 :: "nat \<Rightarrow> nat \<Rightarrow> nat" where
  "sub32 a b = (a + 2 ^ 32 - b) mod 2 ^ 32"

abbreviation (input) DECODE_EAPOL_TRUNCATED :: nat where "DECODE_EAPOL_TRUNCATED \<equiv> 110"
abbreviation (input) DECODE_EAPKEY_TRUNCATED :: nat where "DECODE_EAPKEY_TRUNCATED \<equiv> 111"
abbreviation (input) DECODE_EAP_TRUNCATED :: nat where "DECODE_EAP_TRUNCATED \<equiv> 112"
abbreviation (input) DECODE_BAD_80211_ETHLLC :: nat where "DECODE_BAD_80211_ETHLLC \<equiv> 133"
abbreviation (input) DECODE_BAD_80211_OTHER :: nat where "DECODE_BAD_80211_OTHER \<equiv> 134"
abbreviation (input) DECODE_BAD_TRH :: nat where "DECODE_BAD_TRH \<equiv> 140"
abbreviation (input) DECODE_BAD_TR_ETHLLC :: nat where "DECODE_BAD_TR_ETHLLC \<equiv> 141"
abbreviation (input) DECODE_BAD_TR_MR_LEN :: nat where "DECODE_BAD_TR_MR_LEN \<equiv> 142"
abbreviation (input) DECODE_BAD_TRHMR :: nat where "DECODE_BAD_TRHMR \<equiv> 143"

abbreviation (input) ETHERNET_TYPE_EAPOL :: nat where "ETHERNET_TYPE_EAPOL \<equiv> 0x888e"
abbreviation (input) SNAP_SAP :: u8 where "SNAP_SAP \<equiv> 0xaa"

section \<open>Loopback and raw packets\<close>

definition DecodeNullPkt :: "Packet \<Rightarrow> LinkHdrs \<Rightarrow> link_res" where
  "DecodeNullPkt p l =
     (if caplen p < 4 then Inr (l, Stop p) else Inr (l, Enter D_IP 4 (caplen p - 4) p))"

definition DecodeRawPkt :: "Packet \<Rightarrow> LinkHdrs \<Rightarrow> link_res" where
  "DecodeRawPkt p l = Inr (l, Enter D_IP 0 (caplen p) p)"

definition DecodeRawPkt6 :: "Packet \<Rightarrow> LinkHdrs \<Rightarrow> link_res" where
  "DecodeRawPkt6 p l = Inr (l, Enter D_IPV6 0 (caplen p) p)"

definition DecodeSlipPkt :: "Packet \<Rightarrow> LinkHdrs \<Rightarrow> link_res" where
  "DecodeSlipPkt p l =
     (if caplen p < 16 then Inr (l, Stop p) else Inr (l, Enter D_IP 16 (caplen p - 16) p))"

text \<open>The two ISDN decoders look at \<open>pktlen\<close>, the length on the wire.\<close>

definition DecodeI4LRawIPPkt :: "nat \<Rightarrow> Packet \<Rightarrow> LinkHdrs \<Rightarrow> link_res" where
  "DecodeI4LRawIPPkt pktlen p l =
     (if pktlen < 2 then Inr (l, Stop p) else Inr (l, Enter D_IP 2 (pktlen - 2) p))"

definition DecodeI4LCiscoIPPkt :: "nat \<Rightarrow> Packet \<Rightarrow> LinkHdrs \<Rightarrow> link_res" where
  "DecodeI4LCiscoIPPkt pktlen p l =
     (if pktlen < 4 then Inr (l, Stop p) else Inr (l, Enter D_IP 4 (sub32 (caplen p) 4) p))"

text \<open>It steps over an IPv4 header of which it does not know whether it was captured.\<close>

definition DecodeEncPkt :: "Packet \<Rightarrow> LinkHdrs \<Rightarrow> link_res" where
  "DecodeEncPkt p l =
     (if caplen p < 12 then Inr (l, Stop p)
      else rdbytes S_Link p 0 (caplen p) 0 4 (\<lambda>af.
        if af = [2, 0, 0, 0] then Inr (l, Enter D_IP 32 (sub32 (caplen p) 32) p) else Inr (l, Stop p)))"

section \<open>PPP and HDLC\<close>

definition DecodePppPkt :: "Packet \<Rightarrow> LinkHdrs \<Rightarrow> link_res" where
  "DecodePppPkt p l =
     (if caplen p < 2 then Inr (l, Stop p)
      else rd8 S_Link p 0 (caplen p) 0 (\<lambda>a. rd8 S_Link p 0 (caplen p) 1 (\<lambda>c.
        let hlen = (if a = 0xff \<and> c = 0x03 then 2 else 0) in Inr (l, Enter D_PPP hlen (caplen p - hlen) p))))"

definition DecodeChdlcPkt :: "Packet \<Rightarrow> LinkHdrs \<Rightarrow> link_res" where
  "DecodeChdlcPkt p l =
     (if caplen p < 4 then Inr (l, Stop p)
      else rd8 S_Link p 0 (caplen p) 0 (\<lambda>a. rd16 S_Link p 0 (caplen p) 2 (\<lambda>ty.
        if (a = 0x0f \<or> a = 0x8f) \<and> ty = ETHERNET_TYPE_IP then Inr (l, Enter D_IP 4 (caplen p - 4) p) else Inr (l, Stop p))))"

definition DecodePppSerialPkt :: "Packet \<Rightarrow> LinkHdrs \<Rightarrow> link_res" where
  "DecodePppSerialPkt p l =
     (if caplen p < 4 then Inr (l, Stop p)
      else rd8 S_Link p 0 (caplen p) 0 (\<lambda>a. rd8 S_Link p 0 (caplen p) 1 (\<lambda>c.
        if a = 0xff \<and> c = 0x03 then Inr (l, Enter D_PPP 2 (caplen p - 2) p) else DecodeChdlcPkt p l)))"

section \<open>802.11\<close>

definition DecodeEapolKey :: "DecodeConf \<Rightarrow> nat \<Rightarrow> nat \<Rightarrow> Packet \<Rightarrow> LinkHdrs \<Rightarrow> link_res" where
  "DecodeEapolKey cf off len p l =
     Inr (l\<lparr>eapolk := Some off\<rparr>, Stop (if len < 44 then DecoderEvent cf DECODE_EAPKEY_TRUNCATED p else p))"

definition DecodeEAP :: "DecodeConf \<Rightarrow> nat \<Rightarrow> nat \<Rightarrow> Packet \<Rightarrow> LinkHdrs \<Rightarrow> link_res" where
  "DecodeEAP cf off len p l =
     (let l = l\<lparr>eaph := Some off\<rparr> in
      if len < 4 then Inr (l, Stop (DecoderEvent cf DECODE_EAP_TRUNCATED p))
      else rd8 S_Link p off len 0 (\<lambda>code.
        Inr (if code = 1 \<or> code = 2 then l\<lparr>eaptype := Some (off + 4)\<rparr> else l, Stop p)))"

definition DecodeEapol :: "DecodeConf \<Rightarrow> nat \<Rightarrow> nat \<Rightarrow> Packet \<Rightarrow> LinkHdrs \<Rightarrow> link_res" where
  "DecodeEapol cf off len p l =
     (let l = l\<lparr>eplh := Some off\<rparr> in
      if len < 4 then Inr (l, Stop (DecoderEvent cf DECODE_EAPOL_TRUNCATED p))
      else rd8 S_Link p off len 1 (\<lambda>ty.
        if ty = 0 then DecodeEAP cf (off + 4) (len - 4) p l
        else if ty = 3 then DecodeEapolKey cf (off + 4) (len - 4) p l
        else Inr (l, Stop p)))"

text \<open>VLAN and IPv6 go on at the LLC header (24), the others behind it (32).\<close>

definition DecodeIEEE80211Pkt :: "DecodeConf \<Rightarrow> Packet \<Rightarrow> LinkHdrs \<Rightarrow> link_res" where
  "DecodeIEEE80211Pkt cf p l =
     (let cap = caplen p in
      if cap < 10 then Inr (l, Stop p)
      else let l = l\<lparr>wifih := Some 0\<rparr> in
      rd8 S_Link p 0 cap 0 (\<lambda>fc.
      if fc \<notin> {0x08, 0x18, 0x28, 0x38} then Inr (l, Stop p)
      else if cap < 26 then Inr (l, Stop (DecoderEvent cf DECODE_BAD_80211_ETHLLC p))
      else let p = p\<lparr>ehllc := Some 24\<rparr> in
      rd8 S_Link p 0 cap 24 (\<lambda>dsap. rd8 S_Link p 0 cap 25 (\<lambda>ssap.
      if \<not> (dsap = SNAP_SAP \<and> ssap = SNAP_SAP) then Inr (l, Stop p)
      else if cap < 32 then Inr (l, Stop (DecoderEvent cf DECODE_BAD_80211_OTHER p))
      else let p = p\<lparr>ehllcother := Some 26\<rparr> in
      rd16 S_Link p 0 cap 30 (\<lambda>ty.
      if ty = ETHERNET_TYPE_IP then Inr (l, Enter D_IP 32 (cap - 32) p)
      else if ty = ETHERNET_TYPE_ARP \<or> ty = ETHERNET_TYPE_REVARP then
        rbind (DecodeARP cf 32 (cap - 32) p) (\<lambda>p. Inr (l, Stop p))
      else if ty = ETHERNET_TYPE_EAPOL then DecodeEapol cf 32 (cap - 32) p l
      else if ty = ETHERNET_TYPE_8021Q then Inr (l, Enter D_VLAN 24 (cap - 24) p)
      else if ty = ETHERNET_TYPE_IPV6 then Inr (l, Enter D_IPV6 24 (cap - 24) p)
      else Inr (l, Stop p))))))"

section \<open>Token ring and FDDI\<close>

text \<open>With the address padding the compiler puts before \<open>ethertype\<close>, \<open>Trh_llc\<close> has eight bytes.\<close>

definition tr_llc :: "Packet \<Rightarrow> LinkHdrs \<Rightarrow> nat \<Rightarrow> link_res" where
  "tr_llc p l llc =
     (let cap = caplen p; l = l\<lparr>trhllc := Some llc\<rparr>; dataoff = llc + 8 in
      rd8 S_Link p 0 cap llc (\<lambda>dsap. rd8 S_Link p 0 cap (llc + 1) (\<lambda>ssap.
      if dsap \<noteq> SNAP_SAP \<and> ssap \<noteq> SNAP_SAP then Inr (l\<lparr>trhllc := None\<rparr>, Stop p)
      else rd16 S_Link p 0 cap (llc + 6) (\<lambda>ty.
        if ty = ETHERNET_TYPE_IP then Inr (l, Enter D_IP dataoff (cap - dataoff) p)
        else if ty = ETHERNET_TYPE_8021Q then Inr (l, Enter D_VLAN dataoff (cap - dataoff) p)
        else Inr (l, Stop p)))))"

definition DecodeTRPkt :: "DecodeConf \<Rightarrow> Packet \<Rightarrow> LinkHdrs \<Rightarrow> link_res" where
  "DecodeTRPkt cf p l =
     (let cap = caplen p in
      if cap < 14 then Inr (l, Stop (DecoderEvent cf DECODE_BAD_TRH p))
      else let l = l\<lparr>trh := Some 0\<rparr> in
      if cap < 22 then Inr (l, Stop (DecoderEvent cf DECODE_BAD_TR_ETHLLC p))
      else let l = l\<lparr>trhllc := Some 14\<rparr> in
      rd8 S_Link p 0 cap 14 (\<lambda>dsap. rd8 S_Link p 0 cap 15 (\<lambda>ssap.
      if dsap \<noteq> SNAP_SAP \<and> ssap \<noteq> SNAP_SAP then
        (if cap < 40 then Inr (l, Stop (DecoderEvent cf DECODE_BAD_TRHMR p))
         else let l = l\<lparr>trhmr := Some 14\<rparr> in
         rd16 S_Link p 0 cap 14 (\<lambda>w.
           let mr_len = w div 256 mod 32 in
           if cap < 40 + mr_len then Inr (l, Stop (DecoderEvent cf DECODE_BAD_TR_MR_LEN p))
           else tr_llc p l (14 + mr_len)))
      else tr_llc p l 14)))"

text \<open>
  A header that was not captured ends the decoding in verbose mode only. The last test lets a
  packet with one of the two access points of IP pass, whose \<open>fddiiparp\<close> is NULL.
\<close>

definition fddi_next :: "Packet \<Rightarrow> LinkHdrs \<Rightarrow> u8 \<Rightarrow> u8 \<Rightarrow> nat \<Rightarrow> link_res" where
  "fddi_next p l dsap ssap dataoff =
     (if dsap \<noteq> SNAP_SAP \<and> ssap \<noteq> SNAP_SAP then Inr (l, Stop p)
      else let cap_len = sub32 (caplen p) dataoff in
      deref S_Link (fddiiparp l) (\<lambda>h. rd16 S_Link p 0 (caplen p) (h + 4) (\<lambda>ty.
        if ty = ETHERNET_TYPE_IP then Inr (l, Enter D_IP dataoff cap_len p)
        else if ty = ETHERNET_TYPE_8021Q then Inr (l, Enter D_VLAN dataoff cap_len p)
        else Inr (l, Stop p))))"

definition DecodeFDDIPkt :: "bool \<Rightarrow> Packet \<Rightarrow> LinkHdrs \<Rightarrow> link_res" where
  "DecodeFDDIPkt verbose p l =
     (let cap = caplen p in
      if cap < 15 \<and> verbose then Inr (l, Stop p)
      else let l = l\<lparr>fddihdr := Some 0, fddisaps := Some 13\<rparr> in
      rd8 S_Link p 0 cap 13 (\<lambda>dsap. rd8 S_Link p 0 cap 14 (\<lambda>ssap.
      if dsap = SNAP_SAP \<and> ssap = SNAP_SAP then
        (if cap < 21 \<and> verbose then Inr (l, Stop p)
         else fddi_next p (l\<lparr>fddiiparp := Some 15\<rparr>) dsap ssap 21)
      else if dsap = 0x08 \<and> ssap = 0x00 then
        (if cap < 17 \<and> verbose then Inr (l, Stop p)
         else fddi_next p (l\<lparr>fddisna := Some 15\<rparr>) dsap ssap 17)
      else
        (let l = l\<lparr>fddiother := Some 14\<rparr> in
         if cap < 16 \<and> verbose then Inr (l, Stop p)
         else fddi_next p l dsap ssap 16))))"

section \<open>Cooked captures and packet filter logs\<close>

definition DecodeLinuxSLLPkt :: "DecodeConf \<Rightarrow> Packet \<Rightarrow> LinkHdrs \<Rightarrow> link_res" where
  "DecodeLinuxSLLPkt cf p l =
     (let cap = caplen p in
      if cap < 16 then Inr (l, Stop p)
      else let l = l\<lparr>sllh := Some 0\<rparr> in
      rd16 S_Link p 0 cap 14 (\<lambda>ty.
        if ty = ETHERNET_TYPE_IP then Inr (l, Enter D_IP 16 (cap - 16) p)
        else if ty = ETHERNET_TYPE_ARP \<or> ty = ETHERNET_TYPE_REVARP then
          rbind (DecodeARP cf 16 (cap - 16) p) (\<lambda>p. Inr (l, Stop p))
        else if ty = ETHERNET_TYPE_IPV6 then Inr (l, Enter D_IPV6 16 (cap - 16) p)
        else if ty = ETHERNET_TYPE_8021Q then Inr (l, Enter D_VLAN 16 (cap - 16) p)
        else Inr (l, Stop p)))"

definition DecodeOldPflog :: "Packet \<Rightarrow> LinkHdrs \<Rightarrow> link_res" where
  "DecodeOldPflog p l =
     (let cap = caplen p in
      if cap < 28 then Inr (l, Stop p)
      else let l = l\<lparr>pf1h := Some 0\<rparr> in
      rd32 S_Link p 0 cap 0 (\<lambda>af.
        if af = 2 then Inr (l, Enter D_IP 28 (cap - 28) p)
        else if af = 10 then Inr (l, Enter D_IPV6 28 (cap - 28) p)
        else Inr (l, Stop p)))"

definition DecodePflog :: "Packet \<Rightarrow> LinkHdrs \<Rightarrow> link_res" where
  "DecodePflog p l =
     (let cap = caplen p in
      if cap < 45 then Inr (l, Stop p)
      else rd8 S_Link p 0 cap 0 (\<lambda>pflen. rd8 S_Link p 0 cap 1 (\<lambda>af.
      let l = (if pflen < 61 then l\<lparr>pf2h := Some 0\<rparr> else l\<lparr>pf3h := Some 0\<rparr>);
          hlen = (if pflen < 61 then 48 else 64)
      in if cap < hlen then Inr (l, Stop p)
         else if unat pflen < hlen - 3 \<or> unat pflen > hlen then Inr (l, Stop p)
         else if af = 2 then Inr (l, Enter D_IP hlen (cap - hlen) p)
         else if af = 10 then Inr (l, Enter D_IPV6 hlen (cap - hlen) p)
         else Inr (l, Stop p))))"

section \<open>The data link types\<close>

datatype dlt = DLT_NULL | DLT_RAW | DLT_IPV6 | DLT_I4L_CISCOHDLC | DLT_PPP | DLT_I4L_RAWIP | DLT_IEEE802_11
  | DLT_ENC | DLT_IEEE802 | DLT_FDDI | DLT_CHDLC | DLT_SLIP | DLT_PPP_SERIAL | DLT_LINUX_SLL | DLT_PFLOG | DLT_OLDPFLOG

definition SetPktProcessor :: "DecodeConf \<Rightarrow> bool \<Rightarrow> nat \<Rightarrow> dlt \<Rightarrow> Packet \<Rightarrow> LinkHdrs \<Rightarrow> link_res" where
  "SetPktProcessor cf verbose pktlen dlt =
     (case dlt of
        DLT_NULL \<Rightarrow> DecodeNullPkt
      | DLT_RAW \<Rightarrow> DecodeRawPkt
      | DLT_IPV6 \<Rightarrow> DecodeRawPkt6
      | DLT_I4L_CISCOHDLC \<Rightarrow> DecodeI4LCiscoIPPkt pktlen
      | DLT_PPP \<Rightarrow> DecodePppPkt
      | DLT_I4L_RAWIP \<Rightarrow> DecodeI4LRawIPPkt pktlen
      | DLT_IEEE802_11 \<Rightarrow> DecodeIEEE80211Pkt cf
      | DLT_ENC \<Rightarrow> DecodeEncPkt
      | DLT_IEEE802 \<Rightarrow> DecodeTRPkt cf
      | DLT_FDDI \<Rightarrow> DecodeFDDIPkt verbose
      | DLT_CHDLC \<Rightarrow> DecodeChdlcPkt
      | DLT_SLIP \<Rightarrow> DecodeSlipPkt
      | DLT_PPP_SERIAL \<Rightarrow> DecodePppSerialPkt
      | DLT_LINUX_SLL \<Rightarrow> DecodeLinuxSLLPkt cf
      | DLT_PFLOG \<Rightarrow> DecodePflog
      | DLT_OLDPFLOG \<Rightarrow> DecodeOldPflog)"

text \<open>A packet of a link type (the \<open>grinder\<close>), with the depth that is enough for every frame.\<close>

definition decode_link :: "DecodeConf \<Rightarrow> bool \<Rightarrow> dlt \<Rightarrow> (nat \<Rightarrow> u8) \<Rightarrow> nat \<Rightarrow> nat \<Rightarrow> Packet \<Rightarrow> fault + Packet" where
  "decode_link cf verbose dlt mem cap pktlen old =
     rbind (SetPktProcessor cf verbose pktlen dlt (packet_init mem cap old) no_link)
       (\<lambda>(l, e). case e of Stop p \<Rightarrow> Inr p | Enter d off len p \<Rightarrow> decode cf (3 * cap + 3) d off len p)"

end
