(* ===== verification/DecodeSafe.thy ===== *)
theory DecodeSafe
  imports DecodeLayers
begin

text \<open>
  What the decoders guarantee for every frame: which reads can leave the packet, that every pointer
  they record is inside it, and that the depth given to \<open>decode\<close> is enough.
\<close>

section \<open>Safe results\<close>

text \<open>
  The reads that can leave the window of the decoder; all others cannot. \<open>nl\<close> says that there may be no
  Ethernet header: then the one decoder that looks back at it may meet a NULL pointer.
\<close>

definition unsafe_sites :: "site set" where
  "unsafe_sites = {S_MPLS, S_Teredo, S_HopOpt, S_ICMPSeq, S_Orig6, S_PGM}"

definition ok_res :: "bool \<Rightarrow> ('a \<Rightarrow> bool) \<Rightarrow> fault + 'a \<Rightarrow> bool" where
  "ok_res nl Q r = (case r of Inl e \<Rightarrow> e \<in> Overread ` unsafe_sites \<or> nl \<and> e = Null_pointer S_PPPoE | Inr x \<Rightarrow> Q x)"

named_theorems wp

lemma ok_Inr [simp]: "ok_res nl Q (Inr x) = Q x"
  by (simp add: ok_res_def)

lemma ok_Inr_wp [wp]: "Q x \<Longrightarrow> ok_res nl Q (Inr x)"
  by simp

lemma ok_weaken: "ok_res nl R m \<Longrightarrow> (\<And>x. R x \<Longrightarrow> Q x) \<Longrightarrow> ok_res nl Q m"
  by (auto simp: ok_res_def split: sum.splits)

lemma ok_rbind: "ok_res nl R m \<Longrightarrow> (\<And>x. R x \<Longrightarrow> ok_res nl Q (f x)) \<Longrightarrow> ok_res nl Q (rbind m f)"
  by (cases m) (auto simp: ok_res_def rbind_def)

lemma ok_if [wp]: "(b \<Longrightarrow> ok_res nl Q x) \<Longrightarrow> (\<not> b \<Longrightarrow> ok_res nl Q y) \<Longrightarrow> ok_res nl Q (if b then x else y)"
  by simp

lemma ok_let: "(\<And>x. x = e \<Longrightarrow> ok_res nl Q (f x)) \<Longrightarrow> ok_res nl Q (let x = e in f x)"
  by simp

lemma ok_rd8 [wp]:
  "s \<in> unsafe_sites \<or> i < len \<Longrightarrow> (\<And>v. i < len \<Longrightarrow> ok_res nl Q (k v)) \<Longrightarrow> ok_res nl Q (rd8 s p off len i k)"
  by (auto simp: ok_res_def rd8_def)

lemma ok_rd16 [wp]:
  "s \<in> unsafe_sites \<or> i + 2 \<le> len \<Longrightarrow> (\<And>v. i + 2 \<le> len \<Longrightarrow> ok_res nl Q (k v)) \<Longrightarrow> ok_res nl Q (rd16 s p off len i k)"
  by (auto simp: ok_res_def rd16_def)

lemma ok_rd32 [wp]:
  "s \<in> unsafe_sites \<or> i + 4 \<le> len \<Longrightarrow> (\<And>v. i + 4 \<le> len \<Longrightarrow> ok_res nl Q (k v)) \<Longrightarrow> ok_res nl Q (rd32 s p off len i k)"
  by (auto simp: ok_res_def rd32_def)

lemma ok_rdbytes [wp]:
  "s \<in> unsafe_sites \<or> i + n \<le> len \<Longrightarrow> (\<And>v. length v = n \<Longrightarrow> i + n \<le> len \<Longrightarrow> ok_res nl Q (k v)) \<Longrightarrow>
   ok_res nl Q (rdbytes s p off len i n k)"
  by (auto simp: ok_res_def rdbytes_def)

lemma ok_deref [wp]: "q \<noteq> None \<Longrightarrow> (\<And>x. q = Some x \<Longrightarrow> ok_res nl Q (k x)) \<Longrightarrow> ok_res nl Q (deref s q k)"
  by (auto simp: deref_def)

lemma ok_deref_eh: "nl \<or> q \<noteq> None \<Longrightarrow> (\<And>x. q = Some x \<Longrightarrow> ok_res nl Q (k x)) \<Longrightarrow> ok_res nl Q (deref S_PPPoE q k)"
  by (auto simp: deref_def ok_res_def split: option.splits)

section \<open>The pointers of the packet\<close>

definition within :: "nat \<Rightarrow> nat \<Rightarrow> nat option \<Rightarrow> bool" where
  "within C n q = (case q of None \<Rightarrow> True | Some x \<Rightarrow> x + n \<le> C)"

lemma within_simps [simp]: "within C n None" "within C n (Some x) = (x + n \<le> C)"
  by (simp_all add: within_def)

definition opt_ok :: "nat \<Rightarrow> Options \<Rightarrow> bool" where
  "opt_ok C opt = within C (op_len opt) (op_data opt)"

text \<open>The layers pushed for the IPv6 options keep the length their header claims.\<close>

definition layer_ok :: "nat \<Rightarrow> Layer \<Rightarrow> bool" where
  "layer_ok C l = (ly_proto l = PROTO_IP6_HOP_OPTS \<or> ly_proto l = PROTO_IP6_DST_OPTS \<or> ly_start l + ly_length l \<le> C)"

definition pkt_wf :: "nat \<Rightarrow> Packet \<Rightarrow> bool" where
  "pkt_wf C p =
     (caplen p = C \<and> within C 14 (eh p) \<and>
      within C 20 (iph p) \<and>
      within C 20 (inner_iph p) \<and>
      within C 20 (outer_iph p) \<and>
      within C 20 (orig_iph p) \<and>
      within C 20 (tcph p) \<and>
      within C 4 (orig_tcph p) \<and>
      within C 8 (udph p) \<and>
      within C 8 (inner_udph p) \<and>
      within C 8 (outer_udph p) \<and>
      within C 4 (orig_udph p) \<and>
      within C 4 (icmph p) \<and>
      within C 4 (icmp6h p) \<and>
      within C 0 (orig_icmph p) \<and>
      within C 0 (data p) \<and>
      within C 0 (ip_data p) \<and>
      within C 0 (outer_ip_data p) \<and>
      within C 0 (ip_frag_start p) \<and>
      within C 4 (mpls p) \<and>
      within C 4 (vh p) \<and>
      within C 2 (ehllc p) \<and>
      within C 6 (ehllcother p) \<and>
      within C 6 (pppoeh p) \<and>
      within C 4 (greh p) \<and>
      within C (ip_options_len p) (ip_options_data p) \<and>
      within C (tcp_options_len p) (tcp_options_data p) \<and>
      (\<forall>i<ip_option_count p. opt_ok C (ip_options p i)) \<and>
      (\<forall>i<tcp_option_count p. opt_ok C (tcp_options p i)) \<and>
      ip_option_count p \<le> 40 \<and> tcp_option_count p \<le> 40 \<and> ip6_extension_count p \<le> 8 \<and>
      (\<forall>i<ip6_extension_count p. ex_data (ip6_extensions p i) + 8 \<le> C) \<and>
      (ip6_frag_index p = 0 \<or> ip6_frag_index p < ip6_extension_count p) \<and>
      length (layers p) \<le> 32 \<and> (\<forall>l\<in>set (layers p). layer_ok C l))"

definition pinv :: "bool \<Rightarrow> nat \<Rightarrow> Packet \<Rightarrow> bool" where
  "pinv nl C p = (pkt_wf C p \<and> (nl \<or> eh p \<noteq> None))"

text \<open>The family that the decoders of the transport layer rely on.\<close>

definition fam :: "Packet \<Rightarrow> bool" where
  "fam p = (family p \<noteq> NO_IP \<and> (family p = AF_INET \<longrightarrow> ip4h p \<noteq> None \<and> iph p \<noteq> None) \<and>
            (family p = AF_INET6 \<longrightarrow> ip6h p \<noteq> None))"

lemma fam_cases: "fam p \<Longrightarrow> (family p = AF_INET \<Longrightarrow> ip4h p \<noteq> None \<Longrightarrow> iph p \<noteq> None \<Longrightarrow> R) \<Longrightarrow>
    (family p = AF_INET6 \<Longrightarrow> ip6h p \<noteq> None \<Longrightarrow> R) \<Longrightarrow> R"
  by (cases "family p") (auto simp: fam_def)

lemma pinv_caplen: "pinv nl C p \<Longrightarrow> caplen p = C"
  by (simp add: pinv_def pkt_wf_def)

lemma pinv_if [simp]: "pinv nl C (if b then p else q) = (if b then pinv nl C p else pinv nl C q)"
  by simp

lemma fam_if [simp]: "fam (if b then p else q) = (if b then fam p else fam q)"
  by simp

lemma pinv_free_updates [simp]:
  "pinv nl C (p\<lparr>pkt_mem := v0\<rparr>) = pinv nl C p"
  "pinv nl C (p\<lparr>ah := v1\<rparr>) = pinv nl C p"
  "pinv nl C (p\<lparr>mplsHdr := v2\<rparr>) = pinv nl C p"
  "pinv nl C (p\<lparr>dsize := v3\<rparr>) = pinv nl C p"
  "pinv nl C (p\<lparr>ip_dsize := v4\<rparr>) = pinv nl C p"
  "pinv nl C (p\<lparr>outer_ip_dsize := v5\<rparr>) = pinv nl C p"
  "pinv nl C (p\<lparr>actual_ip_len := v6\<rparr>) = pinv nl C p"
  "pinv nl C (p\<lparr>ip_frag_len := v7\<rparr>) = pinv nl C p"
  "pinv nl C (p\<lparr>frag_flag := v8\<rparr>) = pinv nl C p"
  "pinv nl C (p\<lparr>frag_offset := v9\<rparr>) = pinv nl C p"
  "pinv nl C (p\<lparr>mf := v10\<rparr>) = pinv nl C p"
  "pinv nl C (p\<lparr>df := v11\<rparr>) = pinv nl C p"
  "pinv nl C (p\<lparr>rf := v12\<rparr>) = pinv nl C p"
  "pinv nl C (p\<lparr>ip4h := v13\<rparr>) = pinv nl C p"
  "pinv nl C (p\<lparr>ip6h := v14\<rparr>) = pinv nl C p"
  "pinv nl C (p\<lparr>family := v15\<rparr>) = pinv nl C p"
  "pinv nl C (p\<lparr>encapsulated := v16\<rparr>) = pinv nl C p"
  "pinv nl C (p\<lparr>GTPencapsulated := v17\<rparr>) = pinv nl C p"
  "pinv nl C (p\<lparr>unsure_encap := v18\<rparr>) = pinv nl C p"
  "pinv nl C (p\<lparr>ignore_port := v19\<rparr>) = pinv nl C p"
  "pinv nl C (p\<lparr>bit_teredo := v20\<rparr>) = pinv nl C p"
  "pinv nl C (p\<lparr>bit_gtp := v21\<rparr>) = pinv nl C p"
  "pinv nl C (p\<lparr>proto_bits := v22\<rparr>) = pinv nl C p"
  "pinv nl C (p\<lparr>error_flags := v23\<rparr>) = pinv nl C p"
  "pinv nl C (p\<lparr>sp := v24\<rparr>) = pinv nl C p"
  "pinv nl C (p\<lparr>dp := v25\<rparr>) = pinv nl C p"
  "pinv nl C (p\<lparr>orig_sp := v26\<rparr>) = pinv nl C p"
  "pinv nl C (p\<lparr>orig_dp := v27\<rparr>) = pinv nl C p"
  "pinv nl C (p\<lparr>dec_events := v28\<rparr>) = pinv nl C p"
  by (simp_all add: pinv_def pkt_wf_def)

lemma pinv_updates [simp]:
  "pinv nl C p \<Longrightarrow> pinv nl C (p\<lparr>iph := v\<rparr>) = within C 20 v"
  "pinv nl C p \<Longrightarrow> pinv nl C (p\<lparr>inner_iph := v\<rparr>) = within C 20 v"
  "pinv nl C p \<Longrightarrow> pinv nl C (p\<lparr>outer_iph := v\<rparr>) = within C 20 v"
  "pinv nl C p \<Longrightarrow> pinv nl C (p\<lparr>orig_iph := v\<rparr>) = within C 20 v"
  "pinv nl C p \<Longrightarrow> pinv nl C (p\<lparr>tcph := v\<rparr>) = within C 20 v"
  "pinv nl C p \<Longrightarrow> pinv nl C (p\<lparr>orig_tcph := v\<rparr>) = within C 4 v"
  "pinv nl C p \<Longrightarrow> pinv nl C (p\<lparr>udph := v\<rparr>) = within C 8 v"
  "pinv nl C p \<Longrightarrow> pinv nl C (p\<lparr>inner_udph := v\<rparr>) = within C 8 v"
  "pinv nl C p \<Longrightarrow> pinv nl C (p\<lparr>outer_udph := v\<rparr>) = within C 8 v"
  "pinv nl C p \<Longrightarrow> pinv nl C (p\<lparr>orig_udph := v\<rparr>) = within C 4 v"
  "pinv nl C p \<Longrightarrow> pinv nl C (p\<lparr>icmph := v\<rparr>) = within C 4 v"
  "pinv nl C p \<Longrightarrow> pinv nl C (p\<lparr>icmp6h := v\<rparr>) = within C 4 v"
  "pinv nl C p \<Longrightarrow> pinv nl C (p\<lparr>orig_icmph := v\<rparr>) = within C 0 v"
  "pinv nl C p \<Longrightarrow> pinv nl C (p\<lparr>data := v\<rparr>) = within C 0 v"
  "pinv nl C p \<Longrightarrow> pinv nl C (p\<lparr>ip_data := v\<rparr>) = within C 0 v"
  "pinv nl C p \<Longrightarrow> pinv nl C (p\<lparr>outer_ip_data := v\<rparr>) = within C 0 v"
  "pinv nl C p \<Longrightarrow> pinv nl C (p\<lparr>ip_frag_start := v\<rparr>) = within C 0 v"
  "pinv nl C p \<Longrightarrow> pinv nl C (p\<lparr>mpls := v\<rparr>) = within C 4 v"
  "pinv nl C p \<Longrightarrow> pinv nl C (p\<lparr>vh := v\<rparr>) = within C 4 v"
  "pinv nl C p \<Longrightarrow> pinv nl C (p\<lparr>ehllc := v\<rparr>) = within C 2 v"
  "pinv nl C p \<Longrightarrow> pinv nl C (p\<lparr>ehllcother := v\<rparr>) = within C 6 v"
  "pinv nl C p \<Longrightarrow> pinv nl C (p\<lparr>pppoeh := v\<rparr>) = within C 6 v"
  "pinv nl C p \<Longrightarrow> pinv nl C (p\<lparr>greh := v\<rparr>) = within C 4 v"
  "pinv nl C p \<Longrightarrow> pinv nl C (p\<lparr>eh := Some e\<rparr>) = (e + 14 \<le> C)"
  by (auto simp: pinv_def pkt_wf_def)

lemma fam_updates [simp]:
  "fam (p\<lparr>pkt_mem := v0\<rparr>) = fam p"
  "fam (p\<lparr>caplen := v1\<rparr>) = fam p"
  "fam (p\<lparr>eh := v2\<rparr>) = fam p"
  "fam (p\<lparr>vh := v3\<rparr>) = fam p"
  "fam (p\<lparr>ehllc := v4\<rparr>) = fam p"
  "fam (p\<lparr>ehllcother := v5\<rparr>) = fam p"
  "fam (p\<lparr>pppoeh := v6\<rparr>) = fam p"
  "fam (p\<lparr>ah := v7\<rparr>) = fam p"
  "fam (p\<lparr>greh := v8\<rparr>) = fam p"
  "fam (p\<lparr>mpls := v9\<rparr>) = fam p"
  "fam (p\<lparr>mplsHdr := v10\<rparr>) = fam p"
  "fam (p\<lparr>inner_iph := v11\<rparr>) = fam p"
  "fam (p\<lparr>outer_iph := v12\<rparr>) = fam p"
  "fam (p\<lparr>orig_iph := v13\<rparr>) = fam p"
  "fam (p\<lparr>tcph := v14\<rparr>) = fam p"
  "fam (p\<lparr>orig_tcph := v15\<rparr>) = fam p"
  "fam (p\<lparr>udph := v16\<rparr>) = fam p"
  "fam (p\<lparr>inner_udph := v17\<rparr>) = fam p"
  "fam (p\<lparr>outer_udph := v18\<rparr>) = fam p"
  "fam (p\<lparr>orig_udph := v19\<rparr>) = fam p"
  "fam (p\<lparr>icmph := v20\<rparr>) = fam p"
  "fam (p\<lparr>icmp6h := v21\<rparr>) = fam p"
  "fam (p\<lparr>orig_icmph := v22\<rparr>) = fam p"
  "fam (p\<lparr>data := v23\<rparr>) = fam p"
  "fam (p\<lparr>dsize := v24\<rparr>) = fam p"
  "fam (p\<lparr>ip_data := v25\<rparr>) = fam p"
  "fam (p\<lparr>ip_dsize := v26\<rparr>) = fam p"
  "fam (p\<lparr>outer_ip_data := v27\<rparr>) = fam p"
  "fam (p\<lparr>outer_ip_dsize := v28\<rparr>) = fam p"
  "fam (p\<lparr>actual_ip_len := v29\<rparr>) = fam p"
  "fam (p\<lparr>ip_frag_start := v30\<rparr>) = fam p"
  "fam (p\<lparr>ip_frag_len := v31\<rparr>) = fam p"
  "fam (p\<lparr>frag_flag := v32\<rparr>) = fam p"
  "fam (p\<lparr>frag_offset := v33\<rparr>) = fam p"
  "fam (p\<lparr>mf := v34\<rparr>) = fam p"
  "fam (p\<lparr>df := v35\<rparr>) = fam p"
  "fam (p\<lparr>rf := v36\<rparr>) = fam p"
  "fam (p\<lparr>ip_options_data := v37\<rparr>) = fam p"
  "fam (p\<lparr>ip_options_len := v38\<rparr>) = fam p"
  "fam (p\<lparr>ip_options := v39\<rparr>) = fam p"
  "fam (p\<lparr>ip_option_count := v40\<rparr>) = fam p"
  "fam (p\<lparr>tcp_options_data := v41\<rparr>) = fam p"
  "fam (p\<lparr>tcp_options_len := v42\<rparr>) = fam p"
  "fam (p\<lparr>tcp_options := v43\<rparr>) = fam p"
  "fam (p\<lparr>tcp_option_count := v44\<rparr>) = fam p"
  "fam (p\<lparr>ip6_extensions := v45\<rparr>) = fam p"
  "fam (p\<lparr>ip6_extension_count := v46\<rparr>) = fam p"
  "fam (p\<lparr>ip6_frag_index := v47\<rparr>) = fam p"
  "fam (p\<lparr>encapsulated := v48\<rparr>) = fam p"
  "fam (p\<lparr>GTPencapsulated := v49\<rparr>) = fam p"
  "fam (p\<lparr>unsure_encap := v50\<rparr>) = fam p"
  "fam (p\<lparr>ignore_port := v51\<rparr>) = fam p"
  "fam (p\<lparr>bit_teredo := v52\<rparr>) = fam p"
  "fam (p\<lparr>bit_gtp := v53\<rparr>) = fam p"
  "fam (p\<lparr>proto_bits := v54\<rparr>) = fam p"
  "fam (p\<lparr>error_flags := v55\<rparr>) = fam p"
  "fam (p\<lparr>sp := v56\<rparr>) = fam p"
  "fam (p\<lparr>dp := v57\<rparr>) = fam p"
  "fam (p\<lparr>orig_sp := v58\<rparr>) = fam p"
  "fam (p\<lparr>orig_dp := v59\<rparr>) = fam p"
  "fam (p\<lparr>layers := v60\<rparr>) = fam p"
  "fam (p\<lparr>dec_events := v61\<rparr>) = fam p"
  by (simp_all add: fam_def)

lemma pinv_DecoderEvent [simp]: "pinv nl C (DecoderEvent cf ev p) = pinv nl C p"
  by (simp add: DecoderEvent_def)

lemma pinv_DecoderEventDrop [simp]: "pinv nl C (DecoderEventDrop cf ev b p) = pinv nl C p"
  by (simp add: DecoderEventDrop_def)

lemma pinv_event_if [simp]: "pinv nl C (event_if cf ev b p) = pinv nl C p"
  by (simp add: event_if_def)

lemma fam_DecoderEvent [simp]: "fam (DecoderEvent cf ev p) = fam p"
  by (simp add: DecoderEvent_def)

lemma fam_DecoderEventDrop [simp]: "fam (DecoderEventDrop cf ev b p) = fam p"
  by (simp add: DecoderEventDrop_def)

lemma fam_event_if [simp]: "fam (event_if cf ev b p) = fam p"
  by (simp add: event_if_def)

lemma DecoderEvent_fields [simp]:
  "ip_option_count (DecoderEvent cf ev p) = ip_option_count p" "ip_options (DecoderEvent cf ev p) = ip_options p"
  "tcp_options (DecoderEvent cf ev p) = tcp_options p" "dsize (DecoderEvent cf ev p) = dsize p"
  "ip6h (DecoderEvent cf ev p) = ip6h p" "family (DecoderEvent cf ev p) = family p"
  "caplen (DecoderEvent cf ev p) = caplen p" "ip6_extension_count (DecoderEvent cf ev p) = ip6_extension_count p"
  by (simp_all add: DecoderEvent_def)

lemma event_if_fields [simp]:
  "ip_option_count (event_if cf ev b p) = ip_option_count p" "ip_options (event_if cf ev b p) = ip_options p"
  "dsize (event_if cf ev b p) = dsize p" "ip6h (event_if cf ev b p) = ip6h p" "caplen (event_if cf ev b p) = caplen p"
  by (simp_all add: event_if_def)

lemma pinv_add [simp]: "pinv nl C (add_bits b p) = pinv nl C p" "pinv nl C (add_error e p) = pinv nl C p"
  by (simp_all add: add_bits_def add_error_def)

lemma fam_add [simp]: "fam (add_bits b p) = fam p" "fam (add_error e p) = fam p"
  by (simp_all add: add_bits_def add_error_def)

lemma pinv_PushLayer [simp]:
  "pinv nl C p \<Longrightarrow> t = PROTO_IP6_HOP_OPTS \<or> t = PROTO_IP6_DST_OPTS \<or> off + n \<le> C \<Longrightarrow> pinv nl C (PushLayer t off n p)"
  using mod_less_eq_dividend [of n 65536] by (auto simp: pinv_def pkt_wf_def PushLayer_def layer_ok_def)

lemma PushLayer_fields [simp]:
  "dsize (PushLayer t off n p) = dsize p" "ip6h (PushLayer t off n p) = ip6h p" "fam (PushLayer t off n p) = fam p"
  "ip_options_len (PushLayer t off n p) = ip_options_len p" "encapsulated (PushLayer t off n p) = encapsulated p"
  "sp (PushLayer t off n p) = sp p" "dp (PushLayer t off n p) = dp p"
  by (simp_all add: PushLayer_def)

lemma pinv_alert_encapsulated [simp]: "pinv nl C p \<Longrightarrow> off \<le> C \<Longrightarrow> pinv nl C (DecoderAlertEncapsulated cf ev off n p)"
  by (simp add: DecoderAlertEncapsulated_def)

section \<open>Options\<close>

lemma ok_OptLenValidate:
  assumes "i < o_len"
    and "\<And>code. code < 0 \<Longrightarrow> ok_res nl Q (k code opt 0)"
    and "\<And>l. 2 \<le> l \<Longrightarrow> i + l \<le> o_len \<Longrightarrow> (1 < expected \<longrightarrow> int l = expected) \<Longrightarrow>
          ok_res nl Q (k 0 (opt\<lparr>op_len := l - 2, op_data := (if l = 2 then None else Some (start + i + 2))\<rparr>) l)"
  shows "ok_res nl Q (OptLenValidate s p start o_len i expected opt k)"
proof -
  have bad: "ok_res nl Q (k TCP_OPT_TRUNC opt 0)" "ok_res nl Q (k TCP_OPT_BADLEN opt 0)"
    using assms(2) by simp_all
  show ?thesis
    unfolding OptLenValidate_def Let_def
    apply (rule ok_if [OF bad(1)])
    apply (rule ok_rd8)
     apply simp
    subgoal premises prems for l
    proof -
      have e: "(l = 2) = (unat l = 2)" "\<not> l < 2 \<Longrightarrow> 2 \<le> unat l"
        by (simp_all add: word_unat_eq_iff word_less_nat_alt)
      show ?thesis
        unfolding e(1)
        apply (rule ok_if [OF bad(2)])
        apply (rule ok_if)
         apply (rule ok_if [OF bad(1)])
         apply (rule ok_if [OF bad(2)])
         apply (rule assms(3); linarith)
        apply (rule ok_if [OF bad(2)])
        apply (rule ok_if [OF bad(1)])
        apply (rule assms(3); insert e(2); simp)
        done
    qed
    done
qed

lemma opt_okI: "i + l \<le> o_len \<Longrightarrow> start + o_len \<le> C \<Longrightarrow> 2 \<le> l \<Longrightarrow>
    opt_ok C (opt\<lparr>op_len := l - 2, op_data := (if l = 2 then None else Some (start + i + 2))\<rparr>)"
  by (cases "l = 2") (simp_all add: opt_ok_def)

text \<open>Packets whose first \<open>n\<close> TCP options are good, whatever their count says.\<close>

definition tinv :: "bool \<Rightarrow> nat \<Rightarrow> nat \<Rightarrow> Packet \<Rightarrow> bool" where
  "tinv nl C n p = pinv nl C (p\<lparr>tcp_option_count := n\<rparr>)"

lemma tinv_set: "tinv nl C n p \<Longrightarrow> n < 40 \<Longrightarrow> opt_ok C opt \<Longrightarrow> tinv nl C (Suc n) (set_tcp_opt n opt p)"
  by (auto simp: tinv_def set_tcp_opt_def pinv_def pkt_wf_def less_Suc_eq)

lemma tinv_same: "tinv nl C n p \<Longrightarrow> tinv nl C n (set_tcp_opt n opt p)"
  by (auto simp: tinv_def set_tcp_opt_def pinv_def pkt_wf_def)

lemma tinv_event [simp]: "tinv nl C n (DecoderEvent cf ev p) = tinv nl C n p"
  by (simp add: tinv_def DecoderEvent_def pinv_def pkt_wf_def)

lemma tinv_if [simp]: "tinv nl C n (if b then p else q) = (if b then tinv nl C n p else tinv nl C n q)"
  by simp

lemma tinv_start: "pinv nl C p \<Longrightarrow> tinv nl C 0 p"
  by (simp add: tinv_def pinv_def pkt_wf_def)

lemma tinv_done: "tinv nl C n p \<Longrightarrow> pinv nl C (tcp_opts_done cf n found p)"
  by (simp add: tcp_opts_done_def Let_def tinv_def)

lemma tinv_bad: "tinv nl C n p \<Longrightarrow> pinv nl C (tcp_opt_bad cf code n p)"
  unfolding tcp_opt_bad_def Let_def by (simp add: tinv_def DecoderEvent_def pinv_def pkt_wf_def)

lemma tinv_caplen: "tinv nl C n p \<Longrightarrow> caplen p = C"
  by (simp add: tinv_def pinv_def pkt_wf_def)

lemma ok_tcp_opt_loop:
  "tinv nl C n p \<Longrightarrow> start + o_len \<le> C \<Longrightarrow> n + room \<le> 40 \<Longrightarrow> ok_res nl (pinv nl C) (tcp_opt_loop cf room start o_len i n found p)"
proof (induction room arbitrary: i n found p)
  case 0
  then show ?case by (simp add: tinv_done)
next
  case (Suc room)
  have nxt: "tinv nl C (Suc n) q \<Longrightarrow> ok_res nl (pinv nl C) (tcp_opt_loop cf room start o_len j (Suc n) fd q)" for q j fd
    using Suc.IH [of "Suc n" q] Suc.prems by simp
  show ?case
    apply (subst tcp_opt_loop.simps, unfold Let_def)
    apply (rule ok_if)
     apply (simp add: tinv_done [OF Suc.prems(1)])
    apply (rule ok_rd8)
     apply simp
    subgoal for c
      apply (rule ok_if)
      subgoal
        using tinv_set [OF Suc.prems(1), of "(tcp_options p n)\<lparr>op_code := c, op_len := 0, op_data := None\<rparr>"] Suc.prems
        by (auto intro!: wp tinv_done nxt simp: opt_ok_def)
      apply (split prod.split, intro allI impI)
      subgoal for expected cls
        apply (rule ok_OptLenValidate, simp)
        subgoal using tinv_same [OF Suc.prems(1)] by (simp add: tinv_bad)
        subgoal premises prems for l
        proof -
          let ?opt = "(tcp_options p n)\<lparr>op_code := c, op_len := l - 2, op_data := (if l = 2 then None else Some (start + i + 2))\<rparr>"
          have t: "tinv nl C (Suc n) (set_tcp_opt n ?opt p)"
            using tinv_set [OF Suc.prems(1)] opt_okI [of i l o_len start C] prems Suc.prems by simp
          have w: "c = TCPOPT_WSCALE \<Longrightarrow> l = 3" using prems by (auto simp: tcp_opt_class_def)
          have b: "tinv nl C n (set_tcp_opt n ?opt p)" by (rule tinv_same [OF Suc.prems(1)])
          show ?thesis
            apply (rule ok_if)
             apply (rule ok_Inr_wp, rule tinv_bad, rule b)
            apply (rule ok_if)
             apply (rule ok_deref)
              apply (simp add: w)
             apply (rule ok_rd8)
            using w tinv_caplen [OF t] prems Suc.prems(2) apply auto[1]
            using nxt t apply simp_all
            done
        qed
        done
      done
    done
qed

lemma ok_DecodeTCPOptions: "pinv nl C p \<Longrightarrow> start + o_len \<le> C \<Longrightarrow> ok_res nl (pinv nl C) (DecodeTCPOptions cf start o_len p)"
  unfolding DecodeTCPOptions_def by (auto intro!: wp ok_tcp_opt_loop tinv_start)

lemma pinv_set_ip_opt:
  "pinv nl C p \<Longrightarrow> opt_ok C opt \<or> (op_len opt = op_len (ip_options p n) \<and> op_data opt = op_data (ip_options p n)) \<Longrightarrow>
   pinv nl C (set_ip_opt n opt p)"
  by (auto simp: set_ip_opt_def pinv_def pkt_wf_def opt_ok_def)

lemma set_ip_opt_le: "(\<forall>j<n. opt_ok C (ip_options p j)) \<Longrightarrow> opt_ok C opt \<Longrightarrow>
    \<forall>j<(if b then n else n + 1). opt_ok C (ip_options (set_ip_opt n opt p) j)"
  by (auto simp: set_ip_opt_def less_Suc_eq)

lemma pinv_ip_count: "pinv nl C p \<Longrightarrow> n \<le> 40 \<Longrightarrow> \<forall>j<n. opt_ok C (ip_options p j) \<Longrightarrow> pinv nl C (p\<lparr>ip_option_count := n\<rparr>)"
  by (simp add: pinv_def pkt_wf_def)

lemma ok_ip_opt_loop:
  "pinv nl C p \<Longrightarrow> start + o_len \<le> C \<Longrightarrow> n \<le> 40 \<Longrightarrow> \<forall>j<n. opt_ok C (ip_options p j) \<Longrightarrow> o_len \<le> i + fuel \<Longrightarrow>
   fam p \<Longrightarrow> ok_res nl (\<lambda>p. pinv nl C p \<and> fam p) (ip_opt_loop cf fuel start o_len i n fin p)"
proof (induction fuel arbitrary: i n fin p)
  case 0
  then show ?case by (simp add: pinv_ip_count)
next
  case (Suc fuel)
  have step: "ok_res nl (\<lambda>p. pinv nl C p \<and> fam p) (ip_opt_loop cf fuel start o_len (i + l) (if fin' then n else n + 1) fin' (set_ip_opt n opt p))"
    if "opt_ok C opt" "1 \<le> l" "n < 40" for opt fin' l
    using that Suc.prems set_ip_opt_le [OF Suc.prems(4) that(1), of fin']
    by (intro Suc.IH) (auto simp: pinv_set_ip_opt, simp add: set_ip_opt_def)
  have keep: "pinv nl C (set_ip_opt n ((ip_options p n)\<lparr>op_code := c\<rparr>) p)" for c
    using Suc.prems(1) by (simp add: pinv_set_ip_opt)
  have keep': "fam (set_ip_opt n opt p)" for opt
    using Suc.prems by (simp add: set_ip_opt_def)
  show ?case
    apply (subst ip_opt_loop.simps, unfold Let_def nat.case)
    apply (rule ok_if)
     apply (simp add: pinv_ip_count Suc.prems)
    apply (rule ok_rd8)
     apply simp
    subgoal for c
      apply (rule ok_if)
       apply (rule step)
         apply (simp_all add: opt_ok_def)[3]
      apply (rule ok_OptLenValidate)
        apply simp
       apply (simp add: keep keep')
      subgoal for l
        using step [of "(ip_options p n)\<lparr>op_code := c, op_len := l - 2, op_data := (if l = 2 then None else Some (start + i + 2))\<rparr>" l fin]
          opt_okI [of i l o_len start C] Suc.prems
        by simp
      done
    done
qed

lemma ok_DecodeIPOptions:
  "pinv nl C p \<Longrightarrow> fam p \<Longrightarrow> start + o_len \<le> C \<Longrightarrow> ok_res nl (\<lambda>p. pinv nl C p \<and> fam p) (DecodeIPOptions cf start o_len p)"
  unfolding DecodeIPOptions_def by (rule ok_ip_opt_loop) simp_all

section \<open>Reads through the packet\<close>

lemma ok_let_pinv [wp]:
  "pinv nl C e \<Longrightarrow> fam e \<Longrightarrow> (\<And>q. pinv nl C q \<Longrightarrow> fam q \<Longrightarrow> ok_res nl Q (f q)) \<Longrightarrow> ok_res nl Q (let q = e in f q)"
  by simp

lemma ok_GET_IPH_PROTO [wp]: "fam p \<Longrightarrow> (\<And>v. ok_res nl Q (k v)) \<Longrightarrow> ok_res nl Q (GET_IPH_PROTO s p k)"
  unfolding GET_IPH_PROTO_def by (rule fam_cases; auto intro!: wp)

lemma ok_GET_IPH_LEN [wp]: "fam p \<Longrightarrow> (\<And>v. ok_res nl Q (k v)) \<Longrightarrow> ok_res nl Q (GET_IPH_LEN s p k)"
  unfolding GET_IPH_LEN_def by (rule fam_cases; auto intro!: wp)

lemma ok_GET_DST_IP [wp]: "fam p \<Longrightarrow> (\<And>v. ok_res nl Q (k v)) \<Longrightarrow> ok_res nl Q (GET_DST_IP s p k)"
  unfolding GET_DST_IP_def by (rule fam_cases; auto intro!: wp)

lemma ok_GET_IPH_HLEN [wp]:
  "fam p \<Longrightarrow> pinv nl C p \<Longrightarrow> (\<And>v. ok_res nl Q (k v)) \<Longrightarrow> ok_res nl Q (GET_IPH_HLEN s p k)"
  unfolding GET_IPH_HLEN_def by (rule fam_cases, assumption; auto intro!: wp simp: pinv_def pkt_wf_def)

lemma ok_GET_IPH_ID [wp]:
  "fam p \<Longrightarrow> pinv nl C p \<Longrightarrow> (\<And>v. ok_res nl Q (k v)) \<Longrightarrow> ok_res nl Q (GET_IPH_ID s p k)"
  unfolding GET_IPH_ID_def by (rule fam_cases, assumption; fastforce intro!: wp simp: pinv_def pkt_wf_def)

lemma ok_pseudo_header [wp]: "fam p \<Longrightarrow> (\<And>v. ok_res nl Q (k v)) \<Longrightarrow> ok_res nl Q (pseudo_header s n p k)"
  unfolding pseudo_header_def by (rule fam_cases; auto intro!: wp)

lemma ok_icmp_seq [wp]:
  "(b \<Longrightarrow> s \<in> unsafe_sites \<or> 8 \<le> len) \<Longrightarrow> (\<And>v. ok_res nl Q (k v)) \<Longrightarrow> ok_res nl Q (icmp_seq b s off len p k)"
  unfolding icmp_seq_def by (auto intro!: wp)

section \<open>Tests and the transport layer\<close>

abbreviation (input) both :: "bool \<Rightarrow> nat \<Rightarrow> Packet \<Rightarrow> bool" where
  "both nl C p \<equiv> pinv nl C p \<and> fam p"

lemma ok_IP4AddrTests: "pinv nl C p \<Longrightarrow> fam p \<Longrightarrow> 20 \<le> len \<Longrightarrow> ok_res nl (both nl C) (IP4AddrTests cf off len p)"
  unfolding IP4AddrTests_def Let_def by (auto intro!: wp)

lemma ok_ICMP4AddrTests: "pinv nl C p \<Longrightarrow> fam p \<Longrightarrow> ok_res nl (both nl C) (ICMP4AddrTests cf p)"
  unfolding ICMP4AddrTests_def by (auto intro!: wp)

lemma ok_dos_option: "pinv nl C p \<Longrightarrow> fam p \<Longrightarrow> opt_ok C opt \<Longrightarrow>
    ok_res nl (\<lambda>q. both nl C q \<and> ip_options q = ip_options p \<and> ip_option_count q = ip_option_count p) (dos_option cf opt p)"
  unfolding dos_option_def Let_def using pinv_caplen [of nl C p]
  by (cases "op_data opt") (auto intro!: wp simp: opt_ok_def split: if_splits)

lemma ok_dos_options: "pinv nl C p \<Longrightarrow> fam p \<Longrightarrow> \<forall>i\<in>set is. i < ip_option_count p \<Longrightarrow> ok_res nl (both nl C) (dos_options cf is p)"
proof (induction "is" arbitrary: p)
  case (Cons i "is")
  have "opt_ok C (ip_options p i)"
    using Cons.prems by (simp add: pinv_def pkt_wf_def)
  from ok_dos_option [OF Cons.prems(1,2) this, of cf] show ?case
    unfolding dos_options.simps by (rule ok_rbind) (use Cons in auto)
qed simp

lemma ok_IPMiscTests: "pinv nl C p \<Longrightarrow> fam p \<Longrightarrow> ok_res nl (both nl C) (IPMiscTests cf p)"
  unfolding IPMiscTests_def
  by (rule ok_rbind [where R = "both nl C"]) (auto intro!: wp ok_dos_options)

lemma pinv_fold: "pinv nl C (fold (\<lambda>i. event_if cf ev (P i)) is p) = pinv nl C p"
  by (induction "is" arbitrary: p) simp_all

lemma dsize_fold: "dsize (fold (\<lambda>i. event_if cf ev (P i)) is p) = dsize p"
  by (induction "is" arbitrary: p) simp_all

lemma ok_ICMP4MiscTests:
  assumes "pinv nl C p" "2 \<le> len" "dsize p = 4 \<Longrightarrow> 8 \<le> len"
  shows "ok_res nl (pinv nl C) (ICMP4MiscTests cf off len p)"
  using assms unfolding ICMP4MiscTests_def Let_def
  apply -
  apply (rule ok_rd8, simp)+
  apply (rule ok_icmp_seq, simp add: unsafe_sites_def)
  apply (rule ok_icmp_seq)
   apply (simp add: dsize_fold split: if_splits)
  apply (simp add: pinv_fold)
  done

lemma ok_tcp_checksum:
  assumes "pinv nl C p" "fam p" "\<And>q. pinv nl C q \<Longrightarrow> fam q \<Longrightarrow> ok_res nl (pinv nl C) (k q)"
  shows "ok_res nl (pinv nl C) (tcp_checksum cf off len p k)"
  unfolding tcp_checksum_def using assms by (auto intro!: wp)

lemma ok_tcp_flag_events: "pinv nl C p \<Longrightarrow> fam p \<Longrightarrow> ok_res nl (both nl C) (tcp_flag_events cf fl seq p)"
  unfolding tcp_flag_events_def
  apply (rule ok_let_pinv [where C=C], simp, simp)
  apply (rule ok_rbind [where R = "both nl C"])
   apply (rule ok_if)
    apply (rule ok_rbind [where R = "both nl C"])
     apply (auto intro!: wp)[1]
    apply (rule ok_rbind [where R = "both nl C"])
  by (auto intro!: wp)

lemma pinv_TCPMiscTests [simp]: "pinv nl C (TCPMiscTests cf fl s p) = pinv nl C p"
  by (simp add: TCPMiscTests_def)

lemma pinv_tcp_options: "pinv nl C p \<Longrightarrow> d + n \<le> C \<Longrightarrow> pinv nl C (p\<lparr>tcp_options_len := n, tcp_options_data := Some d\<rparr>)"
  by (simp add: pinv_def pkt_wf_def)

lemma pinv_tcp_no_options: "pinv nl C p \<Longrightarrow> pinv nl C (p\<lparr>tcp_options_len := 0, tcp_option_count := 0\<rparr>)"
  by (cases "tcp_options_data p") (auto simp: pinv_def pkt_wf_def)

lemma ok_DecodeTCP:
  assumes "pinv nl C p" "fam p" "off + len \<le> C"
  shows "ok_res nl (pinv nl C) (DecodeTCP cf off len p)"
proof -
  show ?thesis
    using assms unfolding DecodeTCP_def
    apply -
    apply (rule ok_if, simp)
    apply (rule ok_let_pinv [where C=C], simp, simp)
    apply (rule ok_rd8, simp)
    apply (rule ok_let)
    apply (rule ok_if, simp)+
    apply (rule ok_tcp_checksum, simp, simp)
    apply (rule ok_rd8, simp)
    apply (rule ok_rdbytes, simp)
    apply (rule ok_rbind, rule ok_tcp_flag_events, simp, simp)
    apply (rule ok_rd16, simp)+
    apply (rule ok_let_pinv [where C=C], simp, simp)
    apply (rule ok_let)
    apply (rule ok_rbind [where R = "pinv nl C"])
     apply (simp add: pinv_tcp_no_options pinv_tcp_options ok_DecodeTCPOptions)
    apply (rule ok_let)
    apply (rule ok_rd16, simp)
    apply (unfold Let_def)
    apply (rule ok_if, simp)
    apply (rule ok_rd32, simp, simp)
    done
qed

section \<open>The depth of the calls\<close>

text \<open>
  Every decoder calls the next one on a shorter window, except that the IPv6 extension decoder passes
  its whole window on, and Teredo goes to IPv6 with all it has.
\<close>

fun rank :: "decoder \<Rightarrow> nat \<Rightarrow> nat" where
  "rank (D_IP6EXT nxt) len = 3 * len + 2"
| "rank (D_IP6OPT ty) len = 3 * len + 1"
| "rank D_TEREDO len = 3 * len + 1"
| "rank d len = 3 * len"

fun pre :: "decoder \<Rightarrow> Packet \<Rightarrow> bool" where
  "pre (D_IP6EXT nxt) p = (fam p \<and> ip6h p \<noteq> None)"
| "pre (D_IP6OPT ty) p = (fam p \<and> ip6h p \<noteq> None)"
| "pre D_UDP p = fam p"
| "pre D_ESP p = fam p"
| "pre d p = True"

definition rec_ok :: "bool \<Rightarrow> nat \<Rightarrow> nat \<Rightarrow> decode_rec \<Rightarrow> bool" where
  "rec_ok nl C N rec = (\<forall>d off len p. rank d len < N \<and> off + len \<le> C \<and> pinv nl C p \<and> pre d p \<longrightarrow> ok_res nl (pinv nl C) (rec d off len p))"

lemma ok_rec:
  "rec_ok nl C N rec \<Longrightarrow> rank d len < N \<Longrightarrow> off + len \<le> C \<Longrightarrow> pinv nl C p \<Longrightarrow> pre d p \<Longrightarrow> ok_res nl (pinv nl C) (rec d off len p)"
  by (simp add: rec_ok_def)

lemma ok_let_inv: "pinv nl C e \<Longrightarrow> (\<And>q. pinv nl C q \<Longrightarrow> ok_res nl Q (f q)) \<Longrightarrow> ok_res nl Q (let q = e in f q)"
  by simp

lemma ok_DecodeARP: "pinv nl C p \<Longrightarrow> off + len \<le> C \<Longrightarrow> ok_res nl (pinv nl C) (DecodeARP cf off len p)"
  unfolding DecodeARP_def Let_def by (auto intro!: wp)

section \<open>UDP, Teredo and GTP\<close>

lemma pinv_PopUdp [simp]: "pinv nl C p \<Longrightarrow> pinv nl C (PopUdp p)"
  unfolding PopUdp_def Let_def by (auto simp: pinv_def pkt_wf_def)

lemma pinv_UDPMiscTests [simp]: "pinv nl C (UDPMiscTests cf p) = pinv nl C p"
  by (simp add: UDPMiscTests_def)

lemma ok_udp_length:
  "fam p \<Longrightarrow> pinv nl C p \<Longrightarrow> 6 \<le> len \<Longrightarrow> (\<And>v. ok_res nl Q (k v)) \<Longrightarrow> ok_res nl Q (udp_length off len p k)"
  unfolding udp_length_def
  by (rule ok_if) (auto intro!: wp)

lemma ok_udp_checksum:
  assumes "pinv nl C p" "fam p" "8 \<le> len" "uhlen \<le> len" "\<And>q. pinv nl C q \<Longrightarrow> fam q \<Longrightarrow> ok_res nl (pinv nl C) (k q)"
  shows "ok_res nl (pinv nl C) (udp_checksum cf off len uhlen p k)"
  unfolding udp_checksum_def Let_def using assms by (auto intro!: wp)

lemma ok_DecodeUDP:
  assumes "rec_ok nl C N rec" "rank D_UDP len \<le> N" "off + len \<le> C" "pinv nl C p" "fam p"
  shows "ok_res nl (pinv nl C) (DecodeUDP rec cf off len p)"
  using assms unfolding DecodeUDP_def
  apply -
  apply (rule ok_let_pinv [where C=C])
    apply (auto simp: pinv_def pkt_wf_def)[1]
   apply simp
  apply (rule ok_if, simp)
  apply (rule ok_let_pinv [where C=C], simp, simp)
  apply (rule ok_udp_length, simp, simp, simp)
  apply (rule ok_if, simp)+
  apply (rule ok_udp_checksum, simp, simp, simp, simp)
  apply (rule ok_rd16, simp)+
  apply (rule ok_let_inv [where C=C], simp)
  apply (rule ok_let_inv [where C=C], simp)
  apply (rule ok_if, simp)
  apply (rule ok_let_inv [where C=C], simp)
  apply (rule ok_rbind [where R="pinv nl C"])
   apply (rule ok_if)
    apply (rule ok_rec, assumption)
       apply auto[4]
   apply simp
  apply (rule ok_if)
   apply (rule ok_rec, assumption)
      apply auto[4]
  apply simp
  done

lemma ok_teredo_origin:
  assumes "rec_ok nl C N rec" "3 * len < N" "off + len \<le> C" "pinv nl C p"
  shows "ok_res nl (pinv nl C) (teredo_origin rec cf off len p)"
proof -
  have inner: "ok_res nl (pinv nl C) (rd8 S_Teredo p d n 0 (\<lambda>v. if unat v div 16 = 6 then
        rbind (rec D_IPV6 d n (p\<lparr>bit_teredo := True, unsure_encap := u\<rparr>)) (\<lambda>p. Inr (p\<lparr>unsure_encap := False\<rparr>)) else Inr p))"
    if "n \<le> len" "d + n \<le> C" for d n u
    apply (rule ok_rd8, simp add: unsafe_sites_def)
    apply (rule ok_if)
     apply (rule ok_rbind [OF ok_rec [OF assms(1)]])
    using assms that by simp_all
  show ?thesis
    unfolding teredo_origin_def Let_def
    apply (rule ok_rd16, simp add: unsafe_sites_def)
    apply (rule ok_if)
     apply (rule ok_if)
      apply (simp add: assms)
     apply (rule inner)
    using assms(3) apply simp_all[2]
    apply (rule inner)
    using assms(3) apply simp_all
    done
qed

lemma ok_DecodeTeredo:
  assumes "rec_ok nl C N rec" "rank D_TEREDO len \<le> N" "off + len \<le> C" "pinv nl C p"
  shows "ok_res nl (pinv nl C) (DecodeTeredo rec cf off len p)"
  using assms unfolding DecodeTeredo_def Let_def
  by (auto intro!: wp ok_teredo_origin)

lemma ok_gtp_ext:
  assumes "ok_res nl Q (k None)" "\<And>h. 8 \<le> h \<Longrightarrow> h \<le> len \<Longrightarrow> ok_res nl Q (k (Some h))"
  shows "8 \<le> header_len \<Longrightarrow> header_len \<le> len \<Longrightarrow> len < header_len + fuel \<Longrightarrow> ok_res nl Q (gtp_ext fuel off len p header_len k)"
proof (induction fuel arbitrary: header_len)
  case (Suc fuel)
  show ?case
    apply (subst gtp_ext.simps)
    apply (rule ok_rd8)
    subgoal using Suc.prems by (intro disjI2) linarith
    apply (rule ok_if)
     apply (rule assms(2); rule Suc.prems)
    apply (unfold nat.case)
    apply (rule ok_if, rule assms)
    apply (rule ok_rd8, simp)
    apply (rule ok_if, rule assms)
    apply (unfold Let_def)
    apply (rule ok_if, rule assms)
    subgoal for v w
      using Suc.prems unat_gt_0 [of w] by (intro Suc.IH) auto
    done
qed simp

lemma ok_DecodeGTP:
  assumes "rec_ok nl C N rec" "rank D_GTP len \<le> N" "off + len \<le> C" "pinv nl C p"
  shows "ok_res nl (pinv nl C) (DecodeGTP rec cf off len p)"
proof -
  have inner: "ok_res nl (pinv nl C) (let q = PushLayer PROTO_GTP off h q; l = len - h in
      if l > 0 then rd8 S_GTP q off len h (\<lambda>v.
         rbind (if v AND 0xf0 = 0x40 then rec D_IP (off + h) l q else if v AND 0xf0 = 0x60 then rec D_IPV6 (off + h) l q else Inr q)
           (\<lambda>p. Inr (p\<lparr>unsure_encap := False\<rparr>)))
      else Inr q)" if "pinv nl C q" "8 \<le> h" "h \<le> len" for q h
    using that assms
    apply -
    apply (rule ok_let_inv [where C=C], simp)
    apply (rule ok_let)
    apply (rule ok_if)
     apply (rule ok_rd8, simp)
     apply (rule ok_rbind [where R="pinv nl C"])
      apply (rule ok_if)
       apply (rule ok_rec, assumption, simp, simp, simp, simp)
      apply (rule ok_if)
       apply (rule ok_rec, assumption, simp, simp, simp, simp)
      apply simp_all
    done
  show ?thesis
    using assms unfolding DecodeGTP_def Let_def
    apply -
    apply (rule ok_if, simp)
    apply (rule ok_if, simp)
    apply (rule ok_rd8, simp)+
    apply (rule ok_rd16, simp)
    apply (rule ok_if, simp)
    apply (rule ok_if)
     apply (rule ok_if, simp)
     apply (rule ok_if, simp)
     apply (rule inner [unfolded Let_def], simp, simp, simp)
    apply (rule ok_if)
     apply (rule ok_if)
      apply (rule ok_if, simp)
      apply (rule ok_gtp_ext)
          apply simp
         apply (unfold option.case)
         apply (rule ok_if, simp)
         apply (rule inner [unfolded Let_def], simp, simp, simp)
        apply simp_all[3]
     apply (rule ok_if, simp)
     apply (rule inner [unfolded Let_def], simp, simp, simp)
    apply simp
    done
qed

section \<open>ICMP\<close>

lemma pinv_set_orig_ports [simp]: "pinv nl C (set_orig_ports a b p) = pinv nl C p"
  by (simp add: set_orig_ports_def)

lemma ok_orig_transport:
  "pinv nl C p \<Longrightarrow> off + len \<le> C \<Longrightarrow> h \<le> len \<Longrightarrow> s \<in> unsafe_sites \<or> h + 4 \<le> len \<Longrightarrow>
   ok_res nl (pinv nl C) (orig_transport s proto off len h p)"
  unfolding orig_transport_def
  apply (rule ok_if)
   apply (rule ok_rd16, force)+
   apply simp
  apply simp
  done

lemma ok_DecodeICMPEmbeddedIP:
  assumes "pinv nl C p" "fam p" "off + len \<le> C"
  shows "ok_res nl (pinv nl C) (DecodeICMPEmbeddedIP cf off len p)"
  using assms unfolding DecodeICMPEmbeddedIP_def
  apply -
  apply (rule ok_if, simp)
  apply (rule ok_rd16, simp)
  apply (rule ok_rd8, simp)
  apply (rule ok_let_pinv [where C=C], simp, simp)
  apply (rule ok_if, simp)
  apply (rule ok_let)
  apply (rule ok_if, simp)
  apply (rule ok_rd16, simp)
  apply (rule ok_if)
   apply (rule ok_if, simp)
   apply (rule ok_GET_IPH_LEN, simp)
   apply (rule ok_let_inv [where C=C], simp)
   apply (rule ok_rd8, simp)
   apply (rule ok_orig_transport, simp, simp, simp, rule disjI2, linarith)
  apply simp
  done

lemma ip6h_add [simp]: "ip6h (add_error e p) = ip6h p"
  by (simp add: add_error_def)

lemma ok_icmp_checksum:
  assumes "pinv nl C p" "fam p" "\<And>q. pinv nl C q \<Longrightarrow> fam q \<Longrightarrow> ip6h q = ip6h p \<Longrightarrow> ok_res nl (pinv nl C) (k q)"
    and "\<And>ph. pinv nl C p \<Longrightarrow> fam p \<Longrightarrow> (\<And>v. ok_res nl (pinv nl C) (ph v)) \<Longrightarrow> ok_res nl (pinv nl C) (pseudo p ph)"
  shows "ok_res nl (pinv nl C) (icmp_checksum cf pseudo off len p k)"
  unfolding icmp_checksum_def
  apply (rule ok_if)
   apply (simp add: assms)
  apply (rule assms(4), simp_all add: assms(1,2))
  apply (rule ok_rdbytes, simp)
  apply (simp add: assms)
  done

lemma pinv_icmp_skip4 [simp]: "pinv nl C p \<Longrightarrow> off + 8 \<le> C \<Longrightarrow> pinv nl C (icmp_skip4 off p)"
  by (simp add: icmp_skip4_def)

lemma fam_icmp_skip4 [simp]: "fam (icmp_skip4 off p) = fam p"
  by (simp add: icmp_skip4_def)

lemma icmp_skip4_fields [simp]: "ip6h (icmp_skip4 off p) = ip6h p" "dsize (icmp_skip4 off p) = sub16 (dsize p) 4"
  by (simp_all add: icmp_skip4_def)

text \<open>The 16-bit size left after the eight bytes never exceeds what is left of the window.\<close>

lemma sub16_le: "8 \<le> len \<Longrightarrow> sub16 ((len - 4) mod 65536) 4 \<le> len - 8"
proof -
  assume l: "8 \<le> len"
  define m q where "m = (len - 4) mod 65536" and "q = (len - 4) div 65536"
  have split: "len - 4 = q * 65536 + m" and m: "m < 65536"
    by (simp_all add: m_def q_def)
  show ?thesis
  proof (cases "4 \<le> m")
    case True
    then obtain k where k: "m = k + 4" by (metis le_Suc_ex add.commute)
    have "sub16 m 4 = m - 4" using m by (simp add: sub16_def k)
    then show ?thesis unfolding m_def [symmetric] using split l True by linarith
  next
    case False
    then have "q \<noteq> 0" using split l by (cases q) simp_all
    then have "65536 \<le> q * 65536" by simp
    then show ?thesis using False split l by (simp add: sub16_def flip: m_def)
  qed
qed

lemma le_mod_window: "\<not> (len - 4) mod 65536 < n \<Longrightarrow> 0 < n \<Longrightarrow> n + 4 \<le> (len::nat)"
  using mod_less_eq_dividend [of "len - 4" 65536] by linarith

lemma ok_DecodeICMP:
  assumes "pinv nl C p" "fam p" "off + len \<le> C"
  shows "ok_res nl (pinv nl C) (DecodeICMP cf off len p)"
proof -
  define R where "R q = (pinv nl C q \<and> (dsize q = 4 \<longrightarrow> 8 \<le> len))" for q
  have body: "ok_res nl R
        (if ty = ICMP_ECHO \<or> ty = ICMP_ECHOREPLY then
           rbind (if ty = ICMP_ECHO then ICMP4AddrTests cf q else Inr q)
             (\<lambda>p. Inr (PushLayer PROTO_ICMP4 off 8 (icmp_skip4 off p)))
         else if ty \<in> {ICMP_DEST_UNREACH, ICMP_SOURCE_QUENCH, ICMP_REDIRECT, 11, 12} then
           rbind (if ty = ICMP_DEST_UNREACH \<and> code = 4
                  then rd16 S_ICMP q off len 6 (\<lambda>mtu. Inr (event_if cf DECODE_ICMP_PATH_MTU_DOS (mtu < 576) q))
                  else Inr q)
             (\<lambda>p. let p = PushLayer PROTO_ICMP4 off 8 (icmp_skip4 off p)
                 in DecodeICMPEmbeddedIP cf (off + 8) (dsize p) p)
         else Inr (PushLayer PROTO_ICMP4 off ICMP_HEADER_LEN q))"
    if q: "pinv nl C q" "fam q" "dsize q = (len - 4) mod 65536" and len: "4 \<le> len"
      and short: "(case icmp_min_len ty of None \<Rightarrow> None | Some (n, ev) \<Rightarrow> if len < n then Some ev else None) = None"
    for q ty code
  proof -
    have l8: "8 \<le> len" if "ty \<in> {0, 3, 4, 5, 8, 11, 12}"
      using short that by (auto simp: icmp_min_len_def split: if_splits)
    have "dsize q = 4 \<longrightarrow> 8 \<le> len"
      using q(3) mod_less_eq_dividend [of "len - 4" 65536] by linarith
    moreover have "ok_res nl (\<lambda>q. pinv nl C q \<and> fam q \<and> dsize q = (len - 4) mod 65536) (ICMP4AddrTests cf q)"
      unfolding ICMP4AddrTests_def using q by (auto intro!: wp)
    ultimately show ?thesis
      using q assms(3) len sub16_le [of len]
      apply -
      apply (rule ok_if)
       apply (rule ok_rbind [where R = "\<lambda>q. pinv nl C q \<and> fam q \<and> dsize q = (len - 4) mod 65536"])
        apply (rule ok_if, assumption, simp)
       subgoal using l8 by (auto simp: R_def)
      apply (rule ok_if)
       apply (rule ok_rbind [where R = "\<lambda>q. pinv nl C q \<and> fam q \<and> dsize q = (len - 4) mod 65536"])
        using l8 apply (auto intro!: wp)[1]
       subgoal premises prems for q'
       proof -
         have "8 \<le> len" using l8 prems by auto
         then show ?thesis
           unfolding Let_def using prems
           by (intro ok_weaken [OF ok_DecodeICMPEmbeddedIP [where C = C]]) (auto simp: R_def)
       qed
      apply (simp add: R_def)
      done
  qed
  show ?thesis
    using assms unfolding DecodeICMP_def
    apply -
    apply (rule ok_if, simp)
    apply (rule ok_rd8, simp)
    subgoal for ty
      unfolding Let_def
      apply (split option.split, intro conjI impI allI)
       prefer 2
       apply simp
      apply (rule ok_icmp_checksum, simp, simp)
       apply (rule ok_rd8, simp)
       apply (rule ok_rbind, rule body [unfolded Let_def], simp, simp, simp, simp, assumption)
       apply (rule ok_rbind [OF ok_ICMP4MiscTests])
          apply (simp_all add: R_def)
      done
    done
qed

lemma ok_DecodeICMPEmbeddedIP6:
  assumes "pinv nl C p" "off + len \<le> C"
  shows "ok_res nl (pinv nl C) (DecodeICMPEmbeddedIP6 cf off len p)"
  using assms unfolding DecodeICMPEmbeddedIP6_def
  apply -
  apply (rule ok_if, simp)
  apply (rule ok_rd8, simp)
  apply (rule ok_if, simp)
  apply (rule ok_rd16, simp)
  apply (rule ok_rd8, simp)
  apply (rule ok_orig_transport; simp add: unsafe_sites_def)
  done

lemma ok_DecodeICMP6:
  assumes "pinv nl C p" "fam p" "ip6h p \<noteq> None" "off + len \<le> C"
  shows "ok_res nl (pinv nl C) (DecodeICMP6 cf off len p)"
  using assms unfolding DecodeICMP6_def
  apply -
  apply (rule ok_if, simp)
  apply (rule ok_icmp_checksum, simp, simp)
   prefer 2
   apply (rule ok_if, simp, rule ok_pseudo_header, assumption, simp)
  subgoal for q
    using le_mod_window [of len 4] le_mod_window [of len 8] le_mod_window [of len 12] sub16_le [of len]
    apply (unfold Let_def)
    apply (rule ok_rd8, simp)+
    apply (rule ok_if)
     apply (rule ok_if, simp)
     apply (rule ok_rbind [where R = "pinv nl C"])
      apply (rule ok_if)
       apply (rule ok_deref, simp)
       apply simp
      apply simp
     apply simp
    apply (rule ok_if)
     apply (rule ok_if, simp)
     apply (rule ok_rd32, simp)
     apply (rule ok_rbind, rule ok_DecodeICMPEmbeddedIP6 [where C = C])
       apply simp
      apply simp
     apply simp
    apply (rule ok_if)
     apply (rule ok_if, simp)
     apply (rule ok_rbind, rule ok_DecodeICMPEmbeddedIP6 [where C = C])
       apply auto[3]
    apply (rule ok_if)
     apply (rule ok_if, simp)
     apply (rule ok_rd32, simp)
     apply simp
    apply (rule ok_if)
     apply (rule ok_if, simp)
     apply (rule ok_rd32, simp)
     apply simp
    apply simp
    done
  done

end
