(* ===== verification/DecodeProofs.thy ===== *)
theory DecodeProofs
  imports DecodeSafe
begin

text \<open>
  What the decoders guarantee for every frame, from the network layer up to \<open>DecodeEthPkt\<close>.
\<close>

section \<open>IPv6\<close>

lemma ok_ipv6_fail: "pinv nl C p \<Longrightarrow> ok_res nl (pinv nl C) (ipv6_fail p)"
  by (simp add: ipv6_fail_def)

lemma pinv_set_encapsulated [simp]: "pinv nl C p \<Longrightarrow> pinv nl C (set_encapsulated p)"
  by (simp add: set_encapsulated_def pinv_def pkt_wf_def)

lemma set_encapsulated_fields [simp]:
  "encapsulated (set_encapsulated p) = True" "family (set_encapsulated p) = family p"
  by (simp_all add: set_encapsulated_def)

lemma pinv_no_options [simp]:
  "pinv nl C p \<Longrightarrow> pinv nl C (p\<lparr>ip_option_count := 0\<rparr>)"
  "pinv nl C p \<Longrightarrow> pinv nl C (p\<lparr>ip_options_data := None, ip_options_len := 0\<rparr>)"
  by (auto simp: pinv_def pkt_wf_def)

lemma fam6: "family p = AF_INET6 \<Longrightarrow> ip6h p \<noteq> None \<Longrightarrow> fam p"
  by (simp add: fam_def)

lemma only_events_inv: "only_events p q \<Longrightarrow> pinv nl C q = pinv nl C p" "only_events p q \<Longrightarrow> fam q = fam p"
  "only_events p q \<Longrightarrow> ip6h q = ip6h p" "only_events p q \<Longrightarrow> family q = family p"
  "only_events p q \<Longrightarrow> pkt_mem q = pkt_mem p" "only_events p q \<Longrightarrow> caplen q = caplen p"
  "only_events p q \<Longrightarrow> ip6_extension_count q = ip6_extension_count p"
  by (auto simp: only_events_def)

lemmas IPV6MiscTests_inv [simp] = only_events_inv [OF IPV6MiscTests_events]

lemma ok_DecodeIPV6:
  assumes "rec_ok nl C N rec" "rank D_IPV6 len \<le> N" "off + len \<le> C" "pinv nl C p"
  shows "ok_res nl (pinv nl C) (DecodeIPV6 rec cf off len p)"
  using assms unfolding DecodeIPV6_def
  apply -
  apply (subst Let_def)
  apply (rule ok_if, rule ok_ipv6_fail, simp)
  apply (rule ok_rd8, simp)
  apply (rule ok_if, rule ok_ipv6_fail, simp)
  apply (rule ok_if, rule ok_ipv6_fail, simp)
  apply (rule ok_let_inv [where C = C], simp)
  apply (rule ok_rd16, simp)
  apply (rule ok_if, rule ok_ipv6_fail, simp)
  apply (rule ok_rdbytes, simp)+
  apply (rule ok_if, rule ok_ipv6_fail, simp)
  apply (rule ok_rd8, simp)
  apply (unfold Let_def)
  apply (rule ok_rec, assumption)
     apply simp
    apply simp
   apply simp
  apply (simp add: fam6)
  done

lemma pinv_ext_order: "pinv nl C (ext_order_loop cf is b cur p) = pinv nl C p" "fam (ext_order_loop cf is b cur p) = fam p"
  "ip6h (ext_order_loop cf is b cur p) = ip6h p"
  by (induction cf "is" b cur p rule: ext_order_loop.induct) (simp_all add: Let_def)

lemma CheckIPv6ExtensionOrder_simps [simp]: "pinv nl C (CheckIPv6ExtensionOrder cf p) = pinv nl C p"
  "fam (CheckIPv6ExtensionOrder cf p) = fam p" "ip6h (CheckIPv6ExtensionOrder cf p) = ip6h p"
  by (simp_all add: CheckIPv6ExtensionOrder_def pinv_ext_order)

lemma ok_let_v6:
  "pinv nl C e \<Longrightarrow> fam e \<Longrightarrow> ip6h e \<noteq> None \<Longrightarrow> (\<And>q. pinv nl C q \<Longrightarrow> fam q \<Longrightarrow> ip6h q \<noteq> None \<Longrightarrow> ok_res nl Q (f q)) \<Longrightarrow>
   ok_res nl Q (let q = e in f q)"
  by simp

lemma fam_ip6h [simp]: "fam p \<Longrightarrow> fam (p\<lparr>ip6h := Some h\<rparr>)"
  by (simp add: fam_def)

lemma ok_DecodeIPV6Extensions:
  assumes "rec_ok nl C N rec" "rank (D_IP6EXT nxt) len \<le> N" "off + len \<le> C" "pinv nl C p" "fam p" "ip6h p \<noteq> None"
  shows "ok_res nl (pinv nl C) (DecodeIPV6Extensions rec cf nxt off len p)"
proof -
  have r: "ok_res nl (pinv nl C) (rec d off len q)" if "pinv nl C q" "pre d q" "rank d len < rank (D_IP6EXT nxt) len" for d q
    using ok_rec [OF assms(1), of d len off q] that assms by simp
  show ?thesis
    using assms unfolding DecodeIPV6Extensions_def
    apply -
    apply (rule ok_deref, simp)
    apply (rule ok_let_v6 [where C = C], simp, simp, simp)
    apply (rule ok_let_v6 [where C = C], simp, simp, simp add: add_bits_def)
    apply (rule ok_let_v6 [where C = C], simp, simp, simp)
    apply (rule ok_if, rule ok_DecodeTCP, simp, simp, simp)
    apply (rule ok_if, rule r, simp, simp, simp)
    apply (rule ok_if, rule ok_DecodeICMP6, simp, simp, simp, simp)
    apply (rule ok_if, simp)
    apply (rule ok_if, rule r, simp, simp, simp)
    apply (rule ok_if, rule r, simp, simp, simp)
    apply (rule ok_if, rule r, simp, simp, simp)
    apply (rule ok_if, rule r, simp, simp, simp)
    apply (rule ok_if)
     apply (rule ok_if, rule r, simp, simp, simp)
     apply simp
    apply simp
    done
qed

lemma ip6_extensions_event [simp]: "ip6_extensions (DecoderEvent cf ev p) = ip6_extensions p"
  by (simp add: DecoderEvent_def)

lemma ok_hop_loop:
  "pinv nl C p \<Longrightarrow> fam p \<Longrightarrow> ip6h p \<noteq> None \<Longrightarrow> total_octets \<le> i + fuel \<Longrightarrow>
   ok_res nl (\<lambda>(b, q). pinv nl C q \<and> fam q \<and> ip6h q \<noteq> None \<and> ip6_extensions q = ip6_extensions p \<and> ip6_extension_count q = ip6_extension_count p)
     (hop_loop cf fuel off len total_octets i p)"
proof (induction fuel arbitrary: i)
  case (Suc fuel)
  show ?case
    apply (subst hop_loop.simps, unfold Let_def nat.case)
    apply (rule ok_if)
    using Suc.prems apply simp
    apply (rule ok_rd8, simp add: unsafe_sites_def)
    apply (rule ok_if, (rule Suc.IH; use Suc.prems in simp))
    apply (rule ok_if)
     apply (rule ok_rd8, simp add: unsafe_sites_def)
     apply (rule ok_if)
    using Suc.prems apply simp
     apply (rule Suc.IH; use Suc.prems in simp)
    using Suc.prems apply simp
    done
qed simp

lemma ok_CheckIPV6HopOptions:
  "pinv nl C p \<Longrightarrow> fam p \<Longrightarrow> ip6h p \<noteq> None \<Longrightarrow>
   ok_res nl (\<lambda>(b, q). pinv nl C q \<and> fam q \<and> ip6h q \<noteq> None \<and> ip6_extensions q = ip6_extensions p \<and> ip6_extension_count q = ip6_extension_count p)
     (CheckIPV6HopOptions cf off len p)"
  unfolding CheckIPV6HopOptions_def Let_def
  apply (rule ok_rd8, simp add: unsafe_sites_def)
  apply (rule ok_weaken, rule ok_hop_loop [where C = C])
  by (auto split: if_splits)

text \<open>Entry \<open>n\<close> is set, the count not yet.\<close>

lemma pinv_next_ext:
  "pinv nl C p \<Longrightarrow> ip6_extension_count p = n \<Longrightarrow> n < 8 \<Longrightarrow> ex_data (ip6_extensions p n) + 8 \<le> C \<Longrightarrow>
   pinv nl C (p\<lparr>ip6_extension_count := n + 1\<rparr>)"
  by (auto simp: pinv_def pkt_wf_def less_Suc_eq)

lemma pinv_frag_ext:
  "pinv nl C p \<Longrightarrow> ip6_extension_count p = n \<Longrightarrow> n < 8 \<Longrightarrow> ex_data (ip6_extensions p n) + 8 \<le> C \<Longrightarrow> d \<le> C \<Longrightarrow>
   pinv nl C (p\<lparr>ip6_frag_index := n, ip_frag_start := Some d, frag_flag := b1, df := b2, rf := b3, mf := b4,
            frag_offset := fo, ip_frag_len := fl, ip6_extension_count := n + 1\<rparr>)"
  by (auto simp: pinv_def pkt_wf_def less_Suc_eq)

lemma pinv_set_ext:
  "pinv nl C p \<Longrightarrow> pinv nl C (p\<lparr>ip6_extensions := (ip6_extensions p)(ip6_extension_count p := x)\<rparr>)"
  by (auto simp: pinv_def pkt_wf_def)

lemma PushLayer_ext [simp]: "ip6_extensions (PushLayer t d n p) = ip6_extensions p"
  "ip6_extension_count (PushLayer t d n p) = ip6_extension_count p"
  by (simp_all add: PushLayer_def)

lemma ok_DecodeIPV6Options:
  assumes r: "rec_ok nl C N rec" and N: "rank (D_IP6OPT ty) len \<le> N" and C: "off + len \<le> C"
    and p: "pinv nl C p" "fam p" "ip6h p \<noteq> None"
  shows "ok_res nl (pinv nl C) (DecodeIPV6Options rec cf ty off len p)"
proof -
  define n where "n = ip6_extension_count p"
  let ?good = "\<lambda>q. pinv nl C q \<and> fam q \<and> ip6h q \<noteq> None \<and> ex_data (ip6_extensions q n) = off \<and> ip6_extension_count q = n"
  have cont: "ok_res nl (pinv nl C) (let q = q\<lparr>ip6_extension_count := n + 1\<rparr> in
      if h > len then Inr (DecoderEvent cf DECODE_IPV6_TRUNCATED_EXT q) else rec (D_IP6EXT nxt) (off + h) (len - h) q)"
    if "pinv nl C (q\<lparr>ip6_extension_count := n + 1\<rparr>)" "fam q" "ip6h q \<noteq> None" "8 \<le> h" for h q nxt
    unfolding Let_def
    apply (rule ok_if)
     apply (simp add: that del: add_Suc_right One_nat_def)
    apply (rule ok_rec [OF r])
    using that N C by (auto simp del: add_Suc_right One_nat_def)
  have good_cont: "pinv nl C (q\<lparr>ip6_extension_count := n + 1\<rparr>)" if "?good q" "8 \<le> len" "n < 8" for q
    using that C by (intro pinv_next_ext) auto
  have checked: "ok_res nl ?good (rbind (CheckIPV6HopOptions cf off len q) (\<lambda>(good, p). Inr (if good then PushLayer t off h p else p)))"
    if "?good q" "t = PROTO_IP6_HOP_OPTS \<or> t = PROTO_IP6_DST_OPTS" for q t h
    apply (rule ok_rbind, rule ok_CheckIPV6HopOptions [where C = C])
    using that by auto
  show ?thesis
    unfolding DecodeIPV6Options_def
    apply (rule ok_if, simp add: p)
    apply (rule ok_if, simp add: p)
    apply (unfold n_def [symmetric])
    apply (subst Let_def, subst Let_def)
    apply (rule ok_rd8, simp)
    apply (rule ok_rd8, simp)
    subgoal premises prems for nxt elen
    proof -
      let ?q = "p\<lparr>ip6_extensions := (ip6_extensions p)(n := \<lparr>ex_type = ty, ex_data = off\<rparr>)\<rparr>"
      have q: "?good ?q" using p by (simp add: n_def pinv_set_ext)
      have l: "8 \<le> len" "n < 8" using prems by auto
      have e: "?good (if b then DecoderEvent cf ev ?q else ?q)" for b ev using q by simp
      have e2: "?good (if b then DecoderEvent cf ev ?q else if b' then DecoderEvent cf ev' ?q else ?q)" for b ev b' ev' using q by simp
      have contq: "ok_res nl (pinv nl C) (if h > len then Inr (DecoderEvent cf DECODE_IPV6_TRUNCATED_EXT (q\<lparr>ip6_extension_count := n + 1\<rparr>))
          else rec (D_IP6EXT nxt) (off + h) (len - h) (q\<lparr>ip6_extension_count := n + 1\<rparr>))" if "?good q" "8 \<le> h" for q h
        using cont [unfolded Let_def, OF good_cont [OF that(1) l]] that by blast
      have frag: "ok_res nl (pinv nl C) (if b then Inr (f\<lparr>ip6_extension_count := n + 1\<rparr>)
          else if 8 > len then Inr (DecoderEvent cf DECODE_IPV6_TRUNCATED_EXT (f\<lparr>ip6_extension_count := n + 1\<rparr>))
          else rec (D_IP6EXT nxt) (off + 8) (len - 8) (f\<lparr>ip6_extension_count := n + 1\<rparr>))"
        if f: "f = ?q\<lparr>ip6_frag_index := n, ip_frag_start := Some (off + 8), frag_flag := True, df := False, rf := b3,
                   mf := b4, frag_offset := fo, ip_frag_len := fl\<rparr>" for f b b3 b4 fo fl
      proof -
        have w: "pinv nl C (f\<lparr>ip6_extension_count := n + 1\<rparr>)" unfolding f
          by (rule pinv_frag_ext) (use q l C in auto)
        have "fam f" "ip6h f \<noteq> None" using q by (simp_all add: f)
        then show ?thesis
          using cont [unfolded Let_def, OF w, of 8] w by (intro ok_if) simp_all
      qed
      show ?thesis
        unfolding Let_def
        apply (rule ok_if)
         apply (rule ok_rbind, rule checked, rule q, simp)
         apply (rule contq, assumption, simp)
        apply (rule ok_if)
         apply (rule ok_rbind, rule checked, rule e, simp)
         apply (rule contq, assumption, simp)
        apply (rule ok_if)
         apply (rule contq, rule e2, simp)
        apply (rule ok_if)
         apply (rule ok_rd8, use l in simp)
         apply (rule ok_rd16, use l in simp)
         apply (rule frag, rule refl)
        apply (rule ok_if)
         apply (rule contq, rule q, simp)
        apply (rule contq, rule q, simp)
        done
    qed
    done
qed

section \<open>IPv4\<close>

lemma ok_in_chksum_ip:
  "n \<le> len \<Longrightarrow> s \<in> unsafe_sites \<or> 20 \<le> n \<and> n mod 4 = 0 \<Longrightarrow> (\<And>c. ok_res nl Q (k c)) \<Longrightarrow> ok_res nl Q (in_chksum_ip s p off len n k)"
  unfolding in_chksum_ip_def
  apply (rule ok_if)
   apply (auto simp: ok_res_def)[1]
  apply (rule ok_rdbytes, simp, simp)
  done

lemma ok_CheckPGMVuln: "pinv nl C p \<Longrightarrow> ok_res nl (pinv nl C) (CheckPGMVuln cf d n p)"
  unfolding CheckPGMVuln_def
  apply (rule ok_if, simp)
  apply (rule ok_rd8, simp)+
  apply (rule ok_rd16, simp)
  apply (rule ok_if, simp)
  apply (rule ok_if)
   apply (rule ok_in_chksum_ip)
     apply (simp_all add: unsafe_sites_def)
  done

lemma pinv_igmp_options [simp]: "pinv nl C (igmp_options cf p) = pinv nl C p"
  by (simp add: igmp_options_def Let_def)

lemma ok_CheckIGMPVuln: "pinv nl C p \<Longrightarrow> ok_res nl (pinv nl C) (CheckIGMPVuln cf d n p)"
  unfolding CheckIGMPVuln_def
  apply (rule ok_if, simp)
  apply (rule ok_rd8, simp)
  apply (rule ok_if, simp)
  apply (cases "ip_options_data p")
   apply simp
  subgoal for v d'
    apply (simp only: option.case)
    apply (rule ok_if)
     apply (rule ok_rd8)
      apply (auto simp: pinv_def pkt_wf_def)[1]
     apply (rule ok_rd8)
      apply (auto simp: pinv_def pkt_wf_def)[1]
     apply simp
    apply simp
    done
  done

lemma ok_ip_fail: "pinv nl C p \<Longrightarrow> ok_res nl (pinv nl C) (ip_fail p)"
  by (simp add: ip_fail_def)

lemma pinv_ip_payload [simp]: "pinv nl C p \<Longrightarrow> off \<le> C \<Longrightarrow> pinv nl C (ip_payload off n p)"
  by (simp add: ip_payload_def)

lemma ok_ip_next:
  assumes r: "rec_ok nl C N rec" "3 * len < N" and C: "off + len \<le> C" and p: "pinv nl C p" "fam p"
  shows "ok_res nl (pinv nl C) (ip_next rec cf proto off len p)"
proof -
  have r: "ok_res nl (pinv nl C) (rec d off len q)" if "pinv nl C q" "pre d q" "rank d len = 3 * len" for d q
    using ok_rec [OF r(1), of d len off q] that assms by simp
  have l: "ok_res nl (pinv nl C) (if b then CheckPGMVuln cf off m (ip_payload off len p) else Inr (ip_payload off len p))"
    "ok_res nl (pinv nl C) (if b then CheckIGMPVuln cf off m (ip_payload off len p) else Inr (ip_payload off len p))" for b m
    using p C by (auto intro!: ok_CheckPGMVuln ok_CheckIGMPVuln)
  show ?thesis
    unfolding ip_next_def using p C
    apply -
    apply (rule ok_if, rule ok_DecodeTCP, simp, simp, simp)
    apply (rule ok_if, rule r, simp, simp, simp)
    apply (rule ok_if, rule ok_DecodeICMP, simp, simp, simp)
    apply (rule ok_if, rule r, simp, simp, simp)
    apply (rule ok_if, rule r, simp, simp, simp)
    apply (rule ok_if, rule r, simp, simp, simp)
    apply (rule ok_if)
     apply (rule ok_if, rule r, simp, simp, simp)
     apply simp
    apply (rule ok_if, simp)
    apply (rule ok_if, rule l)
    apply (rule ok_if, rule l)
    apply (rule ok_GET_IPH_PROTO, simp, simp)
    done
qed

lemma set_frag_ok [simp]: "pinv nl C p \<Longrightarrow> start \<le> C \<Longrightarrow> pinv nl C (set_frag cf w start len p)"
  "fam (set_frag cf w start len p) = fam p"
  by (simp_all add: set_frag_def Let_def)

lemma ok_ip_checksum:
  assumes "pinv nl C p" "fam p" "hlen \<le> len" "20 \<le> hlen" "hlen mod 4 = 0" "\<And>q. pinv nl C q \<Longrightarrow> fam q \<Longrightarrow> ok_res nl (pinv nl C) (k q)"
  shows "ok_res nl (pinv nl C) (ip_checksum cf off len hlen p k)"
  unfolding ip_checksum_def
  apply (rule ok_if, simp add: assms)
  apply (rule ok_in_chksum_ip)
  using assms by auto

lemma pinv_ip_options: "pinv nl C p \<Longrightarrow> d + n \<le> C \<Longrightarrow> pinv nl C (p\<lparr>ip_options_len := n, ip_options_data := Some d\<rparr>)"
  by (simp add: pinv_def pkt_wf_def)

lemma pinv_ip_no_len: "pinv nl C p \<Longrightarrow> pinv nl C (p\<lparr>ip_options_len := 0\<rparr>)"
  by (cases "ip_options_data p") (auto simp: pinv_def pkt_wf_def)

lemma ok_DecodeIP:
  assumes "rec_ok nl C N rec" "rank D_IP len \<le> N" "off + len \<le> C" "pinv nl C p"
  shows "ok_res nl (pinv nl C) (DecodeIP rec cf off len p)"
  using assms unfolding DecodeIP_def
  apply -
  apply (rule ok_if, rule ok_ip_fail, simp)
  apply (rule ok_if, simp)
  apply (rule ok_let_inv [where C = C], simp)
  apply (rule ok_let)
  subgoal for p0 p1
  apply (rule ok_rd8, simp)
  apply (rule ok_if, rule ok_ip_fail, simp)
  apply (rule ok_rd16, simp)+
  apply (rule ok_rd8, simp)
  apply (rule ok_rdbytes, simp)+
  apply (rule ok_let_pinv [where C = C], simp, simp add: fam_def)
  apply (rule ok_let)
  apply (rule ok_if, rule ok_ip_fail, simp)
  apply (rule ok_if, rule ok_ip_fail, simp)
  apply (rule ok_if, rule ok_ip_fail, simp)
  apply (rule ok_rbind [where R = "both nl C"])
   apply (rule ok_if, rule ok_IP4AddrTests, simp, simp, simp)
   apply simp
  apply (rule ok_ip_checksum, simp, simp, simp, simp, simp)
  apply (rule ok_let_pinv [where C = C], simp, simp)
  apply (rule ok_let)
  apply (rule ok_rbind [where R = "both nl C"])
   apply (rule ok_if)
    apply (rule ok_DecodeIPOptions)
      apply (simp add: pinv_ip_options)
     apply simp
    apply simp
   apply (simp add: Let_def pinv_ip_no_len)
  apply (rule ok_let)
  apply (rule ok_let_pinv [where C = C], simp, simp)
  apply (rule ok_let_pinv [where C = C], simp, simp)
  apply (rule ok_let_pinv [where C = C], simp, simp)
  apply (rule ok_rbind, rule ok_IPMiscTests, simp, simp)
  apply (rule ok_if)
   apply (rule ok_ip_next, assumption; simp)
  apply simp
  done
  done

section \<open>ESP, GRE and the link layer\<close>

lemma ok_DecodeESP:
  assumes "rec_ok nl C N rec" "rank D_ESP len \<le> N" "off + len \<le> C" "pinv nl C p" "fam p"
  shows "ok_res nl (pinv nl C) (DecodeESP rec cf off len p)"
proof -
  have r: "ok_res nl (pinv nl C) (rec d (off + 8) n q)" if "pinv nl C q" "pre d q" "rank d n = 3 * n" "n + 22 \<le> len" for d q n
    using ok_rec [OF assms(1), of d n "off + 8" q] that assms by simp
  show ?thesis
    using assms unfolding DecodeESP_def
    apply -
    apply (rule ok_if, simp)
    apply (rule ok_let)
    apply (rule ok_let)
    apply (rule ok_rd8, rule disjI2, linarith)
    apply (rule ok_rd8, rule disjI2, linarith)
    apply (rule ok_if, simp)
    apply (rule ok_let)
    apply (rule ok_let_pinv [where C = C], simp, simp)
    apply (rule ok_rbind [where R = "pinv nl C"])
     apply (simp only:)
     apply (rule ok_if, rule r, simp, simp, simp, simp)
     apply (rule ok_if, rule r, simp, simp, simp, simp)
     apply (rule ok_if, rule ok_DecodeTCP, simp, simp, simp)
     apply (rule ok_if, rule r, simp, simp, simp, simp)
     apply (rule ok_if, rule ok_DecodeICMP, simp, simp, simp)
     apply (rule ok_if, rule r, simp, simp, simp, simp)
     apply simp
    apply simp
    done
qed

lemma ok_gre_route:
  assumes "\<And>h. hlen0 \<le> h \<Longrightarrow> ok_res nl Q (k h)"
  shows "hlen0 \<le> hlen \<Longrightarrow> len < hlen + fuel \<Longrightarrow> ok_res nl Q (gre_route fuel off len p hlen k)"
proof (induction fuel arbitrary: hlen)
  case (Suc fuel)
  show ?case
    apply (subst gre_route.simps, unfold nat.case)
    apply (rule ok_if, rule assms, use Suc.prems in simp)
    apply (rule ok_rd16, simp)
    apply (rule ok_rd8, simp)
    apply (rule ok_if, rule assms, use Suc.prems in simp)
    apply (rule Suc.IH; use Suc.prems in simp)
    done
qed (simp add: assms)

lemma ok_gre_payload:
  assumes r: "rec_ok nl C N rec" "3 * len < N" and C: "off + len \<le> C" and p: "pinv nl C p"
  shows "ok_res nl (pinv nl C) (gre_payload rec cf ty off len p)"
proof -
  have r: "ok_res nl (pinv nl C) (rec d off len q)" if "pinv nl C q" "pre d q" "rank d len = 3 * len" for d q
    using ok_rec [OF r(1), of d len off q] that assms by simp
  show ?thesis
    unfolding gre_payload_def using p C
    apply -
    apply (rule ok_if, rule r, simp, simp, simp)
    apply (rule ok_if, rule r, simp, simp, simp)
    apply (rule ok_if, rule ok_DecodeARP, simp, simp)
    apply (rule ok_if, rule r, simp, simp, simp)
    apply (rule ok_if, rule r, simp, simp, simp)
    apply (rule ok_if, simp)
    apply (rule ok_if, rule r, simp, simp, simp)
    apply simp
    done
qed

lemma ok_DecodeGRE:
  assumes "rec_ok nl C N rec" "rank D_GRE len \<le> N" "off + len \<le> C" "pinv nl C p"
  shows "ok_res nl (pinv nl C) (DecodeGRE rec cf off len p)"
proof -
  have alert: "ok_res nl (pinv nl C) (Inr (DecoderAlertEncapsulated cf ev off len q))" if "pinv nl C q" for ev q
    using that assms by simp
  have fin: "ok_res nl (pinv nl C) (if h > len then Inr (DecoderAlertEncapsulated cf ev off len q)
      else gre_payload rec cf ty (off + h) (len - h) (PushLayer PROTO_GRE off h q))" if "pinv nl C q" "4 \<le> h" for ev q h ty
    using that assms by (intro ok_if alert ok_gre_payload [OF assms(1)]) auto
  show ?thesis
    using assms unfolding DecodeGRE_def Let_def
    apply -
    apply (rule ok_if, rule alert, simp)
    apply (rule ok_if, rule alert, simp)
    apply (rule ok_rd8, simp)+
    apply (rule ok_rd16, simp)
    apply (rule ok_if)
     apply (rule ok_if, rule alert, simp)
     apply (rule ok_if)
      apply (rule ok_gre_route [where ?hlen0.0 = 4])
        apply (rule fin, simp, simp)
       apply simp
      apply simp
     apply (rule fin, simp, simp)
    apply (rule ok_if)
     apply (rule ok_if, rule alert, simp)
     apply (rule ok_if, rule alert, simp)
     apply (rule ok_if, rule alert, simp)
     apply (rule fin, simp, simp)
    apply (rule alert, simp)
    done
qed

lemma pinv_no_ip [simp]: "pinv nl C p \<Longrightarrow> pinv nl C (no_ip p)"
  by (simp add: no_ip_def)

lemma ok_DecodeTransBridging:
  assumes "rec_ok nl C N rec" "rank D_TRANSBR len \<le> N" "off + len \<le> C" "pinv nl C p"
  shows "ok_res nl (pinv nl C) (DecodeTransBridging rec cf off len p)"
proof -
  have r: "ok_res nl (pinv nl C) (rec d (off + 14) (len - 14) q)" if "pinv nl C q" "pre d q" "rank d (len - 14) = 3 * (len - 14)" "14 \<le> len" for d q
    using ok_rec [OF assms(1), of d "len - 14" "off + 14" q] that assms by simp
  show ?thesis
    using assms unfolding DecodeTransBridging_def
    apply -
    apply (rule ok_if, simp)
    apply (rule ok_let_inv [where C = C], simp)
    apply (subst Let_def, subst Let_def)
    apply (rule ok_rd16, simp)
    apply (rule ok_if, rule r, simp, simp, simp, simp)
    apply (rule ok_if, rule ok_DecodeARP, simp, simp)
    apply (rule ok_if, rule r, simp, simp, simp, simp)
    apply (rule ok_if, simp)
    apply (rule ok_if, rule r, simp, simp, simp, simp)
    apply simp
    done
qed

lemma ok_checkMplsHdr: "pinv nl C p \<Longrightarrow> checkMplsHdr cf label bos p = (i, q) \<Longrightarrow> pinv nl C q"
  by (auto simp: checkMplsHdr_def Let_def split: if_splits)

lemma ok_mpls_loop:
  "pinv nl C p \<Longrightarrow> off + len \<le> C \<Longrightarrow> len \<le> i + fuel \<Longrightarrow>
   ok_res nl (\<lambda>(r, q). pinv nl C q \<and> (case r of None \<Rightarrow> True | Some (m, t) \<Rightarrow> 4 \<le> m \<and> m \<le> len))
     (mpls_loop cf fuel off len i ch iRet p)"
proof (induction fuel arbitrary: i ch iRet p)
  case 0
  then show ?case
    apply (subst mpls_loop.simps)
    apply (rule ok_if, simp)
    apply (rule ok_rd32, simp add: unsafe_sites_def)
    apply simp
    done
next
  case (Suc fuel)
  have IH: "ok_res nl (\<lambda>(r, q). pinv nl C q \<and> (case r of None \<Rightarrow> True | Some (m, t) \<Rightarrow> 4 \<le> m \<and> m \<le> len))
      (mpls_loop cf fuel off len (i + 4) ch' iRet' q)" if "pinv nl C q" for ch' iRet' q
    using that Suc.prems by (intro Suc.IH) auto
  show ?case
    apply (subst mpls_loop.simps, unfold Let_def nat.case)
    apply (rule ok_if)
    using Suc.prems apply simp
    apply (rule ok_rd32, simp add: unsafe_sites_def)
    apply (split prod.split, intro allI impI)
    subgoal premises prems for h iRet' q
    proof -
      have q: "pinv nl C q" using prems(3) Suc.prems(1) ok_checkMplsHdr by (fastforce split: if_splits)
      show ?thesis
        using q prems Suc.prems(2)
        apply -
        apply (rule ok_if, simp)
        apply (rule ok_if, simp)
        apply (rule ok_if, simp)
        apply (rule IH, simp)
        done
    qed
    done
qed

lemma ok_DecodeMPLS:
  assumes "rec_ok nl C N rec" "rank D_MPLS len \<le> N" "off + len \<le> C" "pinv nl C p"
  shows "ok_res nl (pinv nl C) (DecodeMPLS rec cf off len p)"
  unfolding DecodeMPLS_def
  apply (rule ok_rbind, rule ok_mpls_loop [where C = C])
  using assms apply simp_all[3]
  subgoal premises prems for x
  proof (cases "fst x")
    case None
    then show ?thesis using prems by (cases x) simp
  next
    case (Some mt)
    obtain m t q where x: "x = (Some (m, t), q)" using Some by (cases x, cases mt) simp
    have q: "pinv nl C q" "4 \<le> m" "m \<le> len" using prems by (simp_all add: x)
    have r: "ok_res nl (pinv nl C) (rec d (off + m) (len - m) (PushLayer PROTO_MPLS off m q))" if "d \<in> {D_IP, D_IPV6, D_ETH_MPLS}" for d
      using assms q that by (intro ok_rec [OF assms(1)]) auto
    show ?thesis
      unfolding x option.case prod.case Let_def using q r assms(3) by simp
  qed
  done

lemma ok_ether_next:
  assumes "rec_ok nl C N rec" "3 * len < N" "off + len \<le> C" "pinv nl C p"
    and "\<And>f. m = Some f \<Longrightarrow> pinv nl C (f p)"
  shows "ok_res nl (pinv nl C) (ether_next rec cf m ty off len p)"
proof -
  have r: "ok_res nl (pinv nl C) (rec d off len q)" if "pinv nl C q" "pre d q" "rank d len = 3 * len" for d q
    using ok_rec [OF assms(1), of d len off q] that assms by simp
  show ?thesis
    unfolding ether_next_def using assms
    apply -
    apply (rule ok_if, rule r, simp, simp, simp)
    apply (rule ok_if, rule ok_DecodeARP, simp, simp)
    apply (rule ok_if, rule r, simp, simp, simp)
    apply (rule ok_if, rule r, simp, simp, simp)
    apply (rule ok_if, rule r, simp, simp, simp)
    apply (split option.split, intro conjI impI allI)
     apply simp
    apply (rule ok_if, rule r, simp, simp, simp)
    apply (rule ok_if, rule r, simp, simp, simp)
    apply simp
    done
qed

lemma ok_DecodeEthOverMPLS:
  assumes "rec_ok nl C N rec" "rank D_ETH_MPLS len \<le> N" "off + len \<le> C" "pinv nl C p"
  shows "ok_res nl (pinv nl C) (DecodeEthOverMPLS rec cf off len p)"
  using assms unfolding DecodeEthOverMPLS_def
  apply -
  apply (rule ok_if, simp)
  apply (rule ok_let_inv [where C = C], simp)
  apply (rule ok_rd16, simp)
  apply (rule ok_ether_next, assumption; simp)
  done

lemma ok_DecodeVlan:
  assumes "rec_ok nl C N rec" "rank D_VLAN len \<le> N" "off + len \<le> C" "pinv nl C p"
  shows "ok_res nl (pinv nl C) (DecodeVlan rec cf off len p)"
  using assms unfolding DecodeVlan_def
  apply -
  apply (rule ok_if, simp)
  apply (rule ok_let_inv [where C = C], simp)
  apply (rule ok_rd16, simp)
  apply (rule ok_if)
   apply (rule ok_if, simp)
   apply (rule ok_let_inv [where C = C], simp)
   apply (rule ok_rd8, simp)+
   apply (rule ok_if)
    apply (rule ok_if, simp)
    apply (rule ok_let_inv [where C = C], simp)
    apply (rule ok_rd16, simp)
    apply (rule ok_ether_next, assumption; auto)
   apply simp
  apply (rule ok_ether_next, assumption; auto)
  done

lemma ok_DecodePPPoEPkt:
  assumes "rec_ok nl C N rec" "rank D_PPPOE len \<le> N" "off + len \<le> C" "pinv nl C p"
  shows "ok_res nl (pinv nl C) (DecodePPPoEPkt rec cf off len p)"
  using assms unfolding DecodePPPoEPkt_def
  apply -
  apply (rule ok_if, simp)
  apply (rule ok_let_inv [where C = C], simp)
  apply (rule ok_deref_eh, simp add: pinv_def)
  apply (rule ok_rd16)
   apply (auto simp: pinv_def pkt_wf_def)[1]
  apply (rule ok_if)
   apply (rule ok_rec, assumption; simp)
  apply simp
  done

lemma ok_DecodePpp:
  assumes "rec_ok nl C N rec" "rank D_PPP len \<le> N" "off + len \<le> C" "pinv nl C p"
  shows "ok_res nl (pinv nl C) (DecodePppPktEncapsulated rec off len p)"
  using assms unfolding DecodePppPktEncapsulated_def Let_def
  apply -
  apply (rule ok_if, simp)
  apply (rule ok_rd8, simp)
  apply (rule ok_rd16, simp)
  apply (rule ok_if)
   apply (rule ok_if, simp)
   apply (rule ok_rec, assumption; auto)
  apply (rule ok_if)
   apply (rule ok_rec, assumption; auto)
  apply simp
  done

section \<open>Every frame\<close>

theorem decode_ok: "rec_ok nl C n (decode cf n)"
proof (induction n)
  case (Suc n)
  have "ok_res nl (pinv nl C) (decode cf (Suc n) d off len p)"
    if "rank d len < Suc n" "off + len \<le> C" "pinv nl C p" "pre d p" for d off len p
    using that Suc.IH
    by (cases d)
      (auto intro: ok_DecodeIP ok_DecodeIPV6 ok_DecodeIPV6Extensions ok_DecodeIPV6Options ok_DecodeUDP ok_DecodeESP ok_DecodeGRE
         ok_DecodeTeredo ok_DecodeGTP ok_DecodeVlan ok_DecodeMPLS ok_DecodeEthOverMPLS ok_DecodeTransBridging ok_DecodePPPoEPkt
         ok_DecodePpp)
  then show ?case by (simp add: rec_ok_def)
qed (simp add: rec_ok_def)

lemma pkt_wf_init: "pkt_wf cap (packet_init mem cap old)"
  by (simp add: pkt_wf_def packet_init_def)

lemma pkt_wf_event_if [simp]: "pkt_wf C (event_if cf ev b p) = pkt_wf C p"
  by (simp add: event_if_def DecoderEvent_def pkt_wf_def)

lemma pinv_init: "14 \<le> cap \<Longrightarrow> pinv nl cap (PushLayer PROTO_ETH 0 14 ((packet_init mem cap old)\<lparr>eh := Some 0\<rparr>))"
  by (rule pinv_PushLayer) (auto simp: pinv_def pkt_wf_def packet_init_def)

lemma ok_DecodeEthPkt:
  assumes "3 * cap \<le> n" "0 < n"
  shows "ok_res nl (pkt_wf cap) (DecodeEthPkt (decode cf n) cf mem cap old)"
  unfolding DecodeEthPkt_def
  apply (subst Let_def)
  apply (rule ok_if, simp add: pkt_wf_init)
  apply (rule ok_let_inv [where C = cap], rule pinv_init, simp)
  apply (rule ok_weaken [where R = "pinv nl cap", rotated], simp add: pinv_def)
  apply (rule ok_rd16, simp)
  apply (rule ok_ether_next [OF decode_ok])
  using assms by auto


end
