(* ===== verification/FrameSteps.thy ===== *)
theory FrameSteps
  imports DecodeProofs
begin

text \<open>
  The decoders on a frame of known shape: what one plain header leaves in the packet, for any
  configuration. Alerts, checksum flags and protocol bits depend on the configuration and are taken
  off (\<open>strip\<close>) before packets are compared.
\<close>

lemma decode_pos: "0 < n \<Longrightarrow> decode cf n d off len p = decode cf (Suc (n - 1)) d off len p" by simp
lemmas decode_numeral = decode_pos [of "numeral w" for w, unfolded diff_Suc_1 decode.simps]

definition eth_packet :: "(nat \<Rightarrow> u8) \<Rightarrow> nat \<Rightarrow> Packet \<Rightarrow> Packet" where
  "eth_packet mem cap old = PushLayer PROTO_ETH 0 14 ((packet_init mem cap old)\<lparr>eh := Some 0\<rparr>)"

lemma frame_next: "14 \<le> cap \<Longrightarrow> decode_frame cf mem cap old =
   ether_next (decode cf (3 * cap + 3)) cf (Some (DecoderEvent cf DECODE_BAD_MPLS)) (be16 (mem 12) (mem 13)) 14 (cap - 14)
     (eth_packet mem cap old)"
  by (simp add: decode_frame_def DecodeEthPkt_def rd16_def PushLayer_def packet_init_def eth_packet_def)

lemma eth_fields [simp]: "pkt_mem (eth_packet mem cap old) = mem" "family (eth_packet mem cap old) = NO_IP" "caplen (eth_packet mem cap old) = cap"
  "bit_teredo (eth_packet mem cap old) = False" "bit_gtp (eth_packet mem cap old) = False" "unsure_encap (eth_packet mem cap old) = False"
  "encapsulated (eth_packet mem cap old) = False" "frag_flag (eth_packet mem cap old) = False"
  "layers (eth_packet mem cap old) = [\<lparr>ly_proto = PROTO_ETH, ly_start = 0, ly_length = 14\<rparr>]"
  by (simp_all add: PushLayer_def packet_init_def eth_packet_def)

text \<open>The packet without its events, protocol bits and error flags.\<close>

definition strip :: "Packet \<Rightarrow> Packet" where
  "strip p = p\<lparr>dec_events := [], proto_bits := 0, error_flags := 0\<rparr>"

lemma strip_eqE: "strip q = strip p \<Longrightarrow> (\<And>es pb ef. q = p\<lparr>dec_events := es, proto_bits := pb, error_flags := ef\<rparr> \<Longrightarrow> R) \<Longrightarrow> R"
  by (cases p, cases q) (auto simp: strip_def)

lemma strip_marks [simp]:
  "strip (DecoderEvent cf ev q) = strip q" "strip (event_if cf ev b q) = strip q"
  "strip (add_error e q) = strip q" "strip (add_bits w q) = strip q"
  by (simp_all add: strip_def DecoderEvent_def event_if_def add_error_def add_bits_def)

lemma strip_if [simp]: "strip (if b then x else y) = (if b then strip x else strip y)"
  by simp

lemma push_fields:
  "pkt_mem (PushLayer t off n p) = pkt_mem p"
  "caplen (PushLayer t off n p) = caplen p"
  "eh (PushLayer t off n p) = eh p"
  "vh (PushLayer t off n p) = vh p"
  "ehllc (PushLayer t off n p) = ehllc p"
  "ehllcother (PushLayer t off n p) = ehllcother p"
  "pppoeh (PushLayer t off n p) = pppoeh p"
  "ah (PushLayer t off n p) = ah p"
  "greh (PushLayer t off n p) = greh p"
  "mpls (PushLayer t off n p) = mpls p"
  "mplsHdr (PushLayer t off n p) = mplsHdr p"
  "iph (PushLayer t off n p) = iph p"
  "inner_iph (PushLayer t off n p) = inner_iph p"
  "outer_iph (PushLayer t off n p) = outer_iph p"
  "orig_iph (PushLayer t off n p) = orig_iph p"
  "tcph (PushLayer t off n p) = tcph p"
  "orig_tcph (PushLayer t off n p) = orig_tcph p"
  "udph (PushLayer t off n p) = udph p"
  "inner_udph (PushLayer t off n p) = inner_udph p"
  "outer_udph (PushLayer t off n p) = outer_udph p"
  "orig_udph (PushLayer t off n p) = orig_udph p"
  "icmph (PushLayer t off n p) = icmph p"
  "icmp6h (PushLayer t off n p) = icmp6h p"
  "orig_icmph (PushLayer t off n p) = orig_icmph p"
  "data (PushLayer t off n p) = data p"
  "dsize (PushLayer t off n p) = dsize p"
  "ip_data (PushLayer t off n p) = ip_data p"
  "ip_dsize (PushLayer t off n p) = ip_dsize p"
  "outer_ip_data (PushLayer t off n p) = outer_ip_data p"
  "outer_ip_dsize (PushLayer t off n p) = outer_ip_dsize p"
  "actual_ip_len (PushLayer t off n p) = actual_ip_len p"
  "ip_frag_start (PushLayer t off n p) = ip_frag_start p"
  "ip_frag_len (PushLayer t off n p) = ip_frag_len p"
  "frag_flag (PushLayer t off n p) = frag_flag p"
  "frag_offset (PushLayer t off n p) = frag_offset p"
  "mf (PushLayer t off n p) = mf p"
  "df (PushLayer t off n p) = df p"
  "rf (PushLayer t off n p) = rf p"
  "ip_options_data (PushLayer t off n p) = ip_options_data p"
  "ip_options_len (PushLayer t off n p) = ip_options_len p"
  "ip_options (PushLayer t off n p) = ip_options p"
  "ip_option_count (PushLayer t off n p) = ip_option_count p"
  "tcp_options_data (PushLayer t off n p) = tcp_options_data p"
  "tcp_options_len (PushLayer t off n p) = tcp_options_len p"
  "tcp_options (PushLayer t off n p) = tcp_options p"
  "tcp_option_count (PushLayer t off n p) = tcp_option_count p"
  "ip6_extensions (PushLayer t off n p) = ip6_extensions p"
  "ip6_extension_count (PushLayer t off n p) = ip6_extension_count p"
  "ip6_frag_index (PushLayer t off n p) = ip6_frag_index p"
  "ip4h (PushLayer t off n p) = ip4h p"
  "ip6h (PushLayer t off n p) = ip6h p"
  "family (PushLayer t off n p) = family p"
  "encapsulated (PushLayer t off n p) = encapsulated p"
  "GTPencapsulated (PushLayer t off n p) = GTPencapsulated p"
  "unsure_encap (PushLayer t off n p) = unsure_encap p"
  "ignore_port (PushLayer t off n p) = ignore_port p"
  "bit_teredo (PushLayer t off n p) = bit_teredo p"
  "bit_gtp (PushLayer t off n p) = bit_gtp p"
  "proto_bits (PushLayer t off n p) = proto_bits p"
  "error_flags (PushLayer t off n p) = error_flags p"
  "sp (PushLayer t off n p) = sp p"
  "dp (PushLayer t off n p) = dp p"
  "orig_sp (PushLayer t off n p) = orig_sp p"
  "orig_dp (PushLayer t off n p) = orig_dp p"
  "dec_events (PushLayer t off n p) = dec_events p"
  by (simp_all add: PushLayer_def)

lemma event_fields:
  "frag_offset (event_if cf ev b p) = frag_offset p" "actual_ip_len (event_if cf ev b p) = actual_ip_len p"
  "mf (event_if cf ev b p) = mf p" "df (event_if cf ev b p) = df p"
  by (simp_all add: event_if_def DecoderEvent_def)

lemma IP4AddrTests_strip: "20 \<le> len \<Longrightarrow> \<exists>q. IP4AddrTests cf off len p = Inr q \<and> strip q = strip p"
  unfolding IP4AddrTests_def rdbytes_def Let_def by simp

lemma IPMiscTests_strip: "ip_option_count p = 0 \<Longrightarrow> \<exists>q. IPMiscTests cf p = Inr q \<and> strip q = strip p"
  unfolding IPMiscTests_def rbind_def by simp

lemma ip_checksum_strip:
  "20 \<le> hlen \<Longrightarrow> hlen mod 4 = 0 \<Longrightarrow> hlen \<le> len \<Longrightarrow> \<exists>q. ip_checksum cf off len hlen p = (\<lambda>k. k q) \<and> strip q = strip p"
  unfolding ip_checksum_def in_chksum_ip_def rdbytes_def
  by (rule exI [of _ "if ip_checksums cf \<and> in_chksum [] (map (\<lambda>j. pkt_mem p (off + 0 + j)) [0..<hlen]) \<noteq> 0
      then add_error PKT_ERR_CKSUM_IP p else p"]) (auto simp: fun_eq_iff)

text \<open>The packet after an IPv4 header of twenty bytes at \<open>off\<close>, not a fragment.\<close>

definition ip_packet :: "nat \<Rightarrow> nat \<Rightarrow> Packet \<Rightarrow> Packet" where
  "ip_packet off n p =
     (let b = (\<lambda>i. pkt_mem p (off + i))
      in (PushLayer PROTO_IP4 off 20
          (p\<lparr>inner_iph := Some off, iph := Some off, family := AF_INET, actual_ip_len := n,
             ip4h := Some \<lparr>h4_len = n, h4_id = be16 (b 4) (b 5), h4_proto = b 9,
                           h4_src = map (\<lambda>i. b (12 + i)) [0..<4], h4_dst = map (\<lambda>i. b (16 + i)) [0..<4]\<rparr>\<rparr>))
         \<lparr>ip_options_len := 0, ip_option_count := 0, actual_ip_len := n, rf := False, df := False, mf := False,
          frag_offset := 0, frag_flag := False, ip_data := Some (off + 20), ip_dsize := n - 20\<rparr>)"

lemma DecodeIP_plain:
  assumes "family p = NO_IP" "\<not> encapsulated p" "n \<le> len" "20 \<le> n"
    and "pkt_mem p off = 0x45" "be16 (pkt_mem p (off + 2)) (pkt_mem p (off + 3)) = n"
    and "pkt_mem p (off + 6) = 0" "pkt_mem p (off + 7) = 0"
  shows "\<exists>q. DecodeIP rec cf off len p = ip_next rec cf (pkt_mem p (off + 9)) (off + 20) (n - 20) q \<and> strip q = strip (ip_packet off n p)"
proof -
  have l: "20 \<le> len" using assms by simp
  have z: "be16 0 0 = 0" by (simp add: be16_def)
  have c: "3 + off = off + 3" "5 + off = off + 5" "7 + off = off + 7" by simp_all
  have hd: "unat (0x45 :: u8) = 69" by simp
  define p1 where "p1 = p\<lparr>inner_iph := Some off, iph := Some off, family := AF_INET, actual_ip_len := n,
       ip4h := Some \<lparr>h4_len = n, h4_id = be16 (pkt_mem p (off + 4)) (pkt_mem p (off + 5)), h4_proto = pkt_mem p (off + 9),
                     h4_src = map (\<lambda>i. pkt_mem p (off + (12 + i))) [0..<4], h4_dst = map (\<lambda>i. pkt_mem p (off + (16 + i))) [0..<4]\<rparr>\<rparr>"
  obtain q1 where q1: "(if ids_mode cf then IP4AddrTests cf off len p1 else Inr p1) = Inr q1" "strip q1 = strip p1"
    using IP4AddrTests_strip [OF l, of cf off p1] by (cases "ids_mode cf") auto
  obtain q2 where q2: "ip_checksum cf off len 20 q1 = (\<lambda>k. k q2)" "strip q2 = strip q1"
    using ip_checksum_strip [OF _ _ l, of cf off q1] by auto
  from q1 q2 have s2: "strip q2 = strip p1" by simp
  define q3 where "q3 = (PushLayer PROTO_IP4 off 20 q2)\<lparr>ip_options_len := 0, ip_option_count := 0, actual_ip_len := n,
      rf := False, df := False, mf := False, frag_offset := 0\<rparr>"
  define q4 where "q4 = (event_if cf DECODE_BAD_FRAGBITS False
      ((event_if cf DECODE_IP4_LEN_OFFSET (n > 65535) (event_if cf DECODE_IP4_DF_OFFSET False q3))\<lparr>frag_flag := False\<rparr>))
      \<lparr>ip_data := Some (off + 20), ip_dsize := n - 20\<rparr>"
  define q5 where "q5 = (if ids_mode cf then add_bits PROTO_BIT__IP q4 else q4)"
  have s5: "strip q5 = strip (ip_packet off n p)"
    using s2 by (rule strip_eqE)
      (simp add: q5_def q4_def q3_def p1_def ip_packet_def Let_def strip_def PushLayer_def add_bits_def event_if_def DecoderEvent_def)
  have "ip_option_count q5 = 0" "fam5 = frag_flag q5 \<Longrightarrow> \<not> fam5" "frag_offset q5 = 0" for fam5
    using s5 by (auto elim!: strip_eqE simp: ip_packet_def Let_def)
  note q5 = this(1) this(2) [OF refl] this(3)
  obtain q6 where q6: "IPMiscTests cf q5 = Inr q6" "strip q6 = strip q5"
    using IPMiscTests_strip [OF q5(1)] by blast
  have f6: "\<not> frag_flag q6" using s5 q6(2) by (auto elim!: strip_eqE simp: ip_packet_def Let_def)
  have e2: "\<not> encapsulated q2" "pkt_mem q2 = pkt_mem p"
    using s2 assms by (auto elim!: strip_eqE simp: p1_def)
  have "DecodeIP rec cf off len p = ip_next rec cf (pkt_mem p (off + 9)) (off + 20) (n - 20) q6"
  proof (cases "ids_mode cf")
    case True
    then have Q1: "IP4AddrTests cf off len p1 = Inr q1" using q1(1) by simp
    show ?thesis
      unfolding DecodeIP_def using assms l e2 f6 True
      apply (simp add: rd8_def rd16_def rdbytes_def z hd c Let_def add.assoc
        Q1 [unfolded p1_def] q2(1) rbind_def push_fields
        del: add_2_eq_Suc add_2_eq_Suc' Suc_eq_plus1 split del: if_split)
      apply (simp add: z c set_frag_def Let_def event_fields
         q6(1) [unfolded q5_def q4_def q3_def if_P [OF True]]
        del: add_2_eq_Suc add_2_eq_Suc' Suc_eq_plus1 split del: if_split)
      done
  next
    case False
    then have Q1: "q1 = p1" using q1(1) by simp
    show ?thesis
      unfolding DecodeIP_def using assms l e2 f6 False
      apply (simp add: rd8_def rd16_def rdbytes_def z hd c Let_def add.assoc
        q2(1) [unfolded Q1 p1_def] rbind_def push_fields
        del: add_2_eq_Suc add_2_eq_Suc' Suc_eq_plus1 split del: if_split)
      apply (simp add: z c set_frag_def Let_def event_fields
         q6(1) [unfolded q5_def q4_def q3_def if_not_P [OF False] Q1 p1_def]
        del: add_2_eq_Suc add_2_eq_Suc' Suc_eq_plus1 split del: if_split)
      done
  qed
  then show ?thesis using q6 s5 by auto
qed

lemma udp_checksum_strip:
  assumes "family p = AF_INET" "ip4h p = Some h" "\<not> unsure_encap p" "uhlen \<le> len" "8 \<le> len"
  shows "\<exists>q. udp_checksum cf off len uhlen p = (\<lambda>k. k q) \<and> strip q = strip p"
proof (cases "udp_checksums cf \<and> \<not> frag_flag p \<and> be16 (pkt_mem p (off + 6)) (pkt_mem p (off + 6 + 1)) \<noteq> 0 \<and>
    in_chksum (h4_src h @ h4_dst h @ [0, h4_proto h] @ htons (be16 (pkt_mem p (off + 4)) (pkt_mem p (off + 4 + 1))))
      (map (\<lambda>j. pkt_mem p (off + 0 + j)) [0..<uhlen]) \<noteq> 0")
  case True
  then show ?thesis using assms
    by (intro exI [of _ "add_error PKT_ERR_CKSUM_UDP p"])
      (auto simp: fun_eq_iff udp_checksum_def rd16_def rdbytes_def pseudo_header_def deref_def Let_def)
next
  case False
  then show ?thesis using assms
    by (intro exI [of _ p])
      (auto simp: fun_eq_iff udp_checksum_def rd16_def rdbytes_def pseudo_header_def deref_def Let_def)
qed

lemma add_fields:
  "sp (add_bits w p) = sp p" "dp (add_bits w p) = dp p"
  by (simp_all add: add_bits_def)

text \<open>The packet after a UDP header at \<open>off\<close>.\<close>

definition udp_packet :: "nat \<Rightarrow> nat \<Rightarrow> Packet \<Rightarrow> Packet" where
  "udp_packet off len p =
     (PushLayer PROTO_UDP off 8 (p\<lparr>inner_udph := Some off, udph := Some off,
        sp := be16 (pkt_mem p off) (pkt_mem p (off + 1)), dp := be16 (pkt_mem p (off + 2)) (pkt_mem p (off + 3))\<rparr>))
       \<lparr>data := Some (off + 8), dsize := len - 8\<rparr>"

lemma strip_UDPMiscTests [simp]: "strip (UDPMiscTests cf p) = strip p"
  by (simp add: UDPMiscTests_def)

lemma DecodeUDP_plain:
  assumes "family p = AF_INET" "ip4h p = Some h" "\<not> unsure_encap p" "\<not> frag_flag p" "\<not> bit_teredo p" "\<not> bit_gtp p"
    and "8 \<le> len" "be16 (pkt_mem p (off + 4)) (pkt_mem p (off + 5)) = len"
    and "sport = be16 (pkt_mem p off) (pkt_mem p (off + 1))" "dport = be16 (pkt_mem p (off + 2)) (pkt_mem p (off + 3))"
    and "\<not> ignore_udp_port cf sport" "\<not> ignore_udp_port cf dport"
  shows "\<exists>q. DecodeUDP rec cf off len p =
      rbind (if sport = TEREDO_PORT \<or> dport = TEREDO_PORT \<or> deep_teredo cf then rec D_TEREDO (off + 8) (len - 8) q else Inr q)
        (\<lambda>p. if gtp_decoding cf \<and> (gtp_port cf (sp p) \<or> gtp_port cf (dp p)) \<and> \<not> frag_flag p
             then rec D_GTP (off + 8) (len - 8) p else Inr p) \<and>
      strip q = strip (udp_packet off len p)"
proof -
  have ports: "be16 (pkt_mem p off) (pkt_mem p (Suc off)) = sport" "be16 (pkt_mem p (off + 2)) (pkt_mem p (off + 3)) = dport"
    using assms(9,10) by simp_all
  define p1 where "p1 = p\<lparr>inner_udph := Some off, udph := Some off\<rparr>"
  have c: "3 + off = off + 3" "5 + off = off + 5" "7 + off = off + 7" by simp_all
  obtain q1 where q1: "udp_checksum cf off len len p1 = (\<lambda>k. k q1)" "strip q1 = strip p1"
    using udp_checksum_strip [of p1 h len len] assms by (auto simp: p1_def)
  have e: "pkt_mem q1 = pkt_mem p" "\<not> frag_flag q1"
    using q1(2) assms by (auto elim!: strip_eqE simp: p1_def)
  define q2 where "q2 = UDPMiscTests cf (add_bits PROTO_BIT__UDP ((PushLayer PROTO_UDP off 8 (q1\<lparr>sp := sport, dp := dport\<rparr>))
      \<lparr>data := Some (off + 8), dsize := len - 8\<rparr>))"
  have "strip q2 = strip ((PushLayer PROTO_UDP off 8 (q1\<lparr>sp := sport, dp := dport\<rparr>))\<lparr>data := Some (off + 8), dsize := len - 8\<rparr>)"
    by (simp add: q2_def)
  also have "\<dots> = strip (udp_packet off len p)"
    by (rule strip_eqE [OF q1(2)]) (simp add: assms(9,10) p1_def udp_packet_def strip_def PushLayer_def)
  finally have s2: "strip q2 = strip (udp_packet off len p)" .
  have e2: "sp q2 = sport" "dp q2 = dport" "\<not> frag_flag q2"
    by (rule strip_eqE [OF s2]; simp add: udp_packet_def push_fields assms)+
  have "DecodeUDP rec cf off len p =
      rbind (if sport = TEREDO_PORT \<or> dport = TEREDO_PORT \<or> deep_teredo cf then rec D_TEREDO (off + 8) (len - 8) q2 else Inr q2)
        (\<lambda>p. if gtp_decoding cf \<and> (gtp_port cf (sp p) \<or> gtp_port cf (dp p)) \<and> \<not> frag_flag p
             then rec D_GTP (off + 8) (len - 8) p else Inr p)"
    using assms(1-8,11,12) e e2 unfolding DecodeUDP_def
    by (simp add: udp_length_def rd16_def c q1(1) [unfolded p1_def] push_fields Let_def add_fields ports
        q2_def [symmetric] del: add_2_eq_Suc add_2_eq_Suc' Suc_eq_plus1 split del: if_split)
  then show ?thesis using s2 by blast
qed

definition bytes :: "u8 list \<Rightarrow> nat \<Rightarrow> u8" where
  "bytes bs i = (if i < length bs then bs ! i else 0)"

lemma be16_htons: "n < 65536 \<Longrightarrow> be16 (of_nat (n div 256)) (of_nat n) = n"
  by (simp add: be16_def unat_of_nat)

text \<open>An Ethernet frame with a UDP datagram in a plain IPv4 header, and what a switch pads it with.\<close>

definition udp_frame :: "u8 list \<Rightarrow> u8 list \<Rightarrow> u8 list \<Rightarrow> u8 list \<Rightarrow> nat \<Rightarrow> nat \<Rightarrow> u8 list \<Rightarrow> u8 list \<Rightarrow> u8 list" where
  "udp_frame macs misc src dst sport dport payload pad =
     macs @ [8, 0] @ [0x45, misc ! 0] @ htons (length payload + 28) @ [misc ! 1, misc ! 2, 0, 0, misc ! 3, 17, misc ! 4, misc ! 5] @
     src @ dst @ htons sport @ htons dport @ htons (length payload + 8) @ [misc ! 6, misc ! 7] @ payload @ pad"

lemma udp_frame_bytes:
  fixes misc pad :: "u8 list"
  assumes "length macs = 12" "length src = 4" "length dst = 4" "sport < 65536" "dport < 65536" "length payload < 65508"
  defines "m \<equiv> bytes (udp_frame macs misc src dst sport dport payload pad)"
  shows "be16 (m 12) (m 13) = ETHERNET_TYPE_IP" "m 14 = 0x45" "be16 (m 16) (m 17) = length payload + 28" "m 20 = 0" "m 21 = 0"
    "m 23 = IPPROTO_UDP" "map (\<lambda>i. m (26 + i)) [0..<4] = src" "map (\<lambda>i. m (30 + i)) [0..<4] = dst"
    "be16 (m 34) (m 35) = sport" "be16 (m 36) (m 37) = dport" "be16 (m 38) (m 39) = length payload + 8"
    "map (\<lambda>i. m (42 + i)) [0..<length payload] = payload"
proof -
  show "be16 (m 12) (m 13) = ETHERNET_TYPE_IP" "m 14 = 0x45" "m 20 = 0" "m 21 = 0" "m 23 = IPPROTO_UDP"
    using assms(1-3) by (simp_all add: m_def bytes_def udp_frame_def htons_def nth_append be16_def del: One_nat_def)
  show "be16 (m 16) (m 17) = length payload + 28"  "be16 (m 34) (m 35) = sport" "be16 (m 36) (m 37) = dport" "be16 (m 38) (m 39) = length payload + 8"
    using assms(1-6) by (simp_all add: m_def bytes_def udp_frame_def htons_def nth_append be16_htons del: One_nat_def of_nat_add)
  show "map (\<lambda>i. m (26 + i)) [0..<4] = src" "map (\<lambda>i. m (30 + i)) [0..<4] = dst"
    "map (\<lambda>i. m (42 + i)) [0..<length payload] = payload"
    using assms(1-3) by (auto intro!: nth_equalityI simp: m_def bytes_def udp_frame_def htons_def nth_append)
qed

lemma udp_frame_length: "length macs = 12 \<Longrightarrow> length src = 4 \<Longrightarrow> length dst = 4 \<Longrightarrow>
    length (udp_frame macs misc src dst sport dport payload pad) = length payload + length pad + 42"
  by (simp add: udp_frame_def htons_def)

lemma ip_packet_fields [simp]:
  "pkt_mem (ip_packet off n p) = pkt_mem p" "family (ip_packet off n p) = AF_INET" "frag_flag (ip_packet off n p) = False"
  "unsure_encap (ip_packet off n p) = unsure_encap p" "bit_teredo (ip_packet off n p) = bit_teredo p" "bit_gtp (ip_packet off n p) = bit_gtp p"
  "caplen (ip_packet off n p) = caplen p" "ip_option_count (ip_packet off n p) = 0" "iph (ip_packet off n p) = Some off"
  "ip4h (ip_packet off n p) = Some \<lparr>h4_len = n, h4_id = be16 (pkt_mem p (off + 4)) (pkt_mem p (off + 5)), h4_proto = pkt_mem p (off + 9),
     h4_src = map (\<lambda>i. pkt_mem p (off + (12 + i))) [0..<4], h4_dst = map (\<lambda>i. pkt_mem p (off + (16 + i))) [0..<4]\<rparr>"
  by (simp_all add: ip_packet_def Let_def push_fields)

lemma ip_packet_layers: "length (layers p) < 32 \<Longrightarrow> layers (ip_packet off n p) = layers p @ [\<lparr>ly_proto = PROTO_IP4, ly_start = off, ly_length = 20\<rparr>]"
  by (simp add: ip_packet_def Let_def PushLayer_def del: One_nat_def)

text \<open>A frame with a plain IPv4 header comes to the decoder of its protocol.\<close>

lemma frame4_next:
  assumes "14 + n \<le> cap" "20 \<le> n" "be16 (mem 12) (mem 13) = ETHERNET_TYPE_IP" "mem 14 = 0x45" "be16 (mem 16) (mem 17) = n"
    and "mem 20 = 0" "mem 21 = 0"
  shows "\<exists>q. decode_frame cf mem cap old = ip_next (decode cf (3 * cap + 2)) cf (mem 23) 34 (n - 20) q \<and>
             strip q = strip (ip_packet 14 n (eth_packet mem cap old))"
proof -
  have "\<exists>q. DecodeIP (decode cf (3 * cap + 2)) cf 14 (cap - 14) (eth_packet mem cap old) =
      ip_next (decode cf (3 * cap + 2)) cf (pkt_mem (eth_packet mem cap old) (14 + 9)) (14 + 20) (n - 20) q \<and>
      strip q = strip (ip_packet 14 n (eth_packet mem cap old))"
    by (rule DecodeIP_plain) (use assms in simp_all)
  moreover have "decode cf (3 * cap + 3) D_IP d k p = DecodeIP (decode cf (3 * cap + 2)) cf d k p" for d k p
    by (subst decode_pos) simp_all
  moreover have "14 \<le> cap" "14 + 9 = (23 :: nat)" "14 + 20 = (34 :: nat)" using assms by simp_all
  ultimately show ?thesis
    by (simp only: frame_next ether_next_def assms(3) simp_thms if_True eth_fields)
qed

lemma udp_frame_to_udp:
  fixes misc pad :: "u8 list"
  assumes "length macs = 12" "length src = 4" "length dst = 4" "sport < 65536" "dport < 65536" "length payload < 65508"
  defines "f \<equiv> udp_frame macs misc src dst sport dport payload pad"
  shows "\<exists>q. decode_frame cf (bytes f) (length f) old = DecodeUDP (decode cf (3 * length f + 1)) cf 34 (length payload + 8) q \<and>
             strip q = strip (ip_packet 14 (length payload + 28) (eth_packet (bytes f) (length f) old))"
proof -
  note b = udp_frame_bytes [OF assms(1-6), of misc pad, folded f_def]
  have l: "length f = length payload + length pad + 42" using assms by (simp add: f_def udp_frame_length)
  have "\<exists>q. decode_frame cf (bytes f) (length f) old = ip_next (decode cf (3 * length f + 2)) cf (bytes f 23) 34 (length payload + 28 - 20) q \<and>
        strip q = strip (ip_packet 14 (length payload + 28) (eth_packet (bytes f) (length f) old))"
    by (rule frame4_next) (use b l in simp_all)
  moreover have "ip_next rec cf (bytes f 23) 34 k q = rec D_UDP 34 k q" for rec k q
    using b(6) by (simp add: ip_next_def)
  moreover have "decode cf (3 * length f + 2) D_UDP d k q = DecodeUDP (decode cf (3 * length f + 1)) cf d k q" for d k q
    by (subst decode_pos) simp_all
  moreover have "length payload + 28 - 20 = length payload + 8" by simp
  ultimately show ?thesis by (simp only:)
qed

lemma udp_frame_after_udp:
  fixes misc pad :: "u8 list"
  assumes l: "length macs = 12" "length src = 4" "length dst = 4" "sport < 65536" "dport < 65536" "length payload < 65508"
    and ign: "\<not> ignore_udp_port cf sport" "\<not> ignore_udp_port cf dport"
  defines "f \<equiv> udp_frame macs misc src dst sport dport payload pad"
  defines "rec \<equiv> decode cf (3 * length f + 1)"
  shows "\<exists>q. decode_frame cf (bytes f) (length f) old =
      rbind (if sport = TEREDO_PORT \<or> dport = TEREDO_PORT \<or> deep_teredo cf then rec D_TEREDO 42 (length payload) q else Inr q)
        (\<lambda>p. if gtp_decoding cf \<and> (gtp_port cf (sp p) \<or> gtp_port cf (dp p)) \<and> \<not> frag_flag p
             then rec D_GTP 42 (length payload) p else Inr p) \<and>
      strip q = strip (udp_packet 34 (length payload + 8) (ip_packet 14 (length payload + 28) (eth_packet (bytes f) (length f) old)))"
proof -
  note b = udp_frame_bytes [OF l, of misc pad, folded f_def]
  define e where "e = eth_packet (bytes f) (length f) old"
  obtain q where q: "decode_frame cf (bytes f) (length f) old = DecodeUDP rec cf 34 (length payload + 8) q"
    "strip q = strip (ip_packet 14 (length payload + 28) e)"
    using udp_frame_to_udp [OF l, of cf misc pad old] by (auto simp: f_def rec_def e_def)
  show ?thesis
  proof (rule strip_eqE [OF q(2)])
    fix es pb ef
    assume qe: "q = ip_packet 14 (length payload + 28) e\<lparr>dec_events := es, proto_bits := pb, error_flags := ef\<rparr>"
    have u: "strip (udp_packet 34 (length payload + 8) q) = strip (udp_packet 34 (length payload + 8) (ip_packet 14 (length payload + 28) e))"
      by (simp add: qe udp_packet_def strip_def PushLayer_def)
    have "\<exists>q'. DecodeUDP rec cf 34 (length payload + 8) q =
      rbind (if sport = TEREDO_PORT \<or> dport = TEREDO_PORT \<or> deep_teredo cf then rec D_TEREDO (34 + 8) (length payload + 8 - 8) q' else Inr q')
        (\<lambda>p. if gtp_decoding cf \<and> (gtp_port cf (sp p) \<or> gtp_port cf (dp p)) \<and> \<not> frag_flag p
             then rec D_GTP (34 + 8) (length payload + 8 - 8) p else Inr p) \<and>
      strip q' = strip (udp_packet 34 (length payload + 8) q)"
      by (rule DecodeUDP_plain) (use b ign in \<open>simp_all add: qe e_def\<close>)
    moreover have "34 + 8 = (42 :: nat)" "length payload + 8 - 8 = length payload" by simp_all
    ultimately show ?thesis unfolding q(1) u e_def [symmetric] by (simp only:)
  qed
qed

lemma udp_packet_fields:
  "data (udp_packet off n p) = Some (off + 8)" "dsize (udp_packet off n p) = n - 8" "pkt_mem (udp_packet off n p) = pkt_mem p"
  "ip4h (udp_packet off n p) = ip4h p" "sp (udp_packet off n p) = be16 (pkt_mem p off) (pkt_mem p (off + 1))"
  "dp (udp_packet off n p) = be16 (pkt_mem p (off + 2)) (pkt_mem p (off + 3))"
  "length (layers p) < 32 \<Longrightarrow> layers (udp_packet off n p) = layers p @ [\<lparr>ly_proto = PROTO_UDP, ly_start = off, ly_length = 8\<rparr>]"
  "length (layers p) < 32 \<Longrightarrow> frag_flag (udp_packet off n p) = frag_flag p"
  by (simp_all add: udp_packet_def PushLayer_def del: One_nat_def)

text \<open>An IPv6 header at \<open>off\<close>.\<close>

definition ip6_packet :: "DecodeConf \<Rightarrow> nat \<Rightarrow> nat \<Rightarrow> Packet \<Rightarrow> Packet" where
  "ip6_packet cf off plen p =
     (let h = \<lparr>h6_len = plen, h6_next = pkt_mem p (off + 6), h6_src = map (\<lambda>i. pkt_mem p (off + (8 + i))) [0..<16],
               h6_dst = map (\<lambda>i. pkt_mem p (off + (24 + i))) [0..<16]\<rparr>
      in IPV6MiscTests cf h (PushLayer PROTO_IP6 off 40
      (p\<lparr>inner_iph := Some off, iph := Some off, family := AF_INET6, ip6h := Some h,
         ip_option_count := 0, actual_ip_len := plen, ip_data := Some (off + 40), ip_dsize := plen\<rparr>)))"

lemma DecodeIPV6_plain:
  assumes "family p = NO_IP" "\<not> encapsulated p" "\<not> bit_teredo p" "plen + 40 \<le> len"
    and "unat (pkt_mem p off) div 16 = 6" "be16 (pkt_mem p (off + 4)) (pkt_mem p (off + 5)) = plen"
  shows "DecodeIPV6 rec cf off len p = rec (D_IP6EXT (pkt_mem p (off + 6))) (off + 40) plen (ip6_packet cf off plen p)"
proof -
  have c: "5 + off = off + 5" by simp
  show ?thesis
  using assms unfolding DecodeIPV6_def ip6_packet_def
  by (simp add: rd8_def rd16_def rdbytes_def Let_def add.assoc c split del: if_split)
qed

lemma frame6_next:
  assumes "54 + plen \<le> cap" "be16 (mem 12) (mem 13) = ETHERNET_TYPE_IPV6" "unat (mem 14) div 16 = 6" "be16 (mem 18) (mem 19) = plen"
  shows "decode_frame cf mem cap old = DecodeIPV6Extensions (decode cf (3 * cap + 1)) cf (mem 20) 54 plen (ip6_packet cf 14 plen (eth_packet mem cap old))"
proof -
  have "14 \<le> cap" "plen + 40 \<le> cap - 14" using assms by simp_all
  moreover have "decode cf (3 * cap + 3) D_IPV6 d n p = DecodeIPV6 (decode cf (3 * cap + 2)) cf d n p" for d n p
    by (subst decode_pos) simp_all
  moreover have "decode cf (3 * cap + 2) (D_IP6EXT t) d n p = DecodeIPV6Extensions (decode cf (3 * cap + 1)) cf t d n p" for t d n p
    by (subst decode_pos) simp_all
  ultimately show ?thesis
    using DecodeIPV6_plain [of "eth_packet mem cap old" plen "cap - 14" 14 "decode cf (3 * cap + 2)" cf] assms(2-)
    by (simp add: frame_next ether_next_def)
qed

end
