(* ===== verification/DecodeFrames.thy ===== *)
theory DecodeFrames
  imports FrameSteps
begin

text \<open>
  The properties of the packet decoders on frames: termination, the frames that make them read past the
  packet, the decoding of UDP frames and of TCP options, and VLAN frames with an LLC header.
\<close>

section \<open>The depth does not matter\<close>

definition fuel_le :: "fault + 'a \<Rightarrow> fault + 'a \<Rightarrow> bool" where
  "fuel_le r r' = (r = Inl Out_of_fuel \<or> r = r')"

named_theorems flat

lemma fuel_le_refl [flat]: "fuel_le r r" by (simp add: fuel_le_def)
lemma fuel_le_if [flat]: "fuel_le x x' \<Longrightarrow> fuel_le y y' \<Longrightarrow> fuel_le (if b then x else y) (if b then x' else y')" by simp
lemma fuel_le_rbind [flat]: "fuel_le m m' \<Longrightarrow> (\<And>x. fuel_le (f x) (f' x)) \<Longrightarrow> fuel_le (rbind m f) (rbind m' f')"
  unfolding fuel_le_def rbind_def by (cases m; cases m'; simp; blast)
lemma fuel_le_reads [flat]:
  "(\<And>v. fuel_le (k v) (k' v)) \<Longrightarrow> fuel_le (rd8 s p off len i k) (rd8 s p off len i k')"
  "(\<And>v. fuel_le (k1 v) (k1' v)) \<Longrightarrow> fuel_le (rd16 s p off len i k1) (rd16 s p off len i k1')"
  "(\<And>v. fuel_le (k2 v) (k2' v)) \<Longrightarrow> fuel_le (rdbytes s p off len i n k2) (rdbytes s p off len i n k2')"
  "(\<And>v. fuel_le (k3 v) (k3' v)) \<Longrightarrow> fuel_le (deref s q k3) (deref s q k3')"
  by (auto simp: rd8_def rd16_def rdbytes_def deref_def fuel_le_def split: option.split)
lemma fuel_le_GET [flat]:
  "(\<And>v. fuel_le (k v) (k' v)) \<Longrightarrow> fuel_le (GET_IPH_PROTO s p k) (GET_IPH_PROTO s p k')"
  "(\<And>v. fuel_le (k1 v) (k1' v)) \<Longrightarrow> fuel_le (GET_IPH_LEN s p k1) (GET_IPH_LEN s p k1')"
  "(\<And>v. fuel_le (k1 v) (k1' v)) \<Longrightarrow> fuel_le (GET_IPH_HLEN s p k1) (GET_IPH_HLEN s p k1')"
  "(\<And>v. fuel_le (k2 v) (k2' v)) \<Longrightarrow> fuel_le (pseudo_header s n p k2) (pseudo_header s n p k2')"
  unfolding GET_IPH_PROTO_def GET_IPH_LEN_def GET_IPH_HLEN_def pseudo_header_def by (intro flat; simp)+
lemma fuel_le_udp [flat]:
  "(\<And>v. fuel_le (k v) (k' v)) \<Longrightarrow> fuel_le (udp_length off len p k) (udp_length off len p k')"
  "(\<And>v. fuel_le (k1 v) (k1' v)) \<Longrightarrow> fuel_le (udp_checksum cf off len n p k1) (udp_checksum cf off len n p k1')"
  "(\<And>v. fuel_le (k1 v) (k1' v)) \<Longrightarrow> fuel_le (ip_checksum cf off len n p k1) (ip_checksum cf off len n p k1')"
  unfolding udp_length_def udp_checksum_def ip_checksum_def in_chksum_ip_def Let_def by (intro flat; simp)+
lemma fuel_le_gtp_ext [flat]:
  "(\<And>v. fuel_le (k v) (k' v)) \<Longrightarrow> fuel_le (gtp_ext n off len p h k) (gtp_ext n off len p h k')"
  by (induction n arbitrary: h) (auto intro!: flat simp: Let_def simp del: gtp_ext.simps simp: gtp_ext.simps [of 0] gtp_ext.simps [of "Suc n" for n])
lemma fuel_le_gre_route [flat]:
  "(\<And>v. fuel_le (k v) (k' v)) \<Longrightarrow> fuel_le (gre_route n off len p h k) (gre_route n off len p h k')"
  by (induction n arbitrary: h) (auto intro!: flat simp: Let_def simp del: gre_route.simps simp: gre_route.simps [of 0] gre_route.simps [of "Suc n" for n])
lemma fuel_le_option [flat]: "fuel_le x x' \<Longrightarrow> (\<And>v. fuel_le (f v) (f' v)) \<Longrightarrow>
    fuel_le (case q of None \<Rightarrow> x | Some v \<Rightarrow> f v) (case q of None \<Rightarrow> x' | Some v \<Rightarrow> f' v)"
  by (cases q) simp_all
lemma fuel_le_prod [flat]: "(\<And>a b. fuel_le (f a b) (f' a b)) \<Longrightarrow> fuel_le (case q of (a, b) \<Rightarrow> f a b) (case q of (a, b) \<Rightarrow> f' a b)"
  by (cases q) simp

lemma decode_mono: "fuel_le (decode cf n d off len p) (decode cf (Suc n) d off len p)"
proof (induction n arbitrary: d off len p)
  case (Suc n)
  note [flat] = Suc.IH
  show ?case
    apply (subst decode.simps(2))
    apply (subst decode.simps(2))
    apply (cases d)
    apply (simp_all only: decoder.case)
    subgoal unfolding DecodeIP_def Let_def ip_next_def by (intro flat)
    subgoal unfolding DecodeIPV6_def Let_def by (intro flat)
    subgoal unfolding DecodeIPV6Extensions_def Let_def by (intro flat)
    subgoal unfolding DecodeIPV6Options_def Let_def by (intro flat)
    subgoal unfolding DecodeUDP_def Let_def by (intro flat)
    subgoal unfolding DecodeESP_def Let_def by (intro flat)
    subgoal unfolding DecodeGRE_def Let_def gre_payload_def by (intro flat)
    subgoal unfolding DecodeTeredo_def Let_def teredo_origin_def by (intro flat)
    subgoal unfolding DecodeGTP_def Let_def by (intro flat)
    subgoal unfolding DecodeVlan_def Let_def ether_next_def by (intro flat)
    subgoal unfolding DecodeMPLS_def Let_def by (intro flat)
    subgoal unfolding DecodeEthOverMPLS_def Let_def ether_next_def by (intro flat)
    subgoal unfolding DecodeTransBridging_def Let_def by (intro flat)
    subgoal unfolding DecodePPPoEPkt_def Let_def by (intro flat)
    subgoal unfolding DecodePppPktEncapsulated_def Let_def by (intro flat)
    done
qed (simp add: fuel_le_def)

lemma decode_mono_le: "n \<le> m \<Longrightarrow> fuel_le (decode cf n d off len p) (decode cf m d off len p)"
proof (induction rule: dec_induct)
  case (step k)
  then show ?case using decode_mono [of cf k d off len p] by (auto simp: fuel_le_def)
qed (simp add: fuel_le_def)

lemma DecodeEthPkt_mono: "fuel_le (DecodeEthPkt (decode cf n) cf mem cap old) (DecodeEthPkt (decode cf (n + k)) cf mem cap old)"
proof -
  have [flat]: "fuel_le (decode cf n d off len p) (decode cf (n + k) d off len p)" for d off len p
    by (rule decode_mono_le) simp
  show ?thesis unfolding DecodeEthPkt_def ether_next_def Let_def by (intro flat)
qed

text \<open>
  C24: The decoding of a frame ends, and the bound on nested decoders that the model puts in place of
  the C stack is never reached: with any larger bound the result is the same.
\<close>

theorem decode_depth_enough:
  "DecodeEthPkt (decode cf (3 * cap + 3 + k)) cf mem cap old = decode_frame cf mem cap old \<and>
   decode_frame cf mem cap old \<noteq> Inl Out_of_fuel"
proof -
  have "ok_res False (pkt_wf cap) (decode_frame cf mem cap old)"
    unfolding decode_frame_def by (rule ok_DecodeEthPkt) simp_all
  then have "decode_frame cf mem cap old \<noteq> Inl Out_of_fuel" by (auto simp: ok_res_def)
  then show ?thesis
    using DecodeEthPkt_mono [of cf "3 * cap + 3" mem cap old k] by (auto simp: fuel_le_def decode_frame_def)
qed

section \<open>Frames that make the decoders read past the packet\<close>

definition conf :: DecodeConf where
  "conf = \<lparr>ids_mode = True, event_enabled = (\<lambda>_. True), oversized_alerts = True, tcpopt_alerts = True, tcp_checksums = False,
     udp_checksums = False, ip_checksums = False, icmp_checksums = False, esp_decoding = True, gtp_decoding = True,
     gtp_port = (\<lambda>n. n = 2152), deep_teredo = False, ignore_tcp_port = (\<lambda>_. False), ignore_udp_port = (\<lambda>_. False),
     syn_multicast = (\<lambda>_. False), mpls_multicast = True, mpls_stack_depth = None, mpls_payload = 1\<rparr>"

lemma conf_sel [simp]: "event_enabled conf n" "ids_mode conf" "\<not> icmp_checksums conf" "\<not> ip_checksums conf" "\<not> deep_teredo conf"
  "\<not> ignore_udp_port conf n" "mpls_stack_depth conf = None" "mpls_payload conf = 1"
  by (simp_all add: conf_def)

lemma bytes_nth: "i < length bs \<Longrightarrow> bytes bs i = bs ! i" by (simp add: bytes_def)

definition mpls_frame :: "u8 list" where
  "mpls_frame = [0,0,0,0,0,0,0,0,0,0,0,0,0x88,0x47,0,1,0,0]"

lemma mpls_overread: "decode_frame conf (bytes mpls_frame) (length mpls_frame) old = Inl (Overread S_MPLS)"
  by (simp add: mpls_frame_def frame_next bytes_nth be16_def ether_next_def decode_numeral DecodeMPLS_def mpls_loop.simps[of _ 4]
      mpls_loop.simps[of _ 3] rd32_def rbind_def)

definition teredo_frame :: "u8 list" where
  "teredo_frame = udp_frame (replicate 12 0) (replicate 8 0) [1,1,1,1] [2,2,2,2] 3544 81 (0 # 1 # replicate 11 0) []"

lemma teredo_overread: "decode_frame conf (bytes teredo_frame) (length teredo_frame) old = Inl (Overread S_Teredo)"
proof -
  have l: "length teredo_frame = 55" by (simp add: teredo_frame_def udp_frame_def htons_def)
  obtain q k where q: "decode_frame conf (bytes teredo_frame) 55 old = rbind (decode conf 166 D_TEREDO 42 13 q) k"
    "strip q = strip (udp_packet 34 21 (ip_packet 14 41 (eth_packet (bytes teredo_frame) 55 old)))"
    using udp_frame_after_udp [of "replicate 12 0" "[1,1,1,1]" "[2,2,2,2]" 3544 81 "0 # 1 # replicate 11 0" conf "replicate 8 0" "[]" old,
        folded teredo_frame_def] by (auto simp: l)
  have m: "pkt_mem q = bytes teredo_frame"
    by (rule strip_eqE [OF q(2)]) (simp add: udp_packet_fields)
  have "bytes teredo_frame 42 = 0" "bytes teredo_frame 43 = 1" "bytes teredo_frame 44 = 0" "bytes teredo_frame 45 = 0"
    by (simp_all add: teredo_frame_def udp_frame_def bytes_def htons_def nth_append)
  then have "decode conf 166 D_TEREDO 42 13 q = Inl (Overread S_Teredo)"
    by (simp add: decode_numeral DecodeTeredo_def teredo_origin_def rd16_def rd8_def be16_def m Let_def)
  then show ?thesis using q(1) by (simp add: l rbind_def)
qed

definition hop_frame :: "u8 list" where
  "hop_frame = [0,0,0,0,0,0,0,0,0,0,0,0,0x86,0xdd] @ [0x60,0,0,0,0,8,0,64] @ replicate 32 1 @ [59,1,0,0,0,0,0,0]"

lemma ip6_packet_fields [simp]:
  "pkt_mem (ip6_packet cf off n p) = pkt_mem p" "family (ip6_packet cf off n p) = AF_INET6" "caplen (ip6_packet cf off n p) = caplen p"
  "ip6_extension_count (ip6_packet cf off n p) = ip6_extension_count p"
  "ip6h (ip6_packet cf off n p) = Some \<lparr>h6_len = n, h6_next = pkt_mem p (off + 6), h6_src = map (\<lambda>i. pkt_mem p (off + (8 + i))) [0..<16],
                       h6_dst = map (\<lambda>i. pkt_mem p (off + (24 + i))) [0..<16]\<rparr>"
  by (simp_all add: ip6_packet_def push_fields Let_def)

lemma ext_hop:
  "ip6h p = Some h \<Longrightarrow> DecodeIPV6Extensions rec cf 0 off len p =
     rec (D_IP6OPT 0) off len (if ids_mode cf then add_bits PROTO_BIT__IP (p\<lparr>ip6h := Some (h\<lparr>h6_next := 0\<rparr>)\<rparr>) else p\<lparr>ip6h := Some (h\<lparr>h6_next := 0\<rparr>)\<rparr>)"
  by (simp add: DecodeIPV6Extensions_def deref_def Let_def)

lemma options_hop:
  assumes "8 \<le> len" "ip6_extension_count p = 0" "m = pkt_mem p"
    and "hop_loop cf (unat (m (off + 1)) * 8 + 8) off len (unat (m (off + 1)) * 8 + 8) 2
      (if len < unat (m (off + 1)) * 8 + 8 then DecoderEvent cf DECODE_IPV6_TRUNCATED_EXT (p\<lparr>ip6_extensions := (ip6_extensions p)(0 := \<lparr>ex_type = 0, ex_data = off\<rparr>)\<rparr>)
       else p\<lparr>ip6_extensions := (ip6_extensions p)(0 := \<lparr>ex_type = 0, ex_data = off\<rparr>)\<rparr>) = Inl e"
  shows "DecodeIPV6Options rec cf 0 off len p = Inl e"
  using assms by (simp add: DecodeIPV6Options_def rd8_def Let_def CheckIPV6HopOptions_def rbind_def del: hop_loop.simps)

lemma hop_overread: "decode_frame conf (bytes hop_frame) (length hop_frame) old = Inl (Overread S_HopOpt)"
proof -
  have l: "length hop_frame = 62" by (simp add: hop_frame_def)
  have b: "be16 (bytes hop_frame 12) (bytes hop_frame 13) = ETHERNET_TYPE_IPV6" "unat (bytes hop_frame 14) div 16 = 6"
    "be16 (bytes hop_frame 18) (bytes hop_frame 19) = 8" "bytes hop_frame 20 = 0"
    by (simp_all add: hop_frame_def bytes_def be16_def nth_append)
  have o: "bytes hop_frame 54 = 59" "bytes hop_frame 55 = 1" "bytes hop_frame 56 = 0" "bytes hop_frame 57 = 0" "bytes hop_frame 58 = 0"
    "bytes hop_frame 59 = 0" "bytes hop_frame 60 = 0" "bytes hop_frame 61 = 0"
    by (simp_all add: hop_frame_def bytes_def nth_append)
  have h: "hop_loop conf 16 54 8 16 2 p = Inl (Overread S_HopOpt)" if "pkt_mem p = bytes hop_frame" for p
    using that o by (simp add: hop_loop.simps [of _ "numeral w" for w] rd8_def)
  obtain p where p: "decode_frame conf (bytes hop_frame) 62 old = decode conf 187 (D_IP6OPT 0) 54 8 p"
      "pkt_mem p = bytes hop_frame" "ip6_extension_count p = 0"
  proof -
    let ?p = "ip6_packet conf 14 8 (eth_packet (bytes hop_frame) 62 old)"
    have "decode_frame conf (bytes hop_frame) 62 old = DecodeIPV6Extensions (decode conf 187) conf 0 54 8 ?p"
      using frame6_next [of 8 62 "bytes hop_frame" conf old, OF _ b(1-3)] unfolding b(4) by simp
    also note ext_hop [OF ip6_packet_fields(5)]
    finally show thesis
      by (rule that) (simp_all add: add_bits_def eth_packet_def packet_init_def push_fields)
  qed
  have "DecodeIPV6Options (decode conf 186) conf 0 54 8 p = Inl (Overread S_HopOpt)"
    by (rule options_hop [OF _ p(3) refl]) (use o p in \<open>simp_all add: h DecoderEvent_def del: hop_loop.simps\<close>)
  then show ?thesis
    unfolding l p(1) by (simp add: decode_numeral)
qed

definition icmp_frame :: "u8 list" where
  "icmp_frame = [0,0,0,0,0,0,0,0,0,0,0,0,8,0] @ [0x45,0,0,24,0,0,0,0,64,1,0,0,1,1,1,1,2,2,2,2] @ [30,0,0,0]"

lemma icmp_overread: "decode_frame conf (bytes icmp_frame) (length icmp_frame) old = Inl (Overread S_ICMPSeq)"
proof -
  have l: "length icmp_frame = 38" by (simp add: icmp_frame_def)
  have b: "be16 (bytes icmp_frame 12) (bytes icmp_frame 13) = ETHERNET_TYPE_IP" "bytes icmp_frame 14 = 0x45" "bytes icmp_frame 20 = 0"
    "be16 (bytes icmp_frame 16) (bytes icmp_frame 17) = 24" "bytes icmp_frame 21 = 0" "bytes icmp_frame 23 = IPPROTO_ICMP"
    "bytes icmp_frame 34 = 30"
    by (simp_all add: icmp_frame_def bytes_def be16_def nth_append)
  obtain q where q: "decode_frame conf (bytes icmp_frame) 38 old = ip_next (decode conf 116) conf IPPROTO_ICMP 34 4 q"
    "strip q = strip (ip_packet 14 24 (eth_packet (bytes icmp_frame) 38 old))"
    using frame4_next [of 24 38 "bytes icmp_frame" conf old] b by auto
  have m: "pkt_mem q = bytes icmp_frame"
    by (rule strip_eqE [OF q(2)]) simp
  show ?thesis
    unfolding l q(1)
    by (simp add: ip_next_def DecodeICMP_def rd8_def m b icmp_min_len_def icmp_checksum_def rbind_def ICMP4MiscTests_def icmp_seq_def
        rd16_def Let_def event_if_fields push_fields)
qed

definition orig6_frame :: "u8 list" where
  "orig6_frame = [0,0,0,0,0,0,0,0,0,0,0,0,0x86,0xdd] @ [0x60,0,0,0,0,48,58,64] @ replicate 32 1 @ [1,0,0,0,0,0,0,0] @
     [0x60,0,0,0,0,0,6,64] @ replicate 32 3"

lemma orig6_overread: "decode_frame conf (bytes orig6_frame) (length orig6_frame) old = Inl (Overread S_Orig6)"
proof -
  have l: "length orig6_frame = 102" by (simp add: orig6_frame_def)
  have b: "be16 (bytes orig6_frame 12) (bytes orig6_frame 13) = ETHERNET_TYPE_IPV6" "unat (bytes orig6_frame 14) div 16 = 6"
    "be16 (bytes orig6_frame 18) (bytes orig6_frame 19) = 48" "bytes orig6_frame 20 = IPPROTO_ICMPV6"
    "bytes orig6_frame 54 = 1" "bytes orig6_frame 55 = 0" "bytes orig6_frame 62 = 0x60" "bytes orig6_frame 68 = 6"
    by (simp_all add: orig6_frame_def bytes_def be16_def nth_append)
  let ?p = "ip6_packet conf 14 48 (eth_packet (bytes orig6_frame) 102 old)"
  have "DecodeICMPEmbeddedIP6 conf 62 40 p = Inl (Overread S_Orig6)" if "pkt_mem p = bytes orig6_frame" for p
    using that b by (simp add: DecodeICMPEmbeddedIP6_def rd8_def rd16_def orig_transport_def)
  then have "DecodeICMP6 conf 54 48 p = Inl (Overread S_Orig6)" if "pkt_mem p = bytes orig6_frame" for p
    using that b
    by (simp add: DecodeICMP6_def icmp_checksum_def rd8_def rbind_def Let_def icmp_skip4_def push_fields sub16_def)
  moreover have "decode_frame conf (bytes orig6_frame) 102 old = DecodeIPV6Extensions (decode conf 307) conf IPPROTO_ICMPV6 54 48 ?p"
    using frame6_next [of 48 102 "bytes orig6_frame" conf old, OF _ b(1-3)] unfolding b(4) by simp
  ultimately show ?thesis
    by (simp add: l DecodeIPV6Extensions_def deref_def Let_def CheckIPv6ExtensionOrder_def add_bits_def eth_packet_def push_fields packet_init_def)
qed

definition pgm_frame :: "u8 list" where
  "pgm_frame = [0,0,0,0,0,0,0,0,0,0,0,0,8,0] @ [0x45,0,0,65,0,0,0,0,64,113,0,0,1,1,1,1,2,2,2,2] @
     [0,0,0,0,8,0,1,0] @ replicate 28 0 @ [2,5] @ replicate 7 0"

lemma pgm_overread: "decode_frame conf (bytes pgm_frame) (length pgm_frame) old = Inl (Overread S_PGM)"
proof -
  have l: "length pgm_frame = 79" by (simp add: pgm_frame_def)
  have b: "be16 (bytes pgm_frame 12) (bytes pgm_frame 13) = ETHERNET_TYPE_IP" "bytes pgm_frame 14 = 0x45" "bytes pgm_frame 20 = 0"
    "be16 (bytes pgm_frame 16) (bytes pgm_frame 17) = 65" "bytes pgm_frame 21 = 0" "bytes pgm_frame 23 = IPPROTO_PGM"
    "bytes pgm_frame 38 = 8" "bytes pgm_frame 40 = 1" "bytes pgm_frame 70 = 2" "bytes pgm_frame 71 = 5"
    by (simp_all add: pgm_frame_def bytes_def be16_def nth_append)
  obtain q where q: "decode_frame conf (bytes pgm_frame) 79 old = ip_next (decode conf 239) conf IPPROTO_PGM 34 45 q"
    "strip q = strip (ip_packet 14 65 (eth_packet (bytes pgm_frame) 79 old))"
    using frame4_next [of 65 79 "bytes pgm_frame" conf old] b by auto
  have m: "pkt_mem q = bytes pgm_frame"
    by (rule strip_eqE [OF q(2)]) simp
  have w: "be16 1 x \<noteq> 0" for x by (simp add: be16_def)
  show ?thesis
    unfolding l q(1)
    by (simp add: ip_next_def CheckPGMVuln_def ip_payload_def rd8_def rd16_def m b w in_chksum_ip_def)
qed


section \<open>UDP frames\<close>

text \<open>
  C26: A UDP datagram in a plain IPv4 header in an Ethernet frame, padded or not, decodes to its ports,
  addresses, payload and layers, whatever the checksums and whatever the alerts.
\<close>

theorem udp_frame_decoded:
  fixes misc pad :: "u8 list"
  assumes "length macs = 12" "length src = 4" "length dst = 4" "sport < 65536" "dport < 65536" "length payload < 65508"
    and "\<not> ignore_udp_port cf sport" "\<not> ignore_udp_port cf dport"
    and "sport \<noteq> TEREDO_PORT" "dport \<noteq> TEREDO_PORT" "\<not> deep_teredo cf"
    and "\<not> (gtp_decoding cf \<and> (gtp_port cf sport \<or> gtp_port cf dport))"
    and "f = udp_frame macs misc src dst sport dport payload pad"
  shows "\<exists>p h. decode_frame cf (bytes f) (length f) old = Inr p \<and> sp p = sport \<and> dp p = dport \<and>
           ip4h p = Some h \<and> h4_src h = src \<and> h4_dst h = dst \<and>
           data p = Some 42 \<and> dsize p = length payload \<and> map (\<lambda>i. pkt_mem p (42 + i)) [0..<dsize p] = payload \<and>
           map ly_proto (layers p) = [PROTO_ETH, PROTO_IP4, PROTO_UDP]"
proof -
  note b = udp_frame_bytes [OF assms(1-6), of misc pad, folded assms(13)]
  let ?p = "udp_packet 34 (length payload + 8) (ip_packet 14 (length payload + 28) (eth_packet (bytes f) (length f) old))"
  obtain q where q: "decode_frame cf (bytes f) (length f) old =
      rbind (Inr q) (\<lambda>p. if gtp_decoding cf \<and> (gtp_port cf (sp p) \<or> gtp_port cf (dp p)) \<and> \<not> frag_flag p
             then decode cf (3 * length f + 1) D_GTP 42 (length payload) p else Inr p)" "strip q = strip ?p"
    using udp_frame_after_udp [OF assms(1-8), of misc pad old] assms(9-11,13) by auto
  show ?thesis
    by (rule strip_eqE [OF q(2)]) (use q(1) b assms(12) in
      \<open>simp add: rbind_def udp_packet_fields ip_packet_layers del: One_nat_def upt.simps\<close>)
qed

theorem udp_frame_decoded_witness:
  "\<exists>p h. decode_frame conf (bytes (udp_frame (replicate 12 7) (replicate 8 9) [10,0,0,1] [10,0,0,2] 53 5353 [1,2,3] [0]))
      (length (udp_frame (replicate 12 7) (replicate 8 9) [10,0,0,1] [10,0,0,2] 53 5353 [1,2,3] [0])) (packet_init (\<lambda>_. 0) 0 undefined) = Inr p \<and>
     sp p = 53 \<and> dp p = 5353 \<and> ip4h p = Some h \<and> h4_src h = [10,0,0,1] \<and> h4_dst h = [10,0,0,2] \<and>
     data p = Some 42 \<and> dsize p = length [1,2,3 :: u8] \<and> map (\<lambda>i. pkt_mem p (42 + i)) [0..<dsize p] = [1,2,3] \<and>
     map ly_proto (layers p) = [PROTO_ETH, PROTO_IP4, PROTO_UDP]"
  by (rule udp_frame_decoded [where misc = "replicate 8 9" and pad = "[0]", OF _ _ _ _ _ _ _ _ _ _ _ _ refl]) (simp_all add: conf_def)

section \<open>VLAN with an LLC header\<close>

text \<open>
  A VLAN frame whose LLC header announces IP is never decoded as IP: the decoder goes on at byte 12
  of the frame, in the VLAN tag itself, reports that this is not IPv4 and leaves the packet without an
  IP header.
\<close>

theorem vlan_llc_misdirected:
  assumes "46 \<le> cap" "be16 (mem 12) (mem 13) = ETHERNET_TYPE_8021Q" "be16 (mem 16) (mem 17) \<le> 1518"
    and "mem 18 = 0xaa" "mem 19 = 0xaa" "be16 (mem 24) (mem 25) = ETHERNET_TYPE_IP"
  shows "\<exists>p. decode_frame cf mem cap old = Inr p \<and> iph p = None \<and> family p = NO_IP \<and>
           dec_events p = (if ids_mode cf then [DECODE_NOT_IPV4_DGRAM] else []) \<and>
           map ly_proto (layers p) = [PROTO_ETH, PROTO_VLAN]"
proof -
  let ?e = "eth_packet mem cap old"
  define p where "p = (PushLayer PROTO_VLAN 14 4 (?e\<lparr>vh := Some 14, ehllc := Some 18, ehllcother := Some 20\<rparr>))
      \<lparr>inner_iph := Some 12, iph := Some 12\<rparr>"
  have v: "unat (mem 12) = 129"
  proof -
    have "unat (mem 12) < 256" "unat (mem 13) < 256" using unsigned_less [of "mem 12", where 'a=nat] unsigned_less [of "mem 13", where 'a=nat] by simp_all
    then show ?thesis using assms(2) unfolding be16_def by presburger
  qed
  have 1: "decode cf (3 * cap + 3) D_VLAN d n q = DecodeVlan (decode cf (3 * cap + 2)) cf d n q" for d n q
    by (subst decode_pos) simp_all
  have 2: "decode cf (3 * cap + 2) D_IP d n q = DecodeIP (decode cf (3 * cap + 1)) cf d n q" for d n q
    by (subst decode_pos) simp_all
  have c: "\<not> cap - 26 < 20" "\<not> cap - 14 < 12" using assms(1) by simp_all
  have "decode_frame cf mem cap old = ip_fail (DecoderEvent cf DECODE_NOT_IPV4_DGRAM p)"
    using assms v c
    by (simp add: frame_next 1 2 DecodeVlan_def rd16_def rd8_def ether_next_def DecodeIP_def Let_def push_fields p_def)
  then show ?thesis
    by (simp add: p_def ip_fail_def PushLayer_def DecoderEvent_def eth_packet_def packet_init_def)
qed

theorem vlan_llc_misdirected_witness:
  "\<exists>p. decode_frame conf (bytes ([0,0,0,0,0,0,0,0,0,0,0,0,0x81,0,0,1,0,28,0xaa,0xaa,3,0,0,0,8,0] @ replicate 20 0x45)) 46
      (packet_init (\<lambda>_. 0) 0 undefined) = Inr p \<and> iph p = None \<and> family p = NO_IP \<and>
     dec_events p = (if ids_mode conf then [DECODE_NOT_IPV4_DGRAM] else []) \<and>
     map ly_proto (layers p) = [PROTO_ETH, PROTO_VLAN]"
  by (rule vlan_llc_misdirected) (simp_all add: bytes_def be16_def)

section \<open>TCP options\<close>

text \<open>An option is its kind and its data; \<open>TCPOPT_NOP\<close> is a single byte.\<close>

fun enc_opts :: "(u8 \<times> u8 list) list \<Rightarrow> u8 list" where
  "enc_opts [] = []"
| "enc_opts ((c, d) # opts) = (if c = TCPOPT_NOP then [c] else c # of_nat (length d + 2) # d) @ enc_opts opts"

definition good_opt :: "u8 \<times> u8 list \<Rightarrow> bool" where
  "good_opt o' = (case o' of (c, d) \<Rightarrow> c \<noteq> TCPOPT_EOL \<and>
     (if c = TCPOPT_NOP then d = []
      else (fst (tcp_opt_class c) = - 1 \<or> int (length d) + 2 = fst (tcp_opt_class c)) \<and> (c = TCPOPT_SACK \<longrightarrow> d \<noteq> [])))"

fun opt_records :: "nat \<Rightarrow> (u8 \<times> u8 list) list \<Rightarrow> Options list" where
  "opt_records a [] = []"
| "opt_records a ((c, d) # opts) =
     (if c = TCPOPT_NOP then \<lparr>op_code = c, op_len = 0, op_data = None\<rparr> # opt_records (a + 1) opts
      else \<lparr>op_code = c, op_len = length d, op_data = (if d = [] then None else Some (a + 2))\<rparr> # opt_records (a + 2 + length d) opts)"

lemma Options_all: "r\<lparr>op_code := a, op_len := b, op_data := c\<rparr> = \<lparr>op_code = a, op_len = b, op_data = c\<rparr>" for r :: Options
  by (cases r) simp

lemma tcp_opts_done_fields [simp]:
  "tcp_option_count (tcp_opts_done cf n found p) = n" "tcp_options (tcp_opts_done cf n found p) = tcp_options p"
  by (simp_all add: tcp_opts_done_def Let_def DecoderEvent_def)

lemma OptLenValidate_good:
  assumes "i + length d + 2 \<le> o_len" "o_len \<le> 40" "pkt_mem p (start + (i + 1)) = of_nat (length d + 2)"
    and "expected = - 1 \<or> int (length d) + 2 = expected"
  shows "OptLenValidate s p start o_len i expected opt k =
     k 0 (opt\<lparr>op_len := length d, op_data := (if d = [] then None else Some (start + i + 2))\<rparr>) (length d + 2)"
proof -
  have l: "unat (of_nat (length d + 2) :: u8) = length d + 2"
    by (subst unat_of_nat) (use assms(1,2) in simp)
  have w: "(of_nat (length d + 2) :: u8) \<noteq> 0" "((of_nat (length d + 2) :: u8) = 2) = (d = [])" "\<not> (of_nat (length d + 2) :: u8) < 2"
    using l by (auto simp: word_unat_eq_iff word_less_nat_alt)
  show ?thesis
    unfolding OptLenValidate_def rd8_def Let_def
    using assms w l by (auto simp del: of_nat_add)
qed

lemma tcp_opt_loop_enc:
  assumes "\<forall>x\<in>set opts. good_opt x" "i + length (enc_opts opts) = o_len" "o_len \<le> 40" "start + o_len \<le> caplen p"
    and "\<forall>k<length (enc_opts opts). pkt_mem p (start + i + k) = enc_opts opts ! k"
    and "length opts \<le> room"
  shows "\<exists>q. tcp_opt_loop cf room start o_len i n found p = Inr q \<and> tcp_option_count q = n + length opts \<and>
           map (tcp_options q) [n..<n + length opts] = opt_records (start + i) opts \<and> (\<forall>j<n. tcp_options q j = tcp_options p j)"
  using assms
proof (induction opts arbitrary: i n found p room)
  case Nil
  then show ?case by (cases room) simp_all
next
  case (Cons a opts)
  obtain c d where a: "a = (c, d)" by (cases a)
  obtain r where room: "room = Suc r" using Cons.prems(6) by (cases room) simp_all
  have i: "i < o_len" using Cons.prems(2) by (simp add: a split: if_splits)
  have m0: "pkt_mem p (start + i) = c" using Cons.prems(5) [rule_format, of 0] by (simp add: a split: if_splits)
  have IH: "\<exists>q'. tcp_opt_loop cf r start o_len (i + k) (Suc n) fd q = Inr q' \<and> tcp_option_count q' = n + length (a # opts) \<and>
      map (tcp_options q') [n..<n + length (a # opts)] = tcp_options q n # opt_records (start + i + k) opts \<and>
      (\<forall>j<n. tcp_options q' j = tcp_options p j)"
    if k: "enc_opts (a # opts) = take k (enc_opts (a # opts)) @ enc_opts opts" "k \<le> length (enc_opts (a # opts))"
      and q: "pkt_mem q = pkt_mem p" "caplen q = caplen p" "\<forall>j<n. tcp_options q j = tcp_options p j" for k q fd
  proof -
    have len: "length (enc_opts (a # opts)) = k + length (enc_opts opts)"
      using arg_cong [OF k(1), of length] k(2) by simp
    have "pkt_mem p (start + (i + k) + j) = enc_opts opts ! j" if "j < length (enc_opts opts)" for j
    proof -
      have "pkt_mem p (start + i + (k + j)) = enc_opts (a # opts) ! (k + j)"
        using Cons.prems(5) that len by simp
      also have "\<dots> = enc_opts opts ! j"
        by (metis k length_take min.absorb2 nth_append_length_plus)
      finally show ?thesis by (simp add: add.assoc)
    qed
    then have "\<exists>q'. tcp_opt_loop cf r start o_len (i + k) (Suc n) fd q = Inr q' \<and> tcp_option_count q' = Suc n + length opts \<and>
        map (tcp_options q') [Suc n..<Suc n + length opts] = opt_records (start + (i + k)) opts \<and>
        (\<forall>j<Suc n. tcp_options q' j = tcp_options q j)"
      using Cons.prems q len by (intro Cons.IH) (auto simp: room)
    then obtain q' where q': "tcp_opt_loop cf r start o_len (i + k) (Suc n) fd q = Inr q'" "tcp_option_count q' = Suc n + length opts"
        "map (tcp_options q') [Suc n..<Suc n + length opts] = opt_records (start + (i + k)) opts" "\<forall>j<Suc n. tcp_options q' j = tcp_options q j"
      by blast
    have "[n..<n + length (a # opts)] = n # [Suc n..<Suc n + length opts]"
      by (simp add: upt_conv_Cons del: upt_Suc)
    then show ?thesis
      using q' q(3) by (simp add: add.assoc del: upt_Suc)
  qed
  show ?case
  proof (cases "c = TCPOPT_NOP")
    case True
    then have d: "d = []" using Cons.prems(1) by (simp add: a good_opt_def)
    let ?q = "set_tcp_opt n \<lparr>op_code = c, op_len = 0, op_data = None\<rparr> p"
    have "tcp_opt_loop cf room start o_len i n found p = tcp_opt_loop cf r start o_len (i + 1) (Suc n) found ?q"
      using i m0 True by (simp add: room rd8_def Options_all)
    then show ?thesis
      using IH [of 1 ?q found] True by (auto simp: a d set_tcp_opt_def)
  next
    case False
    have good: "good_opt (c, d)" using Cons.prems(1) by (simp add: a)
    then have c0: "c \<noteq> TCPOPT_EOL" by (simp add: good_opt_def)
    have len: "i + length d + 2 \<le> o_len" using Cons.prems(2) False by (simp add: a)
    have l: "unat (of_nat (length d + 2) :: u8) = length d + 2"
      by (subst unat_of_nat) (use len Cons.prems(3) in simp)
    have m1: "pkt_mem p (start + (i + 1)) = of_nat (length d + 2)"
      using Cons.prems(5) [rule_format, of 1] False by (simp add: a)
    define opt where "opt = \<lparr>op_code = c, op_len = length d, op_data = (if d = [] then None else Some (start + i + 2))\<rparr>"
    let ?q = "set_tcp_opt n opt p"
    have "\<exists>q fd. tcp_opt_loop cf room start o_len i n found p = tcp_opt_loop cf r start o_len (i + (length d + 2)) (Suc n) fd q \<and>
        pkt_mem q = pkt_mem p \<and> caplen q = caplen p \<and> tcp_options q = tcp_options ?q"
    proof -
      have e: "fst (tcp_opt_class c) = - 1 \<or> int (length d) + 2 = fst (tcp_opt_class c)"
        and sack: "c = TCPOPT_SACK \<Longrightarrow> d \<noteq> []" using good False by (auto simp: good_opt_def)
      have w: "c = TCPOPT_WSCALE \<Longrightarrow> length d = 1" using e by (auto simp: tcp_opt_class_def)
      have v: "OptLenValidate s p start o_len i (fst (tcp_opt_class c)) ((tcp_options p n)\<lparr>op_code := c\<rparr>) k = k 0 opt (length d + 2)" for s k
        unfolding opt_def by (subst OptLenValidate_good [OF len Cons.prems(3) m1 e]) (simp add: Options_all)
      have sack: "(c = TCPOPT_SACK \<and> op_data opt = None) = False" using sack by (auto simp: opt_def)
      define fd where "fd = insert (snd (tcp_opt_class c)) found"
      have E: "tcp_opt_loop cf room start o_len i n found p =
          (if c = TCPOPT_WSCALE then deref S_TCPOpt (op_data opt) (\<lambda>d'. rd8 S_TCPOpt ?q 0 (caplen ?q) d' (\<lambda>v.
               tcp_opt_loop cf r start o_len (i + (length d + 2)) (Suc n) fd
                 (if 14 < v \<and> tcpopt_alerts cf then DecoderEvent cf DECODE_TCPOPT_WSCALE_INVALID ?q else ?q)))
           else tcp_opt_loop cf r start o_len (i + (length d + 2)) (Suc n) fd ?q)"
        using i m0 False c0 by (simp add: sack room rd8_def v split_beta Let_def fd_def)
      show ?thesis
      proof (cases "c = TCPOPT_WSCALE")
        case True
        let ?v = "pkt_mem ?q (start + i + 2)"
        have "d \<noteq> []" "start + i + 2 < caplen ?q"
          using w [OF True] len Cons.prems(4) by (auto simp: set_tcp_opt_def)
        then have "op_data opt = Some (start + i + 2)" "start + i + 2 < caplen ?q" by (simp_all add: opt_def)
        then have "tcp_opt_loop cf room start o_len i n found p = tcp_opt_loop cf r start o_len (i + (length d + 2)) (Suc n) fd
            (if 14 < ?v \<and> tcpopt_alerts cf then DecoderEvent cf DECODE_TCPOPT_WSCALE_INVALID ?q else ?q)"
          unfolding E using True by (simp add: deref_def rd8_def)
        then show ?thesis
          by (intro exI conjI, assumption) (auto simp: set_tcp_opt_def DecoderEvent_def)
      next
        case False
        then show ?thesis unfolding E by (intro exI [of _ ?q] exI [of _ fd]) (simp add: set_tcp_opt_def)
      qed
    qed
    then obtain q fd where q: "tcp_opt_loop cf room start o_len i n found p = tcp_opt_loop cf r start o_len (i + (length d + 2)) (Suc n) fd q"
      "pkt_mem q = pkt_mem p" "caplen q = caplen p" "tcp_options q = tcp_options ?q" by blast
    then show ?thesis
      using IH [of "length d + 2" q fd] False by (auto simp: a set_tcp_opt_def add.assoc opt_def)
  qed
qed

text \<open>
  C27: The TCP option decoder recovers a well-formed list of options from its encoding: their number, and
  the kind, length and place of the data of each.
\<close>

theorem tcp_options_decoded:
  assumes "\<forall>x\<in>set opts. good_opt x" "length (enc_opts opts) \<le> 40" "start + length (enc_opts opts) \<le> caplen p"
    and "\<forall>k<length (enc_opts opts). pkt_mem p (start + k) = enc_opts opts ! k"
  shows "\<exists>q. DecodeTCPOptions cf start (length (enc_opts opts)) p = Inr q \<and> tcp_option_count q = length opts \<and>
           map (tcp_options q) [0..<tcp_option_count q] = opt_records start opts"
proof -
  have "length opts \<le> length (enc_opts opts)" for opts
    by (induction opts rule: enc_opts.induct) auto
  then have "length opts \<le> 40" using assms(2) order_trans by blast
  then have "\<exists>q. tcp_opt_loop cf 40 start (length (enc_opts opts)) 0 0 {} p = Inr q \<and> tcp_option_count q = 0 + length opts \<and>
           map (tcp_options q) [0..<0 + length opts] = opt_records (start + 0) opts \<and> (\<forall>j<0. tcp_options q j = tcp_options p j)"
    using assms by (intro tcp_opt_loop_enc) auto
  then show ?thesis
    using assms(2) by (auto simp: DecodeTCPOptions_def)
qed

theorem tcp_options_decoded_witness:
  "\<exists>q. DecodeTCPOptions conf 0 (length (enc_opts [(2, [5, 180]), (TCPOPT_NOP, []), (TCPOPT_WSCALE, [7])]))
        (packet_init (bytes (enc_opts [(2, [5, 180]), (TCPOPT_NOP, []), (TCPOPT_WSCALE, [7])])) 8 (packet_init (\<lambda>_. 0) 0 undefined)) = Inr q \<and>
     tcp_option_count q = length [(2 :: u8, [5, 180 :: u8]), (TCPOPT_NOP, []), (TCPOPT_WSCALE, [7])] \<and>
     map (tcp_options q) [0..<tcp_option_count q] = opt_records 0 [(2, [5, 180]), (TCPOPT_NOP, []), (TCPOPT_WSCALE, [7])]"
  by (rule tcp_options_decoded) (auto simp: good_opt_def tcp_opt_class_def packet_init_def bytes_def)

end
