(* ===== verification/LinkProofs.thy ===== *)
theory LinkProofs
  imports LinkLayers DecodeFrames
begin

text \<open>
  What the decoders of the other link layers guarantee, and the frames on which they do not.
\<close>

definition link_ok :: "nat \<Rightarrow> LinkHdrs \<times> link_end \<Rightarrow> bool" where
  "link_ok C r = (case snd r of Stop p \<Rightarrow> pinv True C p
     | Enter d off len p \<Rightarrow> pinv True C p \<and> pre d p \<and> off + len \<le> C \<and> rank d len \<le> 3 * C)"

lemma link_ok_simps [simp]:
  "link_ok C (l, Stop p) = pinv True C p"
  "link_ok C (l, Enter d off len p) = (pinv True C p \<and> pre d p \<and> off + len \<le> C \<and> rank d len \<le> 3 * C)"
  by (simp_all add: link_ok_def)

lemma pinv_packet_init [simp]: "pinv True cap (packet_init mem cap old)"
  by (simp add: pinv_def pkt_wf_def packet_init_def)

text \<open>The captures on which a link decoder goes wrong by itself.\<close>

definition link_gap :: "bool \<Rightarrow> dlt \<Rightarrow> (nat \<Rightarrow> u8) \<Rightarrow> nat \<Rightarrow> nat \<Rightarrow> bool" where
  "link_gap verbose dlt mem cap pktlen =
     (case dlt of
        DLT_I4L_RAWIP \<Rightarrow> 2 \<le> pktlen \<and> cap < pktlen
      | DLT_I4L_CISCOHDLC \<Rightarrow> 4 \<le> pktlen \<and> cap < 4
      | DLT_ENC \<Rightarrow> 12 \<le> cap \<and> cap < 32 \<and> mem 0 = 2 \<and> mem 1 = 0 \<and> mem 2 = 0 \<and> mem 3 = 0
      | DLT_FDDI \<Rightarrow> (cap < 15 \<and> \<not> verbose) \<or>
          15 \<le> cap \<and> mem 13 = 0xaa \<and> mem 14 = 0xaa \<and> cap < 21 \<and> \<not> verbose \<or>
          15 \<le> cap \<and> (mem 13 = 0xaa) \<noteq> (mem 14 = 0xaa) \<and> (16 \<le> cap \<or> \<not> verbose)
      | _ \<Rightarrow> False)"

lemma sub32_le: "b \<le> a \<Longrightarrow> a < 2 ^ 32 \<Longrightarrow> sub32 a b = a - b"
proof -
  assume "b \<le> a" "a < 2 ^ 32"
  then have "a + 2 ^ 32 - b = (a - b) + 2 ^ 32" "a - b < 2 ^ 32" by simp_all
  then show ?thesis by (simp only: sub32_def mod_add_self2 mod_less)
qed

lemma init_fields [simp]: "caplen (packet_init mem cap old) = cap" "pkt_mem (packet_init mem cap old) = mem"
  by (simp_all add: packet_init_def)

text \<open>A link decoder that reads and goes on inside the capture only.\<close>

definition link_safe :: "nat \<Rightarrow> link_res \<Rightarrow> bool" where
  "link_safe C r = (case r of Inl e \<Rightarrow> False | Inr x \<Rightarrow> link_ok C x)"

named_theorems lwp

lemma link_safe_simps [simp]: "link_safe C (Inl e) = False" "link_safe C (Inr x) = link_ok C x"
  by (simp_all add: link_safe_def)

lemma ls_Inr [lwp]: "link_ok C x \<Longrightarrow> link_safe C (Inr x)"
  by simp

lemma ls_if [lwp]: "(b \<Longrightarrow> link_safe C x) \<Longrightarrow> (\<not> b \<Longrightarrow> link_safe C y) \<Longrightarrow> link_safe C (if b then x else y)"
  by simp

lemma ls_rd8 [lwp]: "i < len \<Longrightarrow> (\<And>v. link_safe C (k v)) \<Longrightarrow> link_safe C (rd8 s p off len i k)"
  by (simp add: rd8_def)

lemma ls_rd16 [lwp]: "i + 2 \<le> len \<Longrightarrow> (\<And>v. link_safe C (k v)) \<Longrightarrow> link_safe C (rd16 s p off len i k)"
  by (simp add: rd16_def)

lemma ls_rd32 [lwp]: "i + 4 \<le> len \<Longrightarrow> (\<And>v. link_safe C (k v)) \<Longrightarrow> link_safe C (rd32 s p off len i k)"
  by (simp add: rd32_def)

lemma ok_DecodeEapol: "off + len \<le> C \<Longrightarrow> pinv True C p \<Longrightarrow> link_safe C (DecodeEapol cf off len p l)"
  unfolding DecodeEapol_def DecodeEAP_def DecodeEapolKey_def Let_def by (auto intro!: lwp)

lemma ok_link_ARP: "off + len \<le> C \<Longrightarrow> pinv True C p \<Longrightarrow>
    link_safe C (rbind (DecodeARP cf off len p) (\<lambda>p. Inr (l, Stop p)))"
  by (auto simp: DecodeARP_def Let_def rbind_def)


lemma ok_80211:
  "caplen p = C \<Longrightarrow> pinv True C p \<Longrightarrow> link_safe C (DecodeIEEE80211Pkt cf p l)"
  unfolding DecodeIEEE80211Pkt_def Let_def
  by (intro lwp ok_link_ARP ok_DecodeEapol; simp)

lemma ok_link:
  assumes "cap < 2 ^ 32" "\<not> link_gap verbose dlt mem cap pktlen"
  shows "link_safe cap (SetPktProcessor cf verbose pktlen dlt (packet_init mem cap old) l)"
proof (cases dlt)
  case DLT_NULL then show ?thesis by (auto simp: SetPktProcessor_def DecodeNullPkt_def)
next
  case DLT_RAW then show ?thesis by (auto simp: SetPktProcessor_def DecodeRawPkt_def)
next
  case DLT_IPV6 then show ?thesis by (auto simp: SetPktProcessor_def DecodeRawPkt6_def)
next
  case DLT_SLIP then show ?thesis by (auto simp: SetPktProcessor_def DecodeSlipPkt_def)
next
  case DLT_I4L_RAWIP then show ?thesis using assms by (auto simp: SetPktProcessor_def DecodeI4LRawIPPkt_def link_gap_def)
next
  case DLT_I4L_CISCOHDLC
  then show ?thesis using assms by (auto simp: SetPktProcessor_def DecodeI4LCiscoIPPkt_def link_gap_def sub32_le)
next
  case DLT_PPP then show ?thesis by (auto simp: SetPktProcessor_def DecodePppPkt_def Let_def intro!: lwp)
next
  case DLT_CHDLC then show ?thesis by (auto simp: SetPktProcessor_def DecodeChdlcPkt_def Let_def intro!: lwp)
next
  case DLT_PPP_SERIAL
  then show ?thesis by (auto simp: SetPktProcessor_def DecodePppSerialPkt_def DecodeChdlcPkt_def Let_def intro!: lwp)
next
  case DLT_LINUX_SLL
  then show ?thesis by (auto simp: SetPktProcessor_def DecodeLinuxSLLPkt_def Let_def intro!: lwp ok_link_ARP)
next
  case DLT_OLDPFLOG then show ?thesis by (auto simp: SetPktProcessor_def DecodeOldPflog_def Let_def intro!: lwp)
next
  case DLT_PFLOG then show ?thesis by (auto simp: SetPktProcessor_def DecodePflog_def Let_def intro!: lwp)
next
  case DLT_IEEE802_11
  then show ?thesis
    by (simp add: SetPktProcessor_def ok_80211)
next
  case DLT_IEEE802
  then show ?thesis by (auto simp: SetPktProcessor_def DecodeTRPkt_def tr_llc_def Let_def intro!: lwp)
next
  case DLT_ENC
  have af: "map mem [0 ..< 4] = [2, 0, 0, 0] \<longleftrightarrow> mem 0 = 2 \<and> mem 1 = 0 \<and> mem 2 = 0 \<and> mem 3 = 0"
    by (simp add: upt_rec numeral_2_eq_2 numeral_3_eq_3)
  show ?thesis
    using assms DLT_ENC
    by (auto simp: SetPktProcessor_def DecodeEncPkt_def rdbytes_def link_gap_def sub32_le af simp del: One_nat_def)
next
  case DLT_FDDI
  show ?thesis
    using assms DLT_FDDI
    by (auto simp: SetPktProcessor_def DecodeFDDIPkt_def fddi_next_def rd8_def rd16_def deref_def Let_def link_gap_def sub32_le simp del: One_nat_def)
qed

text \<open>The same without the invariant of the packet.\<close>

definition link_within :: "nat \<Rightarrow> link_res \<Rightarrow> bool" where
  "link_within C r = (case r of Inl e \<Rightarrow> False | Inr (l, Stop p) \<Rightarrow> True | Inr (l, Enter d off len p) \<Rightarrow> off + len \<le> C)"

lemma link_within_simps [simp]:
  "link_within C (Inl e) = False" "link_within C (Inr (l, Stop p)) = True"
  "link_within C (Inr (l, Enter d off len p)) = (off + len \<le> C)"
  by (simp_all add: link_within_def)

lemma link_safe_within: "link_safe C r \<Longrightarrow> link_within C r"
  by (auto simp: link_safe_def link_within_def link_ok_def split: sum.splits link_end.splits)

lemma sub32_wrap: "a < b \<Longrightarrow> b \<le> 2 ^ 32 \<Longrightarrow> sub32 a b = a + 2 ^ 32 - b"
  by (simp add: sub32_def)

lemma link_gap_outside:
  assumes "cap < 2 ^ 32" "link_gap verbose dlt mem cap pktlen"
  shows "\<not> link_within cap (SetPktProcessor cf verbose pktlen dlt (packet_init mem cap old) no_link)"
proof (cases dlt)
  case DLT_I4L_RAWIP then show ?thesis using assms by (auto simp: SetPktProcessor_def DecodeI4LRawIPPkt_def link_gap_def)
next
  case DLT_I4L_CISCOHDLC
  then show ?thesis using assms by (auto simp: SetPktProcessor_def DecodeI4LCiscoIPPkt_def link_gap_def sub32_wrap)
next
  case DLT_ENC
  have af: "map mem [0 ..< 4] = [2, 0, 0, 0] \<longleftrightarrow> mem 0 = 2 \<and> mem 1 = 0 \<and> mem 2 = 0 \<and> mem 3 = 0"
    by (simp add: upt_rec numeral_2_eq_2 numeral_3_eq_3)
  show ?thesis
    using assms DLT_ENC
    by (auto simp: SetPktProcessor_def DecodeEncPkt_def rdbytes_def link_gap_def sub32_wrap af simp del: One_nat_def)
next
  case DLT_FDDI
  show ?thesis
    using assms DLT_FDDI
    by (auto simp: SetPktProcessor_def DecodeFDDIPkt_def fddi_next_def rd8_def rd16_def deref_def Let_def link_gap_def
        sub32_le no_link_def simp del: One_nat_def)
qed (use assms in \<open>simp_all add: link_gap_def\<close>)


text \<open>
  C28: Each link decoder reads inside the capture and hands on a part of it, unless the capture is one of
  those of \<open>link_gap\<close>: a raw ISDN packet cut by the snap length, a Cisco packet of less than four
  captured bytes, an encapsulated packet of less than 32, a short FDDI packet in quiet mode or one
  with a single access point of IP. On every one of those it does not.
\<close>

theorem link_decoder_windows:
  assumes "cap < 2 ^ 32"
  shows "link_within cap (SetPktProcessor cf verbose pktlen dlt (packet_init mem cap old) no_link) \<longleftrightarrow>
         \<not> link_gap verbose dlt mem cap pktlen"
  using assms link_safe_within ok_link link_gap_outside by blast

theorem link_decoder_windows_witness:
  "link_within 2 (SetPktProcessor conf False 60 DLT_NULL (packet_init (\<lambda>_. 0) 2 (packet_init (\<lambda>_. 0) 0 undefined)) no_link) \<and>
   \<not> link_within 2 (SetPktProcessor conf False 60 DLT_I4L_CISCOHDLC (packet_init (\<lambda>_. 0) 2 (packet_init (\<lambda>_. 0) 0 undefined)) no_link)"
  using link_decoder_windows [of 2] by (simp add: link_gap_def)

text \<open>
  C29: A capture of any other link type that is none of \<open>link_gap\<close> is decoded as safely as an Ethernet frame,
  but that a PPPoE header may be met with no Ethernet header to look back at.
\<close>

theorem decode_link_safe:
  assumes "cap < 2 ^ 32" "\<not> link_gap verbose dlt mem cap pktlen"
  shows "case decode_link cf verbose dlt mem cap pktlen old of
           Inl e \<Rightarrow> e \<in> Overread ` unsafe_sites \<or> e = Null_pointer S_PPPoE
         | Inr p \<Rightarrow> pkt_wf cap p"
proof -
  have "ok_res True (pinv True cap) (decode_link cf verbose dlt mem cap pktlen old)"
    using ok_link [OF assms, of cf old no_link] decode_ok [of True cap "3 * cap + 3" cf]
    by (auto simp: decode_link_def rbind_def link_safe_def link_ok_def rec_ok_def split: sum.splits link_end.splits prod.splits)
  then show ?thesis by (auto simp: ok_res_def pinv_def split: sum.splits)
qed

theorem decode_link_safe_witness:
  "case decode_link conf False DLT_RAW (\<lambda>_. 0) 20 20 (packet_init (\<lambda>_. 0) 0 undefined) of
     Inl e \<Rightarrow> e \<in> Overread ` unsafe_sites \<or> e = Null_pointer S_PPPoE | Inr p \<Rightarrow> pkt_wf 20 p"
  by (rule decode_link_safe) (simp_all add: link_gap_def)

text \<open>A cooked capture of a PPPoE packet in a VLAN.\<close>

definition sll_frame :: "u8 list" where
  "sll_frame = replicate 14 0 @ [0x81, 0x00] @ [0, 1, 0x88, 0x64] @ [0x11, 0, 0, 0, 0, 0]"

text \<open>
  On any link layer but Ethernet, a PPPoE packet in a VLAN makes the decoder read through the NULL
  pointer to the Ethernet header: here a cooked capture of 26 bytes.
\<close>

theorem pppoe_null_header:
  "decode_link cf verbose DLT_LINUX_SLL (bytes sll_frame) 26 pktlen old = Inl (Null_pointer S_PPPoE)"
proof -
  have p: "DecodePPPoEPkt rec cf 20 6 p = Inl (Null_pointer S_PPPoE)" if "eh p = None" for rec p
    using that by (simp add: DecodePPPoEPkt_def deref_def Let_def)
  have b: "be16 (bytes sll_frame 14) (bytes sll_frame 15) = 0x8100" "be16 (bytes sll_frame 18) (bytes sll_frame 19) = 0x8864"
    by (simp_all add: sll_frame_def bytes_def nth_append be16_def)
  show ?thesis
    using b by (simp add: decode_link_def SetPktProcessor_def DecodeLinuxSLLPkt_def Let_def rd16_def rbind_def decode_numeral DecodeVlan_def
        ether_next_def p PushLayer_def packet_init_def)
qed

end
