(* ===== verification/SfRt.thy ===== *)
theory SfRt
  imports SnortPrelude
begin

text \<open>
  Routing tables: the table of data pointers of \<open>sfutil/sfrt.c\<close> over the multi-way tries of
  \<open>sfutil/sfrt_dir.c\<close> (DIR-n-m tables). A trie node has \<open>2 ^ width\<close> entries; an entry of the C code is a
  word and a length, a pointer to a further node when the length is 0 and the word is not. Here that
  is the datatype \<open>dir_entry\<close>. The build is a 32-bit one (\<open>word\<close> and \<open>ARCH_WIDTH\<close>) with \<open>SUP_IP6\<close>
  and without \<open>SUPPORT_LCTRIE\<close>. The words of an address are as the caller gives them. The counters
  \<open>cur_num\<close>, which are printed only, are left out. \<open>None\<close> is an access outside an array.
\<close>

section \<open>Addresses\<close>

record rt_ip =
  rt_family :: int
  ip32 :: "u32 list"

abbreviation (input) AF_INET :: int where "AF_INET \<equiv> 2"
abbreviation (input) AF_INET6 :: int where "AF_INET6 \<equiv> 10"

text \<open>The word that holds the bits from number \<open>bits\<close> on, and the index of a node of width \<open>w\<close> they make.\<close>

definition ip_word :: "rt_ip \<Rightarrow> nat \<Rightarrow> u32 option" where
  "ip_word ip bits =
     (if rt_family ip = AF_INET then Some (ip32 ip ! 0)
      else if rt_family ip = AF_INET6 then
        Some (ip32 ip ! (if bits < 32 then 0 else if bits < 64 then 1 else if bits < 96 then 2 else 3))
      else None)"

definition dir_index :: "rt_ip \<Rightarrow> nat \<Rightarrow> nat \<Rightarrow> nat option" where
  "dir_index ip bits w = map_option (\<lambda>x. unat (drop_bit (32 - w) (push_bit (bits mod 32) x))) (ip_word ip bits)"

section \<open>Nodes\<close>

datatype dir_entry = Val nat nat | Ptr dir_sub_table
and dir_sub_table = SubTable nat int "dir_entry list"

text \<open>A node has its width, \<open>filledEntries\<close> and its entries.\<close>

fun st_filled :: "dir_sub_table \<Rightarrow> int" where
  "st_filled (SubTable w f es) = f"

record dir_table =
  dimensions :: "nat list"
  mem_cap :: u32
  allocated :: u32
  sub_table :: dir_sub_table

datatype rt_code = RT_SUCCESS | RT_INSERT_FAILURE | RT_POLICY_TABLE_EXCEEDED | DIR_INSERT_FAILURE
  | MEM_ALLOC_FAILURE | RT_REMOVE_FAILURE

text \<open>\<open>sizeof(dir_sub_table_t)\<close>, the words and the lengths.\<close>

definition sub_table_size :: "nat \<Rightarrow> u32" where
  "sub_table_size w = 24 + 4 * 2 ^ w + 2 ^ w"

definition sub_table_new :: "nat list \<Rightarrow> u32 \<Rightarrow> u32 \<Rightarrow> nat \<Rightarrow> nat \<Rightarrow> nat \<Rightarrow> (dir_sub_table option \<times> u32) option" where
  "sub_table_new dims cap al dimension prefill bit_length =
     (if length dims \<le> dimension then None
      else let width = dims ! dimension in
        if cap < al + sub_table_size width \<or> 128 < bit_length then Some (None, al)
        else Some (Some (SubTable width (if prefill \<noteq> 0 then 2 ^ width else 0) (replicate (2 ^ width) (Val prefill bit_length))),
                   al + sub_table_size width))"

definition sfrt_dir_new :: "u32 \<Rightarrow> nat list \<Rightarrow> dir_table option" where
  "sfrt_dir_new cap dims =
     (case sub_table_new dims cap 0 0 0 0 of
        Some (Some t, al) \<Rightarrow>
          Some \<lparr>dimensions = dims, mem_cap = cap, allocated = al + 24 + 4 * of_nat (length dims), sub_table = t\<rparr>
      | _ \<Rightarrow> None)"

text \<open>What \<open>_sub_table_free\<close> gives back.\<close>

fun entry_mem :: "dir_entry \<Rightarrow> u32" and sub_table_mem :: "dir_sub_table \<Rightarrow> u32" where
  "entry_mem (Val i l) = 0"
| "entry_mem (Ptr t) = sub_table_mem t"
| "sub_table_mem (SubTable w f es) = sub_table_size w + sum_list (map entry_mem es)"

text \<open>The loops over \<open>index .. fill - 1\<close>.\<close>

definition seg :: "nat \<Rightarrow> nat \<Rightarrow> 'a list \<Rightarrow> 'a list" where
  "seg lo hi es = take (hi - lo) (drop lo es)"

definition on_range :: "nat \<Rightarrow> nat \<Rightarrow> ('a \<Rightarrow> 'a) \<Rightarrow> 'a list \<Rightarrow> 'a list" where
  "on_range lo hi f es = take lo es @ map f (seg lo hi es) @ drop hi es"

fun is_unset :: "dir_entry \<Rightarrow> bool" where
  "is_unset (Val i l) = (i = 0)"
| "is_unset (Ptr t) = False"

definition dir_fill_all :: "nat \<Rightarrow> nat \<Rightarrow> nat \<Rightarrow> nat \<Rightarrow> u32 \<Rightarrow> dir_sub_table \<Rightarrow> u32 \<times> dir_sub_table" where
  "dir_fill_all lo hi len val al t =
     (case t of SubTable w f es \<Rightarrow>
        (al - sum_list (map entry_mem (seg lo hi es)),
         SubTable w (f + int (length (filter is_unset (seg lo hi es)))) (on_range lo hi (\<lambda>_. Val val len) es)))"

text \<open>The entries \<open>_dir_fill_less_specific\<close> fills that were empty, at one level.\<close>

fun newly_set :: "nat \<Rightarrow> dir_entry \<Rightarrow> bool" where
  "newly_set len (Val i l) = (i = 0 \<and> l \<le> len)"
| "newly_set len (Ptr t) = False"

fun entry_fill :: "nat \<Rightarrow> nat \<Rightarrow> dir_entry \<Rightarrow> dir_entry" and sub_fill :: "nat \<Rightarrow> nat \<Rightarrow> dir_sub_table \<Rightarrow> dir_sub_table" where
  "entry_fill len val (Val i l) = (if l \<le> len then Val val len else Val i l)"
| "entry_fill len val (Ptr t) = Ptr (sub_fill len val t)"
| "sub_fill len val (SubTable w f es) = SubTable w (f + int (length (filter (newly_set len) es))) (map (entry_fill len val) es)"

definition dir_fill_less_specific :: "nat \<Rightarrow> nat \<Rightarrow> nat \<Rightarrow> nat \<Rightarrow> dir_sub_table \<Rightarrow> dir_sub_table" where
  "dir_fill_less_specific lo hi len val t =
     (case t of SubTable w f es \<Rightarrow>
        SubTable w (f + int (length (filter (newly_set len) (seg lo hi es)))) (on_range lo hi (entry_fill len val) es))"

section \<open>Insertion\<close>

datatype behavior = RT_FAVOR_TIME | RT_FAVOR_SPECIFIC

text \<open>Each level takes at least one bit, so \<open>len + 1\<close> levels are enough fuel.\<close>

fun dir_sub_insert :: "nat \<Rightarrow> nat list \<Rightarrow> u32 \<Rightarrow> rt_ip \<Rightarrow> nat \<Rightarrow> nat \<Rightarrow> nat \<Rightarrow> nat \<Rightarrow> nat \<Rightarrow> behavior \<Rightarrow> u32 \<Rightarrow>
    dir_sub_table \<Rightarrow> (rt_code \<times> u32 \<times> dir_sub_table) option" where
  "dir_sub_insert 0 dims cap ip bits len cur_len val depth beh al t = None"
| "dir_sub_insert (Suc n) dims cap ip bits len cur_len val depth beh al (SubTable w f es) =
     (case dir_index ip bits w of
        None \<Rightarrow> Some (RT_INSERT_FAILURE, al, SubTable w f es)
      | Some index \<Rightarrow>
          if cur_len \<le> w then
            (let index = index div 2 ^ (w - cur_len) * 2 ^ (w - cur_len); fill = 2 ^ (w - cur_len) + index
             in case beh of
                  RT_FAVOR_TIME \<Rightarrow> (case dir_fill_all index fill len val al (SubTable w f es) of (al, t) \<Rightarrow> Some (RT_SUCCESS, al, t))
                | RT_FAVOR_SPECIFIC \<Rightarrow> Some (RT_SUCCESS, al, dir_fill_less_specific index fill len val (SubTable w f es)))
          else
            (let go = (\<lambda>al f next. case dir_sub_insert n dims cap ip (bits + w) len (cur_len - w) val (depth + 1) beh al next of
                   None \<Rightarrow> None
                 | Some (rc, al, next) \<Rightarrow> Some (rc, al, SubTable w f (es[index := Ptr next])))
             in case es ! index of
                  Ptr next \<Rightarrow> go al f next
                | Val i l \<Rightarrow>
                    if length dims \<le> depth then Some (RT_INSERT_FAILURE, al, SubTable w f es)
                    else let f = (if i = 0 then f + 1 else f) in
                      case sub_table_new dims cap al (depth + 1) i l of
                        None \<Rightarrow> None
                      | Some (None, al) \<Rightarrow> Some (MEM_ALLOC_FAILURE, al, SubTable w f (es[index := Val 0 0]))
                      | Some (Some next, al) \<Rightarrow> go al f next))"

definition sfrt_dir_insert :: "rt_ip \<Rightarrow> nat \<Rightarrow> nat \<Rightarrow> behavior \<Rightarrow> dir_table \<Rightarrow> (rt_code \<times> dir_table) option" where
  "sfrt_dir_insert ip len data_index beh root =
     map_option (\<lambda>(rc, al, t). (rc, root\<lparr>allocated := al, sub_table := t\<rparr>))
       (dir_sub_insert (Suc len) (dimensions root) (mem_cap root) ip 0 len len data_index 0 beh (allocated root) (sub_table root))"

section \<open>Lookup\<close>

lemma size_entry_nth [termination_simp]:
  "i < length es \<Longrightarrow> es ! i = Ptr t \<Longrightarrow> size t < Suc (size_list size es)"
  using nth_mem [of i es] by (auto simp: less_Suc_eq_le dest!: size_list_estimation' [where f = size and y = "size (Ptr t)"] intro: order_trans)

text \<open>The index is below the number of entries; the test is for the termination argument only.\<close>

fun dir_sub_lookup :: "rt_ip \<Rightarrow> nat \<Rightarrow> dir_sub_table \<Rightarrow> nat \<times> nat" where
  "dir_sub_lookup ip bits (SubTable w f es) =
     (case dir_index ip bits w of
        None \<Rightarrow> (0, 0)
      | Some i \<Rightarrow>
          if i < length es then (case es ! i of Val a l \<Rightarrow> (a, l) | Ptr t \<Rightarrow> dir_sub_lookup ip (bits + w) t)
          else (0, 0))"

definition sfrt_dir_lookup :: "rt_ip \<Rightarrow> dir_table \<Rightarrow> nat \<times> nat" where
  "sfrt_dir_lookup ip root = dir_sub_lookup ip 0 (sub_table root)"

section \<open>Removal\<close>

text \<open>
  \<open>_dir_remove_less_specific\<close>: per entry the value removed (the last one not 0 counts), the memory
  counter, the number of entries that became empty and the new entry. A node left empty is freed.
\<close>

fun rem_entry :: "nat \<Rightarrow> u32 \<Rightarrow> dir_entry \<Rightarrow> nat \<times> u32 \<times> int \<times> dir_entry"
  and rem_entries :: "nat \<Rightarrow> u32 \<Rightarrow> dir_entry list \<Rightarrow> nat \<times> u32 \<times> int \<times> dir_entry list" where
  "rem_entry len al (Val i l) = (if len = l then (i, al, if i \<noteq> 0 then 1 else 0, Val 0 0) else (0, al, 0, Val i l))"
| "rem_entry len al (Ptr (SubTable w f es)) =
     (case rem_entries len al es of
        (v, al, n, es) \<Rightarrow>
          let next = SubTable w (f - n) es
          in if f - n = 0 then (v, al - sub_table_mem next, 1, Val 0 0) else (v, al, 0, Ptr next))"
| "rem_entries len al [] = (0, al, 0, [])"
| "rem_entries len al (e # es) =
     (case rem_entry len al e of
        (v, al, n, e) \<Rightarrow>
          (case rem_entries len al es of (v', al, n', es) \<Rightarrow> (if v' \<noteq> 0 then v' else v, al, n + n', e # es)))"

definition dir_remove_less_specific :: "nat \<Rightarrow> nat \<Rightarrow> nat \<Rightarrow> u32 \<Rightarrow> dir_sub_table \<Rightarrow> nat \<times> u32 \<times> dir_sub_table" where
  "dir_remove_less_specific lo hi len al t =
     (case t of SubTable w f es \<Rightarrow>
        (case rem_entries len al (seg lo hi es) of
           (v, al, n, xs) \<Rightarrow> (v, al, SubTable w (f - n) (take lo es @ xs @ drop hi es))))"

fun val_of_len :: "nat \<Rightarrow> dir_entry \<Rightarrow> nat" where
  "val_of_len len (Val i l) = (if len = l then i else 0)"
| "val_of_len len (Ptr t) = 0"

definition dir_remove_all :: "nat \<Rightarrow> nat \<Rightarrow> nat \<Rightarrow> u32 \<Rightarrow> dir_sub_table \<Rightarrow> nat \<times> u32 \<times> dir_sub_table" where
  "dir_remove_all lo hi len al t =
     (case t of SubTable w f es \<Rightarrow>
        (fold (\<lambda>e v. if val_of_len len e \<noteq> 0 then val_of_len len e else v) (seg lo hi es) 0,
         al - sum_list (map entry_mem (seg lo hi es)),
         SubTable w (f - int (length (filter (\<lambda>e. \<not> is_unset e) (seg lo hi es))))
           (on_range lo hi (\<lambda>e. if is_unset e then e else Val 0 0) es)))"

fun dir_sub_remove :: "nat \<Rightarrow> rt_ip \<Rightarrow> nat \<Rightarrow> nat \<Rightarrow> nat \<Rightarrow> behavior \<Rightarrow> u32 \<Rightarrow> dir_sub_table \<Rightarrow>
    (nat \<times> u32 \<times> dir_sub_table) option" where
  "dir_sub_remove 0 ip bits len cur_len beh al t = None"
| "dir_sub_remove (Suc n) ip bits len cur_len beh al (SubTable w f es) =
     (case dir_index ip bits w of
        None \<Rightarrow> Some (0, al, SubTable w f es)
      | Some index \<Rightarrow>
          if cur_len \<le> w then
            (let index = index div 2 ^ (w - cur_len) * 2 ^ (w - cur_len); fill = 2 ^ (w - cur_len) + index
             in Some (case beh of
                  RT_FAVOR_TIME \<Rightarrow> dir_remove_all index fill len al (SubTable w f es)
                | RT_FAVOR_SPECIFIC \<Rightarrow> dir_remove_less_specific index fill len al (SubTable w f es)))
          else
            (case es ! index of
               Val i l \<Rightarrow> Some (0, al, SubTable w f es)
             | Ptr next \<Rightarrow>
                 (case dir_sub_remove n ip (bits + w) len (cur_len - w) beh al next of
                    None \<Rightarrow> None
                  | Some (v, al, next) \<Rightarrow>
                      if st_filled next = 0
                      then Some (v, al - sub_table_mem next, SubTable w (f - 1) (es[index := Val 0 0]))
                      else Some (v, al, SubTable w f (es[index := Ptr next])))))"

definition sfrt_dir_remove :: "rt_ip \<Rightarrow> nat \<Rightarrow> behavior \<Rightarrow> dir_table \<Rightarrow> (nat \<times> dir_table) option" where
  "sfrt_dir_remove ip len beh root =
     map_option (\<lambda>(v, al, t). (v, root\<lparr>allocated := al, sub_table := t\<rparr>))
       (dir_sub_remove (Suc len) ip 0 len len beh (allocated root) (sub_table root))"

definition sfrt_dir_usage :: "dir_table option \<Rightarrow> u32" where
  "sfrt_dir_usage table = (case table of None \<Rightarrow> 0 | Some t \<Rightarrow> allocated t)"

section \<open>The table of data pointers\<close>

datatype rt_type = DIR_24_8 | DIR_16x2 | DIR_16_8x2 | DIR_16_4x4 | DIR_8x4 | DIR_4x8 | DIR_2x16
  | DIR_16_4x4_16x5_4x4 | DIR_16x7_4x4 | DIR_16x8 | DIR_8x16 | IPv4 | IPv6

text \<open>A pointer is \<open>None\<close> when it is \<open>NULL\<close>. The five function pointers of a table are those of the tries.\<close>

record 'p table_t =
  rt_data :: "'p option list"
  num_ent :: u32
  max_size :: u32
  lastAllocatedIndex :: u32
  ip_type :: rt_type
  table_type :: rt_type
  t_allocated :: u32
  rt :: "dir_table option"
  rt6 :: "dir_table option"

text \<open>The dimensions of the IPv4 and of the IPv6 trie; \<open>None\<close> in the first is the \<open>default\<close> case.\<close>

fun rt_dimensions :: "rt_type \<Rightarrow> (nat list \<times> nat list option) option" where
  "rt_dimensions DIR_24_8 = Some ([24, 8], None)"
| "rt_dimensions DIR_16x2 = Some ([16, 16], None)"
| "rt_dimensions DIR_16_8x2 = Some ([16, 8, 8], None)"
| "rt_dimensions DIR_16_4x4 = Some ([16, 4, 4, 4, 4], None)"
| "rt_dimensions DIR_8x4 = Some ([8, 8, 8, 8], None)"
| "rt_dimensions DIR_4x8 = Some ([4, 4, 4, 4, 4, 4, 4, 4], None)"
| "rt_dimensions DIR_2x16 = Some (replicate 16 2, None)"
| "rt_dimensions DIR_16_4x4_16x5_4x4 = Some ([16, 4, 4, 4, 4], Some [16, 4, 4, 4, 4, 16, 16, 16, 16, 16, 4, 4, 4, 4])"
| "rt_dimensions DIR_16x7_4x4 = Some ([16, 4, 4, 4, 4], Some [16, 16, 16, 16, 16, 16, 16, 4, 4, 4, 4])"
| "rt_dimensions DIR_16x8 = Some ([16, 16], Some (replicate 8 16))"
| "rt_dimensions DIR_8x16 = Some ([16, 8, 4, 4], Some (replicate 16 8))"
| "rt_dimensions _ = None"

datatype 'p new_result = NewNull | NewTable "'p table_t" | NewFreed "'p table_t"

text \<open>\<open>NewFreed\<close> is a pointer to a table that has been freed. Allocations themselves do not fail.\<close>

definition sfrt_new :: "rt_type \<Rightarrow> rt_type \<Rightarrow> int \<Rightarrow> u32 \<Rightarrow> 'p new_result" where
  "sfrt_new ty ipt data_size cap =
     (if 0x8000000 \<le> data_size then NewNull
      else let cap = cap * (1024 * 1024); size = word_of_int data_size :: u32
        in case rt_dimensions ty of
             None \<Rightarrow> NewNull
           | Some (d4, d6) \<Rightarrow>
               (case sfrt_dir_new cap d4 of
                  None \<Rightarrow> NewNull
                | Some t4 \<Rightarrow>
                    (let t6 = (case d6 of None \<Rightarrow> None | Some d \<Rightarrow> sfrt_dir_new cap d);
                         table = \<lparr>rt_data = replicate (unat (4 * size) div 4) None, num_ent = 1, max_size = size,
                           lastAllocatedIndex = 0, ip_type = ipt, table_type = ty, t_allocated = 56 + 4 * size,
                           rt = Some t4, rt6 = t6\<rparr>
                     in if t6 = None then NewFreed table else NewTable table)))"

text \<open>The trie for the family of an address.\<close>

definition rt_for :: "rt_ip \<Rightarrow> 'p table_t \<Rightarrow> dir_table option" where
  "rt_for ip table =
     (if rt_family ip = AF_INET then rt table else if rt_family ip = AF_INET6 then rt6 table else None)"

definition set_rt_for :: "rt_ip \<Rightarrow> dir_table \<Rightarrow> 'p table_t \<Rightarrow> 'p table_t" where
  "set_rt_for ip t table = (if rt_family ip = AF_INET then table\<lparr>rt := Some t\<rparr> else table\<lparr>rt6 := Some t\<rparr>)"

definition data_at :: "'p table_t \<Rightarrow> nat \<Rightarrow> 'p option option" where
  "data_at table i = (if i < length (rt_data table) then Some (rt_data table ! i) else None)"

text \<open>A \<open>NULL\<close> trie is looked up to nothing.\<close>

definition rt_lookup :: "rt_ip \<Rightarrow> dir_table option \<Rightarrow> nat \<times> nat" where
  "rt_lookup ip t = (case t of None \<Rightarrow> (0, 0) | Some t \<Rightarrow> sfrt_dir_lookup ip t)"

definition sfrt_lookup :: "rt_ip option \<Rightarrow> 'p table_t option \<Rightarrow> 'p option option" where
  "sfrt_lookup adr table =
     (case (adr, table) of
        (Some ip, Some table) \<Rightarrow>
          (case rt_for ip table of
             None \<Rightarrow> Some None
           | Some t \<Rightarrow>
               let index = fst (sfrt_dir_lookup ip t)
               in if unat (max_size table) \<le> index then Some None else data_at table index)
      | _ \<Rightarrow> Some None)"

definition len_too_long :: "u8 \<Rightarrow> 'p table_t \<Rightarrow> bool" where
  "len_too_long len table = (ip_type table = IPv4 \<and> 32 < len \<or> ip_type table = IPv6 \<and> 128 < len)"

definition sfrt_search :: "rt_ip option \<Rightarrow> u8 \<Rightarrow> 'p table_t option \<Rightarrow> 'p option option" where
  "sfrt_search adr len table =
     (case (adr, table) of
        (Some ip, Some table) \<Rightarrow>
          if len = 0 \<or> ip_type table = IPv6 \<or> len_too_long len table then Some None
          else (case rt_lookup ip (rt_for ip table) of
                  (index, l) \<Rightarrow> if l \<noteq> unat len then Some None else data_at table index)
      | _ \<Rightarrow> Some None)"

text \<open>
  The loop of \<open>allocateTableIndex\<close> from \<open>index\<close> on: the result is the index, 0 for none. The indices
  go round within \<open>max_size\<close> steps, so one more is enough fuel.
\<close>

fun alloc_loop :: "nat \<Rightarrow> u32 \<Rightarrow> 'p table_t \<Rightarrow> (u32 \<times> 'p table_t) option" where
  "alloc_loop 0 index table = None"
| "alloc_loop (Suc n) index table =
     (if index = lastAllocatedIndex table then Some (0, table)
      else if index = 0 then alloc_loop n ((index + 1) mod max_size table) table
      else case data_at table (unat index) of
        None \<Rightarrow> None
      | Some (Some p) \<Rightarrow> alloc_loop n ((index + 1) mod max_size table) table
      | Some None \<Rightarrow> Some (index, table\<lparr>lastAllocatedIndex := index\<rparr>))"

definition allocateTableIndex :: "'p table_t \<Rightarrow> (u32 \<times> 'p table_t) option" where
  "allocateTableIndex table = alloc_loop (unat (max_size table) + 2) (lastAllocatedIndex table + 1) table"

definition sfrt_insert :: "rt_ip option \<Rightarrow> u8 \<Rightarrow> 'p option \<Rightarrow> behavior \<Rightarrow> 'p table_t option \<Rightarrow>
    (rt_code \<times> 'p table_t option) option" where
  "sfrt_insert adr len ptr beh table =
     (case (adr, table) of
        (Some ip, Some tb) \<Rightarrow>
          if len = 0 \<or> len_too_long len tb then Some (RT_INSERT_FAILURE, table)
          else (case rt_for ip tb of
                  None \<Rightarrow> Some (RT_INSERT_FAILURE, table)
                | Some t \<Rightarrow>
                    (case rt_lookup ip (rt tb) of
                       (index, l) \<Rightarrow>
                         if l \<noteq> unat len then
                           if max_size tb \<le> num_ent tb then Some (RT_POLICY_TABLE_EXCEEDED, table)
                           else (case allocateTableIndex tb of
                                   None \<Rightarrow> None
                                 | Some (index, tb) \<Rightarrow>
                                     if index = 0 then Some (RT_POLICY_TABLE_EXCEEDED, Some tb)
                                     else (case sfrt_dir_insert ip (unat len) (unat index) beh t of
                                             None \<Rightarrow> None
                                           | Some (res, t) \<Rightarrow>
                                               let tb = set_rt_for ip t tb
                                               in Some (res, Some (if res = RT_SUCCESS
                                                    then tb\<lparr>num_ent := num_ent tb + 1, rt_data := (rt_data tb)[unat index := ptr]\<rparr>
                                                    else tb))))
                         else (case sfrt_dir_insert ip (unat len) index beh t of
                                 None \<Rightarrow> None
                               | Some (res, t) \<Rightarrow> Some (res, Some (set_rt_for ip t tb)))))
      | _ \<Rightarrow> Some (RT_INSERT_FAILURE, table))"

text \<open>The second component is what is stored through \<open>ptr\<close>, when something is.\<close>

definition sfrt_remove :: "rt_ip option \<Rightarrow> u8 \<Rightarrow> behavior \<Rightarrow> 'p table_t option \<Rightarrow>
    (rt_code \<times> 'p option option \<times> 'p table_t option) option" where
  "sfrt_remove adr len beh table =
     (case (adr, table) of
        (Some ip, Some tb) \<Rightarrow>
          if len = 0 \<or> len_too_long len tb then Some (RT_REMOVE_FAILURE, None, table)
          else (case rt_for ip tb of
                  None \<Rightarrow> Some (RT_REMOVE_FAILURE, None, table)
                | Some t \<Rightarrow>
                    (case sfrt_dir_remove ip (unat len) beh t of
                       None \<Rightarrow> None
                     | Some (index, t) \<Rightarrow>
                         let tb = set_rt_for ip t tb
                         in if index = 0 then Some (RT_SUCCESS, None, Some tb)
                            else (case data_at tb index of
                                    None \<Rightarrow> None
                                  | Some p \<Rightarrow> Some (RT_SUCCESS, Some p,
                                      Some (tb\<lparr>rt_data := (rt_data tb)[index := None], num_ent := num_ent tb - 1\<rparr>)))))
      | _ \<Rightarrow> Some (RT_REMOVE_FAILURE, None, table))"

definition sfrt_num_entries :: "'p table_t option \<Rightarrow> u32" where
  "sfrt_num_entries table =
     (case table of None \<Rightarrow> 0 | Some t \<Rightarrow> if rt t = None \<or> t_allocated t = 0 then 0 else num_ent t - 1)"

definition sfrt_usage :: "'p table_t option \<Rightarrow> u32" where
  "sfrt_usage table =
     (case table of None \<Rightarrow> 0
      | Some t \<Rightarrow> if rt t = None \<or> t_allocated t = 0 then 0
          else t_allocated t + sfrt_dir_usage (rt t) + sfrt_dir_usage (rt6 t))"

text \<open>
  The loops over the data from \<open>index\<close> on: the pointers the callback is called with, and whether the
  callback asked to stop (\<open>sfrt_iterate2\<close>) or its pointer is reset (\<open>sfrt_cleanup\<close>).
\<close>

fun iter_loop :: "u32 \<Rightarrow> u32 \<Rightarrow> 'p option list \<Rightarrow> 'p list" where
  "iter_loop count ne [] = []"
| "iter_loop count ne (None # ds) = iter_loop count ne ds"
| "iter_loop count ne (Some p # ds) = p # (if count + 1 = ne then [] else iter_loop (count + 1) ne ds)"

definition sfrt_iterate :: "'p table_t option \<Rightarrow> 'p list" where
  "sfrt_iterate table = (case table of None \<Rightarrow> [] | Some t \<Rightarrow> iter_loop 0 (num_ent t) (take (unat (max_size t)) (rt_data t)))"

fun iter2_loop :: "('p \<Rightarrow> 's \<Rightarrow> int \<times> 's) \<Rightarrow> u32 \<Rightarrow> u32 \<Rightarrow> 'p option list \<Rightarrow> 's \<Rightarrow> int \<times> 's" where
  "iter2_loop f count ne [] s = (0, s)"
| "iter2_loop f count ne (None # ds) s = iter2_loop f count ne ds s"
| "iter2_loop f count ne (Some p # ds) s =
     (case f p s of (ret, s) \<Rightarrow>
        if ret \<noteq> 0 then (ret, s) else if count + 1 = ne then (0, s) else iter2_loop f (count + 1) ne ds s)"

definition sfrt_iterate2 :: "('p \<Rightarrow> 's \<Rightarrow> int \<times> 's) \<Rightarrow> 'p table_t option \<Rightarrow> 's \<Rightarrow> int \<times> 's" where
  "sfrt_iterate2 userfunc table s =
     (case table of None \<Rightarrow> (0, s) | Some t \<Rightarrow> iter2_loop userfunc 0 (num_ent t) (take (unat (max_size t)) (rt_data t)) s)"

fun cleanup_loop :: "u32 \<Rightarrow> u32 \<Rightarrow> 'p option list \<Rightarrow> 'p list \<times> 'p option list" where
  "cleanup_loop count ne [] = ([], [])"
| "cleanup_loop count ne (None # ds) = (case cleanup_loop count ne ds of (ps, ds) \<Rightarrow> (ps, None # ds))"
| "cleanup_loop count ne (Some p # ds) =
     (if count + 1 = ne then ([p], None # ds)
      else case cleanup_loop (count + 1) ne ds of (ps, ds) \<Rightarrow> (p # ps, None # ds))"

definition sfrt_cleanup :: "'p table_t \<Rightarrow> 'p list \<times> 'p table_t" where
  "sfrt_cleanup t =
     (case cleanup_loop 0 (num_ent t) (take (unat (max_size t)) (rt_data t)) of
        (ps, ds) \<Rightarrow> (ps, t\<lparr>rt_data := ds @ drop (unat (max_size t)) (rt_data t)\<rparr>))"

end
