(* ===== verification/SfRtProofs.thy ===== *)
theory SfRtProofs
  imports SfRt
begin

text \<open>
  The tries of \<open>SfRt\<close>: the invariant of the nodes (widths, filled entries, lengths against the depth),
  and what insertion and removal do to the lookup of every address, by induction on the widths of the
  levels below a node. \<open>same_bits ip q lo hi\<close> says that two addresses agree on the bits from \<open>lo\<close> below \<open>hi\<close>.
\<close>

section \<open>Bits of an address\<close>

definition rt_known :: "rt_ip \<Rightarrow> bool" where
  "rt_known ip \<longleftrightarrow> rt_family ip = AF_INET \<or> rt_family ip = AF_INET6"

definition ip_bit :: "rt_ip \<Rightarrow> nat \<Rightarrow> bool" where
  "ip_bit ip n = (case ip_word ip n of None \<Rightarrow> False | Some x \<Rightarrow> bit x (31 - n mod 32))"

definition same_bits :: "rt_ip \<Rightarrow> rt_ip \<Rightarrow> nat \<Rightarrow> nat \<Rightarrow> bool" where
  "same_bits ip q lo hi \<longleftrightarrow> (\<forall>n\<in>set [lo..<hi]. ip_bit ip n = ip_bit q n)"

definition ix :: "rt_ip \<Rightarrow> nat \<Rightarrow> nat \<Rightarrow> nat" where
  "ix ip bits w = the (dir_index ip bits w)"

lemma less_block: "(32 :: nat) dvd c \<Longrightarrow> n div 32 = m div 32 \<Longrightarrow> n < c \<longleftrightarrow> m < c"
  by (metis dvd_div_mult_self less_mult_imp_div_less div_less_iff_less_mult zero_less_numeral)

lemma ip_word_block: "n div 32 = m div 32 \<Longrightarrow> ip_word ip n = ip_word ip m"
  using less_block [of 32 n m] less_block [of 64 n m] less_block [of 96 n m] by (simp add: ip_word_def)

lemma in_block:
  assumes "b mod 32 + j < (32 :: nat)"
  shows "(b + j) mod 32 = b mod 32 + j" and "(b + j) div 32 = b div 32"
proof -
  have "b + j = (b div 32) * 32 + (b mod 32 + j)" by simp
  then show "(b + j) mod 32 = b mod 32 + j" and "(b + j) div 32 = b div 32"
    using assms by (metis mod_mult_self3 mod_less, metis div_mult_self3 add.right_neutral div_less zero_neq_numeral)
qed

lemma ip_word_known: "rt_known ip \<Longrightarrow> \<exists>x. ip_word ip n = Some x"
  by (auto simp: ip_word_def rt_known_def)

lemma dir_index_known: "rt_known ip \<Longrightarrow> dir_index ip bits w = Some (ix ip bits w)"
  using ip_word_known [of ip bits] by (auto simp: dir_index_def ix_def)

lemma ix_word: "ip_word ip bits = Some x \<Longrightarrow> ix ip bits w = unat (drop_bit (32 - w) (push_bit (bits mod 32) x))"
  by (simp add: ix_def dir_index_def)

lemma unat_drop_bit_less: "w \<le> 32 \<Longrightarrow> unat (drop_bit (32 - w) (x :: u32)) < 2 ^ w"
proof -
  assume w: "w \<le> 32"
  have "unat x < 2 ^ (32 - w) * 2 ^ w"
    using unsigned_less [of x] w by (simp flip: power_add)
  then show ?thesis by (simp add: unat_drop_bit_eq drop_bit_eq_div [where 'a = nat] less_mult_imp_div_less mult.commute)
qed

lemma ix_less: "rt_known ip \<Longrightarrow> w \<le> 32 \<Longrightarrow> ix ip bits w < 2 ^ w"
  using ip_word_known [of ip bits] by (auto simp: ix_word intro: unat_drop_bit_less)

lemma ix_div:
  assumes "rt_known ip" and "k \<le> w" and "w \<le> 32"
  shows "ix ip bits w div 2 ^ (w - k) = ix ip bits k"
proof -
  obtain x where x: "ip_word ip bits = Some x" using ip_word_known [OF assms(1)] by blast
  have "32 - w + (w - k) = 32 - k" using assms by simp
  then show ?thesis
    by (simp add: ix_word [OF x] unat_drop_bit_eq drop_bit_eq_div [where 'a = nat] flip: div_mult2_eq power_add)
qed

lemma bit_block:
  assumes "ip_word ip bits = Some x" and "bits mod 32 + k \<le> 32" and "i < k"
  shows "bit (drop_bit (32 - k) (push_bit (bits mod 32) x)) i = ip_bit ip (bits + (k - 1 - i))"
proof -
  let ?n = "bits + (k - 1 - i)"
  have nm: "?n mod 32 = bits mod 32 + (k - 1 - i)" "?n div 32 = bits div 32"
    using assms(2,3) in_block [of bits "k - 1 - i"] by (simp_all del: diff_Suc_1' add_diff_assoc add_diff_assoc2)
  have "ip_word ip ?n = Some x" using ip_word_block [OF nm(2), of ip] assms(1) by simp
  then have "ip_bit ip ?n = bit x (31 - (bits mod 32 + (k - 1 - i)))" by (simp only: ip_bit_def nm) simp
  moreover have "31 - (bits mod 32 + (k - 1 - i)) = 32 - k + i - bits mod 32" using assms(2,3) by simp
  moreover have "bits mod 32 \<le> 32 - k + i" "32 - k + i < 32" using assms(2,3) by simp_all
  ultimately show ?thesis by (simp only: bit_drop_bit_eq bit_push_bit_iff comp_def) (simp add: bit_simps)
qed

lemma ix_eq_iff:
  assumes "rt_known ip" and "rt_known q" and "bits mod 32 + k \<le> 32"
  shows "ix ip bits k = ix q bits k \<longleftrightarrow> same_bits ip q bits (bits + k)"
proof -
  obtain x y where x: "ip_word ip bits = Some x" and y: "ip_word q bits = Some y"
    using ip_word_known assms by blast
  let ?f = "\<lambda>x :: u32. drop_bit (32 - k) (push_bit (bits mod 32) x)"
  have "ix ip bits k = ix q bits k \<longleftrightarrow> ?f x = ?f y" by (simp add: ix_word [OF x] ix_word [OF y] word_unat_eq_iff)
  also have "\<dots> \<longleftrightarrow> (\<forall>i<k. bit (?f x) i = bit (?f y) i)"
  proof
    assume r: "\<forall>i<k. bit (?f x) i = bit (?f y) i"
    show "?f x = ?f y"
    proof (rule bit_word_eqI)
      fix n show "bit (?f x) n = bit (?f y) n" 
        using r assms(3) by (cases "n < k") (auto simp: bit_simps)
    qed
  qed simp
  also have "\<dots> \<longleftrightarrow> (\<forall>i<k. ip_bit ip (bits + (k - 1 - i)) = ip_bit q (bits + (k - 1 - i)))"
    using bit_block [OF x assms(3)] bit_block [OF y assms(3)] by auto
  also have "\<dots> \<longleftrightarrow> same_bits ip q bits (bits + k)"
  proof -
    have "n \<in> {bits..<bits + k} \<Longrightarrow> \<exists>i<k. n = bits + (k - 1 - i)" for n
      by (rule exI [of _ "bits + k - 1 - n"]) auto
    then show ?thesis unfolding same_bits_def set_upt by fastforce
  qed
  finally show ?thesis .
qed

lemma same_bits_split: "lo \<le> m \<Longrightarrow> m \<le> hi \<Longrightarrow> same_bits ip q lo hi \<longleftrightarrow> same_bits ip q lo m \<and> same_bits ip q m hi"
  unfolding same_bits_def set_upt ball_Un [symmetric] by (simp add: ivl_disj_un_two(3))

section \<open>Ranges of entries\<close>

lemma split_seg: "lo \<le> hi \<Longrightarrow> es = take lo es @ seg lo hi es @ drop hi es"
  by (metis append_take_drop_id drop_drop le_add_diff_inverse2 seg_def)

lemma length_seg: "lo \<le> hi \<Longrightarrow> hi \<le> length es \<Longrightarrow> length (seg lo hi es) = hi - lo"
  by (simp add: seg_def)

lemma length_on_range: "lo \<le> hi \<Longrightarrow> hi \<le> length es \<Longrightarrow> length (on_range lo hi f es) = length es"
  by (simp add: on_range_def length_seg)

lemma nth_on_range:
  "lo \<le> hi \<Longrightarrow> hi \<le> length es \<Longrightarrow> j < length es \<Longrightarrow>
   on_range lo hi f es ! j = (if lo \<le> j \<and> j < hi then f (es ! j) else es ! j)"
  by (auto simp: on_range_def nth_append length_seg) (simp add: seg_def)

lemma set_seg: "set (seg lo hi es) \<subseteq> set es"
  by (auto simp: seg_def dest!: in_set_takeD in_set_dropD)

lemma set_on_range: "set (on_range lo hi f es) \<subseteq> set es \<union> f ` set (seg lo hi es)"
  by (auto simp: on_range_def dest!: in_set_takeD in_set_dropD)

lemma sum_on_range:
  fixes g :: "_ \<Rightarrow> 'm::comm_monoid_add"
  assumes "lo \<le> hi"
  shows "sum_list (map g (on_range lo hi f es)) + sum_list (map g (seg lo hi es))
    = sum_list (map g es) + sum_list (map (g \<circ> f) (seg lo hi es))"
  by (subst (3) split_seg [OF assms]) (simp add: on_range_def ac_simps)

lemma in_div_block:
  fixes j i m :: nat
  shows "i div 2 ^ m * 2 ^ m \<le> j \<and> j < 2 ^ m + i div 2 ^ m * 2 ^ m \<longleftrightarrow> j div 2 ^ m = i div 2 ^ m"
proof
  assume "i div 2 ^ m * 2 ^ m \<le> j \<and> j < 2 ^ m + i div 2 ^ m * 2 ^ m"
  then show "j div 2 ^ m = i div 2 ^ m" by (intro div_nat_eqI) (simp_all add: mult.commute)
next
  assume "j div 2 ^ m = i div 2 ^ m"
  then show "i div 2 ^ m * 2 ^ m \<le> j \<and> j < 2 ^ m + i div 2 ^ m * 2 ^ m"
    using div_times_less_eq_dividend [of j "2 ^ m"] dividend_less_div_times [of "2 ^ m" j] by (simp add: add.commute)
qed

lemma div_block_le:
  fixes i :: nat
  assumes "i < 2 ^ w" and "k \<le> w"
  shows "2 ^ (w - k) + i div 2 ^ (w - k) * 2 ^ (w - k) \<le> 2 ^ w"
proof -
  have w: "(2 :: nat) ^ w = 2 ^ k * 2 ^ (w - k)" using assms(2) by (simp flip: power_add)
  then have "i div 2 ^ (w - k) < 2 ^ k" using assms(1) by (simp add: less_mult_imp_div_less)
  then have "Suc (i div 2 ^ (w - k)) * 2 ^ (w - k) \<le> 2 ^ k * 2 ^ (w - k)" by (intro mult_right_mono) simp_all
  then show ?thesis by (simp add: w)
qed

section \<open>Well formed nodes\<close>

definition n_set :: "dir_entry list \<Rightarrow> int" where
  "n_set es = sum_list (map (\<lambda>e. if is_unset e then 0 else 1) es)"

fun sub_wf :: "nat list \<Rightarrow> nat \<Rightarrow> dir_sub_table \<Rightarrow> bool" where
  "sub_wf [] b t = False"
| "sub_wf (w # ds) b (SubTable w' f es) =
     (w' = w \<and> length es = 2 ^ w \<and> f = n_set es \<and>
      (\<forall>e\<in>set es. case e of Val i l \<Rightarrow> (i = 0) = (l = 0) \<and> l \<le> b + w | Ptr t \<Rightarrow> sub_wf ds (b + w) t \<and> st_filled t \<noteq> 0))"

fun dims_ok :: "nat list \<Rightarrow> nat \<Rightarrow> bool" where
  "dims_ok [] b = True"
| "dims_ok (w # ds) b = (0 < w \<and> b mod 32 + w \<le> 32 \<and> dims_ok ds (b + w))"

abbreviation entry_wf :: "nat list \<Rightarrow> nat \<Rightarrow> dir_entry \<Rightarrow> bool" where
  "entry_wf ds b e \<equiv> (case e of Val i l \<Rightarrow> (i = 0) = (l = 0) \<and> l \<le> b | Ptr t \<Rightarrow> sub_wf ds b t \<and> st_filled t \<noteq> 0)"

definition entry_lookup :: "rt_ip \<Rightarrow> nat \<Rightarrow> dir_entry \<Rightarrow> nat \<times> nat" where
  "entry_lookup q b e = (case e of Val i l \<Rightarrow> (i, l) | Ptr t \<Rightarrow> dir_sub_lookup q b t)"

lemma entry_lookup_simps [simp]:
  "entry_lookup q b (Val i l) = (i, l)" "entry_lookup q b (Ptr t) = dir_sub_lookup q b t"
  by (simp_all add: entry_lookup_def)

lemma lookup_node:
  assumes "rt_known q" and "length es = 2 ^ w" and "w \<le> 32"
  shows "dir_sub_lookup q b (SubTable w f es) = entry_lookup q (b + w) (es ! ix q b w)"
  using assms ix_less [OF assms(1,3), of b] by (simp add: dir_index_known split: dir_entry.split)

lemma n_set_nonneg: "0 \<le> n_set es"
  by (auto simp: n_set_def intro!: sum_list_nonneg)

lemma n_set_0: "n_set es = 0 \<longleftrightarrow> (\<forall>e\<in>set es. is_unset e)"
proof (induction es)
  case (Cons e es)
  then show ?case using n_set_nonneg [of es] by (auto simp: n_set_def)
qed (simp add: n_set_def)

lemma n_set_filter: "int (length (filter (\<lambda>e. \<not> is_unset e) es)) = n_set es"
  by (induction es) (auto simp: n_set_def)

lemma n_set_update:
  "i < length es \<Longrightarrow> n_set (es[i := e]) = n_set es - (if is_unset (es ! i) then 0 else 1) + (if is_unset e then 0 else 1)"
proof (induction es arbitrary: i)
  case (Cons x xs)
  then show ?case by (cases i) (auto simp: n_set_def)
qed simp

lemma mem_update:
  "i < length es \<Longrightarrow> sum_list (map entry_mem (es[i := e])) = sum_list (map entry_mem es) - entry_mem (es ! i) + entry_mem e"
proof (induction es arbitrary: i)
  case (Cons x xs)
  then show ?case by (cases i) auto
qed simp

section \<open>Filling\<close>

definition fav :: "behavior \<Rightarrow> nat \<Rightarrow> nat \<times> nat \<Rightarrow> bool" where
  "fav beh len old \<longleftrightarrow> beh = RT_FAVOR_TIME \<or> snd old \<le> len"

lemma n_set_fill:
  assumes "val \<noteq> 0"
  shows "n_set (map (entry_fill len val) es) = n_set es + int (length (filter (newly_set len) es))"
proof (induction es)
  case (Cons e es)
  then show ?case using assms by (cases e) (auto simp: n_set_def)
qed (simp add: n_set_def)

lemma fill_wf_mem:
  assumes "val \<noteq> 0" and "len \<noteq> 0"
  shows "sub_wf ds b t \<Longrightarrow> len \<le> b \<Longrightarrow>
    sub_wf ds b (sub_fill len val t) \<and> sub_table_mem (sub_fill len val t) = sub_table_mem t
    \<and> st_filled t \<le> st_filled (sub_fill len val t)"
proof (induction ds arbitrary: b t)
  case (Cons w ds)
  obtain w' f es where t: "t = SubTable w' f es" by (cases t)
  have e: "entry_wf ds (b + w) (entry_fill len val e) \<and> entry_mem (entry_fill len val e) = entry_mem e"
    if "e \<in> set es" for e
  proof (cases e)
    case (Ptr u)
    then have u: "sub_wf ds (b + w) u" "st_filled u \<noteq> 0" using Cons.prems that by (auto simp: t)
    then have "0 < st_filled u" using n_set_nonneg by (cases ds; cases u) (auto simp: order.strict_iff_order)
    with Cons.IH [OF u(1)] Cons.prems(2) Ptr show ?thesis by auto
  qed (use Cons.prems that assms in \<open>auto simp: t\<close>)
  then have "map entry_mem (map (entry_fill len val) es) = map entry_mem es" by simp
  with e Cons.prems show ?case by (auto simp: t n_set_fill assms simp del: map_map)
qed simp

lemma lookup_fill:
  assumes "rt_known q" and "len \<noteq> 0"
  shows "sub_wf ds b t \<Longrightarrow> dims_ok ds b \<Longrightarrow>
    dir_sub_lookup q b (sub_fill len val t)
    = (if snd (dir_sub_lookup q b t) \<le> len then (val, len) else dir_sub_lookup q b t)"
proof (induction ds arbitrary: b t)
  case (Cons w ds)
  obtain f es where t: "t = SubTable w f es" using Cons.prems(1) by (cases t) simp
  have len: "length es = 2 ^ w" and w: "w \<le> 32" using Cons.prems by (auto simp: t)
  let ?i = "ix q b w"
  have i: "?i < length es" using ix_less [OF assms(1) w] len by simp
  have "entry_lookup q (b + w) (entry_fill len val (es ! ?i))
    = (if snd (entry_lookup q (b + w) (es ! ?i)) \<le> len then (val, len) else entry_lookup q (b + w) (es ! ?i))"
  proof (cases "es ! ?i")
    case (Ptr u)
    have "entry_wf ds (b + w) (es ! ?i)" using Cons.prems(1) i by (auto simp: t)
    with Ptr Cons.IH [of "b + w" u] Cons.prems(2) show ?thesis by simp
  qed simp
  with i len show ?case by (simp add: t lookup_node [OF assms(1) _ w] del: dir_sub_lookup.simps)
qed simp

lemma n_set_on_range:
  "lo \<le> hi \<Longrightarrow> n_set (on_range lo hi g es) = n_set es + (n_set (map g (seg lo hi es)) - n_set (seg lo hi es))"
  using sum_on_range [of lo hi "\<lambda>e. if is_unset e then 0 else 1 :: int" g es] by (simp add: n_set_def comp_def)

lemma mem_on_range:
  "lo \<le> hi \<Longrightarrow> sum_list (map entry_mem (on_range lo hi g es))
    = sum_list (map entry_mem es) + (sum_list (map (entry_mem \<circ> g) (seg lo hi es)) - sum_list (map entry_mem (seg lo hi es)))"
  using sum_on_range [of lo hi entry_mem g es] by (simp add: algebra_simps)

lemma n_set_const: "\<not> is_unset e \<Longrightarrow> n_set (map (\<lambda>_. e) xs) = n_set xs + int (length (filter is_unset xs))"
  by (induction xs) (auto simp: n_set_def)

text \<open>
  What the last node of a path does to its range, for any change \<open>g\<close> of the entries: the entries of the
  addresses that agree on the remaining \<open>k\<close> bits are changed, and no others.
\<close>

lemma range_lookup:
  assumes "rt_known ip" and "rt_known q" and "length es = 2 ^ w" and "b mod 32 + w \<le> 32" and "k \<le> w"
    and lo: "lo = ix ip b w div 2 ^ (w - k) * 2 ^ (w - k)"
  shows "dir_sub_lookup q b (SubTable w f' (on_range lo (2 ^ (w - k) + lo) g es))
    = entry_lookup q (b + w) (if same_bits ip q b (b + k) then g (es ! ix q b w) else es ! ix q b w)"
proof -
  have w: "w \<le> 32" using assms(4) by simp
  have hi: "2 ^ (w - k) + lo \<le> 2 ^ w" unfolding lo by (rule div_block_le [OF ix_less [OF assms(1) w] assms(5)])
  have "lo \<le> ix q b w \<and> ix q b w < 2 ^ (w - k) + lo \<longleftrightarrow> ix q b k = ix ip b k"
    using in_div_block [of "ix ip b w" "w - k" "ix q b w"] by (simp only: lo ix_div [OF assms(1,5) w] ix_div [OF assms(2,5) w])
  also have "\<dots> \<longleftrightarrow> same_bits ip q b (b + k)"
    using ix_eq_iff [OF assms(1,2), of b k] assms(4,5) by auto
  finally show ?thesis
    using hi ix_less [OF assms(2) w, of b] assms(3)
    by (simp add: lookup_node [OF assms(2) _ w] length_on_range nth_on_range del: dir_sub_lookup.simps)
qed

lemma range_wf:
  assumes "sub_wf (w # ds) b (SubTable w f es)" and "lo < hi" and "hi \<le> length es"
    and g: "\<And>e. e \<in> set es \<Longrightarrow> entry_wf ds (b + w) (g e)"
    and f': "f' = f + (n_set (map g (seg lo hi es)) - n_set (seg lo hi es))"
  shows "sub_wf (w # ds) b (SubTable w f' (on_range lo hi g es))"
proof -
  have "entry_wf ds (b + w) e" if "e \<in> set (on_range lo hi g es)" for e
    using that assms(1) set_on_range [of lo hi g es] g set_seg [of lo hi es] by auto
  then show ?thesis using assms by (simp add: length_on_range n_set_on_range)
qed

lemma range_filled:
  assumes "sub_wf (w # ds) b (SubTable w f' (on_range lo hi g es))" and "lo < hi" and "hi \<le> length es"
    and "\<not> is_unset (g (es ! lo))"
  shows "f' \<noteq> 0"
proof -
  have "on_range lo hi g es ! lo = g (es ! lo)" and "lo < length (on_range lo hi g es)"
    using assms(2,3) by (simp_all add: nth_on_range length_on_range)
  then have "g (es ! lo) \<in> set (on_range lo hi g es)" by (metis nth_mem)
  then show ?thesis using assms(1,4) n_set_0 by auto
qed

section \<open>Leaves\<close>

fun entry_leaves :: "dir_entry \<Rightarrow> (nat \<times> nat) set" and sub_leaves :: "dir_sub_table \<Rightarrow> (nat \<times> nat) set" where
  "entry_leaves (Val i l) = {(i, l)}"
| "entry_leaves (Ptr t) = sub_leaves t"
| "sub_leaves (SubTable w f es) = (\<Union>e\<in>set es. entry_leaves e)"

lemma fill_leaves:
  "entry_leaves (entry_fill len val e) \<subseteq> insert (val, len) (entry_leaves e)"
  "sub_leaves (sub_fill len val t) \<subseteq> insert (val, len) (sub_leaves t)"
  by (induction len val e and len val t rule: entry_fill_sub_fill.induct) auto

lemma range_leaves:
  assumes "\<And>e. entry_leaves (g e) \<subseteq> insert x (entry_leaves e)"
  shows "sub_leaves (SubTable w f' (on_range lo hi g es)) \<subseteq> insert x (sub_leaves (SubTable w f es))"
proof -
  have "entry_leaves e \<subseteq> insert x (\<Union>e\<in>set es. entry_leaves e)" if "e \<in> set (on_range lo hi g es)" for e
  proof -
    note e = that
    obtain e' where "e' \<in> set es" "e = e' \<or> e = g e'"
      using e set_on_range [of lo hi g es] set_seg [of lo hi es] by blast
    then show ?thesis using assms [of e'] by blast
  qed
  then show ?thesis by auto
qed

lemma lookup_leaf: "dir_sub_lookup q b t \<in> insert (0, 0) (sub_leaves t)"
proof (induction q b t rule: dir_sub_lookup.induct)
  case (1 ip bits w f es)
  show ?case
  proof (cases "dir_index ip bits w")
    case (Some i)
    show ?thesis
    proof (cases "i < length es")
      case True
      then have "es ! i \<in> set es" by simp
      then have "insert (0, 0) (entry_leaves (es ! i)) \<subseteq> insert (0, 0) (sub_leaves (SubTable w f es))" by auto
      with True Some 1 [OF Some True] show ?thesis by (cases "es ! i") auto
    qed (simp add: Some)
  qed simp
qed

section \<open>Insertion\<close>

definition ins_spec :: "behavior \<Rightarrow> nat \<Rightarrow> nat \<Rightarrow> bool \<Rightarrow> nat \<times> nat \<Rightarrow> nat \<times> nat" where
  "ins_spec beh len val m old = (if m \<and> (beh = RT_FAVOR_TIME \<or> snd old \<le> len) then (val, len) else old)"

text \<open>What a successful insertion into the node at bit \<open>b\<close> promises.\<close>

definition ins_ok :: "behavior \<Rightarrow> rt_ip \<Rightarrow> nat \<Rightarrow> nat \<Rightarrow> nat list \<Rightarrow> nat \<Rightarrow> u32 \<Rightarrow> dir_sub_table \<Rightarrow> u32 \<Rightarrow> dir_sub_table \<Rightarrow> bool" where
  "ins_ok beh ip len val ds b al t al' t' \<longleftrightarrow>
     sub_wf ds b t' \<and> st_filled t' \<noteq> 0 \<and> al' - sub_table_mem t' = al - sub_table_mem t \<and>
     sub_leaves t' \<subseteq> insert (val, len) (sub_leaves t) \<and>
     (\<forall>q. rt_known q \<longrightarrow>
       dir_sub_lookup q b t' = ins_spec beh len val (same_bits ip q b len) (dir_sub_lookup q b t))"

lemma entry_fill_facts:
  assumes "entry_wf ds b e" and "val \<noteq> 0" and "len \<noteq> 0" and "len \<le> b" and "dims_ok ds b"
  shows "entry_wf ds b (entry_fill len val e)" and "entry_mem (entry_fill len val e) = entry_mem e"
    and "rt_known q \<Longrightarrow> entry_lookup q b (entry_fill len val e) = ins_spec RT_FAVOR_SPECIFIC len val True (entry_lookup q b e)"
    and "\<not> is_unset (entry_fill len val e)"
proof -
  show "\<not> is_unset (entry_fill len val e)" using assms by (cases e) auto
  show "rt_known q \<Longrightarrow> entry_lookup q b (entry_fill len val e) = ins_spec RT_FAVOR_SPECIFIC len val True (entry_lookup q b e)"
    using assms lookup_fill [OF _ assms(3), of q ds b] by (cases e) (auto simp: ins_spec_def)
  have "0 \<le> st_filled u" if "sub_wf ds b u" for u
    using that n_set_nonneg by (cases ds; cases u) auto
  then show "entry_wf ds b (entry_fill len val e)" and "entry_mem (entry_fill len val e) = entry_mem e"
    using assms fill_wf_mem [OF assms(2,3), of ds b] by (cases e; force)+
qed

lemma insert_leaf:
  assumes "rt_known ip" and wf: "sub_wf (w # ds) b (SubTable w f es)" and dims: "dims_ok (w # ds) b"
    and "0 < k" and k: "k \<le> w" and "val \<noteq> 0" and len: "len = b + k"
    and lo: "lo = ix ip b w div 2 ^ (w - k) * 2 ^ (w - k)" and hi: "hi = 2 ^ (w - k) + lo"
  shows "case dir_fill_all lo hi len val al (SubTable w f es) of (al', t') \<Rightarrow>
      ins_ok RT_FAVOR_TIME ip len val (w # ds) b al (SubTable w f es) al' t'" (is ?T)
    and "ins_ok RT_FAVOR_SPECIFIC ip len val (w # ds) b al (SubTable w f es) al
      (dir_fill_less_specific lo hi len val (SubTable w f es))" (is ?S)
proof -
  have es: "length es = 2 ^ w" and w: "w \<le> 32" and bw: "b mod 32 + w \<le> 32"
    and ewf: "\<And>e. e \<in> set es \<Longrightarrow> entry_wf ds (b + w) e" using wf dims by auto
  have le: "hi \<le> length es" unfolding hi lo es by (rule div_block_le [OF ix_less [OF assms(1) w] k])
  have lt: "lo < hi" by (simp add: hi)
  then have lomem: "es ! lo \<in> set es" using le by simp
  have qmem: "rt_known q \<Longrightarrow> es ! ix q b w \<in> set es" for q using ix_less [OF _ w, of q b] es by simp
  have lk: "rt_known q \<Longrightarrow> dir_sub_lookup q b (SubTable w f es) = entry_lookup q (b + w) (es ! ix q b w)" for q
    by (rule lookup_node [OF _ es w])
  have len0: "len \<noteq> 0" "len \<le> b + w" using assms by auto
  note rl = range_lookup [OF assms(1) _ es bw k lo, folded hi]
  show ?T
  proof -
    let ?g = "\<lambda>_ :: dir_entry. Val val len" and ?f = "f + int (length (filter is_unset (seg lo hi es)))"
    have v: "\<not> is_unset (Val val len)" using assms by simp
    have "sub_wf (w # ds) b (SubTable w ?f (on_range lo hi ?g es))"
      by (rule range_wf [OF wf lt le]) (use assms len0 n_set_const [OF v] in auto)
    moreover from range_filled [OF this lt le v] have "?f \<noteq> 0" .
    moreover have "sub_leaves (SubTable w ?f (on_range lo hi ?g es)) \<subseteq> insert (val, len) (sub_leaves (SubTable w f es))"
      by (rule range_leaves) auto
    ultimately show ?thesis
      using lt len by (simp add: dir_fill_all_def ins_ok_def mem_on_range comp_def rl lk ins_spec_def del: sub_wf.simps dir_sub_lookup.simps sub_leaves.simps)
  qed
  show ?S
  proof -
    let ?g = "entry_fill len val" and ?f = "f + int (length (filter (newly_set len) (seg lo hi es)))"
    note ef = entry_fill_facts [OF ewf \<open>val \<noteq> 0\<close> len0]
    have d: "dims_ok ds (b + w)" using dims by simp
    have "sub_wf (w # ds) b (SubTable w ?f (on_range lo hi ?g es))"
      by (rule range_wf [OF wf lt le]) (use ef(1) [OF _ d] n_set_fill [OF \<open>val \<noteq> 0\<close>] in auto)
    moreover from range_filled [OF this lt le ef(4) [OF lomem d]] have "?f \<noteq> 0" .
    moreover have "sum_list (map (entry_mem \<circ> ?g) (seg lo hi es)) = sum_list (map entry_mem (seg lo hi es))"
      using ef(2) [OF _ d] set_seg [of lo hi es] by (intro arg_cong [where f = sum_list] map_cong) auto
    moreover note leaves = range_leaves [where g = ?g and x = "(val, len)", OF fill_leaves(1), of w ?f lo hi es f]
    ultimately show ?thesis
      using lt len ef(3) [OF qmem d]
      by (auto simp: dir_fill_less_specific_def ins_ok_def mem_on_range rl lk ins_spec_def simp del: sub_wf.simps dir_sub_lookup.simps sub_leaves.simps dest: leaves [THEN subsetD])
  qed
qed

lemma lookup_update:
  assumes "rt_known ip" and "rt_known q" and "length es = 2 ^ w" and "b mod 32 + w \<le> 32"
  shows "dir_sub_lookup q b (SubTable w f' (es[ix ip b w := e]))
    = (if same_bits ip q b (b + w) then entry_lookup q (b + w) e else dir_sub_lookup q b (SubTable w f es))"
proof -
  have w: "w \<le> 32" using assms(4) by simp
  show ?thesis
    using ix_eq_iff [OF assms(1,2,4)] ix_less [OF assms(1) w, of b] assms(3)
    by (auto simp: lookup_node [OF assms(2) _ w] nth_list_update simp del: dir_sub_lookup.simps)
qed

lemma insert_step:
  assumes "rt_known ip" and wf: "sub_wf (w # ds) b (SubTable w f es)" and dims: "dims_ok (w # ds) b" and "b + w \<le> len"
    and e: "es ! ix ip b w = e"
    and u: "\<And>q. rt_known q \<Longrightarrow> dir_sub_lookup q (b + w) u = entry_lookup q (b + w) e"
    and mem: "al1 - sub_table_mem u = al - entry_mem e" and lv: "sub_leaves u = entry_leaves e"
    and ok: "ins_ok beh ip len val ds (b + w) al1 u al' u'"
  shows "ins_ok beh ip len val (w # ds) b al (SubTable w f es) al'
    (SubTable w (if is_unset e then f + 1 else f) (es[ix ip b w := Ptr u']))"
proof -
  have es: "length es = 2 ^ w" and w: "w \<le> 32" and bw: "b mod 32 + w \<le> 32" using wf dims by auto
  let ?es = "es[ix ip b w := Ptr u']" and ?f = "if is_unset e then f + 1 else f"
  have i: "ix ip b w < length es" using ix_less [OF assms(1) w] es by simp
  have f: "f = n_set es" using wf by simp
  have n: "n_set ?es = ?f" using i by (simp add: n_set_update e f)
  have "sub_wf ds (b + w) u'" "st_filled u' \<noteq> 0" using ok by (simp_all add: ins_ok_def)
  then have "sub_wf (w # ds) b (SubTable w ?f ?es)"
    using wf es n by (auto dest!: set_update_subset_insert [THEN subsetD])
  moreover have "?f \<noteq> 0" using set_update_memI [OF i, of "Ptr u'"] unfolding n [symmetric] n_set_0 by force
  moreover have "al' - sub_table_mem (SubTable w ?f ?es) = al - sub_table_mem (SubTable w f es)"
  proof -
    have "al' - sub_table_mem u' = al - entry_mem e" using ok mem by (simp add: ins_ok_def)
    then show ?thesis using i by (simp add: mem_update e algebra_simps)
  qed
  moreover have "sub_leaves (SubTable w ?f ?es) \<subseteq> insert (val, len) (sub_leaves (SubTable w f es))"
  proof -
    have "sub_leaves u' \<subseteq> insert (val, len) (entry_leaves e)" using ok lv by (auto simp: ins_ok_def)
    moreover have "e \<in> set es" using i e by auto
    ultimately show ?thesis by (auto dest!: set_update_subset_insert [THEN subsetD])
  qed
  moreover have "dir_sub_lookup q b (SubTable w ?f ?es)
      = ins_spec beh len val (same_bits ip q b len) (dir_sub_lookup q b (SubTable w f es))" if q: "rt_known q" for q
  proof (cases "same_bits ip q b (b + w)")
    case True
    then have "ix q b w = ix ip b w" using ix_eq_iff [OF assms(1) q bw] by simp
    with True ok q u show ?thesis using same_bits_split [of b "b + w" len ip q] assms(4)
      by (simp add: lookup_update [OF assms(1) q es bw, where f = f] lookup_node [OF q es w] e ins_ok_def del: dir_sub_lookup.simps)
  next
    case False
    then show ?thesis using same_bits_split [of b "b + w" len ip q] assms(4)
      by (simp add: lookup_update [OF assms(1) q es bw, where f = f] ins_spec_def del: dir_sub_lookup.simps)
  qed
  ultimately show ?thesis by (simp add: ins_ok_def del: sub_wf.simps dir_sub_lookup.simps sub_leaves.simps)
qed

lemma new_node:
  assumes "(i = 0) = (l = 0)" and "l \<le> b" and "dims_ok (w # ds) b"
  shows "sub_wf (w # ds) b (SubTable w (if i \<noteq> 0 then 2 ^ w else 0) (replicate (2 ^ w) (Val i l)))"
    and "sub_table_mem (SubTable w f (replicate (2 ^ w) (Val i l))) = sub_table_size w"
    and "rt_known q \<Longrightarrow> dir_sub_lookup q b (SubTable w f (replicate (2 ^ w) (Val i l))) = (i, l)"
    and "sub_leaves (SubTable w f (replicate (2 ^ w) (Val i l))) = {(i, l)}"
proof -
  show "sub_leaves (SubTable w f (replicate (2 ^ w) (Val i l))) = {(i, l)}" by auto
  have "n_set (replicate n (Val i l)) = (if i \<noteq> 0 then int n else 0)" for n by (induction n) (auto simp: n_set_def)
  then show "sub_wf (w # ds) b (SubTable w (if i \<noteq> 0 then 2 ^ w else 0) (replicate (2 ^ w) (Val i l)))"
    using assms by auto
  show "sub_table_mem (SubTable w f (replicate (2 ^ w) (Val i l))) = sub_table_size w"
    by (simp add: sum_list_replicate)
  have w: "w \<le> 32" using assms(3) by simp
  show "rt_known q \<Longrightarrow> dir_sub_lookup q b (SubTable w f (replicate (2 ^ w) (Val i l))) = (i, l)"
    using ix_less [OF _ w, of q b] by (simp add: lookup_node [OF _ _ w] del: dir_sub_lookup.simps)
qed

text \<open>
  Enough fuel inserts any prefix the widths can hold, or runs into the memory cap.
\<close>

lemma sub_insert:
  assumes "rt_known ip" and "val \<noteq> 0"
  shows "sub_wf ds b t \<Longrightarrow> dims_ok ds b \<Longrightarrow> ds = drop depth dims \<Longrightarrow> 0 < k \<Longrightarrow> k \<le> sum_list ds \<Longrightarrow> k < n \<Longrightarrow> len = b + k \<Longrightarrow>
    \<exists>rc al' t'. dir_sub_insert n dims cap ip b len k val depth beh al t = Some (rc, al', t')
      \<and> (rc = RT_SUCCESS \<and> ins_ok beh ip len val ds b al t al' t' \<or> rc = MEM_ALLOC_FAILURE)"
proof (induction ds arbitrary: b t depth k n al)
  case (Cons w ds)
  obtain f es where t: "t = SubTable w f es" using Cons.prems(1) by (cases t) simp
  obtain m where n: "n = Suc m" using Cons.prems(6) by (cases n) auto
  note wf = Cons.prems(1) [unfolded t] and dims = Cons.prems(2)
  have es: "length es = 2 ^ w" and w: "0 < w" "w \<le> 32" using wf dims by auto
  have i: "ix ip b w < length es" using ix_less [OF assms(1) w(2)] es by simp
  note ins = dir_index_known [OF assms(1), of b w]
  show ?case
  proof (cases "k \<le> w")
    case True
    note leaf = insert_leaf [OF assms(1) wf dims Cons.prems(4) True assms(2) Cons.prems(7) refl refl, of al]
    show ?thesis
    proof (cases beh)
      case RT_FAVOR_TIME
      then show ?thesis using leaf(1) True by (auto simp: n t ins Let_def split: prod.splits)
    next
      case RT_FAVOR_SPECIFIC
      then show ?thesis using leaf(2) True by (simp add: n t ins Let_def)
    qed
  next
    case False
    then have kw: "k - w \<noteq> 0" "k - w \<le> sum_list ds" "k - w < m" "len = (b + w) + (k - w)" "b + w \<le> len"
      using Cons.prems(4-7) w by (auto simp: n)
    have ds: "ds = drop (depth + 1) dims" using Cons.prems(3) by (metis drop_Suc_Cons drop_drop drop_0 Suc_eq_plus1_left plus_1_eq_Suc)
    have d': "dims_ok ds (b + w)" using dims by simp
    note IH = Cons.IH [OF _ d' ds kw(1) [unfolded neq0_conv] kw(2,3,4)]
    let ?e = "es ! ix ip b w"
    have ewf: "entry_wf ds (b + w) ?e" using wf i by auto
    show ?thesis
    proof (cases ?e)
      case (Ptr u)
      then have "sub_wf ds (b + w) u" using ewf by simp
      from IH [OF this, of al] obtain rc al' u' where r:
        "dir_sub_insert m dims cap ip (b + w) len (k - w) val (depth + 1) beh al u = Some (rc, al', u')"
        "rc = RT_SUCCESS \<and> ins_ok beh ip len val ds (b + w) al u al' u' \<or> rc = MEM_ALLOC_FAILURE" by blast
      have "rc = RT_SUCCESS \<Longrightarrow> ins_ok beh ip len val (w # ds) b al t al' (SubTable w f (es[ix ip b w := Ptr u']))"
        using insert_step [OF assms(1) wf dims kw(5) Ptr, of u al al beh val al' u'] r(2) by (auto simp: t)
      then show ?thesis using False r Ptr by (auto simp: n t ins)
    next
      case (Val j l)
      obtain w' ds' where ds': "ds = w' # ds'" using kw by (cases ds) auto
      then have dep: "depth + 1 < length dims" "dims ! (depth + 1) = w'" "depth < length dims"
        using ds by (metis length_drop length_greater_0_conv list.discI zero_less_diff, metis ds nth_via_drop, 
          metis drop_all ds list.discI not_less Suc_eq_plus1 Suc_leI le_SucI)
      let ?f = "if j = 0 then f + 1 else f"
      show ?thesis
      proof (cases "cap < al + sub_table_size w' \<or> 128 < l")
        case True
        then show ?thesis using False Val dep by (auto simp: n t ins sub_table_new_def Let_def)
      next
        case cap: False
        let ?u = "SubTable w' (if j \<noteq> 0 then 2 ^ w' else 0) (replicate (2 ^ w') (Val j l))" and ?al = "al + sub_table_size w'"
        have new: "sub_table_new dims cap al (depth + 1) j l = Some (Some ?u, ?al)"
          using cap dep by (simp add: sub_table_new_def Let_def)
        have jl: "(j = 0) = (l = 0)" "l \<le> b + w" "dims_ok (w' # ds') (b + w)" using ewf Val d' ds' by auto
        note u = new_node [OF jl]
        from IH [unfolded ds', OF u(1), of ?al] obtain rc al' u' where r:
          "dir_sub_insert m dims cap ip (b + w) len (k - w) val (depth + 1) beh ?al ?u = Some (rc, al', u')"
          "rc = RT_SUCCESS \<and> ins_ok beh ip len val ds (b + w) ?al ?u al' u' \<or> rc = MEM_ALLOC_FAILURE" unfolding ds' by blast
        have "rc = RT_SUCCESS \<Longrightarrow> ins_ok beh ip len val (w # ds) b al t al' (SubTable w ?f (es[ix ip b w := Ptr u']))"
          using insert_step [OF assms(1) wf dims kw(5) Val, of ?u ?al al beh val al' u'] r(2) u(2,3,4)
          by (auto simp: t simp del: dir_sub_lookup.simps sub_wf.simps)
        then show ?thesis using False r Val dep new by (auto simp: n t ins Let_def simp del: sub_wf.simps)
      qed
    qed
  qed
qed simp

section \<open>Removal\<close>

definition rem_spec :: "behavior \<Rightarrow> nat \<Rightarrow> bool \<Rightarrow> nat \<times> nat \<Rightarrow> nat \<times> nat" where
  "rem_spec beh len m old = (if m \<and> (beh = RT_FAVOR_TIME \<or> snd old = len) then (0, 0) else old)"

text \<open>What the change of one entry promises, and what the removal from a node does.\<close>

definition rem_entry_ok :: "behavior \<Rightarrow> nat \<Rightarrow> nat list \<Rightarrow> nat \<Rightarrow> dir_entry \<Rightarrow> dir_entry \<Rightarrow> bool" where
  "rem_entry_ok beh len ds b e e' \<longleftrightarrow> entry_wf ds b e' \<and> entry_leaves e' \<subseteq> insert (0, 0) (entry_leaves e) \<and>
     (\<forall>q. rt_known q \<longrightarrow> entry_lookup q b e' = rem_spec beh len True (entry_lookup q b e))"

definition rem_ok :: "behavior \<Rightarrow> rt_ip \<Rightarrow> nat \<Rightarrow> nat list \<Rightarrow> nat \<Rightarrow> u32 \<Rightarrow> dir_sub_table \<Rightarrow> nat \<Rightarrow> u32 \<Rightarrow> dir_sub_table \<Rightarrow> bool" where
  "rem_ok beh ip len ds b al t v al' t' \<longleftrightarrow>
     sub_wf ds b t' \<and> al' - sub_table_mem t' = al - sub_table_mem t \<and>
     sub_leaves t' \<subseteq> insert (0, 0) (sub_leaves t) \<and> (v \<noteq> 0 \<longrightarrow> (v, len) \<in> sub_leaves t) \<and>
     (\<forall>q. rt_known q \<longrightarrow> dir_sub_lookup q b t' = rem_spec beh len (same_bits ip q b len) (dir_sub_lookup q b t))"

lemma unset_lookup:
  assumes "rt_known q" and "sub_wf ds b t" and "dims_ok ds b" and "st_filled t = 0"
  shows "dir_sub_lookup q b t = (0, 0)"
proof -
  obtain w ds' where ds: "ds = w # ds'" using assms(2) by (cases ds) auto
  obtain f es where t: "t = SubTable w f es" using assms(2) by (cases t) (simp add: ds)
  have w: "w \<le> 32" and es: "length es = 2 ^ w" using assms by (auto simp: ds t)
  have m: "es ! ix q b w \<in> set es" using ix_less [OF assms(1) w, of b] es by simp
  then have "is_unset (es ! ix q b w)" using assms(2,4) n_set_0 [of es] by (auto simp: ds t)
  moreover have "entry_wf ds' (b + w) (es ! ix q b w)" using m assms(2) by (auto simp: ds t)
  ultimately have "es ! ix q b w = Val 0 0" by (cases "es ! ix q b w") auto
  then show ?thesis using lookup_node [OF assms(1) es w, of b f] by (simp add: t)
qed

lemma diff_chain:
  fixes x :: u32
  assumes "x1 - e1 = x - e" and "x2 - s2 = x1 - s"
  shows "x2 - (e1 + s2) = x - (e + s)"
proof -
  have "x2 = x1 - s + s2" and "x1 = x - e + e1" using assms by (simp_all add: algebra_simps)
  then show ?thesis by (simp add: algebra_simps)
qed

text \<open>The loop, given the same of every entry. The number of entries set goes down by the count returned.\<close>

lemma rem_entries_ok:
  assumes "\<And>e al v al' n e'. e \<in> set es \<Longrightarrow> rem_entry len al e = (v, al', n, e') \<Longrightarrow>
      Q e e' \<and> al' - entry_mem e' = al - entry_mem e \<and> n = n_set [e] - n_set [e'] \<and> (v \<noteq> 0 \<longrightarrow> (v, len) \<in> entry_leaves e)"
  shows "rem_entries len al es = (v, al', n, es') \<Longrightarrow>
    list_all2 Q es es' \<and> al' - sum_list (map entry_mem es') = al - sum_list (map entry_mem es)
    \<and> n = n_set es - n_set es' \<and> (v \<noteq> 0 \<longrightarrow> (\<exists>e\<in>set es. (v, len) \<in> entry_leaves e))"
  using assms
proof (induction es arbitrary: al v al' n es')
  case (Cons e es)
  obtain v1 al1 n1 e1 where 1: "rem_entry len al e = (v1, al1, n1, e1)" by (metis prod_cases4)
  obtain v2 al2 n2 es2 where 2: "rem_entries len al1 es = (v2, al2, n2, es2)" by (metis prod_cases4)
  have r: "v = (if v2 \<noteq> 0 then v2 else v1)" "al' = al2" "n = n1 + n2" "es' = e1 # es2"
    using Cons.prems(1) by (auto simp: 1 2)
  note a = Cons.prems(2) [OF _ 1, simplified] and b = Cons.IH [OF 2 Cons.prems(2)]
  have "al2 - (entry_mem e1 + sum_list (map entry_mem es2)) = al - (entry_mem e + sum_list (map entry_mem es))"
    by (rule diff_chain) (use a b in simp_all)
  with a b show ?case by (auto simp: r n_set_def)
qed (simp add: n_set_def)

lemma rem_entry_spec:
  assumes "len \<noteq> 0"
  shows "entry_wf ds b e \<Longrightarrow> dims_ok ds b \<Longrightarrow> rem_entry len al e = (v, al', n, e') \<Longrightarrow>
    rem_entry_ok RT_FAVOR_SPECIFIC len ds b e e' \<and> al' - entry_mem e' = al - entry_mem e \<and> n = n_set [e] - n_set [e']
    \<and> (v \<noteq> 0 \<longrightarrow> (v, len) \<in> entry_leaves e)"
proof (induction ds arbitrary: b e al v al' n e')
  case Nil
  then show ?case using assms by (cases e) (auto simp: rem_entry_ok_def rem_spec_def n_set_def split: if_splits)
next
  case (Cons w ds)
  show ?case
  proof (cases e)
    case (Val i l)
    then show ?thesis using Cons.prems assms
      by (auto simp: rem_entry_ok_def rem_spec_def n_set_def split: if_splits)
  next
    case (Ptr u)
    obtain f es where u: "u = SubTable w f es" using Cons.prems(1) Ptr by (cases u) simp
    have wf: "sub_wf (w # ds) b u" using Cons.prems(1) Ptr by simp
    then have es: "length es = 2 ^ w" and w: "w \<le> 32" and f: "f = n_set es" using Cons.prems(2) by (auto simp: u)
    obtain v1 al1 n1 es1 where 1: "rem_entries len al es = (v1, al1, n1, es1)" by (metis prod_cases4)
    have d: "dims_ok ds (b + w)" using Cons.prems(2) by simp
    have "entry_wf ds (b + w) x" if "x \<in> set es" for x using wf that by (auto simp: u)
    note L = rem_entries_ok [where es = es and Q = "rem_entry_ok RT_FAVOR_SPECIFIC len ds (b + w)", OF Cons.IH [OF this d] 1]
    let ?u = "SubTable w (f - n1) es1"
    have all: "list_all2 (rem_entry_ok RT_FAVOR_SPECIFIC len ds (b + w)) es es1" using L by blast
    have nth: "rem_entry_ok RT_FAVOR_SPECIFIC len ds (b + w) (es ! i) (es1 ! i)" if "i < 2 ^ w" for i
      using all that es by (simp add: list_all2_conv_all_nth)
    have es1: "length es1 = 2 ^ w" using all es by (simp add: list_all2_lengthD)
    have wf1: "sub_wf (w # ds) b ?u"
      using L f es1 nth by (auto simp: in_set_conv_nth rem_entry_ok_def)
    have lk: "rt_known q \<Longrightarrow> dir_sub_lookup q b ?u = rem_spec RT_FAVOR_SPECIFIC len True (dir_sub_lookup q b u)" for q
      using nth [OF ix_less [OF _ w, of q b]] by (simp add: u lookup_node [OF _ es w] lookup_node [OF _ es1 w] rem_entry_ok_def del: dir_sub_lookup.simps)
    have lv: "sub_leaves ?u \<subseteq> insert (0, 0) (sub_leaves u)"
    proof -
      have "entry_leaves (es1 ! i) \<subseteq> insert (0, 0) (\<Union>e\<in>set es. entry_leaves e)" if "i < 2 ^ w" for i
      proof -
        have "entry_leaves (es1 ! i) \<subseteq> insert (0, 0) (entry_leaves (es ! i))"
          using nth [OF that] by (simp add: rem_entry_ok_def)
        moreover have "es ! i \<in> set es" using that es by simp
        ultimately show ?thesis by (meson UN_upper insert_mono order_trans)
      qed
      then have "(\<Union>e\<in>set es1. entry_leaves e) \<subseteq> insert (0, 0) (\<Union>e\<in>set es. entry_leaves e)"
        unfolding UN_subset_iff using es1 by (metis in_set_conv_nth)
      then show ?thesis by (simp add: u)
    qed
    have mem: "al1 - sub_table_mem ?u = al - sub_table_mem u" using L by (simp add: u algebra_simps)
    have vv: "v1 \<noteq> 0 \<longrightarrow> (v1, len) \<in> sub_leaves u" using L by (auto simp: u)
    show ?thesis
    proof (cases "f - n1 = 0")
      case True
      then have r: "v = v1" "al' = al1 - sub_table_mem ?u" "n = 1" "e' = Val 0 0"
        using Cons.prems(3) 1 Ptr u by (auto simp: Let_def)
      have "rt_known q \<Longrightarrow> rem_spec RT_FAVOR_SPECIFIC len True (dir_sub_lookup q b u) = (0, 0)" for q
        using lk [of q] unset_lookup [OF _ wf1 Cons.prems(2)] True by simp
      then show ?thesis using mem vv Ptr by (simp add: r rem_entry_ok_def n_set_def)
    next
      case False
      then have r: "v = v1" "al' = al1" "n = 0" "e' = Ptr ?u"
        using Cons.prems(3) 1 Ptr u by (auto simp: Let_def)
      show ?thesis using wf1 lk lv mem vv Ptr False by (simp add: r rem_entry_ok_def n_set_def del: sub_wf.simps dir_sub_lookup.simps sub_leaves.simps sub_table_mem.simps)
    qed
  qed
qed

lemma sum_seg:
  fixes g :: "_ \<Rightarrow> 'm::comm_monoid_add"
  shows "lo \<le> hi \<Longrightarrow>
    sum_list (map g es) = sum_list (map g (take lo es)) + (sum_list (map g (seg lo hi es)) + sum_list (map g (drop hi es)))"
  by (subst (1) split_seg [of lo hi]) simp_all

lemma remove_range:
  assumes "rt_known ip" and wf: "sub_wf (w # ds) b (SubTable w f es)" and dims: "dims_ok (w # ds) b" and k: "k \<le> w"
    and lo: "lo = ix ip b w div 2 ^ (w - k) * 2 ^ (w - k)" and hi: "hi = 2 ^ (w - k) + lo"
    and xs: "list_all2 (rem_entry_ok beh len ds (b + w)) (seg lo hi es) xs" and len: "len = b + k"
    and f': "f' = f - (n_set (seg lo hi es) - n_set xs)"
    and mem: "al' - sum_list (map entry_mem xs) = al - sum_list (map entry_mem (seg lo hi es))"
    and v: "v \<noteq> 0 \<longrightarrow> (v, len) \<in> sub_leaves (SubTable w f es)"
  shows "rem_ok beh ip len (w # ds) b al (SubTable w f es) v al' (SubTable w f' (take lo es @ xs @ drop hi es))"
proof -
  let ?es = "take lo es @ xs @ drop hi es" and ?R = "rem_entry_ok beh len ds (b + w)"
  have es: "length es = 2 ^ w" and w: "w \<le> 32" and bw: "b mod 32 + w \<le> 32" using wf dims by auto
  have le: "hi \<le> length es" unfolding hi lo es by (rule div_block_le [OF ix_less [OF assms(1) w] k])
  have lt: "lo \<le> hi" by (simp add: hi)
  have xl: "length xs = hi - lo" using xs lt le by (simp add: length_seg list_all2_lengthD [symmetric])
  have esl: "length ?es = 2 ^ w" using xl lt le es by simp
  have nth: "if lo \<le> j \<and> j < hi then ?R (es ! j) (?es ! j) else ?es ! j = es ! j" if "j < 2 ^ w" for j
  proof (cases "lo \<le> j \<and> j < hi")
    case True
    then have "?R (seg lo hi es ! (j - lo)) (xs ! (j - lo))"
      using list_all2_nthD2 [OF xs, of "j - lo"] xl diff_less_mono [of j hi lo] by simp
    moreover have "seg lo hi es ! (j - lo) = es ! j" using True le diff_less_mono [of j hi lo] by (simp add: seg_def)
    moreover have "?es ! j = xs ! (j - lo)" using True le xl diff_less_mono [of j hi lo] by (simp add: nth_append)
    ultimately show ?thesis using True by simp
  next
    case False
    then show ?thesis using xl le lt that es by (auto simp: nth_append)
  qed
  have n: "n_set ?es + n_set (seg lo hi es) = n_set es + n_set xs" and
    m: "sum_list (map entry_mem ?es) + sum_list (map entry_mem (seg lo hi es)) = sum_list (map entry_mem es) + sum_list (map entry_mem xs)"
    using sum_seg [OF lt, of "\<lambda>e. if is_unset e then 0 else 1 :: int" es] sum_seg [OF lt, of entry_mem es]
    by (simp_all add: n_set_def)
  have "entry_wf ds (b + w) (?es ! j) \<and> entry_leaves (?es ! j) \<subseteq> insert (0, 0) (sub_leaves (SubTable w f es))" if j: "j < 2 ^ w" for j
  proof -
    have mj: "es ! j \<in> set es" using j es by simp
    then have "entry_leaves (es ! j) \<subseteq> sub_leaves (SubTable w f es)" by auto
    moreover have "entry_wf ds (b + w) (es ! j)" using wf mj by auto
    ultimately show ?thesis using nth [OF j] unfolding rem_entry_ok_def by (auto split: if_splits)
  qed
  then have e: "\<forall>e\<in>set ?es. entry_wf ds (b + w) e \<and> entry_leaves e \<subseteq> insert (0, 0) (sub_leaves (SubTable w f es))"
    unfolding all_set_conv_all_nth esl by blast
  have "sub_wf (w # ds) b (SubTable w f' ?es)" using e esl n f' wf by (simp del: sub_leaves.simps)
  moreover have "sub_leaves (SubTable w f' ?es) \<subseteq> insert (0, 0) (sub_leaves (SubTable w f es))"
    using e by (subst sub_leaves.simps) blast
  moreover have "al' - sub_table_mem (SubTable w f' ?es) = al - sub_table_mem (SubTable w f es)"
  proof -
    have a: "al' = al - sum_list (map entry_mem (seg lo hi es)) + sum_list (map entry_mem xs)" using mem by (simp add: algebra_simps)
    have m': "sum_list (map entry_mem ?es) = sum_list (map entry_mem es) + sum_list (map entry_mem xs) - sum_list (map entry_mem (seg lo hi es))"
      using m by (simp add: algebra_simps)
    show ?thesis unfolding a sub_table_mem.simps m' by simp
  qed
  moreover have "dir_sub_lookup q b (SubTable w f' ?es)
      = rem_spec beh len (same_bits ip q b len) (dir_sub_lookup q b (SubTable w f es))" if q: "rt_known q" for q
  proof -
    have "lo \<le> ix q b w \<and> ix q b w < hi \<longleftrightarrow> ix q b k = ix ip b k"
      using in_div_block [of "ix ip b w" "w - k" "ix q b w"] by (simp only: lo hi ix_div [OF assms(1) k w] ix_div [OF q k w])
    also have "\<dots> \<longleftrightarrow> same_bits ip q b len"
      using ix_eq_iff [OF assms(1) q, of b k] bw k len by auto
    finally show ?thesis
      using nth [OF ix_less [OF q w, of b]] q
      by (auto simp: lookup_node [OF q esl w] lookup_node [OF q es w] rem_entry_ok_def rem_spec_def
          simp del: dir_sub_lookup.simps split: if_splits)
  qed
  ultimately show ?thesis using v by (simp add: rem_ok_def del: sub_wf.simps dir_sub_lookup.simps sub_leaves.simps sub_table_mem.simps)
qed

lemma val_of_len_fold:
  "fold (\<lambda>e v. if val_of_len len e \<noteq> 0 then val_of_len len e else v) es x = v \<Longrightarrow> v \<noteq> x \<Longrightarrow>
   \<exists>e\<in>set es. (v, len) \<in> entry_leaves e"
proof (induction es arbitrary: x)
  case (Cons e es)
  then show ?case by (cases e) (fastforce split: if_splits)+
qed simp

lemma remove_leaf:
  assumes "rt_known ip" and wf: "sub_wf (w # ds) b (SubTable w f es)" and dims: "dims_ok (w # ds) b" and k: "k \<le> w" and "0 < k"
    and lo: "lo = ix ip b w div 2 ^ (w - k) * 2 ^ (w - k)" and hi: "hi = 2 ^ (w - k) + lo" and len: "len = b + k"
  shows "case dir_remove_all lo hi len al (SubTable w f es) of (v, al', t') \<Rightarrow>
      rem_ok RT_FAVOR_TIME ip len (w # ds) b al (SubTable w f es) v al' t'" (is ?T)
    and "case dir_remove_less_specific lo hi len al (SubTable w f es) of (v, al', t') \<Rightarrow>
      rem_ok RT_FAVOR_SPECIFIC ip len (w # ds) b al (SubTable w f es) v al' t'" (is ?S)
proof -
  have ewf: "\<And>e. e \<in> set (seg lo hi es) \<Longrightarrow> entry_wf ds (b + w) e" using wf set_seg [of lo hi es] by auto
  have d: "dims_ok ds (b + w)" using dims by simp
  have sub: "(\<Union>e\<in>set (seg lo hi es). entry_leaves e) \<subseteq> sub_leaves (SubTable w f es)" using set_seg [of lo hi es] by auto
  note R = remove_range [OF assms(1) wf dims k lo hi _ len]
  show ?T
  proof -
    let ?g = "\<lambda>e. if is_unset e then e else Val 0 0"
    have un: "is_unset e \<Longrightarrow> entry_wf ds (b + w) e \<Longrightarrow> e = Val 0 0" for e by (cases e) auto
    have "rem_entry_ok RT_FAVOR_TIME len ds (b + w) e (?g e)" if "e \<in> set (seg lo hi es)" for e
      using un [OF _ ewf [OF that]] by (cases "is_unset e") (auto simp: rem_entry_ok_def rem_spec_def)
    then have "list_all2 (rem_entry_ok RT_FAVOR_TIME len ds (b + w)) (seg lo hi es) (map ?g (seg lo hi es))"
      by (simp add: list.rel_map list.rel_refl_strong)
    moreover have "n_set (map ?g (seg lo hi es)) = 0" by (auto simp: n_set_0)
    moreover have "entry_mem (?g e) = 0" for e by (cases e) auto
    then have "map entry_mem (map ?g (seg lo hi es)) = map (\<lambda>_. 0) (seg lo hi es)" by simp
    then have "sum_list (map entry_mem (map ?g (seg lo hi es))) = 0" by (simp only: sum_list_0)
    ultimately show ?thesis
      using sub val_of_len_fold [of len "seg lo hi es" 0]
      by (simp add: dir_remove_all_def on_range_def del: sub_leaves.simps) (rule R, auto simp: n_set_filter)
  qed
  show ?S
  proof -
    obtain v al' n xs where r: "rem_entries len al (seg lo hi es) = (v, al', n, xs)" by (metis prod_cases4)
    have "len \<noteq> 0" using assms by simp
    note L = rem_entries_ok [where Q = "rem_entry_ok RT_FAVOR_SPECIFIC len ds (b + w)", OF rem_entry_spec [OF this ewf d] r]
    then show ?thesis using sub by (auto simp: dir_remove_less_specific_def r simp del: sub_leaves.simps intro!: R)
  qed
qed

lemma remove_step:
  assumes "rt_known ip" and wf: "sub_wf (w # ds) b (SubTable w f es)" and dims: "dims_ok (w # ds) b" and "b + w \<le> len"
    and e: "es ! ix ip b w = Ptr u" and ok: "rem_ok beh ip len ds (b + w) al u v al' u'"
  shows "rem_ok beh ip len (w # ds) b al (SubTable w f es) v
    (if st_filled u' = 0 then al' - sub_table_mem u' else al')
    (if st_filled u' = 0 then SubTable w (f - 1) (es[ix ip b w := Val 0 0]) else SubTable w f (es[ix ip b w := Ptr u']))"
proof -
  have es: "length es = 2 ^ w" and w: "w \<le> 32" and bw: "b mod 32 + w \<le> 32" and d: "dims_ok ds (b + w)" using wf dims by auto
  have i: "ix ip b w < length es" using ix_less [OF assms(1) w] es by simp
  define e' where "e' = (if st_filled u' = 0 then Val 0 0 else Ptr u')"
  define f' where "f' = (if st_filled u' = 0 then f - 1 else f)"
  have u': "sub_wf ds (b + w) u'" "sub_leaves u' \<subseteq> insert (0, 0) (sub_leaves u)" "v \<noteq> 0 \<Longrightarrow> (v, len) \<in> sub_leaves u"
    "al' - sub_table_mem u' = al - sub_table_mem u" using ok by (simp_all add: rem_ok_def)
  have m: "Ptr u \<in> set es" using e i by (metis nth_mem)
  then have lv: "sub_leaves u \<subseteq> sub_leaves (SubTable w f es)" using UN_upper [OF m, of entry_leaves] by simp
  have t': "(if st_filled u' = 0 then SubTable w (f - 1) (es[ix ip b w := Val 0 0]) else SubTable w f (es[ix ip b w := Ptr u']))
    = SubTable w f' (es[ix ip b w := e'])" by (simp add: e'_def f'_def)
  have e'wf: "entry_wf ds (b + w) e'" "entry_leaves e' \<subseteq> insert (0, 0) (sub_leaves (SubTable w f es))"
    using u' lv by (auto simp: e'_def simp del: sub_leaves.simps)
  have n: "n_set (es[ix ip b w := e']) = f'" using wf i by (simp add: n_set_update e e'_def f'_def)
  have all: "entry_wf ds (b + w) x \<and> entry_leaves x \<subseteq> insert (0, 0) (sub_leaves (SubTable w f es))"
    if "x \<in> set (es[ix ip b w := e'])" for x
    using set_update_subset_insert [THEN subsetD, OF that] e'wf wf by auto
  then have "sub_wf (w # ds) b (SubTable w f' (es[ix ip b w := e']))" using wf n by simp
  moreover have "sub_leaves (SubTable w f' (es[ix ip b w := e'])) \<subseteq> insert (0, 0) (sub_leaves (SubTable w f es))"
    using all by (subst sub_leaves.simps) blast
  moreover have "(if st_filled u' = 0 then al' - sub_table_mem u' else al') - sub_table_mem (SubTable w f' (es[ix ip b w := e']))
      = al - sub_table_mem (SubTable w f es)"
    using u'(4) i by (auto simp: mem_update e e'_def algebra_simps)
  moreover have "dir_sub_lookup q b (SubTable w f' (es[ix ip b w := e']))
      = rem_spec beh len (same_bits ip q b len) (dir_sub_lookup q b (SubTable w f es))" if q: "rt_known q" for q
  proof (cases "same_bits ip q b (b + w)")
    case True
    then have "ix q b w = ix ip b w" using ix_eq_iff [OF assms(1) q bw] by simp
    moreover have "entry_lookup q (b + w) e' = dir_sub_lookup q (b + w) u'"
      using unset_lookup [OF q u'(1) d] by (simp add: e'_def)
    ultimately show ?thesis using same_bits_split [of b "b + w" len ip q] assms(4) True ok q
      by (simp add: lookup_update [OF assms(1) q es bw, where f = f] lookup_node [OF q es w] e rem_ok_def del: dir_sub_lookup.simps)
  next
    case False
    then show ?thesis using same_bits_split [of b "b + w" len ip q] assms(4)
      by (simp add: lookup_update [OF assms(1) q es bw, where f = f] rem_spec_def del: dir_sub_lookup.simps)
  qed
  ultimately show ?thesis unfolding t' using u'(3) lv
    by (auto simp: rem_ok_def simp del: sub_wf.simps dir_sub_lookup.simps sub_leaves.simps sub_table_mem.simps)
qed

lemma rem_ok_none:
  assumes "sub_wf ds b t" and "\<And>q. rt_known q \<Longrightarrow> same_bits ip q b len \<Longrightarrow> rem_spec beh len True (dir_sub_lookup q b t) = dir_sub_lookup q b t"
  shows "rem_ok beh ip len ds b al t 0 al t"
proof -
  have "dir_sub_lookup q b t = rem_spec beh len (same_bits ip q b len) (dir_sub_lookup q b t)" if "rt_known q" for q
    using assms(2) [OF that] by (cases "same_bits ip q b len") (simp_all add: rem_spec_def [of _ _ False])
  then show ?thesis using assms(1) by (auto simp: rem_ok_def)
qed

text \<open>
  With \<open>RT_FAVOR_TIME\<close> nothing is removed when the walk down ends at a value, that is, when a shorter
  prefix covers the address; otherwise the walk reaches the last node.
\<close>

fun reaches :: "rt_ip \<Rightarrow> nat \<Rightarrow> nat \<Rightarrow> dir_sub_table \<Rightarrow> bool" where
  "reaches ip b k (SubTable w f es) =
     (if k \<le> w then True
      else if ix ip b w < length es then (case es ! ix ip b w of Val i l \<Rightarrow> False | Ptr t \<Rightarrow> reaches ip (b + w) (k - w) t)
      else False)"

lemma sub_remove:
  assumes "rt_known ip"
  shows "sub_wf ds b t \<Longrightarrow> dims_ok ds b \<Longrightarrow> 0 < k \<Longrightarrow> k < n \<Longrightarrow> len = b + k \<Longrightarrow>
    \<exists>v al' t'. dir_sub_remove n ip b len k beh al t = Some (v, al', t')
      \<and> (if beh = RT_FAVOR_SPECIFIC \<or> reaches ip b k t then rem_ok beh ip len ds b al t v al' t' else v = 0 \<and> al' = al \<and> t' = t)"
proof (induction ds arbitrary: b t k n al)
  case (Cons w ds)
  obtain f es where t: "t = SubTable w f es" using Cons.prems(1) by (cases t) simp
  obtain m where n: "n = Suc m" using Cons.prems(4) by (cases n) auto
  note wf = Cons.prems(1) [unfolded t] and dims = Cons.prems(2)
  have es: "length es = 2 ^ w" and w: "0 < w" "w \<le> 32" using wf dims by auto
  have i: "ix ip b w < length es" using ix_less [OF assms w(2)] es by simp
  note ind = dir_index_known [OF assms, of b w]
  show ?case
  proof (cases "k \<le> w")
    case True
    note leaf = remove_leaf [OF assms wf dims True Cons.prems(3) refl refl Cons.prems(5), of al]
    show ?thesis
    proof (cases beh)
      case RT_FAVOR_TIME
      then show ?thesis using leaf(1) True by (auto simp: n t ind Let_def split: prod.splits)
    next
      case RT_FAVOR_SPECIFIC
      then show ?thesis using leaf(2) True by (auto simp: n t ind Let_def split: prod.splits)
    qed
  next
    case False
    then have kw: "0 < k - w" "k - w < m" "len = (b + w) + (k - w)" "b + w \<le> len"
      using Cons.prems(3-5) w by (auto simp: n)
    have d': "dims_ok ds (b + w)" using dims by simp
    show ?thesis
    proof (cases "es ! ix ip b w")
      case (Val j l)
      then have l: "l \<le> b + w" using wf i by (auto dest!: bspec [OF _ nth_mem [OF i]])
      have "rem_ok RT_FAVOR_SPECIFIC ip len (w # ds) b al t 0 al t"
      proof (rule rem_ok_none [OF Cons.prems(1)])
        fix q assume q: "rt_known q" and "same_bits ip q b len"
        then have "same_bits ip q b (b + w)" using same_bits_split [of b "b + w" len ip q] kw(4) by simp
        then have "ix q b w = ix ip b w" using ix_eq_iff [OF assms q, of b w] dims by simp
        then show "rem_spec RT_FAVOR_SPECIFIC len True (dir_sub_lookup q b t) = dir_sub_lookup q b t"
          using l kw(1,3) by (simp add: t lookup_node [OF q es w(2)] Val rem_spec_def del: dir_sub_lookup.simps)
      qed
      then show ?thesis using False Val by (cases beh) (simp_all add: n t ind)
    next
      case (Ptr u)
      then have m: "Ptr u \<in> set es" using i by (metis nth_mem)
      then have "sub_wf ds (b + w) u" using wf by auto
      from Cons.IH [OF this d' kw(1-3), of al] obtain v al' u' where r:
        "dir_sub_remove m ip (b + w) len (k - w) beh al u = Some (v, al', u')"
        "if beh = RT_FAVOR_SPECIFIC \<or> reaches ip (b + w) (k - w) u then rem_ok beh ip len ds (b + w) al u v al' u' else v = 0 \<and> al' = al \<and> u' = u" by blast
      have "es[ix ip b w := Ptr u] = es" by (simp flip: Ptr)
      moreover have "st_filled u \<noteq> 0" using wf m by auto
      ultimately show ?thesis
        using False r Ptr i remove_step [OF assms wf dims kw(4) Ptr, of beh al v al' u']
        by (cases beh) (auto simp: n t ind split: if_splits simp del: sub_wf.simps)
    qed
  qed
qed simp

end
