(* ===== verification/SfRtTable.thy ===== *)
theory SfRtTable
  imports SfRtProofs
begin

text \<open>
  The routing tables against what they are for: any insertions into a trie leave the longest prefix
  match (through the locale \<open>prefix_table\<close>, interpreted on the tries), and the operations of
  \<open>sfrt.c\<close> on the table of data, with the invariant that relates its indices to the two tries. Only the
  IPv4 addresses are inserted and removed here, since \<open>sfrt_insert\<close> looks an IPv6 address up in the wrong trie.
\<close>

section \<open>Tries\<close>

definition dir_ok :: "dir_table \<Rightarrow> bool" where
  "dir_ok t \<longleftrightarrow> dims_ok (dimensions t) 0 \<and> sub_wf (dimensions t) 0 (sub_table t)
     \<and> allocated t = sub_table_mem (sub_table t) + 24 + 4 * of_nat (length (dimensions t))"

lemma dir_new_ok:
  assumes "sfrt_dir_new cap dims = Some t" and "dims_ok dims 0"
  shows "dir_ok t" and "dimensions t = dims" and "sub_leaves (sub_table t) = {(0, 0)}"
    and "rt_known q \<Longrightarrow> sfrt_dir_lookup q t = (0, 0)"
proof -
  obtain w ds where d: "dims = w # ds" using assms(1) by (cases dims) (auto simp: sfrt_dir_new_def sub_table_new_def)
  have t: "t = \<lparr>dimensions = dims, mem_cap = cap, allocated = sub_table_size w + 24 + 4 * of_nat (length dims),
      sub_table = SubTable w 0 (replicate (2 ^ w) (Val 0 0))\<rparr>"
    using assms(1) by (auto simp: sfrt_dir_new_def sub_table_new_def d Let_def split: if_splits)
  note n = new_node [of 0 0 0 w ds, OF _ _ assms(2) [unfolded d]]
  show "dir_ok t" using n(1,2) assms(2) by (simp add: dir_ok_def t d del: dims_ok.simps sub_wf.simps sub_table_mem.simps)
  show "dimensions t = dims" by (simp add: t)
  show "sub_leaves (sub_table t) = {(0, 0)}" by (simp add: t)
  show "rt_known q \<Longrightarrow> sfrt_dir_lookup q t = (0, 0)" using n(3) by (simp add: t sfrt_dir_lookup_def del: dir_sub_lookup.simps)
qed

lemma dir_insert_ok:
  assumes "dir_ok t" and "rt_known ip" and "0 < len" and "len \<le> sum_list (dimensions t)" and "val \<noteq> 0"
  shows "\<exists>rc t'. sfrt_dir_insert ip len val beh t = Some (rc, t') \<and> (rc = MEM_ALLOC_FAILURE \<or> rc = RT_SUCCESS \<and> dir_ok t'
    \<and> dimensions t' = dimensions t \<and> sub_leaves (sub_table t') \<subseteq> insert (val, len) (sub_leaves (sub_table t))
    \<and> (\<forall>q. rt_known q \<longrightarrow> sfrt_dir_lookup q t' = ins_spec beh len val (same_bits ip q 0 len) (sfrt_dir_lookup q t)))"
proof -
  obtain rc al' t' where r:
    "dir_sub_insert (Suc len) (dimensions t) (mem_cap t) ip 0 len len val 0 beh (allocated t) (sub_table t) = Some (rc, al', t')"
    "rc = RT_SUCCESS \<and> ins_ok beh ip len val (dimensions t) 0 (allocated t) (sub_table t) al' t' \<or> rc = MEM_ALLOC_FAILURE"
    using sub_insert [OF assms(2,5), of "dimensions t" 0 "sub_table t" 0 "dimensions t" len "Suc len" len "mem_cap t" beh "allocated t"] assms
    by (auto simp: dir_ok_def)
  have "rc = RT_SUCCESS \<Longrightarrow> al' = sub_table_mem t' + 24 + 4 * of_nat (length (dimensions t))"
    using r(2) assms(1) by (auto simp: ins_ok_def dir_ok_def algebra_simps)
  then show ?thesis using r assms(1) by (auto simp: sfrt_dir_insert_def dir_ok_def ins_ok_def sfrt_dir_lookup_def)
qed

lemma dir_remove_ok:
  assumes "dir_ok t" and "rt_known ip" and "0 < len"
  shows "\<exists>v t'. sfrt_dir_remove ip len beh t = Some (v, t')
    \<and> (if beh = RT_FAVOR_SPECIFIC \<or> reaches ip 0 len (sub_table t)
       then dir_ok t' \<and> dimensions t' = dimensions t \<and> sub_leaves (sub_table t') \<subseteq> insert (0, 0) (sub_leaves (sub_table t))
         \<and> (v \<noteq> 0 \<longrightarrow> (v, len) \<in> sub_leaves (sub_table t))
         \<and> (\<forall>q. rt_known q \<longrightarrow> sfrt_dir_lookup q t' = rem_spec beh len (same_bits ip q 0 len) (sfrt_dir_lookup q t))
       else v = 0 \<and> t' = t)"
proof -
  obtain v al' t' where r:
    "dir_sub_remove (Suc len) ip 0 len len beh (allocated t) (sub_table t) = Some (v, al', t')"
    "if beh = RT_FAVOR_SPECIFIC \<or> reaches ip 0 len (sub_table t) then rem_ok beh ip len (dimensions t) 0 (allocated t) (sub_table t) v al' t'
      else v = 0 \<and> al' = allocated t \<and> t' = sub_table t"
    using sub_remove [OF assms(2), of "dimensions t" 0 "sub_table t" len "Suc len" len beh "allocated t"] assms
    by (auto simp: dir_ok_def)
  have "beh = RT_FAVOR_SPECIFIC \<or> reaches ip 0 len (sub_table t) \<Longrightarrow> al' = sub_table_mem t' + 24 + 4 * of_nat (length (dimensions t))"
    using r(2) assms(1) by (auto simp: rem_ok_def dir_ok_def algebra_simps)
  then show ?thesis using r assms(1) by (auto simp: sfrt_dir_remove_def dir_ok_def rem_ok_def sfrt_dir_lookup_def)
qed

section \<open>Longest prefix match\<close>

fun inserts :: "('k \<Rightarrow> nat \<Rightarrow> nat \<Rightarrow> 't \<Rightarrow> 't option) \<Rightarrow> ('k \<times> nat \<times> nat) list \<Rightarrow> 't \<Rightarrow> 't option" where
  "inserts ins [] t = Some t"
| "inserts ins ((p, len, val) # ps) t = (case ins p len val t of None \<Rightarrow> None | Some t' \<Rightarrow> inserts ins ps t')"

definition beats :: "nat \<times> nat \<Rightarrow> nat \<times> nat \<Rightarrow> nat \<times> nat" where
  "beats old new = (if snd old \<le> snd new then new else old)"

text \<open>The prefix that wins: of those that match the longest, of equally long ones the last.\<close>

definition longest_prefix :: "('k \<Rightarrow> 'k \<Rightarrow> nat \<Rightarrow> bool) \<Rightarrow> 'k \<Rightarrow> ('k \<times> nat \<times> nat) list \<Rightarrow> nat \<times> nat" where
  "longest_prefix agree q ps =
     (let ms = (0, 0) # map (\<lambda>(p, len, val). (val, len)) (filter (\<lambda>(p, len, val). agree p q len) ps)
      in last (filter (\<lambda>m. snd m = Max (set (map snd ms))) ms))"

lemma foldl_beats:
  "foldl beats x ms = (let L = Max (set (map snd (x # ms))) in last (filter (\<lambda>m. snd m = L) (x # ms)))"
proof (induction ms rule: rev_induct)
  case (snoc m ms)
  let ?L = "Max (insert (snd x) (snd ` set ms))"
  have "?L \<in> snd ` set (x # ms)" using Max_in [of "insert (snd x) (snd ` set ms)"] by simp
  then obtain y where "y \<in> set (x # ms)" "snd y = ?L" by (metis imageE)
  then have ne: "filter (\<lambda>m. snd m = ?L) (x # ms) \<noteq> []" unfolding filter_empty_conv by blast
  have fl: "foldl beats x ms = last (filter (\<lambda>m. snd m = ?L) (x # ms))"
    using snoc by (simp add: Let_def del: filter.simps)
  have L: "snd (foldl beats x ms) = ?L"
    using last_in_set [OF ne] unfolding fl set_filter by blast
  have mx: "Max (set (map snd (x # ms @ [m]))) = max ?L (snd m)"
    by (simp add: Max_insert2 [symmetric] max.commute insert_commute)
  have fm: "filter (\<lambda>y. snd y = K) (x # ms @ [m]) = filter (\<lambda>y. snd y = K) (x # ms) @ (if snd m = K then [m] else [])" for K
    by simp
  have "foldl beats x (ms @ [m]) = (if ?L \<le> snd m then m else foldl beats x ms)" by (simp add: beats_def [of _ m] L)
  also have "\<dots> = last (filter (\<lambda>y. snd y = max ?L (snd m)) (x # ms @ [m]))"
    unfolding fm using ne fl by (simp add: max_def del: filter.simps)
  finally show ?case unfolding mx Let_def .
qed (simp add: Let_def)

text \<open>
  The interface a table of prefixes offers: after an insertion that succeeds, the addresses the prefix
  matches are looked up to it unless a longer one holds them.
\<close>

locale prefix_table =
  fixes lookup :: "'k \<Rightarrow> 't \<Rightarrow> nat \<times> nat"
    and ins :: "'k \<Rightarrow> nat \<Rightarrow> nat \<Rightarrow> 't \<Rightarrow> 't option"
    and agree :: "'k \<Rightarrow> 'k \<Rightarrow> nat \<Rightarrow> bool"
    and key :: "'k \<Rightarrow> bool"
    and max_len :: "'t \<Rightarrow> nat"
    and inv :: "'t \<Rightarrow> bool"
  assumes ins_inv: "inv t \<Longrightarrow> key p \<Longrightarrow> 0 < len \<Longrightarrow> len \<le> max_len t \<Longrightarrow> val \<noteq> 0 \<Longrightarrow> ins p len val t = Some t' \<Longrightarrow>
      inv t' \<and> max_len t' = max_len t"
    and ins_lookup: "inv t \<Longrightarrow> key p \<Longrightarrow> 0 < len \<Longrightarrow> len \<le> max_len t \<Longrightarrow> val \<noteq> 0 \<Longrightarrow> ins p len val t = Some t' \<Longrightarrow> key q \<Longrightarrow>
      lookup q t' = (if agree p q len \<and> snd (lookup q t) \<le> len then (val, len) else lookup q t)"
begin

lemma inserts_lookup:
  assumes "inserts ins ps t = Some t'" and "inv t" and "key q"
    and "\<And>p len val. (p, len, val) \<in> set ps \<Longrightarrow> key p \<and> 0 < len \<and> len \<le> max_len t \<and> val \<noteq> 0"
  shows "inv t' \<and> lookup q t' = foldl beats (lookup q t) (map (\<lambda>(p, len, val). (val, len)) (filter (\<lambda>(p, len, val). agree p q len) ps))"
  using assms
proof (induction ps arbitrary: t)
  case (Cons x ps)
  obtain p len val where x: "x = (p, len, val)" by (cases x)
  obtain t1 where t1: "ins p len val t = Some t1" using Cons.prems(1) by (auto simp: x split: option.splits)
  have c: "key p" "0 < len" "len \<le> max_len t" "val \<noteq> 0" using Cons.prems(4) [of p len val] by (simp_all add: x)
  from ins_inv [OF Cons.prems(2) c t1] have i: "inv t1" "max_len t1 = max_len t" by simp_all
  have "inv t' \<and> lookup q t' = foldl beats (lookup q t1) (map (\<lambda>(p, len, val). (val, len)) (filter (\<lambda>(p, len, val). agree p q len) ps))"
    by (rule Cons.IH) (use Cons.prems i t1 in \<open>auto simp: x\<close>)
  then show ?case using ins_lookup [OF Cons.prems(2) c t1 Cons.prems(3)] beats_def [of "lookup q t" "(val, len)"] by (simp add: x)
qed simp

end

definition dir_ins :: "rt_ip \<Rightarrow> nat \<Rightarrow> nat \<Rightarrow> dir_table \<Rightarrow> dir_table option" where
  "dir_ins ip len val t =
     (case sfrt_dir_insert ip len val RT_FAVOR_SPECIFIC t of
        None \<Rightarrow> None
      | Some (rc, t') \<Rightarrow> if rc = RT_SUCCESS then Some t' else None)"

lemma dir_ins_ok:
  assumes "dir_ok t" and "rt_known p" and "0 < len" and "len \<le> sum_list (dimensions t)" and "val \<noteq> 0" and "dir_ins p len val t = Some t'"
  shows "dir_ok t' \<and> dimensions t' = dimensions t"
    and "rt_known q \<Longrightarrow> sfrt_dir_lookup q t' = (if same_bits p q 0 len \<and> snd (sfrt_dir_lookup q t) \<le> len then (val, len) else sfrt_dir_lookup q t)"
proof -
  obtain rc t1 where r: "sfrt_dir_insert p len val RT_FAVOR_SPECIFIC t = Some (rc, t1)" "rc = MEM_ALLOC_FAILURE \<or> dir_ok t1 \<and> dimensions t1 = dimensions t
    \<and> (\<forall>q. rt_known q \<longrightarrow> sfrt_dir_lookup q t1 = ins_spec RT_FAVOR_SPECIFIC len val (same_bits p q 0 len) (sfrt_dir_lookup q t))"
    using dir_insert_ok [OF assms(1-5), of RT_FAVOR_SPECIFIC] by blast
  moreover have "rc = RT_SUCCESS" "t1 = t'" using assms(6) r(1) by (auto simp: dir_ins_def split: if_splits)
  ultimately show "dir_ok t' \<and> dimensions t' = dimensions t"
    and "rt_known q \<Longrightarrow> sfrt_dir_lookup q t' = (if same_bits p q 0 len \<and> snd (sfrt_dir_lookup q t) \<le> len then (val, len) else sfrt_dir_lookup q t)"
    by (auto simp: ins_spec_def)
qed

interpretation rtp: prefix_table sfrt_dir_lookup dir_ins "\<lambda>p q. same_bits p q 0" rt_known "\<lambda>t. sum_list (dimensions t)" dir_ok
proof
  fix t p len val t'
  assume a: "dir_ok t" "rt_known p" "0 < len" "len \<le> sum_list (dimensions t)" "val \<noteq> 0" "dir_ins p len val t = Some t'"
  show "dir_ok t' \<and> sum_list (dimensions t') = sum_list (dimensions t)" using dir_ins_ok(1) [OF a] by simp
  show "sfrt_dir_lookup q t' = (if same_bits p q 0 len \<and> snd (sfrt_dir_lookup q t) \<le> len then (val, len) else sfrt_dir_lookup q t)"
    if "rt_known q" for q by (rule dir_ins_ok(2) [OF a that])
qed

section \<open>The table of data\<close>

definition tb_leaves :: "'p table_t \<Rightarrow> (nat \<times> nat) set" where
  "tb_leaves tb = (case rt tb of None \<Rightarrow> {} | Some t \<Rightarrow> sub_leaves (sub_table t)) \<union> (case rt6 tb of None \<Rightarrow> {} | Some t \<Rightarrow> sub_leaves (sub_table t))"

text \<open>
  Both tries are well formed and as deep as the addresses are long, every index in them has data, and
  index 0, which stands for no entry, has none.
\<close>

definition trie_ok :: "nat \<Rightarrow> dir_table option \<Rightarrow> bool" where
  "trie_ok n r \<longleftrightarrow> (case r of None \<Rightarrow> False | Some t \<Rightarrow> dir_ok t \<and> sum_list (dimensions t) = n)"

definition tb_ok :: "'p table_t \<Rightarrow> bool" where
  "tb_ok tb \<longleftrightarrow> trie_ok 32 (rt tb) \<and> trie_ok 128 (rt6 tb)
     \<and> length (rt_data tb) = unat (max_size tb) \<and> lastAllocatedIndex tb < max_size tb \<and> max_size tb < 0x8000000
     \<and> rt_data tb ! 0 = None
     \<and> (\<forall>x\<in>tb_leaves tb. fst x \<noteq> 0 \<longrightarrow> fst x < length (rt_data tb) \<and> rt_data tb ! fst x \<noteq> None)"

lemma alloc_loop_some:
  "alloc_loop n i tb = Some (k, tb') \<Longrightarrow> tb' = (if k = 0 then tb else tb\<lparr>lastAllocatedIndex := k\<rparr>)
   \<and> (k \<noteq> 0 \<longrightarrow> unat k < length (rt_data tb) \<and> rt_data tb ! unat k = None)"
proof (induction n i tb rule: alloc_loop.induct)
  case (2 n index table)
  then show ?case by (auto simp: data_at_def split: if_splits option.splits)
qed simp

lemma alloc_loop_none:
  assumes "length (rt_data tb) = unat (max_size tb)" and "lastAllocatedIndex tb < max_size tb"
  shows "i < max_size tb \<Longrightarrow> (if unat i \<le> unat (lastAllocatedIndex tb) then unat (lastAllocatedIndex tb) - unat i
      else unat (max_size tb) - unat i + unat (lastAllocatedIndex tb)) < n \<Longrightarrow> alloc_loop n i tb \<noteq> None"
proof (induction n arbitrary: i)
  case 0
  then show ?case by force
next
  case (Suc n)
  let ?j = "(i + 1) mod max_size tb"
  have "unat i < unat (max_size tb)" using Suc.prems(1) by (simp add: word_less_nat_alt)
  then have "unat i + unat (1 :: u32) < 2 ^ LENGTH(32)"
    using unsigned_less [of "max_size tb", where 'a = nat] by simp
  then have i1: "unat (i + 1) = unat i + 1" by (subst unat_plus_no_wrap) simp_all
  have j: "?j = (if i + 1 = max_size tb then 0 else i + 1)"
  proof (cases "i + 1 = max_size tb")
    case False
    then have "unat (i + 1) \<noteq> unat (max_size tb)" by (simp add: word_unat_eq_iff)
    then have "i + 1 < max_size tb" using \<open>unat i < unat (max_size tb)\<close> i1 by (simp add: word_less_nat_alt)
    then show ?thesis using False by (simp add: mod_word_less)
  qed simp
  have jl: "?j < max_size tb"
    using \<open>unat i < unat (max_size tb)\<close> by (simp add: word_less_nat_alt unat_mod_distrib)
  have dat: "data_at tb (unat i) \<noteq> None" using Suc.prems(1) assms(1) by (simp add: data_at_def word_less_nat_alt)
  show ?case
  proof (cases "i = lastAllocatedIndex tb")
    case False
    have "alloc_loop n ?j tb \<noteq> None"
    proof (rule Suc.IH)
      show "?j < max_size tb" by (rule jl)
      have "unat i \<noteq> unat (lastAllocatedIndex tb)" using False by (simp add: word_unat_eq_iff)
      moreover have "unat ?j = (if unat i + 1 = unat (max_size tb) then 0 else unat i + 1)"
        using i1 by (auto simp: j word_unat_eq_iff)
      moreover have "unat (lastAllocatedIndex tb) < unat (max_size tb)" using assms(2) by (simp add: word_less_nat_alt)
      ultimately show "(if unat ?j \<le> unat (lastAllocatedIndex tb) then unat (lastAllocatedIndex tb) - unat ?j
        else unat (max_size tb) - unat ?j + unat (lastAllocatedIndex tb)) < n"
        using Suc.prems(2) \<open>unat i < unat (max_size tb)\<close> by (auto split: if_splits)
    qed
    then show ?thesis using False dat by (auto split: option.splits)
  qed simp
qed

lemma allocate:
  assumes "tb_ok tb"
  shows "allocateTableIndex tb = None \<longleftrightarrow> lastAllocatedIndex tb + 1 = max_size tb"
    and "allocateTableIndex tb = Some (k, tb') \<Longrightarrow> tb' = (if k = 0 then tb else tb\<lparr>lastAllocatedIndex := k\<rparr>)
      \<and> (k \<noteq> 0 \<longrightarrow> unat k < length (rt_data tb) \<and> rt_data tb ! unat k = None)"
proof -
  note ok = assms [unfolded tb_ok_def]
  show "allocateTableIndex tb = Some (k, tb') \<Longrightarrow> tb' = (if k = 0 then tb else tb\<lparr>lastAllocatedIndex := k\<rparr>)
      \<and> (k \<noteq> 0 \<longrightarrow> unat k < length (rt_data tb) \<and> rt_data tb ! unat k = None)"
    unfolding allocateTableIndex_def by (rule alloc_loop_some)
  let ?l = "lastAllocatedIndex tb" and ?m = "max_size tb"
  have lm: "unat ?l < unat ?m" and m: "unat ?m < 0x8000000" using ok by (auto simp: word_less_nat_alt)
  have l1: "unat (?l + 1) = unat ?l + 1" using lm m by (subst unat_plus_no_wrap) simp_all
  then have nz: "?l + 1 \<noteq> 0" "?l + 1 \<noteq> ?l" by auto
  show "allocateTableIndex tb = None \<longleftrightarrow> ?l + 1 = ?m"
  proof (cases "?l + 1 = ?m")
    case True
    then show ?thesis using ok nz by (simp add: allocateTableIndex_def data_at_def)
  next
    case False
    then have "?l + 1 < ?m" using lm l1 by (simp add: word_less_nat_alt word_unat_eq_iff)
    then have "alloc_loop (unat ?m + 2) (?l + 1) tb \<noteq> None"
      using ok lm l1 by (intro alloc_loop_none) (auto simp: word_le_nat_alt word_less_nat_alt)
    then show ?thesis using False by (simp add: allocateTableIndex_def)
  qed
qed

lemma lookup_data:
  assumes "tb_ok tb" and "rt_known q"
  shows "sfrt_lookup (Some q) (Some tb) = Some (rt_data tb ! fst (rt_lookup q (rt_for q tb)))"
    and "fst (rt_lookup q (rt_for q tb)) < length (rt_data tb)"
proof -
  note ok = assms(1) [unfolded tb_ok_def]
  obtain t where t: "rt_for q tb = Some t" using ok assms(2) by (auto simp: rt_for_def rt_known_def trie_ok_def split: option.splits)
  let ?i = "fst (sfrt_dir_lookup q t)"
  have "sub_leaves (sub_table t) \<subseteq> tb_leaves tb" using t by (auto simp: rt_for_def tb_leaves_def split: if_splits)
  then have "sfrt_dir_lookup q t \<in> insert (0, 0) (tb_leaves tb)"
    using lookup_leaf [of q 0 "sub_table t"] by (auto simp: sfrt_dir_lookup_def)
  then have "?i = 0 \<or> ?i < length (rt_data tb)" using ok by auto
  moreover have "0 < length (rt_data tb)" using ok by (auto simp: word_less_nat_alt)
  ultimately have i: "?i < length (rt_data tb)" by auto
  then show "fst (rt_lookup q (rt_for q tb)) < length (rt_data tb)" by (simp add: t rt_lookup_def)
  show "sfrt_lookup (Some q) (Some tb) = Some (rt_data tb ! fst (rt_lookup q (rt_for q tb)))"
    using i ok by (simp add: sfrt_lookup_def t rt_lookup_def data_at_def Let_def)
qed

text \<open>The trie of the IPv4 addresses after an insertion, and the table around it.\<close>

lemma insert_trie:
  assumes "tb_ok tb" and "rt_family ip = AF_INET" and "0 < len" and "len \<le> 32" and "rt tb = Some t" and "val \<noteq> 0"
  obtains rc t' where "sfrt_dir_insert ip len val beh t = Some (rc, t')" "rc = RT_SUCCESS \<or> rc = MEM_ALLOC_FAILURE"
    and "rc = RT_SUCCESS \<Longrightarrow> trie_ok 32 (Some t') \<and> sub_leaves (sub_table t') \<subseteq> insert (val, len) (sub_leaves (sub_table t))
      \<and> (\<forall>q. rt_known q \<longrightarrow> sfrt_dir_lookup q t' = ins_spec beh len val (same_bits ip q 0 len) (sfrt_dir_lookup q t))"
proof -
  have "dir_ok t" "sum_list (dimensions t) = 32" using assms(1,5) by (simp_all add: tb_ok_def trie_ok_def)
  then show ?thesis using dir_insert_ok [of t ip len val beh] assms that by (auto simp: rt_known_def trie_ok_def)
qed

text \<open>Storing the pointer at the new index, with a trie that has no other new index.\<close>

lemma tb_ok_store:
  assumes "tb_ok tb" and "rt tb = Some t" and "trie_ok 32 (Some t')" and "sub_leaves (sub_table t') \<subseteq> insert (i, l) (sub_leaves (sub_table t))"
    and "i \<noteq> 0" and "i < length (rt_data tb)" and "ptr \<noteq> None"
    and "tb' = tb\<lparr>rt := Some t', num_ent := n, lastAllocatedIndex := k, rt_data := (rt_data tb)[i := ptr]\<rparr>" and "k < max_size tb"
  shows "tb_ok tb'"
proof -
  have "tb_leaves tb' \<subseteq> insert (i, l) (tb_leaves tb)" using assms(2,4,8) by (auto simp: tb_leaves_def)
  then have leaf: "x \<in> tb_leaves tb' \<Longrightarrow> fst x = i \<or> x \<in> tb_leaves tb" for x by auto
  have old: "x \<in> tb_leaves tb \<Longrightarrow> fst x \<noteq> 0 \<Longrightarrow> fst x < length (rt_data tb) \<and> rt_data tb ! fst x \<noteq> None" for x
    using assms(1) by (auto simp: tb_ok_def)
  have d: "rt_data tb' = (rt_data tb)[i := ptr]" using assms(8) by simp
  have "x \<in> tb_leaves tb' \<Longrightarrow> fst x \<noteq> 0 \<Longrightarrow> fst x < length (rt_data tb') \<and> rt_data tb' ! fst x \<noteq> None" for x
    using leaf [of x] old [of x] assms(6,7) by (auto simp: d nth_list_update)
  then show ?thesis using assms by (simp add: tb_ok_def)
qed

lemma insert_lookup_tb:
  assumes "tb_ok tb" and "rt tb = Some t" and "rt_family ip = AF_INET" and "rt_known q" and "i < length (rt_data tb)"
    and lk: "\<And>q. rt_known q \<Longrightarrow> sfrt_dir_lookup q t' = ins_spec beh len i (same_bits ip q 0 len) (sfrt_dir_lookup q t)"
    and "tb' = tb\<lparr>rt := Some t', num_ent := n, lastAllocatedIndex := k, rt_data := (rt_data tb)[i := ptr]\<rparr>" and "tb_ok tb'"
    and "i \<noteq> 0" and "rt_data tb ! i = None \<or> rt_data tb ! i = ptr"
  shows "sfrt_lookup (Some q) (Some tb') =
    (if rt_family q = AF_INET \<and> same_bits ip q 0 len \<and> (beh = RT_FAVOR_TIME \<or> snd (sfrt_dir_lookup q t) \<le> len) then Some ptr
     else sfrt_lookup (Some q) (Some tb))"
proof -
  let ?j = "fst (rt_lookup q (rt_for q tb))"
  have old: "sfrt_lookup (Some q) (Some tb) = Some (rt_data tb ! ?j)" and jl: "?j < length (rt_data tb)"
    using lookup_data [OF assms(1,4)] by simp_all
  have "?j \<noteq> i \<or> rt_data tb ! i = ptr"
  proof (rule ccontr)
    assume c: "\<not> ?thesis"
    then have "rt_data tb ! i = None" using assms(10) by simp
    moreover have "rt_lookup q (rt_for q tb) \<in> insert (0, 0) (tb_leaves tb)"
      using lookup_leaf [of q 0] by (fastforce simp: rt_lookup_def rt_for_def tb_leaves_def sfrt_dir_lookup_def split: option.splits)
    ultimately show False using c assms(1,9) by (auto simp: tb_ok_def)
  qed
  then have upd: "rt_data tb' ! ?j = rt_data tb ! ?j" using assms(5,7) by (cases "?j = i") auto
  have new: "sfrt_lookup (Some q) (Some tb') = Some (rt_data tb' ! fst (rt_lookup q (rt_for q tb')))"
    by (rule lookup_data [OF assms(8,4)])
  show ?thesis
  proof (cases "rt_family q = AF_INET")
    case True
    then have r: "rt_for q tb' = Some t'" "rt_for q tb = Some t" using assms(2,7) by (simp_all add: rt_for_def)
    show ?thesis using new old upd lk [OF assms(4)] True r assms(5,7) by (auto simp: rt_lookup_def ins_spec_def)
  next
    case False
    then have "rt_for q tb' = rt_for q tb" using assms(7) by (simp add: rt_for_def)
    then show ?thesis using new old upd False by simp
  qed
qed

lemma lookup_zero:
  assumes "rt_known q"
  shows "sub_wf ds b t \<Longrightarrow> dims_ok ds b \<Longrightarrow> fst (dir_sub_lookup q b t) = 0 \<longleftrightarrow> snd (dir_sub_lookup q b t) = 0"
proof (induction ds arbitrary: b t)
  case (Cons w ds)
  obtain f es where t: "t = SubTable w f es" using Cons.prems(1) by (cases t) simp
  have w: "w \<le> 32" and es: "length es = 2 ^ w" using Cons.prems by (auto simp: t)
  have m: "es ! ix q b w \<in> set es" using ix_less [OF assms w, of b] es by simp
  have "entry_wf ds (b + w) (es ! ix q b w)" using m Cons.prems(1) by (auto simp: t)
  then show ?case using Cons.IH [of "b + w"] Cons.prems(2)
    by (cases "es ! ix q b w") (simp_all add: t lookup_node [OF assms es w] del: dir_sub_lookup.simps)
qed simp

lemma dims_all:
  "rt_dimensions ty = Some (d4, Some d6) \<Longrightarrow> dims_ok d4 0 \<and> sum_list d4 = 32 \<and> dims_ok d6 0 \<and> sum_list d6 = 128"
  by (cases ty; clarsimp; code_simp)

section \<open>Properties\<close>

text \<open>A small trie, and a table of four data over two tries of width four.\<close>

definition small_trie :: dir_table where
  "small_trie = \<lparr>dimensions = [2, 2], mem_cap = 1000, allocated = 76, sub_table = SubTable 2 0 (replicate 4 (Val 0 0))\<rparr>"

definition small_table :: "nat table_t" where
  "small_table = \<lparr>rt_data = [None, None, None, None], num_ent = 1, max_size = 4, lastAllocatedIndex = 0,
     ip_type = IPv6, table_type = DIR_4x8, t_allocated = 72, rt = sfrt_dir_new 10000 (replicate 8 4), rt6 = sfrt_dir_new 10000 (replicate 32 4)\<rparr>"

definition v4 :: "u32 \<Rightarrow> rt_ip" where
  "v4 a = \<lparr>rt_family = AF_INET, ip32 = [a]\<rparr>"

lemma small_trie_ok: "dir_ok small_trie" by code_simp

lemma small_table_ok: "tb_ok small_table" by code_simp

text \<open>
  C30: every insertion into a well formed trie of a prefix its widths can hold ends, with success and a
  well formed trie or for lack of memory; every removal ends and leaves a well formed trie. Well formed
  means: nodes of the widths of their level, exact counts of the entries set, no prefix longer than the
  bits above it, and the memory counter equal to the memory in use.
\<close>

theorem dir_wf_kept:
  assumes "dir_ok t" and "rt_known ip" and "0 < len" and "len \<le> sum_list (dimensions t)" and "val \<noteq> 0"
  shows "(\<exists>rc t'. sfrt_dir_insert ip len val beh t = Some (rc, t') \<and> (rc = RT_SUCCESS \<and> dir_ok t' \<or> rc = MEM_ALLOC_FAILURE))
    \<and> (\<exists>v t'. sfrt_dir_remove ip len beh t = Some (v, t') \<and> dir_ok t')"
proof -
  have "\<exists>rc t'. sfrt_dir_insert ip len val beh t = Some (rc, t') \<and> (rc = RT_SUCCESS \<and> dir_ok t' \<or> rc = MEM_ALLOC_FAILURE)"
    using dir_insert_ok [OF assms, of beh] by auto
  moreover have "\<exists>v t'. sfrt_dir_remove ip len beh t = Some (v, t') \<and> dir_ok t'"
    using dir_remove_ok [OF assms(1-3), of beh] assms(1) by (auto split: if_splits)
  ultimately show ?thesis by blast
qed

lemma dir_wf_kept_witness:
  "(\<exists>rc t'. sfrt_dir_insert (v4 0xD0000000) 3 7 RT_FAVOR_SPECIFIC small_trie = Some (rc, t') \<and> (rc = RT_SUCCESS \<and> dir_ok t' \<or> rc = MEM_ALLOC_FAILURE))
    \<and> (\<exists>v t'. sfrt_dir_remove (v4 0xD0000000) 3 RT_FAVOR_SPECIFIC small_trie = Some (v, t') \<and> dir_ok t')"
  by (rule dir_wf_kept) (simp add: small_trie_ok, (simp_all add: v4_def rt_known_def small_trie_def))

text \<open>
  C31: after any insertions, in any order, that favour specific prefixes and all succeed, an address is
  looked up to the longest of the prefixes that match it, the last inserted if equally long ones match,
  and to nothing if none does. (The comment in \<open>sfrt.h\<close> asks for the less specific ones to be inserted first.)
\<close>

theorem dir_longest_prefix:
  assumes "sfrt_dir_new cap dims = Some t0" and "dims_ok dims 0" and "inserts dir_ins ps t0 = Some t"
    and "\<And>p len val. (p, len, val) \<in> set ps \<Longrightarrow> rt_known p \<and> 0 < len \<and> len \<le> sum_list dims \<and> val \<noteq> 0"
    and "rt_known q"
  shows "sfrt_dir_lookup q t = longest_prefix (\<lambda>p q. same_bits p q 0) q ps"
proof -
  note new = dir_new_ok [OF assms(1,2)]
  have "sfrt_dir_lookup q t = foldl beats (sfrt_dir_lookup q t0)
      (map (\<lambda>(p, len, val). (val, len)) (filter (\<lambda>(p, len, val). same_bits p q 0 len) ps))"
    using rtp.inserts_lookup [OF assms(3) new(1) assms(5)] assms(4) new(2) by auto
  also have "\<dots> = longest_prefix (\<lambda>p q. same_bits p q 0) q ps"
    by (simp only: new(4) [OF assms(5)] foldl_beats longest_prefix_def Let_def)
  finally show ?thesis .
qed

lemma dir_longest_prefix_witness:
  "\<exists>t. inserts dir_ins [(v4 0xD0000000, 3, 7), (v4 0xC0000000, 1, 8), (v4 0xC0000000, 3, 9)] small_trie = Some t
     \<and> sfrt_dir_lookup (v4 0xD1234567) t = (9, 3)"
proof -
  let ?ps = "[(v4 0xD0000000, 3, 7), (v4 0xC0000000, 1, 8), (v4 0xC0000000, 3, 9)]"
  have "inserts dir_ins ?ps small_trie \<noteq> None" by code_simp
  then obtain t where t: "inserts dir_ins ?ps small_trie = Some t" by blast
  have new: "sfrt_dir_new 1000 [2, 2] = Some small_trie" by code_simp
  have "sfrt_dir_lookup (v4 0xD1234567) t = longest_prefix (\<lambda>p q. same_bits p q 0) (v4 0xD1234567) ?ps"
    by (rule dir_longest_prefix [OF new _ t]) (auto simp: v4_def rt_known_def)
  also have "\<dots> = (9, 3)" by code_simp
  finally show ?thesis using t by blast
qed

text \<open>
  C32: a table \<open>sfrt_new\<close> creates for both kinds of addresses is well formed, has no entry and looks every
  address up to \<open>NULL\<close>: the tries of every table type have the depth of the addresses.
\<close>

theorem sfrt_new_table:
  assumes "sfrt_new ty ipt n cap = NewTable tb" and "0 < n"
  shows "tb_ok tb \<and> (\<forall>q. rt_known q \<longrightarrow> sfrt_lookup (Some q) (Some tb) = Some None) \<and> sfrt_num_entries (Some tb) = 0"
proof -
  let ?cap = "cap * (1024 * 1024)"
  obtain d4 d6 t4 t6 where d: "rt_dimensions ty = Some (d4, Some d6)" and t4: "sfrt_dir_new ?cap d4 = Some t4"
    and t6: "sfrt_dir_new ?cap d6 = Some t6" and n: "n < 0x8000000"
    and tb: "tb = \<lparr>rt_data = replicate (unat (4 * word_of_int n :: u32) div 4) None, num_ent = 1, max_size = word_of_int n,
      lastAllocatedIndex = 0, ip_type = ipt, table_type = ty, t_allocated = 56 + 4 * word_of_int n, rt = Some t4, rt6 = Some t6\<rparr>"
    using assms(1) by (auto simp: sfrt_new_def Let_def split: if_splits option.splits)
  note dims = dims_all [OF d]
  note n4 = dir_new_ok [OF t4] and n6 = dir_new_ok [OF t6]
  have un: "unat (word_of_int n :: u32) = nat n" using assms(2) n by (simp add: unat_eq_nat_uint uint_word_of_int)
  have "unat (4 * word_of_int n :: u32) = 4 * nat n"
    using n by (simp add: unat_word_ariths(2) un)
  then have len: "length (rt_data tb) = nat n" by (simp add: tb)
  have ok: "tb_ok tb"
  proof -
    have "trie_ok 32 (rt tb)" "trie_ok 128 (rt6 tb)" using n4(1,2) n6(1,2) dims by (simp_all add: tb trie_ok_def)
    moreover have "tb_leaves tb = {(0, 0)}" using n4(3) n6(3) dims by (simp add: tb tb_leaves_def)
    moreover have "rt_data tb ! 0 = None" using len assms(2) by (simp add: tb)
    moreover have "unat (max_size tb) = nat n" "lastAllocatedIndex tb = 0" using un by (simp_all add: tb)
    ultimately show ?thesis using len assms(2) n by (simp add: tb_ok_def word_less_nat_alt)
  qed
  have lk: "sfrt_lookup (Some q) (Some tb) = Some None" if q: "rt_known q" for q
    using lookup_data [OF ok q] len by (auto simp: tb)
  have "t_allocated tb \<noteq> 0"
  proof -
    have "unat (56 + 4 * word_of_int n :: u32) = 56 + 4 * nat n" 
      using \<open>unat (4 * word_of_int n :: u32) = 4 * nat n\<close> n by (subst unat_plus_no_wrap) simp_all
    then show ?thesis by (auto simp: tb)
  qed
  then show ?thesis using ok lk by (auto simp: sfrt_num_entries_def tb)
qed

lemma sfrt_new_table_witness:
  "case sfrt_new DIR_8x16 IPv6 20 1 :: nat new_result of
     NewTable tb \<Rightarrow> tb_ok tb \<and> sfrt_num_entries (Some tb) = 0 | _ \<Rightarrow> False"
proof -
  have "\<exists>tb :: nat table_t. sfrt_new DIR_8x16 IPv6 20 1 = NewTable tb"
    by (simp add: sfrt_new_def sfrt_dir_new_def sub_table_new_def sub_table_size_def Let_def)
  then obtain tb :: "nat table_t" where tb: "sfrt_new DIR_8x16 IPv6 20 1 = NewTable tb" by blast
  show ?thesis using sfrt_new_table [OF tb] tb by simp
qed

text \<open>
  C33: after \<open>sfrt_insert\<close> of an IPv4 prefix succeeds, the addresses it matches that no longer prefix holds
  are looked up to the new pointer, all others as before, IPv6 ones included, and the table stays well
  formed. If the address of the prefix itself was held by a prefix of that length, the old pointer stays
  and the new one is dropped, although success is returned.
\<close>

theorem sfrt_insert_lookup:
  assumes "tb_ok tb" and "rt_family ip = AF_INET" and "0 < len" and "len \<le> 32"
    and "sfrt_insert (Some ip) len (Some p) beh (Some tb) = Some (RT_SUCCESS, tb')"
  shows "\<exists>tb1. tb' = Some tb1 \<and> tb_ok tb1 \<and>
    (\<forall>q. rt_known q \<longrightarrow> sfrt_lookup (Some q) tb' =
      (if rt_family q = AF_INET \<and> same_bits ip q 0 (unat len) \<and> (beh = RT_FAVOR_TIME \<or> snd (rt_lookup q (rt tb)) \<le> unat len)
       then if snd (rt_lookup ip (rt tb)) = unat len then sfrt_lookup (Some ip) (Some tb) else Some (Some p)
       else sfrt_lookup (Some q) (Some tb)))"
proof -
  obtain t where t: "rt tb = Some t" and dir: "dir_ok t" using assms(1) by (auto simp: tb_ok_def trie_ok_def split: option.splits)
  have l: "0 < unat len" "unat len \<le> 32" using assms(3,4) by (simp_all add: word_less_nat_alt word_le_nat_alt)
  have len: "len \<noteq> 0" "\<not> len_too_long len tb" using assms(3,4) by (auto simp: len_too_long_def word_less_nat_alt word_le_nat_alt)
  have ip: "rt_known ip" "rt_for ip tb = Some t" using assms(2) t by (simp_all add: rt_known_def rt_for_def)
  obtain i l0 where lk: "rt_lookup ip (rt tb) = (i, l0)" by fastforce
  show ?thesis
  proof (cases "l0 = unat len")
    case False
    obtain k tb0 where al: "allocateTableIndex tb = Some (k, tb0)" "k \<noteq> 0"
      using assms(5) False len ip lk by (auto simp: sfrt_insert_def split: if_splits option.splits)
    from allocate(2) [OF assms(1) al(1)] al(2) have tb0: "tb0 = tb\<lparr>lastAllocatedIndex := k\<rparr>" and
      k: "unat k < length (rt_data tb)" "rt_data tb ! unat k = None" by simp_all
    have uk: "unat k \<noteq> 0" using al(2) by (simp add: unat_gt_0)
    obtain rc t' where ins: "sfrt_dir_insert ip (unat len) (unat k) beh t = Some (rc, t')"
      "rc = RT_SUCCESS \<Longrightarrow> trie_ok 32 (Some t') \<and> sub_leaves (sub_table t') \<subseteq> insert (unat k, unat len) (sub_leaves (sub_table t))
      \<and> (\<forall>q. rt_known q \<longrightarrow> sfrt_dir_lookup q t' = ins_spec beh (unat len) (unat k) (same_bits ip q 0 (unat len)) (sfrt_dir_lookup q t))"
      by (rule insert_trie [OF assms(1,2) l t uk, of beh]) blast
    let ?tb1 = "tb\<lparr>rt := Some t', num_ent := num_ent tb + 1, lastAllocatedIndex := k, rt_data := (rt_data tb)[unat k := Some p]\<rparr>"
    have r: "rc = RT_SUCCESS" "tb' = Some ?tb1"
      using assms(2,5) False len ip lk al ins(1) by (auto simp: sfrt_insert_def tb0 set_rt_for_def Let_def split: if_splits)
    have kmax: "k < max_size tb" using k(1) assms(1) by (simp add: tb_ok_def word_less_nat_alt)
    note ins' = ins(2) [OF r(1)]
    have ok: "tb_ok ?tb1"
      by (rule tb_ok_store [where l = "unat len", OF assms(1) t _ _ uk k(1) _ refl kmax]) (use ins' in simp_all)
    have "sfrt_lookup (Some q) (Some ?tb1) =
      (if rt_family q = AF_INET \<and> same_bits ip q 0 (unat len) \<and> (beh = RT_FAVOR_TIME \<or> snd (sfrt_dir_lookup q t) \<le> unat len)
       then Some (Some p) else sfrt_lookup (Some q) (Some tb))" if "rt_known q" for q
      by (rule insert_lookup_tb [OF assms(1) t assms(2) that k(1) _ refl ok uk]) (use ins' k(2) in auto)
    then show ?thesis using r(2) False lk t ok by (simp add: rt_lookup_def)
  next
    case True
    have ilk: "sfrt_dir_lookup ip t = (i, l0)" using lk t by (simp add: rt_lookup_def)
    have i0: "i \<noteq> 0" using lookup_zero [OF ip(1), of "dimensions t" 0 "sub_table t"] dir ilk l True
      by (auto simp: dir_ok_def sfrt_dir_lookup_def)
    have leaf: "(i, l0) \<in> tb_leaves tb" using lookup_leaf [of ip 0 "sub_table t"] ilk i0 t by (auto simp: sfrt_dir_lookup_def tb_leaves_def)
    then have il: "i < length (rt_data tb)" "rt_data tb ! i \<noteq> None" using assms(1) i0 by (auto simp: tb_ok_def)
    obtain rc t' where ins: "sfrt_dir_insert ip (unat len) i beh t = Some (rc, t')"
      "rc = RT_SUCCESS \<Longrightarrow> trie_ok 32 (Some t') \<and> sub_leaves (sub_table t') \<subseteq> insert (i, unat len) (sub_leaves (sub_table t))
      \<and> (\<forall>q. rt_known q \<longrightarrow> sfrt_dir_lookup q t' = ins_spec beh (unat len) i (same_bits ip q 0 (unat len)) (sfrt_dir_lookup q t))"
      by (rule insert_trie [OF assms(1,2) l t i0, of beh]) blast
    let ?tb1 = "tb\<lparr>rt := Some t', num_ent := num_ent tb, lastAllocatedIndex := lastAllocatedIndex tb, rt_data := (rt_data tb)[i := rt_data tb ! i]\<rparr>"
    have r: "rc = RT_SUCCESS" "tb' = Some ?tb1"
      using assms(2,5) True len ip lk ins(1) by (auto simp: sfrt_insert_def set_rt_for_def)
    note ins' = ins(2) [OF r(1)]
    have ok: "tb_ok ?tb1"
      by (rule tb_ok_store [where l = "unat len", OF assms(1) t _ _ i0 il(1,2) refl]) (use ins' assms(1) in \<open>simp_all add: tb_ok_def\<close>)
    have "sfrt_lookup (Some ip) (Some tb) = Some (rt_data tb ! i)"
      using lookup_data(1) [OF assms(1) ip(1)] ip(2) ilk by (simp add: rt_lookup_def)
    moreover have "sfrt_lookup (Some q) (Some ?tb1) =
      (if rt_family q = AF_INET \<and> same_bits ip q 0 (unat len) \<and> (beh = RT_FAVOR_TIME \<or> snd (sfrt_dir_lookup q t) \<le> unat len)
       then Some (rt_data tb ! i) else sfrt_lookup (Some q) (Some tb))" if "rt_known q" for q
      by (rule insert_lookup_tb [OF assms(1) t assms(2) that il(1) _ refl ok i0]) (use ins' in auto)
    ultimately show ?thesis using r(2) True lk t ok by (auto simp: rt_lookup_def)
  qed
qed

lemma sfrt_insert_lookup_witness:
  "\<exists>tb'. sfrt_insert (Some (v4 0xD0000000)) 6 (Some 5) RT_FAVOR_SPECIFIC (Some small_table) = Some (RT_SUCCESS, tb')
     \<and> sfrt_lookup (Some (v4 0xD2000000)) tb' = Some (Some 5) \<and> sfrt_lookup (Some (v4 0xDF000000)) tb' = Some None"
proof -
  have "case sfrt_insert (Some (v4 0xD0000000)) 6 (Some 5) RT_FAVOR_SPECIFIC (Some small_table) of
      None \<Rightarrow> False | Some (rc, tb') \<Rightarrow> rc = RT_SUCCESS" by code_simp
  then obtain tb' where tb': "sfrt_insert (Some (v4 0xD0000000)) 6 (Some 5) RT_FAVOR_SPECIFIC (Some small_table) = Some (RT_SUCCESS, tb')"
    by (auto split: option.splits)
  have f: "rt_family (v4 a) = AF_INET" "rt_known (v4 a)" for a by (simp_all add: v4_def rt_known_def)
  have c: "same_bits (v4 0xD0000000) (v4 0xD2000000) 0 6" "snd (rt_lookup (v4 0xD2000000) (rt small_table)) = 0"
    "snd (rt_lookup (v4 0xD0000000) (rt small_table)) = 0" "\<not> same_bits (v4 0xD0000000) (v4 0xDF000000) 0 6"
    "sfrt_lookup (Some (v4 0xDF000000)) (Some small_table) = Some None" by code_simp+
  from sfrt_insert_lookup [OF small_table_ok f(1) _ _ tb'] show ?thesis using tb' c f by auto
qed

text \<open>
  C34: the only undefined access of \<open>sfrt_insert\<close> for an IPv4 prefix: when the prefix needs a new index and
  the last index given out is the last of the table, the search for a free index starts at
  \<open>data[max_size]\<close>, behind the array, whatever indices are free.
\<close>

theorem sfrt_insert_overrun:
  assumes "tb_ok tb" and "rt_family ip = AF_INET" and "0 < len" and "len \<le> 32"
  shows "sfrt_insert (Some ip) len ptr beh (Some tb) = None \<longleftrightarrow>
    snd (rt_lookup ip (rt tb)) \<noteq> unat len \<and> num_ent tb < max_size tb \<and> lastAllocatedIndex tb + 1 = max_size tb"
proof -
  obtain t where t: "rt tb = Some t" and dir: "dir_ok t" using assms(1) by (auto simp: tb_ok_def trie_ok_def split: option.splits)
  have l: "0 < unat len" "unat len \<le> 32" using assms(3,4) by (simp_all add: word_less_nat_alt word_le_nat_alt)
  have len: "len \<noteq> 0" "\<not> len_too_long len tb" using assms(3,4) by (auto simp: len_too_long_def word_less_nat_alt word_le_nat_alt)
  have ip: "rt_known ip" "rt_for ip tb = Some t" using assms(2) t by (simp_all add: rt_known_def rt_for_def)
  obtain i l0 where lk: "rt_lookup ip (rt tb) = (i, l0)" by fastforce
  have some: "val \<noteq> 0 \<Longrightarrow> sfrt_dir_insert ip (unat len) val beh t \<noteq> None" for val
    using insert_trie [OF assms(1,2) l t, of val beh] by (metis option.distinct(1))
  show ?thesis
  proof (cases "l0 = unat len")
    case True
    then have "i \<noteq> 0" using lookup_zero [OF ip(1), of "dimensions t" 0 "sub_table t"] dir lk l t
      by (auto simp: dir_ok_def sfrt_dir_lookup_def rt_lookup_def)
    then show ?thesis using True some [of i] len ip lk by (auto simp: sfrt_insert_def)
  next
    case False
    show ?thesis
    proof (cases "allocateTableIndex tb")
      case None
      then show ?thesis using False len ip lk allocate(1) [OF assms(1)] by (auto simp: sfrt_insert_def)
    next
      case (Some a)
      obtain k tb0 where a: "a = (k, tb0)" by (cases a)
      have "k \<noteq> 0 \<Longrightarrow> \<exists>res t'. sfrt_dir_insert ip (unat len) (unat k) beh t = Some (res, t')"
        using some [of "unat k"] by (auto simp: unat_gt_0)
      then show ?thesis using False Some a len ip lk allocate(1) [OF assms(1)] by (auto simp: sfrt_insert_def Let_def)
    qed
  qed
qed

lemma sfrt_insert_overrun_witness:
  "sfrt_insert (Some (v4 0xD0000000)) 6 (Some 5) RT_FAVOR_SPECIFIC (Some (small_table\<lparr>lastAllocatedIndex := 3\<rparr>)) = None"
proof -
  have "tb_ok (small_table\<lparr>lastAllocatedIndex := 3\<rparr>)" "snd (rt_lookup (v4 0xD0000000) (rt small_table)) = 0" by code_simp+
  then show ?thesis
    by (subst sfrt_insert_overrun) (simp_all add: v4_def small_table_def)
qed



end
