(* ===== verification/Paf.thy ===== *)
theory Paf
  imports SnortPrelude
begin

text \<open>
  Protocol-aware flushing: \<open>preprocessors/Stream5/stream5_paf.c\<close> and the two loops of
  \<open>snort_stream5_tcp.c\<close> that feed it the segments queued for one direction of a session. A callback
  scans the bytes in order and says where the current message ends; the stream is then flushed there.
  The user data of the callbacks is a type parameter. The file-level variables \<open>s5_len\<close> and \<open>s5_idx\<close>
  are passed along, since they live only during one call of \<open>s5_paf_check\<close>. Counters for statistics and
  the registration of callbacks per policy are left out.
\<close>

datatype PAF_Status = PAF_ABORT | PAF_START | PAF_SEARCH | PAF_FLUSH | PAF_SKIP

datatype FlushType = FT_NOP | FT_SFP | FT_PAF | FT_MAX

definition PKT_FROM_SERVER :: u32 where "PKT_FROM_SERVER = 0x40"
definition PKT_FROM_CLIENT :: u32 where "PKT_FROM_CLIENT = 0x80"
definition PKT_PDU_HEAD :: u32 where "PKT_PDU_HEAD = 0x100"
definition PKT_PDU_TAIL :: u32 where "PKT_PDU_TAIL = 0x200"

definition SEQ_LT :: "u32 \<Rightarrow> u32 \<Rightarrow> bool" where "SEQ_LT a b = (a - b <s 0)"
definition SEQ_LEQ :: "u32 \<Rightarrow> u32 \<Rightarrow> bool" where "SEQ_LEQ a b = (a - b \<le>s 0)"
definition SEQ_GT :: "u32 \<Rightarrow> u32 \<Rightarrow> bool" where "SEQ_GT a b = (0 <s a - b)"

text \<open>A callback: user data, bytes, flags and the old flush point to the new ones.\<close>

type_synonym 'u paf_callback = "'u option \<Rightarrow> u8 list \<Rightarrow> u32 \<Rightarrow> u32 \<Rightarrow> PAF_Status \<times> 'u option \<times> u32"

record 'u PAF_State =
  user :: "'u option"
  ps_seq :: u32
  ps_pos :: u32
  fpt :: u32
  tot :: u32
  paf :: PAF_Status
  cb_mask :: u8

section \<open>Flushing\<close>

definition s5_paf_flush :: "u32 \<Rightarrow> 'u PAF_State \<Rightarrow> FlushType \<Rightarrow> u32 \<Rightarrow> u32 \<times> 'u PAF_State \<times> u32" where
  "s5_paf_flush s5_len ps ft flags =
     (let flags = flags AND NOT (PKT_PDU_HEAD OR PKT_PDU_TAIL);
          finish = (\<lambda>at ps flags.
            if at = 0 \<or> s5_len = 0 then (0, ps, flags)
            else let at = (if 0x7FFFFFFF < at then 0x7FFFFFFF else at);
                     flags = (if tot ps = 0 then flags OR PKT_PDU_HEAD else flags);
                     ps = (if flags AND PKT_PDU_TAIL \<noteq> 0 then ps\<lparr>tot := 0\<rparr> else ps\<lparr>tot := tot ps + at\<rparr>)
                 in (at, ps, flags))
      in case ft of
           FT_NOP \<Rightarrow> (0, ps, flags)
         | FT_SFP \<Rightarrow> (0, ps, 0)
         | FT_PAF \<Rightarrow> finish (fpt ps) ps (flags OR PKT_PDU_TAIL)
         | FT_MAX \<Rightarrow> finish s5_len (ps\<lparr>fpt := if s5_len < fpt ps then fpt ps - s5_len else 0\<rparr>) flags)"

section \<open>Scanning\<close>

abbreviation MAX_CB :: nat where "MAX_CB \<equiv> 8"

text \<open>
  The loop over the bits of the mask: the first callback that selects a point is the last one called.
  The status is that of the last callback called, \<open>None\<close> as long as none was. The result is \<open>None\<close>
  when a bit has no callback.
\<close>

fun cb_loop :: "'u paf_callback list \<Rightarrow> nat \<Rightarrow> nat \<Rightarrow> u8 \<Rightarrow> u8 list \<Rightarrow> u32 \<Rightarrow> 'u PAF_State \<Rightarrow> PAF_Status option \<Rightarrow>
    ('u PAF_State \<times> PAF_Status option \<times> bool) option" where
  "cb_loop cbs 0 i m data flags ps st = Some (ps, st, False)"
| "cb_loop cbs (Suc n) i m data flags ps st =
     (if m = 0 then Some (ps, st, False)
      else if bit m i then
        if length cbs \<le> i then None
        else (case (cbs ! i) (user ps) data flags (fpt ps) of
          (r, u, f) \<Rightarrow>
            let ps = ps\<lparr>user := u, fpt := f\<rparr>
            in if r = PAF_ABORT then
                 cb_loop cbs n (i + 1) (m XOR 2 ^ i) data flags (ps\<lparr>cb_mask := cb_mask ps XOR 2 ^ i\<rparr>) (Some r)
               else if r \<noteq> PAF_SEARCH then Some (ps\<lparr>cb_mask := 2 ^ i\<rparr>, Some r, True)
               else cb_loop cbs n (i + 1) (m XOR 2 ^ i) data flags ps (Some r))
      else cb_loop cbs n (i + 1) m data flags ps st)"

definition s5_paf_callback :: "'u paf_callback list \<Rightarrow> u8 list \<Rightarrow> u32 \<Rightarrow> u32 \<Rightarrow> u32 \<Rightarrow> 'u PAF_State \<Rightarrow>
    (bool \<times> u32 \<times> 'u PAF_State) option" where
  "s5_paf_callback cbs data flags s5_len s5_idx ps =
     (case cb_loop cbs MAX_CB 0 (cb_mask ps) data flags ps None of
        None \<Rightarrow> None
      | Some (ps, st, update) \<Rightarrow>
          let update = (update \<or> cb_mask ps = 0);
              ps = (if cb_mask ps = 0 then ps\<lparr>paf := PAF_ABORT\<rparr>
                    else case st of None \<Rightarrow> ps | Some st \<Rightarrow> if st \<noteq> PAF_ABORT then ps\<lparr>paf := st\<rparr> else ps);
              ps = (if update then ps\<lparr>fpt := fpt ps + s5_idx\<rparr> else ps)
          in if update \<and> fpt ps \<le> s5_len then Some (True, fpt ps, ps) else Some (False, s5_len, ps))"

definition s5_paf_eval :: "'u paf_callback list \<Rightarrow> u32 \<Rightarrow> u32 \<Rightarrow> u8 list \<Rightarrow> u32 \<Rightarrow> u32 \<Rightarrow> u32 \<Rightarrow> 'u PAF_State \<Rightarrow>
    (bool \<times> FlushType \<times> u32 \<times> 'u PAF_State) option" where
  "s5_paf_eval cbs mfp fuzz data flags s5_len s5_idx ps =
     (let call = (\<lambda>data s5_idx. map_option (\<lambda>(c, i, ps). (c, FT_NOP, i, ps)) (s5_paf_callback cbs data flags s5_len s5_idx ps))
      in case paf ps of
           PAF_SEARCH \<Rightarrow> if s5_idx < s5_len then call data s5_idx else Some (False, FT_NOP, s5_idx, ps)
         | PAF_FLUSH \<Rightarrow>
             if fpt ps \<le> s5_len then Some (True, FT_PAF, s5_idx, ps\<lparr>paf := PAF_SEARCH\<rparr>)
             else if mfp + fuzz \<le> s5_len then Some (False, FT_MAX, s5_idx, ps)
             else Some (False, FT_NOP, s5_idx, ps)
         | PAF_SKIP \<Rightarrow>
             if fpt ps < s5_len then
               if s5_idx < fpt ps then
                 if length data < unat (fpt ps - s5_idx) then Some (False, FT_NOP, s5_idx, ps)
                 else call (drop (unat (fpt ps - s5_idx)) data) (fpt ps)
               else call data (fpt ps)
             else Some (False, FT_NOP, s5_idx, ps)
         | _ \<Rightarrow> Some (False, FT_SFP, s5_idx, ps))"

text \<open>
  The loop of \<open>s5_paf_check\<close>. Every round but the last one moves \<open>s5_idx\<close> on if the callback does not
  stay where it is, so two rounds more than there are bytes are enough.
\<close>

fun check_loop :: "nat \<Rightarrow> 'u paf_callback list \<Rightarrow> u32 \<Rightarrow> u32 \<Rightarrow> u8 list \<Rightarrow> u32 \<Rightarrow> u32 \<Rightarrow> u32 \<Rightarrow> 'u PAF_State \<Rightarrow>
    (u32 \<times> u32 \<times> 'u PAF_State) option" where
  "check_loop 0 cbs mfp fuzz data flags s5_len s5_idx ps = None"
| "check_loop (Suc n) cbs mfp fuzz data flags s5_len s5_idx ps =
     (case s5_paf_eval cbs mfp fuzz data flags s5_len s5_idx ps of
        None \<Rightarrow> None
      | Some (cont, ft, idx, ps) \<Rightarrow>
          if ft \<noteq> FT_NOP then
            (case s5_paf_flush s5_len ps ft flags of
               (fp, ps, flags) \<Rightarrow> Some (fp, flags, ps\<lparr>ps_pos := ps_pos ps + fp, ps_seq := ps_pos ps + fp\<rparr>))
          else if \<not> cont then
            if paf ps \<noteq> PAF_FLUSH \<and> mfp + fuzz < s5_len then
              (case s5_paf_flush s5_len ps FT_MAX flags of
                 (fp, ps, flags) \<Rightarrow> Some (fp, flags, ps\<lparr>ps_pos := ps_pos ps + fp, ps_seq := ps_pos ps + fp\<rparr>))
            else Some (0, flags, ps)
          else check_loop n cbs mfp fuzz (if s5_idx < idx then drop (unat (idx - s5_idx)) data else data) flags s5_len idx ps)"

definition s5_paf_check :: "'u paf_callback list \<Rightarrow> u32 \<Rightarrow> u32 \<Rightarrow> u8 list \<Rightarrow> u32 \<Rightarrow> u32 \<Rightarrow> u32 \<Rightarrow> 'u PAF_State \<Rightarrow>
    (u32 \<times> u32 \<times> 'u PAF_State) option" where
  "s5_paf_check cbs mfp fuzz data tot_q seq flags ps =
     (let scan = (\<lambda>data ps. check_loop (length data + 2) cbs mfp fuzz data flags tot_q (tot_q - of_nat (length data))
            (ps\<lparr>ps_seq := ps_seq ps + of_nat (length data)\<rparr>))
      in if paf ps = PAF_START then scan data (ps\<lparr>ps_seq := seq, ps_pos := seq, paf := PAF_SEARCH\<rparr>)
         else if SEQ_GT seq (ps_seq ps) then Some (0, 0, ps)
         else if SEQ_LEQ (seq + of_nat (length data)) (ps_seq ps) then Some (0, flags, ps)
         else if SEQ_LT seq (ps_seq ps) then scan (drop (unat (ps_seq ps - seq)) data) ps
         else scan data ps)"

definition s5_paf_setup :: "u8 \<Rightarrow> 'u PAF_State" where
  "s5_paf_setup m = \<lparr>user = None, ps_seq = 0, ps_pos = 0, fpt = 0, tot = 0, paf = PAF_START, cb_mask = m\<rparr>"

definition s5_paf_clear :: "'u PAF_State \<Rightarrow> 'u PAF_State" where
  "s5_paf_clear ps = ps\<lparr>user := None, paf := PAF_ABORT\<rparr>"

section \<open>The segments of a queue\<close>

text \<open>
  A segment is its sequence number and its bytes. \<open>fuzz\<close> is the flush point of the tracker,
  \<open>missing\<close> its flag \<open>TF_MISSING_PKT\<close>.
\<close>

fun pdu_ips_loop :: "'u paf_callback list \<Rightarrow> u32 \<Rightarrow> u32 \<Rightarrow> u32 \<Rightarrow> bool \<Rightarrow> (u32 \<times> u8 list) list \<Rightarrow> u32 \<Rightarrow> u32 \<Rightarrow> 'u PAF_State \<Rightarrow>
    (u32 \<times> u32 \<times> 'u PAF_State) option" where
  "pdu_ips_loop cbs mfp fuzz avail missing [] tot_q flags ps = Some (0, flags, ps)"
| "pdu_ips_loop cbs mfp fuzz avail missing ((seq, data) # segs) tot_q flags ps =
     (if flags \<noteq> 0 \<and> tot_q < avail \<and> \<not> missing then
        let size = of_nat (length data); tot_q = tot_q + size
        in if paf ps \<noteq> PAF_START \<and> SEQ_LEQ (seq + size) (ps_seq ps)
           then pdu_ips_loop cbs mfp fuzz avail missing segs tot_q flags ps
           else (case s5_paf_check cbs mfp fuzz data tot_q seq flags ps of
                   None \<Rightarrow> None
                 | Some (fp, flags, ps) \<Rightarrow>
                     if 0 < fp then Some (fp, flags, ps)
                     else pdu_ips_loop cbs mfp fuzz avail missing segs tot_q flags ps)
      else Some (0, flags, ps))"

definition flush_pdu_ips :: "'u paf_callback list \<Rightarrow> u32 \<Rightarrow> u32 \<Rightarrow> u32 \<Rightarrow> bool \<Rightarrow> (u32 \<times> u8 list) list \<Rightarrow> u32 \<Rightarrow> 'u PAF_State \<Rightarrow>
    (u32 \<times> u32 \<times> 'u PAF_State) option" where
  "flush_pdu_ips cbs mfp fuzz avail missing segs flags ps = pdu_ips_loop cbs mfp fuzz avail missing segs 0 flags ps"

text \<open>The same for acknowledged bytes only: the last segment may be acknowledged in part.\<close>

fun pdu_ackd_loop :: "'u paf_callback list \<Rightarrow> u32 \<Rightarrow> u32 \<Rightarrow> u32 \<Rightarrow> bool \<Rightarrow> (u32 \<times> u8 list) list \<Rightarrow> u32 \<Rightarrow> u32 \<Rightarrow> 'u PAF_State \<Rightarrow>
    (u32 \<times> u32 \<times> 'u PAF_State) option" where
  "pdu_ackd_loop cbs mfp fuzz r_win_base missing [] tot_q flags ps = Some (0, flags, ps)"
| "pdu_ackd_loop cbs mfp fuzz r_win_base missing ((seq, data) # segs) tot_q flags ps =
     (if flags \<noteq> 0 \<and> \<not> missing \<and> SEQ_LT seq r_win_base then
        let fin = seq + of_nat (length data)
        in if paf ps \<noteq> PAF_START \<and> SEQ_LEQ fin (ps_seq ps)
           then pdu_ackd_loop cbs mfp fuzz r_win_base missing segs (tot_q + of_nat (length data)) flags ps
           else let data = (if SEQ_GT fin r_win_base then take (unat (r_win_base - seq)) data else data);
                    tot_q = tot_q + of_nat (length data)
                in case s5_paf_check cbs mfp fuzz data tot_q seq flags ps of
                     None \<Rightarrow> None
                   | Some (fp, flags, ps) \<Rightarrow>
                       if 0 < fp then Some (fp, flags, ps)
                       else pdu_ackd_loop cbs mfp fuzz r_win_base missing segs tot_q flags ps
      else Some (0, flags, ps))"

definition flush_pdu_ackd :: "'u paf_callback list \<Rightarrow> u32 \<Rightarrow> u32 \<Rightarrow> u32 \<Rightarrow> bool \<Rightarrow> (u32 \<times> u8 list) list \<Rightarrow> u32 \<Rightarrow> 'u PAF_State \<Rightarrow>
    (u32 \<times> u32 \<times> 'u PAF_State) option" where
  "flush_pdu_ackd cbs mfp fuzz r_win_base missing segs flags ps = pdu_ackd_loop cbs mfp fuzz r_win_base missing segs 0 flags ps"

end
