(* ===== verification/PafProofs.thy ===== *)
theory PafProofs
  imports Paf
begin

text \<open>
  What a scanner has to promise (the locale \<open>paf_scanner\<close>) and what the flushing then guarantees: a
  stream is flushed at the ends of its messages, however it is cut into segments. \<open>good\<close> leaves out the
  states after an error, \<open>fresh\<close> are the states at the start of a message.
\<close>

text \<open>The part of a result that counts: the flush point matters only when there is one.\<close>

definition outcome :: "PAF_Status \<times> 'u \<times> u32 \<Rightarrow> PAF_Status \<times> u32" where
  "outcome r = (case r of (st, u, f) \<Rightarrow> (st, if st = PAF_FLUSH \<or> st = PAF_SKIP then f else 0))"

definition shift_by :: "nat \<Rightarrow> PAF_Status \<times> u32 \<Rightarrow> PAF_Status \<times> u32" where
  "shift_by k r = (case r of (st, f) \<Rightarrow> (st, if st = PAF_FLUSH \<or> st = PAF_SKIP then f + of_nat k else 0))"

definition pdu_flags :: "u32 \<Rightarrow> u32" where
  "pdu_flags flags = ((flags AND NOT (PKT_PDU_HEAD OR PKT_PDU_TAIL)) OR PKT_PDU_TAIL) OR PKT_PDU_HEAD"

section \<open>Sequence numbers near each other\<close>

lemma sint_small: "- (2 ^ 31) \<le> d \<Longrightarrow> d < 2 ^ 31 \<Longrightarrow> sint (of_int d :: u32) = d"
  by (simp add: signed_of_int signed_take_bit_int_eq_self)

lemma sint_diff:
  assumes "i < 2 ^ 31" and "j < 2 ^ 31"
  shows "sint ((base + of_nat i) - (base + of_nat j) :: u32) = int i - int j"
proof -
  have "(base + of_nat i) - (base + of_nat j) = (of_int (int i - int j) :: u32)" by simp
  moreover have "sint (of_int (int i - int j) :: u32) = int i - int j"
    by (rule sint_small) (use assms in auto)
  ultimately show ?thesis by simp
qed

lemma SEQ_near:
  assumes "i < 2 ^ 31" and "j < 2 ^ 31"
  shows "SEQ_LT (base + of_nat i) (base + of_nat j) \<longleftrightarrow> i < j"
    and "SEQ_LEQ (base + of_nat i) (base + of_nat j) \<longleftrightarrow> i \<le> j"
    and "SEQ_GT (base + of_nat i) (base + of_nat j) \<longleftrightarrow> j < i"
  using sint_diff [OF assms, of base] by (simp_all add: SEQ_LT_def SEQ_LEQ_def SEQ_GT_def word_sless_alt word_sle_eq)

lemma of_nat_u32_le: "i < 2 ^ 32 \<Longrightarrow> j < 2 ^ 32 \<Longrightarrow> (of_nat i :: u32) \<le> of_nat j \<longleftrightarrow> i \<le> j"
  by (simp add: word_le_nat_alt unat_of_nat)

lemma of_nat_u32_less: "i < 2 ^ 32 \<Longrightarrow> j < 2 ^ 32 \<Longrightarrow> (of_nat i :: u32) < of_nat j \<longleftrightarrow> i < j"
  by (simp add: word_less_nat_alt unat_of_nat)

section \<open>Rounds of the check\<close>

declare check_loop.simps [simp del]

lemma check_wait:
  assumes "s5_paf_eval cbs mfp fuzz data flags len idx ps = Some (False, FT_NOP, i, ps')"
    and "paf ps' = PAF_FLUSH \<or> \<not> mfp + fuzz < len"
  shows "check_loop (Suc n) cbs mfp fuzz data flags len idx ps = Some (0, flags, ps')"
  using assms by (auto simp: check_loop.simps)

lemma check_more:
  assumes "s5_paf_eval cbs mfp fuzz data flags len idx ps = Some (True, FT_NOP, i, ps')"
  shows "check_loop (Suc n) cbs mfp fuzz data flags len idx ps
    = check_loop n cbs mfp fuzz (if idx < i then drop (unat (i - idx)) data else data) flags len i ps'"
  using assms by (auto simp: check_loop.simps)

lemma eval_SEARCH:
  assumes "paf ps = PAF_SEARCH" and "idx < len" and "s5_paf_callback cbs data flags len idx ps = Some (c, i, ps')"
  shows "s5_paf_eval cbs mfp fuzz data flags len idx ps = Some (c, FT_NOP, i, ps')"
  using assms by (simp add: s5_paf_eval_def)

lemma eval_FLUSH_ahead:
  assumes "paf ps = PAF_FLUSH" and "\<not> fpt ps \<le> len" and "\<not> mfp + fuzz \<le> len"
  shows "s5_paf_eval cbs mfp fuzz data flags len idx ps = Some (False, FT_NOP, idx, ps)"
  using assms by (simp add: s5_paf_eval_def)

section \<open>A stream\<close>

text \<open>A run of segments, each starting where the one before ends, the first one at offset \<open>i\<close>.\<close>

fun segments_at :: "u32 \<Rightarrow> nat \<Rightarrow> u8 list list \<Rightarrow> (u32 \<times> u8 list) list" where
  "segments_at base i [] = []"
| "segments_at base i (x # xs) = (base + of_nat i, x) # segments_at base (i + length x) xs"

text \<open>
  What the caller does after each segment (\<open>CheckFlushPolicyOnData\<close>): flush as long as there is a flush
  point. A flush takes its bytes off the queue \<open>q\<close>, whose first byte has the number \<open>base\<close>. The result
  is the flush points and what is left.
\<close>

fun drop_bytes :: "nat \<Rightarrow> u8 list list \<Rightarrow> u8 list list" where
  "drop_bytes n [] = []"
| "drop_bytes n (x # xs) = (if length x \<le> n then drop_bytes (n - length x) xs else drop n x # xs)"

fun paf_drain :: "nat \<Rightarrow> 'u paf_callback list \<Rightarrow> u32 \<Rightarrow> u32 \<Rightarrow> u32 \<Rightarrow> u32 \<Rightarrow> u8 list list \<Rightarrow> 'u PAF_State \<Rightarrow>
    (nat list \<times> u32 \<times> u8 list list \<times> 'u PAF_State) option" where
  "paf_drain 0 cbs mfp fuzz flags base q ps = None"
| "paf_drain (Suc n) cbs mfp fuzz flags base q ps =
     (case flush_pdu_ips cbs mfp fuzz (of_nat (length (concat q))) False (segments_at base 0 q) flags ps of
        None \<Rightarrow> None
      | Some (fp, fl, ps) \<Rightarrow>
          if fp = 0 then Some ([], base, q, ps)
          else map_option (\<lambda>(fps, r). (unat fp # fps, r))
                 (paf_drain n cbs mfp fuzz flags (base + fp) (drop_bytes (unat fp) q) ps))"

fun paf_stream :: "'u paf_callback list \<Rightarrow> u32 \<Rightarrow> u32 \<Rightarrow> u32 \<Rightarrow> u32 \<Rightarrow> u8 list list \<Rightarrow> 'u PAF_State \<Rightarrow> u8 list list \<Rightarrow> nat list option" where
  "paf_stream cbs mfp fuzz flags base q ps [] = Some []"
| "paf_stream cbs mfp fuzz flags base q ps (x # xs) =
     (case paf_drain (length (concat q) + length x + 1) cbs mfp fuzz flags base (q @ [x]) ps of
        None \<Rightarrow> None
      | Some (fps, base, q, ps) \<Rightarrow> map_option (\<lambda>r. fps @ r) (paf_stream cbs mfp fuzz flags base q ps xs))"

text \<open>The lengths of the messages that end within the first \<open>n\<close> bytes.\<close>

fun ended :: "u8 list list \<Rightarrow> nat \<Rightarrow> nat list" where
  "ended [] n = []"
| "ended (p # ps) n = (if length p \<le> n then length p # ended ps (n - length p) else [])"

lemma concat_drop_bytes: "concat (drop_bytes n q) = drop n (concat q)"
  by (induction n q rule: drop_bytes.induct) auto

lemma drop_bytes_nonempty: "\<forall>x\<in>set q. x \<noteq> [] \<Longrightarrow> \<forall>x\<in>set (drop_bytes n q). x \<noteq> []"
  by (induction n q rule: drop_bytes.induct) auto

lemma drop_bytes_add: "drop_bytes a (drop_bytes b q) = drop_bytes (b + a) q"
  by (induction b q rule: drop_bytes.induct) (auto simp: ac_simps)

lemma drop_bytes_0: "\<forall>x\<in>set q. x \<noteq> [] \<Longrightarrow> drop_bytes 0 q = q"
  by (cases q) auto

lemma ended_concat: "concat (drop (length (ended ms n)) ms) = drop (sum_list (ended ms n)) (concat ms)"
  by (induction ms n rule: ended.induct) auto

lemma ended_le: "sum_list (ended ms n) \<le> n"
  by (induction ms n rule: ended.induct) auto

lemma ended_more:
  "ended ms (n + m) = ended ms n @ ended (drop (length (ended ms n)) ms) (n - sum_list (ended ms n) + m)"
  by (induction ms n rule: ended.induct) auto

locale paf_scanner =
  fixes cb :: "'u paf_callback"
    and good :: "'u option \<Rightarrow> bool"
    and fresh :: "'u option \<Rightarrow> u32 \<Rightarrow> bool"
  assumes split: "cb u a flags fp = (PAF_SEARCH, u1, f1) \<Longrightarrow> good u1 \<Longrightarrow>
      outcome (cb u (a @ b) flags fp) = shift_by (length a) (outcome (cb u1 b flags g))"
    and split_state: "cb u a flags fp = (PAF_SEARCH, u1, f1) \<Longrightarrow> good u1 \<Longrightarrow>
      good (fst (snd (cb u (a @ b) flags fp))) = good (fst (snd (cb u1 b flags g)))"
    and stop: "cb u a flags fp = (st, u1, f1) \<Longrightarrow> st \<noteq> PAF_SEARCH \<Longrightarrow> good u1 \<Longrightarrow>
      outcome (cb u (a @ b) flags g) = outcome (st, u1, f1) \<and> good (fst (snd (cb u (a @ b) flags g)))"
    and fresh_good: "fresh u flags \<Longrightarrow> good u"
    and fresh_start: "fresh None flags"
    and fresh_flush: "cb u a flags fp = (PAF_FLUSH, u1, f1) \<Longrightarrow> good u1 \<Longrightarrow> fresh u1 flags"
    and fresh_same: "fresh u flags \<Longrightarrow> outcome (cb u a flags fp) = outcome (cb None a flags g)
      \<and> good (fst (snd (cb u a flags fp))) = good (fst (snd (cb None a flags g)))"
begin

text \<open>A message: scanned from a fresh state it is flushed whole, and no part of it is in error.\<close>

definition message :: "u32 \<Rightarrow> u8 list \<Rightarrow> bool" where
  "message flags p \<longleftrightarrow> p \<noteq> [] \<and> outcome (cb None p flags 0) = (PAF_FLUSH, of_nat (length p))
     \<and> (\<forall>k\<le>length p. good (fst (snd (cb None (take k p) flags 0))))"

text \<open>
  A direction between two messages, the next one starting at \<open>base\<close>; and one whose queue starts at
  \<open>base\<close> with the message \<open>p\<close>, of which \<open>k\<close> bytes are scanned: the end is still searched for, or it
  is known and ahead.
\<close>

definition boundary :: "u32 \<Rightarrow> u32 \<Rightarrow> 'u PAF_State \<Rightarrow> bool" where
  "boundary flags base ps \<longleftrightarrow> ps_pos ps = base \<and> ps_seq ps = base \<and> cb_mask ps = 1 \<and> tot ps = 0
     \<and> paf ps = PAF_SEARCH \<and> fresh (user ps) flags"

definition scanned :: "u32 \<Rightarrow> u8 list \<Rightarrow> nat \<Rightarrow> u32 \<Rightarrow> 'u PAF_State \<Rightarrow> bool" where
  "scanned flags p k base ps \<longleftrightarrow>
     ps_pos ps = base \<and> ps_seq ps = base + of_nat k \<and> cb_mask ps = 1 \<and> tot ps = 0 \<and> k < length p \<and>
     (paf ps = PAF_SEARCH \<and> good (user ps) \<and>
        (\<forall>b g. outcome (cb None (take k p @ b) flags 0) = shift_by k (outcome (cb (user ps) b flags g))
           \<and> good (fst (snd (cb None (take k p @ b) flags 0))) = good (fst (snd (cb (user ps) b flags g)))) \<or>
      paf ps = PAF_FLUSH \<and> fpt ps = of_nat (length p) \<and> fresh (user ps) flags)"

lemma shift_by_simps [simp]:
  "shift_by k (PAF_SEARCH, f) = (PAF_SEARCH, 0)" "shift_by k (PAF_FLUSH, f) = (PAF_FLUSH, f + of_nat k)"
  by (simp_all add: shift_by_def)

lemma outcome_simps [simp]:
  "outcome (PAF_SEARCH, u, f) = (PAF_SEARCH, 0)" "outcome (PAF_FLUSH, u, f) = (PAF_FLUSH, f)"
  by (simp_all add: outcome_def)

lemma shift_by_0: "shift_by 0 (outcome r) = outcome r"
  by (auto simp: shift_by_def outcome_def split: prod.splits)

lemma shift_by_add: "shift_by k (shift_by l r) = shift_by (l + k) r"
  by (auto simp: shift_by_def ac_simps split: prod.splits)

lemma shift_outcome_FLUSH: "shift_by k (outcome (st, u, f)) = (PAF_FLUSH, g) \<longleftrightarrow> st = PAF_FLUSH \<and> f + of_nat k = g"
  by (auto simp: shift_by_def outcome_def)

lemma shift_outcome_SEARCH: "shift_by k (outcome (st, u, f)) = (PAF_SEARCH, g) \<longleftrightarrow> st = PAF_SEARCH \<and> g = 0"
  by (auto simp: shift_by_def outcome_def)

lemma start_scanned:
  assumes "message flags p" and "boundary flags base ps"
  shows "scanned flags p 0 base ps"
proof -
  have fr: "fresh (user ps) flags" using assms by (simp add: boundary_def)
  have "outcome (cb None b flags 0) = outcome (cb (user ps) b flags g) \<and>
      good (fst (snd (cb None b flags 0))) = good (fst (snd (cb (user ps) b flags g)))" for b g
    using fresh_same [OF fr, of b g 0] by simp
  then show ?thesis
    using assms fresh_good [OF fr] by (auto simp: scanned_def boundary_def message_def shift_by_0)
qed

lemma message_prefix:
  assumes "message flags p" and "k \<le> length p"
  shows "fst (outcome (cb None (take k p) flags 0)) = PAF_SEARCH \<or>
    outcome (cb None (take k p) flags 0) = (PAF_FLUSH, of_nat (length p))"
proof (cases "cb None (take k p) flags 0")
  case (fields st u f)
  have "good u" using assms fields by (auto simp: message_def)
  show ?thesis
  proof (cases "st = PAF_SEARCH")
    case False
    from stop [OF fields False \<open>good u\<close>, of "drop k p" 0] have "outcome (cb None p flags 0) = outcome (st, u, f)" by simp
    then show ?thesis using assms fields by (simp add: message_def)
  qed (simp add: fields outcome_def)
qed

lemma message_more:
  assumes "message flags p"
  shows "outcome (cb None (p @ d) flags 0) = (PAF_FLUSH, of_nat (length p)) \<and> good (fst (snd (cb None (p @ d) flags 0)))"
proof (cases "cb None p flags 0")
  case (fields st u f)
  have "st = PAF_FLUSH" "good u" using assms fields by (auto simp: message_def outcome_def dest!: spec [of _ "length p"])
  then show ?thesis using stop [OF fields, of d 0] assms fields by (simp add: message_def)
qed

text \<open>One callback in a mask of one.\<close>

lemma callback_search:
  assumes "cb_mask ps = 1" and "cb (user ps) d flags (fpt ps) = (PAF_SEARCH, u, f)"
  shows "s5_paf_callback [cb] d flags s5_len s5_idx ps = Some (False, s5_len, ps\<lparr>user := u, fpt := f, paf := PAF_SEARCH\<rparr>)"
  using assms by (simp add: s5_paf_callback_def Let_def eval_nat_numeral)

lemma callback_flush:
  assumes "cb_mask ps = 1" and "cb (user ps) d flags (fpt ps) = (PAF_FLUSH, u, f)"
  shows "s5_paf_callback [cb] d flags s5_len s5_idx ps
    = (let ps = ps\<lparr>user := u, fpt := f + s5_idx, paf := PAF_FLUSH\<rparr>
       in if f + s5_idx \<le> s5_len then Some (True, f + s5_idx, ps) else Some (False, s5_len, ps))"
  using assms by (simp add: s5_paf_callback_def Let_def eval_nat_numeral)


lemma stream_outcome:
  assumes "message flags p" and "take (length s) p = take (length p) s"
  shows "outcome (cb None s flags 0) = (PAF_FLUSH, of_nat (length p)) \<or> length s < length p \<and> fst (cb None s flags 0) = PAF_SEARCH"
    and "good (fst (snd (cb None s flags 0)))"
proof -
  have *: "(outcome (cb None s flags 0) = (PAF_FLUSH, of_nat (length p)) \<or> length s < length p \<and> fst (cb None s flags 0) = PAF_SEARCH)
    \<and> good (fst (snd (cb None s flags 0)))"
  proof (cases "length s < length p")
    case True
    then have e: "s = take (length s) p" using assms(2) by simp
    have "good (fst (snd (cb None (take (length s) p) flags 0)))" using True assms(1) by (simp add: message_def)
    moreover have "fst (outcome (cb None s flags 0)) = PAF_SEARCH \<or> outcome (cb None s flags 0) = (PAF_FLUSH, of_nat (length p))"
      using message_prefix [OF assms(1), of "length s"] True e by auto
    ultimately show ?thesis using True e by (auto simp: outcome_def split: prod.splits)
  next
    case False
    then have "s = p @ drop (length p) s" using assms(2) by (metis append_take_drop_id linorder_not_less take_all)
    then show ?thesis using message_more [OF assms(1), of "drop (length p) s"] by simp
  qed
  show "outcome (cb None s flags 0) = (PAF_FLUSH, of_nat (length p)) \<or> length s < length p \<and> fst (cb None s flags 0) = PAF_SEARCH"
    and "good (fst (snd (cb None s flags 0)))" using * by blast+
qed

lemma flush_FT_PAF:
  assumes "tot ps = 0" and "fpt ps = of_nat n" and "0 < n" and "n < 2 ^ 31" and "len \<noteq> 0"
  shows "s5_paf_flush len ps FT_PAF flags = (of_nat n, ps, pdu_flags flags)"
proof -
  have "\<not> 0x7FFFFFFF < (of_nat n :: u32)" using of_nat_u32_less [of "2147483647" n] assms(4) by simp
  moreover have "(of_nat n :: u32) \<noteq> 0" using of_nat_u32_less [of 0 n] assms(3,4) by auto
  moreover have "pdu_flags flags AND PKT_PDU_TAIL \<noteq> 0"
  proof -
    have "bit (pdu_flags flags AND PKT_PDU_TAIL) 9" by (simp add: pdu_flags_def bit_simps PKT_PDU_TAIL_def)
    then show ?thesis by force
  qed
  ultimately show ?thesis using assms by (simp add: s5_paf_flush_def Let_def pdu_flags_def)
qed

lemma check_flush:
  assumes "paf ps = PAF_FLUSH" and "tot ps = 0" and "fpt ps = of_nat n" and "0 < n" and "n < 2 ^ 31"
    and "of_nat n \<le> len" and "len \<noteq> 0" and "ps_pos ps = base" and "cb_mask ps = 1" and "fresh (user ps) flags"
  shows "\<exists>ps'. boundary flags (base + of_nat n) ps' \<and>
    check_loop (Suc m) cbs mfp fuzz data flags len idx ps = Some (of_nat n, pdu_flags flags, ps')"
proof -
  let ?ps = "ps\<lparr>paf := PAF_SEARCH\<rparr>"
  have "check_loop (Suc m) cbs mfp fuzz data flags len idx ps
    = Some (of_nat n, pdu_flags flags, ?ps\<lparr>ps_pos := base + of_nat n, ps_seq := base + of_nat n\<rparr>)"
    using assms flush_FT_PAF [of ?ps n len flags] by (simp add: s5_paf_eval_def check_loop.simps)
  then show ?thesis using assms by (auto simp: boundary_def)
qed

lemma check_step:
  assumes msg: "message flags p" and ps: "scanned flags p k base ps"
    and s: "take (length s) p = take (length p) s" "k < length s" "o' \<le> k" "length s < unat (mfp + fuzz)" "length s < 2 ^ 31" "length p < 2 ^ 31"
  shows "\<exists>ps'. s5_paf_check [cb] mfp fuzz (drop o' s) (of_nat (length s)) (base + of_nat o') flags ps
      = Some (if length p \<le> length s then (of_nat (length p), pdu_flags flags, ps') else (0, flags, ps'))
    \<and> (if length p \<le> length s then boundary flags (base + of_nat (length p)) ps' else scanned flags p (length s) base ps')"
proof -
  let ?l = "length s"
  let ?d = "drop k s"
  let ?ps = "ps\<lparr>ps_seq := base + of_nat ?l\<rparr>"
  let ?r = "\<lambda>ps'. Some (if length p \<le> ?l then (of_nat (length p), pdu_flags flags, ps') else (0, flags, ps'))"
  have k: "k < length p" "0 < length p" and st: "ps_pos ps = base" "ps_seq ps = base + of_nat k" "cb_mask ps = 1" "tot ps = 0"
    using ps by (auto simp: scanned_def)
  have fuzz: "\<not> mfp + fuzz \<le> of_nat ?l" "\<not> mfp + fuzz < of_nat ?l"
    using s by (simp_all add: word_le_nat_alt word_less_nat_alt unat_of_nat)
  have le: "(of_nat (length p) :: u32) \<le> of_nat ?l \<longleftrightarrow> length p \<le> ?l" "(of_nat k :: u32) < of_nat ?l" "(of_nat ?l :: u32) \<noteq> 0"
    using s k of_nat_u32_less [of 0 ?l] by (auto simp: of_nat_u32_le of_nat_u32_less)
  have idx: "(of_nat ?l :: u32) - of_nat (length ?d) = of_nat k" using s by simp
  have seqs: "base + of_nat o' + of_nat (length (drop o' s)) = base + of_nat ?l"
    "base + of_nat k + of_nat (length (drop k s)) = base + of_nat ?l"
    "base + of_nat k - (base + of_nat o') = (of_nat (k - o') :: u32)" using s by simp_all
  have "unat (of_nat k - of_nat o' :: u32) = unat (of_nat (k - o') :: u32)" using s by simp
  then have un: "unat (of_nat k - of_nat o' :: u32) + o' = k" using s by (simp only: unat_of_nat) simp
  have nst: "paf ps \<noteq> PAF_START" using ps by (auto simp: scanned_def)
  have "s5_paf_check [cb] mfp fuzz (drop o' s) (of_nat ?l) (base + of_nat o') flags ps
      = check_loop (length ?d + 2) [cb] mfp fuzz ?d flags (of_nat ?l) (of_nat k) (ps\<lparr>ps_seq := base + of_nat k + of_nat (length ?d)\<rparr>)"
  proof (cases "o' = k")
    case True
    then show ?thesis using s nst st SEQ_near [of o' k base] SEQ_near [of ?l k base]
      by (simp add: s5_paf_check_def seqs idx del: length_drop)
  next
    case False
    then show ?thesis using s nst st SEQ_near [of o' k base] SEQ_near [of ?l k base] idx
      by (simp add: s5_paf_check_def seqs un idx del: length_drop)
  qed
  also have "base + of_nat k + of_nat (length ?d) = base + of_nat ?l" using s by simp
  finally have chk: "s5_paf_check [cb] mfp fuzz (drop o' s) (of_nat ?l) (base + of_nat o') flags ps
      = check_loop (Suc (Suc (length ?d))) [cb] mfp fuzz ?d flags (of_nat ?l) (of_nat k) ?ps" by simp
  consider (search) "paf ps = PAF_SEARCH" "good (user ps)" | (flush) "paf ps = PAF_FLUSH" "fpt ps = of_nat (length p)" "fresh (user ps) flags"
    using ps by (auto simp: scanned_def)
  then show ?thesis
  proof cases
    case flush
    show ?thesis
    proof (cases "length p \<le> ?l")
      case True
      then show ?thesis
        using check_flush [of ?ps "length p" "of_nat ?l" base flags "Suc (length ?d)" "[cb]" mfp fuzz ?d "of_nat k"] flush st k le s(6)
        by (simp add: chk conj_commute del: length_drop length_greater_0_conv)
    next
      case False
      then show ?thesis using flush st k le fuzz 
        by (simp add: chk check_wait [OF eval_FLUSH_ahead] scanned_def)
    qed
  next
    case search
    have tk: "take k p = take k s" using s(1,2) k by (metis less_imp_le min.absorb1 take_take)
    have all: "outcome (cb None (take k s @ b) flags 0) = shift_by k (outcome (cb (user ps) b flags g))
        \<and> good (fst (snd (cb None (take k s @ b) flags 0))) = good (fst (snd (cb (user ps) b flags g)))" for b g
      using ps search(1) by (simp add: scanned_def tk)
    have sp: "outcome (cb None s flags 0) = shift_by k (outcome (cb (user ps) ?d flags (fpt ps)))"
      and gd: "good (fst (snd (cb None s flags 0))) = good (fst (snd (cb (user ps) ?d flags (fpt ps))))"
      using all [of ?d "fpt ps"] by simp_all
    obtain r u f where cb: "cb (user ps) ?d flags (fpt ps) = (r, u, f)" by (cases "cb (user ps) ?d flags (fpt ps)")
    have "good u" using gd stream_outcome(2) [OF msg s(1)] cb by simp
    show ?thesis
    proof (cases "r = PAF_SEARCH")
      case True
      have "length s < length p" using sp stream_outcome(1) [OF msg s(1)] True cb
        by (auto simp: shift_outcome_FLUSH outcome_def split: prod.splits)
      moreover have "take (length s) p = s" using s(1) \<open>length s < length p\<close> by simp
      moreover have "outcome (cb None (s @ b) flags 0) = shift_by (length s) (outcome (cb u b flags g))
        \<and> good (fst (snd (cb None (s @ b) flags 0))) = good (fst (snd (cb u b flags g)))" for b g
      proof -
        have "take k s @ ?d @ b = s @ b" by simp
        then have "outcome (cb None (s @ b) flags 0) = shift_by k (outcome (cb (user ps) (?d @ b) flags (fpt ps)))
          \<and> good (fst (snd (cb None (s @ b) flags 0))) = good (fst (snd (cb (user ps) (?d @ b) flags (fpt ps))))"
          using all [of "?d @ b" "fpt ps"] by (simp only:)
        moreover have "length ?d + k = length s" using s(2) by simp
        ultimately show ?thesis
          using split [of "user ps" ?d flags "fpt ps" u f b g] split_state [of "user ps" ?d flags "fpt ps" u f b g] cb True \<open>good u\<close>
          by (simp only: shift_by_add)
      qed
      moreover have "check_loop (Suc (Suc (length ?d))) [cb] mfp fuzz ?d flags (of_nat ?l) (of_nat k) ?ps
          = Some (0, flags, ?ps\<lparr>user := u, fpt := f, paf := PAF_SEARCH\<rparr>)"
        by (rule check_wait [OF eval_SEARCH [OF _ _ callback_search]]) (use cb True st search le fuzz in simp_all)
      ultimately show ?thesis using st \<open>good u\<close> by (simp add: chk scanned_def)
    next
      case False
      then have r: "r = PAF_FLUSH" "f + of_nat k = of_nat (length p)"
        using sp stream_outcome(1) [OF msg s(1)] cb
        by (auto simp: outcome_def shift_by_def split: prod.splits if_splits)
      have "fresh u flags" using fresh_flush cb r \<open>good u\<close> by blast
      have c: "s5_paf_callback [cb] ?d flags (of_nat ?l) (of_nat k) ?ps
        = (let ps = ?ps\<lparr>user := u, fpt := of_nat (length p), paf := PAF_FLUSH\<rparr>
           in if length p \<le> ?l then Some (True, of_nat (length p), ps) else Some (False, of_nat ?l, ps))"
        using callback_flush [of ?ps ?d flags u f "of_nat ?l" "of_nat k"] cb r st le by (simp add: Let_def)
      show ?thesis
      proof (cases "length p \<le> ?l")
        case True
        then have "s5_paf_eval [cb] mfp fuzz ?d flags (of_nat ?l) (of_nat k) ?ps
            = Some (True, FT_NOP, of_nat (length p), ?ps\<lparr>user := u, fpt := of_nat (length p), paf := PAF_FLUSH\<rparr>)"
          by (intro eval_SEARCH) (use search le c in \<open>simp_all add: Let_def\<close>)
        from check_more [OF this] show ?thesis
          using check_flush [of "?ps\<lparr>user := u, fpt := of_nat (length p), paf := PAF_FLUSH\<rparr>" "length p" "of_nat ?l" base flags
              "length ?d" "[cb]" mfp fuzz _ "of_nat (length p)"] st k le s(6) \<open>fresh u flags\<close> True
          by (simp add: chk conj_commute)
      next
        case False
        then have "check_loop (Suc (Suc (length ?d))) [cb] mfp fuzz ?d flags (of_nat ?l) (of_nat k) ?ps
            = Some (0, flags, ?ps\<lparr>user := u, fpt := of_nat (length p), paf := PAF_FLUSH\<rparr>)"
          by (intro check_wait [OF eval_SEARCH]) (use search le c in \<open>simp_all add: Let_def\<close>)
        then show ?thesis using st False \<open>fresh u flags\<close> by (simp add: chk scanned_def)
      qed
    qed
  qed
qed


lemma ips_loop_exact:
  assumes "message flags p" and "scanned flags p k base ps" and "length s0 \<le> k" and "k \<le> length (s0 @ concat xs)"
    and "take (length (s0 @ concat xs)) p = take (length p) (s0 @ concat xs)" and "\<forall>x\<in>set xs. x \<noteq> []"
    and "length (s0 @ concat xs) < unat (mfp + fuzz)" and "length (s0 @ concat xs) < 2 ^ 31" and "length p < 2 ^ 31" and "flags \<noteq> 0"
    and "avail = of_nat (length (s0 @ concat xs))"
  shows "\<exists>ps'. pdu_ips_loop [cb] mfp fuzz avail False (segments_at base (length s0) xs) (of_nat (length s0)) flags ps
      = Some (if length p \<le> length (s0 @ concat xs) then (of_nat (length p), pdu_flags flags, ps') else (0, flags, ps'))
    \<and> (if length p \<le> length (s0 @ concat xs) then boundary flags (base + of_nat (length p)) ps'
       else scanned flags p (length (s0 @ concat xs)) base ps')"
  using assms
proof (induction xs arbitrary: s0 k ps)
  case Nil
  then show ?case by (auto simp: scanned_def)
next
  case (Cons x xs)
  let ?s = "s0 @ x" and ?all = "s0 @ concat (x # xs)"
  have all: "?s @ concat xs = ?all" by simp
  have lens: "length ?s \<le> length ?all" "length s0 < length ?all" "length x \<noteq> 0" using Cons.prems by auto
  have avail: "(of_nat (length s0) :: u32) < avail" using of_nat_u32_less [of "length s0" "length ?all"] lens Cons.prems(8,11) by simp
  have nst: "paf ps \<noteq> PAF_START" using Cons.prems by (auto simp: scanned_def)
  have sq: "SEQ_LEQ (base + of_nat (length ?s)) (ps_seq ps) \<longleftrightarrow> length ?s \<le> k"
    using SEQ_near(2) [of "length ?s" k base] Cons.prems lens by (auto simp: scanned_def)
  have seg: "segments_at base (length s0) (x # xs) = (base + of_nat (length s0), x) # segments_at base (length ?s) xs" by simp
  have ih: "length ?s \<le> k' \<Longrightarrow> k' \<le> length ?all \<Longrightarrow> scanned flags p k' base ps1 \<Longrightarrow>
    \<exists>ps'. pdu_ips_loop [cb] mfp fuzz avail False (segments_at base (length ?s) xs) (of_nat (length ?s)) flags ps1
      = Some (if length p \<le> length ?all then (of_nat (length p), pdu_flags flags, ps') else (0, flags, ps'))
    \<and> (if length p \<le> length ?all then boundary flags (base + of_nat (length p)) ps' else scanned flags p (length ?all) base ps')" for k' ps1
    using Cons.IH [of k' ps1 ?s] Cons.prems unfolding all by simp
  have tq: "(of_nat (length s0) :: u32) + of_nat (length x) = of_nat (length ?s)"
    "base + of_nat (length s0) + of_nat (length x) = base + of_nat (length ?s)" by simp_all
  have loop: "pdu_ips_loop [cb] mfp fuzz avail False (segments_at base (length s0) (x # xs)) (of_nat (length s0)) flags ps
    = (if length ?s \<le> k then pdu_ips_loop [cb] mfp fuzz avail False (segments_at base (length ?s) xs) (of_nat (length ?s)) flags ps
       else case s5_paf_check [cb] mfp fuzz x (of_nat (length ?s)) (base + of_nat (length s0)) flags ps of
              None \<Rightarrow> None
            | Some (fp, flags, ps) \<Rightarrow>
                if 0 < fp then Some (fp, flags, ps)
                else pdu_ips_loop [cb] mfp fuzz avail False (segments_at base (length ?s) xs) (of_nat (length ?s)) flags ps)"
    unfolding seg pdu_ips_loop.simps Let_def tq using avail Cons.prems(10) nst sq by (simp del: length_append)
  show ?case
  proof (cases "length ?s \<le> k")
    case True
    then show ?thesis unfolding loop using ih [of k ps] Cons.prems(2,4) by (simp del: length_append)
  next
    case False
    have "take (length ?s) p = take (length p) ?s"
      using arg_cong [OF Cons.prems(5), of "take (length ?s)"] lens by (simp add: min_def split: if_splits)
    then have "\<exists>ps'. s5_paf_check [cb] mfp fuzz (drop (length s0) ?s) (of_nat (length ?s)) (base + of_nat (length s0)) flags ps
      = Some (if length p \<le> length ?s then (of_nat (length p), pdu_flags flags, ps') else (0, flags, ps'))
      \<and> (if length p \<le> length ?s then boundary flags (base + of_nat (length p)) ps' else scanned flags p (length ?s) base ps')"
      using Cons.prems(3,7,8,9) False lens by (intro check_step [OF Cons.prems(1,2)]) simp_all
    then obtain ps1 where c: "s5_paf_check [cb] mfp fuzz x (of_nat (length ?s)) (base + of_nat (length s0)) flags ps
      = Some (if length p \<le> length ?s then (of_nat (length p), pdu_flags flags, ps1) else (0, flags, ps1))"
      and ps1: "if length p \<le> length ?s then boundary flags (base + of_nat (length p)) ps1 else scanned flags p (length ?s) base ps1"
      by auto
    show ?thesis
    proof (cases "length p \<le> length ?s")
      case True
      have "(0 :: u32) < of_nat (length p)" using Cons.prems(2,9) of_nat_u32_less [of 0 "length p"] by (auto simp: scanned_def)
      then show ?thesis unfolding loop c using True ps1 False lens(1) by (simp del: length_append)
    next
      case F: False
      then show ?thesis unfolding loop c using ps1 False lens(1) ih [of "length ?s" ps1] by (simp del: length_append)
    qed
  qed
qed

text \<open>The state of a direction with the bytes \<open>s\<close> queued, all of them scanned, the rest of the stream being the messages \<open>ms\<close>.\<close>

definition queued :: "u32 \<Rightarrow> u8 list list \<Rightarrow> u8 list \<Rightarrow> u32 \<Rightarrow> 'u PAF_State \<Rightarrow> bool" where
  "queued flags ms s base ps \<longleftrightarrow>
     s = [] \<and> (ps = s5_paf_setup 1 \<or> boundary flags base ps)
     \<or> (\<exists>p ms'. ms = p # ms' \<and> length s < length p \<and> s = take (length s) p \<and> scanned flags p (length s) base ps)"

lemma flush_setup:
  assumes "x \<noteq> []" and "length x < 2 ^ 31" and "flags \<noteq> 0" and "0 < avail"
  shows "pdu_ips_loop cbs mfp fuzz avail False ((base, x) # segs) 0 flags (s5_paf_setup 1)
    = pdu_ips_loop cbs mfp fuzz avail False ((base, x) # segs) 0 flags ((s5_paf_setup 1)\<lparr>ps_seq := base, ps_pos := base, paf := PAF_SEARCH\<rparr>)"
  using SEQ_near [of 0 0 base] SEQ_near [of "length x" 0 base] assms
  by (auto simp: s5_paf_check_def s5_paf_setup_def Let_def)

lemma boundary_setup: "boundary flags base ((s5_paf_setup 1)\<lparr>ps_seq := base, ps_pos := base, paf := PAF_SEARCH\<rparr>)"
  by (simp add: boundary_def s5_paf_setup_def fresh_start)

lemma flush_scanned:
  assumes "message flags p" and "scanned flags p k base ps" and "k \<le> length (concat q)"
    and "take (length (concat q)) p = take (length p) (concat q)" and "\<forall>x\<in>set q. x \<noteq> []"
    and "length (concat q) < unat (mfp + fuzz)" and "length (concat q) < 2 ^ 31" and "length p < 2 ^ 31" and "flags \<noteq> 0"
  shows "\<exists>ps'. pdu_ips_loop [cb] mfp fuzz (of_nat (length (concat q))) False (segments_at base 0 q) 0 flags ps
      = Some (if length p \<le> length (concat q) then (of_nat (length p), pdu_flags flags, ps') else (0, flags, ps'))
    \<and> (if length p \<le> length (concat q) then queued flags ms [] (base + of_nat (length p)) ps'
       else queued flags (p # ms) (concat q) base ps')"
proof -
  have "\<exists>ps'. pdu_ips_loop [cb] mfp fuzz (of_nat (length (concat q))) False (segments_at base 0 q) 0 flags ps
      = Some (if length p \<le> length (concat q) then (of_nat (length p), pdu_flags flags, ps') else (0, flags, ps'))
    \<and> (if length p \<le> length (concat q) then boundary flags (base + of_nat (length p)) ps' else scanned flags p (length (concat q)) base ps')"
    using ips_loop_exact [OF assms(1,2), of "[]" q mfp fuzz "of_nat (length (concat q))", unfolded append_Nil list.size(3) semiring_1_class.of_nat_0,
        OF le0 assms(3-9) refl] .
  then obtain ps' where ps': "pdu_ips_loop [cb] mfp fuzz (of_nat (length (concat q))) False (segments_at base 0 q) 0 flags ps
      = Some (if length p \<le> length (concat q) then (of_nat (length p), pdu_flags flags, ps') else (0, flags, ps'))"
    "if length p \<le> length (concat q) then boundary flags (base + of_nat (length p)) ps' else scanned flags p (length (concat q)) base ps'"
    by blast
  then show ?thesis using assms(4) by (intro exI [of _ ps']) (auto simp: queued_def)
qed

lemma flush_queued:
  assumes "message flags p" and "queued flags (p # ms) s0 base ps" and "length s0 \<le> length (concat q)" and "q \<noteq> []"
    and "take (length (concat q)) p = take (length p) (concat q)" and "\<forall>x\<in>set q. x \<noteq> []"
    and "length (concat q) < unat (mfp + fuzz)" and "length (concat q) < 2 ^ 31" and "length p < 2 ^ 31" and "flags \<noteq> 0"
  shows "\<exists>ps'. flush_pdu_ips [cb] mfp fuzz (of_nat (length (concat q))) False (segments_at base 0 q) flags ps
      = Some (if length p \<le> length (concat q) then (of_nat (length p), pdu_flags flags, ps') else (0, flags, ps'))
    \<and> (if length p \<le> length (concat q) then queued flags ms [] (base + of_nat (length p)) ps'
       else queued flags (p # ms) (concat q) base ps')"
proof -
  obtain x q' where q: "q = x # q'" "x \<noteq> []" using assms(4,6) by (cases q) auto
  have av: "(0 :: u32) < of_nat (length (concat q))" using of_nat_u32_less [of 0 "length (concat q)"] assms(8) q by simp
  have "\<exists>k ps0. k \<le> length (concat q) \<and> scanned flags p k base ps0
    \<and> pdu_ips_loop [cb] mfp fuzz (of_nat (length (concat q))) False (segments_at base 0 q) 0 flags ps
      = pdu_ips_loop [cb] mfp fuzz (of_nat (length (concat q))) False (segments_at base 0 q) 0 flags ps0"
  proof -
    consider (new) "ps = s5_paf_setup 1" | (start) "boundary flags base ps" | (mid) "scanned flags p (length s0) base ps"
      using assms(2) by (auto simp: queued_def)
    then show ?thesis
    proof cases
      case new
      let ?ps = "(s5_paf_setup 1)\<lparr>ps_seq := base, ps_pos := base, paf := PAF_SEARCH\<rparr> :: 'u PAF_State"
      have "pdu_ips_loop [cb] mfp fuzz (of_nat (length (concat q))) False (segments_at base 0 q) 0 flags ps
          = pdu_ips_loop [cb] mfp fuzz (of_nat (length (concat q))) False (segments_at base 0 q) 0 flags ?ps"
        using flush_setup [of x flags "of_nat (length (concat q))" "[cb]" mfp fuzz base "segments_at base (length x) q'"] av q assms(8,10) new
        by simp
      then show ?thesis using start_scanned [OF assms(1) boundary_setup, of base] by blast
    next
      case start
      then show ?thesis using start_scanned [OF assms(1) start] by blast
    next
      case mid
      then show ?thesis using assms(3) by blast
    qed
  qed
  then obtain k ps0 where k: "k \<le> length (concat q)" "scanned flags p k base ps0"
    and eq: "pdu_ips_loop [cb] mfp fuzz (of_nat (length (concat q))) False (segments_at base 0 q) 0 flags ps
      = pdu_ips_loop [cb] mfp fuzz (of_nat (length (concat q))) False (segments_at base 0 q) 0 flags ps0" by blast
  show ?thesis unfolding flush_pdu_ips_def eq
    using flush_scanned [OF assms(1) k(2) k(1), of mfp fuzz ms] assms by simp
qed

lemma drain_exact:
  assumes "\<forall>p\<in>set ms. message flags p \<and> length p < 2 ^ 31" and "queued flags ms s0 base ps" and "length s0 \<le> length (concat q)"
    and "concat q = take (length (concat q)) (concat ms)" and "\<forall>x\<in>set q. x \<noteq> []"
    and "length (concat q) < unat (mfp + fuzz)" and "length (concat q) < 2 ^ 31" and "flags \<noteq> 0" and "length (concat q) < n"
  shows "\<exists>base' ps'. paf_drain n [cb] mfp fuzz flags base q ps
      = Some (ended ms (length (concat q)), base', drop_bytes (sum_list (ended ms (length (concat q)))) q, ps')
    \<and> queued flags (drop (length (ended ms (length (concat q)))) ms) (drop (sum_list (ended ms (length (concat q)))) (concat q)) base' ps'"
  using assms
proof (induction n arbitrary: ms s0 base ps q)
  case (Suc n)
  show ?case
  proof (cases q)
    case Nil
    have "ended ms 0 = []" using Suc.prems(1) by (cases ms) (auto simp: message_def)
    then show ?thesis using Nil Suc.prems by (auto simp: flush_pdu_ips_def)
  next
    case (Cons x q')
    then obtain p ms' where ms: "ms = p # ms'" using Suc.prems(4,5) by (cases ms) auto
    have p: "message flags p" "length p < 2 ^ 31" "0 < length p" using Suc.prems(1) ms by (auto simp: message_def)
    have pre: "take (length (concat q)) p = take (length p) (concat q)"
      using arg_cong [OF Suc.prems(4), of "take (length p)"] by (simp add: ms min_def split: if_splits)
    have "\<exists>ps'. flush_pdu_ips [cb] mfp fuzz (of_nat (length (concat q))) False (segments_at base 0 q) flags ps
        = Some (if length p \<le> length (concat q) then (of_nat (length p), pdu_flags flags, ps') else (0, flags, ps'))
      \<and> (if length p \<le> length (concat q) then queued flags ms' [] (base + of_nat (length p)) ps' else queued flags (p # ms') (concat q) base ps')"
      by (rule flush_queued [OF p(1) Suc.prems(2) [unfolded ms] Suc.prems(3) _ pre Suc.prems(5,6,7) p(2) Suc.prems(8)]) (simp add: Cons)
    then obtain ps' where ps': "flush_pdu_ips [cb] mfp fuzz (of_nat (length (concat q))) False (segments_at base 0 q) flags ps
        = Some (if length p \<le> length (concat q) then (of_nat (length p), pdu_flags flags, ps') else (0, flags, ps'))"
      "if length p \<le> length (concat q) then queued flags ms' [] (base + of_nat (length p)) ps' else queued flags (p # ms') (concat q) base ps'"
      by blast
    show ?thesis
    proof (cases "length p \<le> length (concat q)")
      case True
      let ?q = "drop_bytes (length p) q"
      have len: "length (concat ?q) = length (concat q) - length p" by (simp add: concat_drop_bytes)
      have u: "(of_nat (length p) :: u32) \<noteq> 0" "unat (of_nat (length p) :: u32) = length p"
        using p of_nat_u32_less [of 0 "length p"] by (auto simp: unat_of_nat)
      have pre': "concat ?q = take (length (concat ?q)) (concat ms')"
        using arg_cong [OF Suc.prems(4), of "drop (length p)"] True by (simp add: ms concat_drop_bytes min_def)
      have "\<exists>base' ps''. paf_drain n [cb] mfp fuzz flags (base + of_nat (length p)) ?q ps'
          = Some (ended ms' (length (concat ?q)), base', drop_bytes (sum_list (ended ms' (length (concat ?q)))) ?q, ps'')
        \<and> queued flags (drop (length (ended ms' (length (concat ?q)))) ms') (drop (sum_list (ended ms' (length (concat ?q)))) (concat ?q)) base' ps''"
      proof (rule Suc.IH [of ms' "[]" "base + of_nat (length p)" ps' ?q])
        show "\<forall>p\<in>set ms'. message flags p \<and> length p < 2 ^ 31" using Suc.prems(1) ms by simp
        show "queued flags ms' [] (base + of_nat (length p)) ps'" using ps'(2) True by simp
        show "\<forall>x\<in>set ?q. x \<noteq> []" using drop_bytes_nonempty Suc.prems(5) by blast
        show "length (concat ?q) < unat (mfp + fuzz)" "length (concat ?q) < 2 ^ 31" "length (concat ?q) < n"
          using len Suc.prems(6,7,9) p(3) True by linarith+
      qed (use Suc.prems(8) pre' in simp_all)
      then show ?thesis using ps'(1) True u
        by (auto simp: ms len concat_drop_bytes drop_bytes_add ac_simps)
    next
      case False
      then show ?thesis using ps' drop_bytes_0 [OF Suc.prems(5)] by (auto simp: ms)
    qed
  qed
qed simp

lemma stream_exact:
  assumes "\<forall>p\<in>set ms. message flags p" and "\<forall>p\<in>set ms. \<forall>x\<in>set xs. length p + length x \<le> unat (mfp + fuzz)" and "unat (mfp + fuzz) \<le> 2 ^ 31"
    and "queued flags ms (concat q) base ps" and "concat q @ concat xs = take (length (concat q @ concat xs)) (concat ms)"
    and "\<forall>x\<in>set (q @ xs). x \<noteq> []" and "flags \<noteq> 0"
  shows "paf_stream [cb] mfp fuzz flags base q ps xs = Some (ended ms (length (concat q @ concat xs)))"
  using assms
proof (induction xs arbitrary: ms q base ps)
  case Nil
  have "ended ms (length (concat q)) = []" using Nil.prems by (cases ms) (auto simp: queued_def message_def)
  then show ?case by simp
next
  case (Cons x xs)
  let ?l = "length (concat (q @ [x]))"
  let ?e = "ended ms ?l"
  let ?ms = "drop (length ?e) ms" and ?q = "drop_bytes (sum_list ?e) (q @ [x])"
  have x: "x \<noteq> []" using Cons.prems(6) by simp
  have small: "?l < unat (mfp + fuzz)"
  proof -
    have "\<exists>p\<in>set ms. length (concat q) < length p"
    proof (cases "concat q = []")
      case True
      have "ms \<noteq> []" using Cons.prems(5) x by auto
      then obtain p where "p \<in> set ms" by (cases ms) auto
      then show ?thesis using Cons.prems(1) unfolding True by (auto simp: message_def intro!: bexI [of _ p])
    qed (use Cons.prems(4) in \<open>auto simp: queued_def\<close>)
    then obtain p where "p \<in> set ms" "length (concat q) < length p" by blast
    then show ?thesis using Cons.prems(2) by (force dest: bspec)
  qed
  have short: "\<forall>p\<in>set ms. message flags p \<and> length p < 2 ^ 31"
  proof
    fix p assume "p \<in> set ms"
    then have "length p + length x \<le> unat (mfp + fuzz)" using Cons.prems(2) by simp
    then have "length p < 2 ^ 31" using Cons.prems(3) x by (cases x) auto
    then show "message flags p \<and> length p < 2 ^ 31" using Cons.prems(1) \<open>p \<in> set ms\<close> by simp
  qed
  have pre: "concat (q @ [x]) = take ?l (concat ms)"
    using arg_cong [OF Cons.prems(5), of "take ?l"] by (simp add: min_def split: if_splits)
  obtain base' ps' where d: "paf_drain (length (concat q) + length x + 1) [cb] mfp fuzz flags base (q @ [x]) ps = Some (?e, base', ?q, ps')"
    "queued flags ?ms (concat ?q) base' ps'"
  proof -
    have "length (concat q) \<le> ?l" "\<forall>x\<in>set (q @ [x]). x \<noteq> []" "?l < 2 ^ 31" "?l < length (concat q) + length x + 1"
      using Cons.prems(3,6) small by auto
    from drain_exact [OF short Cons.prems(4) this(1) pre this(2) small this(3) Cons.prems(7) this(4)]
    obtain base' ps' where "paf_drain (length (concat q) + length x + 1) [cb] mfp fuzz flags base (q @ [x]) ps = Some (?e, base', ?q, ps')"
      "queued flags ?ms (drop (sum_list ?e) (concat (q @ [x]))) base' ps'" by blast
    then show thesis using that [of base' ps'] by (simp only: concat_drop_bytes)
  qed
  have sum: "sum_list ?e \<le> ?l" by (rule ended_le)
  have all: "concat q @ concat (x # xs) = concat (q @ [x]) @ concat xs" by simp
  have "paf_stream [cb] mfp fuzz flags base' ?q ps' xs = Some (ended ?ms (length (concat ?q @ concat xs)))"
  proof (rule Cons.IH)
    show "\<forall>p\<in>set ?ms. message flags p" using Cons.prems(1) by (auto dest: in_set_dropD)
    show "\<forall>p\<in>set ?ms. \<forall>y\<in>set xs. length p + length y \<le> unat (mfp + fuzz)"
      using Cons.prems(2) by (auto dest: in_set_dropD)
    show "concat ?q @ concat xs = take (length (concat ?q @ concat xs)) (concat ?ms)"
      using arg_cong [OF Cons.prems(5) [unfolded all], of "drop (sum_list ?e)"] sum
      by (simp add: ended_concat concat_drop_bytes drop_take min_def)
    show "\<forall>y\<in>set (?q @ xs). y \<noteq> []"
      using drop_bytes_nonempty [of "q @ [x]" "sum_list ?e"] Cons.prems(6) by auto
  qed (use Cons.prems d in auto)
  moreover have "ended ms (length (concat q @ concat (x # xs))) = ?e @ ended ?ms (length (concat ?q @ concat xs))"
    unfolding all length_append [of _ "concat xs"] concat_drop_bytes length_drop by (rule ended_more)
  ultimately show ?case using d(1) by simp
qed

end

end
