(* ===== verification/PduPaf.thy ===== *)
theory PduPaf
  imports Paf
begin

text \<open>
  The scanners of the dynamic preprocessors for protocol-aware flushing: Modbus (\<open>modbus_paf.c\<close>), DNP3
  (\<open>dnp3_paf.c\<close>) and DCE/RPC over SMB and over TCP (\<open>dce2_paf.c\<close>). Each walks over the bytes of a
  segment and keeps a small state from one call to the next. The allocation of the state succeeds. What
  the DCE/RPC scanners ask of other modules (session data, target-based protocol) are parameters.
\<close>

section \<open>Modbus\<close>

datatype modbus_paf_state = TRANS_ID_1 | TRANS_ID_2 | PROTO_ID_1 | PROTO_ID_2 | LENGTH_1 | LENGTH_2 | SET_FLUSH

record modbus_paf_data =
  mb_state :: modbus_paf_state
  modbus_length :: u16

definition modbus_init :: modbus_paf_data where
  "modbus_init = \<lparr>mb_state = TRANS_ID_1, modbus_length = 0\<rparr>"

text \<open>The loop from byte \<open>n\<close> on. The alert on a bad length is the last component.\<close>

fun modbus_loop :: "modbus_paf_data \<Rightarrow> u8 list \<Rightarrow> nat \<Rightarrow> u32 \<Rightarrow> PAF_Status \<times> modbus_paf_data \<times> u32 \<times> bool" where
  "modbus_loop d [] n fp = (PAF_SEARCH, d, fp, False)"
| "modbus_loop d (c # xs) n fp =
     (case mb_state d of
        TRANS_ID_1 \<Rightarrow> modbus_loop (d\<lparr>mb_state := TRANS_ID_2\<rparr>) xs (n + 1) fp
      | TRANS_ID_2 \<Rightarrow> modbus_loop (d\<lparr>mb_state := PROTO_ID_1\<rparr>) xs (n + 1) fp
      | PROTO_ID_1 \<Rightarrow> modbus_loop (d\<lparr>mb_state := PROTO_ID_2\<rparr>) xs (n + 1) fp
      | PROTO_ID_2 \<Rightarrow> modbus_loop (d\<lparr>mb_state := LENGTH_1\<rparr>) xs (n + 1) fp
      | LENGTH_1 \<Rightarrow> modbus_loop (d\<lparr>modbus_length := modbus_length d OR push_bit 8 (ucast c), mb_state := LENGTH_2\<rparr>) xs (n + 1) fp
      | LENGTH_2 \<Rightarrow> modbus_loop (d\<lparr>modbus_length := modbus_length d OR ucast c, mb_state := SET_FLUSH\<rparr>) xs (n + 1) fp
      | SET_FLUSH \<Rightarrow>
          (PAF_FLUSH, \<lparr>mb_state = TRANS_ID_1, modbus_length = 0\<rparr>, ucast (modbus_length d) + of_nat n,
             modbus_length d < 2 \<or> 254 < modbus_length d))"

definition ModbusPaf :: "modbus_paf_data paf_callback" where
  "ModbusPaf usr data flags fp =
     (case modbus_loop (case usr of None \<Rightarrow> modbus_init | Some d \<Rightarrow> d) data 0 fp of
        (st, d, fp, alert) \<Rightarrow> (st, Some d, fp))"

section \<open>DNP3\<close>

datatype dnp3_paf_state = START_1 | START_2 | DNP3_LENGTH | DNP3_SET_FLUSH

record dnp3_paf_data =
  dn_state :: dnp3_paf_state
  dnp3_length :: u8
  real_length :: u16

definition dnp3_init :: dnp3_paf_data where
  "dnp3_init = \<lparr>dn_state = START_1, dnp3_length = 0, real_length = 0\<rparr>"

definition dnp3_real_length :: "u8 \<Rightarrow> u16" where
  "dnp3_real_length len =
     (let user_data = ucast len - 5 :: u16;
          num_crcs = 1 + user_data div 16 + (if user_data mod 16 \<noteq> 0 then 1 else 0)
      in ucast len + 2 * num_crcs)"

fun dnp3_loop :: "dnp3_paf_data \<Rightarrow> u8 list \<Rightarrow> nat \<Rightarrow> u32 \<Rightarrow> PAF_Status \<times> dnp3_paf_data \<times> u32" where
  "dnp3_loop d [] n fp = (PAF_SEARCH, d, fp)"
| "dnp3_loop d (c # xs) n fp =
     (case dn_state d of
        START_1 \<Rightarrow> dnp3_loop (if c = 0x05 then d\<lparr>dn_state := START_2\<rparr> else d) xs (n + 1) fp
      | START_2 \<Rightarrow> dnp3_loop (if c = 0x64 then d\<lparr>dn_state := DNP3_LENGTH\<rparr> else d\<lparr>dn_state := START_1\<rparr>) xs (n + 1) fp
      | DNP3_LENGTH \<Rightarrow>
          (let d = d\<lparr>dnp3_length := c\<rparr>
           in if c < 5 then (PAF_ABORT, d, fp)
              else dnp3_loop (d\<lparr>real_length := dnp3_real_length c, dn_state := DNP3_SET_FLUSH\<rparr>) xs (n + 1) fp)
      | DNP3_SET_FLUSH \<Rightarrow> (PAF_FLUSH, d\<lparr>dn_state := START_1\<rparr>, ucast (real_length d) + of_nat n))"

definition DNP3Paf :: "dnp3_paf_data paf_callback" where
  "DNP3Paf usr data flags fp =
     (case dnp3_loop (case usr of None \<Rightarrow> dnp3_init | Some d \<Rightarrow> d) data 0 fp of (st, d, fp) \<Rightarrow> (st, Some d, fp))"

section \<open>DCE/RPC over SMB\<close>

text \<open>The states 0 to 3 read a NetBIOS header, 4 to 7 the SMB identifier behind it.\<close>

record DCE2_PafSmbState =
  smb_state :: nat
  nb_hdr :: u64

definition smb_init :: DCE2_PafSmbState where
  "smb_init = \<lparr>smb_state = 0, nb_hdr = 0\<rparr>"

definition DCE2_PafSmbIsValidNetbiosHdr :: "u32 \<Rightarrow> bool \<Rightarrow> bool" where
  "DCE2_PafSmbIsValidNetbiosHdr nb junk =
     (let type = ucast (drop_bit 24 nb) :: u8; b = ucast (drop_bit 16 (nb AND 0x00ff0000)) :: u8
      in (if junk then type = 0x00 else type \<in> {0x00, 0x81, 0x82, 0x83, 0x84, 0x85}) \<and> (b = 0 \<or> b = 1))"

definition NbssLen :: "u32 \<Rightarrow> u32" where
  "NbssLen nb = push_bit 16 (drop_bit 16 nb AND 1) OR (nb AND 0xffff)"

definition SMB_PAF_SHIFT :: "u64 \<Rightarrow> u8 \<Rightarrow> u64" where
  "SMB_PAF_SHIFT x c = push_bit 8 x OR ucast c"

fun smb_loop :: "DCE2_PafSmbState \<Rightarrow> u8 list \<Rightarrow> nat \<Rightarrow> u32 \<Rightarrow> PAF_Status \<times> DCE2_PafSmbState \<times> u32" where
  "smb_loop s [] n fp = (PAF_SEARCH, s, fp)"
| "smb_loop s (c # xs) n fp =
     (let h = SMB_PAF_SHIFT (nb_hdr s) c
      in if smb_state s = 0 then smb_loop (s\<lparr>nb_hdr := ucast c, smb_state := 1\<rparr>) xs (n + 1) fp
         else if smb_state s = 3 then
           if DCE2_PafSmbIsValidNetbiosHdr (ucast h) False then
             (PAF_FLUSH, s\<lparr>nb_hdr := h, smb_state := 0\<rparr>, NbssLen (ucast h) + 4 + of_nat n - 3)
           else smb_loop (s\<lparr>nb_hdr := h, smb_state := 4\<rparr>) xs (n + 1) fp
         else if smb_state s = 7 then
           if \<not> DCE2_PafSmbIsValidNetbiosHdr (ucast (drop_bit 32 h)) True then smb_loop (s\<lparr>nb_hdr := h\<rparr>) xs (n + 1) fp
           else if (ucast h :: u32) \<noteq> 0xff534d42 \<and> (ucast h :: u32) \<noteq> 0xfe534d42 then smb_loop (s\<lparr>nb_hdr := h\<rparr>) xs (n + 1) fp
           else (PAF_FLUSH, s\<lparr>nb_hdr := h, smb_state := 0\<rparr>, NbssLen (ucast (drop_bit 32 h)) + 4 + of_nat n - 7)
         else smb_loop (s\<lparr>nb_hdr := h, smb_state := smb_state s + 1\<rparr>) xs (n + 1) fp)"

text \<open>\<open>paf_abort\<close> is what \<open>DCE2_PafAbort\<close> finds in the session data.\<close>

definition DCE2_SmbPaf :: "bool \<Rightarrow> DCE2_PafSmbState paf_callback" where
  "DCE2_SmbPaf paf_abort usr data flags fp =
     (let s = (case usr of None \<Rightarrow> smb_init | Some s \<Rightarrow> s)
      in if paf_abort then (PAF_ABORT, Some s, fp)
         else case smb_loop s data 0 fp of (st, s, fp) \<Rightarrow> (st, Some s, fp))"

section \<open>DCE/RPC over TCP\<close>

text \<open>The state is the number of header bytes seen, up to the ninth, the second byte of the length.\<close>

record DCE2_PafTcpState =
  tcp_state :: nat
  little_endian :: bool
  frag_len :: u16

definition tcp_init :: DCE2_PafTcpState where
  "tcp_init = \<lparr>tcp_state = 0, little_endian = False, frag_len = 0\<rparr>"

definition DceRpcByteOrder :: "u8 \<Rightarrow> bool" where
  "DceRpcByteOrder c \<longleftrightarrow> drop_bit 4 (c AND 0x10) \<noteq> 0"

text \<open>The loop: \<open>n\<close> is the index, \<open>reqs\<close> the number of messages, \<open>acc\<close> their bytes.\<close>

function dce_tcp_loop :: "DCE2_PafTcpState \<Rightarrow> u8 list \<Rightarrow> nat \<Rightarrow> nat \<Rightarrow> u32 \<Rightarrow> (PAF_Status \<times> DCE2_PafTcpState \<times> u32)" where
  "dce_tcp_loop d data n reqs acc =
     (if length data \<le> n then (PAF_SEARCH, d, acc)
      else let c = data ! n in
        if tcp_state d = 4 then dce_tcp_loop (d\<lparr>little_endian := DceRpcByteOrder c, tcp_state := 5\<rparr>) data (n + 1) reqs acc
        else if tcp_state d = 8 then
          dce_tcp_loop (d\<lparr>frag_len := if little_endian d then ucast c else push_bit 8 (ucast c), tcp_state := 9\<rparr>) data (n + 1) reqs acc
        else if tcp_state d = 9 then
          (let fl = frag_len d OR (if little_endian d then push_bit 8 (ucast c) else ucast c); d = d\<lparr>frag_len := fl\<rparr>
           in if fl < 16 then (PAF_ABORT, d, acc)
              else let n = n + unat fl - 9; reqs = reqs + 1
                in dce_tcp_loop (d\<lparr>tcp_state := 0\<rparr>) data n reqs (if reqs = 1 \<or> n \<le> length data then acc + ucast fl else acc))
        else dce_tcp_loop (d\<lparr>tcp_state := tcp_state d + 1\<rparr>) data (n + 1) reqs acc)"
  by pat_completeness auto
termination
  by (relation "measure (\<lambda>(d, data, n, reqs, acc). length data - n)") (auto simp: word_less_nat_alt)

text \<open>
  Without session data the protocol is taken from the target attributes or guessed from the bytes, of which there is at least one.
  \<open>adaptive\<close> is \<open>None\<close> when no attributes are configured, else whether they say DCE/RPC.
\<close>

definition dce_autodetect :: "bool option \<Rightarrow> u8 list \<Rightarrow> u32 \<Rightarrow> bool" where
  "dce_autodetect adaptive data flags =
     (case adaptive of
        Some dce \<Rightarrow> dce
      | None \<Rightarrow>
          if 16 \<le> length data then
            data ! 0 = 5 \<and> data ! 1 = 0 \<and> (data ! 2 = 11 \<or> data ! 2 = 12)
            \<and> 16 \<le> (if DceRpcByteOrder (data ! 4) then unat (data ! 9) * 256 + unat (data ! 8) else unat (data ! 8) * 256 + unat (data ! 9))
          else data ! 0 = 5 \<and> flags AND PKT_FROM_CLIENT \<noteq> 0)"

definition DCE2_TcpPaf :: "bool \<Rightarrow> bool \<Rightarrow> bool option \<Rightarrow> DCE2_PafTcpState paf_callback" where
  "DCE2_TcpPaf has_sd paf_abort adaptive usr data flags fp =
     (if \<not> has_sd \<and> \<not> dce_autodetect adaptive data flags then (PAF_ABORT, usr, fp)
      else let d = (case usr of None \<Rightarrow> tcp_init | Some d \<Rightarrow> d); start_state = tcp_state d
        in if paf_abort then (PAF_ABORT, Some d, fp)
           else case dce_tcp_loop d data 0 0 0 of
             (st, d, acc) \<Rightarrow>
               if st = PAF_ABORT then (PAF_ABORT, Some d, fp)
               else if acc \<noteq> 0 then (PAF_FLUSH, Some d, acc - of_nat start_state)
               else (PAF_SEARCH, Some d, fp))"

end
