(* ===== verification/PduProofs.thy ===== *)
theory PduProofs
  imports PafProofs PduPaf
begin

text \<open>
  The scanners of \<open>PduPaf\<close> that look at one byte after the other are machines with a step per byte (the
  locale \<open>byte_scanner\<close>), and every such machine meets the contract of \<open>paf_scanner\<close>: a Modbus, DNP3 or
  SMB stream is flushed message by message whatever its segments. The scanner of DCE/RPC over TCP is not
  such a machine: it may lose track of the stream.
\<close>

section \<open>Machines with a step per byte\<close>

text \<open>A step goes to the next state, or ends the scan with a status and an offset from the byte.\<close>

type_synonym 's byte_step = "'s \<Rightarrow> u8 \<Rightarrow> 's \<times> (PAF_Status \<times> u32) option"

fun run_bytes :: "'s byte_step \<Rightarrow> 's \<Rightarrow> u8 list \<Rightarrow> nat \<Rightarrow> u32 \<Rightarrow> PAF_Status \<times> 's \<times> u32" where
  "run_bytes step s [] n fp = (PAF_SEARCH, s, fp)"
| "run_bytes step s (c # xs) n fp =
     (case step s c of
        (s, None) \<Rightarrow> run_bytes step s xs (n + 1) fp
      | (s, Some (st, off)) \<Rightarrow> (st, s, if st = PAF_FLUSH then off + of_nat n else fp))"

definition byte_callback :: "'s byte_step \<Rightarrow> 's \<Rightarrow> 's paf_callback" where
  "byte_callback step init usr data flags fp =
     (case run_bytes step (case usr of None \<Rightarrow> init | Some s \<Rightarrow> s) data 0 fp of (st, s, fp) \<Rightarrow> (st, Some s, fp))"

lemma outcome_tuple: "outcome (st, u, f) = (st, if st = PAF_FLUSH \<or> st = PAF_SKIP then f else 0)"
  by (simp add: outcome_def)

locale byte_scanner =
  fixes step :: "'s byte_step"
    and init :: 's
    and start :: "'s \<Rightarrow> bool"
    and same :: "'s \<Rightarrow> 's \<Rightarrow> bool"
  assumes ends: "step s c = (s1, Some (st, off)) \<Longrightarrow> st = PAF_FLUSH \<or> st = PAF_ABORT"
    and init_start: "start init"
    and flush_start: "step s c = (s1, Some (PAF_FLUSH, off)) \<Longrightarrow> start s1"
    and start_same: "start s \<Longrightarrow> same s init"
    and same_step: "same s t \<Longrightarrow> snd (step s c) = snd (step t c) \<and> same (fst (step s c)) (fst (step t c))"
begin

lemma run_split:
  "run_bytes step s a n fp = (PAF_SEARCH, s1, f1) \<Longrightarrow> run_bytes step s (a @ b) n fp = run_bytes step s1 b (n + length a) fp"
  by (induction a arbitrary: s n) (auto split: prod.splits option.splits dest: ends)

lemma run_stop:
  "run_bytes step s a n fp = (st, s1, f1) \<Longrightarrow> st \<noteq> PAF_SEARCH \<Longrightarrow> fst (run_bytes step s (a @ b) n g) = st
    \<and> (st = PAF_FLUSH \<longrightarrow> snd (snd (run_bytes step s (a @ b) n g)) = f1)"
  by (induction a arbitrary: s n) (auto split: prod.splits option.splits)

lemma run_offset:
  "fst (run_bytes step s a (n + k) g) = fst (run_bytes step s a n fp)
    \<and> (fst (run_bytes step s a n fp) = PAF_FLUSH \<longrightarrow> snd (snd (run_bytes step s a (n + k) g)) = snd (snd (run_bytes step s a n fp)) + of_nat k)"
proof (induction a arbitrary: s n)
  case (Cons c xs)
  then show ?case using Cons.IH [of _ "Suc n"] by (auto split: prod.splits option.splits)
qed simp

lemma run_status: "fst (run_bytes step s a n fp) = PAF_SEARCH \<or> fst (run_bytes step s a n fp) = PAF_FLUSH \<or> fst (run_bytes step s a n fp) = PAF_ABORT"
  by (induction a arbitrary: s n) (auto split: prod.splits option.splits dest: ends)

lemma run_start: "run_bytes step s a n fp = (PAF_FLUSH, s1, f1) \<Longrightarrow> start s1"
  by (induction a arbitrary: s n) (auto split: prod.splits option.splits dest: flush_start)

lemma run_same:
  "same s t \<Longrightarrow> fst (run_bytes step s a n fp) = fst (run_bytes step t a n g)
    \<and> (fst (run_bytes step s a n fp) = PAF_FLUSH \<longrightarrow> snd (snd (run_bytes step s a n fp)) = snd (snd (run_bytes step t a n g)))"
proof (induction a arbitrary: s t n)
  case (Cons c xs)
  obtain s1 r t1 r' where st: "step s c = (s1, r)" "step t c = (t1, r')" by (cases "step s c", cases "step t c")
  then have "r = r'" "same s1 t1" using same_step [OF Cons.prems, of c] by simp_all
  then show ?case using Cons.IH [of s1 t1 "Suc n"] st by (auto split: option.splits)
qed simp

lemma outcome_byte_callback:
  "outcome (byte_callback step init u a flags fp) = (let r = run_bytes step (case u of None \<Rightarrow> init | Some s \<Rightarrow> s) a 0 fp
     in (fst r, if fst r = PAF_FLUSH then snd (snd r) else 0))"
  using run_status [of "case u of None \<Rightarrow> init | Some s \<Rightarrow> s" a 0 fp]
  by (auto simp: byte_callback_def outcome_def Let_def split: prod.splits)

end

sublocale byte_scanner \<subseteq> paf_scanner "byte_callback step init" "\<lambda>_. True" "\<lambda>u _. \<forall>s. u = Some s \<longrightarrow> start s"
proof unfold_locales
  fix u a b flags fp u1 f1 g
  assume "byte_callback step init u a flags fp = (PAF_SEARCH, u1, f1)"
  then obtain s1 where r: "run_bytes step (case u of None \<Rightarrow> init | Some s \<Rightarrow> s) a 0 fp = (PAF_SEARCH, s1, f1)" "u1 = Some s1"
    by (auto simp: byte_callback_def split: prod.splits)
  show "outcome (byte_callback step init u (a @ b) flags fp) = shift_by (length a) (outcome (byte_callback step init u1 b flags g))"
    using run_split [OF r(1), of b] run_offset [of s1 b 0 "length a" fp g] run_status [of s1 b 0 g]
    by (auto simp: outcome_byte_callback r(2) Let_def shift_by_def)
next
  fix u a b flags fp st u1 f1 g
  assume "byte_callback step init u a flags fp = (st, u1, f1)" and st: "st \<noteq> PAF_SEARCH"
  then obtain s1 where r: "run_bytes step (case u of None \<Rightarrow> init | Some s \<Rightarrow> s) a 0 fp = (st, s1, f1)" "u1 = Some s1"
    by (auto simp: byte_callback_def split: prod.splits)
  show "outcome (byte_callback step init u (a @ b) flags g) = outcome (st, u1, f1) \<and> True"
    using run_stop [OF r(1) st, of b g] run_status [of "case u of None \<Rightarrow> init | Some s \<Rightarrow> s" a 0 fp] r
    by (auto simp: outcome_byte_callback Let_def outcome_tuple)
next
  fix u a flags fp u1 f1
  assume "byte_callback step init u a flags fp = (PAF_FLUSH, u1, f1)"
  then show "\<forall>s. u1 = Some s \<longrightarrow> start s" by (auto simp: byte_callback_def split: prod.splits dest: run_start)
next
  fix u :: "'s option" and a flags fp g
  assume "\<forall>s. u = Some s \<longrightarrow> start s"
  then have "same (case u of None \<Rightarrow> init | Some s \<Rightarrow> s) init" using start_same init_start by (auto split: option.splits)
  from run_same [OF this, of a 0 fp g]
  show "outcome (byte_callback step init u a flags fp) = outcome (byte_callback step init None a flags g) \<and> True = True"
    by (simp add: outcome_byte_callback Let_def)
qed auto

section \<open>Modbus\<close>

definition modbus_step :: "modbus_paf_data byte_step" where
  "modbus_step d c =
     (case mb_state d of
        TRANS_ID_1 \<Rightarrow> (d\<lparr>mb_state := TRANS_ID_2\<rparr>, None)
      | TRANS_ID_2 \<Rightarrow> (d\<lparr>mb_state := PROTO_ID_1\<rparr>, None)
      | PROTO_ID_1 \<Rightarrow> (d\<lparr>mb_state := PROTO_ID_2\<rparr>, None)
      | PROTO_ID_2 \<Rightarrow> (d\<lparr>mb_state := LENGTH_1\<rparr>, None)
      | LENGTH_1 \<Rightarrow> (d\<lparr>modbus_length := modbus_length d OR push_bit 8 (ucast c), mb_state := LENGTH_2\<rparr>, None)
      | LENGTH_2 \<Rightarrow> (d\<lparr>modbus_length := modbus_length d OR ucast c, mb_state := SET_FLUSH\<rparr>, None)
      | SET_FLUSH \<Rightarrow> (modbus_init, Some (PAF_FLUSH, ucast (modbus_length d))))"

lemma modbus_run:
  "modbus_loop d xs n fp = (st, d1, f, al) \<Longrightarrow> run_bytes modbus_step d xs n fp = (st, d1, f)"
  by (induction d xs n fp rule: modbus_loop.induct)
    (auto simp: modbus_step_def modbus_init_def split: modbus_paf_state.splits)

lemma ModbusPaf_bytes: "ModbusPaf = byte_callback modbus_step modbus_init"
  by (auto simp: fun_eq_iff ModbusPaf_def byte_callback_def modbus_run split: prod.splits)

interpretation modbus: byte_scanner modbus_step modbus_init "\<lambda>d. d = modbus_init" "(=)"
  by unfold_locales (auto simp: modbus_step_def split: modbus_paf_state.splits)

definition modbus_frame :: "u8 list \<Rightarrow> bool" where
  "modbus_frame p \<longleftrightarrow> 6 < length p \<and> length p = 6 + 256 * unat (p ! 4) + unat (p ! 5)"

section \<open>DNP3\<close>

definition dnp3_step :: "dnp3_paf_data byte_step" where
  "dnp3_step d c =
     (case dn_state d of
        START_1 \<Rightarrow> (if c = 0x05 then d\<lparr>dn_state := START_2\<rparr> else d, None)
      | START_2 \<Rightarrow> (if c = 0x64 then d\<lparr>dn_state := DNP3_LENGTH\<rparr> else d\<lparr>dn_state := START_1\<rparr>, None)
      | DNP3_LENGTH \<Rightarrow>
          if c < 5 then (d\<lparr>dnp3_length := c\<rparr>, Some (PAF_ABORT, 0))
          else (d\<lparr>dnp3_length := c, real_length := dnp3_real_length c, dn_state := DNP3_SET_FLUSH\<rparr>, None)
      | DNP3_SET_FLUSH \<Rightarrow> (d\<lparr>dn_state := START_1\<rparr>, Some (PAF_FLUSH, ucast (real_length d))))"

lemma dnp3_run: "dnp3_loop d xs n fp = run_bytes dnp3_step d xs n fp"
  by (induction d xs n fp rule: dnp3_loop.induct) (auto simp: dnp3_step_def Let_def split: dnp3_paf_state.splits)

lemma DNP3Paf_bytes: "DNP3Paf = byte_callback dnp3_step dnp3_init"
  by (simp add: fun_eq_iff DNP3Paf_def byte_callback_def dnp3_run)

interpretation dnp3: byte_scanner dnp3_step dnp3_init "\<lambda>d. dn_state d = START_1"
  "\<lambda>d e. dn_state d = dn_state e \<and> (dn_state d = DNP3_SET_FLUSH \<longrightarrow> real_length d = real_length e)"
  by unfold_locales (auto simp: dnp3_step_def dnp3_init_def split: dnp3_paf_state.splits if_splits)

section \<open>DCE/RPC over SMB\<close>

definition smb_step :: "DCE2_PafSmbState byte_step" where
  "smb_step s c =
     (let h = SMB_PAF_SHIFT (nb_hdr s) c
      in if smb_state s = 0 then (s\<lparr>nb_hdr := ucast c, smb_state := 1\<rparr>, None)
         else if smb_state s = 3 then
           if DCE2_PafSmbIsValidNetbiosHdr (ucast h) False then
             (s\<lparr>nb_hdr := h, smb_state := 0\<rparr>, Some (PAF_FLUSH, NbssLen (ucast h) + 4 - 3))
           else (s\<lparr>nb_hdr := h, smb_state := 4\<rparr>, None)
         else if smb_state s = 7 then
           if \<not> DCE2_PafSmbIsValidNetbiosHdr (ucast (drop_bit 32 h)) True then (s\<lparr>nb_hdr := h\<rparr>, None)
           else if (ucast h :: u32) \<noteq> 0xff534d42 \<and> (ucast h :: u32) \<noteq> 0xfe534d42 then (s\<lparr>nb_hdr := h\<rparr>, None)
           else (s\<lparr>nb_hdr := h, smb_state := 0\<rparr>, Some (PAF_FLUSH, NbssLen (ucast (drop_bit 32 h)) + 4 - 7))
         else (s\<lparr>nb_hdr := h, smb_state := smb_state s + 1\<rparr>, None))"

lemma smb_run: "smb_loop s xs n fp = run_bytes smb_step s xs n fp"
  by (induction s xs n fp rule: smb_loop.induct) (auto simp: smb_step_def Let_def)

lemma DCE2_SmbPaf_bytes: "DCE2_SmbPaf False = byte_callback smb_step smb_init"
  by (simp add: fun_eq_iff DCE2_SmbPaf_def byte_callback_def smb_run Let_def)

lemma smb_step_flush: "smb_step s c = (s1, Some (st, off)) \<Longrightarrow> st = PAF_FLUSH \<and> smb_state s1 = 0"
  by (auto simp: smb_step_def Let_def split: if_splits)

lemma smb_step_same:
  assumes "smb_state s = smb_state t" and "smb_state s = 0 \<or> nb_hdr s = nb_hdr t"
  shows "snd (smb_step s c) = snd (smb_step t c)
    \<and> smb_state (fst (smb_step s c)) = smb_state (fst (smb_step t c)) \<and> nb_hdr (fst (smb_step s c)) = nb_hdr (fst (smb_step t c))"
proof (cases "smb_state t = 0")
  case False
  then have "nb_hdr s = nb_hdr t" using assms by auto
  then show ?thesis using assms(1) by (simp add: smb_step_def Let_def)
qed (use assms in \<open>simp add: smb_step_def Let_def\<close>)

interpretation smb: byte_scanner smb_step smb_init "\<lambda>s. smb_state s = 0"
  "\<lambda>s t. smb_state s = smb_state t \<and> (smb_state s = 0 \<or> nb_hdr s = nb_hdr t)"
  by unfold_locales (use smb_step_flush in blast, simp add: smb_init_def, use smb_step_flush in blast, simp add: smb_init_def,
    use smb_step_same in blast)

section \<open>Frames are messages\<close>

lemma unat_u8: "unat (a :: u8) < 256"
  using unsigned_less [of a] by simp

lemma unat_u16: "unat (a :: u16) < 65536"
  using unsigned_less [of a] by simp

lemma unat_ucast_up:
  "unat (ucast (a :: u8) :: u16) = unat a" "unat (ucast (x :: u16) :: u32) = unat x"
  using unat_u8 [of a] unat_u16 [of x] by (simp_all add: unsigned_ucast_eq take_bit_nat_eq_self_iff)

lemma pair16: "unat ((push_bit 8 (ucast a) OR ucast b) :: u16) = 256 * unat a + unat b" for a b :: u8
proof -
  have "(push_bit 8 (ucast a) :: u16) AND ucast b = 0"
    by (rule bit_eqI) (auto simp: bit_simps dest: bit_imp_le_length)
  then have "(push_bit 8 (ucast a) OR ucast b :: u16) = push_bit 8 (ucast a) + ucast b"
    by (simp add: disjunctive_add_eq_or)
  moreover have "unat (push_bit 8 (ucast a) :: u16) = 256 * unat a"
    using unat_u8 [of a] by (simp add: push_bit_eq_mult unat_word_ariths unat_ucast_up)
  ultimately show ?thesis using unat_u8 [of a] unat_u8 [of b] by (simp add: unat_word_ariths unat_ucast_up)
qed

lemma ucast_unat_eq: "ucast (x :: u16) = (of_nat (unat x) :: u32)"
  using unat_u16 [of x] by (simp add: word_unat_eq_iff unat_ucast_up unat_of_nat)

lemma modbus_message:
  assumes "modbus_frame p"
  shows "modbus.message flags p"
proof -
  obtain t1 t2 r1 r2 l1 l2 u rest where p: "p = t1 # t2 # r1 # r2 # l1 # l2 # u # rest"
    using assms by (cases p; cases "tl p"; cases "tl (tl p)"; cases "tl (tl (tl p))"; cases "tl (tl (tl (tl p)))";
        cases "tl (tl (tl (tl (tl p))))"; cases "tl (tl (tl (tl (tl (tl p)))))") (auto simp: modbus_frame_def)
  have "run_bytes modbus_step modbus_init p 0 0
    = (PAF_FLUSH, modbus_init, ucast (push_bit 8 (ucast l1) OR ucast l2 :: u16) + 6)"
    by (simp add: p modbus_step_def modbus_init_def eval_nat_numeral)
  moreover have "ucast (push_bit 8 (ucast l1) OR ucast l2 :: u16) = (of_nat (256 * unat l1 + unat l2) :: u32)"
    by (simp add: ucast_unat_eq pair16)
  ultimately show ?thesis using assms
    by (simp add: modbus.message_def modbus.outcome_byte_callback p modbus_frame_def)
qed

definition dnp3_frame :: "u8 list \<Rightarrow> bool" where
  "dnp3_frame p \<longleftrightarrow> 3 < length p \<and> p ! 0 = 0x05 \<and> p ! 1 = 0x64 \<and> 5 \<le> p ! 2
     \<and> length p = 3 + unat (p ! 2) + 2 * (1 + (unat (p ! 2) - 5 + 15) div 16)"

lemma ceil_16: "v div 16 + (if v mod 16 \<noteq> 0 then 1 else 0) = (v + 15) div (16 :: nat)"
proof (cases "v mod 16 = 0")
  case True
  then show ?thesis by (auto elim!: dvdE simp: mod_eq_0_iff_dvd)
next
  case False
  have "v + 15 = 16 * (v div 16) + (v mod 16 + 15)" by simp
  then have "(v + 15) div 16 = v div 16 + (v mod 16 + 15) div 16" by (metis div_mult_self4 numeral_neq_zero)
  moreover have "(v mod 16 + 15) div 16 = 1" using False by (intro div_nat_eqI) auto
  ultimately show ?thesis using False by simp
qed

lemma dnp3_crcs:
  assumes "v < 251"
  shows "(1 :: u16) + of_nat v div 16 + (if (of_nat v :: u16) mod 16 \<noteq> 0 then 1 else 0) = of_nat (1 + (v + 15) div 16)"
proof -
  have u: "unat (of_nat v :: u16) = v" using assms by (simp add: unat_of_nat)
  have d: "(of_nat v :: u16) div 16 = of_nat (v div 16)"
    using assms u by (simp add: word_unat_eq_iff unat_div unat_of_nat)
  have "unat ((of_nat v :: u16) mod 16) = v mod 16" using u by (simp add: unat_mod)
  then have m: "(of_nat v :: u16) mod 16 \<noteq> 0 \<longleftrightarrow> v mod 16 \<noteq> 0" by (simp only: word_unat_eq_iff unat_0)
  show ?thesis unfolding d m ceil_16 [symmetric] by simp
qed

lemma dnp3_length:
  assumes "5 \<le> (c :: u8)"
  shows "unat (dnp3_real_length c) = unat c + 2 * (1 + (unat c - 5 + 15) div 16)"
proof -
  let ?v = "unat c - 5"
  have c: "5 \<le> unat c" "unat c < 256" using assms unat_u8 [of c] by (simp_all add: word_le_nat_alt)
  have u: "ucast c - 5 = (of_nat ?v :: u16)" and cc: "ucast c = (of_nat (unat c) :: u16)"
    using c by (simp_all add: word_unat_eq_iff unat_of_nat unat_ucast_up unat_sub word_le_nat_alt)
  have "dnp3_real_length c = of_nat (unat c) + 2 * of_nat (1 + (?v + 15) div 16)"
    unfolding dnp3_real_length_def Let_def u unfolding cc by (subst dnp3_crcs) (use c in simp_all)
  also have "\<dots> = of_nat (unat c + 2 * (1 + (?v + 15) div 16))" by simp
  finally have r: "dnp3_real_length c = of_nat (unat c + 2 * (1 + (?v + 15) div 16))" .
  have "(?v + 15) div 16 \<le> 266 div 16" using c by (intro div_le_mono) simp
  then have "unat c + 2 * (1 + (?v + 15) div 16) < 2 ^ 16" using c by simp
  then show ?thesis unfolding r by (simp only: unat_of_nat) simp
qed

lemma dnp3_message:
  assumes "dnp3_frame p"
  shows "dnp3.message flags p"
proof -
  obtain a b l u rest where p: "p = a # b # l # u # rest"
    using assms by (cases p; cases "tl p"; cases "tl (tl p)"; cases "tl (tl (tl p))") (auto simp: dnp3_frame_def)
  have ab: "a = 0x05" "b = 0x64" "\<not> l < 5" using assms by (simp_all add: p dnp3_frame_def not_less)
  have "fst (run_bytes dnp3_step dnp3_init p 0 0) = PAF_FLUSH"
    "snd (snd (run_bytes dnp3_step dnp3_init p 0 0)) = ucast (dnp3_real_length l) + 3"
    by (simp_all add: p ab dnp3_step_def dnp3_init_def)
  moreover have "length p = unat (dnp3_real_length l) + 3"
    using assms dnp3_length [of l] unfolding p dnp3_frame_def by simp
  then have "(of_nat (length p) :: u32) = ucast (dnp3_real_length l) + 3"
    by (simp only: ucast_unat_eq of_nat_add of_nat_numeral)
  ultimately show ?thesis using assms by (simp add: dnp3.message_def dnp3.outcome_byte_callback p Let_def)
qed

definition nb_word :: "u8 list \<Rightarrow> u32" where
  "nb_word p = push_bit 8 (push_bit 8 (push_bit 8 (ucast (p ! 0)) OR ucast (p ! 1)) OR ucast (p ! 2)) OR ucast (p ! 3)"

definition smb_frame :: "u8 list \<Rightarrow> bool" where
  "smb_frame p \<longleftrightarrow> 4 \<le> length p \<and> DCE2_PafSmbIsValidNetbiosHdr (nb_word p) False \<and> length p = 4 + unat (NbssLen (nb_word p))"

lemma ucast_shift: "(ucast (SMB_PAF_SHIFT x c) :: u32) = push_bit 8 (ucast x) OR ucast c"
  by (rule bit_eqI) (auto simp: SMB_PAF_SHIFT_def bit_simps)

lemma ucast_u64: "(ucast (ucast (a :: u8) :: u64) :: u32) = ucast a"
  by (rule bit_eqI) (auto simp: bit_simps dest: bit_imp_le_length)

lemma smb_message:
  assumes "smb_frame p"
  shows "smb.message flags p"
proof -
  obtain a b c d rest where p: "p = a # b # c # d # rest"
    using assms by (cases p; cases "tl p"; cases "tl (tl p)"; cases "tl (tl (tl p))") (auto simp: smb_frame_def)
  let ?h = "SMB_PAF_SHIFT (SMB_PAF_SHIFT (SMB_PAF_SHIFT (ucast a) b) c) d"
  have h: "ucast ?h = nb_word p" by (simp only: ucast_shift nb_word_def p ucast_u64) simp
  have "fst (run_bytes smb_step smb_init p 0 0) = PAF_FLUSH"
    "snd (snd (run_bytes smb_step smb_init p 0 0)) = NbssLen (nb_word p) + 4"
    using assms by (simp_all add: p smb_step_def smb_init_def smb_frame_def eval_nat_numeral h [unfolded p] Let_def)
  moreover have "(of_nat (length p) :: u32) = NbssLen (nb_word p) + 4"
    using assms by (simp add: smb_frame_def)
  ultimately show ?thesis using assms by (simp add: smb.message_def smb.outcome_byte_callback p Let_def)
qed

section \<open>Streams of frames\<close>

text \<open>
  C36: A stream of Modbus frames, cut into segments in any way, is flushed at the end of every frame that
  has arrived in full and nowhere else, if a frame and a segment together stay below the maximum PDU size.
\<close>

theorem modbus_stream_flushed:
  assumes "\<forall>p\<in>set ms. modbus_frame p" and "\<forall>p\<in>set ms. \<forall>x\<in>set xs. length p + length x \<le> unat (mfp + fuzz)" and "unat (mfp + fuzz) \<le> 2 ^ 31"
    and "concat xs = take (length (concat xs)) (concat ms)" and "\<forall>x\<in>set xs. x \<noteq> []" and "flags \<noteq> 0"
  shows "paf_stream [ModbusPaf] mfp fuzz flags base [] (s5_paf_setup 1) xs = Some (ended ms (length (concat xs)))"
  using modbus.stream_exact [of ms flags xs mfp fuzz "[]" base] assms modbus_message
  by (simp add: ModbusPaf_bytes modbus.queued_def)

theorem dnp3_stream_flushed:
  assumes "\<forall>p\<in>set ms. dnp3_frame p" and "\<forall>p\<in>set ms. \<forall>x\<in>set xs. length p + length x \<le> unat (mfp + fuzz)" and "unat (mfp + fuzz) \<le> 2 ^ 31"
    and "concat xs = take (length (concat xs)) (concat ms)" and "\<forall>x\<in>set xs. x \<noteq> []" and "flags \<noteq> 0"
  shows "paf_stream [DNP3Paf] mfp fuzz flags base [] (s5_paf_setup 1) xs = Some (ended ms (length (concat xs)))"
  using dnp3.stream_exact [of ms flags xs mfp fuzz "[]" base] assms dnp3_message
  by (simp add: DNP3Paf_bytes dnp3.queued_def)

text \<open>
  C37: The same for frames of the NetBIOS session service, which carry SMB.
\<close>

theorem smb_stream_flushed:
  assumes "\<forall>p\<in>set ms. smb_frame p" and "\<forall>p\<in>set ms. \<forall>x\<in>set xs. length p + length x \<le> unat (mfp + fuzz)" and "unat (mfp + fuzz) \<le> 2 ^ 31"
    and "concat xs = take (length (concat xs)) (concat ms)" and "\<forall>x\<in>set xs. x \<noteq> []" and "flags \<noteq> 0"
  shows "paf_stream [DCE2_SmbPaf False] mfp fuzz flags base [] (s5_paf_setup 1) xs = Some (ended ms (length (concat xs)))"
  using smb.stream_exact [of ms flags xs mfp fuzz "[]" base] assms smb_message
  by (simp add: DCE2_SmbPaf_bytes smb.queued_def)

theorem smb_stream_flushed_witness:
  "paf_stream [DCE2_SmbPaf False] 16384 0 PKT_FROM_CLIENT 4294967290 [] (s5_paf_setup 1)
     [[0, 0], [0, 2, 7], [8, 0x85], [0, 0, 0, 0, 0, 0, 3, 1]] = Some [6, 4]"
proof -
  have "paf_stream [DCE2_SmbPaf False] 16384 0 PKT_FROM_CLIENT 4294967290 [] (s5_paf_setup 1)
      [[0, 0], [0, 2, 7], [8, 0x85], [0, 0, 0, 0, 0, 0, 3, 1]]
    = Some (ended [[0, 0, 0, 2, 7, 8], [0x85, 0, 0, 0], [0, 0, 0, 3, 1, 2, 3]]
        (length (concat [[0, 0], [0, 2, 7], [8, 0x85], [0, 0, 0, 0, 0, 0, 3, 1]] :: u8 list)))"
    by (rule smb_stream_flushed) (code_simp, simp, simp, simp, simp, code_simp)
  then show ?thesis by simp
qed

theorem modbus_stream_flushed_witness:
  "paf_stream [ModbusPaf] 16384 0 PKT_FROM_CLIENT 4294967290 [] (s5_paf_setup 1)
     [[0, 1, 0], [0, 0, 2, 17, 4, 0, 2], [0, 0, 0, 1, 17, 0]] = Some [8, 7]"
proof -
  have "paf_stream [ModbusPaf] 16384 0 PKT_FROM_CLIENT 4294967290 [] (s5_paf_setup 1)
      [[0, 1, 0], [0, 0, 2, 17, 4, 0, 2], [0, 0, 0, 1, 17, 0]]
    = Some (ended [[0, 1, 0, 0, 0, 2, 17, 4], [0, 2, 0, 0, 0, 1, 17], [0, 3, 0, 0, 0, 1, 17]]
        (length (concat [[0, 1, 0], [0, 0, 2, 17, 4, 0, 2], [0, 0, 0, 1, 17, 0]] :: u8 list)))"
    by (rule modbus_stream_flushed) (code_simp, simp, simp, simp, simp, code_simp)
  then show ?thesis by simp
qed

theorem dnp3_stream_flushed_witness:
  "paf_stream [DNP3Paf] 16384 0 PKT_FROM_CLIENT 4294967290 [] (s5_paf_setup 1)
     [[5, 0x64, 5, 0], [1, 2, 3, 4, 9, 9, 5], [0x64, 6]] = Some [10]"
proof -
  have "paf_stream [DNP3Paf] 16384 0 PKT_FROM_CLIENT 4294967290 [] (s5_paf_setup 1)
      [[5, 0x64, 5, 0], [1, 2, 3, 4, 9, 9, 5], [0x64, 6]]
    = Some (ended [[5, 0x64, 5, 0, 1, 2, 3, 4, 9, 9], [5, 0x64, 6, 0, 1, 2, 3, 4, 9, 9, 1, 8, 8]]
        (length (concat [[5, 0x64, 5, 0], [1, 2, 3, 4, 9, 9, 5], [0x64, 6]] :: u8 list)))"
    by (rule dnp3_stream_flushed) (code_simp, simp, simp, simp, simp, code_simp)
  then show ?thesis by simp
qed

section \<open>DCE/RPC over TCP\<close>

text \<open>A message: the fixed part of the header, big endian, and the length it says.\<close>

definition dce_pdu :: "nat \<Rightarrow> u8 list" where
  "dce_pdu n = [5, 0, 0, 3, 0, 0, 0, 0, 0, of_nat (16 + n), 0, 0, 0, 0, 0, 1] @ replicate n 0xaa"

theorem dce2_tcp_loses_track:
  "paf_stream [DCE2_TcpPaf True False None] 16384 0 PKT_FROM_CLIENT 1000 [] (s5_paf_setup 1)
      [dce_pdu 4 @ take 5 (dce_pdu 2), drop 5 (dce_pdu 2), dce_pdu 8] = Some [20]
   \<and> paf_stream [DCE2_TcpPaf True False None] 16384 0 PKT_FROM_CLIENT 1000 [] (s5_paf_setup 1)
      [dce_pdu 4, dce_pdu 2, dce_pdu 8] = Some [20, 18, 24]"
  by code_simp

end
