(* ===== verification/HiPaf.thy ===== *)
theory HiPaf
  imports Paf
begin

text \<open>
  The HTTP scanner of protocol-aware flushing, \<open>HttpInspect/utils/hi_paf.c\<close>: a table of 90 states that
  looks at each byte of the headers, and around it the scan for the ends of lines, of the headers and of
  chunks. Characters are their codes. The alerts it posts are collected in the state. A table entry is
  its event, its two successors and its action; its own number is its place in the table.
\<close>

datatype hi_act = ACT_NOP | ACT_NOB | ACT_PST | ACT_V09 | ACT_V10 | ACT_V11 | ACT_REQ | ACT_RSP | ACT_SHI | ACT_SHX
  | ACT_LNB | ACT_LNC | ACT_LN0 | ACT_CHK | ACT_CK0

datatype hi_paf_event = MSG_SIZE_EXCEPTION | UNBOUNDED_POST | SIMPLE_REQUEST

definition HIF_REQ :: u16 where "HIF_REQ = 0x0001"
definition HIF_RSP :: u16 where "HIF_RSP = 0x0002"
definition HIF_LEN :: u16 where "HIF_LEN = 0x0004"
definition HIF_CHK :: u16 where "HIF_CHK = 0x0008"
definition HIF_NOB :: u16 where "HIF_NOB = 0x0010"
definition HIF_NOF :: u16 where "HIF_NOF = 0x0020"
definition HIF_V09 :: u16 where "HIF_V09 = 0x0040"
definition HIF_V10 :: u16 where "HIF_V10 = 0x0080"
definition HIF_V11 :: u16 where "HIF_V11 = 0x0100"
definition HIF_ERR :: u16 where "HIF_ERR = 0x0200"
definition HIF_PST :: u16 where "HIF_PST = 0x0400"
definition HIF_EOL :: u16 where "HIF_EOL = 0x0800"

lemmas HIF_defs = HIF_REQ_def HIF_RSP_def HIF_LEN_def HIF_CHK_def HIF_NOB_def HIF_NOF_def HIF_V09_def HIF_V10_def
  HIF_V11_def HIF_ERR_def HIF_PST_def HIF_EOL_def

record HiState =
  hs_len :: u32
  hs_flags :: u16
  hs_msg :: nat
  hs_fsm :: nat
  hs_evs :: "hi_paf_event list"

abbreviation (input) EOL :: u8 where "EOL \<equiv> 10"
abbreviation (input) LWS :: u8 where "LWS \<equiv> 32"

section \<open>The table\<close>

abbreviation (input) RSP_START_STATE :: nat where "RSP_START_STATE \<equiv> 0"
abbreviation (input) REQ_START_STATE :: nat where "REQ_START_STATE \<equiv> 18"
abbreviation (input) MSG_CHUNK_STATE :: nat where "MSG_CHUNK_STATE \<equiv> 82"
abbreviation (input) Z9 :: nat where "Z9 \<equiv> 88"

definition hi_fsm :: "(u8 \<times> nat \<times> nat \<times> hi_act) list" where
  "hi_fsm = [
    (72, 1, 86, ACT_NOP), (84, 2, 88, ACT_NOP), (84, 3, 88, ACT_NOP), (80, 4, 88, ACT_NOP), (47, 5, 88, ACT_NOP), (49, 6, 88, ACT_NOP),
    (46, 7, 88, ACT_NOP), (48, 9, 8, ACT_V10), (49, 9, 88, ACT_V11), (32, 10, 88, ACT_NOP), (32, 10, 11, ACT_NOP), (49, 16, 12, ACT_NOB),
    (50, 14, 13, ACT_NOP), (51, 14, 16, ACT_NOP), (48, 15, 16, ACT_NOP), (52, 17, 16, ACT_NOB), (0, 17, 17, ACT_NOP), (32, 88, 16, ACT_RSP),
    (72, 19, 23, ACT_NOP), (69, 20, 28, ACT_NOP), (65, 21, 28, ACT_NOP), (68, 22, 28, ACT_NOP), (32, 30, 28, ACT_NOB), (80, 24, 28, ACT_NOP),
    (79, 25, 28, ACT_NOP), (83, 26, 28, ACT_NOP), (84, 27, 28, ACT_NOP), (32, 30, 28, ACT_PST), (32, 30, 29, ACT_NOP), (0, 28, 28, ACT_NOP),
    (32, 30, 31, ACT_NOP), (10, 88, 32, ACT_V09), (32, 34, 33, ACT_NOP), (0, 31, 31, ACT_NOP), (32, 34, 35, ACT_NOP), (10, 88, 88, ACT_V09),
    (67, 37, 53, ACT_NOP), (79, 38, 88, ACT_NOP), (78, 39, 88, ACT_NOP), (84, 40, 88, ACT_NOP), (69, 41, 88, ACT_NOP), (78, 42, 88, ACT_NOP),
    (84, 43, 88, ACT_NOP), (45, 44, 88, ACT_NOP), (76, 45, 88, ACT_NOP), (69, 46, 88, ACT_NOP), (78, 47, 88, ACT_NOP), (71, 48, 88, ACT_NOP),
    (84, 49, 88, ACT_NOP), (72, 50, 88, ACT_NOP), (32, 50, 51, ACT_NOP), (58, 52, 88, ACT_NOP), (32, 52, 80, ACT_LN0), (84, 54, 88, ACT_NOP),
    (82, 55, 88, ACT_NOP), (65, 56, 88, ACT_NOP), (78, 57, 88, ACT_NOP), (83, 58, 88, ACT_NOP), (70, 59, 88, ACT_NOP), (69, 60, 88, ACT_NOP),
    (82, 61, 88, ACT_NOP), (45, 62, 88, ACT_NOP), (69, 63, 88, ACT_NOP), (78, 64, 88, ACT_NOP), (67, 65, 88, ACT_NOP), (79, 66, 88, ACT_NOP),
    (68, 67, 88, ACT_NOP), (73, 68, 88, ACT_NOP), (78, 69, 88, ACT_NOP), (71, 70, 88, ACT_NOP), (32, 70, 71, ACT_NOP), (58, 72, 88, ACT_NOP),
    (32, 72, 73, ACT_NOP), (67, 74, 88, ACT_NOP), (72, 75, 88, ACT_NOP), (85, 76, 88, ACT_NOP), (78, 77, 88, ACT_NOP), (75, 78, 88, ACT_NOP),
    (69, 79, 88, ACT_NOP), (68, 88, 88, ACT_CHK), (10, 36, 81, ACT_LNB), (0, 80, 80, ACT_SHI), (10, 84, 83, ACT_LNC), (0, 82, 82, ACT_SHX),
    (10, 82, 85, ACT_LN0), (0, 84, 84, ACT_NOP), (32, 0, 87, ACT_NOP), (10, 0, 89, ACT_NOP), (10, 36, 89, ACT_NOP), (0, 88, 88, ACT_NOP)]"

section \<open>Actions\<close>

definition isdigit :: "u8 \<Rightarrow> bool" where "isdigit c \<longleftrightarrow> 48 \<le> c \<and> c \<le> 57"
definition isupper :: "u8 \<Rightarrow> bool" where "isupper c \<longleftrightarrow> 65 \<le> c \<and> c \<le> 90"
definition isxdigit :: "u8 \<Rightarrow> bool" where "isxdigit c \<longleftrightarrow> isdigit c \<or> 65 \<le> c \<and> c \<le> 70 \<or> 97 \<le> c \<and> c \<le> 102"
definition toupper :: "u8 \<Rightarrow> u8" where "toupper c = (if 97 \<le> c \<and> c \<le> 122 then c - 32 else c)"

definition dton :: "u8 \<Rightarrow> u32" where "dton c = ucast c - 48"
definition xton :: "u8 \<Rightarrow> u32" where
  "xton c = (if isdigit c then ucast c - 48 else if isupper c then ucast c - 65 + 10 else ucast c - 97 + 10)"

definition hi_post :: "hi_paf_event \<Rightarrow> HiState \<Rightarrow> HiState" where
  "hi_post e s = s\<lparr>hs_evs := hs_evs s @ [e]\<rparr>"

definition set_hif :: "u16 \<Rightarrow> HiState \<Rightarrow> HiState" where
  "set_hif f s = s\<lparr>hs_flags := hs_flags s OR f\<rparr>"

definition has_hif :: "HiState \<Rightarrow> u16 \<Rightarrow> bool" where
  "has_hif s f \<longleftrightarrow> hs_flags s AND f \<noteq> 0"

fun hi_exec :: "HiState \<Rightarrow> hi_act \<Rightarrow> u8 \<Rightarrow> PAF_Status \<times> HiState" where
  "hi_exec s ACT_NOP c = (PAF_SEARCH, s)"
| "hi_exec s ACT_V09 c = (PAF_SEARCH, set_hif (HIF_V09 OR HIF_ERR) s)"
| "hi_exec s ACT_V10 c = (PAF_SEARCH, set_hif HIF_V10 s)"
| "hi_exec s ACT_V11 c = (PAF_SEARCH, set_hif HIF_V11 s)"
| "hi_exec s ACT_NOB c = (PAF_SEARCH, set_hif HIF_NOB s)"
| "hi_exec s ACT_PST c = (PAF_SEARCH, set_hif HIF_PST s)"
| "hi_exec s ACT_REQ c = (PAF_SEARCH, set_hif HIF_REQ s)"
| "hi_exec s ACT_RSP c = (PAF_SEARCH, set_hif HIF_RSP s)"
| "hi_exec s ACT_SHI c =
     (if has_hif s HIF_ERR then (PAF_SEARCH, s)
      else if isdigit c \<and> hs_len s < 429496728 then (PAF_SEARCH, s\<lparr>hs_len := 10 * hs_len s + dton c\<rparr>)
      else (PAF_SEARCH, set_hif HIF_ERR (hi_post MSG_SIZE_EXCEPTION s)))"
| "hi_exec s ACT_SHX c =
     (if has_hif s HIF_ERR then (PAF_SEARCH, s)
      else if isxdigit c \<and> hs_len s AND 0xF8000000 = 0 then (PAF_SEARCH, s\<lparr>hs_len := push_bit 4 (hs_len s) + xton c\<rparr>)
      else (PAF_FLUSH, set_hif HIF_ERR (hi_post MSG_SIZE_EXCEPTION s)))"
| "hi_exec s ACT_LNB c = (PAF_SEARCH, set_hif HIF_LEN s)"
| "hi_exec s ACT_LNC c =
     (let s = set_hif HIF_LEN s
      in if hs_len s \<noteq> 0 then (PAF_SKIP, s)
         else (PAF_SEARCH, s\<lparr>hs_flags := hs_flags s AND NOT HIF_NOF, hs_msg := 3\<rparr>))"
| "hi_exec s ACT_LN0 c = (PAF_SEARCH, s\<lparr>hs_len := 0\<rparr>)"
| "hi_exec s ACT_CHK c = (PAF_SEARCH, set_hif HIF_CHK s)"
| "hi_exec s ACT_CK0 c =
     (PAF_SEARCH, s\<lparr>hs_flags := (hs_flags s OR HIF_NOF) AND NOT HIF_CHK, hs_fsm := MSG_CHUNK_STATE, hs_len := 0\<rparr>)"

section \<open>Control\<close>

text \<open>
  The loop of \<open>hi_scan_fsm\<close> along the second successors, up to an entry whose event is the character or
  0. The result is the action and the first successor of that entry; \<open>None\<close> if none is found.
\<close>

fun fsm_walk :: "nat \<Rightarrow> nat \<Rightarrow> u8 \<Rightarrow> (hi_act \<times> nat) option" where
  "fsm_walk 0 m c = None"
| "fsm_walk (Suc n) m c =
     (case hi_fsm ! m of (event, match, other, action) \<Rightarrow>
        if event = 0 \<or> event = c then Some (action, match) else fsm_walk n other c)"

definition hi_scan_fsm :: "HiState \<Rightarrow> u8 \<Rightarrow> (PAF_Status \<times> HiState) option" where
  "hi_scan_fsm s c =
     (let c = (if c = 9 then LWS else toupper c)
      in case fsm_walk (length hi_fsm) (hs_fsm s) c of
           None \<Rightarrow> None
         | Some (a, m) \<Rightarrow> Some (hi_exec (s\<lparr>hs_fsm := m\<rparr>) a c))"

definition hi_unbounded :: "HiState \<Rightarrow> HiState" where
  "hi_unbounded s = (if has_hif s HIF_PST \<and> \<not> has_hif s (HIF_CHK OR HIF_LEN) then set_hif HIF_ERR (hi_post UNBOUNDED_POST s) else s)"

definition hi_eoh :: "HiState \<Rightarrow> PAF_Status \<times> HiState" where
  "hi_eoh s =
     (let s = hi_unbounded s
      in if has_hif s HIF_ERR \<or> has_hif s HIF_NOB \<and> has_hif s HIF_RSP then
           let s = (if has_hif s HIF_V09 then hi_post SIMPLE_REQUEST s else s)
           in (PAF_FLUSH, snd (hi_exec s ACT_LN0 0))
         else if has_hif s HIF_CHK then (PAF_SEARCH, snd (hi_exec s ACT_CK0 0))
         else if has_hif s (HIF_REQ OR HIF_LEN) then (PAF_FLUSH, s)
         else if has_hif s HIF_V11 \<and> has_hif s HIF_RSP then
           (PAF_FLUSH, hi_post MSG_SIZE_EXCEPTION (snd (hi_exec s ACT_LN0 0)))
         else (PAF_ABORT, s))"

text \<open>The switch over the part of the message, and around it the carriage returns and the flush point.\<close>

definition hi_msg_switch :: "HiState \<Rightarrow> u8 \<Rightarrow> (PAF_Status \<times> HiState) option" where
  "hi_msg_switch s c =
     (if hs_msg s = 0 then
        if c = EOL then
          if \<not> has_hif s HIF_EOL then
            (case hi_scan_fsm (set_hif HIF_EOL s) EOL of
               None \<Rightarrow> None
             | Some (r, s) \<Rightarrow> Some (if has_hif s HIF_V09 then hi_eoh s else (r, s\<lparr>hs_msg := 1\<rparr>)))
          else if has_hif s HIF_NOF then hi_scan_fsm s EOL
          else Some (PAF_SEARCH, s\<lparr>hs_msg := 1\<rparr>)
        else hi_scan_fsm s c
      else if hs_msg s = 1 then
        map_option (\<lambda>(r, s). (r, s\<lparr>hs_msg := 0\<rparr>))
          (if c = EOL then map_option (\<lambda>(r, s). hi_eoh s) (hi_scan_fsm s EOL)
           else if c = 32 \<or> c = 9 then hi_scan_fsm s LWS
           else (case hi_scan_fsm s EOL of
                   None \<Rightarrow> None
                 | Some (r, s) \<Rightarrow> if r = PAF_SEARCH then hi_scan_fsm s c else Some (r, s)))
      else if hs_msg s = 3 then
        if c = EOL then Some (hi_eoh s) else Some (PAF_SEARCH, s\<lparr>hs_msg := 4\<rparr>)
      else if hs_msg s = 4 then
        if c = EOL then Some (PAF_SEARCH, s\<lparr>hs_msg := 3\<rparr>) else Some (PAF_SEARCH, s)
      else Some (PAF_SEARCH, s))"

definition hi_scan_msg :: "HiState \<Rightarrow> u8 \<Rightarrow> u32 \<Rightarrow> (PAF_Status \<times> HiState \<times> u32) option" where
  "hi_scan_msg s c fp =
     (if c = 13 then Some (PAF_SEARCH, s, 0)
      else map_option (\<lambda>(r, s). (r, s, if r \<noteq> PAF_SEARCH then hs_len s else fp)) (hi_msg_switch s c))"

definition hi_reset :: "HiState \<Rightarrow> u32 \<Rightarrow> HiState" where
  "hi_reset s flags =
     (if flags AND PKT_FROM_CLIENT \<noteq> 0
      then s\<lparr>hs_len := 0, hs_msg := 0, hs_fsm := REQ_START_STATE, hs_flags := HIF_REQ\<rparr>
      else s\<lparr>hs_len := 0, hs_msg := 0, hs_fsm := RSP_START_STATE, hs_flags := HIF_RSP\<rparr>)"

definition hi_calloc :: HiState where
  "hi_calloc = \<lparr>hs_len = 0, hs_flags = 0, hs_msg = 0, hs_fsm = 0, hs_evs = []\<rparr>"

definition hi_update_peer :: "HiState \<Rightarrow> HiState option \<Rightarrow> HiState option" where
  "hi_update_peer s peer =
     (if hs_flags s AND (HIF_NOB OR HIF_REQ) \<noteq> HIF_NOB OR HIF_REQ then peer
      else Some (set_hif HIF_NOB (case peer of None \<Rightarrow> hi_reset hi_calloc 0 | Some p \<Rightarrow> p)))"

text \<open>
  The loop of \<open>hi_paf\<close> from the bytes \<open>xs\<close> on, of which there were \<open>len\<close> at first, up to a status other
  than \<open>PAF_SEARCH\<close>: the status, the state, the number of bytes read and the flush point so far.
\<close>

definition skip_line :: "HiState \<Rightarrow> u8 list \<Rightarrow> u8 list" where
  "skip_line s xs = (if hs_msg s = 0 \<and> hs_fsm s = Z9 then dropWhile (\<lambda>c. c \<noteq> EOL) xs else xs)"

lemma skip_line_le: "skip_line s xs = c # ys \<Longrightarrow> length ys < length xs"
  by (metis Suc_le_eq length_Cons length_dropWhile_le skip_line_def order_refl)

function hi_scan :: "HiState \<Rightarrow> u8 list \<Rightarrow> nat \<Rightarrow> u32 \<Rightarrow> (PAF_Status \<times> HiState \<times> nat \<times> u32) option" where
  "hi_scan s xs len fp =
     (case skip_line s xs of
        [] \<Rightarrow> Some (PAF_SEARCH, s, len, fp)
      | c # ys \<Rightarrow>
          (case hi_scan_msg s c fp of
             None \<Rightarrow> None
           | Some (r, s, fp) \<Rightarrow>
               if r \<noteq> PAF_SEARCH then Some (r, s, len - length ys, fp) else hi_scan s ys len fp))"
  by pat_completeness auto
termination by (relation "measure (\<lambda>(s, xs, len, fp). length xs)") (auto simp: skip_line_le)

text \<open>
  \<open>cap\<close> is \<open>hi_cap\<close>, \<open>bytes\<close> the counter \<open>hi_paf_bytes\<close>; \<open>peer\<close> is the state of the other direction.
\<close>

definition hi_paf :: "u32 \<Rightarrow> HiState option \<Rightarrow> HiState option \<Rightarrow> u32 \<Rightarrow> u8 list \<Rightarrow> u32 \<Rightarrow>
    (PAF_Status \<times> HiState option \<times> HiState option \<times> u32 \<times> u32) option" where
  "hi_paf cap hip peer bytes data flags =
     (let s = (case hip of None \<Rightarrow> hi_reset hi_calloc flags | Some s \<Rightarrow> s)
      in if has_hif s HIF_ERR then Some (PAF_ABORT, Some s, peer, 0, bytes)
         else if cap \<noteq> 0 \<and> cap < bytes then Some (PAF_ABORT, Some s, peer, 0, bytes)
         else (case hi_scan s data (length data) 0 of
                 None \<Rightarrow> None
               | Some (r, s, n, fp) \<Rightarrow>
                   let bytes = bytes + of_nat n
                   in if r = PAF_SEARCH then Some (r, Some s, peer, fp, bytes)
                      else if has_hif s HIF_ERR then Some (r, Some s, peer, of_nat (length data), bytes)
                      else Some (r, Some (if r \<noteq> PAF_SKIP then hi_reset s flags else s), hi_update_peer s peer,
                             fp + of_nat n, bytes)))"

end
