(* ===== verification/HiProofs.thy ===== *)
theory HiProofs
  imports PafProofs HiPaf
begin

text \<open>
  The HTTP scanner: its table always finds an entry, the jump over the rest of a header line it has no
  interest in changes nothing, and it meets the contract of \<open>paf_scanner\<close>, so that a stream of messages
  with a content length is flushed message by message whatever its segments. The content length is the
  decimal number of the header; the flush point computed from it may wrap around.
\<close>

section \<open>The table\<close>

lemma length_hi_fsm: "length hi_fsm = 90" by (simp add: hi_fsm_def)

lemma fsm_table:
  "list_all (\<lambda>(m, e, m1, m2, a). m1 < 90 \<and> m2 < 90 \<and> (e = 0 \<or> m < m2 \<or> m2 = 16) \<and> (m = 16 \<or> m = 89 \<longrightarrow> e = 0)) (zip [0..<90] hi_fsm)"
  by code_simp

lemma fsm_entry:
  assumes "m < 90" and "hi_fsm ! m = (e, m1, m2, a)"
  shows "m1 < 90 \<and> m2 < 90 \<and> (e = 0 \<or> m < m2 \<or> m2 = 16) \<and> (m = 16 \<or> m = 89 \<longrightarrow> e = 0)"
proof -
  have "(m, e, m1, m2, a) \<in> set (zip [0..<90] hi_fsm)"
    using assms by (auto simp: set_zip length_hi_fsm intro!: exI [of _ m])
  then show ?thesis using fsm_table by (auto simp only: list_all_iff)
qed

text \<open>Along the second successors the entries get closer to one that takes any character.\<close>

lemma fsm_walk_total:
  "m < 90 \<Longrightarrow> (if m = 16 then 0 else 89 - m) < n \<Longrightarrow> \<exists>a m'. fsm_walk n m c = Some (a, m') \<and> m' < 90"
proof (induction n arbitrary: m)
  case (Suc n)
  obtain e m1 m2 a where f: "hi_fsm ! m = (e, m1, m2, a)" by (cases "hi_fsm ! m")
  note en = fsm_entry [OF Suc.prems(1) f]
  show ?case
  proof (cases "e = 0 \<or> e = c")
    case False
    then have "(if m2 = 16 then 0 else 89 - m2) < n" using en Suc.prems by (auto split: if_splits)
    then show ?thesis using Suc.IH [of m2] en f False by simp
  qed (use en f in auto)
qed simp
lemma hi_scan_fsm_total:
  assumes "hs_fsm s < 90"
  shows "\<exists>a m. hi_scan_fsm s c = Some (hi_exec (s\<lparr>hs_fsm := m\<rparr>) a (if c = 9 then LWS else toupper c)) \<and> m < 90"
proof -
  let ?c = "if c = 9 then LWS else toupper c"
  obtain a m where "fsm_walk 90 (hs_fsm s) ?c = Some (a, m)" "m < 90"
    using fsm_walk_total [OF assms, of 90 ?c] by (force split: if_splits)
  then show ?thesis unfolding hi_scan_fsm_def Let_def length_hi_fsm by auto
qed

section \<open>Scanning part by part\<close>

lemma hi_scan_step: "hi_scan s (c # xs) len fp =
   (if hs_msg s = 0 \<and> hs_fsm s = Z9 \<and> c \<noteq> EOL then hi_scan s xs len fp
    else case hi_scan_msg s c fp of
      None \<Rightarrow> None
    | Some (r, s, fp) \<Rightarrow> if r \<noteq> PAF_SEARCH then Some (r, s, len - length xs, fp) else hi_scan s xs len fp)"
  by (subst hi_scan.simps) (subst (2) hi_scan.simps, auto simp: skip_line_def split: list.splits)

lemma hi_scan_Nil: "hi_scan s [] len fp = Some (PAF_SEARCH, s, len, fp)"
  by (subst hi_scan.simps) (simp add: skip_line_def)

declare hi_scan.simps [simp del]

lemma hi_scan_cons_cases:
  obtains (skip) "hs_msg s = 0" "hs_fsm s = Z9" "c \<noteq> EOL" "\<And>xs len fp. hi_scan s (c # xs) len fp = hi_scan s xs len fp"
  | (scan) "\<And>xs len fp. hi_scan s (c # xs) len fp = (case hi_scan_msg s c fp of
      None \<Rightarrow> None
    | Some (r, s, fp) \<Rightarrow> if r \<noteq> PAF_SEARCH then Some (r, s, len - length xs, fp) else hi_scan s xs len fp)"
  using hi_scan_step by (cases "hs_msg s = 0 \<and> hs_fsm s = Z9 \<and> c \<noteq> EOL") simp_all

lemma hi_scan_msg_cases:
  obtains (none) "\<And>fp. hi_scan_msg s c fp = None"
  | (search) s' where "\<And>fp. hi_scan_msg s c fp = Some (PAF_SEARCH, s', if c = 13 then 0 else fp)"
  | (found) r s' where "r \<noteq> PAF_SEARCH" "\<And>fp. hi_scan_msg s c fp = Some (r, s', hs_len s')"
proof (cases "c = 13")
  case True
  then show ?thesis using search by (simp add: hi_scan_msg_def)
next
  case False
  show ?thesis
  proof (cases "hi_msg_switch s c")
    case None
    then show ?thesis using none False by (simp add: hi_scan_msg_def)
  next
    case (Some rs)
    then show ?thesis using search [of "snd rs"] found [of "fst rs" "snd rs"] False
      by (cases "fst rs = PAF_SEARCH") (simp_all add: hi_scan_msg_def case_prod_unfold)
  qed
qed

text \<open>
  What a scan finds: the flush point passed in does not count, nor does what comes after the end.
\<close>

definition found :: "(PAF_Status \<times> HiState \<times> nat \<times> u32) option \<Rightarrow> (PAF_Status \<times> HiState \<times> nat \<times> u32) option" where
  "found = map_option (\<lambda>(r, s, n, f). (r, s, n, if r = PAF_SEARCH then 0 else f))"

lemma hi_scan_fp: "found (hi_scan s a len fp) = found (hi_scan s a len g)"
proof (induction a arbitrary: s fp g)
  case (Cons c a)
  show ?case
  proof (cases rule: hi_scan_cons_cases [of s c])
    case skip
    then show ?thesis using Cons by simp
  next
    case scan
    then show ?thesis using Cons by (cases rule: hi_scan_msg_cases [of s c]) auto
  qed
qed (simp add: hi_scan_Nil found_def)

lemma hi_scan_append:
  "hi_scan s (a @ b) (len + length b) fp = (case hi_scan s a len fp of
      None \<Rightarrow> None
    | Some (r, s', n, f) \<Rightarrow> if r \<noteq> PAF_SEARCH then Some (r, s', n, f) else hi_scan s' b (len + length b) f)"
proof (induction a arbitrary: s fp)
  case (Cons c a)
  show ?case
  proof (cases rule: hi_scan_cons_cases [of s c])
    case skip
    then show ?thesis using Cons by simp
  next
    case scan
    then show ?thesis using Cons by (cases rule: hi_scan_msg_cases [of s c]) auto
  qed
qed (simp add: hi_scan_Nil)

lemma hi_scan_shift:
  "length a \<le> len \<Longrightarrow> hi_scan s a (k + len) fp = map_option (\<lambda>(r, s, n, f). (r, s, k + n, f)) (hi_scan s a len fp)"
proof (induction a arbitrary: s fp)
  case (Cons c a)
  show ?case
  proof (cases rule: hi_scan_cons_cases [of s c])
    case skip
    then show ?thesis using Cons by simp
  next
    case scan
    then show ?thesis using Cons by (cases rule: hi_scan_msg_cases [of s c]) auto
  qed
qed (simp add: hi_scan_Nil)

text \<open>An error stays, and the table entry stays in the table.\<close>

lemma has_ERR: "has_hif s HIF_ERR \<longleftrightarrow> bit (hs_flags s) 9"
proof -
  have "HIF_ERR = 2 ^ 9" by (simp add: HIF_ERR_def)
  then show ?thesis unfolding has_hif_def using and_exp_eq_0_iff_not_bit [of "hs_flags s" 9] by metis
qed

lemma NOT_bits [simp]: "bit (NOT HIF_NOF) 9" "bit (NOT HIF_CHK) 9"
  by (simp_all add: bit_simps HIF_NOF_def HIF_CHK_def)

lemma hi_exec_err: "bit (hs_flags s) 9 \<Longrightarrow> bit (hs_flags (snd (hi_exec s a c))) 9"
  by (cases a) (auto simp: set_hif_def hi_post_def Let_def bit_or_iff bit_and_iff)

lemma hi_exec_fsm: "hs_fsm s < 90 \<Longrightarrow> hs_fsm (snd (hi_exec s a c)) < 90"
  by (cases a) (auto simp: set_hif_def hi_post_def Let_def)

lemma hi_eoh_err: "bit (hs_flags s) 9 \<Longrightarrow> bit (hs_flags (snd (hi_eoh s))) 9"
  by (auto simp: hi_eoh_def hi_unbounded_def Let_def set_hif_def hi_post_def bit_or_iff bit_and_iff)

lemma hi_eoh_fsm: "hs_fsm s < 90 \<Longrightarrow> hs_fsm (snd (hi_eoh s)) < 90"
  by (auto simp: hi_eoh_def hi_unbounded_def Let_def set_hif_def hi_post_def)

lemma hi_scan_fsm_err: "hi_scan_fsm s c = Some (r, s') \<Longrightarrow> bit (hs_flags s) 9 \<Longrightarrow> bit (hs_flags s') 9"
  using hi_exec_err [of "s\<lparr>hs_fsm := m\<rparr>" for m] by (auto simp: hi_scan_fsm_def Let_def split: option.splits) (metis HiState.select_convs(2) HiState.surjective HiState.update_convs(4) snd_conv)+

lemma hi_scan_fsm_fsm: "hi_scan_fsm s c = Some (r, s') \<Longrightarrow> hs_fsm s < 90 \<Longrightarrow> hs_fsm s' < 90"
  using hi_scan_fsm_total [of s c] hi_exec_fsm by (metis HiState.select_convs(4) HiState.surjective HiState.update_convs(4) option.inject snd_conv)

lemma hi_msg_switch_keeps:
  assumes "\<And>s c r s'. hi_scan_fsm s c = Some (r, s') \<Longrightarrow> P s \<Longrightarrow> P s'" and "\<And>s. P s \<Longrightarrow> P (snd (hi_eoh s))"
    and "\<And>s m. P s \<Longrightarrow> P (s\<lparr>hs_msg := m\<rparr>)" and "\<And>s. P s \<Longrightarrow> P (set_hif HIF_EOL s)"
    and "hi_msg_switch s c = Some (r, s')" and "P s"
  shows "P s'"
proof -
  have eoh: "hi_eoh t = (r', t') \<Longrightarrow> P t \<Longrightarrow> P t'" for t r' t' using assms(2) [of t] by simp
  show ?thesis
    using assms(5,6) assms(1) assms(3,4) eoh unfolding hi_msg_switch_def
    by (auto split: if_splits option.splits prod.splits)
qed

lemma hi_msg_switch_err: "hi_msg_switch s c = Some (r, s') \<Longrightarrow> bit (hs_flags s) 9 \<Longrightarrow> bit (hs_flags s') 9"
  by (rule hi_msg_switch_keeps [where P = "\<lambda>s. bit (hs_flags s) 9"])
    (auto intro: hi_scan_fsm_err hi_eoh_err simp: set_hif_def bit_or_iff)

lemma hi_msg_switch_fsm: "hi_msg_switch s c = Some (r, s') \<Longrightarrow> hs_fsm s < 90 \<Longrightarrow> hs_fsm s' < 90"
  by (rule hi_msg_switch_keeps [where P = "\<lambda>s. hs_fsm s < 90"])
    (auto intro: hi_scan_fsm_fsm hi_eoh_fsm simp: set_hif_def)

text \<open>Scanning keeps what the switch keeps, so it never runs off the table.\<close>

lemma hi_scan_keeps:
  assumes "\<And>s c r s'. hi_msg_switch s c = Some (r, s') \<Longrightarrow> P s \<Longrightarrow> P s'"
  shows "hi_scan s xs len fp = Some (r, s', n, f) \<Longrightarrow> P s \<Longrightarrow> P s'"
proof (induction xs arbitrary: s fp)
  case (Cons c xs)
  have m: "hi_scan_msg s c fp = Some (r1, s1, f1) \<Longrightarrow> P s1" for r1 s1 f1
    using Cons.prems(2) assms by (auto simp: hi_scan_msg_def split: if_splits)
  show ?case
  proof (cases rule: hi_scan_cons_cases [of s c])
    case skip
    then show ?thesis using Cons by simp
  next
    case scan
    then show ?thesis using Cons m by (auto split: option.splits prod.splits if_splits)
  qed
qed (simp add: hi_scan_Nil)

lemma hi_scan_fsm_Some:
  assumes "hs_fsm s < 90"
  obtains r s' where "hi_scan_fsm s c = Some (r, s')" "hs_fsm s' < 90"
  using hi_scan_fsm_total [OF assms, of c] hi_scan_fsm_fsm [of s c] assms by (metis surj_pair)

lemma hi_msg_switch_total:
  assumes "hs_fsm s < 90"
  shows "hi_msg_switch s c \<noteq> None"
proof -
  obtain r1 s1 where 1: "hi_scan_fsm s EOL = Some (r1, s1)" "hs_fsm s1 < 90" by (rule hi_scan_fsm_Some [OF assms])
  obtain r2 s2 where 2: "hi_scan_fsm s c = Some (r2, s2)" by (rule hi_scan_fsm_Some [OF assms])
  obtain r3 s3 where 3: "hi_scan_fsm s LWS = Some (r3, s3)" by (rule hi_scan_fsm_Some [OF assms])
  obtain r4 s4 where 4: "hi_scan_fsm s1 c = Some (r4, s4)" by (rule hi_scan_fsm_Some [OF 1(2)])
  have "hs_fsm (set_hif HIF_EOL s) < 90" using assms by (simp add: set_hif_def)
  then obtain r5 s5 where 5: "hi_scan_fsm (set_hif HIF_EOL s) EOL = Some (r5, s5)" by (rule hi_scan_fsm_Some)
  show ?thesis by (simp add: hi_msg_switch_def 1 2 3 4 5)
qed

lemma hi_scan_total: "hs_fsm s < 90 \<Longrightarrow> hi_scan s xs len fp \<noteq> None"
proof (induction xs arbitrary: s fp)
  case (Cons c xs)
  show ?case
  proof (cases rule: hi_scan_cons_cases [of s c])
    case skip
    then show ?thesis using Cons by simp
  next
    case scan
    have "hi_scan_msg s c fp \<noteq> None" using hi_msg_switch_total [OF Cons.prems, of c] by (simp add: hi_scan_msg_def)
    moreover have "hi_scan_msg s c fp = Some (r1, s1, f1) \<Longrightarrow> hs_fsm s1 < 90" for r1 s1 f1
      using Cons.prems hi_msg_switch_fsm [of s c] by (auto simp: hi_scan_msg_def split: if_splits)
    ultimately show ?thesis using Cons.IH scan by (auto split: option.splits)
  qed
qed (simp add: hi_scan_Nil)

section \<open>The events posted do not count\<close>

definition same_hi :: "HiState \<Rightarrow> HiState \<Rightarrow> bool" where
  "same_hi s t \<longleftrightarrow> hs_len s = hs_len t \<and> hs_flags s = hs_flags t \<and> hs_msg s = hs_msg t \<and> hs_fsm s = hs_fsm t"

abbreviation (input) same_result :: "(PAF_Status \<times> HiState) option \<Rightarrow> (PAF_Status \<times> HiState) option \<Rightarrow> bool" where
  "same_result \<equiv> rel_option (rel_prod (=) same_hi)"

lemma same_has: "same_hi s t \<Longrightarrow> has_hif s f = has_hif t f"
  by (simp add: same_hi_def has_hif_def)

lemma hi_exec_same: "same_hi s t \<Longrightarrow> rel_prod (=) same_hi (hi_exec s a c) (hi_exec t a c)"
  by (cases a) (auto simp: same_hi_def set_hif_def has_hif_def hi_post_def Let_def)

lemma hi_eoh_same:
  assumes "same_hi s t"
  shows "rel_prod (=) same_hi (hi_eoh s) (hi_eoh t)"
proof -
  have u: "same_hi (hi_unbounded s) (hi_unbounded t)"
    using assms same_has [OF assms] by (auto simp: hi_unbounded_def same_hi_def set_hif_def hi_post_def)
  have p: "same_hi x y \<Longrightarrow> same_hi (hi_post e x) (hi_post e y)" for x y e by (simp add: same_hi_def hi_post_def)
  have x: "same_hi x y \<Longrightarrow> same_hi (snd (hi_exec x a c)) (snd (hi_exec y a c))" for x y a c
    using hi_exec_same [of x y a c] by (auto simp: rel_prod_sel)
  show ?thesis unfolding hi_eoh_def Let_def same_has [OF u] using u by (simp add: p x del: hi_exec.simps)
qed

lemma hi_scan_fsm_same:
  assumes "same_hi s t"
  shows "same_result (hi_scan_fsm s c) (hi_scan_fsm t c)"
proof -
  have "same_hi (s\<lparr>hs_fsm := m\<rparr>) (t\<lparr>hs_fsm := m\<rparr>)" for m using assms by (simp add: same_hi_def)
  moreover have "hs_fsm s = hs_fsm t" using assms by (simp add: same_hi_def)
  ultimately show ?thesis unfolding hi_scan_fsm_def Let_def by (auto intro: hi_exec_same split: option.split)
qed

lemma fsm_same_cases:
  assumes "same_hi s t"
  obtains (none) "hi_scan_fsm s c = None" "hi_scan_fsm t c = None"
  | (some) r x y where "hi_scan_fsm s c = Some (r, x)" "hi_scan_fsm t c = Some (r, y)" "same_hi x y"
  using hi_scan_fsm_same [OF assms, of c] by (cases "hi_scan_fsm s c"; cases "hi_scan_fsm t c") auto

lemma hi_msg_switch_same:
  assumes "same_hi s t"
  shows "same_result (hi_msg_switch s c) (hi_msg_switch t c)"
proof -
  have f: "hs_msg s = hs_msg t" using assms by (simp add: same_hi_def)
  have e: "same_hi (set_hif HIF_EOL s) (set_hif HIF_EOL t)" using assms by (simp add: same_hi_def set_hif_def)
  have m: "same_hi x y \<Longrightarrow> same_hi (x\<lparr>hs_msg := k\<rparr>) (y\<lparr>hs_msg := k\<rparr>)" for x y k by (simp add: same_hi_def)
  have eoh: "same_hi x y \<Longrightarrow> rel_prod (=) same_hi (case hi_eoh x of (r, s) \<Rightarrow> (r, s\<lparr>hs_msg := k\<rparr>)) (case hi_eoh y of (r, s) \<Rightarrow> (r, s\<lparr>hs_msg := k\<rparr>))" for x y k
    using hi_eoh_same [of x y] m by (auto simp: rel_prod_sel split: prod.split)
  consider "hs_msg t = 0" | "hs_msg t = 1" "c = EOL" | "hs_msg t = 1" "c = 32 \<or> c = 9" "c \<noteq> EOL"
    | "hs_msg t = 1" "\<not> (c = 32 \<or> c = 9)" "c \<noteq> EOL" | "1 < hs_msg t" by linarith
  then show ?thesis
  proof cases
    case 1
    then show ?thesis unfolding hi_msg_switch_def f same_has [OF assms]
      using hi_scan_fsm_same [OF assms, of c] hi_scan_fsm_same [OF assms, of EOL] m [OF assms] hi_eoh_same
      by (cases rule: fsm_same_cases [OF e, of EOL]) (auto simp: same_has m)
  next
    case 2
    then show ?thesis using eoh by (cases rule: fsm_same_cases [OF assms, of EOL]) (simp_all add: hi_msg_switch_def f)
  next
    case 3
    then show ?thesis using m by (cases rule: fsm_same_cases [OF assms, of LWS]) (auto simp: hi_msg_switch_def f)
  next
    case 4
    show ?thesis
    proof (cases rule: fsm_same_cases [OF assms, of EOL, case_names none some])
      case none
      then show ?thesis using 4 by (simp add: hi_msg_switch_def f)
    next
      case (some r x y)
      then show ?thesis using 4 m [of x y] m
        by (cases rule: fsm_same_cases [OF some(3), of c]) (auto simp: hi_msg_switch_def f)
    qed
  next
    case 5
    then show ?thesis using m [OF assms] hi_eoh_same [OF assms] assms by (auto simp: hi_msg_switch_def f)
  qed
qed

lemma hi_scan_same:
  "same_hi s t \<Longrightarrow> rel_option (rel_prod (=) (rel_prod same_hi (=))) (hi_scan s xs len fp) (hi_scan t xs len fp)"
proof (induction xs arbitrary: s t fp)
  case (Cons c xs)
  have eq: "hs_msg s = hs_msg t" "hs_fsm s = hs_fsm t" using Cons.prems by (simp_all add: same_hi_def)
  show ?case
  proof (cases "hs_msg t = 0 \<and> hs_fsm t = Z9 \<and> c \<noteq> EOL \<or> c = 13")
    case True
    then show ?thesis using Cons by (auto simp: hi_scan_step eq hi_scan_msg_def)
  next
    case False
    have len: "same_hi x y \<Longrightarrow> hs_len x = hs_len y" for x y by (simp add: same_hi_def)
    show ?thesis using hi_msg_switch_same [OF Cons.prems, of c] Cons.IH False
      by (cases "hi_msg_switch s c"; cases "hi_msg_switch t c") (auto simp: hi_scan_step eq hi_scan_msg_def len)
  qed
qed (simp add: hi_scan_Nil)

section \<open>The contract\<close>

definition hi_callback :: "HiState paf_callback" where
  "hi_callback u data flags fp =
     (case hi_paf 0 u None 0 data flags of None \<Rightarrow> (PAF_ABORT, u, 0) | Some (st, u', peer, f, b) \<Rightarrow> (st, u', f))"

definition hi_state :: "HiState option \<Rightarrow> u32 \<Rightarrow> HiState" where
  "hi_state u flags = (case u of None \<Rightarrow> hi_reset hi_calloc flags | Some s \<Rightarrow> s)"

definition hi_good :: "HiState option \<Rightarrow> bool" where
  "hi_good u \<longleftrightarrow> (\<forall>s. u = Some s \<longrightarrow> \<not> has_hif s HIF_ERR)"

definition hi_fresh :: "HiState option \<Rightarrow> u32 \<Rightarrow> bool" where
  "hi_fresh u flags \<longleftrightarrow> (\<forall>s. u = Some s \<longrightarrow> same_hi s (hi_reset hi_calloc flags))"

lemma reset_no_ERR: "\<not> has_hif (hi_reset s flags) HIF_ERR"
  by (simp add: hi_reset_def has_hif_def HIF_defs)

lemma same_reset: "same_hi (hi_reset s flags) (hi_reset t flags)"
  by (simp add: hi_reset_def same_hi_def)

lemma hi_callback_ERR: "has_hif (hi_state u flags) HIF_ERR \<Longrightarrow> hi_callback u data flags fp = (PAF_ABORT, Some (hi_state u flags), 0)"
  by (simp add: hi_callback_def hi_paf_def hi_state_def Let_def split: option.splits)

definition hi_result :: "HiState option \<Rightarrow> u32 \<Rightarrow> nat \<Rightarrow> (PAF_Status \<times> HiState \<times> nat \<times> u32) option \<Rightarrow> PAF_Status \<times> HiState option \<times> u32" where
  "hi_result u flags len res = (case res of
      None \<Rightarrow> (PAF_ABORT, u, 0)
    | Some (r, s, n, f) \<Rightarrow>
        if r = PAF_SEARCH then (r, Some s, f)
        else if has_hif s HIF_ERR then (r, Some s, of_nat len)
        else (r, Some (if r \<noteq> PAF_SKIP then hi_reset s flags else s), f + of_nat n))"

lemma hi_callback_scan:
  "\<not> has_hif (hi_state u flags) HIF_ERR \<Longrightarrow>
    hi_callback u data flags fp = hi_result u flags (length data) (hi_scan (hi_state u flags) data (length data) 0)"
  by (simp add: hi_callback_def hi_paf_def hi_state_def hi_result_def Let_def split: option.splits)

lemma hi_callback_SEARCH:
  assumes "hi_callback u a flags fp = (PAF_SEARCH, u1, f1)"
  shows "\<not> has_hif (hi_state u flags) HIF_ERR"
    and "\<exists>s n. hi_scan (hi_state u flags) a (length a) 0 = Some (PAF_SEARCH, s, n, f1) \<and> u1 = Some s"
proof -
  show *: "\<not> has_hif (hi_state u flags) HIF_ERR" using assms hi_callback_ERR by auto
  show "\<exists>s n. hi_scan (hi_state u flags) a (length a) 0 = Some (PAF_SEARCH, s, n, f1) \<and> u1 = Some s"
    using assms unfolding hi_callback_scan [OF *] by (auto simp: hi_result_def split: option.splits if_splits)
qed

lemma outcome_hi_result:
  "outcome (hi_result u flags (k + l) (map_option (\<lambda>(r, s, n, f). (r, s, k + n, f)) res)) = shift_by k (outcome (hi_result u' flags l res))"
  by (auto simp: hi_result_def outcome_def shift_by_def ac_simps split: option.splits prod.splits)

lemma good_hi_result:
  "hi_good u = hi_good u' \<Longrightarrow> hi_good (fst (snd (hi_result u flags m (map_option (\<lambda>(r, s, n, f). (r, s, k + n, f)) res)))) = hi_good (fst (snd (hi_result u' flags l res)))"
  by (auto simp: hi_result_def split: option.splits prod.splits)

lemma hi_result_found: "outcome (hi_result u flags l res) = outcome (hi_result u flags l (found res))"
    "hi_good (fst (snd (hi_result u flags l res))) = hi_good (fst (snd (hi_result u flags l (found res))))"
  by (auto simp: hi_result_def outcome_def found_def split: option.splits prod.splits)

lemma hi_split:
  assumes "hi_callback u a flags fp = (PAF_SEARCH, u1, f1)" and "hi_good u1"
  shows "outcome (hi_callback u (a @ b) flags fp) = shift_by (length a) (outcome (hi_callback u1 b flags g))
    \<and> hi_good (fst (snd (hi_callback u (a @ b) flags fp))) = hi_good (fst (snd (hi_callback u1 b flags g)))"
proof -
  note * = hi_callback_SEARCH(1) [OF assms(1)]
  obtain s n where s: "hi_scan (hi_state u flags) a (length a) 0 = Some (PAF_SEARCH, s, n, f1)" "u1 = Some s"
    using hi_callback_SEARCH(2) [OF assms(1)] by blast
  then have s1: "\<not> has_hif (hi_state u1 flags) HIF_ERR" "hi_state u1 flags = s" using assms(2) by (simp_all add: hi_good_def hi_state_def)
  have u: "hi_good u = hi_good u1" using * assms(2) by (auto simp: hi_good_def hi_state_def)
  have "hi_scan (hi_state u flags) (a @ b) (length a + length b) 0
      = map_option (\<lambda>(r, s, n, f). (r, s, length a + n, f)) (hi_scan s b (length b) f1)"
    using hi_scan_append [of "hi_state u flags" a b "length a" 0] hi_scan_shift [of b "length b" s "length a" f1] s by simp
  moreover have "outcome (hi_result u1 flags (length b) (hi_scan s b (length b) f1)) = outcome (hi_result u1 flags (length b) (hi_scan s b (length b) 0))"
    "hi_good (fst (snd (hi_result u1 flags (length b) (hi_scan s b (length b) f1)))) = hi_good (fst (snd (hi_result u1 flags (length b) (hi_scan s b (length b) 0))))"
    using hi_scan_fp [of s b "length b" f1 0] hi_result_found by metis+
  ultimately show ?thesis
    using outcome_hi_result [of u flags "length a" "length b" _ u1] good_hi_result [OF u, of flags _ "length a" _ "length b"]
    by (simp add: hi_callback_scan [OF *] hi_callback_scan [OF s1(1)] s1(2))
qed

lemma hi_stop:
  assumes "hi_callback u a flags fp = (st, u1, f1)" and "st \<noteq> PAF_SEARCH" and "hi_good u1"
  shows "outcome (hi_callback u (a @ b) flags g) = outcome (st, u1, f1) \<and> hi_good (fst (snd (hi_callback u (a @ b) flags g)))"
proof (cases "has_hif (hi_state u flags) HIF_ERR")
  case True
  then show ?thesis using assms by (simp add: hi_callback_ERR hi_good_def)
next
  case False
  have r: "hi_result u flags (length a) (hi_scan (hi_state u flags) a (length a) 0) = (st, u1, f1)"
    using assms(1) by (simp add: hi_callback_scan [OF False])
  then show ?thesis using hi_scan_append [of "hi_state u flags" a b "length a" 0] assms
    by (auto simp: hi_callback_scan [OF False] hi_result_def hi_good_def outcome_def split: option.splits if_splits prod.splits)
qed

lemma hi_fresh_same:
  assumes "hi_fresh u flags"
  shows "outcome (hi_callback u a flags fp) = outcome (hi_callback None a flags g)
    \<and> hi_good (fst (snd (hi_callback u a flags fp))) = hi_good (fst (snd (hi_callback None a flags g)))"
proof -
  let ?s = "hi_state u flags" and ?t = "hi_state None flags"
  have same: "same_hi ?s ?t" using assms same_reset by (cases u) (simp_all add: hi_fresh_def hi_state_def)
  have n: "\<not> has_hif ?t HIF_ERR" "\<not> has_hif ?s HIF_ERR"
    using reset_no_ERR same_has [OF same] by (simp_all add: hi_state_def)
  have good: "hi_good u" "hi_good None" using n by (auto simp: hi_good_def hi_state_def)
  consider "hi_scan ?s a (length a) 0 = None" "hi_scan ?t a (length a) 0 = None"
    | r x y n f where "hi_scan ?s a (length a) 0 = Some (r, x, n, f)" "hi_scan ?t a (length a) 0 = Some (r, y, n, f)" "same_hi x y"
    using hi_scan_same [OF same, of a "length a" 0] by (cases "hi_scan ?s a (length a) 0"; cases "hi_scan ?t a (length a) 0") auto
  then show ?thesis
  proof cases
    case 1
    then show ?thesis using good by (simp add: hi_callback_scan [OF n(1)] hi_callback_scan [OF n(2)] hi_result_def outcome_def)
  next
    case 2
    then show ?thesis using same_has [OF 2(3)]
      by (simp add: hi_callback_scan [OF n(1)] hi_callback_scan [OF n(2)] hi_result_def outcome_def hi_good_def reset_no_ERR)
  qed
qed

interpretation hi: paf_scanner hi_callback hi_good hi_fresh
proof
  show "hi_fresh u flags \<Longrightarrow> hi_good u" for u flags
    using reset_no_ERR by (auto simp: hi_fresh_def hi_good_def dest: same_has)
  show "hi_fresh None flags" for flags by (simp add: hi_fresh_def)
  show "hi_callback u a flags fp = (PAF_FLUSH, u1, f1) \<Longrightarrow> hi_good u1 \<Longrightarrow> hi_fresh u1 flags" for u a flags fp u1 f1
  proof (cases "has_hif (hi_state u flags) HIF_ERR")
    case False
    then show "hi_callback u a flags fp = (PAF_FLUSH, u1, f1) \<Longrightarrow> hi_good u1 \<Longrightarrow> hi_fresh u1 flags"
      using same_reset by (auto simp: hi_callback_scan hi_result_def hi_fresh_def hi_good_def split: option.splits if_splits)
  qed (simp add: hi_callback_ERR)
qed (rule hi_split [THEN conjunct1] hi_split [THEN conjunct2] hi_stop hi_fresh_same; assumption)+

section \<open>Streams of messages\<close>

text \<open>
  A message: its headers end without an error at a point where the scanner wants a flush, and the body is
  as long as it says.
\<close>

definition http_message :: "u32 \<Rightarrow> u8 list \<Rightarrow> bool" where
  "http_message flags p = (case hi_scan (hi_reset hi_calloc flags) p (length p) 0 of
      None \<Rightarrow> False
    | Some (r, s, n, f) \<Rightarrow> r = PAF_FLUSH \<and> \<not> has_hif s HIF_ERR \<and> n + unat (hs_len s) = length p \<and> p \<noteq> [])"

lemma hi_scan_found_len:
  "hi_scan s xs len fp = Some (r, s', n, f) \<Longrightarrow> r \<noteq> PAF_SEARCH \<Longrightarrow> f = hs_len s'"
proof (induction xs arbitrary: s fp)
  case (Cons c xs)
  show ?case
  proof (cases rule: hi_scan_cons_cases [of s c])
    case skip
    then show ?thesis using Cons by simp
  next
    case scan
    then show ?thesis using Cons by (cases rule: hi_scan_msg_cases [of s c]) auto
  qed
qed (simp add: hi_scan_Nil)

lemma hi_message:
  assumes "http_message flags p"
  shows "hi.message flags p"
proof -
  let ?s = "hi_state None flags"
  have n: "\<not> has_hif ?s HIF_ERR" using reset_no_ERR by (simp add: hi_state_def)
  obtain s n f where s: "hi_scan ?s p (length p) 0 = Some (PAF_FLUSH, s, n, f)" and e: "\<not> has_hif s HIF_ERR"
    and len: "n + unat (hs_len s) = length p" "p \<noteq> []"
    using assms by (auto simp: http_message_def hi_state_def split: option.splits prod.splits)
  have "f = hs_len s" using hi_scan_found_len [OF s] by simp
  then have "f + of_nat n = of_nat (length p)" unfolding len(1) [symmetric] by simp
  then have "outcome (hi_callback None p flags 0) = (PAF_FLUSH, of_nat (length p))"
    by (simp add: hi_callback_scan [OF n] hi_result_def s e)
  moreover have "hi_good (fst (snd (hi_callback None (take k p) flags 0)))" if "k \<le> length p" for k
  proof -
    have app: "hi_scan ?s p (length p) 0 = (case hi_scan ?s (take k p) k 0 of
        None \<Rightarrow> None
      | Some (r, s', n, f) \<Rightarrow> if r \<noteq> PAF_SEARCH then Some (r, s', n, f) else hi_scan s' (drop k p) (length p) f)"
    proof -
      have "k + length (drop k p) = length p" using that by simp
      then show ?thesis using hi_scan_append [of ?s "take k p" "drop k p" k 0] by (simp only: append_take_drop_id)
    qed
    show ?thesis
    proof (cases "hi_scan ?s (take k p) k 0")
      case None
      then show ?thesis using app s by simp
    next
      case (Some t)
      obtain r s1 n1 f1 where t: "t = (r, s1, n1, f1)" by (cases t)
      have "\<not> has_hif s1 HIF_ERR"
      proof (cases "r = PAF_SEARCH")
        case True
        then have "hi_scan s1 (drop k p) (length p) f1 = Some (PAF_FLUSH, s, n, f)" using app s Some t by simp
        then show ?thesis
          using hi_scan_keeps [where P = "\<lambda>s. bit (hs_flags s) 9", OF hi_msg_switch_err] e by (auto simp: has_ERR)
      next
        case False
        then show ?thesis using app s e Some t by simp
      qed
      moreover have "length (take k p) = k" using that by simp
      ultimately show ?thesis using Some t
        unfolding hi_callback_scan [OF n] by (simp only:) (simp add: hi_result_def hi_good_def reset_no_ERR)
    qed
  qed
  ultimately show ?thesis using len(2) by (simp add: hi.message_def)
qed


section \<open>The content length\<close>

definition post_header :: "u8 list" where
  "post_header = map (\<lambda>c. of_nat (of_char c)) ''POST / HTTP/1.1'' @ [13, 10] @ map (\<lambda>c. of_nat (of_char c)) ''Content-Length: ''"

fun decimal :: "nat \<Rightarrow> u8 list \<Rightarrow> nat" where
  "decimal n [] = n"
| "decimal n (d # ds) = decimal (10 * n + (unat d - 48)) ds"

lemma post_header_scan:
  "hi_scan (hi_reset hi_calloc PKT_FROM_CLIENT) post_header (length post_header) 0
   = Some (PAF_SEARCH, \<lparr>hs_len = 0, hs_flags = 0xC01, hs_msg = 0, hs_fsm = 52, hs_evs = []\<rparr>, length post_header, 0)"
  by code_simp

lemma digit_entries:
  "hi_fsm ! 52 = (32, 52, 80, ACT_LN0)" "hi_fsm ! 80 = (10, 36, 81, ACT_LNB)" "hi_fsm ! 81 = (0, 80, 80, ACT_SHI)"
  by (simp_all add: hi_fsm_def)

lemma walk_90:
  "fsm_walk 90 m c = (case hi_fsm ! m of (event, match, other, action) \<Rightarrow> if event = 0 \<or> event = c then Some (action, match) else fsm_walk 89 other c)"
  "fsm_walk 89 m c = (case hi_fsm ! m of (event, match, other, action) \<Rightarrow> if event = 0 \<or> event = c then Some (action, match) else fsm_walk 88 other c)"
  "fsm_walk 88 m c = (case hi_fsm ! m of (event, match, other, action) \<Rightarrow> if event = 0 \<or> event = c then Some (action, match) else fsm_walk 87 other c)"
  using fsm_walk.simps(2) [of 89 m c] fsm_walk.simps(2) [of 88 m c] fsm_walk.simps(2) [of 87 m c] by simp_all

lemma digit_walk:
  assumes "isdigit d" and "m = 52 \<or> m = 80"
  shows "fsm_walk (length hi_fsm) m d = Some (ACT_SHI, 80)"
proof -
  have "d \<noteq> 32" "d \<noteq> 10" using assms(1) by (auto simp: isdigit_def word_le_nat_alt)
  then show ?thesis using assms(2) by (auto simp: length_hi_fsm walk_90 digit_entries)
qed

lemma digit_step:
  assumes "isdigit d" and "hs_fsm s = 52 \<or> hs_fsm s = 80" and "hs_msg s = 0" and "\<not> has_hif s HIF_ERR" and "hs_len s < 429496728"
  shows "hi_scan s (d # xs) len fp = hi_scan (s\<lparr>hs_fsm := 80, hs_len := 10 * hs_len s + dton d\<rparr>) xs len fp"
proof -
  have d: "d \<noteq> 9" "d \<noteq> EOL" "d \<noteq> 13" "toupper d = d"
    using assms(1) by (auto simp: isdigit_def word_le_nat_alt toupper_def)
  have "\<not> has_hif (s\<lparr>hs_fsm := 80\<rparr>) HIF_ERR" using assms(4) by (simp add: has_hif_def)
  then show ?thesis using assms d digit_walk [OF assms(1,2)]
    by (auto simp: hi_scan_step hi_scan_msg_def hi_msg_switch_def hi_scan_fsm_def)
qed

lemma decimal_ge: "n \<le> decimal n ds"
  by (induction n ds rule: decimal.induct) auto

lemma digits_scan:
  assumes "list_all isdigit ds" and "ds \<noteq> []" and "hs_fsm s = 52 \<or> hs_fsm s = 80" and "hs_msg s = 0" and "\<not> has_hif s HIF_ERR"
    and "decimal (unat (hs_len s)) ds < 4294967280"
  shows "hi_scan s (ds @ xs) len fp = hi_scan (s\<lparr>hs_fsm := 80, hs_len := of_nat (decimal (unat (hs_len s)) ds)\<rparr>) xs len fp"
  using assms
proof (induction ds arbitrary: s)
  case (Cons d ds)
  let ?n = "unat (hs_len s)" and ?v = "unat d - 48"
  let ?s = "s\<lparr>hs_fsm := 80, hs_len := 10 * hs_len s + dton d\<rparr>"
  have small: "10 * ?n + ?v < 4294967280" using Cons.prems(6) decimal_ge [of "10 * ?n + ?v" ds] by simp
  have d: "48 \<le> unat d" "unat d \<le> 57" using Cons.prems(1) by (simp_all add: isdigit_def word_le_nat_alt)
  have dton: "dton d = of_nat ?v" using d by (simp add: dton_def of_nat_diff)
  have "10 * hs_len s + dton d = of_nat (10 * ?n + ?v)" by (simp add: dton)
  then have v: "unat (10 * hs_len s + dton d) = 10 * ?n + ?v" by (simp only: unat_of_nat) (use small in simp)
  have lt: "hs_len s < 429496728" using small by (simp add: word_less_nat_alt)
  have "hi_scan s ((d # ds) @ xs) len fp = hi_scan ?s (ds @ xs) len fp"
    using digit_step [of d s "ds @ xs" len fp] Cons.prems lt by simp
  also have "\<dots> = hi_scan (?s\<lparr>hs_fsm := 80, hs_len := of_nat (decimal (10 * ?n + ?v) ds)\<rparr>) xs len fp"
  proof (cases "ds = []")
    case True
    then show ?thesis by (simp add: dton)
  next
    case False
    then show ?thesis using Cons.IH [of ?s] Cons.prems v by (simp add: has_hif_def)
  qed
  finally show ?case by simp
qed simp


theorem http_length_wraps:
  "snd (snd (hi_callback None (post_header @ map (\<lambda>c. of_nat (of_char c)) ''4294967279'' @ [13, 10, 13, 10]) PKT_FROM_CLIENT 0)) = 30
   \<and> length (post_header @ map (\<lambda>c. of_nat (of_char c)) ''4294967279'' @ [13, 10, 13, 10]) = 47"
  by code_simp



text \<open>
  C40: Whatever the bytes, the scanner finds an entry of its table for each, and stays in the table.
\<close>

theorem hi_paf_total:
  assumes "\<forall>s. hip = Some s \<longrightarrow> hs_fsm s < 90"
  shows "\<exists>st s' peer' fp n. hi_paf cap hip peer bytes data flags = Some (st, Some s', peer', fp, n) \<and> hs_fsm s' < 90"
proof -
  let ?s = "case hip of None \<Rightarrow> hi_reset hi_calloc flags | Some s \<Rightarrow> s"
  have r: "hs_fsm (hi_reset x flags) < 90" for x by (simp add: hi_reset_def)
  have s: "hs_fsm ?s < 90" using assms r by (auto split: option.splits)
  obtain st s1 n f where scan: "hi_scan ?s data (length data) 0 = Some (st, s1, n, f)"
    using hi_scan_total [OF s, of data "length data" 0] by auto
  have "hs_fsm s1 < 90"
    by (rule hi_scan_keeps [where P = "\<lambda>s. hs_fsm s < 90", OF _ scan s]) (rule hi_msg_switch_fsm)
  then show ?thesis using scan s r by (auto simp: hi_paf_def Let_def)
qed

theorem hi_paf_total_witness:
  "\<exists>st s' peer' fp n. hi_paf 0 None None 0 [71, 10, 0xff] PKT_FROM_CLIENT = Some (st, Some s', peer', fp, n) \<and> hs_fsm s' < 90"
  by (rule hi_paf_total) simp

end
