(* ===== verification/Spec2Isabelle.thy ===== *)
theory Spec2Isabelle
  imports SfXHash SfThd SfRf SfEventq Frag3Tracker AcsmDfa MailStream LinkProofs SfRtTable PduProofs HiProofs
begin

text \<open>
  This library models parts of Snort 2.9.2.2, a network intrusion detection system, and proves what
  makes them correct, or shows where they are not. File names are relative to the repository.

  \<^bold>\<open>The program and the parts modelled.\<close> A packet travels through Snort in this order: the data
  acquisition library hands a captured frame to a link decoder, which lays pointers over the headers
  of every layer (\<open>src/src/decode.c\<close>); the preprocessors put fragments together
  (\<open>preprocessors/spp_frag3.c\<close>), cut the streams of TCP at the ends of the messages they carry
  (\<open>Stream5/stream5_paf.c\<close> with the scanners \<open>HttpInspect/utils/hi_paf.c\<close>, \<open>modbus_paf.c\<close>,
  \<open>dnp3_paf.c\<close>, \<open>dce2_paf.c\<close>), look addresses up in routing tables (\<open>sfutil/sfrt.c\<close>, \<open>sfrt_dir.c\<close>), undo the encodings of mail attachments
  (\<open>sfutil/sf_email_attach_decode.c\<close>, \<open>sf_base64decode.c\<close>, \<open>util_unfold.c\<close>) and so on; the detection
  engine searches the payload for all patterns of the rules at once (\<open>sfutil/acsmx.c\<close>) and evaluates
  the options of the rules that are left; the events found are collected in the queue of the
  packet (\<open>event_queue.c\<close>, \<open>sfutil/sfeventq.c\<close>), and before one is logged the rate filters, the
  event filters and the suppressions decide about it (\<open>rate_filter.c\<close>, \<open>sfutil/sfrf.c\<close>,
  \<open>sfthreshold.c\<close>, \<open>detection_filter.c\<close>, \<open>sfutil/sfthd.c\<close>). The filters keep their counters for
  each address in a hash table with a memory cap that gives up its least recently used entry
  (\<open>sfutil/sfxhash.c\<close>, \<open>sfmemcap.c\<close>, \<open>sfhashfcn.c\<close>).

  \<^bold>\<open>The theories.\<close> Definitions carry the names of the functions and types they model; one with another
  name is a piece of a long function (a loop, a branch, a label).

  \<^item> \<open>SnortPrelude\<close>: machine types, generic lemmas.
  \<^item> \<open>Decode\<close>, \<open>Ip6Tests\<close>, \<open>DecodeLayers\<close>: the decoders of \<open>decode.c\<close> from \<open>DecodeEthPkt\<close> down. The record
    \<open>Packet\<close> is the \<open>Packet\<close> of \<open>decode.h\<close>; a pointer into the capture is an offset, a NULL pointer is
    \<open>None\<close>. Every read states the window the code was given and ends in \<open>Inl (Overread site)\<close> when it
    leaves it. The mutual recursion of the decoders goes through the datatype \<open>decoder\<close>: each
    decoder is a definition with the next one as its argument, \<open>decode\<close> ties them.
    \<open>DecodeSafe\<close> and \<open>DecodeProofs\<close> hold the invariant of the packet and a rule for each reading
    operation (\<open>ok_res\<close>), and with them the safety of each decoder; \<open>FrameSteps\<close> and
    \<open>DecodeFrames\<close> follow plain frames and the frames that make the code read too far. \<open>LinkLayers\<close>
    and \<open>LinkProofs\<close> do the same for the decoders of the other link layers.
  \<^item> \<open>KeyedStore\<close>: the locales that state what a tracker relies on in its table; \<open>SfXHash\<close>: the hash table, its
    invariant, its refinement to a bounded list in order of use, and the interpretations of the locales.
  \<^item> \<open>SfThd\<close>, \<open>SfRf\<close>: event filters with suppression and detection filters, rate filters. The
    objects of a configuration are in a store, since they are shared between generator ids.
  \<^item> \<open>SfEventq\<close>: the queue with its reserve event, ordered and unordered.
  \<^item> \<open>Frag3\<close>, \<open>Frag3Tracker\<close>: one defragmentation tracker, every policy; its invariant, its refinement to a
    map from offsets to bytes and the rebuilt datagram.
  \<^item> \<open>Acsm\<close>, \<open>AcsmTrie\<close>, \<open>AcsmDfa\<close>: the Aho-Corasick matcher; the states are the prefixes of the patterns,
    failure and transition are the longest suffix that is a prefix, the search is the search that
    compares everywhere. The locale \<open>bfs_tree\<close> is the contract of the two loops over the queue.
  \<^item> \<open>MailDecode\<close>, \<open>MailStream\<close>: the attachment decoders with the state they keep between packets; the
    locale \<open>session_decoder\<close> is what \<open>EmailDecode\<close> relies on in each of them.
  \<^item> \<open>SfRt\<close>, \<open>SfRtProofs\<close>, \<open>SfRtTable\<close>: the routing tables. A trie is a datatype, its counters are part of the
    invariant; the lookup is the longest prefix match (locale \<open>prefix_table\<close>), and every operation of the
    table of data around the tries is described by what all lookups return afterwards.
  \<^item> \<open>Paf\<close>, \<open>PafProofs\<close>: protocol-aware flushing of one direction of a TCP session and the loops over its
    segments. The locale \<open>paf_scanner\<close> is the contract of a scanner: what it finds depends on the bytes
    and not on how they are cut. From it follows that a stream is flushed message by message.
    \<open>PduPaf\<close> and \<open>PduProofs\<close>: the scanners of Modbus, DNP3, SMB and DCE/RPC over TCP; the first three
    are machines with a step per byte (\<open>byte_scanner\<close>, a sublocale of \<open>paf_scanner\<close>), the last one breaks the
    contract. \<open>HiPaf\<close> and \<open>HiProofs\<close>: the HTTP scanner and its table of states.

  \<^bold>\<open>Bounds.\<close> Where a loop of the code need not end by its form, the model has fuel and the fuel is shown to be
  enough. Decoding nests at most three calls for each captured byte, so \<open>decode_frame\<close> takes
  \<open>3 * caplen + 3\<close> (\<open>rank\<close> in \<open>DecodeSafe\<close> is the measure); the option, extension and label loops
  consume at least a byte of their window each and take its length. The loop of \<open>Frag3Insert\<close> over the
  nodes to the right takes one round for each of them and one more. The walks of the
  pattern matcher take two more than the sum of the pattern lengths, a bound on the number of states.
  \<open>s5_paf_check\<close> takes two rounds more than there are bytes; the proofs need at most two. The table of
  \<open>hi_paf.c\<close> is walked with as much fuel as it has entries, which \<open>hi_paf_total\<close> shows to be enough.
  The unrolled loops of \<open>checksum.h\<close> are the sum over the bytes.

  \<^bold>\<open>What is assumed.\<close> \<open>SnortAlloc\<close> ends the process when memory is out, and \<open>calloc\<close> is taken to succeed;
  what the program itself limits, the memory caps, is modelled. A \<open>SFGHASH\<close> of a configuration is read as
  the partial map it implements, an \<open>IpAddrSet\<close> as its membership test, the policy id of a call is an
  argument. The build is the one with IPv6, GRE, MPLS and target-based reassembly.

  \<^bold>\<open>Not modelled.\<close> Of the parts above: counters and performance monitoring, messages, the callbacks that
  drop a packet, the functions that only free memory or print. Of the program: the preprocessors not
  named (\<open>stream5\<close> but for the flushing, \<open>HttpInspect\<close> but for its scanner, \<open>sfPortscan\<close>, the dynamic ones), the parser of the configuration,
  the compilation and evaluation of rule groups (\<open>fpcreate.c\<close>, \<open>fpdetect.c\<close>), most rule options, the
  other pattern matchers, the output plug-ins and the process control of \<open>snort.c\<close>; they are listed with
  their reason as components of the manifest.
\<close>

end
